(* ===== verification/Prelude.thy ===== *)
theory Prelude
  imports Main "HOL-Library.Word"
begin

text \<open>
  What every component of the Smart-Home firmware shares: the C integer types as words,
  the outcome of a C function call (it returns, it touches memory outside an object, or
  it busy-waits for ever), array reads that fault outside the array, and the bridge
  lemmas between words and natural numbers that the component proofs rest on.
\<close>

section \<open>C integers\<close>

type_synonym u8 = "8 word"
type_synonym u16 = "16 word"
type_synonym u32 = "32 word"

named_theorems nat_bridge
  \<comment> \<open>equations that move a word computation to natural numbers\<close>

lemma unat_inc_u8 [nat_bridge]: "(a :: u8) < b \<Longrightarrow> unat (a + 1) = unat a + 1"
  by unat_arith

lemma unat_inc_u16 [nat_bridge]: "(a :: u16) < b \<Longrightarrow> unat (a + 1) = unat a + 1"
  by unat_arith

lemma unat_inc_u32 [nat_bridge]: "(a :: u32) < b \<Longrightarrow> unat (a + 1) = unat a + 1"
  by unat_arith

lemma unat_u8_lt [simp]: "unat (a :: u8) < 256"
  using unsigned_less [of a] by simp

lemma unat_u16_lt [simp]: "unat (a :: u16) < 65536"
  using unsigned_less [of a] by simp

lemma unat_u32_lt [simp]: "unat (a :: u32) < 4294967296"
  using unsigned_less [of a] by simp

lemma unat_suc_u8: "unat (a :: u8) < 255 \<Longrightarrow> unat (a + 1) = unat a + 1"
  by (simp add: unat_word_ariths)

lemma unat_suc_u16: "unat (a :: u16) < 65535 \<Longrightarrow> unat (a + 1) = unat a + 1"
  by (simp add: unat_word_ariths)

lemma unat_suc_u32: "unat (a :: u32) < 4294967295 \<Longrightarrow> unat (a + 1) = unat a + 1"
  by (simp add: unat_word_ariths)

text \<open>A 16-bit counter below an 8-bit bound does not wrap when it is incremented.\<close>

lemma unat_suc_below_u8 [nat_bridge]:
  assumes "unat (a :: u16) < unat (b :: u8)"
  shows "unat (a + 1) = unat a + 1"
proof (rule unat_suc_u16)
  from assms unat_u8_lt [of b] show "unat a < 65535" by linarith
qed

lemma unat_diff_le [nat_bridge]: "b \<le> a \<Longrightarrow> unat (a - b) = unat a - unat b"
  by (rule unat_sub)

text \<open>A zero-extending conversion keeps the value.\<close>

lemma unat_ucast_up [simp]:
  assumes "LENGTH('a) \<le> LENGTH('b)"
  shows "unat (ucast (x :: 'a::len word) :: 'b::len word) = unat x"
proof -
  have "unat x < 2 ^ LENGTH('a)" by (rule unsigned_less)
  also have "\<dots> \<le> 2 ^ LENGTH('b)" using assms by simp
  finally show ?thesis by (simp add: unsigned_ucast_eq take_bit_nat_eq_self)
qed

lemma unat_of_nat_u8: "n < 256 \<Longrightarrow> unat (of_nat n :: u8) = n"
  by (simp add: unat_of_nat)

lemma unat_of_nat_u16: "n < 65536 \<Longrightarrow> unat (of_nat n :: u16) = n"
  by (simp add: unat_of_nat)

lemma unat_add_of_nat_u16: "unat (a :: u16) + n \<le> 65535 \<Longrightarrow> unat (a + of_nat n) = unat a + n"
  by (simp add: unat_word_ariths unsigned_of_nat take_bit_eq_mod)

lemma unat_of_nat_u32: "n < 4294967296 \<Longrightarrow> unat (of_nat n :: u32) = n"
  by (simp add: unat_of_nat)

lemma word_mod_0_iff: "(x :: 'a::len word) mod c = 0 \<longleftrightarrow> unat x mod unat c = 0"
  by (metis unat_0 unat_mod_distrib unsigned_eq_0_iff)

text \<open>The first summand of an interval sum.\<close>

lemma sum_first: "(\<Sum>i = a..<a + Suc n. f i) = f a + (\<Sum>i = a + 1..<a + 1 + n. f i)"
  by (simp add: sum.atLeast_Suc_lessThan del: sum.op_ivl_Suc)

text \<open>Every number has a place in consecutive blocks of positive lengths.\<close>

lemma block_position:
  fixes f :: "nat \<Rightarrow> nat"
  assumes "\<And>i. 0 < f i"
  shows "\<exists>n r. D = (\<Sum>i = a..<a + n. f i) + r \<and> r < f (a + n)"
proof (induction D)
  case 0
  then show ?case using assms by (intro exI [of _ 0]) simp
next
  case (Suc D)
  then obtain n r where D: "D = (\<Sum>i = a..<a + n. f i) + r" "r < f (a + n)" by blast
  show ?case
  proof (cases "Suc r < f (a + n)")
    case True
    with D show ?thesis by (intro exI [of _ n] exI [of _ "Suc r"]) simp
  next
    case False
    with D have "Suc D = (\<Sum>i = a..<a + Suc n. f i) + 0" by simp
    with assms show ?thesis by blast
  qed
qed

text \<open>A narrowing conversion reduces modulo the width.\<close>

lemma unat_ucast_mod: "unat (ucast (x :: 'a::len word) :: 'b::len word) = unat x mod 2 ^ LENGTH('b)"
  by (simp add: unsigned_ucast_eq take_bit_eq_mod)

lemma ucast_eq_of_nat: "unat x = n \<Longrightarrow> ucast (x :: 'a::len word) = (of_nat n :: 'b::len word)"
  by (metis of_nat_unat)

text \<open>A finite range is checked value by value.\<close>

lemma nat_below_cases: "n < k \<Longrightarrow> list_all P [0..<k] \<Longrightarrow> P n"
  by (simp add: list_all_iff)

section \<open>The outcome of a C function\<close>

datatype 'a cres =
    Ret 'a   \<comment> \<open>the function returns this value\<close>
  | Fault    \<comment> \<open>it reads or writes outside the object it indexes\<close>
  | Spin     \<comment> \<open>it waits in a loop that never ends\<close>

fun cbind :: "'a cres \<Rightarrow> ('a \<Rightarrow> 'b cres) \<Rightarrow> 'b cres" where
  "cbind (Ret a) f = f a"
| "cbind Fault f = Fault"
| "cbind Spin f = Spin"

lemma cbind_cong [fundef_cong]:
  "m = m' \<Longrightarrow> (\<And>a. m' = Ret a \<Longrightarrow> f a = g a) \<Longrightarrow> cbind m f = cbind m' g"
  by (cases m') auto

lemma cbind_Ret_iff: "cbind m f = Ret b \<longleftrightarrow> (\<exists>a. m = Ret a \<and> f a = Ret b)"
  by (cases m) auto

definition c_read :: "'a list \<Rightarrow> nat \<Rightarrow> 'a cres" where
  "c_read xs i = (if i < length xs then Ret (xs ! i) else Fault)"

lemma c_read_Ret [simp]: "i < length xs \<Longrightarrow> c_read xs i = Ret (xs ! i)"
  by (simp add: c_read_def)

lemma c_read_Fault [simp]: "length xs \<le> i \<Longrightarrow> c_read xs i = Fault"
  by (simp add: c_read_def)

definition c_write :: "'a list \<Rightarrow> nat \<Rightarrow> 'a \<Rightarrow> 'a list cres" where
  "c_write xs i v = (if i < length xs then Ret (xs[i := v]) else Fault)"

lemma c_write_Ret [simp]: "i < length xs \<Longrightarrow> c_write xs i v = Ret (xs[i := v])"
  by (simp add: c_write_def)

lemma c_write_Fault [simp]: "length xs \<le> i \<Longrightarrow> c_write xs i v = Fault"
  by (simp add: c_write_def)

text \<open>\<open>n\<close> stores of one value from index \<open>i\<close> on, and \<open>n\<close> stores of successive values.\<close>

fun store_run :: "'a list \<Rightarrow> nat \<Rightarrow> nat \<Rightarrow> 'a \<Rightarrow> 'a list cres" where
  "store_run xs i 0 v = Ret xs"
| "store_run xs i (Suc n) v = cbind (c_write xs i v) (\<lambda>xs. store_run xs (Suc i) n v)"

definition fill :: "'a list \<Rightarrow> nat \<Rightarrow> nat \<Rightarrow> 'a \<Rightarrow> 'a list" where
  "fill xs i n v = take i xs @ replicate n v @ drop (i + n) xs"

lemma length_fill [simp]: "i + n \<le> length xs \<Longrightarrow> length (fill xs i n v) = length xs"
  by (simp add: fill_def)

lemma nth_fill:
  "i + n \<le> length xs \<Longrightarrow> j < length xs \<Longrightarrow>
     fill xs i n v ! j = (if i \<le> j \<and> j < i + n then v else xs ! j)"
  by (auto simp: fill_def nth_append)

lemma store_run_Ret: "i + n \<le> length xs \<Longrightarrow> store_run xs i n v = Ret (fill xs i n v)"
  unfolding fill_def
proof (induction xs i n v rule: store_run.induct)
  case (2 xs i n v)
  have "take (Suc i) (xs[i := v]) = take i xs @ [v]"
    using "2.prems" by (simp add: take_Suc_conv_app_nth)
  moreover have "drop (Suc i + n) (xs[i := v]) = drop (i + Suc n) xs" by simp
  ultimately show ?case using 2 by simp
qed simp

lemma store_run_Fault: "length xs < i + n \<Longrightarrow> i \<le> length xs \<Longrightarrow> store_run xs i n v = Fault"
proof (induction xs i n v rule: store_run.induct)
  case (2 xs i n v)
  then show ?case by (cases "i < length xs") simp_all
qed simp

section \<open>Statements\<close>

text \<open>\<open>if (c) s;\<close> on an explicit state.\<close>

definition on_cond :: "bool \<Rightarrow> ('a \<Rightarrow> 'a) \<Rightarrow> 'a \<Rightarrow> 'a" where
  "on_cond c f s = (if c then f s else s)"

lemma on_cond_simps [simp]: "on_cond True f s = f s" "on_cond False f s = s"
  by (simp_all add: on_cond_def)

lemma on_cond_keeps: "(\<And>s. g (f s) = g s) \<Longrightarrow> g (on_cond c f s) = g s"
  by (simp add: on_cond_def)

lemma on_cond_inv: "P s \<Longrightarrow> (P s \<Longrightarrow> P (f s)) \<Longrightarrow> P (on_cond c f s)"
  by (simp add: on_cond_def)

text \<open>A loop over a list keeps what each turn keeps.\<close>

lemma foldl_inv: "P s \<Longrightarrow> (\<And>s x. P s \<Longrightarrow> P (f s x)) \<Longrightarrow> P (foldl f s xs)"
  by (induction xs arbitrary: s) simp_all

end
