(* ===== verification/Pool_Alloc.thy ===== *)
theory Pool_Alloc
  imports Prelude
begin

text \<open>
  The memory manager \<open>applications/malloc.c\<close> (the copy in \<open>MALLOC/\<close> is the same file): two
  pools of 32-byte cells, each with a table that holds, for every cell, 0 or the number of
  cells of the block the cell belongs to. Allocation searches the table from its end.
\<close>

section \<open>State\<close>

record bank =
  memmap :: "u16 list"
  pool :: "u8 list"
  membase :: u32
  memrdy :: u8

type_synonym mallco_dev = "bank list"  \<comment> \<open>the \<open>SRAMBANK\<close> banks of \<open>mallco_dev\<close>\<close>

definition memtblsize :: "nat list" where "memtblsize = [1280, 30720]"
definition memblksize :: "nat list" where "memblksize = [32, 32]"
definition memsize :: "nat list" where "memsize = [40960, 983040]"

section \<open>Operations\<close>

text \<open>\<open>while(n--)*xdes++=*xsrc++;\<close> inside one pool.\<close>

fun mymemcpy :: "nat \<Rightarrow> nat \<Rightarrow> nat \<Rightarrow> u8 list \<Rightarrow> u8 list cres" where
  "mymemcpy des src 0 xs = Ret xs"
| "mymemcpy des src (Suc n) xs =
     cbind (c_read xs src) (\<lambda>v. cbind (c_write xs des v) (\<lambda>xs. mymemcpy (Suc des) (Suc src) n xs))"

definition mymemset :: "'a list \<Rightarrow> 'a \<Rightarrow> nat \<Rightarrow> 'a list cres" where
  "mymemset xs c count = store_run xs 0 count c"

text \<open>The table is cleared as bytes, two for each entry.\<close>

definition my_mem_init :: "nat \<Rightarrow> bank \<Rightarrow> bank cres" where
  "my_mem_init memx b =
     cbind (mymemset (memmap b) 0 (memtblsize ! memx)) (\<lambda>m.
     cbind (mymemset (pool b) 0 (memsize ! memx)) (\<lambda>p.
       Ret (b \<lparr> memmap := m, pool := p, memrdy := 1 \<rparr>)))"

text \<open>\<open>used\<close> counts the nonzero entries from index \<open>i\<close> on.\<close>

fun count_used :: "u16 list \<Rightarrow> nat \<Rightarrow> nat \<Rightarrow> u32 \<Rightarrow> u32 cres" where
  "count_used m i 0 used = Ret used"
| "count_used m i (Suc n) used =
     cbind (c_read m i) (\<lambda>v. count_used m (Suc i) n (if v \<noteq> 0 then used + 1 else used))"

definition my_mem_perused :: "nat \<Rightarrow> bank \<Rightarrow> u8 cres" where
  "my_mem_perused memx b =
     cbind (count_used (memmap b) 0 (memtblsize ! memx) 0) (\<lambda>used.
       Ret (ucast ((used * 100) div of_nat (memtblsize ! memx))))"

text \<open>
  \<open>for(offset=memtblsize[memx]-1;offset>=0;offset--)\<close>; the first argument after the table is
  \<open>offset + 1\<close>. The result is the offset at which \<open>cmemb\<close> reaches \<open>nmemb\<close>.
\<close>

fun find_run :: "u16 list \<Rightarrow> nat \<Rightarrow> u32 \<Rightarrow> u32 \<Rightarrow> nat option cres" where
  "find_run m 0 cmemb nmemb = Ret None"
| "find_run m (Suc offset) cmemb nmemb =
     cbind (c_read m offset) (\<lambda>v.
       let cmemb = (if v = 0 then cmemb + 1 else 0)
       in if cmemb = nmemb then Ret (Some offset) else find_run m offset cmemb nmemb)"

definition cells_for :: "nat \<Rightarrow> u32 \<Rightarrow> u32" where
  "cells_for memx sz =
     (let blk = of_nat (memblksize ! memx); nmemb = sz div blk
      in if sz mod blk \<noteq> 0 then nmemb + 1 else nmemb)"

definition my_mem_malloc :: "nat \<Rightarrow> u32 \<Rightarrow> bank \<Rightarrow> (u32 \<times> bank) cres" where
  "my_mem_malloc memx sz b =
     cbind (if memrdy b = 0 then my_mem_init memx b else Ret b) (\<lambda>b.
       if sz = 0 then Ret (0xFFFFFFFF, b) else
       (let nmemb = cells_for memx sz in
        cbind (find_run (memmap b) (memtblsize ! memx) 0 nmemb) (\<lambda>found.
          case found of
            None \<Rightarrow> Ret (0xFFFFFFFF, b)
          | Some offset \<Rightarrow>
              cbind (store_run (memmap b) offset (unat nmemb) (ucast nmemb)) (\<lambda>m.
                Ret (of_nat (offset * (memblksize ! memx)), b \<lparr> memmap := m \<rparr>)))))"

definition my_mem_free :: "nat \<Rightarrow> u32 \<Rightarrow> bank \<Rightarrow> (u8 \<times> bank) cres" where
  "my_mem_free memx offset b =
     (if memrdy b = 0 then cbind (my_mem_init memx b) (\<lambda>b. Ret (1, b))
      else if unat offset < memsize ! memx then
        (let index = unat offset div (memblksize ! memx) in
         cbind (c_read (memmap b) index) (\<lambda>nmemb.
         cbind (store_run (memmap b) index (unat nmemb) 0) (\<lambda>m.
           Ret (0, b \<lparr> memmap := m \<rparr>))))
      else Ret (2, b))"

definition myfree :: "nat \<Rightarrow> u32 \<Rightarrow> bank \<Rightarrow> bank cres" where
  "myfree memx ptr b =
     (if ptr = 0 then Ret b
      else cbind (my_mem_free memx (ptr - membase b) b) (\<lambda>(_, b). Ret b))"

definition mymalloc :: "nat \<Rightarrow> u32 \<Rightarrow> bank \<Rightarrow> (u32 \<times> bank) cres" where
  "mymalloc memx sz b =
     cbind (my_mem_malloc memx sz b) (\<lambda>(offset, b).
       if offset = 0xFFFFFFFF then Ret (0, b) else Ret (membase b + offset, b))"

text \<open>The copy reads \<open>sz\<close> bytes of the old block, the size asked for the new one.\<close>

definition myrealloc :: "nat \<Rightarrow> u32 \<Rightarrow> u32 \<Rightarrow> bank \<Rightarrow> (u32 \<times> bank) cres" where
  "myrealloc memx ptr sz b =
     cbind (my_mem_malloc memx sz b) (\<lambda>(offset, b).
       if offset = 0xFFFFFFFF then Ret (0, b) else
       cbind (mymemcpy (unat offset) (unat (ptr - membase b)) (unat sz) (pool b)) (\<lambda>p.
       cbind (myfree memx ptr (b \<lparr> pool := p \<rparr>)) (\<lambda>b.
         Ret (membase b + offset, b))))"

section \<open>The search\<close>

definition free_run :: "u16 list \<Rightarrow> nat \<Rightarrow> nat \<Rightarrow> bool" where
  "free_run m s n \<longleftrightarrow> s + n \<le> length m \<and> (\<forall>i. s \<le> i \<and> i < s + n \<longrightarrow> m ! i = 0)"

text \<open>The search returns the highest free run, and none when there is none.\<close>

lemma find_run_spec:
  assumes "k + unat c \<le> length m" and "unat c < unat n" and "length m < 4294967296"
    and "\<forall>i. k \<le> i \<and> i < k + unat c \<longrightarrow> m ! i = 0"
    and "k + unat c = length m \<or> m ! (k + unat c) \<noteq> 0"
    and "\<forall>s \<ge> k. \<not> free_run m s (unat n)"
  shows "\<exists>r. find_run m k c n = Ret r \<and>
    (case r of None \<Rightarrow> \<forall>s. \<not> free_run m s (unat n)
     | Some off \<Rightarrow> free_run m off (unat n) \<and> (\<forall>s > off. \<not> free_run m s (unat n)))"
  using assms
proof (induction k arbitrary: c)
  case 0
  then show ?case by simp
next
  case (Suc k)
  have k: "k < length m" using Suc.prems(1) by simp
  show ?case
  proof (cases "m ! k = 0")
    case zero: True
    have c1: "unat (c + 1) = Suc (unat c)"
      using Suc.prems(1,3) unat_suc_u32 [of c] by simp
    have run: "\<forall>i. k \<le> i \<and> i < k + unat (c + 1) \<longrightarrow> m ! i = 0"
      using Suc.prems(4) zero unfolding c1
      by (metis Suc_leI add_Suc add_Suc_right le_neq_implies_less)
    have len: "k + unat (c + 1) \<le> length m" using Suc.prems(1) c1 by simp
    show ?thesis
    proof (cases "c + 1 = n")
      case True
      then have "free_run m k (unat n)" using run len by (auto simp: free_run_def)
      moreover have "\<forall>s > k. \<not> free_run m s (unat n)" using Suc.prems(6) by auto
      ultimately show ?thesis using k zero True by (simp add: Let_def)
    next
      case False
      then have less: "unat (c + 1) < unat n"
        using Suc.prems(2) c1 by (metis Suc_leI le_neq_implies_less word_unat_eq_iff)
      have "\<not> free_run m k (unat n)"
        using Suc.prems(5) less c1
        by (auto simp: free_run_def intro!: exI [of _ "Suc (k + unat c)"])
      then have "\<forall>s \<ge> k. \<not> free_run m s (unat n)"
        using Suc.prems(6) by (metis Suc_leI le_neq_implies_less)
      then show ?thesis
        using Suc.IH [of "c + 1"] Suc.prems(3,5) len less run k zero False c1 by (simp add: Let_def)
    qed
  next
    case False
    have "\<not> free_run m k (unat n)" using False Suc.prems(2) by (auto simp: free_run_def)
    then have "\<forall>s \<ge> k. \<not> free_run m s (unat n)"
      using Suc.prems(6) by (metis Suc_leI le_neq_implies_less)
    then have "\<exists>r. find_run m k 0 n = Ret r \<and>
      (case r of None \<Rightarrow> \<forall>s. \<not> free_run m s (unat n)
       | Some off \<Rightarrow> free_run m off (unat n) \<and> (\<forall>s > off. \<not> free_run m s (unat n)))"
      by (intro Suc.IH) (use Suc.prems(2,3) k False in auto)
    moreover have "0 \<noteq> n" using Suc.prems(2) by auto
    ultimately show ?thesis using k False by (simp add: Let_def)
  qed
qed

section \<open>Blocks\<close>

text \<open>
  A table represents a set of blocks \<open>(s, l)\<close>: they are not empty, lie in the table and do
  not overlap; a cell of a block holds the length of the block, every other cell is 0.
\<close>

definition cells :: "nat \<times> nat \<Rightarrow> nat set" where
  "cells b = {fst b..<fst b + snd b}"

definition table_rep :: "u16 list \<Rightarrow> (nat \<times> nat) set \<Rightarrow> bool" where
  "table_rep m A \<longleftrightarrow> length m < 65536 \<and>
     (\<forall>b \<in> A. 0 < snd b \<and> cells b \<subseteq> {..<length m} \<and> (\<forall>i \<in> cells b. m ! i = of_nat (snd b))) \<and>
     (\<forall>b \<in> A. \<forall>b' \<in> A. b \<noteq> b' \<longrightarrow> cells b \<inter> cells b' = {}) \<and>
     (\<forall>i < length m. (\<forall>b \<in> A. i \<notin> cells b) \<longrightarrow> m ! i = 0)"

lemma block_size:
  assumes "table_rep m A" and "b \<in> A"
  shows "fst b + snd b \<le> length m" and "snd b < 65536" and "0 < snd b"
proof -
  from assms have b: "0 < snd b" "cells b \<subseteq> {..<length m}" "length m < 65536"
    by (auto simp: table_rep_def)
  then have "fst b + snd b - 1 \<in> cells b" by (auto simp: cells_def)
  with b show "fst b + snd b \<le> length m" "snd b < 65536" "0 < snd b" by auto
qed

lemma cell_nonzero:
  assumes "table_rep m A" and "b \<in> A" and "i \<in> cells b"
  shows "m ! i \<noteq> 0"
proof -
  have "m ! i = of_nat (snd b)" using assms by (auto simp: table_rep_def)
  moreover have "unat (of_nat (snd b) :: u16) = snd b"
    using block_size(2) [OF assms(1,2)] by (rule unat_of_nat_u16)
  ultimately show ?thesis using block_size(3) [OF assms(1,2)] by (metis less_irrefl unat_0)
qed

lemma table_rep_alloc:
  assumes "table_rep m A" and "free_run m s l" and "0 < l"
  shows "table_rep (fill m s l (of_nat l)) (insert (s, l) A)"
    and "(s, l) \<notin> A" and "\<forall>b \<in> A. cells b \<inter> cells (s, l) = {}"
proof -
  from assms(2) have len: "s + l \<le> length m" and zero: "\<And>i. i \<in> cells (s, l) \<Longrightarrow> m ! i = 0"
    by (auto simp: free_run_def cells_def)
  show disj: "\<forall>b \<in> A. cells b \<inter> cells (s, l) = {}"
    using zero cell_nonzero [OF assms(1)] by blast
  have "s \<in> cells (s, l)" using assms(3) by (simp add: cells_def)
  with disj show "(s, l) \<notin> A" by blast
  have nth: "fill m s l (of_nat l) ! i = (if i \<in> cells (s, l) then of_nat l else m ! i)"
    if "i < length m" for i
    using nth_fill [OF len that] by (simp add: cells_def)
  have sub: "cells (s, l) \<subseteq> {..<length m}" using len by (auto simp: cells_def)
  have old: "cells b \<subseteq> {..<length m}" "\<forall>i \<in> cells b. i \<notin> cells (s, l)" if "b \<in> A" for b
    using assms(1) disj that by (auto simp: table_rep_def)
  show "table_rep (fill m s l (of_nat l)) (insert (s, l) A)"
    unfolding table_rep_def length_fill [OF len]
  proof (intro conjI ballI impI allI)
    fix b i assume b: "b \<in> insert (s, l) A" and i: "i \<in> cells b"
    show "fill m s l (of_nat l) ! i = of_nat (snd b)"
    proof (cases "b = (s, l)")
      case True
      with i sub have "i < length m" by blast
      with True i show ?thesis by (simp add: nth)
    next
      case False
      with b have A: "b \<in> A" by simp
      with i old have "i < length m" "i \<notin> cells (s, l)" by blast+
      moreover have "m ! i = of_nat (snd b)" using A i assms(1) by (auto simp: table_rep_def)
      ultimately show ?thesis by (simp add: nth)
    qed
  next
    fix i assume "i < length m" "\<forall>b \<in> insert (s, l) A. i \<notin> cells b"
    then show "fill m s l (of_nat l) ! i = 0" using nth [of i] assms(1) by (auto simp: table_rep_def)
  next
    fix b b' assume "b \<in> insert (s, l) A" "b' \<in> insert (s, l) A" "b \<noteq> b'"
    moreover have "\<forall>b \<in> A. \<forall>b' \<in> A. b \<noteq> b' \<longrightarrow> cells b \<inter> cells b' = {}"
      using assms(1) by (simp add: table_rep_def)
    ultimately show "cells b \<inter> cells b' = {}" using disj by (metis Int_commute insert_iff)
  qed (use assms sub disj in \<open>auto simp: table_rep_def\<close>)
qed

lemma table_rep_free:
  assumes "table_rep m A" and "(s, l) \<in> A"
  shows "table_rep (fill m s l 0) (A - {(s, l)})"
proof -
  have len: "s + l \<le> length m" using block_size(1) [OF assms] by simp
  have nth: "fill m s l 0 ! i = (if i \<in> cells (s, l) then 0 else m ! i)" if "i < length m" for i
    using nth_fill [OF len that] by (simp add: cells_def)
  have other: "\<forall>i \<in> cells b. i < length m \<and> i \<notin> cells (s, l) \<and> m ! i = of_nat (snd b)"
    if "b \<in> A - {(s, l)}" for b
    using assms that unfolding table_rep_def by blast
  show ?thesis
    unfolding table_rep_def length_fill [OF len]
  proof (intro conjI ballI impI allI)
    fix b i assume "b \<in> A - {(s, l)}" "i \<in> cells b"
    then show "fill m s l 0 ! i = of_nat (snd b)" using other nth by simp
  next
    fix i assume "i < length m" "\<forall>b \<in> A - {(s, l)}. i \<notin> cells b"
    then show "fill m s l 0 ! i = 0" using nth [of i] assms(1) by (auto simp: table_rep_def)
  qed (use assms in \<open>auto simp: table_rep_def\<close>)
qed

lemma fill_alloc_free:
  assumes "free_run m s l"
  shows "fill (fill m s l v) s l 0 = m"
proof -
  from assms have len: "s + l \<le> length m" and z: "\<forall>i. s \<le> i \<and> i < s + l \<longrightarrow> m ! i = 0"
    by (simp_all add: free_run_def)
  show ?thesis
    by (rule nth_equalityI) (use len z in \<open>auto simp: nth_fill\<close>)
qed

lemma table_rep_length: "table_rep m A \<Longrightarrow> length m < 65536"
  by (simp add: table_rep_def)

text \<open>No table: no block.\<close>

lemma table_rep_zero: "length m < 65536 \<Longrightarrow> \<forall>i < length m. m ! i = 0 \<Longrightarrow> table_rep m {}"
  by (simp add: table_rep_def)

section \<open>The operations on a bank\<close>

definition bank_ok :: "nat \<Rightarrow> u32 \<Rightarrow> bank \<Rightarrow> (nat \<times> nat) set \<Rightarrow> bool" where
  "bank_ok memx base b A \<longleftrightarrow> memx < 2 \<and> length (memmap b) = memtblsize ! memx \<and>
     length (pool b) = memsize ! memx \<and> memrdy b \<noteq> 0 \<and> table_rep (memmap b) A \<and>
     membase b = base \<and> base \<noteq> 0 \<and> unat base + memsize ! memx \<le> 4294967296"

lemma bank_cases: "memx < 2 \<Longrightarrow> memx = 0 \<or> memx = Suc 0"
  by linarith

lemma table_sizes:
  assumes "memx < 2"
  shows "memblksize ! memx = 32" and "memsize ! memx = 32 * (memtblsize ! memx)"
    and "memtblsize ! memx < 65536" and "0 < memtblsize ! memx"
  using bank_cases [OF assms] by (auto simp: memblksize_def memsize_def memtblsize_def)

definition cell_count :: "nat \<Rightarrow> nat" where
  "cell_count n = (n + 31) div 32"

lemma cell_count_ge: "n \<le> 32 * cell_count n"
  unfolding cell_count_def by linarith

lemma cell_count_pos: "0 < n \<Longrightarrow> 0 < cell_count n"
  by (simp add: cell_count_def)

lemma cell_count_div: "cell_count n = n div 32 + (if n mod 32 = 0 then 0 else 1)"
proof -
  define q r where "q = n div 32" and "r = n mod 32"
  have "n = 32 * q + r" and r: "r < 32" by (simp_all add: q_def r_def)
  then have "cell_count n = (r + 31 + q * 32) div 32" by (simp add: cell_count_def add_ac mult.commute)
  also have "\<dots> = q + (r + 31) div 32" by (simp only: div_mult_self1)
  also have "(r + 31) div 32 = (if r = 0 then 0 else 1)" using r by (simp add: div_nat_eqI)
  finally show ?thesis by (simp add: q_def r_def)
qed

lemma unat_cells_for:
  assumes "memx < 2"
  shows "unat (cells_for memx sz) = cell_count (unat sz)"
proof -
  have d: "unat (sz div 32) = unat sz div 32" by (simp add: unat_div)
  have "unat sz div 32 < 4294967295" using unat_u32_lt [of sz] by linarith
  then have "unat (sz div 32 + 1) = unat sz div 32 + 1" using unat_suc_u32 [of "sz div 32"] d by simp
  moreover have "sz mod 32 = 0 \<longleftrightarrow> unat sz mod 32 = 0" by (simp add: word_mod_0_iff)
  ultimately show ?thesis by (simp add: cells_for_def table_sizes [OF assms] Let_def d cell_count_div)
qed

text \<open>The two outcomes of an allocation of at least one byte.\<close>

lemma my_mem_malloc_cases:
  assumes "bank_ok memx base b A" and "sz \<noteq> 0"
  defines "n \<equiv> cell_count (unat sz)"
  obtains (none) "my_mem_malloc memx sz b = Ret (0xFFFFFFFF, b)"
      "\<forall>s. \<not> free_run (memmap b) s n"
    | (some) off where "my_mem_malloc memx sz b
        = Ret (of_nat (32 * off), b \<lparr> memmap := fill (memmap b) off n (of_nat n) \<rparr>)"
      "free_run (memmap b) off n" "\<forall>s > off. \<not> free_run (memmap b) s n" "0 < n"
proof -
  let ?n = "cells_for memx sz"
  from assms(1) have ok: "memx < 2" "length (memmap b) = memtblsize ! memx" "memrdy b \<noteq> 0"
    by (simp_all add: bank_ok_def)
  note sizes = table_sizes [OF ok(1)]
  have n: "unat ?n = n" unfolding n_def by (rule unat_cells_for [OF ok(1)])
  have "0 < unat sz" using assms(2) by (simp add: word_neq_0_conv word_less_nat_alt)
  then have pos: "0 < n" unfolding n_def by (rule cell_count_pos)
  have "\<exists>r. find_run (memmap b) (memtblsize ! memx) 0 ?n = Ret r \<and>
      (case r of None \<Rightarrow> \<forall>s. \<not> free_run (memmap b) s n
       | Some off \<Rightarrow> free_run (memmap b) off n \<and> (\<forall>s > off. \<not> free_run (memmap b) s n))"
    unfolding n [symmetric]
    by (rule find_run_spec) (use ok sizes n pos in \<open>auto simp: free_run_def\<close>)
  then obtain r where r: "find_run (memmap b) (memtblsize ! memx) 0 ?n = Ret r"
      "case r of None \<Rightarrow> \<forall>s. \<not> free_run (memmap b) s n
       | Some off \<Rightarrow> free_run (memmap b) off n \<and> (\<forall>s > off. \<not> free_run (memmap b) s n)"
    by blast
  show ?thesis
  proof (cases r)
    case None
    then have "my_mem_malloc memx sz b = Ret (0xFFFFFFFF, b)"
      using ok assms(2) r(1) by (simp add: my_mem_malloc_def Let_def)
    then show ?thesis using none r(2) None by simp
  next
    case (Some off)
    with r(2) have off: "free_run (memmap b) off n" "\<forall>s > off. \<not> free_run (memmap b) s n"
      by simp_all
    then have len: "off + n \<le> length (memmap b)" by (simp add: free_run_def)
    have "my_mem_malloc memx sz b
        = Ret (of_nat (32 * off), b \<lparr> memmap := fill (memmap b) off n (ucast ?n) \<rparr>)"
      using ok assms(2) r(1) Some store_run_Ret [OF len]
      by (simp add: my_mem_malloc_def Let_def n sizes mult.commute)
    moreover have "ucast ?n = (of_nat n :: u16)" using n by (rule ucast_eq_of_nat)
    ultimately show ?thesis by (intro some [OF _ off pos]) simp
  qed
qed

lemma my_mem_free_block:
  assumes "bank_ok memx base b A" and "(s, l) \<in> A"
  shows "my_mem_free memx (of_nat (32 * s)) b = Ret (0, b \<lparr> memmap := fill (memmap b) s l 0 \<rparr>)"
proof -
  from assms(1) have ok: "memx < 2" "length (memmap b) = memtblsize ! memx" "memrdy b \<noteq> 0"
      "table_rep (memmap b) A"
    by (simp_all add: bank_ok_def)
  note sizes = table_sizes [OF ok(1)]
  note blk = block_size [OF ok(4) assms(2), simplified]
  have s: "s < memtblsize ! memx" using blk ok(2) by simp
  then have off: "unat (of_nat (32 * s) :: u32) = 32 * s"
    using sizes(3) by (intro unat_of_nat_u32) simp
  have "s \<in> cells (s, l)" using blk by (simp add: cells_def)
  then have "memmap b ! s = of_nat l" using ok(4) assms(2) by (force simp: table_rep_def)
  moreover have "unat (of_nat l :: u16) = l" using blk(2) by (rule unat_of_nat_u16)
  ultimately show ?thesis
    using ok s store_run_Ret [of s l "memmap b" 0] blk(1)
    by (simp add: my_mem_free_def off sizes Let_def del: of_nat_mult)
qed

section \<open>The contract of an allocator\<close>

text \<open>
  What the users of a pool rely on: a request yields the null pointer or the start of a block
  large enough that was not live; a live block can be released; live blocks do not overlap.
\<close>

datatype request = Alloc u32 | Release nat  \<comment> \<open>the index of a live pointer\<close>

fun serve :: "(u32 \<Rightarrow> 's \<Rightarrow> (u32 \<times> 's) cres) \<Rightarrow> (u32 \<Rightarrow> 's \<Rightarrow> 's cres) \<Rightarrow> request list
    \<Rightarrow> 's \<Rightarrow> u32 list \<Rightarrow> ('s \<times> u32 list) cres" where
  "serve alloc release [] s ptrs = Ret (s, ptrs)"
| "serve alloc release (Alloc sz # rs) s ptrs =
     cbind (alloc sz s) (\<lambda>(p, s).
       serve alloc release rs s (if p = 0 then ptrs else ptrs @ [p]))"
| "serve alloc release (Release k # rs) s ptrs =
     (if k < length ptrs
      then cbind (release (ptrs ! k) s) (\<lambda>s.
             serve alloc release rs s (take k ptrs @ drop (Suc k) ptrs))
      else serve alloc release rs s ptrs)"

locale allocator =
  fixes live :: "'s \<Rightarrow> (nat \<times> nat) set \<Rightarrow> bool"
    and ptr :: "nat \<Rightarrow> u32"
    and alloc :: "u32 \<Rightarrow> 's \<Rightarrow> (u32 \<times> 's) cres"
    and release :: "u32 \<Rightarrow> 's \<Rightarrow> 's cres"
  assumes alloc_outcome: "live s A \<Longrightarrow>
      (\<exists>s'. alloc sz s = Ret (0, s') \<and> live s' A) \<or>
      (\<exists>s' b. alloc sz s = Ret (ptr (fst b), s') \<and> ptr (fst b) \<noteq> 0 \<and> b \<notin> A \<and>
              live s' (insert b A) \<and> unat sz \<le> 32 * snd b)"
    and release_block: "live s A \<Longrightarrow> b \<in> A \<Longrightarrow>
      \<exists>s'. release (ptr (fst b)) s = Ret s' \<and> live s' (A - {b})"
    and live_disjoint: "live s A \<Longrightarrow> b \<in> A \<Longrightarrow> b' \<in> A \<Longrightarrow> b \<noteq> b' \<Longrightarrow> cells b \<inter> cells b' = {}"
begin

lemma serve_live:
  assumes "live s (set bs)" and "distinct bs"
  shows "\<exists>s' bs'. serve alloc release rs s (map (\<lambda>b. ptr (fst b)) bs) = Ret (s', map (\<lambda>b. ptr (fst b)) bs')
    \<and> live s' (set bs') \<and> distinct bs'"
  using assms
proof (induction rs arbitrary: s bs)
  case Nil
  then show ?case by auto
next
  case (Cons r rs)
  show ?case
  proof (cases r)
    case (Alloc sz)
    from alloc_outcome [OF Cons.prems(1), of sz] show ?thesis
    proof (elim disjE exE conjE)
      fix s' assume "alloc sz s = Ret (0, s')" "live s' (set bs)"
      with Cons.IH Cons.prems(2) Alloc show ?thesis by simp
    next
      fix s' b assume *: "alloc sz s = Ret (ptr (fst b), s')" "ptr (fst b) \<noteq> 0" "b \<notin> set bs"
        "live s' (insert b (set bs))"
      with Cons.IH [of s' "bs @ [b]"] Cons.prems(2) Alloc show ?thesis by simp
    qed
  next
    case (Release k)
    show ?thesis
    proof (cases "k < length bs")
      case True
      define bs1 where "bs1 = take k bs @ drop (Suc k) bs"
      have split: "bs = take k bs @ bs ! k # drop (Suc k) bs" using True by (rule id_take_nth_drop)
      then have d: "distinct (take k bs @ bs ! k # drop (Suc k) bs)" using Cons.prems(2) by metis
      have "set bs = insert (bs ! k) (set bs1)" unfolding bs1_def by (subst split) simp
      moreover have "bs ! k \<notin> set bs1" "distinct bs1" using d by (auto simp: bs1_def)
      ultimately have rest: "set bs - {bs ! k} = set bs1" "distinct bs1" by auto
      have ptrs: "take k (map (\<lambda>b. ptr (fst b)) bs) @ drop (Suc k) (map (\<lambda>b. ptr (fst b)) bs)
          = map (\<lambda>b. ptr (fst b)) bs1"
        by (simp add: bs1_def take_map drop_map)
      obtain s' where "release (ptr (fst (bs ! k))) s = Ret s'" "live s' (set bs1)"
        using release_block [OF Cons.prems(1), of "bs ! k"] True rest by auto
      with Cons.IH [of s' bs1] rest Release True ptrs show ?thesis by simp
    next
      case False
      with Cons.IH [OF Cons.prems] Release show ?thesis by simp
    qed
  qed
qed

text \<open>Two live pointers always lie in different cells.\<close>

lemma live_starts_differ:
  assumes "live s A" and "(b :: nat \<times> nat) \<in> A" and "b' \<in> A" and "b \<noteq> b'" and "0 < snd b" and "0 < snd b'"
  shows "fst b \<noteq> fst b'"
proof
  assume "fst b = fst b'"
  with assms(5,6) have "fst b \<in> cells b" "fst b \<in> cells b'" by (auto simp: cells_def)
  with live_disjoint [OF assms(1-4)] show False by blast
qed

end

text \<open>The pools of the firmware are allocators.\<close>

definition pool_ptr :: "u32 \<Rightarrow> nat \<Rightarrow> u32" where
  "pool_ptr base s = base + of_nat (32 * s)"

lemma pool_ptr_value:
  assumes "unat base + 32 * n \<le> 4294967296" and "s < n"
  shows "unat (pool_ptr base s) = unat base + 32 * s"
proof -
  have "unat (of_nat (32 * s) :: u32) = 32 * s"
    using assms by (intro unat_of_nat_u32) simp
  moreover have "unat base + 32 * s < 4294967296" using assms by linarith
  ultimately show ?thesis unfolding pool_ptr_def by (simp add: unat_word_ariths(1) del: of_nat_mult)
qed

lemma bank_ok_table:
  assumes "bank_ok memx base b A" and "length m = length (memmap b)" and "table_rep m A'"
  shows "bank_ok memx base (b \<lparr> memmap := m \<rparr>) A'"
  using assms by (simp add: bank_ok_def)

lemma bank_alloc_ok:
  assumes "bank_ok memx base b A" and "free_run (memmap b) off n" and "0 < n"
  shows "bank_ok memx base (b \<lparr> memmap := fill (memmap b) off n (of_nat n) \<rparr>) (insert (off, n) A)"
  by (rule bank_ok_table [OF assms(1)])
    (use assms in \<open>auto simp: bank_ok_def free_run_def intro: table_rep_alloc\<close>)

lemma bank_free_ok:
  assumes "bank_ok memx base b A" and "(s, l) \<in> A"
  shows "bank_ok memx base (b \<lparr> memmap := fill (memmap b) s l 0 \<rparr>) (A - {(s, l)})"
proof (rule bank_ok_table [OF assms(1)])
  have rep: "table_rep (memmap b) A" using assms(1) by (simp add: bank_ok_def)
  show "length (fill (memmap b) s l 0) = length (memmap b)"
    using block_size(1) [OF rep assms(2)] by simp
  show "table_rep (fill (memmap b) s l 0) (A - {(s, l)})" by (rule table_rep_free [OF rep assms(2)])
qed

text \<open>An offset the search returns is not the error value, and its pointer is not null.\<close>

lemma run_offset:
  assumes "bank_ok memx base b A" and "free_run (memmap b) off n" and "0 < n"
  shows "(of_nat (32 * off) :: u32) \<noteq> 0xFFFFFFFF" and "pool_ptr base off \<noteq> 0"
    and "unat (of_nat (32 * off) :: u32) = 32 * off"
proof -
  from assms(1) have ok: "memx < 2" "length (memmap b) = memtblsize ! memx" "base \<noteq> 0"
      "unat base + memsize ! memx \<le> 4294967296"
    by (simp_all add: bank_ok_def)
  note sizes = table_sizes [OF ok(1)]
  have off: "off < memtblsize ! memx" using assms(2,3) ok(2) by (simp add: free_run_def)
  then show u: "unat (of_nat (32 * off) :: u32) = 32 * off"
    using sizes(3) by (intro unat_of_nat_u32) simp
  have "32 * off < 4294967295" using off sizes(3) by simp
  then show "(of_nat (32 * off) :: u32) \<noteq> 0xFFFFFFFF" using u by fastforce
  have "unat (pool_ptr base off) = unat base + 32 * off"
    using ok(4) off sizes(2) by (intro pool_ptr_value) auto
  moreover have "unat base \<noteq> 0" using ok(3) by (simp add: unsigned_eq_0_iff)
  ultimately show "pool_ptr base off \<noteq> 0" by (metis add_is_0 unat_0)
qed

lemma mymalloc_cases:
  assumes "bank_ok memx base b A" and "sz \<noteq> 0"
  defines "n \<equiv> cell_count (unat sz)"
  obtains (none) "mymalloc memx sz b = Ret (0, b)" "\<forall>s. \<not> free_run (memmap b) s n"
    | (some) off where "mymalloc memx sz b
        = Ret (pool_ptr base off, b \<lparr> memmap := fill (memmap b) off n (of_nat n) \<rparr>)"
      "free_run (memmap b) off n" "\<forall>s > off. \<not> free_run (memmap b) s n" "0 < n"
  using assms(1,2)
proof (cases rule: my_mem_malloc_cases)
  case none
  then show ?thesis using that(1) by (simp add: mymalloc_def n_def)
next
  case (some off)
  have "membase b = base" using assms(1) by (simp add: bank_ok_def)
  then have "mymalloc memx sz b
      = Ret (pool_ptr base off, b \<lparr> memmap := fill (memmap b) off n (of_nat n) \<rparr>)"
    using some run_offset(1) [OF assms(1) some(2,4)]
    by (simp add: mymalloc_def n_def pool_ptr_def del: of_nat_mult)
  then show ?thesis using that(2) some by (simp add: n_def)
qed

lemma mymalloc_0: "bank_ok memx base b A \<Longrightarrow> mymalloc memx 0 b = Ret (0, b)"
  by (simp add: mymalloc_def my_mem_malloc_def bank_ok_def)

lemma myfree_block:
  assumes "bank_ok memx base b A" and "(s, l) \<in> A"
  shows "myfree memx (pool_ptr base s) b = Ret (b \<lparr> memmap := fill (memmap b) s l 0 \<rparr>)"
proof -
  from assms(1) have ok: "memx < 2" "membase b = base" "base \<noteq> 0" "table_rep (memmap b) A"
      "unat base + memsize ! memx \<le> 4294967296" "length (memmap b) = memtblsize ! memx"
    by (simp_all add: bank_ok_def)
  note blk = block_size [OF ok(4) assms(2), simplified]
  have "unat (pool_ptr base s) = unat base + 32 * s"
    using ok blk table_sizes(2) [OF ok(1)] by (intro pool_ptr_value) auto
  moreover have "unat base \<noteq> 0" using ok(3) by (simp add: unsigned_eq_0_iff)
  ultimately have "pool_ptr base s \<noteq> 0" by (metis add_is_0 unat_0)
  moreover have "pool_ptr base s - base = of_nat (32 * s)" by (simp add: pool_ptr_def)
  ultimately show ?thesis
    using my_mem_free_block [OF assms] ok(2) by (simp add: myfree_def del: of_nat_mult)
qed

interpretation pool: allocator "bank_ok memx base" "pool_ptr base" "mymalloc memx" "myfree memx"
  for memx base
proof unfold_locales
  fix b :: bank and A sz assume ok: "bank_ok memx base b A"
  show "(\<exists>s'. mymalloc memx sz b = Ret (0, s') \<and> bank_ok memx base s' A) \<or>
    (\<exists>s' blk. mymalloc memx sz b = Ret (pool_ptr base (fst blk), s') \<and> pool_ptr base (fst blk) \<noteq> 0 \<and>
       blk \<notin> A \<and> bank_ok memx base s' (insert blk A) \<and> unat sz \<le> 32 * snd blk)"
  proof (cases "sz = 0")
    case True
    then show ?thesis using mymalloc_0 [OF ok] ok by simp
  next
    case False
    from ok False show ?thesis
    proof (cases rule: mymalloc_cases)
      case none
      then show ?thesis using ok by simp
    next
      case (some off)
      let ?n = "cell_count (unat sz)"
      have rep: "table_rep (memmap b) A" using ok by (simp add: bank_ok_def)
      have "(off, ?n) \<notin> A" using table_rep_alloc(2) [OF rep some(2,4)] .
      then show ?thesis
        using some run_offset(2) [OF ok some(2,4)] bank_alloc_ok [OF ok some(2,4)] cell_count_ge
        by (intro disjI2 exI conjI) (auto intro: exI [of _ "(off, ?n)"])
    qed
  qed
next
  fix b :: bank and A blk assume ok: "bank_ok memx base b A" and "blk \<in> A"
  then show "\<exists>s'. myfree memx (pool_ptr base (fst blk)) b = Ret s' \<and> bank_ok memx base s' (A - {blk})"
    using myfree_block [OF ok, of "fst blk" "snd blk"] bank_free_ok [OF ok, of "fst blk" "snd blk"]
    by simp
next
  fix b :: bank and A c c' assume "bank_ok memx base b A" "c \<in> A" "c' \<in> A" "c \<noteq> c'"
  then show "cells c \<inter> cells c' = {}" by (simp add: bank_ok_def table_rep_def)
qed

section \<open>Copying and counting\<close>

lemma mymemcpy_Ret:
  assumes "des + n \<le> length xs" and "src + n \<le> length xs"
  shows "\<exists>ys. mymemcpy des src n xs = Ret ys \<and> length ys = length xs
    \<and> (\<forall>j. j < des \<or> des + n \<le> j \<longrightarrow> ys ! j = xs ! j)
    \<and> (\<forall>k \<le> n. des \<le> src \<or> src + k \<le> des \<longrightarrow> (\<forall>i < k. ys ! (des + i) = xs ! (src + i)))"
  using assms
proof (induction des src n xs rule: mymemcpy.induct)
  case (1 des src xs)
  then show ?case by simp
next
  case (2 des src n xs)
  define zs where "zs = xs[des := xs ! src]"
  have r: "c_read xs src = Ret (xs ! src)" "c_write xs des (xs ! src) = Ret zs"
    using 2(2,3) by (simp_all add: zs_def)
  have "Suc des + n \<le> length zs" "Suc src + n \<le> length zs" using 2(2,3) by (simp_all add: zs_def)
  from 2(1) [OF r this] obtain ys where ys: "mymemcpy (Suc des) (Suc src) n zs = Ret ys"
      "length ys = length zs" "\<And>j. j < Suc des \<or> Suc des + n \<le> j \<Longrightarrow> ys ! j = zs ! j"
      "\<And>k i. k \<le> n \<Longrightarrow> Suc des \<le> Suc src \<or> Suc src + k \<le> Suc des \<Longrightarrow> i < k \<Longrightarrow>
         ys ! (Suc des + i) = zs ! (Suc src + i)"
    by blast
  have first: "ys ! des = xs ! src" using ys(3) [of des] 2(2) by (simp add: zs_def)
  have "ys ! (des + i) = xs ! (src + i)"
    if k: "k \<le> Suc n" "des \<le> src \<or> src + k \<le> des" "i < k" for k i
  proof (cases i)
    case 0
    then show ?thesis using first by simp
  next
    case (Suc i')
    then have "ys ! (Suc des + i') = zs ! (Suc src + i')"
      using k by (intro ys(4) [of "k - 1"]) auto
    moreover have "Suc src + i' \<noteq> des" using k Suc by auto
    ultimately show ?thesis using Suc by (simp add: zs_def)
  qed
  moreover have "ys ! j = xs ! j" if "j < des \<or> des + Suc n \<le> j" for j
    using ys(3) [of j] that by (auto simp: zs_def nth_list_update)
  moreover have "length ys = length xs" using ys(2) by (simp add: zs_def)
  ultimately show ?case using r ys(1) by auto
qed

lemma mymemcpy_Fault:
  "length xs < src + n \<Longrightarrow> src \<le> length xs \<Longrightarrow> des + n \<le> length xs \<Longrightarrow> mymemcpy des src n xs = Fault"
proof (induction des src n xs rule: mymemcpy.induct)
  case (2 des src n xs)
  then show ?case by (cases "src < length xs") simp_all
qed simp

lemma count_used_Ret:
  "i + n \<le> length m \<Longrightarrow> unat used + n < 4294967296 \<Longrightarrow>
     \<exists>u. count_used m i n used = Ret u \<and> unat u = unat used + card {j. i \<le> j \<and> j < i + n \<and> m ! j \<noteq> 0}"
proof (induction m i n used rule: count_used.induct)
  case (1 m i used)
  then show ?case by simp
next
  case (2 m i n used)
  have i: "i < length m" using 2(2) by simp
  let ?S = "{j. Suc i \<le> j \<and> j < Suc i + n \<and> m ! j \<noteq> 0}"
  have fin: "finite ?S" by (rule finite_subset [of _ "{..<Suc i + n}"]) auto
  have step: "{j. i \<le> j \<and> j < i + Suc n \<and> m ! j \<noteq> 0} = (if m ! i \<noteq> 0 then insert i ?S else ?S)"
    by (auto simp: le_eq_less_or_eq Suc_le_eq)
  have inc: "unat (used + 1) = unat used + 1" using 2(3) by (intro unat_suc_u32) simp
  show ?case
  proof (cases "m ! i \<noteq> 0")
    case True
    from 2(1) [OF c_read_Ret [OF i]] 2(2,3) True inc obtain u where
      "count_used m (Suc i) n (used + 1) = Ret u" "unat u = Suc (unat used) + card ?S" by auto
    with True i fin step show ?thesis by simp
  next
    case False
    from 2(1) [OF c_read_Ret [OF i]] 2(2,3) False obtain u where
      "count_used m (Suc i) n used = Ret u" "unat u = unat used + card ?S" by auto
    with False i step show ?thesis by simp
  qed
qed

lemma used_cells:
  assumes "table_rep m A"
  shows "{j. 0 \<le> j \<and> j < 0 + length m \<and> m ! j \<noteq> 0} = (\<Union>b \<in> A. cells b)"
proof -
  have "m ! j \<noteq> 0 \<longleftrightarrow> (\<exists>b \<in> A. j \<in> cells b)" if "j < length m" for j
    using that assms cell_nonzero [OF assms] by (auto simp: table_rep_def)
  moreover have "cells b \<subseteq> {..<length m}" if "b \<in> A" for b using assms that by (auto simp: table_rep_def)
  ultimately show ?thesis by auto
qed

lemma my_mem_init_ok:
  assumes "memx < 2" and "length (memmap b) = memtblsize ! memx" and "length (pool b) = memsize ! memx"
    and "membase b = base" and "base \<noteq> 0" and "unat base + memsize ! memx \<le> 4294967296"
  shows "\<exists>b0. my_mem_init memx b = Ret b0 \<and> bank_ok memx base b0 {}
    \<and> (\<forall>i < memtblsize ! memx. memmap b0 ! i = 0)"
proof -
  note sizes = table_sizes [OF assms(1)]
  let ?b = "b \<lparr> memmap := fill (memmap b) 0 (memtblsize ! memx) 0,
               pool := fill (pool b) 0 (memsize ! memx) 0, memrdy := 1 \<rparr>"
  have "my_mem_init memx b = Ret ?b"
    using assms(2,3) by (simp add: my_mem_init_def mymemset_def store_run_Ret)
  moreover have z: "\<forall>i < memtblsize ! memx. memmap ?b ! i = 0"
    using assms(2) by (simp add: nth_fill)
  moreover have "bank_ok memx base ?b {}"
    using assms sizes(3) z by (auto simp: bank_ok_def intro!: table_rep_zero)
  ultimately show ?thesis by blast
qed

section \<open>Properties\<close>


definition bank0 :: bank where
  "bank0 = \<lparr> memmap = replicate 1280 7, pool = replicate 40960 0, membase = 0x20000000, memrdy = 0 \<rparr>"

lemma bank0_fits:
  "(0 :: nat) < 2" "length (memmap bank0) = memtblsize ! 0" "length (pool bank0) = memsize ! 0"
  "membase bank0 = 0x20000000" "(0x20000000 :: u32) \<noteq> 0"
  "unat (0x20000000 :: u32) + memsize ! 0 \<le> 4294967296"
  by (simp_all add: bank0_def memtblsize_def memsize_def)


text \<open>
  An allocation takes the highest run of free cells that is long enough for the bytes
  asked for and returns null, with the pool unchanged, only when there is none.
\<close>

theorem mymalloc_takes_the_highest_run:
  assumes "bank_ok memx base b A" and "sz \<noteq> 0"
  shows "(mymalloc memx sz b = Ret (0, b) \<and> (\<forall>s. \<not> free_run (memmap b) s (cell_count (unat sz)))) \<or>
    (\<exists>off b'. mymalloc memx sz b = Ret (pool_ptr base off, b')
       \<and> free_run (memmap b) off (cell_count (unat sz))
       \<and> (\<forall>s > off. \<not> free_run (memmap b) s (cell_count (unat sz)))
       \<and> bank_ok memx base b' (insert (off, cell_count (unat sz)) A))"
  using assms
proof (cases rule: mymalloc_cases)
  case (some off)
  then show ?thesis using bank_alloc_ok [OF assms(1) some(2,4)] by blast
qed simp

lemma bank0_ready:
  obtains b where "my_mem_init 0 bank0 = Ret b" "bank_ok 0 0x20000000 b {}"
    "\<forall>i < 1280. memmap b ! i = 0"
  using my_mem_init_ok [OF bank0_fits] by (auto simp: memtblsize_def)

lemma mymalloc_takes_the_highest_run_witness:
  "\<exists>b. my_mem_init 0 bank0 = Ret b \<and>
    ((mymalloc 0 100 b = Ret (0, b) \<and> (\<forall>s. \<not> free_run (memmap b) s (cell_count (unat (100 :: u32))))) \<or>
    (\<exists>off b'. mymalloc 0 100 b = Ret (pool_ptr 0x20000000 off, b')
       \<and> free_run (memmap b) off (cell_count (unat (100 :: u32)))
       \<and> (\<forall>s > off. \<not> free_run (memmap b) s (cell_count (unat (100 :: u32))))
       \<and> bank_ok 0 0x20000000 b' (insert (off, cell_count (unat (100 :: u32))) {})))"
proof -
  obtain b where b: "my_mem_init 0 bank0 = Ret b" "bank_ok 0 0x20000000 b {}" by (rule bank0_ready)
  from mymalloc_takes_the_highest_run [OF b(2), of 100] b(1) show ?thesis by auto
qed

text \<open>Releasing what was just allocated gives back exactly the pool there was before.\<close>

theorem myfree_undoes_mymalloc:
  assumes "bank_ok memx base b A" and "mymalloc memx sz b = Ret (p, b')" and "p \<noteq> 0"
  shows "myfree memx p b' = Ret b"
proof -
  have "sz \<noteq> 0" using mymalloc_0 [OF assms(1)] assms(2,3) by auto
  with assms(1) show ?thesis
  proof (cases rule: mymalloc_cases)
    case none
    with assms show ?thesis by simp
  next
    case (some off)
    let ?n = "cell_count (unat sz)"
    have b': "p = pool_ptr base off" "b' = b \<lparr> memmap := fill (memmap b) off ?n (of_nat ?n) \<rparr>"
      using some(1) assms(2) by simp_all
    have "bank_ok memx base b' (insert (off, ?n) A)"
      unfolding b' by (rule bank_alloc_ok [OF assms(1) some(2,4)])
    then have "myfree memx p b' = Ret (b' \<lparr> memmap := fill (memmap b') off ?n 0 \<rparr>)"
      unfolding b'(1) by (rule myfree_block) simp
    then show ?thesis by (simp add: b' fill_alloc_free [OF some(2)])
  qed
qed

lemma myfree_undoes_mymalloc_witness:
  "\<exists>b p b'. my_mem_init 0 bank0 = Ret b \<and> mymalloc 0 100 b = Ret (p, b') \<and> p \<noteq> 0
    \<and> myfree 0 p b' = Ret b"
proof -
  obtain b where b: "my_mem_init 0 bank0 = Ret b" "bank_ok 0 0x20000000 b {}"
      "\<forall>i < 1280. memmap b ! i = 0" by (rule bank0_ready)
  have len: "length (memmap b) = 1280" using b(2) by (simp add: bank_ok_def memtblsize_def)
  have "(100 :: u32) \<noteq> 0" by simp
  from b(2) this show ?thesis
  proof (cases rule: mymalloc_cases)
    case none
    have "free_run (memmap b) 0 (cell_count (unat (100 :: u32)))"
      using b(3) len by (simp add: free_run_def cell_count_def)
    with none show ?thesis by blast
  next
    case (some off)
    have "pool_ptr 0x20000000 off \<noteq> 0" by (rule run_offset(2) [OF b(2) some(2,4)])
    with myfree_undoes_mymalloc [OF b(2) some(1)] b(1) some(1) show ?thesis by blast
  qed
qed

text \<open>
  \<open>my_mem_perused\<close> reports the percentage, rounded down, of the cells that belong to
  live blocks; it is never more than 100.
\<close>

theorem my_mem_perused_counts_the_blocks:
  assumes "bank_ok memx base b A"
  shows "\<exists>p. my_mem_perused memx b = Ret p
    \<and> unat p = 100 * card (\<Union>c \<in> A. cells c) div (memtblsize ! memx) \<and> unat p \<le> 100"
proof -
  define T where "T = memtblsize ! memx"
  define U where "U = card (\<Union>c \<in> A. cells c)"
  from assms have ok: "memx < 2" "length (memmap b) = T" "table_rep (memmap b) A"
    by (simp_all add: bank_ok_def T_def)
  have T: "T < 65536" "0 < T" using table_sizes(3,4) [OF ok(1)] by (simp_all add: T_def)
  have "unat (0 :: u32) + T < 4294967296" using T by simp
  with ok(2) obtain u where u: "count_used (memmap b) 0 T 0 = Ret u" "unat u = U"
    using count_used_Ret [of 0 T "memmap b" 0] used_cells [OF ok(3)] by (auto simp: U_def)
  have "(\<Union>c \<in> A. cells c) \<subseteq> {..<T}" using ok(2,3) by (auto simp: table_rep_def)
  then have UT: "U \<le> T" using card_mono [of "{..<T}"] by (simp add: U_def)
  then have "U * 100 \<le> T * 100" by simp
  then have p: "U * 100 div T \<le> 100" using T(2) by (metis div_le_mono nonzero_mult_div_cancel_left less_irrefl)
  have u100: "unat (u * 100) = U * 100" using UT T(1) u(2) by (simp add: unat_word_ariths)
  have "unat (of_nat T :: u32) = T" using T(1) by (intro unat_of_nat_u32) simp
  then have d: "unat ((u * 100) div of_nat T) = U * 100 div T" by (simp add: unat_div u100)
  have "unat (ucast ((u * 100) div of_nat T) :: u8) = U * 100 div T"
    using p by (simp add: unat_ucast_mod d)
  with p u(1) show ?thesis
    by (simp add: my_mem_perused_def flip: T_def U_def) (simp add: mult.commute)
qed

lemma my_mem_perused_counts_the_blocks_witness:
  "\<exists>b p. my_mem_init 0 bank0 = Ret b \<and> my_mem_perused 0 b = Ret p \<and> unat p = 0"
proof -
  obtain b where b: "my_mem_init 0 bank0 = Ret b" "bank_ok 0 0x20000000 b {}" by (rule bank0_ready)
  from my_mem_perused_counts_the_blocks [OF b(2)] b(1) show ?thesis by auto
qed

section \<open>Reallocation\<close>

lemma pool_ptr_offset: "pool_ptr base s - base = of_nat (32 * s)"
  by (simp add: pool_ptr_def)

lemma mymalloc_some:
  assumes "bank_ok memx base b A" and "mymalloc memx sz b = Ret (p, b1)" and "p \<noteq> 0"
  defines "n \<equiv> cell_count (unat sz)"
  obtains off where "p = pool_ptr base off" "b1 = b \<lparr> memmap := fill (memmap b) off n (of_nat n) \<rparr>"
    "my_mem_malloc memx sz b = Ret (of_nat (32 * off), b1)" "free_run (memmap b) off n" "0 < n"
proof -
  have "sz \<noteq> 0" using mymalloc_0 [OF assms(1)] assms(2,3) by auto
  with assms(1) show ?thesis
  proof (cases rule: my_mem_malloc_cases)
    case none
    with assms(2,3) show ?thesis by (simp add: mymalloc_def)
  next
    case (some off)
    have "membase b = base" using assms(1) by (simp add: bank_ok_def)
    then have "p = pool_ptr base off" "b1 = b \<lparr> memmap := fill (memmap b) off n (of_nat n) \<rparr>"
      using some(1) run_offset(1) [OF assms(1) some(2,4)] assms(2)
      by (simp_all add: mymalloc_def pool_ptr_def n_def del: of_nat_mult)
    then show ?thesis using that some unfolding n_def by simp
  qed
qed

text \<open>
  When \<open>myrealloc\<close> finds room and the copy stays inside the pool, it returns the new
  block, releases the old one, and the new block starts with the bytes of the old one, as
  many as both have.
\<close>

theorem myrealloc_keeps_the_contents:
  assumes "bank_ok memx base b A" and "(s, l) \<in> A"
    and "mymalloc memx sz b = Ret (p, b1)" and "p \<noteq> 0" and "32 * s + unat sz \<le> memsize ! memx"
  shows "\<exists>off b'. myrealloc memx (pool_ptr base s) sz b = Ret (p, b') \<and> p = pool_ptr base off
    \<and> bank_ok memx base b' (insert (off, cell_count (unat sz)) A - {(s, l)})
    \<and> (\<forall>i < min (unat sz) (32 * l). pool b' ! (32 * off + i) = pool b ! (32 * s + i))
    \<and> (\<forall>j. j < 32 * off \<or> 32 * off + unat sz \<le> j \<longrightarrow> pool b' ! j = pool b ! j)"
proof -
  let ?n = "cell_count (unat sz)"
  from assms(1) have ok: "memx < 2" "length (memmap b) = memtblsize ! memx" "table_rep (memmap b) A"
      "length (pool b) = memsize ! memx" "membase b = base"
    by (simp_all add: bank_ok_def)
  note sizes = table_sizes [OF ok(1)]
  from assms(1,3,4) obtain off where off: "p = pool_ptr base off"
      "b1 = b \<lparr> memmap := fill (memmap b) off ?n (of_nat ?n) \<rparr>"
      "my_mem_malloc memx sz b = Ret (of_nat (32 * off), b1)" "free_run (memmap b) off ?n" "0 < ?n"
    by (rule mymalloc_some)
  have b1: "bank_ok memx base b1 (insert (off, ?n) A)"
    unfolding off(2) by (rule bank_alloc_ok [OF assms(1) off(4,5)])
  note blk = block_size [OF ok(3) assms(2), simplified]
  have apart: "s + l \<le> off \<or> off + ?n \<le> s"
  proof -
    have "cells (s, l) \<inter> cells (off, ?n) = {}"
      using table_rep_alloc(3) [OF ok(3) off(4,5)] assms(2) by blast
    moreover have "off \<in> cells (off, ?n)" "s \<in> cells (s, l)" using off(5) blk by (auto simp: cells_def)
    ultimately have "off \<notin> cells (s, l)" "s \<notin> cells (off, ?n)" by blast+
    then show ?thesis by (auto simp: cells_def)
  qed
  have s32: "unat (of_nat (32 * s) :: u32) = 32 * s"
    using blk ok(2) sizes(3) by (intro unat_of_nat_u32) simp
  have o32: "unat (of_nat (32 * off) :: u32) = 32 * off" by (rule run_offset(3) [OF assms(1) off(4,5)])
  have fits: "32 * off + unat sz \<le> memsize ! memx"
    using off(4) cell_count_ge [of "unat sz"] ok(2) sizes(2) by (simp add: free_run_def)
  then obtain ys where ys: "mymemcpy (32 * off) (32 * s) (unat sz) (pool b) = Ret ys"
      "length ys = length (pool b)"
      "\<forall>j. j < 32 * off \<or> 32 * off + unat sz \<le> j \<longrightarrow> ys ! j = pool b ! j"
      "\<forall>k \<le> unat sz. 32 * off \<le> 32 * s \<or> 32 * s + k \<le> 32 * off \<longrightarrow>
         (\<forall>i < k. ys ! (32 * off + i) = pool b ! (32 * s + i))"
    using mymemcpy_Ret [of "32 * off" "unat sz" "pool b" "32 * s"] assms(5) ok(4) by auto
  have b2: "bank_ok memx base (b1 \<lparr> pool := ys \<rparr>) (insert (off, ?n) A)"
    using b1 ys(2) ok(4) by (simp add: bank_ok_def off(2))
  let ?b' = "b1 \<lparr> pool := ys, memmap := fill (memmap b1) s l 0 \<rparr>"
  have "myfree memx (pool_ptr base s) (b1 \<lparr> pool := ys \<rparr>) = Ret ?b'"
    using myfree_block [OF b2, of s l] assms(2) by simp
  moreover have "membase b1 = base" "pool b1 = pool b" by (simp_all add: off(2) ok(5))
  ultimately have "myrealloc memx (pool_ptr base s) sz b = Ret (p, ?b')"
    using run_offset(1) [OF assms(1) off(4,5)] ys(1)
    by (simp add: myrealloc_def off(1,3) pool_ptr_offset s32 o32 pool_ptr_def del: of_nat_mult)
  moreover have "bank_ok memx base ?b' (insert (off, ?n) A - {(s, l)})"
    using bank_free_ok [OF b2, of s l] assms(2) by simp
  moreover have "\<forall>i < min (unat sz) (32 * l). ys ! (32 * off + i) = pool b ! (32 * s + i)"
    using ys(4) [rule_format, of "min (unat sz) (32 * l)"] apart by auto
  ultimately show ?thesis using ys(3) off(1) by auto
qed

text \<open>A pool with one block of one cell, at its end, and room for two more cells.\<close>

lemma pool_with_last_block:
  obtains b p b1 where "bank_ok 0 0x20000000 b {(1279, 1)}" "mymalloc 0 64 b = Ret (p, b1)" "p \<noteq> 0"
proof -
  obtain c where c: "bank_ok 0 0x20000000 c {}" "\<forall>i < 1280. memmap c ! i = 0" by (rule bank0_ready)
  then have len: "length (memmap c) = 1280" by (simp add: bank_ok_def memtblsize_def)
  have top: "free_run (memmap c) 1279 1" using c(2) len by (simp add: free_run_def)
  have one: "cell_count (unat (20 :: u32)) = 1" by (simp add: cell_count_def)
  obtain b where b: "bank_ok 0 0x20000000 b {(1279, 1)}" "b = c \<lparr> memmap := fill (memmap c) 1279 1 1 \<rparr>"
  proof -
    have "bank_ok 0 0x20000000 (c \<lparr> memmap := fill (memmap c) 1279 1 (of_nat 1) \<rparr>) (insert (1279, 1) {})"
      by (rule bank_alloc_ok [OF c(1) top]) simp
    then show ?thesis using that by simp
  qed
  have free: "free_run (memmap b) 0 2" using c(2) len by (simp add: b(2) free_run_def nth_fill)
  have "(64 :: u32) \<noteq> 0" by simp
  from b(1) this show ?thesis
  proof (cases rule: mymalloc_cases)
    case none
    with free show ?thesis by (simp add: cell_count_def)
  next
    case (some off)
    have "pool_ptr 0x20000000 off \<noteq> 0" by (rule run_offset(2) [OF b(1) some(2,4)])
    with b(1) some(1) show ?thesis by (rule that)
  qed
qed

lemma myrealloc_keeps_the_contents_witness:
  "\<exists>b p b' off. bank_ok 0 0x20000000 b {(1279, 1)}
    \<and> myrealloc 0 (pool_ptr 0x20000000 1279) 30 b = Ret (p, b')
    \<and> (\<forall>i < 30. pool b' ! (32 * off + i) = pool b ! (32 * 1279 + i))"
proof -
  obtain b p b1 where b: "bank_ok 0 0x20000000 b {(1279, 1)}" "mymalloc 0 64 b = Ret (p, b1)" "p \<noteq> 0"
    by (rule pool_with_last_block)
  have two: "\<exists>off. free_run (memmap b) off 2"
    using b by (rule mymalloc_some) (auto simp: cell_count_def)
  have "(30 :: u32) \<noteq> 0" by simp
  from b(1) this show ?thesis
  proof (cases rule: mymalloc_cases)
    case none
    with two show ?thesis by (auto simp: cell_count_def free_run_def)
  next
    case (some off)
    have p: "pool_ptr 0x20000000 off \<noteq> 0" by (rule run_offset(2) [OF b(1) some(2,4)])
    have fits: "32 * 1279 + unat (30 :: u32) \<le> memsize ! 0" by (simp add: memsize_def)
    have "(1279, 1) \<in> {(1279 :: nat, 1 :: nat)}" by simp
    from myrealloc_keeps_the_contents [OF b(1) this some(1) p fits] obtain off' b' q where
      "myrealloc 0 (pool_ptr 0x20000000 1279) 30 b = Ret (q, b')"
      "\<forall>i < min (unat (30 :: u32)) (32 * 1). pool b' ! (32 * off' + i) = pool b ! (32 * 1279 + i)"
      by blast
    moreover have "min (unat (30 :: u32)) (32 * 1) = 30" by simp
    ultimately show ?thesis using b(1) by (metis (no_types))
  qed
qed

text \<open>
  The copy of \<open>myrealloc\<close> has the length of the new block: growing a block so that the
  old start plus the new size passes the end of the pool reads memory after the pool. The
  first allocation of a pool is such a block, because the search starts from the end.
\<close>

theorem myrealloc_past_the_end_faults:
  assumes "bank_ok memx base b A" and "(s, l) \<in> A"
    and "mymalloc memx sz b = Ret (p, b1)" and "p \<noteq> 0" and "memsize ! memx < 32 * s + unat sz"
  shows "myrealloc memx (pool_ptr base s) sz b = Fault"
proof -
  let ?n = "cell_count (unat sz)"
  from assms(1) have ok: "memx < 2" "length (memmap b) = memtblsize ! memx" "table_rep (memmap b) A"
      "length (pool b) = memsize ! memx" "membase b = base"
    by (simp_all add: bank_ok_def)
  note sizes = table_sizes [OF ok(1)]
  from assms(1,3,4) obtain off where off: "p = pool_ptr base off"
      "b1 = b \<lparr> memmap := fill (memmap b) off ?n (of_nat ?n) \<rparr>"
      "my_mem_malloc memx sz b = Ret (of_nat (32 * off), b1)" "free_run (memmap b) off ?n" "0 < ?n"
    by (rule mymalloc_some)
  note blk = block_size [OF ok(3) assms(2), simplified]
  have s32: "unat (of_nat (32 * s) :: u32) = 32 * s"
    using blk ok(2) sizes(3) by (intro unat_of_nat_u32) simp
  have o32: "unat (of_nat (32 * off) :: u32) = 32 * off" by (rule run_offset(3) [OF assms(1) off(4,5)])
  have "32 * off + unat sz \<le> memsize ! memx"
    using off(4) cell_count_ge [of "unat sz"] ok(2) sizes(2) by (simp add: free_run_def)
  moreover have "32 * s \<le> memsize ! memx" using blk ok(2) sizes(2) by simp
  ultimately have "mymemcpy (32 * off) (32 * s) (unat sz) (pool b) = Fault"
    using assms(5) ok(4) by (intro mymemcpy_Fault) simp_all
  moreover have "membase b1 = base" "pool b1 = pool b" by (simp_all add: off(2) ok(5))
  ultimately show ?thesis
    using run_offset(1) [OF assms(1) off(4,5)]
    by (simp add: myrealloc_def off(3) pool_ptr_offset s32 o32 del: of_nat_mult)
qed

lemma myrealloc_past_the_end_faults_witness:
  "\<exists>b. bank_ok 0 0x20000000 b {(1279, 1)} \<and> myrealloc 0 (pool_ptr 0x20000000 1279) 64 b = Fault"
proof -
  obtain b p b1 where b: "bank_ok 0 0x20000000 b {(1279, 1)}" "mymalloc 0 64 b = Ret (p, b1)" "p \<noteq> 0"
    by (rule pool_with_last_block)
  have past: "memsize ! 0 < 32 * 1279 + unat (64 :: u32)" by (simp add: memsize_def)
  have "(1279, 1) \<in> {(1279 :: nat, 1 :: nat)}" by simp
  from myrealloc_past_the_end_faults [OF b(1) this b(2,3) past] b(1) show ?thesis by blast
qed

end
