(* ===== verification/Bits.thy ===== *)
theory Bits
  imports Prelude
begin

text \<open>
  Bits that arrive one by one, most significant first, as the infra-red, the one-wire and the
  bit-banged serial readers of the firmware receive them: \<open>v <<= 1; v |= bit;\<close>.
\<close>

definition shift_in :: "'a::len word \<Rightarrow> bool \<Rightarrow> 'a word" where
  "shift_in v b = or (push_bit 1 v) (of_bool b)"

definition bits_value :: "bool list \<Rightarrow> nat" where
  "bits_value bs = foldl (\<lambda>v b. 2 * v + of_bool b) 0 bs"

lemma shift_in_eq: "shift_in v b = 2 * v + of_bool b"
proof (cases b)
  case True
  have "even (push_bit 1 v)" by (simp add: push_bit_eq_mult)
  then show ?thesis using True by (simp add: shift_in_def or_one_eq push_bit_eq_mult)
qed (simp add: shift_in_def push_bit_eq_mult)

lemma bits_value_snoc: "bits_value (bs @ [b]) = 2 * bits_value bs + of_bool b"
  by (simp add: bits_value_def)

lemma shift_in_bits: "foldl shift_in v bs = 2 ^ length bs * v + of_nat (bits_value bs)"
proof (induction bs rule: rev_induct)
  case Nil
  then show ?case by (simp add: bits_value_def)
next
  case (snoc b bs)
  then show ?case by (simp add: shift_in_eq bits_value_snoc algebra_simps)
qed

lemma bits_value_append: "bits_value (xs @ ys) = bits_value xs * 2 ^ length ys + bits_value ys"
proof (induction ys rule: rev_induct)
  case Nil
  then show ?case by (simp add: bits_value_def)
next
  case (snoc y ys)
  have "bits_value (xs @ ys @ [y]) = 2 * bits_value (xs @ ys) + of_bool y"
    using bits_value_snoc [of "xs @ ys" y] by simp
  with snoc show ?case by (simp add: bits_value_snoc algebra_simps)
qed

definition byte_bits :: "u8 \<Rightarrow> bool list" where
  "byte_bits x = map (bit x) [7, 6, 5, 4, 3, 2, 1, 0]"

lemma bits_value_byte: "bits_value (byte_bits x) = unat x"
proof -
  have "bits_value (rev (map (bit x) [0..<n])) = take_bit n (unat x)" for n
  proof (induction n)
    case 0
    then show ?case by (simp add: bits_value_def)
  next
    case (Suc n)
    have "bits_value (rev (map (bit x) [0..<Suc n]))
        = of_bool (bit x n) * 2 ^ n + bits_value (rev (map (bit x) [0..<n]))"
      using bits_value_append [of "[bit x n]" "rev (map (bit x) [0..<n])"]
      by (simp add: bits_value_def)
    with Suc show ?case by (simp add: take_bit_Suc_from_most bit_unsigned_iff)
  qed
  moreover have "byte_bits x = rev (map (bit x) [0..<8])" by (simp add: byte_bits_def upt_rec eval_nat_numeral)
  ultimately have "bits_value (byte_bits x) = take_bit 8 (unat x)" by simp
  then show ?thesis by (simp add: take_bit_nat_eq_self)
qed

lemma length_byte_bits [simp]: "length (byte_bits x) = 8"
  by (simp add: byte_bits_def)

text \<open>A byte shifted in bit by bit is the byte.\<close>

lemma shift_in_byte: "foldl shift_in (0 :: u8) (byte_bits x) = x"
  by (simp add: shift_in_bits bits_value_byte)

lemma shift_in_add: "shift_in r b = (if b then push_bit 1 r + 1 else push_bit 1 r)"
  by (simp add: shift_in_eq push_bit_eq_mult)

text \<open>The bits of a byte, from the top, while it is shifted left.\<close>

lemma top_bit: "(and (x :: u8) 0x80 \<noteq> 0) = bit x 7"
proof -
  have "(0x80 :: u8) = push_bit 7 1" by simp
  then show ?thesis
    by (metis and_exp_eq_0_iff_not_bit push_bit_of_1)
qed

lemma shifted_bits: "map (\<lambda>i. bit (push_bit i x :: u8) 7) [0..<8] = byte_bits x"
  by (simp add: byte_bits_def upt_rec bit_push_bit_iff)

lemma byte_bits_shift_in: "length bs = 8 \<Longrightarrow> byte_bits (foldl shift_in 0 bs) = bs"
proof -
  assume "length bs = 8"
  then obtain a b c d e f g h where bs: "bs = [a, b, c, d, e, f, g, h]"
    by (auto simp: eval_nat_numeral length_Suc_conv)
  show ?thesis
    by (simp add: bs byte_bits_def shift_in_def bit_simps eval_nat_numeral)
qed

end
