(* ===== verification/Ir_Remote.thy ===== *)
theory Ir_Remote
  imports Bits
begin

text \<open>
  The infrared receiver \<open>applications/remote.c\<close>: timer 4 captures both edges of the
  demodulated signal and overflows every 10 ms. The interrupt callbacks collect the leader
  and the 32 bits of a frame in \<open>RmtRec\<close>; \<open>Remote_Scan\<close> checks the frame and reports the key.
\<close>

section \<open>State and events\<close>

text \<open>
  \<open>RmtSta\<close>: bit 7 the leader was received, bit 6 a whole key was received, bit 4 the rising
  edge was captured, bits 3 to 0 the overflows since the last activity.
\<close>

record remote =
  RmtSta :: u8
  Dval :: u16
  RmtRec :: u32
  RmtCnt :: u8
  falling :: bool  \<comment> \<open>the capture polarity of channel 4\<close>

datatype ir_event =
    Rising          \<comment> \<open>capture with \<open>RDATA\<close> high\<close>
  | Falling u16     \<comment> \<open>capture with \<open>RDATA\<close> low and the captured counter\<close>
  | Overflow        \<comment> \<open>the counter reached 10000\<close>

section \<open>The callbacks\<close>

definition HAL_TIM_PeriodElapsedCallback :: "remote \<Rightarrow> remote" where
  "HAL_TIM_PeriodElapsedCallback r =
     (if and (RmtSta r) 0x80 \<noteq> 0 then
        (let sta = and (RmtSta r) (not 0x10);
             sta = (if and sta 0x0F = 0 then or sta 0x40 else sta);
             sta = (if and sta 0x0F < 14 then sta + 1
                    else (let sta = and sta (not 0x80) in and sta 0xF0))
         in r \<lparr> RmtSta := sta \<rparr>)
      else r)"

definition capture_rising :: "remote \<Rightarrow> remote" where
  "capture_rising r = r \<lparr> falling := True, RmtSta := or (RmtSta r) 0x10 \<rparr>"

text \<open>The end of a high pulse of \<open>Dval\<close> microseconds.\<close>

definition high_pulse :: "remote \<Rightarrow> remote" where
  "high_pulse r =
     (if and (RmtSta r) 0x80 \<noteq> 0 then
        (if 300 < Dval r \<and> Dval r < 800 then
           (let r = r \<lparr> RmtRec := push_bit 1 (RmtRec r) \<rparr> in r \<lparr> RmtRec := or (RmtRec r) 0 \<rparr>)
         else if 1400 < Dval r \<and> Dval r < 1800 then
           (let r = r \<lparr> RmtRec := push_bit 1 (RmtRec r) \<rparr> in r \<lparr> RmtRec := or (RmtRec r) 1 \<rparr>)
         else if 2200 < Dval r \<and> Dval r < 2600 then
           r \<lparr> RmtCnt := RmtCnt r + 1, RmtSta := and (RmtSta r) 0xF0 \<rparr>
         else r)
      else if 4200 < Dval r \<and> Dval r < 4700 then
        r \<lparr> RmtSta := or (RmtSta r) 0x80, RmtCnt := 0 \<rparr>
      else r)"

definition capture_falling :: "u16 \<Rightarrow> remote \<Rightarrow> remote" where
  "capture_falling captured r =
     (let r = r \<lparr> Dval := captured, falling := False \<rparr>;
          r = (if and (RmtSta r) 0x10 \<noteq> 0 then high_pulse r else r)
      in r \<lparr> RmtSta := and (RmtSta r) (not 0x10) \<rparr>)"

fun ir_step :: "remote \<Rightarrow> ir_event \<Rightarrow> remote" where
  "ir_step r Rising = capture_rising r"
| "ir_step r (Falling captured) = capture_falling captured r"
| "ir_step r Overflow = HAL_TIM_PeriodElapsedCallback r"

section \<open>The scan\<close>

definition Remote_Scan :: "remote \<Rightarrow> u8 \<times> remote" where
  "Remote_Scan r =
     (if and (RmtSta r) 0x40 \<noteq> 0 then
        (let t1 = ucast (drop_bit 24 (RmtRec r)) :: u8;
             t2 = ucast (and (drop_bit 16 (RmtRec r)) 0xff) :: u8;
             sta = (if t1 = not t2 \<and> t1 = 0 then
                      (let t1 = ucast (drop_bit 8 (RmtRec r)) :: u8; t2 = ucast (RmtRec r) :: u8
                       in if t1 = not t2 then t1 else 0)
                    else 0)
         in if sta = 0 \<or> and (RmtSta r) 0x80 = 0
            then (sta, r \<lparr> RmtSta := and (RmtSta r) (not 0x40), RmtCnt := 0 \<rparr>)
            else (sta, r))
      else (0, r))"

section \<open>Receiving a frame\<close>

text \<open>A high pulse of a bit, within the tolerance of the decoder.\<close>

definition pulse_ok :: "bool \<times> u16 \<Rightarrow> bool" where
  "pulse_ok p \<longleftrightarrow> (if fst p then 1400 < snd p \<and> snd p < 1800 else 300 < snd p \<and> snd p < 800)"

definition pulse_events :: "bool \<times> u16 \<Rightarrow> ir_event list" where
  "pulse_events p = [Rising, Falling (snd p)]"

definition frame_events :: "u16 \<Rightarrow> (bool \<times> u16) list \<Rightarrow> ir_event list" where
  "frame_events leader ps = [Rising, Falling leader] @ concat (map pulse_events ps)"

definition frame_bits :: "u8 \<Rightarrow> u8 \<Rightarrow> bool list" where
  "frame_bits addr cmd = byte_bits addr @ byte_bits (not addr) @ byte_bits cmd @ byte_bits (not cmd)"

lemma pulse_received:
  assumes "RmtSta r = 0x80 \<or> RmtSta r = 0xC0" and "pulse_ok p"
  shows "foldl ir_step r (pulse_events p)
       = r \<lparr> RmtRec := shift_in (RmtRec r) (fst p), Dval := snd p, falling := False \<rparr>"
proof -
  have sta: "and (or (RmtSta r) 0x10) 0x10 \<noteq> 0" "and (or (RmtSta r) 0x10) 0x80 \<noteq> 0"
      "and (or (RmtSta r) 0x10) (not 0x10) = RmtSta r"
    using assms(1) by auto
  have b1: "300 < snd p \<Longrightarrow> snd p < 800 \<Longrightarrow> \<not> 1400 < snd p" by (simp add: word_less_nat_alt)
  show ?thesis
    using assms(2) b1 by (cases "fst p")
      (simp_all add: pulse_events_def capture_rising_def capture_falling_def high_pulse_def Let_def
        sta sta(3) [simplified] shift_in_def pulse_ok_def word_less_nat_alt)
qed

lemma pulses_received:
  assumes "RmtSta r = 0x80 \<or> RmtSta r = 0xC0" and "list_all pulse_ok ps"
  shows "\<exists>d f. foldl ir_step r (concat (map pulse_events ps))
       = r \<lparr> RmtRec := foldl shift_in (RmtRec r) (map fst ps), Dval := d, falling := f \<rparr>"
  using assms
proof (induction ps arbitrary: r)
  case Nil
  show ?case by (rule exI [of _ "Dval r"], rule exI [of _ "falling r"]) simp
next
  case (Cons p ps)
  let ?q = "r \<lparr> RmtRec := shift_in (RmtRec r) (fst p), Dval := snd p, falling := False \<rparr>"
  have q: "foldl ir_step r (pulse_events p) = ?q" using Cons.prems by (intro pulse_received) simp_all
  have "RmtSta ?q = 0x80 \<or> RmtSta ?q = 0xC0" using Cons.prems(1) by simp
  with Cons.IH [of ?q] Cons.prems(2) q show ?case by simp
qed

text \<open>The decoder waits for a leader.\<close>

definition ir_idle :: "remote \<Rightarrow> bool" where
  "ir_idle r \<longleftrightarrow> RmtSta r = 0 \<or> RmtSta r = 0x10 \<or> RmtSta r = 0x40 \<or> RmtSta r = 0x50"

lemma leader_received:
  assumes "ir_idle r" and "4200 < leader" and "leader < 4700"
  shows "\<exists>q. foldl ir_step r [Rising, Falling leader] = q \<and> (RmtSta q = 0x80 \<or> RmtSta q = 0xC0)
    \<and> RmtCnt q = 0 \<and> RmtRec q = RmtRec r"
  using assms unfolding ir_idle_def
  by (elim disjE) (simp_all add: capture_rising_def capture_falling_def high_pulse_def Let_def)

lemma frame_received:
  assumes "ir_idle r" and "4200 < leader" and "leader < 4700" and "list_all pulse_ok ps"
    and "length ps = 32"
  shows "\<exists>q. foldl ir_step r (frame_events leader ps @ [Overflow]) = q \<and> RmtSta q = 0xC1
    \<and> RmtCnt q = 0 \<and> RmtRec q = of_nat (bits_value (map fst ps))"
proof -
  obtain p where p: "foldl ir_step r [Rising, Falling leader] = p"
      "RmtSta p = 0x80 \<or> RmtSta p = 0xC0" "RmtCnt p = 0" "RmtRec p = RmtRec r"
    using leader_received [OF assms(1-3)] by blast
  obtain d f where q: "foldl ir_step p (concat (map pulse_events ps))
      = p \<lparr> RmtRec := foldl shift_in (RmtRec p) (map fst ps), Dval := d, falling := f \<rparr>"
    using pulses_received [OF p(2) assms(4)] by blast
  have "(2 :: u32) ^ 32 = 0" by simp
  then have rec: "foldl shift_in (RmtRec p) (map fst ps) = of_nat (bits_value (map fst ps))"
    by (simp only: shift_in_bits length_map assms(5) mult_zero_left add_0)
  show ?thesis
    using p q rec by (auto simp: frame_events_def HAL_TIM_PeriodElapsedCallback_def Let_def)
qed

section \<open>The check of a frame\<close>

lemma unat_not_u8: "unat (not x :: u8) = 255 - unat x"
proof -
  have "not x = 255 - x" by (simp add: not_eq_complement)
  moreover have "x \<le> 255"
    using unat_u8_lt [of x] by (simp add: word_le_nat_alt del: unat_u8_lt)
  ultimately show ?thesis by (simp add: unat_diff_le)
qed

definition frame_word :: "u8 \<Rightarrow> u32" where
  "frame_word cmd = of_nat (bits_value (frame_bits 0 cmd))"

lemma frame_value:
  "bits_value (frame_bits addr cmd)
     = ((unat addr * 256 + (255 - unat addr)) * 256 + unat cmd) * 256 + (255 - unat cmd)"
  by (simp add: frame_bits_def bits_value_append bits_value_byte unat_not_u8)

lemma word_bytes:
  "unat (ucast (drop_bit 24 v) :: u8) = unat (v :: u32) div 16777216"
  "unat (ucast (and (drop_bit 16 v) 0xff) :: u8) = unat v div 65536 mod 256"
  "unat (ucast (drop_bit 8 v) :: u8) = unat v div 256 mod 256"
  "unat (ucast v :: u8) = unat v mod 256"
proof -
  have "unat v div 16777216 < 256" using unat_u32_lt [of v] by linarith
  then show "unat (ucast (drop_bit 24 v) :: u8) = unat v div 16777216"
    by (simp add: unat_ucast_mod unat_drop_bit_eq drop_bit_eq_div unat_div)
  have "and (drop_bit 16 v) 0xff = take_bit 8 (drop_bit 16 v)"
    by (simp add: take_bit_eq_mask mask_eq_exp_minus_1)
  then show "unat (ucast (and (drop_bit 16 v) 0xff) :: u8) = unat v div 65536 mod 256"
    by (simp add: unat_ucast_mod drop_bit_eq_div take_bit_eq_mod unat_div unat_mod)
  show "unat (ucast (drop_bit 8 v) :: u8) = unat v div 256 mod 256"
    by (simp add: unat_ucast_mod drop_bit_eq_div unat_div)
  show "unat (ucast v :: u8) = unat v mod 256" by (simp add: unat_ucast_mod)
qed

text \<open>A word splits into its four bytes.\<close>

lemma bytes_of_nat:
  "n = ((n div 16777216 * 256 + n div 65536 mod 256) * 256 + n div 256 mod 256) * 256 + n mod (256 :: nat)"
proof -
  have "n div 256 div 256 = n div 65536" "n div 65536 div 256 = n div 16777216"
    by (simp_all add: div_mult2_eq [symmetric])
  then show ?thesis
    by (metis mult.commute mult_div_mod_eq)
qed

lemma base_256:
  assumes "b < 256" and "b' < 256"
  shows "a * 256 + b = a' * 256 + b' \<longleftrightarrow> a = a' \<and> b = (b' :: nat)"
proof -
  have "(a * 256 + b) div 256 = a" "(a * 256 + b) mod 256 = b"
    "(a' * 256 + b') div 256 = a'" "(a' * 256 + b') mod 256 = b'" using assms by simp_all
  then show ?thesis by metis
qed

lemma Remote_Scan_key:
  assumes "k \<noteq> 0"
  shows "fst (Remote_Scan r) = k \<longleftrightarrow> and (RmtSta r) 0x40 \<noteq> 0 \<and> RmtRec r = frame_word k"
proof -
  define v where "v = RmtRec r"
  define a b c d where "a = unat v div 16777216" and "b = unat v div 65536 mod 256"
    and "c = unat v div 256 mod 256" and "d = unat v mod 256"
  have v: "unat v = ((a * 256 + b) * 256 + c) * 256 + d"
    unfolding a_def b_def c_def d_def by (rule bytes_of_nat)
  have small: "b < 256" "c < 256" "d < 256" by (simp_all add: b_def c_def d_def)
  have a: "a < 256" using unat_u32_lt [of v] by (simp add: a_def less_mult_imp_div_less)
  have fw: "unat (frame_word k) = ((0 * 256 + 255) * 256 + unat k) * 256 + (255 - unat k)"
    unfolding frame_word_def frame_value using unat_u8_lt [of k]
    by (subst unat_of_nat_u32) (simp_all del: unat_u8_lt)
  have "v = frame_word k \<longleftrightarrow> a = 0 \<and> b = 255 \<and> c = unat k \<and> d = 255 - unat k"
    unfolding word_unat_eq_iff v fw using small a unat_u8_lt [of k]
    by (subst base_256, simp, simp)+ auto
  moreover have "fst (Remote_Scan r) = (if and (RmtSta r) 0x40 \<noteq> 0 \<and> a = 255 - b \<and> a = 0
      \<and> c = 255 - d then of_nat c else 0)"
  proof -
    have "(ucast (drop_bit 8 v) :: u8) = of_nat c"
      using word_bytes(3) [of v] by (metis c_def of_nat_unat ucast_id)
    moreover have "(ucast (drop_bit 24 v) :: u8) = not (ucast (and (drop_bit 16 v) 0xff)) \<longleftrightarrow> a = 255 - b"
      "(ucast (drop_bit 24 v) :: u8) = 0 \<longleftrightarrow> a = 0"
      "(ucast (drop_bit 8 v) :: u8) = not (ucast v) \<longleftrightarrow> c = 255 - d"
      using word_bytes [of v, folded a_def b_def c_def d_def]
      by (simp_all only: word_unat_eq_iff unat_not_u8 unat_0)
    moreover have "fst (Remote_Scan r) = (if and (RmtSta r) 0x40 \<noteq> 0 \<and>
        (ucast (drop_bit 24 v) :: u8) = not (ucast (and (drop_bit 16 v) 0xff)) \<and>
        (ucast (drop_bit 24 v) :: u8) = 0 \<and> (ucast (drop_bit 8 v) :: u8) = not (ucast v)
        then ucast (drop_bit 8 v) else 0)"
      by (auto simp: Remote_Scan_def Let_def v_def)
    ultimately show ?thesis by (simp only:)
  qed
  moreover have "(of_nat c :: u8) = k \<longleftrightarrow> c = unat k"
    using unat_of_nat_u8 [OF small(2)] by (metis of_nat_unat ucast_id)
  moreover have "a = 255 - b \<and> a = 0 \<longleftrightarrow> a = 0 \<and> b = 255" using small by linarith
  moreover have "c = 255 - d \<and> c = unat k \<longleftrightarrow> c = unat k \<and> d = 255 - unat k"
    using small unat_u8_lt [of k] by linarith
  ultimately show ?thesis using assms unfolding v_def by metis
qed

section \<open>Properties\<close>

text \<open>
  A frame of address 0 and any command but 0, with every pulse within the tolerance of
  the decoder, followed by the first overflow, is reported by \<open>Remote_Scan\<close> as exactly that
  command, whatever was in the receiver before, and keeps being reported while it is held.
\<close>

theorem frame_gives_the_key:
  assumes "ir_idle r" and "4200 < leader" and "leader < 4700" and "list_all pulse_ok ps"
    and "map fst ps = frame_bits 0 cmd" and "cmd \<noteq> 0"
  shows "Remote_Scan (foldl ir_step r (frame_events leader ps @ [Overflow]))
       = (cmd, foldl ir_step r (frame_events leader ps @ [Overflow]))"
proof -
  have "length ps = length (frame_bits 0 cmd)" using assms(5) by (metis length_map)
  then have "length ps = 32" by (simp add: frame_bits_def)
  with frame_received [OF assms(1-4)] obtain q where
    q: "foldl ir_step r (frame_events leader ps @ [Overflow]) = q" "RmtSta q = 0xC1"
       "RmtRec q = frame_word cmd"
    unfolding frame_word_def assms(5) by blast
  have "fst (Remote_Scan q) = cmd" using Remote_Scan_key [OF assms(6), of q] q by simp
  moreover have "snd (Remote_Scan q) = q" if "fst (Remote_Scan q) \<noteq> 0"
    using that q(2) by (auto simp: Remote_Scan_def Let_def split: if_splits)
  ultimately show ?thesis using assms(6) q(1) by (metis prod.collapse)
qed

definition sample_pulses :: "(bool \<times> u16) list" where
  "sample_pulses = map (\<lambda>b. (b, if b then 1680 else 560)) (frame_bits 0 0x62)"

definition quiet_remote :: remote where
  "quiet_remote = \<lparr> RmtSta = 0, Dval = 0, RmtRec = 0xDEADBEEF, RmtCnt = 3, falling = False \<rparr>"

lemma frame_gives_the_key_witness:
  "fst (Remote_Scan (foldl ir_step quiet_remote (frame_events 4500 sample_pulses @ [Overflow]))) = 0x62"
proof -
  have "list_all pulse_ok sample_pulses"
    by (simp add: sample_pulses_def list_all_iff pulse_ok_def)
  moreover have "map fst sample_pulses = frame_bits 0 0x62"
    by (simp add: sample_pulses_def comp_def)
  ultimately show ?thesis
    using frame_gives_the_key [of quiet_remote 4500 sample_pulses "0x62"]
    by (simp add: ir_idle_def quiet_remote_def)
qed

text \<open>
  C24. A key is only ever reported from a complete and consistent frame: \<open>Remote_Scan\<close> returns
  a key exactly when a key was collected and the 32 bits received are the address 0, its
  complement, the key and the complement of the key.
\<close>

theorem key_only_from_a_consistent_frame:
  assumes "k \<noteq> 0"
  shows "fst (Remote_Scan r) = k \<longleftrightarrow>
    and (RmtSta r) 0x40 \<noteq> 0 \<and> RmtRec r = of_nat (bits_value (frame_bits 0 k))"
  using Remote_Scan_key [OF assms] by (simp add: frame_word_def)

lemma key_only_from_a_consistent_frame_witness:
  "fst (Remote_Scan quiet_remote) \<noteq> 0x62"
  using key_only_from_a_consistent_frame [of "0x62" quiet_remote] by (simp add: quiet_remote_def)

lemma replicate_snoc: "replicate (Suc n) x = replicate n x @ [x]"
  by (simp add: replicate_append_same)

lemma held_after:
  assumes "RmtSta r = 0xC1" and "n < 14"
  shows "foldl ir_step r (replicate n Overflow) = r \<lparr> RmtSta := 0xC1 + of_nat n \<rparr>"
  using assms(2)
proof (induction n)
  case 0
  then show ?case using assms(1) by simp
next
  case (Suc n)
  have "n < 13" using Suc.prems by simp
  then have "ir_step (r \<lparr> RmtSta := 0xC1 + of_nat n \<rparr>) Overflow = r \<lparr> RmtSta := 0xC1 + of_nat (Suc n) \<rparr>"
    by (rule nat_below_cases) (simp add: upt_rec HAL_TIM_PeriodElapsedCallback_def Let_def)
  moreover have "foldl ir_step r (replicate (Suc n) Overflow)
      = ir_step (r \<lparr> RmtSta := 0xC1 + of_nat n \<rparr>) Overflow"
    unfolding replicate_snoc foldl_append using Suc by simp
  ultimately show ?case by (simp only:)
qed

text \<open>
  A key is held for 140 ms after the last frame or repeat code: fourteen further
  overflows end it, then one last \<open>Remote_Scan\<close> reports it, and the receiver is idle again.
\<close>

theorem held_key_is_released:
  assumes "RmtSta r = 0xC1" and "RmtRec r = frame_word k" and "k \<noteq> 0"
  shows "(\<forall>n < 14. Remote_Scan (foldl ir_step r (replicate n Overflow))
      = (k, foldl ir_step r (replicate n Overflow))) \<and>
    (\<exists>q. Remote_Scan (foldl ir_step r (replicate 14 Overflow)) = (k, q) \<and> RmtSta q = 0
      \<and> fst (Remote_Scan q) = 0)"
proof (intro conjI allI impI)
  note after = held_after [OF assms(1)]
  fix n :: nat assume n: "n < 14"
  have sta: "and (0xC1 + of_nat n) 0x40 \<noteq> (0 :: u8)" "and (0xC1 + of_nat n) 0x80 \<noteq> (0 :: u8)"
    by ((rule nat_below_cases [OF n], simp add: upt_rec)+)
  have key: "fst (Remote_Scan (r \<lparr> RmtSta := 0xC1 + of_nat n \<rparr>)) = k"
    using Remote_Scan_key [OF assms(3), of "r \<lparr> RmtSta := 0xC1 + of_nat n \<rparr>"] sta assms(2) by simp
  show "Remote_Scan (foldl ir_step r (replicate n Overflow))
      = (k, foldl ir_step r (replicate n Overflow))"
    unfolding after [OF n]
    by (rule prod_eqI) (use key sta assms(3) in \<open>auto simp: Remote_Scan_def Let_def split: if_splits\<close>)
next
  have "replicate 14 Overflow = replicate 13 Overflow @ [Overflow]"
    using replicate_snoc [of 13 Overflow] by simp
  then have last: "foldl ir_step r (replicate 14 Overflow) = r \<lparr> RmtSta := 0x40 \<rparr>"
    using held_after [OF assms(1), of 13] by (simp add: HAL_TIM_PeriodElapsedCallback_def Let_def)
  have key: "fst (Remote_Scan (r \<lparr> RmtSta := 0x40 \<rparr>)) = k"
    using Remote_Scan_key [OF assms(3), of "r \<lparr> RmtSta := 0x40 \<rparr>"] assms(2) by simp
  have "snd (Remote_Scan (r \<lparr> RmtSta := 0x40 \<rparr>)) = r \<lparr> RmtSta := 0, RmtCnt := 0 \<rparr>"
    by (simp add: Remote_Scan_def Let_def)
  then have "Remote_Scan (foldl ir_step r (replicate 14 Overflow)) = (k, r \<lparr> RmtSta := 0, RmtCnt := 0 \<rparr>)"
    unfolding last using key by (metis prod.collapse)
  then show "\<exists>q. Remote_Scan (foldl ir_step r (replicate 14 Overflow)) = (k, q) \<and> RmtSta q = 0
      \<and> fst (Remote_Scan q) = 0"
    by (auto simp: Remote_Scan_def)
qed

lemma held_key_is_released_witness:
  "fst (Remote_Scan (foldl ir_step (quiet_remote \<lparr> RmtSta := 0xC1, RmtRec := frame_word 0x62 \<rparr>)
     (replicate 14 Overflow))) = 0x62"
  using held_key_is_released [of "quiet_remote \<lparr> RmtSta := 0xC1, RmtRec := frame_word 0x62 \<rparr>" "0x62"]
  by (auto simp: prod_eq_iff)

end
