(* ===== verification/Usart2.thy ===== *)
theory Usart2
  imports Prelude
begin

text \<open>
  The receiver of the serial port to the GSM module: \<open>USART2_IRQHandler\<close> of
  \<open>applications/usart.c\<close> stores each byte and restarts timer 5, \<open>TIM5_IRQHandler\<close> of
  \<open>applications/bsp_timer.c\<close> runs when the line was quiet for 30 ms and marks the message
  complete. The threads poll bit 15 of \<open>USART_RX2_STA\<close> and clear it.
\<close>

section \<open>State and handlers\<close>

record usart2 =
  USART_RX2_STA :: u16
  USART_RX2_BUF :: "u8 list"   \<comment> \<open>\<open>USART_REC_LEN\<close> bytes\<close>
  tim5_enabled :: bool
  tim5_cnt :: u16
  red_led :: bool

definition USART_REC_LEN :: nat where
  "USART_REC_LEN = 1024"

text \<open>\<open>rxne\<close>: the data register \<open>dr\<close> holds a byte.\<close>

definition USART2_IRQHandler :: "bool \<Rightarrow> u8 \<Rightarrow> usart2 \<Rightarrow> usart2 cres" where
  "USART2_IRQHandler rxne dr u =
     (let u = u \<lparr> tim5_enabled := True \<rparr> in
      if rxne then
        (let u = u \<lparr> tim5_cnt := 0, red_led := \<not> red_led u \<rparr> in
         cbind (c_write (USART_RX2_BUF u) (unat (and (USART_RX2_STA u) 0x7FFF)) dr) (\<lambda>buf.
           let u = u \<lparr> USART_RX2_BUF := buf, USART_RX2_STA := USART_RX2_STA u + 1 \<rparr>
           in Ret (if of_nat (USART_REC_LEN - 1) < USART_RX2_STA u
                   then u \<lparr> USART_RX2_STA := 0 \<rparr> else u)))
      else Ret u)"

definition TIM5_IRQHandler :: "usart2 \<Rightarrow> usart2" where
  "TIM5_IRQHandler u = u \<lparr> USART_RX2_STA := 0x8000, red_led := True, tim5_enabled := False \<rparr>"

text \<open>What happens to the receiver: a byte, the quiet line, a thread that clears the flag.\<close>

datatype usart_event = Byte u8 | Quiet | Acknowledge

fun usart_step :: "usart_event \<Rightarrow> usart2 \<Rightarrow> usart2 cres" where
  "usart_step (Byte b) u = USART2_IRQHandler True b u"
| "usart_step Quiet u = Ret (TIM5_IRQHandler u)"
| "usart_step Acknowledge u = Ret (u \<lparr> USART_RX2_STA := 0 \<rparr>)"

fun usart_run :: "usart_event list \<Rightarrow> usart2 \<Rightarrow> usart2 cres" where
  "usart_run [] u = Ret u"
| "usart_run (e # es) u = cbind (usart_step e u) (usart_run es)"

section \<open>The receive index\<close>

text \<open>The state is a count below the length of the buffer, or the bare completion flag.\<close>

definition usart_ok :: "usart2 \<Rightarrow> bool" where
  "usart_ok u \<longleftrightarrow> length (USART_RX2_BUF u) = USART_REC_LEN \<and>
     (unat (USART_RX2_STA u) < USART_REC_LEN \<or> USART_RX2_STA u = 0x8000)"

lemma and_mask15: "unat (v :: u16) < 32768 \<Longrightarrow> and v 0x7FFF = v"
proof -
  assume "unat v < 32768"
  moreover have "and v 0x7FFF = take_bit 15 v" by (simp add: take_bit_eq_mask mask_eq_exp_minus_1)
  ultimately show ?thesis by (simp add: word_unat_eq_iff unsigned_take_bit_eq take_bit_nat_eq_self)
qed

text \<open>A byte while the count is below the end of the buffer.\<close>

lemma byte_received:
  assumes "length (USART_RX2_BUF u) = USART_REC_LEN" and "unat (USART_RX2_STA u) = n" and "n < 1024"
  shows "USART2_IRQHandler True b u = Ret (u \<lparr> USART_RX2_BUF := (USART_RX2_BUF u)[n := b],
     USART_RX2_STA := (if n = 1023 then 0 else of_nat (n + 1)), tim5_enabled := True, tim5_cnt := 0,
     red_led := \<not> red_led u \<rparr>)"
proof -
  have i: "and (USART_RX2_STA u) 0x7FFF = USART_RX2_STA u" using assms by (intro and_mask15) simp
  have s: "unat (USART_RX2_STA u + 1) = n + 1" using assms by (intro trans [OF unat_suc_u16]) simp_all
  then have w: "USART_RX2_STA u + 1 = of_nat (n + 1)" by (metis of_nat_unat ucast_id)
  have lim: "(of_nat (USART_REC_LEN - 1) :: u16) < USART_RX2_STA u + 1 \<longleftrightarrow> n = 1023"
    using s assms(3) by (auto simp: word_less_nat_alt USART_REC_LEN_def)
  show ?thesis
    using assms lim by (auto simp: USART2_IRQHandler_def Let_def i w [symmetric] USART_REC_LEN_def add.commute)
qed

text \<open>A byte while the completion flag is still set.\<close>

lemma byte_after_completion:
  assumes "length (USART_RX2_BUF u) = USART_REC_LEN" and "USART_RX2_STA u = 0x8000"
  shows "USART2_IRQHandler True b u = Ret (u \<lparr> USART_RX2_BUF := (USART_RX2_BUF u)[0 := b],
     USART_RX2_STA := 0, tim5_enabled := True, tim5_cnt := 0, red_led := \<not> red_led u \<rparr>)"
  using assms by (simp add: USART2_IRQHandler_def Let_def USART_REC_LEN_def)

lemma usart_step_ok:
  assumes "usart_ok u"
  shows "\<exists>u'. usart_step e u = Ret u' \<and> usart_ok u'"
proof (cases e)
  case (Byte b)
  show ?thesis
  proof (cases "USART_RX2_STA u = 0x8000")
    case True
    with assms byte_after_completion [of u b] Byte show ?thesis
      by (auto simp: usart_ok_def USART_REC_LEN_def)
  next
    case False
    with assms have "unat (USART_RX2_STA u) < 1024" by (auto simp: usart_ok_def USART_REC_LEN_def)
    moreover have "unat (of_nat (unat (USART_RX2_STA u) + 1) :: u16) < 1024"
      if "unat (USART_RX2_STA u) \<noteq> 1023"
      using calculation that by (subst unat_of_nat_u16) simp_all
    ultimately show ?thesis
      using assms byte_received [of u "unat (USART_RX2_STA u)" b] Byte
      by (auto simp: usart_ok_def USART_REC_LEN_def)
  qed
qed (use assms in \<open>auto simp: usart_ok_def TIM5_IRQHandler_def USART_REC_LEN_def\<close>)

lemma usart_run_ok: "usart_ok u \<Longrightarrow> \<exists>u'. usart_run es u = Ret u' \<and> usart_ok u'"
proof (induction es arbitrary: u)
  case (Cons e es)
  from usart_step_ok [OF Cons.prems] obtain u' where "usart_step e u = Ret u'" "usart_ok u'" by blast
  with Cons.IH [of u'] show ?case by simp
qed simp

text \<open>A message received from an empty count.\<close>

lemma bytes_received:
  assumes "length (USART_RX2_BUF u) = USART_REC_LEN" and "unat (USART_RX2_STA u) = n"
    and "n + length bs < 1024"
  shows "\<exists>u'. usart_run (map Byte bs) u = Ret u' \<and> unat (USART_RX2_STA u') = n + length bs
    \<and> USART_RX2_BUF u' = take n (USART_RX2_BUF u) @ bs @ drop (n + length bs) (USART_RX2_BUF u)"
  using assms
proof (induction bs arbitrary: u n)
  case Nil
  then show ?case by simp
next
  case (Cons b bs)
  have n: "n < 1024" "n \<noteq> 1023" using Cons.prems(3) by simp_all
  have step: "USART2_IRQHandler True b u = Ret (u \<lparr> USART_RX2_BUF := (USART_RX2_BUF u)[n := b],
      USART_RX2_STA := of_nat (n + 1), tim5_enabled := True, tim5_cnt := 0, red_led := \<not> red_led u \<rparr>)"
    using byte_received [OF Cons.prems(1,2) n(1), of b] n(2) by auto
  let ?u = "u \<lparr> USART_RX2_BUF := (USART_RX2_BUF u)[n := b], USART_RX2_STA := of_nat (n + 1),
    tim5_enabled := True, tim5_cnt := 0, red_led := \<not> red_led u \<rparr>"
  have "unat (of_nat (n + 1) :: u16) = n + 1" using n by (intro unat_of_nat_u16) simp
  then obtain u' where u': "usart_run (map Byte bs) ?u = Ret u'"
      "unat (USART_RX2_STA u') = (n + 1) + length bs"
      "USART_RX2_BUF u' = take (n + 1) (USART_RX2_BUF ?u) @ bs @ drop (n + 1 + length bs) (USART_RX2_BUF ?u)"
    using Cons.IH [of ?u "n + 1"] Cons.prems by auto
  have "take (n + 1) ((USART_RX2_BUF u)[n := b]) = take n (USART_RX2_BUF u) @ [b]"
    using Cons.prems n by (simp add: take_Suc_conv_app_nth USART_REC_LEN_def)
  then show ?case using u' step by (simp add: add_ac)
qed

section \<open>Properties\<close>

text \<open>
  C23. Whatever bytes, quiet periods and acknowledgements occur, in whatever order, the
  handlers never write outside the buffer.
\<close>

theorem receiver_stays_in_the_buffer:
  assumes "usart_ok u"
  shows "\<exists>u'. usart_run events u = Ret u' \<and> usart_ok u'"
  using assms by (rule usart_run_ok)

definition empty_usart :: usart2 where
  "empty_usart = \<lparr> USART_RX2_STA = 0, USART_RX2_BUF = replicate 1024 0, tim5_enabled = False,
     tim5_cnt = 0, red_led = True \<rparr>"

lemma receiver_stays_in_the_buffer_witness:
  "\<exists>u'. usart_run [Byte 79, Quiet, Byte 75, Acknowledge] empty_usart = Ret u' \<and> usart_ok u'"
  by (rule receiver_stays_in_the_buffer) (simp add: usart_ok_def empty_usart_def USART_REC_LEN_def)

text \<open>
  A message of fewer than 1024 bytes that starts when the count is 0 and ends with a
  quiet line is found complete at the start of the buffer with the completion flag set; the
  rest of the buffer is what it was.
\<close>

theorem message_is_received:
  assumes "length (USART_RX2_BUF u) = USART_REC_LEN" and "USART_RX2_STA u = 0" and "length bs < 1024"
  shows "\<exists>u'. usart_run (map Byte bs @ [Quiet]) u = Ret u' \<and> USART_RX2_STA u' = 0x8000
    \<and> USART_RX2_BUF u' = bs @ drop (length bs) (USART_RX2_BUF u) \<and> \<not> tim5_enabled u'"
proof -
  have app: "usart_run (xs @ ys) v = cbind (usart_run xs v) (usart_run ys)" for xs ys v
  proof (induction xs arbitrary: v)
    case (Cons e xs)
    then show ?case by (cases "usart_step e v") simp_all
  qed simp
  from bytes_received [of u 0 bs] assms show ?thesis
    by (auto simp: app TIM5_IRQHandler_def)
qed

lemma message_is_received_witness:
  "\<exists>u'. usart_run (map Byte [79, 75] @ [Quiet]) empty_usart = Ret u' \<and> USART_RX2_STA u' = 0x8000
    \<and> USART_RX2_BUF u' = [79, 75] @ drop 2 (USART_RX2_BUF empty_usart)"
  using message_is_received [of empty_usart "[79, 75]"]
  by (auto simp: empty_usart_def USART_REC_LEN_def)

text \<open>
  A message that was not acknowledged before the next byte is lost: the byte clears the
  completion flag without being counted, so the following byte is stored over it.
\<close>

theorem unacknowledged_message_is_lost:
  assumes "length (USART_RX2_BUF u) = USART_REC_LEN" and "USART_RX2_STA u = 0x8000"
  shows "\<exists>u'. usart_run [Byte b, Byte c] u = Ret u' \<and> USART_RX2_STA u' = 1
    \<and> USART_RX2_BUF u' = (USART_RX2_BUF u)[0 := c]"
proof -
  have 1: "USART2_IRQHandler True b u = Ret (u \<lparr> USART_RX2_BUF := (USART_RX2_BUF u)[0 := b],
      USART_RX2_STA := 0, tim5_enabled := True, tim5_cnt := 0, red_led := \<not> red_led u \<rparr>)"
    using byte_after_completion [OF assms] .
  let ?u = "u \<lparr> USART_RX2_BUF := (USART_RX2_BUF u)[0 := b], USART_RX2_STA := 0,
    tim5_enabled := True, tim5_cnt := 0, red_led := \<not> red_led u \<rparr>"
  show ?thesis using byte_received [of ?u 0 c] 1 assms(1) by auto
qed

lemma unacknowledged_message_is_lost_witness:
  "\<exists>u'. usart_run [Byte 43, Byte 67] (empty_usart \<lparr> USART_RX2_STA := 0x8000 \<rparr>) = Ret u'
    \<and> USART_RX2_STA u' = 1"
  using unacknowledged_message_is_lost [of "empty_usart \<lparr> USART_RX2_STA := 0x8000 \<rparr>" 43 67]
  by (auto simp: empty_usart_def USART_REC_LEN_def)

end
