(* ===== verification/Calendar.thy ===== *)
theory Calendar
  imports Prelude
begin

text \<open>
  The calendar arithmetic of \<open>applications/rtc.c\<close>: \<open>Is_Leap_Year\<close>, the conversion of a
  date to a number of seconds shared by \<open>RTC_Set\<close> and \<open>RTC_Alarm_Set\<close>, the conversion
  back in \<open>RTC_Get\<close>, and \<open>RTC_Get_Week\<close>. Every loop keeps the C types of its
  variables; a table read outside \<open>mon_table\<close> is a fault. The reference is the number of
  days since 1 January 1970 on natural numbers.
\<close>

section \<open>The code\<close>

definition Is_Leap_Year :: "u16 \<Rightarrow> u8" where
  "Is_Leap_Year year =
     (if year mod 4 = 0 then
        (if year mod 100 = 0 then
           (if year mod 400 = 0 then 1 else 0)
         else 1)
      else 0)"

definition mon_table :: "u8 list" where
  "mon_table = [31, 28, 31, 30, 31, 30, 31, 31, 30, 31, 30, 31]"

definition table_week :: "u8 list" where
  "table_week = [0, 3, 3, 6, 1, 4, 6, 2, 5, 0, 3, 5]"

lemma mon_table_pos: "c_read mon_table i = Ret len \<Longrightarrow> 28 \<le> unat len"
proof -
  assume "c_read mon_table i = Ret len"
  then have "len \<in> set mon_table" by (auto simp: c_read_def split: if_splits)
  then show ?thesis by (auto simp: mon_table_def)
qed

text \<open>\<open>for(t=1970;t<syear;t++)\<close>: the seconds of the whole years.\<close>

function set_years :: "u16 \<Rightarrow> u16 \<Rightarrow> u32 \<Rightarrow> u32" where
  "set_years t syear seccount =
     (if t < syear
      then set_years (t + 1) syear
             (if Is_Leap_Year t \<noteq> 0 then seccount + 31622400 else seccount + 31536000)
      else seccount)"
  by pat_completeness auto
termination
  by (relation "measure (\<lambda>(t, syear, _). unat syear - unat t)")
     (auto simp: nat_bridge word_less_nat_alt)

text \<open>
  \<open>for(t=0;t<smon;t++)\<close>: the seconds of the whole months, \<open>smon\<close> already decremented.
  The table read is before the leap-day test, as in the code.
\<close>

function set_months :: "u16 \<Rightarrow> u16 \<Rightarrow> u8 \<Rightarrow> u32 \<Rightarrow> u32 cres" where
  "set_months t syear smon seccount =
     (if t < ucast smon
      then cbind (c_read mon_table (unat t)) (\<lambda>len.
             let seccount = seccount + ucast len * 86400;
                 seccount = (if Is_Leap_Year syear \<noteq> 0 \<and> t = 1 then seccount + 86400
                             else seccount)
             in set_months (t + 1) syear smon seccount)
      else Ret seccount)"
  by pat_completeness auto
termination
  by (relation "measure (\<lambda>(t, _, smon, _). unat smon - unat t)")
     (auto simp: nat_bridge word_less_nat_alt)

declare set_years.simps [simp del] set_months.simps [simp del]

text \<open>
  The count of seconds \<open>RTC_Set\<close> and \<open>RTC_Alarm_Set\<close> compute before they write the
  registers. \<open>sday-1\<close> is an \<open>int\<close>, so day 0 counts as minus one day.
\<close>

definition date_seconds :: "u16 \<Rightarrow> u8 \<Rightarrow> u8 \<Rightarrow> u8 \<Rightarrow> u8 \<Rightarrow> u8 \<Rightarrow> u32 cres" where
  "date_seconds syear smon sday hour minute sec =
     (let seccount = set_years 1970 syear 0;
          smon = smon - 1
      in cbind (set_months 0 syear smon seccount) (\<lambda>seccount.
           Ret (seccount + (ucast sday - 1) * 86400 + ucast hour * 3600
                + ucast minute * 60 + ucast sec)))"

text \<open>The year loop of \<open>RTC_Get\<close>, over \<open>temp\<close> (days left) and \<open>temp1\<close> (the year).\<close>

function get_year :: "u32 \<Rightarrow> u16 \<Rightarrow> u32 \<times> u16" where
  "get_year temp temp1 =
     (if 365 \<le> temp then
        (if Is_Leap_Year temp1 \<noteq> 0 then
           (if 366 \<le> temp then get_year (temp - 366) (temp1 + 1) else (temp, temp1))
         else get_year (temp - 365) (temp1 + 1))
      else (temp, temp1))"
  by pat_completeness auto
termination
  by (relation "measure (\<lambda>(temp, _). unat temp)")
     (auto simp: nat_bridge word_le_nat_alt)

text \<open>The month loop of \<open>RTC_Get\<close>; \<open>temp1\<close> indexes \<open>mon_table\<close>.\<close>

function get_month :: "u16 \<Rightarrow> u32 \<Rightarrow> u16 \<Rightarrow> (u32 \<times> u16) cres" where
  "get_month w_year temp temp1 =
     (if 28 \<le> temp then
        (if Is_Leap_Year w_year \<noteq> 0 \<and> temp1 = 1 then
           (if 29 \<le> temp then get_month w_year (temp - 29) (temp1 + 1) else Ret (temp, temp1))
         else
           cbind (c_read mon_table (unat temp1)) (\<lambda>len.
             if ucast len \<le> temp
             then get_month w_year (temp - ucast len) (temp1 + 1)
             else Ret (temp, temp1)))
      else Ret (temp, temp1))"
  by pat_completeness auto
termination
  by (relation "measure (\<lambda>(_, temp, _). unat temp)")
     (auto simp: nat_bridge word_le_nat_alt dest: mon_table_pos)

declare get_year.simps [simp del] get_month.simps [simp del]

text \<open>The day of the week, 0 for Sunday.\<close>

definition RTC_Get_Week :: "u16 \<Rightarrow> u8 \<Rightarrow> u8 \<Rightarrow> u8 cres" where
  "RTC_Get_Week year month day =
     (let yearH = ucast (year div 100) :: u8;
          yearL = ucast (year mod 100) :: u8;
          yearL = (if 19 < yearH then yearL + 100 else yearL);
          temp2 = (ucast yearL :: u16) + ucast (yearL div 4);
          temp2 = temp2 mod 7
      in if month = 0 then Fault else
         cbind (c_read table_week (unat month - 1)) (\<lambda>w.
           let temp2 = temp2 + ucast day + ucast w;
               temp2 = (if yearL mod 4 = 0 \<and> month < 3 then temp2 - 1 else temp2)
           in Ret (ucast (temp2 mod 7))))"

section \<open>The reference calendar\<close>

definition leap :: "nat \<Rightarrow> bool" where
  "leap y \<longleftrightarrow> y mod 4 = 0 \<and> (y mod 100 \<noteq> 0 \<or> y mod 400 = 0)"

definition year_len :: "nat \<Rightarrow> nat" where
  "year_len y = (if leap y then 366 else 365)"

definition month_len :: "nat \<Rightarrow> nat \<Rightarrow> nat" where
  "month_len y i = (if leap y \<and> i = 1 then 29 else unat (mon_table ! i))"
  \<comment> \<open>months are counted from 0 here\<close>

definition days_before_year :: "nat \<Rightarrow> nat" where
  "days_before_year y = (\<Sum>t = 1970..<y. year_len t)"

definition days_before_month :: "nat \<Rightarrow> nat \<Rightarrow> nat" where
  "days_before_month y m = (\<Sum>i = 0..<m. month_len y i)"

definition day_number :: "nat \<Rightarrow> nat \<Rightarrow> nat \<Rightarrow> nat" where
  "day_number y m d = days_before_year y + days_before_month y (m - 1) + (d - 1)"

definition valid_date :: "nat \<Rightarrow> nat \<Rightarrow> nat \<Rightarrow> bool" where
  "valid_date y m d \<longleftrightarrow>
     1970 \<le> y \<and> 1 \<le> m \<and> m \<le> 12 \<and> 1 \<le> d \<and> d \<le> month_len y (m - 1)"

definition valid_time :: "nat \<Rightarrow> nat \<Rightarrow> nat \<Rightarrow> bool" where
  "valid_time h m s \<longleftrightarrow> h < 24 \<and> m < 60 \<and> s < 60"

lemma length_mon_table [simp]: "length mon_table = 12"
  by (simp add: mon_table_def)

lemma year_len_bounds: "365 \<le> year_len y" "year_len y \<le> 366"
  by (auto simp: year_len_def)

lemma month_len_bounds:
  assumes "i < 12"
  shows "28 \<le> month_len y i" and "month_len y i \<le> 31"
proof -
  from assms have "mon_table ! i \<in> set mon_table" by simp
  then have "28 \<le> unat (mon_table ! i) \<and> unat (mon_table ! i) \<le> 31"
    by (auto simp: mon_table_def)
  then show "28 \<le> month_len y i" and "month_len y i \<le> 31"
    by (auto simp: month_len_def)
qed

lemma Is_Leap_Year_iff: "Is_Leap_Year y \<noteq> 0 \<longleftrightarrow> leap (unat y)"
  by (simp add: Is_Leap_Year_def leap_def word_mod_0_iff)

section \<open>From a date to seconds\<close>

lemma set_years_step:
  "t < y \<Longrightarrow> set_years t y acc = set_years (t + 1) y (acc + of_nat (86400 * year_len (unat t)))"
  by (simp add: set_years.simps [of t] Is_Leap_Year_iff year_len_def)

lemma set_years_sum:
  assumes "unat t + n = unat y"
  shows "set_years t y acc
       = acc + of_nat (86400 * (\<Sum>i = unat t..<unat t + n. year_len i))"
  using assms
proof (induction n arbitrary: t acc)
  case 0
  then show ?case by (simp add: set_years.simps word_less_nat_alt)
next
  case (Suc n)
  then have lt: "t < y" by (simp add: word_less_nat_alt)
  then have inc: "unat (t + 1) = unat t + 1" by (rule unat_inc_u16)
  have "set_years t y acc = set_years (t + 1) y (acc + of_nat (86400 * year_len (unat t)))"
    by (rule set_years_step) (rule lt)
  also have "\<dots> = acc + of_nat (86400 * year_len (unat t))
      + of_nat (86400 * (\<Sum>i = unat t + 1..<unat t + 1 + n. year_len i))"
    using Suc.IH [of "t + 1"] Suc.prems by (simp add: inc del: sum.op_ivl_Suc)
  also have "\<dots> = acc + of_nat (86400 * (\<Sum>i = unat t..<unat t + Suc n. year_len i))"
    by (subst sum_first) (simp add: distrib_left del: sum.op_ivl_Suc)
  finally show ?case .
qed

lemma set_months_step:
  assumes "unat t < unat s" and "unat t < 12"
  shows "set_months t y s acc
       = set_months (t + 1) y s (acc + of_nat (86400 * month_len (unat y) (unat t)))"
proof -
  have one: "t = 1 \<longleftrightarrow> unat t = 1" by (metis unsigned_1 unsigned_word_eqI)
  have lt: "t < ucast s" using assms(1) by (simp add: word_less_nat_alt)
  have len: "c_read mon_table (unat t) = Ret (mon_table ! unat t)" using assms(2) by simp
  show ?thesis
  proof (cases "t = 1 \<and> leap (unat y)")
    case True
    then have "mon_table ! unat t = 28" by (simp add: mon_table_def)
    with True lt len show ?thesis
      by (simp add: set_months.simps [of t] Is_Leap_Year_iff month_len_def one add.assoc)
  next
    case False
    then have "month_len (unat y) (unat t) = unat (mon_table ! unat t)"
      by (auto simp: month_len_def one)
    with False lt len show ?thesis
      by (auto simp: set_months.simps [of t] Is_Leap_Year_iff mult.commute)
  qed
qed

lemma set_months_sum:
  assumes "unat t + n = unat s" and "unat s \<le> 12"
  shows "set_months t y s acc
       = Ret (acc + of_nat (86400 * (\<Sum>i = unat t..<unat t + n. month_len (unat y) i)))"
  using assms
proof (induction n arbitrary: t acc)
  case 0
  then show ?case by (simp add: set_months.simps word_less_nat_alt)
next
  case (Suc n)
  then have lt: "unat t < unat s" "unat t < 12" by simp_all
  then have inc: "unat (t + 1) = unat t + 1" by (simp add: unat_suc_below_u8)
  have "set_months t y s acc
      = set_months (t + 1) y s (acc + of_nat (86400 * month_len (unat y) (unat t)))"
    by (rule set_months_step) (rule lt)+
  also have "\<dots> = Ret (acc + of_nat (86400 * month_len (unat y) (unat t))
      + of_nat (86400 * (\<Sum>i = unat t + 1..<unat t + 1 + n. month_len (unat y) i)))"
    using Suc.IH [of "t + 1"] Suc.prems by (simp add: inc del: sum.op_ivl_Suc)
  also have "\<dots> = Ret (acc
      + of_nat (86400 * (\<Sum>i = unat t..<unat t + Suc n. month_len (unat y) i)))"
    by (subst sum_first) (simp add: distrib_left del: sum.op_ivl_Suc)
  finally show ?case .
qed

text \<open>Past December the loop reads outside \<open>mon_table\<close>.\<close>

lemma set_months_overrun:
  assumes "unat t + n = 12" and "12 < unat s"
  shows "set_months t y s acc = Fault"
  using assms
proof (induction n arbitrary: t acc)
  case 0
  then show ?case by (simp add: set_months.simps [of t] word_less_nat_alt)
next
  case (Suc n)
  then have lt: "unat t < unat s" "unat t < 12" by simp_all
  then have inc: "unat (t + 1) = unat t + 1" by (simp add: unat_suc_below_u8)
  show ?case using Suc.IH [of "t + 1"] Suc.prems
    by (simp add: set_months_step [OF lt] inc)
qed

lemma date_seconds_date:
  assumes "1970 \<le> unat y" and "1 \<le> unat m" and "unat m \<le> 12" and "1 \<le> unat d"
  shows "date_seconds y m d h mi s
       = Ret (of_nat (86400 * day_number (unat y) (unat m) (unat d)
                      + 3600 * unat h + 60 * unat mi + unat s))"
proof -
  have m1: "unat (m - 1) = unat m - 1"
    using assms(2) by (simp add: unat_diff_le word_le_nat_alt)
  have years: "set_years 1970 y 0 = of_nat (86400 * days_before_year (unat y))"
    using set_years_sum [of 1970 "unat y - 1970" y 0] assms(1)
    by (simp add: days_before_year_def)
  have months: "set_months 0 y (m - 1) acc
      = Ret (acc + of_nat (86400 * days_before_month (unat y) (unat m - 1)))" for acc
    using set_months_sum [of 0 "unat m - 1" "m - 1" y acc] assms(3) m1
    by (simp add: days_before_month_def)
  from assms(4) obtain k where k: "unat d = Suc k" by (metis Suc_le_D One_nat_def)
  then have "(ucast d :: u32) = of_nat (Suc k)" by (metis of_nat_unat)
  then have day: "(ucast d - 1 :: u32) = of_nat k" by simp
  show ?thesis
    by (simp add: date_seconds_def years months day k Let_def day_number_def algebra_simps)
qed

text \<open>Month 0 wraps to 255 in the \<open>uint8_t\<close> and the loop overruns the table.\<close>

lemma date_seconds_month_0: "date_seconds y 0 d h mi s = Fault"
proof -
  have "set_months 0 y (- 1) acc = Fault" for acc
    by (rule set_months_overrun [of 0 12]) (simp_all add: unsigned_minus_1_eq_mask mask_eq_exp_minus_1)
  then show ?thesis by (simp add: date_seconds_def Let_def)
qed

section \<open>From days to a date\<close>

lemma get_year_step:
  assumes "year_len (unat y) \<le> unat temp"
  shows "get_year temp y = get_year (temp - of_nat (year_len (unat y))) (y + 1)"
  using assms
  by (auto simp: get_year.simps [of temp] Is_Leap_Year_iff year_len_def word_le_nat_alt
      split: if_splits)

lemma get_year_stop:
  assumes "unat temp < year_len (unat y)"
  shows "get_year temp y = (temp, y)"
  using assms
  by (auto simp: get_year.simps [of temp] Is_Leap_Year_iff year_len_def word_le_nat_alt
      split: if_splits)

lemma get_year_sum:
  assumes "unat temp = (\<Sum>i = unat y..<unat y + n. year_len i) + r"
    and "r < year_len (unat y + n)" and "unat y + n < 65536"
  shows "get_year temp y = (of_nat r, y + of_nat n)"
  using assms
proof (induction n arbitrary: temp y)
  case 0
  then have "temp = of_nat r" by (metis add_0 add_0_right of_nat_unat sum.op_ivl_Suc
        atLeastLessThan_empty order_refl sum.empty ucast_id)
  with 0 show ?case by (simp add: get_year_stop)
next
  case (Suc n)
  let ?l = "year_len (unat y)"
  have inc: "unat (y + 1) = unat y + 1" using Suc.prems(3) by (simp add: unat_suc_u16)
  have sum: "unat temp = ?l + ((\<Sum>i = unat y + 1..<unat y + 1 + n. year_len i) + r)"
    using Suc.prems(1) unfolding sum_first by (simp del: sum.op_ivl_Suc)
  have l: "unat (of_nat ?l :: u32) = ?l" by (simp add: year_len_def)
  have "unat (temp - of_nat ?l) = (\<Sum>i = unat (y + 1)..<unat (y + 1) + n. year_len i) + r"
    using sum by (simp add: unat_sub word_le_nat_alt l inc del: sum.op_ivl_Suc)
  then have "get_year (temp - of_nat ?l) (y + 1) = (of_nat r, y + 1 + of_nat n)"
    using Suc.prems(2,3) by (intro Suc.IH) (simp_all add: inc)
  moreover have "get_year temp y = get_year (temp - of_nat ?l) (y + 1)"
    using sum by (intro get_year_step) simp
  ultimately show ?case by (simp add: add.assoc)
qed

lemma get_month_step:
  assumes "month_len (unat Y) (unat t) \<le> unat temp" and "unat t < 12"
  shows "get_month Y temp t
       = get_month Y (temp - of_nat (month_len (unat Y) (unat t))) (t + 1)"
proof -
  have one: "t = 1 \<longleftrightarrow> unat t = 1" by (metis unsigned_1 unsigned_word_eqI)
  have "28 \<le> unat temp" using month_len_bounds(1) [OF assms(2)] assms(1) by (rule le_trans)
  with assms show ?thesis
    by (auto simp: get_month.simps [of Y temp] Is_Leap_Year_iff month_len_def one
        word_le_nat_alt word_less_nat_alt split: if_splits)
qed

lemma get_month_stop:
  assumes "unat temp < month_len (unat Y) (unat t)" and "unat t < 12"
  shows "get_month Y temp t = Ret (temp, t)"
proof -
  have one: "t = 1 \<longleftrightarrow> unat t = 1" by (metis unsigned_1 unsigned_word_eqI)
  from assms show ?thesis
    by (auto simp: get_month.simps [of Y temp] Is_Leap_Year_iff month_len_def one
        word_le_nat_alt word_less_nat_alt split: if_splits)
qed

lemma get_month_sum:
  assumes "unat temp = (\<Sum>i = unat t..<unat t + n. month_len (unat Y) i) + r"
    and "r < month_len (unat Y) (unat t + n)" and "unat t + n < 12"
  shows "get_month Y temp t = Ret (of_nat r, t + of_nat n)"
  using assms
proof (induction n arbitrary: temp t)
  case 0
  then have "temp = of_nat r" by (metis add_0 add_0_right of_nat_unat
        atLeastLessThan_empty order_refl sum.empty ucast_id)
  with 0 show ?case by (simp add: get_month_stop)
next
  case (Suc n)
  let ?l = "month_len (unat Y) (unat t)"
  have inc: "unat (t + 1) = unat t + 1" using Suc.prems(3) by (simp add: unat_suc_u16)
  have sum: "unat temp
      = ?l + ((\<Sum>i = unat t + 1..<unat t + 1 + n. month_len (unat Y) i) + r)"
    using Suc.prems(1) unfolding sum_first by (simp del: sum.op_ivl_Suc)
  have "?l < 4294967296"
    using month_len_bounds(2) [of "unat t" "unat Y"] Suc.prems(3) by linarith
  then have l: "unat (of_nat ?l :: u32) = ?l" by (simp add: unat_of_nat)
  have "unat (temp - of_nat ?l)
      = (\<Sum>i = unat (t + 1)..<unat (t + 1) + n. month_len (unat Y) i) + r"
    using sum by (simp add: unat_sub word_le_nat_alt l inc del: sum.op_ivl_Suc)
  then have "get_month Y (temp - of_nat ?l) (t + 1) = Ret (of_nat r, t + 1 + of_nat n)"
    using Suc.prems(2,3) by (intro Suc.IH) (simp_all add: inc)
  moreover have "get_month Y temp t = get_month Y (temp - of_nat ?l) (t + 1)"
    using sum Suc.prems(3) by (intro get_month_step) simp_all
  ultimately show ?case by (simp add: add.assoc)
qed

lemma sum_month_len: "(\<Sum>i = 0..<12. month_len y i) = year_len y"
proof -
  have "{0..<12 :: nat} = {0, 1, 2, 3, 4, 5, 6, 7, 8, 9, 10, 11}" by auto presburger
  then show ?thesis by (simp add: month_len_def year_len_def mon_table_def)
qed

text \<open>
  The two loops together: the date whose day number is \<open>temp\<close>. The code runs them only
  when the day changed.
\<close>

definition days_to_date :: "u32 \<Rightarrow> (u16 \<times> u8 \<times> u8) cres" where
  "days_to_date temp =
     (let (temp, temp1) = get_year temp 1970; w_year = temp1 in
      cbind (get_month w_year temp 0) (\<lambda>(temp, temp1).
        Ret (w_year, ucast (temp1 + 1), ucast (temp + 1))))"

lemma days_before_month_le:
  assumes "m < 12"
  shows "days_before_month y m + month_len y m \<le> year_len y"
proof -
  have "days_before_month y m + month_len y m = (\<Sum>i = 0..<Suc m. month_len y i)"
    by (simp add: days_before_month_def)
  also have "\<dots> \<le> (\<Sum>i = 0..<12. month_len y i)"
    using assms by (intro sum_mono2) auto
  finally show ?thesis by (simp add: sum_month_len)
qed

lemma days_to_date_day_number:
  assumes "valid_date y m d" and "y < 65536" and "day_number y m d < 4294967296"
  shows "days_to_date (of_nat (day_number y m d)) = Ret (of_nat y, of_nat m, of_nat d)"
proof -
  define r where "r = days_before_month y (m - 1) + (d - 1)"
  define D where "D = day_number y m d"
  from assms(1) have v: "1970 \<le> y" "1 \<le> m" "m \<le> 12" "1 \<le> d" "d \<le> month_len y (m - 1)"
    by (simp_all add: valid_date_def)
  have dlt: "d - 1 < month_len y (m - 1)" and m: "m - 1 < 12" using v by linarith+
  then have r: "r < year_len y"
    using days_before_month_le [OF m, of y] by (simp add: r_def)
  then have r': "unat (of_nat r :: u32) = r"
    using year_len_bounds(2) [of y] by (intro unat_of_nat_u32) linarith
  have y': "unat (of_nat y :: u16) = y" using assms(2) by (rule unat_of_nat_u16)
  have "unat (of_nat D :: u32) = (\<Sum>i = 1970..<1970 + (y - 1970). year_len i) + r"
    using v(1) unfolding unat_of_nat_u32 [OF assms(3) [folded D_def]]
    by (simp add: D_def day_number_def days_before_year_def r_def)
  then have gy: "get_year (of_nat D) 1970 = (of_nat r, of_nat y)"
    using get_year_sum [of "of_nat D" 1970 "y - 1970" r] r v(1) assms(2)
    by (simp add: of_nat_diff)
  have gm: "get_month (of_nat y) (of_nat r) 0 = Ret (of_nat (d - 1), of_nat (m - 1))"
    using get_month_sum [where t = 0 and n = "m - 1" and r = "d - 1" and Y = "of_nat y"
        and temp = "of_nat r"] dlt m r'
    by (simp add: y' days_before_month_def r_def)
  have "month_len y (m - 1) \<le> 31" using m by (rule month_len_bounds)
  with v have "d - 1 < 256" "m - 1 < 256" by linarith+
  then have u: "unat (of_nat (d - 1) + 1 :: u32) = d" "unat (of_nat (m - 1) + 1 :: u16) = m"
    using v(2,4) unat_suc_u32 [of "of_nat (d - 1)"] unat_suc_u16 [of "of_nat (m - 1)"]
    by (simp_all add: unat_of_nat_u32 unat_of_nat_u16)
  show ?thesis
    by (simp only: days_to_date_def D_def [symmetric] gy gm Let_def prod.case cbind.simps
        ucast_eq_of_nat [OF u(1)] ucast_eq_of_nat [OF u(2)])
qed

lemma date_of_day:
  "\<exists>y m d. valid_date y m d \<and> day_number y m d = D \<and> y \<le> 1970 + D div 365"
proof -
  have "\<And>i. 0 < year_len i" by (simp add: year_len_def)
  then obtain n r where D: "D = (\<Sum>i = 1970..<1970 + n. year_len i) + r"
      and r: "r < year_len (1970 + n)"
    using block_position [of year_len D 1970] by blast
  let ?y = "1970 + n"
  let ?f = "\<lambda>i. if i < 12 then month_len ?y i else 1"
  have "0 < ?f i" for i using month_len_bounds(1) [of i ?y] by auto
  then obtain k q where k: "r = (\<Sum>i = 0..<0 + k. ?f i) + q" and q: "q < ?f (0 + k)"
    using block_position [of ?f r 0] by blast
  have "k < 12"
  proof (rule ccontr)
    assume "\<not> k < 12"
    then have "(\<Sum>i = 0..<12. ?f i) \<le> (\<Sum>i = 0..<k. ?f i)" by (intro sum_mono2) auto
    moreover have "(\<Sum>i = 0..<12. ?f i) = year_len ?y"
      unfolding sum_month_len [symmetric] by (intro sum.cong) auto
    ultimately show False using k r by simp
  qed
  then have "(\<Sum>i = 0..<k. ?f i) = days_before_month ?y k"
    unfolding days_before_month_def by (intro sum.cong) auto
  with k q \<open>k < 12\<close> have "valid_date ?y (k + 1) (q + 1)" "day_number ?y (k + 1) (q + 1) = D"
    using D by (simp_all add: valid_date_def day_number_def days_before_year_def)
  moreover have "365 * n \<le> D"
  proof -
    have "365 * n = (\<Sum>i = 1970..<1970 + n. 365)" by simp
    also have "\<dots> \<le> (\<Sum>i = 1970..<1970 + n. year_len i)"
      by (intro sum_mono) (simp add: year_len_bounds)
    finally show ?thesis using D by simp
  qed
  ultimately show ?thesis by (intro exI conjI) (assumption | simp)+
qed

section \<open>The day of the week\<close>

lemma leap_until_2099: "1970 \<le> y \<Longrightarrow> y < 2100 \<Longrightarrow> leap y \<longleftrightarrow> y mod 4 = 0"
proof -
  assume y: "1970 \<le> y" "y < 2100"
  have "y mod 100 = 0 \<Longrightarrow> y = 2000" using y by presburger
  then show ?thesis unfolding leap_def by (cases "y mod 100 = 0") auto
qed

lemma days_before_year_until_2099:
  "k \<le> 130 \<Longrightarrow> days_before_year (1970 + k) = 365 * k + (k + 1) div 4"
proof (induction k)
  case 0
  then show ?case by (simp add: days_before_year_def)
next
  case (Suc k)
  have "days_before_year (1970 + Suc k) = days_before_year (1970 + k) + year_len (1970 + k)"
  proof -
    have "{1970..<1970 + Suc k} = insert (1970 + k) {1970..<1970 + k}" by auto
    then show ?thesis by (simp add: days_before_year_def)
  qed
  moreover have "leap (1970 + k) \<longleftrightarrow> (1970 + k) mod 4 = 0"
    using Suc.prems by (intro leap_until_2099) simp_all
  moreover have "(1970 + k) mod 4 = 0 \<longleftrightarrow> (k + 2) mod 4 = 0" by presburger
  ultimately have "days_before_year (1970 + Suc k)
      = 365 * k + (k + 1) div 4 + (if (k + 2) mod 4 = 0 then 366 else 365)"
    using Suc by (simp add: year_len_def)
  also have "\<dots> = 365 * Suc k + (Suc k + 1) div 4" by (simp, presburger)
  finally show ?case .
qed

text \<open>The formula of \<open>RTC_Get_Week\<close> on natural numbers.\<close>

definition week_formula :: "nat \<Rightarrow> nat \<Rightarrow> nat \<Rightarrow> nat" where
  "week_formula y m d =
     (let yl = y - 1900; t = (yl + yl div 4) mod 7 + d + unat (table_week ! (m - 1))
      in (if yl mod 4 = 0 \<and> m < 3 then t - 1 else t) mod 7)"

lemma century_offset:
  "1970 \<le> y \<Longrightarrow> y < 2000 \<Longrightarrow> y mod 100 = y - (1900 :: nat)"
  "2000 \<le> y \<Longrightarrow> y \<le> 2099 \<Longrightarrow> y mod 100 = y - (2000 :: nat)"
proof -
  assume "1970 \<le> y" "y < 2000"
  then obtain k where k: "y = 1900 + k" "k < 100"
    using le_Suc_ex [of 1900 y] by auto
  have "(1900 + k) mod 100 = k mod 100" using mod_mult_self4 [of 100 19 k] by simp
  then show "y mod 100 = y - 1900" using k by simp
next
  assume "2000 \<le> y" "y \<le> 2099"
  then obtain k where k: "y = 2000 + k" "k < 100"
    using le_Suc_ex [of 2000 y] by auto
  have "(2000 + k) mod 100 = k mod 100" using mod_mult_self4 [of 100 20 k] by simp
  then show "y mod 100 = y - 2000" using k by simp
qed

lemma RTC_Get_Week_formula:
  assumes "1970 \<le> unat y" and "unat y \<le> 2099" and "1 \<le> unat m" and "unat m \<le> 12"
    and "1 \<le> unat d"
  shows "RTC_Get_Week y m d = Ret (of_nat (week_formula (unat y) (unat m) (unat d)))"
proof -
  let ?yH = "ucast (y div 100) :: u8" and ?yL = "ucast (y mod 100) :: u8"
  let ?w = "table_week ! (unat m - 1)"
  define L where "L = (if 19 < ?yH then ?yL + 100 else ?yL)"
  define t where "t = (ucast L + ucast (L div 4)) mod 7 + (ucast d :: u16) + ucast ?w"
  have H: "unat ?yH = unat y div 100" "unat ?yL = unat y mod 100"
    using assms(2) by (simp_all add: unat_ucast_mod unat_div unat_mod)
  have "19 < ?yH \<longleftrightarrow> 2000 \<le> unat y"
    using less_eq_div_iff_mult_less_eq [of 100 20 "unat y"] by (auto simp: word_less_nat_alt H)
  then have L: "unat L = unat y - 1900"
    using century_offset [of "unat y"] assms(1,2) by (auto simp: L_def unat_word_ariths H)
  have "?w \<in> set table_week" using assms(3,4) by (intro nth_mem) (simp add: table_week_def)
  then have w: "unat ?w \<le> 6" by (auto simp: table_week_def)
  have L2: "unat ((ucast L :: u16) + ucast (L div 4)) = unat L + unat L div 4"
    using L assms(2) by (simp add: unat_word_ariths unat_div)
  define q where "q = (unat L + unat L div 4) mod 7"
  have q: "q < 7" "unat ((ucast L + ucast (L div 4)) mod 7 :: u16) = q"
    by (simp_all add: q_def unat_mod L2)
  have t: "unat t = (unat L + unat L div 4) mod 7 + unat d + unat ?w"
  proof -
    have "q + unat d + unat ?w < 65536" using w q(1) unat_u8_lt [of d] by linarith
    then show ?thesis by (simp add: t_def unat_word_ariths(1) q(2) flip: q_def)
  qed
  have L4: "L mod 4 = 0 \<longleftrightarrow> unat L mod 4 = 0"
    by (simp add: word_mod_0_iff)
  have m: "m < 3 \<longleftrightarrow> unat m < 3" "m \<noteq> 0"
    using assms(3) by (auto simp: word_less_nat_alt)
  have "1 \<le> t" using t assms(5) by (simp add: word_le_nat_alt)
  then have t1: "unat (t - 1) = unat t - 1" by (simp add: unat_diff_le)
  have "RTC_Get_Week y m d = Ret (ucast ((if L mod 4 = 0 \<and> m < 3 then t - 1 else t) mod 7))"
    using m(2) assms(3,4) by (simp add: RTC_Get_Week_def Let_def L_def t_def table_week_def)
  also have "\<dots> = Ret (of_nat (week_formula (unat y) (unat m) (unat d)))"
    by (auto simp: L4 m week_formula_def Let_def L t t1 unat_mod intro!: ucast_eq_of_nat)
  finally show ?thesis .
qed

lemma days_before_month_Suc:
  "days_before_month y (Suc m) = days_before_month y m + month_len y m"
  by (simp add: days_before_month_def)

lemma days_before_month_table:
  "days_before_month y 0 = 0"
  "days_before_month y (Suc 0) = 31"
  "days_before_month y 2 = 59 + (if leap y then 1 else 0)"
  "days_before_month y 3 = 90 + (if leap y then 1 else 0)"
  "days_before_month y 4 = 120 + (if leap y then 1 else 0)"
  "days_before_month y 5 = 151 + (if leap y then 1 else 0)"
  "days_before_month y 6 = 181 + (if leap y then 1 else 0)"
  "days_before_month y 7 = 212 + (if leap y then 1 else 0)"
  "days_before_month y 8 = 243 + (if leap y then 1 else 0)"
  "days_before_month y 9 = 273 + (if leap y then 1 else 0)"
  "days_before_month y 10 = 304 + (if leap y then 1 else 0)"
  "days_before_month y 11 = 334 + (if leap y then 1 else 0)"
proof -
  note step = days_before_month_Suc [of y]
  show m0: "days_before_month y 0 = 0" by (simp add: days_before_month_def)
  show m1: "days_before_month y (Suc 0) = 31"
    using step [of 0] m0 by (simp add: month_len_def mon_table_def)
  show m2: "days_before_month y 2 = 59 + (if leap y then 1 else 0)"
    using step [of "Suc 0"] m1 by (simp add: month_len_def mon_table_def flip: numeral_2_eq_2)
  show m3: "days_before_month y 3 = 90 + (if leap y then 1 else 0)"
    using step [of 2] m2 by (simp add: month_len_def mon_table_def)
  show m4: "days_before_month y 4 = 120 + (if leap y then 1 else 0)"
    using step [of 3] m3 by (simp add: month_len_def mon_table_def)
  show m5: "days_before_month y 5 = 151 + (if leap y then 1 else 0)"
    using step [of 4] m4 by (simp add: month_len_def mon_table_def)
  show m6: "days_before_month y 6 = 181 + (if leap y then 1 else 0)"
    using step [of 5] m5 by (simp add: month_len_def mon_table_def)
  show m7: "days_before_month y 7 = 212 + (if leap y then 1 else 0)"
    using step [of 6] m6 by (simp add: month_len_def mon_table_def)
  show m8: "days_before_month y 8 = 243 + (if leap y then 1 else 0)"
    using step [of 7] m7 by (simp add: month_len_def mon_table_def)
  show m9: "days_before_month y 9 = 273 + (if leap y then 1 else 0)"
    using step [of 8] m8 by (simp add: month_len_def mon_table_def)
  show m10: "days_before_month y 10 = 304 + (if leap y then 1 else 0)"
    using step [of 9] m9 by (simp add: month_len_def mon_table_def)
  show m11: "days_before_month y 11 = 334 + (if leap y then 1 else 0)"
    using step [of 10] m10 by (simp add: month_len_def mon_table_def)
qed

lemma month_cases:
  assumes "1 \<le> (m :: nat)" and "m \<le> 12"
  shows "m = 1 \<or> m = 2 \<or> m = 3 \<or> m = 4 \<or> m = 5 \<or> m = 6 \<or> m = 7 \<or> m = 8 \<or> m = 9
    \<or> m = 10 \<or> m = 11 \<or> m = 12"
  using assms by presburger

lemma month_offset_mod_7:
  assumes "1 \<le> m" and "m \<le> 12"
  shows "days_before_month y (m - 1) mod 7
       = (unat (table_week ! (m - 1)) + (if leap y \<and> 3 \<le> m then 1 else 0)) mod 7"
  using month_cases [OF assms]
  by (elim disjE) (simp_all add: days_before_month_table table_week_def)

lemma leap_quarters:
  "(k + 1) div 4 + (if (70 + k) mod 4 = 0 then 1 else 0) + 17 = (70 + k) div (4 :: nat)"
proof -
  have "(70 + k) div 4 = 17 + (k + 2) div 4" by linarith
  moreover have "(70 + k) mod 4 = (k + 2) mod 4" by presburger
  moreover have "(k + 2) div 4 = (k + 1) div 4 + (if (k + 2) mod 4 = 0 then 1 else 0)"
    using div_Suc [of "k + 1" 4] mod_Suc [of "k + 1" 4] by simp
  ultimately show ?thesis by simp
qed

lemma Suc_mod_7_cancel:
  assumes "(p + 1) mod 7 = (q + 1) mod (7 :: nat)"
  shows "p mod 7 = q mod 7"
proof -
  have "(p + 1 + 6) mod 7 = (q + 1 + 6) mod 7" using assms by (metis mod_add_left_eq)
  then have "(p + 7) mod 7 = (q + 7) mod 7" by (simp add: add.assoc)
  then show ?thesis by (simp only: mod_add_self2)
qed

lemma year_offset_mod_7:
  "(365 * k + (k + 1) div 4 + 4 + (if (70 + k) mod 4 = 0 then 1 else 0)) mod 7
     = ((70 + k) + (70 + k) div 4 + 1) mod (7 :: nat)" (is "?l mod 7 = ?r mod 7")
proof -
  have "?l + 12 * 7 = ?r + (52 * k) * 7" using leap_quarters [of k] by (simp split: if_splits)
  then show ?thesis by (metis mod_mult_self1)
qed

text \<open>
  The formula agrees with counting days: 1 January 1970 was a Thursday (4).
\<close>

lemma week_formula_day_number:
  assumes "1970 \<le> y" and "y \<le> 2099" and "1 \<le> m" and "m \<le> 12" and "1 \<le> d"
  shows "week_formula y m d = (day_number y m d + 4) mod 7"
proof -
  obtain k where k: "y = 1970 + k" "k \<le> 129" using assms(1,2) le_Suc_ex [of 1970 y] by auto
  obtain e where e: "d = Suc e" using assms(5) by (metis Suc_le_D One_nat_def)
  define P where "P = 365 * k + (k + 1) div 4 + 4"
  define Q where "Q = (70 + k) + (70 + k) div 4"
  define B where "B = days_before_month y (m - 1)"
  define T where "T = unat (table_week ! (m - 1))"
  have leap: "leap y \<longleftrightarrow> (70 + k) mod 4 = 0"
    using leap_until_2099 [of y] k assms(1) by simp presburger
  have day: "day_number y m d + 4 = P + B + e"
    using days_before_year_until_2099 [of k] k by (simp add: day_number_def P_def B_def e)
  have formula: "week_formula y m d
      = (if leap y \<and> m < 3 then Q mod 7 + Suc e + T - 1 else Q mod 7 + Suc e + T) mod 7"
    using leap by (simp add: week_formula_def Let_def Q_def T_def e k(1))
  have PQ: "(P + (if leap y then 1 else 0)) mod 7 = (Q + 1) mod 7"
    using year_offset_mod_7 [of k] by (simp add: P_def Q_def leap)
  have BT: "B mod 7 = (T + (if leap y \<and> 3 \<le> m then 1 else 0)) mod 7"
    using month_offset_mod_7 [OF assms(3,4)] by (simp add: B_def T_def)
  have P: "P mod 7 = (if leap y then Q else Q + 1) mod 7"
    using PQ Suc_mod_7_cancel [of P Q] by (auto split: if_splits)
  have day_mod: "(P + B + e) mod 7
      = ((if leap y then Q else Q + 1) + (T + (if leap y \<and> 3 \<le> m then 1 else 0)) + e) mod 7"
    using P BT mod_add_cong by blast
  have full: "(Q mod 7 + Suc e + T) mod 7 = (Q + 1 + T + e) mod 7"
    using mod_add_left_eq [of Q 7 "Suc e + T"] by (simp add: add_ac)
  have less: "(Q mod 7 + Suc e + T - 1) mod 7 = (Q + T + e) mod 7"
    using mod_add_left_eq [of Q 7 "e + T"] by (simp add: add_ac)
  show ?thesis unfolding formula day day_mod using full less
    by (cases "leap y"; cases "m < 3") (simp_all add: add_ac)
qed

end
