(* ===== verification/C_String.thy ===== *)
theory C_String
  imports Prelude
begin

text \<open>
  The C strings the components print and compare: decimal output as \<open>sprintf\<close> writes it
  for \<open>%d\<close> and \<open>%.2d\<close>, the bytes a formatted write puts past the end of its array, and
  the string searches of \<open>string.h\<close> (\<open>strcmp\<close>, \<open>strstr\<close>, \<open>atoi\<close>) on lists of characters
  without the closing NUL.
\<close>

section \<open>Decimal output\<close>

definition digit :: "nat \<Rightarrow> char" where
  "digit n = char_of (48 + n)"

fun dec :: "nat \<Rightarrow> string" where
  "dec n = (if n < 10 then [digit n] else dec (n div 10) @ [digit (n mod 10)])"

declare dec.simps [simp del]

text \<open>\<open>%.2d\<close>: at least two digits.\<close>

definition dec2 :: "nat \<Rightarrow> string" where
  "dec2 n = (if n < 10 then CHR ''0'' # dec n else dec n)"

lemma dec_1 [simp]: "n < 10 \<Longrightarrow> dec n = [digit n]"
  by (simp add: dec.simps)

lemma dec_step: "10 \<le> n \<Longrightarrow> dec n = dec (n div 10) @ [digit (n mod 10)]"
  by (subst dec.simps) simp

lemma length_dec_Suc: "10 \<le> n \<Longrightarrow> length (dec n) = Suc (length (dec (n div 10)))"
  by (simp add: dec_step)

lemma length_dec_2: "10 \<le> n \<Longrightarrow> n < 100 \<Longrightarrow> length (dec n) = 2"
  by (simp add: length_dec_Suc)

lemma length_dec_3: "100 \<le> n \<Longrightarrow> n < 1000 \<Longrightarrow> length (dec n) = 3"
  by (simp add: length_dec_Suc length_dec_2)

lemma length_dec_4: "1000 \<le> n \<Longrightarrow> n < 10000 \<Longrightarrow> length (dec n) = 4"
  by (simp add: length_dec_Suc length_dec_3)

lemma length_dec2: "n < 100 \<Longrightarrow> length (dec2 n) = 2"
  by (simp add: dec2_def length_dec_2)

lemma length_dec2_ge: "2 \<le> length (dec2 n)"
proof (cases "n < 100")
  case True
  then show ?thesis by (simp add: length_dec2)
next
  case False
  then have "length (dec n) = Suc (Suc (length (dec (n div 10 div 10))))"
    by (simp add: length_dec_Suc)
  with False show ?thesis by (simp add: dec2_def)
qed

section \<open>Writing into an array\<close>

text \<open>
  The bytes \<open>sprintf\<close> writes past an array of \<open>cap\<close> bytes: the text and its NUL.
\<close>

definition overrun :: "nat \<Rightarrow> string \<Rightarrow> nat" where
  "overrun cap s = length s + 1 - cap"

section \<open>Decimal input\<close>

definition is_digit :: "char \<Rightarrow> bool" where
  "is_digit c \<longleftrightarrow> 48 \<le> (of_char c :: nat) \<and> (of_char c :: nat) \<le> 57"

definition digit_val :: "char \<Rightarrow> nat" where
  "digit_val c = of_char c - 48"

text \<open>\<open>atoi\<close> on an unsigned text: the leading digits.\<close>

fun atoi_acc :: "nat \<Rightarrow> string \<Rightarrow> nat" where
  "atoi_acc acc [] = acc"
| "atoi_acc acc (c # cs) = (if is_digit c then atoi_acc (10 * acc + digit_val c) cs else acc)"

definition atoi :: "string \<Rightarrow> nat" where
  "atoi s = atoi_acc 0 s"

lemma of_char_digit: "n < 10 \<Longrightarrow> (of_char (digit n) :: nat) = 48 + n"
  by (simp add: digit_def)

lemma digit_ok [simp]: "n < 10 \<Longrightarrow> is_digit (digit n)" "n < 10 \<Longrightarrow> digit_val (digit n) = n"
  by (simp_all add: is_digit_def digit_val_def of_char_digit)

lemma atoi_acc_append:
  "list_all is_digit xs \<Longrightarrow> atoi_acc acc (xs @ ys) = atoi_acc (atoi_acc acc xs) ys"
  by (induction xs arbitrary: acc) simp_all

lemma dec_digits: "list_all is_digit (dec n)"
  by (induction n rule: dec.induct) (subst dec.simps, simp)

lemma atoi_dec [simp]: "atoi (dec n) = n"
proof (induction n rule: dec.induct)
  case (1 n)
  show ?case
  proof (cases "n < 10")
    case False
    with 1 have "atoi_acc 0 (dec (n div 10)) = n div 10" by (simp add: atoi_def)
    with False show ?thesis
      by (simp add: dec_step atoi_def atoi_acc_append dec_digits)
  qed (simp add: atoi_def)
qed

lemma dec_inj: "dec m = dec n \<longleftrightarrow> m = n"
  by (metis atoi_dec)

section \<open>Comparison and search\<close>

text \<open>The sign of \<open>strcmp\<close>: characters compare as unsigned bytes, a prefix is less.\<close>

fun strcmp :: "string \<Rightarrow> string \<Rightarrow> int" where
  "strcmp [] [] = 0"
| "strcmp [] (_ # _) = -1"
| "strcmp (_ # _) [] = 1"
| "strcmp (a # as) (b # bs) =
     (if a = b then strcmp as bs else if (of_char a :: nat) < of_char b then -1 else 1)"

lemma strcmp_0_iff: "strcmp s t = 0 \<longleftrightarrow> s = t"
  by (induction s t rule: strcmp.induct) auto

fun is_prefix :: "string \<Rightarrow> string \<Rightarrow> bool" where
  "is_prefix [] _ = True"
| "is_prefix (_ # _) [] = False"
| "is_prefix (a # as) (b # bs) = (a = b \<and> is_prefix as bs)"

text \<open>\<open>strstr\<close>: the rest of the text from the first occurrence.\<close>

fun strstr :: "string \<Rightarrow> string \<Rightarrow> string option" where
  "strstr hay needle =
     (if is_prefix needle hay then Some hay
      else case hay of [] \<Rightarrow> None | _ # hay' \<Rightarrow> strstr hay' needle)"

lemma strstr_Nil: "strstr [] needle = (if is_prefix needle [] then Some [] else None)"
  by simp

lemma strstr_Cons:
  "strstr (c # hay) needle = (if is_prefix needle (c # hay) then Some (c # hay) else strstr hay needle)"
  by simp

declare strstr.simps [simp del]

lemma is_prefix_iff: "is_prefix p s \<longleftrightarrow> (\<exists>t. s = p @ t)"
  by (induction p s rule: is_prefix.induct) auto

lemma strstr_Some: "strstr hay needle = Some r \<Longrightarrow> \<exists>p t. hay = p @ needle @ t \<and> r = needle @ t"
proof (induction hay)
  case Nil
  then show ?case by (cases needle) (simp_all add: strstr_Nil)
next
  case (Cons c hay)
  show ?case
  proof (cases "is_prefix needle (c # hay)")
    case True
    with Cons.prems have "r = c # hay" by (simp add: strstr_Cons)
    moreover from True obtain t where "c # hay = needle @ t" by (auto simp: is_prefix_iff)
    ultimately show ?thesis by (metis append_Nil)
  next
    case False
    with Cons.prems have "strstr hay needle = Some r" by (simp add: strstr_Cons)
    with Cons.IH obtain p t where "hay = p @ needle @ t" "r = needle @ t" by blast
    then show ?thesis by (intro exI [of _ "c # p"] exI [of _ t]) simp
  qed
qed

lemma strstr_None: "strstr hay needle = None \<Longrightarrow> hay \<noteq> p @ needle @ t"
proof (induction hay arbitrary: p)
  case Nil
  then show ?case by (cases needle) (simp_all add: strstr_Nil)
next
  case (Cons c hay)
  then have no: "\<not> is_prefix needle (c # hay)" and rest: "strstr hay needle = None"
    by (simp_all add: strstr_Cons split: if_splits)
  show ?case
  proof (cases p)
    case Nil
    with no show ?thesis by (auto simp: is_prefix_iff)
  next
    case (Cons a q)
    with Cons.IH [OF rest] show ?thesis by auto
  qed
qed

end
