(* ===== verification/Rtc.thy ===== *)
theory Rtc
  imports Calendar C_String
begin

text \<open>
  The clock driver of \<open>applications/rtc.c\<close>: the registers of the RTC peripheral, the
  calendar object and the static \<open>daycnt\<close> of \<open>RTC_Get\<close>; \<open>RTC_Set\<close>, \<open>RTC_Alarm_Set\<close>,
  \<open>RTC_Get\<close>, \<open>RTC_Init\<close>, the interrupt handler and \<open>clock_demo\<close>. The peripheral reports
  the end of a register write (RTOFF) after some number of polls, or never.
\<close>

section \<open>State\<close>

record calendar_obj =
  c_hour :: u8
  c_min :: u8
  c_sec :: u8
  w_year :: u16
  w_month :: u8
  w_date :: u8
  c_week :: u8

record rtc_dev =
  apb1enr :: u32
  pwr_cr :: u32
  crl :: u32
  crh :: u32
  cnth :: u16
  cntl :: u16
  alrh :: u16
  alrl :: u16
  bkp_dr1 :: u32
  rtoff_after :: "nat option"  \<comment> \<open>polls until RTOFF reads 1; \<open>None\<close>: never\<close>
  daycnt :: u16
  calendar :: calendar_obj

definition seconds_of :: "rtc_dev \<Rightarrow> u32" where
  "seconds_of r = push_bit 16 (ucast (cnth r)) + ucast (cntl r)"

section \<open>Operations\<close>

text \<open>\<open>while(!(RTC->CRL&(1<<5)));\<close>\<close>

fun poll_rtoff :: "nat \<Rightarrow> unit cres" where
  "poll_rtoff 0 = Ret ()"
| "poll_rtoff (Suc n) = poll_rtoff n"

definition wait_rtoff :: "rtc_dev \<Rightarrow> unit cres" where
  "wait_rtoff r = (case rtoff_after r of None \<Rightarrow> Spin | Some n \<Rightarrow> poll_rtoff n)"

definition RTC_Get :: "rtc_dev \<Rightarrow> (u8 \<times> rtc_dev) cres" where
  "RTC_Get r =
     (let timecount = seconds_of r;
          temp = timecount div 86400
      in cbind (if ucast (daycnt r) \<noteq> temp
                then cbind (days_to_date temp) (\<lambda>(y, m, d).
                       Ret (r \<lparr> daycnt := ucast temp,
                                calendar := (calendar r) \<lparr> w_year := y, w_month := m, w_date := d \<rparr> \<rparr>))
                else Ret r) (\<lambda>r.
         let temp = timecount mod 86400;
             cal = (calendar r) \<lparr> c_hour := ucast (temp div 3600),
                                  c_min := ucast ((temp mod 3600) div 60),
                                  c_sec := ucast ((temp mod 3600) mod 60) \<rparr>
         in cbind (RTC_Get_Week (w_year cal) (w_month cal) (w_date cal)) (\<lambda>wk.
              Ret (0, r \<lparr> calendar := cal \<lparr> c_week := wk \<rparr> \<rparr>))))"

text \<open>
  A write to CRL: software can only clear the flags SECF, ALRF, OWF and RSF (bits 0 to 3),
  RTOFF (bit 5) is read-only, and CNF (bit 4) takes the written value.
\<close>

definition write_crl :: "u32 \<Rightarrow> rtc_dev \<Rightarrow> rtc_dev" where
  "write_crl v r = r \<lparr> crl := or (and (crl r) (or (and v 0xF) 0x20)) (and v 0x10) \<rparr>"

text \<open>The clock and the backup domain are enabled and the configuration mode entered.\<close>

definition enter_config :: "rtc_dev \<Rightarrow> rtc_dev" where
  "enter_config r =
     write_crl (or (crl r) 0x10)
       (r \<lparr> apb1enr := or (or (apb1enr r) 0x10000000) 0x8000000, pwr_cr := or (pwr_cr r) 0x100 \<rparr>)"

definition leave_config :: "rtc_dev \<Rightarrow> rtc_dev" where
  "leave_config r = write_crl (and (crl r) (not 0x10)) r"

definition RTC_Set ::
    "u16 \<Rightarrow> u8 \<Rightarrow> u8 \<Rightarrow> u8 \<Rightarrow> u8 \<Rightarrow> u8 \<Rightarrow> rtc_dev \<Rightarrow> (u8 \<times> rtc_dev) cres" where
  "RTC_Set syear smon sday hour minute sec r =
     (if syear < 1970 \<or> 2099 < syear then Ret (1, r) else
      cbind (date_seconds syear smon sday hour minute sec) (\<lambda>seccount.
        let r = enter_config r;
            r = r \<lparr> cntl := ucast (and seccount 0xffff) \<rparr>;
            r = r \<lparr> cnth := ucast (drop_bit 16 seccount) \<rparr>;
            r = leave_config r
        in cbind (wait_rtoff r) (\<lambda>_.
             cbind (RTC_Get r) (\<lambda>(_, r). Ret (0, r)))))"

definition RTC_Alarm_Set ::
    "u16 \<Rightarrow> u8 \<Rightarrow> u8 \<Rightarrow> u8 \<Rightarrow> u8 \<Rightarrow> u8 \<Rightarrow> rtc_dev \<Rightarrow> (u8 \<times> rtc_dev) cres" where
  "RTC_Alarm_Set syear smon sday hour minute sec r =
     (if syear < 1970 \<or> 2099 < syear then Ret (1, r) else
      cbind (date_seconds syear smon sday hour minute sec) (\<lambda>seccount.
        let r = enter_config r;
            r = r \<lparr> alrl := ucast (and seccount 0xffff) \<rparr>;
            r = r \<lparr> alrh := ucast (drop_bit 16 seccount) \<rparr>;
            r = leave_config r
        in cbind (wait_rtoff r) (\<lambda>_. Ret (0, r))))"

text \<open>
  \<open>RTC_Init\<close>: \<open>hal_ok\<close> says that \<open>HAL_RTC_Init\<close> returned \<open>HAL_OK\<close>. The interrupt enables
  are the bits SECIE (0) and ALRIE (1) of CRH.
\<close>

definition RTC_Init :: "bool \<Rightarrow> rtc_dev \<Rightarrow> (int \<times> rtc_dev) cres" where
  "RTC_Init hal_ok r =
     (if \<not> hal_ok then Ret (1, r) else
      cbind (if bkp_dr1 r \<noteq> 0x5050
             then cbind (RTC_Set 2017 5 27 17 7 0 r) (\<lambda>(_, r). Ret (r \<lparr> bkp_dr1 := 0x5050 \<rparr>))
             else Ret r) (\<lambda>r.
      let r = r \<lparr> crh := or (crh r) 1 \<rparr>;
          r = r \<lparr> crh := or (crh r) 2 \<rparr>
      in cbind (RTC_Get r) (\<lambda>(_, r). Ret (0, r))))"

text \<open>
  \<open>clock_demo\<close>: the three texts with their positions, and the bytes \<open>sprintf\<close> writes past
  \<open>year_mon_dat[10]\<close> and \<open>hour_min_sec[8]\<close>.
\<close>

type_synonym drawing = "(nat \<times> nat \<times> string) list"

definition week_text :: "u8 \<Rightarrow> drawing" where
  "week_text week =
     (if week = 0 then [(32, 78, ''Sunday    '')]
      else if week = 1 then [(32, 78, ''Monday    '')]
      else if week = 2 then [(26, 78, ''Tuesday   '')]
      else if week = 3 then [(20, 78, ''Wednesday '')]
      else if week = 4 then [(20, 78, ''Thursday  '')]
      else if week = 5 then [(32, 78, ''Friday    '')]
      else if week = 6 then [(23, 78, ''Saturday  '')]
      else [])"

definition clock_demo :: "calendar_obj \<Rightarrow> drawing \<times> nat \<times> nat" where
  "clock_demo c =
     (let ymd = dec2 (unat (w_year c)) @ ''-'' @ dec2 (unat (w_month c)) @ ''-'' @ dec2 (unat (w_date c));
          hms = dec2 (unat (c_hour c)) @ '':'' @ dec2 (unat (c_min c)) @ '':'' @ dec2 (unat (c_sec c))
      in ([(20, 43, ymd), (25, 61, hms)] @ week_text (c_week c), overrun 10 ymd, overrun 8 hms))"

text \<open>
  The interrupt handler: \<open>__HAL_RTC_ALARM_CLEAR_FLAG\<close> writes the complement of the flag to
  CRL. \<open>sec_again\<close>: the peripheral raises SECF between the first branch and the second test.
  The result says whether the alarm branch ran.
\<close>

definition get_flag :: "u32 \<Rightarrow> rtc_dev \<Rightarrow> bool" where
  "get_flag f r \<longleftrightarrow> and (crl r) f \<noteq> 0"

definition clear_flag :: "u32 \<Rightarrow> rtc_dev \<Rightarrow> rtc_dev" where
  "clear_flag f r = write_crl (not f) r"

definition RTC_IRQHandler :: "bool \<Rightarrow> rtc_dev \<Rightarrow> (drawing \<times> bool \<times> rtc_dev) cres" where
  "RTC_IRQHandler sec_again r =
     cbind (if get_flag 1 r
            then cbind (RTC_Get (clear_flag 1 r)) (\<lambda>(_, r). Ret (fst (clock_demo (calendar r)), r))
            else Ret ([], r)) (\<lambda>(out, r).
       let r = (if sec_again then r \<lparr> crl := or (crl r) 1 \<rparr> else r)
       in cbind (if get_flag 1 r
                 then cbind (RTC_Get (clear_flag 2 r)) (\<lambda>(_, r).
                        Ret (out @ fst (clock_demo (calendar r)), True, r))
                 else Ret (out, False, r)) (\<lambda>(out, alarm, r).
            Ret (out, alarm, clear_flag 4 r)))"

section \<open>The counter and the calendar\<close>

text \<open>Writing the halves of a count and reading them back.\<close>

lemma unat_low_half: "unat (ucast (ucast (and s 0xffff) :: u16) :: u32) = unat (s :: u32) mod 65536"
proof -
  have "and s 0xffff = take_bit 16 s" by (simp add: take_bit_eq_mask mask_eq_exp_minus_1)
  then show ?thesis
    by (simp add: unat_ucast_mod unsigned_take_bit_eq take_bit_eq_mod unat_mod)
qed

lemma unat_high_half: "unat (ucast (ucast (drop_bit 16 s) :: u16) :: u32) = unat (s :: u32) div 65536"
proof -
  have "unat s div 65536 < 65536" using unat_u32_lt [of s] by (simp add: div_less_iff_less_mult)
  then show ?thesis by (simp add: unat_ucast_mod unat_drop_bit_eq drop_bit_eq_div unat_div)
qed

lemma count_halves:
  "push_bit 16 (ucast (ucast (drop_bit 16 s) :: u16)) + ucast (ucast (and s 0xffff) :: u16) = (s :: u32)"
proof -
  have "push_bit 16 (ucast (ucast (drop_bit 16 s) :: u16))
      = (of_nat (65536 * (unat s div 65536)) :: u32)"
    unfolding push_bit_eq_mult
    using ucast_eq_of_nat [OF unat_high_half [of s], where 'b = 32] by simp
  moreover have "ucast (ucast (and s 0xffff) :: u16) = (of_nat (unat s mod 65536) :: u32)"
    using ucast_eq_of_nat [OF unat_low_half [of s], where 'b = 32] by simp
  ultimately have "push_bit 16 (ucast (ucast (drop_bit 16 s) :: u16)) + ucast (ucast (and s 0xffff) :: u16)
     = (of_nat (65536 * (unat s div 65536) + unat s mod 65536) :: u32)"
    by (simp only: of_nat_add)
  then show ?thesis by (simp add: mult_div_mod_eq del: of_nat_add)
qed

lemma wait_rtoff_Some: "rtoff_after r = Some n \<Longrightarrow> wait_rtoff r = Ret ()"
proof -
  have "poll_rtoff n = Ret ()" for n by (induction n) simp_all
  then show "rtoff_after r = Some n \<Longrightarrow> wait_rtoff r = Ret ()" by (simp add: wait_rtoff_def)
qed

lemma config_fields [simp]:
  "rtoff_after (enter_config r) = rtoff_after r" "daycnt (enter_config r) = daycnt r"
  "calendar (enter_config r) = calendar r" "bkp_dr1 (enter_config r) = bkp_dr1 r"
  "rtoff_after (leave_config r) = rtoff_after r" "daycnt (leave_config r) = daycnt r"
  "calendar (leave_config r) = calendar r" "cnth (leave_config r) = cnth r"
  "cntl (leave_config r) = cntl r" "cnth (enter_config r) = cnth r"
  "cntl (enter_config r) = cntl r" "bkp_dr1 (leave_config r) = bkp_dr1 r"
  "cnth (clear_flag f r) = cnth r" "cntl (clear_flag f r) = cntl r"
  "daycnt (clear_flag f r) = daycnt r" "calendar (clear_flag f r) = calendar r"
  by (simp_all add: enter_config_def leave_config_def write_crl_def clear_flag_def)

text \<open>
  The calendar shows the day \<open>daycnt\<close> holds. It does not before the first day change is
  seen: \<open>daycnt\<close> starts at 0 and so does every calendar field.
\<close>

definition cal_synced :: "rtc_dev \<Rightarrow> bool" where
  "cal_synced r \<longleftrightarrow>
     days_to_date (ucast (daycnt r))
       = Ret (w_year (calendar r), w_month (calendar r), w_date (calendar r))"

text \<open>The calendar at a date and time; 1 January 1970 was a Thursday.\<close>

definition calendar_at :: "nat \<Rightarrow> nat \<Rightarrow> nat \<Rightarrow> nat \<Rightarrow> nat \<Rightarrow> nat \<Rightarrow> calendar_obj" where
  "calendar_at y m d h mi s =
     \<lparr> c_hour = of_nat h, c_min = of_nat mi, c_sec = of_nat s, w_year = of_nat y,
       w_month = of_nat m, w_date = of_nat d,
       c_week = of_nat ((day_number y m d + 4) mod 7) \<rparr>"

definition seconds_at :: "nat \<Rightarrow> nat \<Rightarrow> nat \<Rightarrow> nat \<Rightarrow> nat \<Rightarrow> nat \<Rightarrow> nat" where
  "seconds_at y m d h mi s = 86400 * day_number y m d + 3600 * h + 60 * mi + s"

lemma valid_date_small:
  assumes "valid_date y m d"
  shows "m \<le> 12" and "d \<le> 31"
proof -
  from assms have v: "m \<le> 12" "1 \<le> m" "d \<le> month_len y (m - 1)" by (simp_all add: valid_date_def)
  then have "m - 1 < 12" by linarith
  then have "month_len y (m - 1) \<le> 31" by (rule month_len_bounds)
  with v show "m \<le> 12" "d \<le> 31" by linarith+
qed

lemma date_bounds:
  assumes "valid_date y m d" and "y \<le> 2099"
  shows "m < 256" "d < 256" "y < 65536" "day_number y m d < 47483"
proof -
  from assms have v: "1970 \<le> y" "1 \<le> m" "m \<le> 12" "1 \<le> d" "d \<le> month_len y (m - 1)"
    by (simp_all add: valid_date_def)
  then have m: "m - 1 < 12" by linarith
  have "month_len y (m - 1) \<le> 31" using m by (rule month_len_bounds)
  with v assms(2) show "m < 256" "d < 256" "y < 65536" by linarith+
  obtain k where k: "y = 1970 + k" using v(1) le_Suc_ex by blast
  with assms(2) have k': "k \<le> 129" by simp
  have "days_before_year y = 365 * k + (k + 1) div 4"
    unfolding k using k' by (intro days_before_year_until_2099) simp
  also have "\<dots> \<le> 365 * 129 + 130 div 4" using k' by (intro add_mono div_le_mono) simp_all
  finally have "days_before_year y \<le> 47117" by simp
  moreover have "days_before_month y (m - 1) + month_len y (m - 1) \<le> 366"
    using days_before_month_le [OF m] year_len_bounds(2) le_trans by blast
  ultimately show "day_number y m d < 47483" unfolding day_number_def using v(4,5) by linarith
qed

lemma seconds_fit:
  assumes "valid_date y m d" and "y \<le> 2099" and "valid_time h mi s"
  shows "seconds_at y m d h mi s < 4294967296"
  using date_bounds [OF assms(1,2)] assms(3) by (simp add: seconds_at_def valid_time_def)

text \<open>The split of a count of seconds, on words.\<close>

lemma split_seconds:
  assumes "valid_date y m d" and "y \<le> 2099" and "valid_time h mi s"
  defines "n \<equiv> (of_nat (seconds_at y m d h mi s) :: u32)"
  shows "n div 86400 = of_nat (day_number y m d)"
    and "ucast (n mod 86400 div 3600) = (of_nat h :: u8)"
    and "ucast (n mod 86400 mod 3600 div 60) = (of_nat mi :: u8)"
    and "ucast (n mod 86400 mod 3600 mod 60) = (of_nat s :: u8)"
proof -
  define q where "q = 3600 * h + 60 * mi + s"
  define D where "D = day_number y m d"
  from assms(3) have t: "h < 24" "mi < 60" "s < 60" by (simp_all add: valid_time_def)
  have q: "q < 86400" using t by (simp add: q_def)
  have n: "unat n = 86400 * D + q"
    using seconds_fit [OF assms(1,2,3)] unfolding n_def
    by (subst unat_of_nat_u32) (simp_all add: seconds_at_def q_def D_def)
  have nd: "unat n div 86400 = D" and nm: "unat n mod 86400 = q"
    using q by (simp_all add: n)
  have "60 * mi + s < 3600" using t by linarith
  then have r: "q mod 3600 = 60 * mi + s" "q div 3600 = h"
    unfolding q_def add.assoc by simp_all
  have r2: "(60 * mi + s) div 60 = mi" "(60 * mi + s) mod 60 = s" using t by simp_all
  show "n div 86400 = of_nat (day_number y m d)"
    by (rule word_unat_eq_iff [THEN iffD2])
      (use date_bounds(4) [OF assms(1,2)] in \<open>simp add: unat_div nd unat_of_nat_u32 flip: D_def\<close>)
  show "ucast (n mod 86400 div 3600) = (of_nat h :: u8)"
    by (rule ucast_eq_of_nat) (simp add: unat_div unat_mod nm r)
  show "ucast (n mod 86400 mod 3600 div 60) = (of_nat mi :: u8)"
    by (rule ucast_eq_of_nat) (simp add: unat_div unat_mod nm r r2)
  show "ucast (n mod 86400 mod 3600 mod 60) = (of_nat s :: u8)"
    by (rule ucast_eq_of_nat) (use t in \<open>simp add: unat_div unat_mod nm r r2\<close>)
qed

lemma RTC_Get_Week_day_number:
  assumes "valid_date y m d" and "y \<le> 2099"
  shows "RTC_Get_Week (of_nat y) (of_nat m) (of_nat d) = Ret (of_nat ((day_number y m d + 4) mod 7))"
proof -
  note b = date_bounds [OF assms]
  from assms have v: "1970 \<le> y" "1 \<le> m" "m \<le> 12" "1 \<le> d" by (simp_all add: valid_date_def)
  show ?thesis
    using RTC_Get_Week_formula [of "of_nat y" "of_nat m" "of_nat d"] b v assms(2)
      week_formula_day_number [OF v(1) assms(2) v(2,3,4)]
    by (simp add: unat_of_nat_u16 unat_of_nat_u8)
qed

text \<open>\<open>RTC_Get\<close> on any count up to the end of 2099.\<close>

lemma RTC_Get_at:
  assumes "valid_date y m d" and "y \<le> 2099" and "valid_time h mi s"
    and n: "seconds_of r = of_nat (seconds_at y m d h mi s)"
    and sync: "cal_synced r \<or> unat (daycnt r) \<noteq> day_number y m d"
  shows "RTC_Get r = Ret (0, r \<lparr> daycnt := of_nat (day_number y m d),
                                calendar := calendar_at y m d h mi s \<rparr>)"
proof -
  let ?D = "day_number y m d"
  note b = date_bounds [OF assms(1,2)]
  note sp = split_seconds [OF assms(1-3)]
  have date: "days_to_date (of_nat ?D) = Ret (of_nat y, of_nat m, of_nat d)"
    using b by (intro days_to_date_day_number assms) simp_all
  have dc: "ucast (of_nat ?D :: u32) = (of_nat ?D :: u16)"
    using b(4) by (intro ucast_eq_of_nat unat_of_nat_u32) simp
  have new: "(ucast (daycnt r) :: u32) = of_nat ?D \<longleftrightarrow> unat (daycnt r) = ?D"
    using b(4) by (simp add: word_unat_eq_iff unat_of_nat_u32)
  show ?thesis
  proof (cases "unat (daycnt r) = ?D")
    case True
    then have D: "daycnt r = of_nat ?D" "ucast (daycnt r) = (of_nat ?D :: u32)"
      using new by (metis of_nat_unat ucast_id, simp)
    with sync True date have "w_year (calendar r) = of_nat y" "w_month (calendar r) = of_nat m"
        "w_date (calendar r) = of_nat d"
      by (simp_all add: cal_synced_def)
    then show ?thesis
      using new True D(1) RTC_Get_Week_day_number [OF assms(1,2)]
      by (simp add: RTC_Get_def Let_def n sp calendar_at_def)
  next
    case False
    then show ?thesis
      using new RTC_Get_Week_day_number [OF assms(1,2)]
      by (simp add: RTC_Get_def Let_def n sp date dc calendar_at_def)
  qed
qed

lemma cal_synced_at:
  assumes "valid_date y m d" and "y \<le> 2099"
  shows "cal_synced (r \<lparr> daycnt := of_nat (day_number y m d), calendar := calendar_at y m d h mi s \<rparr>)"
proof -
  note b = date_bounds [OF assms]
  have "ucast (of_nat (day_number y m d) :: u16) = (of_nat (day_number y m d) :: u32)"
    using b(4) by (intro ucast_eq_of_nat unat_of_nat_u16) simp
  moreover have "days_to_date (of_nat (day_number y m d)) = Ret (of_nat y, of_nat m, of_nat d)"
    using b by (intro days_to_date_day_number assms) simp_all
  ultimately show ?thesis by (simp add: cal_synced_def calendar_at_def)
qed

lemma seconds_of_calendar [simp]:
  "seconds_of (r \<lparr> daycnt := a \<rparr>) = seconds_of r" "seconds_of (r \<lparr> calendar := b \<rparr>) = seconds_of r"
  by (simp_all add: seconds_of_def)

section \<open>Setting the clock\<close>

text \<open>The registers \<open>RTC_Set\<close> leaves for a date and time.\<close>

definition set_count :: "u32 \<Rightarrow> rtc_dev \<Rightarrow> rtc_dev" where
  "set_count n r =
     leave_config (enter_config r \<lparr> cntl := ucast (and n 0xffff), cnth := ucast (drop_bit 16 n) \<rparr>)"

lemma set_count_fields [simp]:
  "seconds_of (set_count n r) = n" "daycnt (set_count n r) = daycnt r"
  "calendar (set_count n r) = calendar r" "rtoff_after (set_count n r) = rtoff_after r"
  "cal_synced (set_count n r) = cal_synced r" "bkp_dr1 (set_count n r) = bkp_dr1 r"
  "crh (set_count n r) = crh r"
  by (simp_all add: enter_config_def leave_config_def write_crl_def set_count_def seconds_of_def count_halves cal_synced_def)

lemma date_seconds_at:
  assumes "valid_date y m d" and "y \<le> 2099" and "valid_time h mi s"
  shows "date_seconds (of_nat y) (of_nat m) (of_nat d) (of_nat h) (of_nat mi) (of_nat s)
       = Ret (of_nat (seconds_at y m d h mi s))"
proof -
  note b = date_bounds [OF assms(1,2)]
  from assms have v: "1970 \<le> y" "1 \<le> m" "m \<le> 12" "1 \<le> d" "h < 256" "mi < 256" "s < 256"
    by (simp_all add: valid_date_def valid_time_def)
  show ?thesis
    using date_seconds_date [of "of_nat y" "of_nat m" "of_nat d" "of_nat h" "of_nat mi" "of_nat s"] v b
    by (simp add: unat_of_nat_u16 unat_of_nat_u8 seconds_at_def del: of_nat_add of_nat_mult)
qed

lemma year_in_range: "1970 \<le> y \<Longrightarrow> y \<le> 2099 \<Longrightarrow> \<not> (of_nat y < (1970 :: u16) \<or> (2099 :: u16) < of_nat y)"
  by (simp add: word_less_nat_alt unat_of_nat_u16)

lemma RTC_Set_at:
  assumes "valid_date y m d" and "y \<le> 2099" and "valid_time h mi s"
    and "rtoff_after r = Some n" and "cal_synced r \<or> unat (daycnt r) \<noteq> day_number y m d"
  shows "RTC_Set (of_nat y) (of_nat m) (of_nat d) (of_nat h) (of_nat mi) (of_nat s) r
       = Ret (0, set_count (of_nat (seconds_at y m d h mi s)) r
                   \<lparr> daycnt := of_nat (day_number y m d), calendar := calendar_at y m d h mi s \<rparr>)"
proof -
  let ?r = "set_count (of_nat (seconds_at y m d h mi s)) r"
  have "1970 \<le> y" using assms(1) by (simp add: valid_date_def)
  then have "\<not> (of_nat y < (1970 :: u16) \<or> (2099 :: u16) < of_nat y)"
    using assms(2) by (rule year_in_range)
  moreover have "wait_rtoff ?r = Ret ()" by (rule wait_rtoff_Some) (simp add: assms(4))
  moreover have "RTC_Get ?r = Ret (0, ?r \<lparr> daycnt := of_nat (day_number y m d),
      calendar := calendar_at y m d h mi s \<rparr>)"
    using assms(5) by (intro RTC_Get_at assms) simp_all
  ultimately show ?thesis
    using date_seconds_at [OF assms(1-3)] by (simp add: RTC_Set_def Let_def set_count_def)
qed

section \<open>The clock as it runs\<close>

text \<open>The peripheral counts a second.\<close>

definition count_second :: "rtc_dev \<Rightarrow> rtc_dev" where
  "count_second r =
     (let n = seconds_of r + 1
      in r \<lparr> cntl := ucast (and n 0xffff), cnth := ucast (drop_bit 16 n), crl := or (crl r) 1 \<rparr>)"

text \<open>
  The runs of the clock once it is set, beside the count of seconds since 1970: the
  counter ticks, a thread reads the calendar, an interrupt is served, the clock is set again.
\<close>

inductive clock_run :: "rtc_dev \<Rightarrow> nat \<Rightarrow> bool" where
  set: "valid_date y m d \<Longrightarrow> y \<le> 2099 \<Longrightarrow> valid_time h mi s \<Longrightarrow>
     rtoff_after r = Some n \<Longrightarrow> cal_synced r \<or> unat (daycnt r) \<noteq> day_number y m d \<Longrightarrow>
     RTC_Set (of_nat y) (of_nat m) (of_nat d) (of_nat h) (of_nat mi) (of_nat s) r = Ret (0, r') \<Longrightarrow>
     clock_run r' (seconds_at y m d h mi s)"
| tick: "clock_run r n \<Longrightarrow> clock_run (count_second r) (n + 1)"
| get: "clock_run r n \<Longrightarrow> RTC_Get r = Ret (c, r') \<Longrightarrow> clock_run r' n"
| irq: "clock_run r n \<Longrightarrow> RTC_IRQHandler again r = Ret (out, alarm, r') \<Longrightarrow> clock_run r' n"

lemma seconds_of_count_second: "seconds_of (count_second r) = seconds_of r + 1"
  by (simp add: count_second_def seconds_of_def Let_def count_halves)

lemma cal_synced_fields:
  "daycnt r' = daycnt r \<Longrightarrow> calendar r' = calendar r \<Longrightarrow> cal_synced r' = cal_synced r"
  by (simp add: cal_synced_def)

text \<open>\<open>RTC_Get\<close> does not touch the counter and keeps the calendar in step.\<close>

lemma RTC_Get_keeps:
  assumes "RTC_Get r = Ret (c, r')"
  shows "seconds_of r' = seconds_of r" and "cal_synced r \<Longrightarrow> cal_synced r'"
    and "rtoff_after r' = rtoff_after r" and "crl r' = crl r" and "bkp_dr1 r' = bkp_dr1 r"
    and "crh r' = crh r"
proof -
  have small: "ucast (ucast (seconds_of r div 86400) :: u16) = seconds_of r div 86400"
  proof -
    have "unat (seconds_of r) < 65536 * 86400" using unat_u32_lt [of "seconds_of r"] by linarith
    then have "unat (seconds_of r div 86400) < 65536"
      by (simp add: unat_div div_less_iff_less_mult)
    then have "unat (ucast (seconds_of r div 86400) :: u16) = unat (seconds_of r div 86400)"
      by (simp add: unat_ucast_mod)
    then have "unat (ucast (ucast (seconds_of r div 86400) :: u16) :: u32) = unat (seconds_of r div 86400)"
      by simp
    then show ?thesis by (rule word_unat_eq_iff [THEN iffD2])
  qed
  show "seconds_of r' = seconds_of r" "rtoff_after r' = rtoff_after r" "crl r' = crl r"
      "bkp_dr1 r' = bkp_dr1 r" "crh r' = crh r"
    using assms
    by (auto simp: RTC_Get_def Let_def cbind_Ret_iff seconds_of_def split: if_splits prod.splits)
  show "cal_synced r \<Longrightarrow> cal_synced r'"
    using assms small
    by (auto simp: RTC_Get_def Let_def cbind_Ret_iff cal_synced_def split: if_splits prod.splits)
qed

lemma RTC_Get_inv:
  "RTC_Get r = Ret (c, r') \<Longrightarrow> seconds_of r' = seconds_of r \<and> (cal_synced r \<longrightarrow> cal_synced r')
    \<and> bkp_dr1 r' = bkp_dr1 r \<and> crh r' = crh r"
  using RTC_Get_keeps by blast

lemma clear_flag_keeps [simp]:
  "seconds_of (clear_flag f r) = seconds_of r" "cal_synced (clear_flag f r) = cal_synced r"
  by (simp_all add: seconds_of_def cal_synced_def)

lemma raise_flag_keeps [simp]:
  "seconds_of (r \<lparr> crl := x \<rparr>) = seconds_of r" "cal_synced (r \<lparr> crl := x \<rparr>) = cal_synced r"
  "seconds_of (r \<lparr> crh := y \<rparr>) = seconds_of r" "cal_synced (r \<lparr> crh := y \<rparr>) = cal_synced r"
  "seconds_of (r \<lparr> bkp_dr1 := z \<rparr>) = seconds_of r" "cal_synced (r \<lparr> bkp_dr1 := z \<rparr>) = cal_synced r"
  by (simp_all add: seconds_of_def cal_synced_def)

lemma RTC_IRQHandler_keeps:
  assumes "RTC_IRQHandler again r = Ret (out, alarm, r')"
  shows "seconds_of r' = seconds_of r" and "cal_synced r \<Longrightarrow> cal_synced r'"
  using assms
  by (auto simp: RTC_IRQHandler_def Let_def cbind_Ret_iff dest!: RTC_Get_inv
      split: if_splits prod.splits)

lemma clock_run_inv: "clock_run r n \<Longrightarrow> seconds_of r = of_nat n \<and> cal_synced r"
proof (induction rule: clock_run.induct)
  case (set y m d h mi s r n r')
  then have r': "r' = set_count (of_nat (seconds_at y m d h mi s)) r
      \<lparr> daycnt := of_nat (day_number y m d), calendar := calendar_at y m d h mi s \<rparr>"
    using RTC_Set_at [of y m d h mi s r n] by simp
  have "seconds_of (q \<lparr> daycnt := a, calendar := b \<rparr>) = seconds_of q" for q a b
    by (simp add: seconds_of_def)
  then show ?case using set(1,2) cal_synced_at unfolding r' by simp
next
  case (tick r n)
  have "cal_synced (count_second r) = cal_synced r"
    by (simp add: cal_synced_def count_second_def Let_def)
  then show ?case using tick by (simp add: seconds_of_count_second add.commute)
qed (auto dest: RTC_Get_inv RTC_IRQHandler_keeps)

text \<open>Every second before 1 January 2100 is some time of day of some date.\<close>

lemma second_is_date:
  assumes "n < 4102444800"
  obtains y m d h mi s where "valid_date y m d" "y \<le> 2099" "valid_time h mi s"
    "n = seconds_at y m d h mi s"
proof -
  define D where "D = n div 86400"
  define q where "q = n mod 86400"
  obtain y m d where date: "valid_date y m d" "day_number y m d = D" using date_of_day by blast
  have D: "D < 47482" using assms by (simp add: D_def less_mult_imp_div_less)
  have "y \<le> 2099"
  proof (rule ccontr)
    assume "\<not> y \<le> 2099"
    then have "days_before_year 2100 \<le> days_before_year y"
      unfolding days_before_year_def by (intro sum_mono2) auto
    moreover have "days_before_year 2100 = 47482"
      using days_before_year_until_2099 [of 130] by simp
    ultimately show False using date(2) D by (simp add: day_number_def)
  qed
  moreover have "valid_time (q div 3600) (q mod 3600 div 60) (q mod 3600 mod 60)"
    by (simp add: valid_time_def q_def less_mult_imp_div_less)
  moreover have "n = seconds_at y m d (q div 3600) (q mod 3600 div 60) (q mod 3600 mod 60)"
  proof -
    have "n = 86400 * D + q" by (simp add: D_def q_def)
    also have "q = 3600 * (q div 3600) + (60 * (q mod 3600 div 60) + q mod 3600 mod 60)"
      by (metis mult_div_mod_eq)
    finally show ?thesis by (simp add: seconds_at_def date(2))
  qed
  ultimately show ?thesis using date(1) by (intro that)
qed

lemma RTC_Get_returns:
  assumes "unat (seconds_of r) < 4102444800"
    and "cal_synced r \<or> 86400 \<le> unat (seconds_of r) \<and> daycnt r = 0"
  shows "\<exists>r'. RTC_Get r = Ret (0, r') \<and> cal_synced r'"
proof -
  obtain y m d h mi s where date: "valid_date y m d" "y \<le> 2099" "valid_time h mi s"
      and n: "unat (seconds_of r) = seconds_at y m d h mi s"
    using second_is_date [OF assms(1)] .
  from n have n': "seconds_of r = of_nat (seconds_at y m d h mi s)" by (metis word_of_nat_eq_iff of_nat_unat ucast_id)
  have "seconds_at y m d h mi s < 86400 * day_number y m d + 86400"
    using date(3) by (simp add: seconds_at_def valid_time_def)
  with assms(2) n have "cal_synced r \<or> unat (daycnt r) \<noteq> day_number y m d" by auto
  from RTC_Get_at [OF date n' this] cal_synced_at [OF date(1,2)] show ?thesis by auto
qed

section \<open>Properties\<close>

text \<open>
  C16. Setting the clock to any valid date from 1970 to 2099 and any time of day succeeds,
  leaves the count of seconds since 1970 in the two counter registers, and leaves the
  calendar showing exactly that date, that time and its day of the week.
\<close>

theorem RTC_Set_shows_the_time:
  assumes "valid_date y m d" and "y \<le> 2099" and "valid_time h mi s"
    and "rtoff_after r = Some n" and "cal_synced r \<or> unat (daycnt r) \<noteq> day_number y m d"
  shows "\<exists>r'. RTC_Set (of_nat y) (of_nat m) (of_nat d) (of_nat h) (of_nat mi) (of_nat s) r = Ret (0, r')
    \<and> calendar r' = calendar_at y m d h mi s \<and> unat (seconds_of r') = seconds_at y m d h mi s
    \<and> cal_synced r'"
  using RTC_Set_at [OF assms] cal_synced_at [OF assms(1,2)] seconds_fit [OF assms(1-3)]
  by (simp add: unat_of_nat_u32)

definition reset_rtc :: rtc_dev where
  "reset_rtc = \<lparr> apb1enr = 0, pwr_cr = 0, crl = 0x20, crh = 0, cnth = 0, cntl = 0, alrh = 0xffff,
     alrl = 0xffff, bkp_dr1 = 0, rtoff_after = Some 3, daycnt = 0,
     calendar = \<lparr> c_hour = 0, c_min = 0, c_sec = 0, w_year = 0, w_month = 0, w_date = 0, c_week = 0 \<rparr> \<rparr>"

lemma sample_date: "valid_date 2017 5 27" "valid_time 17 7 0" "day_number 2017 5 27 = 17313"
  using days_before_year_until_2099 [of 47]
  by (simp_all add: valid_date_def valid_time_def month_len_def mon_table_def day_number_def
      days_before_month_table leap_def)

lemma RTC_Set_shows_the_time_witness:
  "\<exists>r'. RTC_Set 2017 5 27 17 7 0 reset_rtc = Ret (0, r')
    \<and> calendar r' = calendar_at 2017 5 27 17 7 0 \<and> unat (seconds_of r') = seconds_at 2017 5 27 17 7 0
    \<and> cal_synced r'"
  using RTC_Set_shows_the_time [of 2017 5 27 17 7 0 reset_rtc 3] sample_date
  by (simp add: reset_rtc_def)

text \<open>
  C17. Whatever sequence of seconds, calendar reads, interrupts and settings follows a
  setting of the clock, until the end of 2099 the next \<open>RTC_Get\<close> shows the date, the time
  and the day of the week of the seconds counted since.
\<close>

theorem clock_follows_the_count:
  assumes "clock_run r n" and "n < 4102444800"
  shows "\<exists>y m d h mi s r'. valid_date y m d \<and> y \<le> 2099 \<and> valid_time h mi s
    \<and> n = seconds_at y m d h mi s \<and> RTC_Get r = Ret (0, r') \<and> calendar r' = calendar_at y m d h mi s"
proof -
  obtain y m d h mi s where date: "valid_date y m d" "y \<le> 2099" "valid_time h mi s"
      and n: "n = seconds_at y m d h mi s"
    using second_is_date [OF assms(2)] .
  from clock_run_inv [OF assms(1)] have "seconds_of r = of_nat (seconds_at y m d h mi s)" "cal_synced r"
    by (simp_all add: n)
  with RTC_Get_at [OF date] date n show ?thesis by fastforce
qed

lemma clock_follows_the_count_witness:
  "\<exists>r. clock_run r (seconds_at 2017 5 27 17 7 0 + 1) \<and>
    (\<exists>y m d h mi s r'. valid_date y m d \<and> y \<le> 2099 \<and> valid_time h mi s
    \<and> seconds_at 2017 5 27 17 7 0 + 1 = seconds_at y m d h mi s \<and> RTC_Get r = Ret (0, r')
    \<and> calendar r' = calendar_at y m d h mi s)"
proof -
  have "\<exists>r'. RTC_Set (of_nat 2017) (of_nat 5) (of_nat 27) (of_nat 17) (of_nat 7) (of_nat 0) reset_rtc = Ret (0, r')"
    using RTC_Set_at [of 2017 5 27 17 7 0 reset_rtc 3] sample_date by (simp add: reset_rtc_def)
  then obtain r' where "clock_run r' (seconds_at 2017 5 27 17 7 0)"
    using clock_run.set [of 2017 5 27 17 7 0 reset_rtc 3] sample_date by (auto simp: reset_rtc_def)
  then have "clock_run (count_second r') (seconds_at 2017 5 27 17 7 0 + 1)" by (rule clock_run.tick)
  moreover have "seconds_at 2017 5 27 17 7 0 + 1 < 4102444800"
    by (simp add: seconds_at_def sample_date)
  ultimately show ?thesis using clock_follows_the_count by blast
qed

text \<open>
  The start of the clock never loses the time. On a device that still carries the mark
  of the first configuration in its backup register, \<open>RTC_Init\<close> keeps the running count
  and shows it; on the first start it sets 27 May 2017, 17:07:00 and writes the mark. Either
  way it returns 0 with both interrupts enabled and the calendar in step.
\<close>

theorem RTC_Init_keeps_the_time:
  assumes "rtoff_after r = Some n" and "unat (seconds_of r) < 4102444800"
    and "cal_synced r \<or> daycnt r = 0 \<and> (bkp_dr1 r = 0x5050 \<longrightarrow> 86400 \<le> unat (seconds_of r))"
  shows "\<exists>r'. RTC_Init True r = Ret (0, r') \<and> bkp_dr1 r' = 0x5050 \<and> cal_synced r'
    \<and> crh r' = or (or (crh r) 1) 2
    \<and> seconds_of r' = (if bkp_dr1 r = 0x5050 then seconds_of r
                       else of_nat (seconds_at 2017 5 27 17 7 0))"
proof (cases "bkp_dr1 r = 0x5050")
  case True
  have "cal_synced r \<or> 86400 \<le> unat (seconds_of r) \<and> daycnt r = 0" using assms(3) True by auto
  then obtain q where "RTC_Get (r \<lparr> crh := or (or (crh r) 1) 2 \<rparr>) = Ret (0, q)" "cal_synced q"
    using RTC_Get_returns [of "r \<lparr> crh := or (or (crh r) 1) 2 \<rparr>"] assms(2) by auto
  with True show ?thesis
    by (auto simp: RTC_Init_def Let_def dest!: RTC_Get_inv)
next
  case False
  define p where "p = set_count (of_nat (seconds_at 2017 5 27 17 7 0)) r
      \<lparr> daycnt := of_nat 17313, calendar := calendar_at 2017 5 27 17 7 0 \<rparr>"
  define p' where "p' = p \<lparr> bkp_dr1 := 0x5050, crh := or (or (crh p) 1) 2 \<rparr>"
  have set: "RTC_Set 2017 5 27 17 7 0 r = Ret (0, p)"
    using RTC_Set_at [of 2017 5 27 17 7 0 r n] assms(1,3) sample_date by (auto simp: p_def)
  have p: "cal_synced p'" "seconds_of p' = of_nat (seconds_at 2017 5 27 17 7 0)" "crh p = crh r"
    using cal_synced_at [of 2017 5 27]
    by (simp_all add: p'_def p_def cal_synced_def sample_date)
  moreover have "unat (seconds_of p') < 4102444800"
    unfolding p(2) by (simp add: seconds_at_def sample_date)
  ultimately obtain q where "RTC_Get p' = Ret (0, q)" "cal_synced q"
    using RTC_Get_returns [of p'] by blast
  with False p show ?thesis
    by (auto simp: RTC_Init_def Let_def set p'_def dest!: RTC_Get_inv)
qed

lemma RTC_Init_keeps_the_time_witness:
  "\<exists>r'. RTC_Init True reset_rtc = Ret (0, r') \<and> bkp_dr1 r' = 0x5050 \<and> cal_synced r'
    \<and> crh r' = or (or (crh reset_rtc) 1) 2
    \<and> seconds_of r' = (if bkp_dr1 reset_rtc = 0x5050 then seconds_of reset_rtc
                       else of_nat (seconds_at 2017 5 27 17 7 0))"
  by (rule RTC_Init_keeps_the_time [of reset_rtc 3]) (simp_all add: reset_rtc_def seconds_of_def)

text \<open>
  The date a caller may pass is not checked beyond the year: month 0 makes the month
  loop read past \<open>mon_table\<close> for every year from 1970 to 2099, whatever the other fields.
\<close>

theorem RTC_Set_month_0_overruns:
  "RTC_Set (of_nat (1970 + unat (k mod 130))) 0 d h mi s r = Fault \<and>
   RTC_Alarm_Set (of_nat (1970 + unat (k mod 130))) 0 d h mi s r = Fault" for k :: u8
proof -
  have "unat (k mod 130) < 130" by (simp add: unat_mod)
  then have "1970 \<le> 1970 + unat (k mod 130)" "1970 + unat (k mod 130) \<le> 2099" by simp_all
  from year_in_range [OF this] show ?thesis
    by (simp add: RTC_Set_def RTC_Alarm_Set_def date_seconds_month_0 del: of_nat_add)
qed

text \<open>
  During the first day of the count, from a reset that cleared the statics, \<open>RTC_Get\<close>
  never fills in the date and reads the element before \<open>table_week\<close>.
\<close>

theorem RTC_Get_first_day_reads_outside:
  assumes "unat (seconds_of r) < 86400" and "daycnt r = 0" and "w_month (calendar r) = 0"
  shows "RTC_Get r = Fault"
proof -
  have "seconds_of r div 86400 = 0"
    using assms(1) by (simp add: word_unat_eq_iff unat_div)
  then show ?thesis using assms(2,3) by (simp add: RTC_Get_def Let_def RTC_Get_Week_def)
qed

lemma RTC_Get_first_day_reads_outside_witness: "RTC_Get reset_rtc = Fault"
  by (rule RTC_Get_first_day_reads_outside) (simp_all add: reset_rtc_def seconds_of_def)

text \<open>
  The alarm branch of the interrupt handler tests the seconds flag again: unless a
  second ends in between it never runs, and the alarm flag is never acknowledged.
\<close>

theorem RTC_IRQHandler_misses_the_alarm:
  assumes "RTC_IRQHandler False r = Ret (out, alarm, r')"
  shows "\<not> alarm \<and> get_flag 2 r' = get_flag 2 r"
proof -
  have c1: "\<not> get_flag 1 (clear_flag 1 q)" and c14: "get_flag 2 (clear_flag 1 q) = get_flag 2 q"
    and c4: "get_flag 2 (clear_flag 4 q) = get_flag 2 q" for q
    by (simp_all add: get_flag_def clear_flag_def write_crl_def bit.conj_disj_distrib2 and.assoc)
  have crl: "get_flag f q = get_flag f q'" if "crl q = crl q'" for f q q'
    using that by (simp add: get_flag_def)
  show ?thesis
    using assms c1 c14 c4
    by (auto simp: RTC_IRQHandler_def cbind_Ret_iff split: if_splits
        dest!: RTC_Get_keeps(4) dest: crl)
qed

lemma RTC_IRQHandler_misses_the_alarm_witness:
  "\<exists>out alarm r'. RTC_IRQHandler False (reset_rtc \<lparr> crl := 2 \<rparr>) = Ret (out, alarm, r')
    \<and> \<not> alarm \<and> get_flag 2 r' = get_flag 2 (reset_rtc \<lparr> crl := 2 \<rparr>)"
proof -
  have "RTC_IRQHandler False (reset_rtc \<lparr> crl := 2 \<rparr>)
      = Ret ([], False, clear_flag 4 (reset_rtc \<lparr> crl := 2 \<rparr>))"
    by (simp add: RTC_IRQHandler_def get_flag_def)
  then show ?thesis using RTC_IRQHandler_misses_the_alarm by blast
qed

text \<open>
  The display of any date from 1970 to 2099 and any time writes the NUL of the date
  one byte past \<open>year_mon_dat[10]\<close> and the NUL of the time one byte past \<open>hour_min_sec[8]\<close>,
  and shows exactly one weekday.
\<close>

theorem clock_demo_overruns_by_one:
  assumes "valid_date y m d" and "y \<le> 2099" and "valid_time h mi s"
  shows "snd (clock_demo (calendar_at y m d h mi s)) = (1, 1)
    \<and> length (fst (clock_demo (calendar_at y m d h mi s))) = 3"
proof -
  note b = date_bounds [OF assms(1,2)]
  have v: "1970 \<le> y" "h < 100" "mi < 100" "s < 100" using assms
    by (simp_all add: valid_date_def valid_time_def)
  have md: "m < 100" "d < 100" using valid_date_small [OF assms(1)] by simp_all
  have len: "length (dec2 y) = 4" "length (dec2 m) = 2" "length (dec2 d) = 2"
      "length (dec2 h) = 2" "length (dec2 mi) = 2" "length (dec2 s) = 2"
    using md v assms(2) length_dec_4 [of y] length_dec2 by (simp_all add: dec2_def)
  have "length (week_text (of_nat w)) = 1" if "w < 7" for w
  proof -
    from that have "w = 0 \<or> w = 1 \<or> w = 2 \<or> w = 3 \<or> w = 4 \<or> w = 5 \<or> w = 6" by linarith
    then show ?thesis by (elim disjE) (simp_all add: week_text_def)
  qed
  then have "length (week_text (of_nat ((day_number y m d + 4) mod 7))) = 1" by simp
  then show ?thesis
    using len b v by (simp add: clock_demo_def calendar_at_def overrun_def Let_def
        unat_of_nat_u8 unat_of_nat_u16 del: of_nat_add)
qed

lemma clock_demo_overruns_by_one_witness:
  "snd (clock_demo (calendar_at 2017 5 27 17 7 0)) = (1, 1)
    \<and> length (fst (clock_demo (calendar_at 2017 5 27 17 7 0))) = 3"
  by (rule clock_demo_overruns_by_one) (simp_all add: sample_date)

end
