(* ===== verification/Screen.thy ===== *)
theory Screen
  imports C_String
begin

text \<open>
  What the components ask of the display (\<open>applications/lcd.c\<close>) as a list of calls in
  program order, the two fixed pictures \<open>Draw_window\<close> and \<open>Draw_Number_Pad\<close>, and the touch
  areas the header \<open>lcd.h\<close> defines on them.
\<close>

section \<open>Calls of the display driver\<close>

datatype lcd_call =
    Point_Color u32
  | Back_Color u32
  | Clear_Screen u32
  | Draw_Point u16 u16
  | Line u16 u16 u16 u16
  | Circle u16 u16 u8
  | Show_Num u16 u16 u32 u8 u8
  | Show_String u16 u16 u16 u16 u8 string

definition WHITE :: u32 where "WHITE = 0xFFFF"
definition BLACK :: u32 where "BLACK = 0x0000"
definition RED :: u32 where "RED = 0xF800"
definition BLUE :: u32 where "BLUE = 0x001F"

definition Draw_window :: "u16 \<Rightarrow> lcd_call list" where
  "Draw_window width =
     [Point_Color BLACK,
      Show_String 20 0 200 24 24 ''Smart Home Center'',
      Line 0 24 240 24,
      Show_String 2 25 200 16 16 '' Current Time       Mode'',
      Show_String (width - 95) 58 200 24 24 '' Home '',
      Line 0 42 240 42,
      Line 0 95 240 95,
      Line 0 207 240 207,
      Line 120 24 120 95,
      Show_String 0 96 200 24 24 ''   Sensor Status'',
      Line 0 122 240 122,
      Show_String 0 124 200 16 16 ''Temperature:'',
      Show_String 0 142 200 16 16 ''Humidity   :'',
      Show_String 0 158 200 16 16 ''Fire Status:'',
      Show_String 0 176 200 16 16 ''M         Q:'',
      Show_String 0 209 200 24 24 ''   Control Pannel'',
      Line 0 234 240 234,
      Show_String 0 236 200 16 16 ''Bedroom    Light:     OFF'',
      Show_String 0 254 200 16 16 ''Livingroom Light:     OFF'',
      Show_String 0 272 200 16 16 ''Corridor   Light:     OFF'',
      Show_String 0 290 200 16 16 ''Curtain:  OPEN  CLOSE  K/T'']"

definition Draw_Number_Pad :: "lcd_call list" where
  "Draw_Number_Pad =
     [Line 1 160 240 160,
      Line 0 200 240 200,
      Line 0 240 240 240,
      Line 0 280 240 280,
      Line 80 160 80 320,
      Line 160 160 160 320,
      Show_String 38 170 200 24 24 ''0'',
      Show_String 116 170 200 24 24 ''1'',
      Show_String 199 170 200 24 24 ''2'',
      Show_String 38 213 200 24 24 ''3'',
      Show_String 116 213 200 24 24 ''4'',
      Show_String 199 213 200 24 24 ''5'',
      Show_String 38 249 200 24 24 ''6'',
      Show_String 116 249 200 24 24 ''7'',
      Show_String 199 249 200 24 24 ''8'',
      Show_String 38 289 200 24 24 ''9'',
      Show_String 116 289 200 24 24 ''C'',
      Show_String 199 289 200 24 24 ''E'']"

section \<open>Touch areas\<close>

definition in_area :: "u16 \<Rightarrow> u16 \<Rightarrow> u16 \<Rightarrow> u16 \<Rightarrow> u16 \<Rightarrow> u16 \<Rightarrow> bool" where
  "in_area x0 x1 y0 y1 x y \<longleftrightarrow> (x0 < x \<and> x < x1) \<and> (y0 < y \<and> y < y1)"

definition SET_YEAR :: "u16 \<Rightarrow> u16 \<Rightarrow> bool" where "SET_YEAR = in_area 58 100 48 61"
definition SET_MON :: "u16 \<Rightarrow> u16 \<Rightarrow> bool" where "SET_MON = in_area 119 139 48 61"
definition SET_DAY :: "u16 \<Rightarrow> u16 \<Rightarrow> bool" where "SET_DAY = in_area 155 177 48 61"
definition SET_HOUR :: "u16 \<Rightarrow> u16 \<Rightarrow> bool" where "SET_HOUR = in_area 64 83 75 88"
definition SET_MIN :: "u16 \<Rightarrow> u16 \<Rightarrow> bool" where "SET_MIN = in_area 100 123 75 88"
definition SET_SEC :: "u16 \<Rightarrow> u16 \<Rightarrow> bool" where "SET_SEC = in_area 140 159 75 88"
definition SET_WEEK :: "u16 \<Rightarrow> u16 \<Rightarrow> bool" where "SET_WEEK = in_area 78 148 102 118"

definition ZERO :: "u16 \<Rightarrow> u16 \<Rightarrow> bool" where "ZERO = in_area 0 77 162 199"
definition ONE :: "u16 \<Rightarrow> u16 \<Rightarrow> bool" where "ONE = in_area 78 166 162 199"
definition TWO :: "u16 \<Rightarrow> u16 \<Rightarrow> bool" where "TWO = in_area 167 239 162 199"
definition THREE :: "u16 \<Rightarrow> u16 \<Rightarrow> bool" where "THREE = in_area 0 77 201 236"
definition FOUR :: "u16 \<Rightarrow> u16 \<Rightarrow> bool" where "FOUR = in_area 78 166 201 236"
definition FIVE :: "u16 \<Rightarrow> u16 \<Rightarrow> bool" where "FIVE = in_area 167 239 201 236"
definition SIX :: "u16 \<Rightarrow> u16 \<Rightarrow> bool" where "SIX = in_area 0 77 238 279"
definition SEVEN :: "u16 \<Rightarrow> u16 \<Rightarrow> bool" where "SEVEN = in_area 78 166 238 279"
definition EIGHT :: "u16 \<Rightarrow> u16 \<Rightarrow> bool" where "EIGHT = in_area 167 239 238 279"
definition NINE :: "u16 \<Rightarrow> u16 \<Rightarrow> bool" where "NINE = in_area 0 77 282 320"
definition CANCLE :: "u16 \<Rightarrow> u16 \<Rightarrow> bool" where "CANCLE = in_area 78 166 282 320"
definition OK :: "u16 \<Rightarrow> u16 \<Rightarrow> bool" where "OK = in_area 167 239 282 320"

lemmas area_defs = SET_YEAR_def SET_MON_def SET_DAY_def SET_HOUR_def SET_MIN_def SET_SEC_def
  SET_WEEK_def ZERO_def ONE_def TWO_def THREE_def FOUR_def FIVE_def SIX_def SEVEN_def EIGHT_def
  NINE_def CANCLE_def OK_def in_area_def

definition TIME :: "u16 \<Rightarrow> u16 \<Rightarrow> bool" where "TIME = in_area 1 120 43 92"
definition MODE :: "u16 \<Rightarrow> u16 \<Rightarrow> bool" where "MODE = in_area 120 239 43 95"
definition Curtain_CLOSE :: "u16 \<Rightarrow> u16 \<Rightarrow> bool" where "Curtain_CLOSE = in_area 128 171 290 306"
definition Curtain_OPEN :: "u16 \<Rightarrow> u16 \<Rightarrow> bool" where "Curtain_OPEN = in_area 80 111 290 306"
definition Curtain_KT :: "u16 \<Rightarrow> u16 \<Rightarrow> bool" where "Curtain_KT = in_area 184 208 290 306"

text \<open>The light buttons sit 60 pixels from the right edge; the sums are \<open>int\<close>s in C.\<close>

definition light_button :: "int \<Rightarrow> u16 \<Rightarrow> u16 \<Rightarrow> u16 \<Rightarrow> bool" where
  "light_button edge width x y \<longleftrightarrow>
     uint width - 60 < uint x \<and> uint x < uint width - 60 + 16
     \<and> (edge < uint y \<and> uint y < edge + 16)"

definition Bedroom_Light :: "u16 \<Rightarrow> u16 \<Rightarrow> u16 \<Rightarrow> bool" where
  "Bedroom_Light = light_button 236"
definition Livingroom_Light :: "u16 \<Rightarrow> u16 \<Rightarrow> u16 \<Rightarrow> bool" where
  "Livingroom_Light = light_button 254"
definition Corridor_Light :: "u16 \<Rightarrow> u16 \<Rightarrow> u16 \<Rightarrow> bool" where
  "Corridor_Light = light_button 272"

end
