(* ===== verification/Set_Time_Panel.thy ===== *)
theory Set_Time_Panel
  imports Rtc Screen
begin

text \<open>
  \<open>Set_Time\<close> of \<open>applications/rtc.c\<close>: the panel that sets the clock by touch. A press in the
  upper part selects the item that blinks, the keys of the number pad shift a digit into
  it, C leaves without a change and E writes the chosen time to the clock. The touch scans
  of the loop are the input of the model; the statics of the function are part of its
  state and survive from one session to the next.
\<close>

section \<open>State\<close>

record time =
  t_year :: u16
  t_mon :: u8
  t_week :: u8
  t_day :: u8
  t_hour :: u8
  t_min :: u8
  t_sec :: u8

record panel =
  set_time :: time          \<comment> \<open>\<open>Set_time\<close>\<close>
  time_flag_flash :: u8
  key_value :: u8
  status :: u8
  set_value :: u16
  green_led :: bool         \<comment> \<open>the pin PE5; the LED is lit at 0\<close>
  screen :: "lcd_call list"
  rtc_irq :: bool           \<comment> \<open>the RTC interrupt is enabled in the NVIC\<close>
  dev :: rtc_dev

definition draw :: "lcd_call list \<Rightarrow> panel \<Rightarrow> panel" where
  "draw calls p = p \<lparr> screen := screen p @ calls \<rparr>"

definition toggle_led :: "panel \<Rightarrow> panel" where
  "toggle_led p = p \<lparr> green_led := \<not> green_led p \<rparr>"

definition update_time :: "(time \<Rightarrow> time) \<Rightarrow> panel \<Rightarrow> panel" where
  "update_time f p = p \<lparr> set_time := f (set_time p) \<rparr>"

section \<open>Selecting an item\<close>

text \<open>One selection: the blinking item, \<open>set_value\<close> cleared, the item set to zero.\<close>

definition select_item :: "u8 \<Rightarrow> (time \<Rightarrow> time) \<Rightarrow> panel \<Rightarrow> panel" where
  "select_item flag zero p = update_time zero (p \<lparr> time_flag_flash := flag, set_value := 0 \<rparr>)"

definition touch_items :: "u16 \<Rightarrow> u16 \<Rightarrow> panel \<Rightarrow> panel" where
  "touch_items x y p =
     (let p = on_cond (SET_YEAR x y) (select_item 1 (t_year_update (\<lambda>_. 2000))) p;
          p = on_cond (SET_MON x y) (\<lambda>p. select_item 2 (t_mon_update (\<lambda>_. 0)) (toggle_led p)) p;
          p = on_cond (SET_DAY x y) (\<lambda>p. select_item 3 (t_day_update (\<lambda>_. 0)) (toggle_led p)) p;
          p = on_cond (SET_HOUR x y) (\<lambda>p. select_item 11 (t_hour_update (\<lambda>_. 0)) (toggle_led p)) p;
          p = on_cond (SET_MIN x y) (\<lambda>p. select_item 12 (t_min_update (\<lambda>_. 0)) (toggle_led p)) p;
          p = on_cond (SET_SEC x y) (\<lambda>p. select_item 13 (t_sec_update (\<lambda>_. 0)) (toggle_led p)) p
      in on_cond (SET_WEEK x y) (\<lambda>p. select_item 7 (t_week_update (\<lambda>_. 0)) (toggle_led p)) p)"

section \<open>The keys of the number pad\<close>

text \<open>
  \<open>set_value = (set_value*10) + key_value; if (set_value >= limit) set_value = 0;\<close> computed
  in \<open>int\<close> and stored in a \<open>uint16_t\<close>.
\<close>

definition shift_digit :: "u16 \<Rightarrow> panel \<Rightarrow> panel" where
  "shift_digit limit p =
     (let v = set_value p * 10 + ucast (key_value p)
      in p \<lparr> set_value := (if limit \<le> v then 0 else v) \<rparr>)"

text \<open>The \<open>switch(time_flag_flash)\<close> the ten keys share; only the case of the week differs.\<close>

definition number_key :: "u8 \<Rightarrow> (panel \<Rightarrow> panel) \<Rightarrow> panel \<Rightarrow> panel" where
  "number_key k week_case p =
     (let p = p \<lparr> key_value := k \<rparr>; f = time_flag_flash p in
      if f = 1 then (let p = shift_digit 100 p
                     in update_time (t_year_update (\<lambda>_. set_value p + 2000)) p)
      else if f = 2 then (let p = shift_digit 13 p
                          in update_time (t_mon_update (\<lambda>_. ucast (set_value p))) p)
      else if f = 3 then (let p = shift_digit 32 p
                          in update_time (t_day_update (\<lambda>_. ucast (set_value p))) p)
      else if f = 11 then (let p = shift_digit 24 p
                           in update_time (t_hour_update (\<lambda>_. ucast (set_value p))) p)
      else if f = 12 then (let p = shift_digit 61 p
                           in update_time (t_min_update (\<lambda>_. ucast (set_value p))) p)
      else if f = 13 then (let p = shift_digit 61 p
                           in update_time (t_sec_update (\<lambda>_. ucast (set_value p))) p)
      else if f = 7 then week_case p
      else p)"

definition set_week :: "u8 \<Rightarrow> panel \<Rightarrow> panel" where
  "set_week w = update_time (t_week_update (\<lambda>_. w))"

definition wrong_week :: "panel \<Rightarrow> panel" where
  "wrong_week p =
     draw [Point_Color RED, Show_String 60 98 200 24 24 '' Wrong No.!  ''] (set_week 9 p)"

definition key_ZERO :: "panel \<Rightarrow> panel" where "key_ZERO = number_key 0 (set_week 0)"
definition key_ONE :: "panel \<Rightarrow> panel" where "key_ONE = number_key 1 (set_week 1)"
definition key_TWO :: "panel \<Rightarrow> panel" where "key_TWO = number_key 2 (set_week 2)"
definition key_THREE :: "panel \<Rightarrow> panel" where "key_THREE = number_key 3 (set_week 3)"
definition key_FOUR :: "panel \<Rightarrow> panel" where "key_FOUR = number_key 4 (set_week 4)"
definition key_FIVE :: "panel \<Rightarrow> panel" where "key_FIVE = number_key 5 (set_week 5)"
definition key_SIX :: "panel \<Rightarrow> panel" where "key_SIX = number_key 6 (set_week 6)"
definition key_SEVEN :: "panel \<Rightarrow> panel" where "key_SEVEN = number_key 7 (set_week 0)"
definition key_EIGHT :: "panel \<Rightarrow> panel" where "key_EIGHT = number_key 8 wrong_week"
definition key_NINE :: "panel \<Rightarrow> panel" where "key_NINE = number_key 9 wrong_week"

definition touch_digits :: "u16 \<Rightarrow> u16 \<Rightarrow> panel \<Rightarrow> panel" where
  "touch_digits x y p =
     (let p = on_cond (ZERO x y) key_ZERO p;
          p = on_cond (ONE x y) key_ONE p;
          p = on_cond (TWO x y) key_TWO p;
          p = on_cond (THREE x y) key_THREE p;
          p = on_cond (FOUR x y) key_FOUR p;
          p = on_cond (FIVE x y) key_FIVE p;
          p = on_cond (SIX x y) key_SIX p;
          p = on_cond (SEVEN x y) key_SEVEN p;
          p = on_cond (EIGHT x y) key_EIGHT p
      in on_cond (NINE x y) key_NINE p)"

text \<open>A press inside the screen; \<open>True\<close>: the \<open>goto loop\<close> of C or E.\<close>

definition press :: "u16 \<Rightarrow> u16 \<Rightarrow> panel \<Rightarrow> bool \<times> panel" where
  "press x y p =
     (let p = touch_digits x y (touch_items x y p) in
      if CANCLE x y then (True, p \<lparr> status := 67 \<rparr>)
      else if OK x y then (True, p \<lparr> status := 69 \<rparr>)
      else (False, p))"

section \<open>The loop\<close>

definition ymd_text :: "u16 \<Rightarrow> u8 \<Rightarrow> u8 \<Rightarrow> string" where
  "ymd_text y m d = dec2 (unat y) @ ''-'' @ dec2 (unat m) @ ''-'' @ dec2 (unat d)"

definition hms_text :: "u8 \<Rightarrow> u8 \<Rightarrow> u8 \<Rightarrow> string" where
  "hms_text h m s = dec2 (unat h) @ '':'' @ dec2 (unat m) @ '':'' @ dec2 (unat s)"

definition blink_week :: "u8 \<Rightarrow> lcd_call list" where
  "blink_week w =
     (if w = 0 then [Show_String 60 98 200 24 24 ''              '',
                     Show_String 62 98 200 24 24 '' Sunday       '']
      else if w = 1 then [Show_String 60 98 200 24 24 ''             '',
                          Show_String 62 98 200 24 24 '' Monday      '']
      else if w = 2 then [Show_String 60 98 200 24 24 ''             '',
                          Show_String 62 98 200 24 24 '' Tuesday     '']
      else if w = 3 then [Show_String 62 98 200 24 24 ''             '',
                          Show_String 62 98 200 24 24 ''Wednesday    '']
      else if w = 4 then [Show_String 62 98 200 24 24 ''            '',
                          Show_String 62 98 200 24 24 ''Thursday    '']
      else if w = 5 then [Show_String 60 98 200 24 24 ''           '',
                          Show_String 62 98 200 24 24 '' Friday    '']
      else if w = 6 then [Show_String 62 98 200 24 24 ''           '',
                          Show_String 62 98 200 24 24 ''Saturday   '']
      else [])"

text \<open>The \<open>switch(time_flag_flash)\<close> at the end of every turn: the item is blanked and redrawn.\<close>

definition blink :: "panel \<Rightarrow> panel" where
  "blink p =
     (let f = time_flag_flash p; t = set_time p;
          ymd = Show_String 60 43 200 24 24 (ymd_text (t_year t) (t_mon t) (t_day t));
          hms = Show_String 65 70 200 24 24 (hms_text (t_hour t) (t_min t) (t_sec t));
          blank = (\<lambda>x y. [Point_Color BLACK, Show_String x y 200 24 24 ''  ''])
      in if f = 1 then draw (blank 84 43 @ [ymd]) p
         else if f = 2 then draw (blank 120 43 @ [ymd]) p
         else if f = 3 then draw (blank 156 43 @ [ymd]) p
         else if f = 11 then (draw (blank 65 70 @ [hms]) p) \<lparr> time_flag_flash := 11 \<rparr>
         else if f = 12 then (draw (blank 101 70 @ [hms]) p) \<lparr> time_flag_flash := 12 \<rparr>
         else if f = 13 then (draw (blank 137 70 @ [hms]) p) \<lparr> time_flag_flash := 13 \<rparr>
         else if f = 7 then draw (Point_Color BLACK # blink_week (t_week t)) p
         else p)"

text \<open>
  One scan of the touch panel per turn, and scans until the release after a press. With no
  scan left the loop is still running (\<open>False\<close>).
\<close>

record sample =
  pressed :: bool
  sx :: u16
  sy :: u16

function set_loop :: "u16 \<Rightarrow> u16 \<Rightarrow> sample list \<Rightarrow> panel \<Rightarrow> bool \<times> panel \<times> sample list" where
  "set_loop width height [] p = (False, p, [])"
| "set_loop width height (s # ss) p =
     (if pressed s \<and> sx s < width \<and> sy s < height then
        (case press (sx s) (sy s) p of
           (True, p) \<Rightarrow> (True, p, ss)
         | (False, p) \<Rightarrow>
             (case dropWhile pressed ss of
                [] \<Rightarrow> (False, p, [])
              | _ # ss \<Rightarrow> set_loop width height ss (blink p)))
      else set_loop width height ss (blink p))"
  by pat_completeness auto
termination
proof (relation "measure (\<lambda>(_, _, ss, _). length ss)")
  fix ss :: "sample list" and s' ss'
  assume "dropWhile pressed ss = s' # ss'"
  then have "length (s' # ss') \<le> length ss" by (metis length_dropWhile_le)
  then show "((w, h, ss', q), (w', h', s # ss, p)) \<in> measure (\<lambda>(_, _, ss, _). length ss)"
    for w h q w' h' p and s :: sample
    by simp
qed simp_all

section \<open>Entry and exit\<close>

definition week_name :: "u8 \<Rightarrow> lcd_call list" where
  "week_name w =
     (let line = (\<lambda>s. [Show_String 62 98 200 24 24 s]) in
      if w = 0 then line ''Sunday   '' else if w = 1 then line ''Monday   ''
      else if w = 2 then line ''Tuesday  '' else if w = 3 then line ''Wednesday''
      else if w = 4 then line ''Thursday '' else if w = 5 then line ''Friday   ''
      else if w = 6 then line ''Saturday '' else [])"

definition enter_panel :: "panel \<Rightarrow> panel" where
  "enter_panel p =
     (let c = calendar (dev p);
          p = draw [Clear_Screen WHITE, Point_Color BLACK] p;
          p = p \<lparr> rtc_irq := False \<rparr>;
          p = p \<lparr> set_time := \<lparr> t_year = w_year c, t_mon = w_month c, t_week = c_week c,
                     t_day = w_date c, t_hour = c_hour c, t_min = c_min c, t_sec = c_sec c \<rparr> \<rparr>
      in draw (Draw_Number_Pad @
               [Show_String 50 0 200 24 24 '' Set    Time '',
                Line 0 26 240 26,
                Show_String 60 43 200 24 24 (ymd_text (w_year c) (w_month c) (w_date c)),
                Show_String 65 70 200 24 24 (hms_text (c_hour c) (c_min c) (c_sec c))] @
               week_name (c_week c)) p)"

text \<open>After \<open>loop:\<close>; the value \<open>RTC_Set\<close> returns is ignored.\<close>

definition leave_panel :: "u16 \<Rightarrow> panel \<Rightarrow> panel cres" where
  "leave_panel width p =
     (let p = (if status p = 67
               then (draw (Clear_Screen WHITE # Draw_window width) p)
                      \<lparr> rtc_irq := True, green_led := True \<rparr>
               else p)
      in if status p = 69
         then (let p = draw [Clear_Screen WHITE] p; t = set_time p in
               cbind (RTC_Set (t_year t) (t_mon t) (t_day t) (t_hour t) (t_min t) (t_sec t) (dev p))
                 (\<lambda>(_, r). Ret ((draw (Draw_window width) p)
                    \<lparr> dev := r \<lparr> bkp_dr1 := 0x5050 \<rparr>, rtc_irq := True, green_led := True \<rparr>)))
         else Ret p)"

definition Set_Time :: "u16 \<Rightarrow> u16 \<Rightarrow> sample list \<Rightarrow> panel \<Rightarrow> (bool \<times> panel \<times> sample list) cres" where
  "Set_Time width height samples p =
     (case set_loop width height samples (enter_panel p) of
        (True, p, ss) \<Rightarrow> cbind (leave_panel width p) (\<lambda>p. Ret (True, p, ss))
      | (False, p, ss) \<Rightarrow> Ret (False, p, ss))"

section \<open>Number entry\<close>

text \<open>The six numeric items: the flag, the first value that is rejected, and the field.\<close>

datatype item = Year | Month | Day | Hour | Minute | Second

fun item_flag :: "item \<Rightarrow> u8" where
  "item_flag Year = 1" | "item_flag Month = 2" | "item_flag Day = 3"
| "item_flag Hour = 11" | "item_flag Minute = 12" | "item_flag Second = 13"

fun item_limit :: "item \<Rightarrow> nat" where
  "item_limit Year = 100" | "item_limit Month = 13" | "item_limit Day = 32"
| "item_limit Hour = 24" | "item_limit Minute = 61" | "item_limit Second = 61"

fun item_put :: "item \<Rightarrow> nat \<Rightarrow> time \<Rightarrow> time" where
  "item_put Year v t = t \<lparr> t_year := of_nat (2000 + v) \<rparr>"
| "item_put Month v t = t \<lparr> t_mon := of_nat v \<rparr>"
| "item_put Day v t = t \<lparr> t_day := of_nat v \<rparr>"
| "item_put Hour v t = t \<lparr> t_hour := of_nat v \<rparr>"
| "item_put Minute v t = t \<lparr> t_min := of_nat v \<rparr>"
| "item_put Second v t = t \<lparr> t_sec := of_nat v \<rparr>"

text \<open>One digit: the value is shifted, and dropped when it reaches the limit.\<close>

definition enter_digit :: "nat \<Rightarrow> nat \<Rightarrow> nat \<Rightarrow> nat" where
  "enter_digit limit v d = (if limit \<le> 10 * v + d then 0 else 10 * v + d)"

lemma item_limit_le: "item_limit i \<le> 100"
  by (cases i) simp_all

lemma enter_digit_less: "0 < limit \<Longrightarrow> enter_digit limit v d < limit"
  by (simp add: enter_digit_def)

lemma shift_digit_value:
  assumes "unat (set_value p) \<le> 99" and "unat (key_value p) \<le> 9"
  shows "set_value (shift_digit limit p)
       = of_nat (enter_digit (unat limit) (unat (set_value p)) (unat (key_value p)))"
proof -
  let ?v = "set_value p * 10 + ucast (key_value p)"
  have "unat ?v = 10 * unat (set_value p) + unat (key_value p)"
    using assms by (simp add: unat_word_ariths)
  then have v: "?v = of_nat (10 * unat (set_value p) + unat (key_value p))"
    and le: "limit \<le> ?v \<longleftrightarrow> unat limit \<le> 10 * unat (set_value p) + unat (key_value p)"
    by (metis of_nat_unat ucast_id, simp add: word_le_nat_alt)
  show ?thesis unfolding shift_digit_def Let_def le enter_digit_def by (simp add: v del: of_nat_add of_nat_mult)
qed

lemma number_key_item:
  assumes "unat (set_value p) \<le> 99" and "unat k \<le> 9" and "time_flag_flash p = item_flag i"
  defines "v \<equiv> enter_digit (item_limit i) (unat (set_value p)) (unat k)"
  shows "number_key k w p
       = p \<lparr> key_value := k, set_value := of_nat v, set_time := item_put i v (set_time p) \<rparr>"
proof -
  have v: "v < 256" using item_limit_le [of i] enter_digit_less [of "item_limit i"]
    by (cases i) (simp_all add: v_def enter_digit_def)
  have sd: "shift_digit limit (p \<lparr> key_value := k \<rparr>)
      = p \<lparr> key_value := k, set_value := of_nat (enter_digit (unat limit) (unat (set_value p)) (unat k)) \<rparr>"
    for limit
    using shift_digit_value [of "p \<lparr> key_value := k \<rparr>" limit] assms(1,2)
    by (simp add: shift_digit_def Let_def)
  have narrow: "ucast (of_nat v :: u16) = (of_nat v :: u8)"
    using v by (intro ucast_eq_of_nat unat_of_nat_u16) simp
  show ?thesis
    using assms(3) narrow unfolding v_def
    by (cases i) (simp_all add: number_key_def Let_def sd update_time_def)
qed

text \<open>The keys by their digit, and where they are on the screen.\<close>

definition pad_key :: "nat \<Rightarrow> panel \<Rightarrow> panel" where
  "pad_key k = [key_ZERO, key_ONE, key_TWO, key_THREE, key_FOUR, key_FIVE, key_SIX, key_SEVEN,
                key_EIGHT, key_NINE] ! k"

definition key_area :: "nat \<Rightarrow> u16 \<Rightarrow> u16 \<Rightarrow> bool" where
  "key_area k = [ZERO, ONE, TWO, THREE, FOUR, FIVE, SIX, SEVEN, EIGHT, NINE] ! k"

fun item_area :: "item \<Rightarrow> u16 \<Rightarrow> u16 \<Rightarrow> bool" where
  "item_area Year = SET_YEAR" | "item_area Month = SET_MON" | "item_area Day = SET_DAY"
| "item_area Hour = SET_HOUR" | "item_area Minute = SET_MIN" | "item_area Second = SET_SEC"

lemma digit_cases:
  "(k :: nat) < 10 \<Longrightarrow> k = 0 \<or> k = 1 \<or> k = 2 \<or> k = 3 \<or> k = 4 \<or> k = 5 \<or> k = 6 \<or> k = 7 \<or> k = 8 \<or> k = 9"
  by presburger

lemmas area_nat = area_defs word_less_nat_alt

lemma press_key:
  assumes "k < 10" and "key_area k x y"
  shows "press x y p = (False, pad_key k p)"
  using digit_cases [OF assms(1)] assms(2)
  by (elim disjE)
    (simp_all add: press_def touch_items_def touch_digits_def Let_def key_area_def pad_key_def area_nat)

lemma press_item:
  assumes "item_area i x y"
  shows "press x y p = (False, p \<lparr> time_flag_flash := item_flag i, set_value := 0,
     set_time := item_put i 0 (set_time p),
     green_led := (if i = Year then green_led p else \<not> green_led p) \<rparr>)"
  using assms
  by (cases i) (simp_all add: press_def touch_items_def touch_digits_def Let_def area_nat
      select_item_def update_time_def toggle_led_def)

lemma pad_key_item:
  assumes "k < 10" and "unat (set_value p) \<le> 99" and "time_flag_flash p = item_flag i"
  defines "v \<equiv> enter_digit (item_limit i) (unat (set_value p)) k"
  shows "pad_key k p = p \<lparr> key_value := of_nat k, set_value := of_nat v,
     set_time := item_put i v (set_time p) \<rparr>"
proof -
  have "\<exists>w. pad_key k = number_key (of_nat k) w"
    using digit_cases [OF assms(1)]
    by (elim disjE) (auto simp: pad_key_def key_ZERO_def key_ONE_def key_TWO_def key_THREE_def
        key_FOUR_def key_FIVE_def key_SIX_def key_SEVEN_def key_EIGHT_def key_NINE_def)
  moreover have "unat (of_nat k :: u8) = k" using assms(1) by (intro unat_of_nat_u8) simp
  ultimately show ?thesis
    using number_key_item [of p "of_nat k" i] assms(1-3) by (auto simp: v_def)
qed

text \<open>The touches of one entry: an item, then digit keys.\<close>

definition touch :: "panel \<Rightarrow> u16 \<times> u16 \<Rightarrow> panel" where
  "touch p xy = snd (press (fst xy) (snd xy) p)"

lemma item_put_again [simp]: "item_put i v (item_put i u t) = item_put i v t"
  by (cases i) simp_all

lemma digits_entered:
  assumes "list_all2 (\<lambda>k (x, y). k < 10 \<and> key_area k x y) ks xys"
    and "unat (set_value p) \<le> 99" and "time_flag_flash p = item_flag i"
    and "set_time p = item_put i (unat (set_value p)) t"
  shows "set_time (foldl touch p xys)
       = item_put i (foldl (enter_digit (item_limit i)) (unat (set_value p)) ks) t"
  using assms
proof (induction ks xys arbitrary: p rule: list_all2_induct)
  case Nil
  then show ?case by simp
next
  case (Cons k ks xy xys)
  obtain x y where xy: "xy = (x, y)" by (cases xy)
  let ?v = "enter_digit (item_limit i) (unat (set_value p)) k"
  let ?q = "p \<lparr> key_value := of_nat k, set_value := of_nat ?v, set_time := item_put i ?v (set_time p) \<rparr>"
  have "0 < item_limit i" by (cases i) simp_all
  then have "?v < 100" by (intro less_le_trans [OF enter_digit_less item_limit_le])
  then have v: "?v \<le> 99" by simp
  then have "unat (set_value ?q) = ?v" by (simp add: unat_of_nat_u16)
  moreover have "touch p xy = ?q"
    using press_key [of k x y p] pad_key_item [of k p i] Cons.hyps(1) Cons.prems
    by (simp add: xy touch_def)
  ultimately show ?case
    using Cons.IH [of ?q] Cons.prems v by simp
qed

section \<open>What a session keeps\<close>

definition panel_ok :: "panel \<Rightarrow> bool" where
  "panel_ok p \<longleftrightarrow> unat (set_value p) \<le> 99 \<and>
     (let t = set_time p in
      2000 \<le> unat (t_year t) \<and> unat (t_year t) \<le> 2099 \<and> unat (t_mon t) \<le> 12 \<and>
      unat (t_day t) \<le> 31 \<and> unat (t_hour t) \<le> 23 \<and> unat (t_min t) \<le> 60 \<and>
      unat (t_sec t) \<le> 60)"

lemma item_put_ok:
  assumes "panel_ok p" and "v < item_limit i"
  shows "panel_ok (p \<lparr> set_value := of_nat v, set_time := item_put i v (set_time p) \<rparr>)"
proof -
  have v: "v \<le> 99" using assms(2) item_limit_le [of i] by simp
  then have "unat (of_nat v :: u16) = v" "unat (of_nat v :: u8) = v"
      "unat (of_nat (2000 + v) :: u16) = 2000 + v"
    by (simp_all add: unat_of_nat_u16 unat_of_nat_u8 del: of_nat_add)
  then show ?thesis using assms v
    by (cases i) (simp_all add: panel_ok_def Let_def del: of_nat_add)
qed

lemma panel_ok_fields [simp]:
  "panel_ok (p \<lparr> key_value := k \<rparr>) = panel_ok p" "panel_ok (p \<lparr> time_flag_flash := f \<rparr>) = panel_ok p"
  "panel_ok (p \<lparr> status := st \<rparr>) = panel_ok p" "panel_ok (p \<lparr> green_led := g \<rparr>) = panel_ok p"
  "panel_ok (p \<lparr> screen := sc \<rparr>) = panel_ok p" "panel_ok (draw cs p) = panel_ok p"
  "panel_ok (set_week w p) = panel_ok p" "panel_ok (toggle_led p) = panel_ok p"
  by (simp_all add: panel_ok_def draw_def set_week_def update_time_def toggle_led_def Let_def)

lemma number_key_ok:
  assumes "panel_ok p" and "unat k \<le> 9" and "\<And>q. panel_ok (w q) = panel_ok q"
  shows "panel_ok (number_key k w p)"
proof (cases "\<exists>i. time_flag_flash p = item_flag i")
  case True
  then obtain i where i: "time_flag_flash p = item_flag i" by blast
  have "0 < item_limit i" by (cases i) simp_all
  then have "panel_ok (p \<lparr> key_value := k,
      set_value := of_nat (enter_digit (item_limit i) (unat (set_value p)) (unat k)),
      set_time := item_put i (enter_digit (item_limit i) (unat (set_value p)) (unat k)) (set_time p) \<rparr>)"
    using assms(1) by (intro item_put_ok [of "p \<lparr> key_value := k \<rparr>", simplified] enter_digit_less)
  with i assms show ?thesis
    using number_key_item [of p k i w] by (simp add: panel_ok_def)
next
  case False
  have "time_flag_flash p \<noteq> f" if "f \<in> {1, 2, 3, 11, 12, 13}" for f
    using False that item_flag.simps by (metis empty_iff insert_iff)
  with assms show ?thesis by (simp add: number_key_def Let_def)
qed

lemma wrong_week_ok [simp]: "panel_ok (wrong_week q) = panel_ok q"
  by (simp add: wrong_week_def)

lemmas key_defs = key_ZERO_def key_ONE_def key_TWO_def key_THREE_def key_FOUR_def key_FIVE_def
  key_SIX_def key_SEVEN_def key_EIGHT_def key_NINE_def

lemma keys_ok:
  assumes "panel_ok p"
  shows "panel_ok (key_ZERO p)" "panel_ok (key_ONE p)" "panel_ok (key_TWO p)"
    "panel_ok (key_THREE p)" "panel_ok (key_FOUR p)" "panel_ok (key_FIVE p)" "panel_ok (key_SIX p)"
    "panel_ok (key_SEVEN p)" "panel_ok (key_EIGHT p)" "panel_ok (key_NINE p)"
  using assms by (auto simp: key_defs intro!: number_key_ok)

lemma touch_digits_ok: "panel_ok p \<Longrightarrow> panel_ok (touch_digits x y p)"
  by (simp add: touch_digits_def Let_def keys_ok on_cond_inv [where P = panel_ok])

lemma select_item_ok:
  assumes "panel_ok p"
  shows "panel_ok (select_item f (t_year_update (\<lambda>_. 2000)) p)"
    "panel_ok (select_item f (t_mon_update (\<lambda>_. 0)) p)"
    "panel_ok (select_item f (t_day_update (\<lambda>_. 0)) p)"
    "panel_ok (select_item f (t_hour_update (\<lambda>_. 0)) p)"
    "panel_ok (select_item f (t_min_update (\<lambda>_. 0)) p)"
    "panel_ok (select_item f (t_sec_update (\<lambda>_. 0)) p)"
    "panel_ok (select_item f (t_week_update (\<lambda>_. 0)) p)"
  using assms by (simp_all add: panel_ok_def Let_def select_item_def update_time_def)

lemma touch_items_ok: "panel_ok p \<Longrightarrow> panel_ok (touch_items x y p)"
  by (simp add: touch_items_def Let_def select_item_ok on_cond_inv [where P = panel_ok])

lemma press_ok: "panel_ok p \<Longrightarrow> press x y p = (q, p') \<Longrightarrow> panel_ok p'"
  by (auto simp: press_def Let_def touch_digits_ok touch_items_ok split: if_splits)

lemma blink_ok: "panel_ok p \<Longrightarrow> panel_ok (blink p)"
  by (simp add: blink_def Let_def)

lemma set_loop_ok: "panel_ok p \<Longrightarrow> set_loop w h ss p = (q, p', ss') \<Longrightarrow> panel_ok p'"
  by (induction w h ss p rule: set_loop.induct)
    (auto simp: blink_ok dest: press_ok split: if_splits prod.splits bool.splits list.splits)

text \<open>Nothing in the loop touches the clock, and the interrupt stays off.\<close>

lemma number_key_dev:
  assumes "\<And>q. dev (w q) = dev q"
  shows "dev (number_key k w p) = dev p"
  using assms by (simp add: number_key_def Let_def update_time_def shift_digit_def)

lemma keys_dev:
  "dev (key_ZERO p) = dev p" "dev (key_ONE p) = dev p" "dev (key_TWO p) = dev p"
  "dev (key_THREE p) = dev p" "dev (key_FOUR p) = dev p" "dev (key_FIVE p) = dev p"
  "dev (key_SIX p) = dev p" "dev (key_SEVEN p) = dev p" "dev (key_EIGHT p) = dev p"
  "dev (key_NINE p) = dev p"
  by (simp_all add: key_defs number_key_dev set_week_def wrong_week_def draw_def update_time_def)

lemma select_item_dev: "dev (select_item f z p) = dev p" "dev (toggle_led p) = dev p"
  by (simp_all add: select_item_def update_time_def toggle_led_def)

lemma touch_dev: "dev (touch_digits x y p) = dev p" "dev (touch_items x y p) = dev p"
  by (simp_all add: touch_digits_def touch_items_def Let_def on_cond_keeps [where g = dev]
      keys_dev select_item_dev)

lemma press_dev: "dev (snd (press x y p)) = dev p"
  by (simp add: press_def Let_def touch_dev)

lemma blink_dev: "dev (blink p) = dev p"
  by (simp add: blink_def Let_def draw_def)

lemma press_status: "press x y p = (True, p') \<Longrightarrow> status p' = 67 \<or> status p' = 69"
  by (auto simp: press_def Let_def split: if_splits)

lemma set_loop_dev: "set_loop w h ss p = (q, p', ss') \<Longrightarrow> dev p' = dev p"
proof (induction w h ss p rule: set_loop.induct)
  case (2 w h s ss p)
  have "dev p1 = dev p" if "press (sx s) (sy s) p = (b, p1)" for b p1
    using press_dev [of "sx s" "sy s" p] that by simp
  then show ?case using 2
    by (auto simp: blink_dev split: if_splits prod.splits bool.splits list.splits)
qed simp

lemma set_loop_status: "set_loop w h ss p = (True, p', ss') \<Longrightarrow> status p' = 67 \<or> status p' = 69"
  by (induction w h ss p rule: set_loop.induct)
    (auto dest: press_status split: if_splits prod.splits bool.splits list.splits)

lemma enter_panel_dev: "dev (enter_panel p) = dev p"
  by (simp add: enter_panel_def Let_def draw_def)

lemma press_leave:
  "CANCLE x y \<Longrightarrow> press x y p = (True, p \<lparr> status := 67 \<rparr>)"
  "OK x y \<Longrightarrow> press x y p = (True, p \<lparr> status := 69 \<rparr>)"
  by (simp_all add: press_def touch_items_def touch_digits_def Let_def area_nat)

text \<open>The panel of a device that shows 27 May 2017, 17:07:00.\<close>

definition sample_panel :: panel where
  "sample_panel = \<lparr> set_time = \<lparr> t_year = 2017, t_mon = 5, t_week = 6, t_day = 27, t_hour = 17,
     t_min = 7, t_sec = 0 \<rparr>, time_flag_flash = 1, key_value = 0, status = 0, set_value = 0,
     green_led = True, screen = [], rtc_irq = True,
     dev = reset_rtc \<lparr> daycnt := of_nat (day_number 2017 5 27), calendar := calendar_at 2017 5 27 17 7 0 \<rparr> \<rparr>"

lemma sample_entered:
  "set_time (enter_panel sample_panel) = \<lparr> t_year = 2017, t_mon = 5, t_week = 6, t_day = 27,
     t_hour = 17, t_min = 7, t_sec = 0 \<rparr>"
  "panel_ok (enter_panel sample_panel)" "cal_synced (dev sample_panel)"
  "rtoff_after (dev sample_panel) = Some 3"
proof -
  show "cal_synced (dev sample_panel)"
    unfolding sample_panel_def panel.simps by (rule cal_synced_at [OF sample_date(1)]) simp
qed (simp_all add: enter_panel_def Let_def draw_def sample_panel_def calendar_at_def panel_ok_def
      reset_rtc_def sample_date)

section \<open>Properties\<close>

text \<open>
  C25. Touching an item and then any keys of the pad stores in that item, and in no other,
  the number the digits spell: each digit is appended and the number starts again from zero
  when it reaches the limit of the item.
\<close>

theorem touched_digits_spell_the_item:
  assumes "item_area i x y"
    and "list_all2 (\<lambda>k (x, y). k < 10 \<and> key_area k x y) ks xys"
  shows "set_time (foldl touch p ((x, y) # xys))
       = item_put i (foldl (enter_digit (item_limit i)) 0 ks) (set_time p)"
proof -
  have "touch p (x, y) = p \<lparr> time_flag_flash := item_flag i, set_value := 0,
      set_time := item_put i 0 (set_time p),
      green_led := (if i = Year then green_led p else \<not> green_led p) \<rparr>"
    using press_item [OF assms(1), of p] by (simp add: touch_def)
  then show ?thesis
    using digits_entered [OF assms(2), of "touch p (x, y)" i "set_time p"] by simp
qed

lemma touched_digits_spell_the_item_witness:
  "set_time (foldl touch sample_panel [(80, 55), (200, 180), (120, 260)])
     = (set_time sample_panel) \<lparr> t_year := 2027 \<rparr>"
  using touched_digits_spell_the_item [of Year 80 55 "[2, 7]" "[(200, 180), (120, 260)]" sample_panel]
  by (simp add: area_nat key_area_def enter_digit_def)

text \<open>
  Whatever is touched, in whatever order, the time on the panel stays within the limits
  of the entry: years 2000 to 2099, months to 12, days to 31, hours to 23, and minutes and
  seconds to 60, one more than a clock has.
\<close>

theorem set_loop_keeps_the_limits:
  assumes "panel_ok p" and "set_loop width height touches p = (quit, p', rest)"
  shows "panel_ok p'"
  using assms by (rule set_loop_ok)

lemma set_loop_keeps_the_limits_witness:
  "\<exists>quit p' rest. set_loop 240 320 [\<lparr> pressed = True, sx = 105, sy = 80 \<rparr>,
     \<lparr> pressed = False, sx = 0, sy = 0 \<rparr>, \<lparr> pressed = True, sx = 30, sy = 260 \<rparr>] sample_panel
       = (quit, p', rest) \<and> panel_ok p'"
proof -
  have "panel_ok sample_panel" by (simp add: panel_ok_def sample_panel_def Let_def)
  then show ?thesis using set_loop_keeps_the_limits by (metis prod_cases3)
qed

text \<open>
  Leaving the panel with C changes neither the clock nor its calendar, redraws the main
  window and enables the interrupt again.
\<close>

theorem cancelled_session_changes_nothing:
  assumes "set_loop width height touches (enter_panel p) = (True, q, rest)" and "status q = 67"
  shows "\<exists>p'. Set_Time width height touches p = Ret (True, p', rest) \<and> dev p' = dev p \<and> rtc_irq p'
    \<and> green_led p' \<and> screen p' = screen q @ Clear_Screen WHITE # Draw_window width"
proof -
  have "dev q = dev p" using set_loop_dev [OF assms(1)] by (simp add: enter_panel_dev)
  then show ?thesis using assms by (simp add: Set_Time_def leave_panel_def Let_def draw_def)
qed

text \<open>
  Leaving the panel with E and a valid date and time on it sets the clock: the calendar
  shows exactly what was entered, with the weekday of the date whatever was chosen for it.
\<close>

theorem confirmed_session_sets_the_clock:
  assumes "set_loop width height touches (enter_panel p) = (True, q, rest)" and "status q = 69"
    and "panel_ok (enter_panel p)"
    and "valid_date (unat (t_year (set_time q))) (unat (t_mon (set_time q))) (unat (t_day (set_time q)))"
    and "valid_time (unat (t_hour (set_time q))) (unat (t_min (set_time q))) (unat (t_sec (set_time q)))"
    and "rtoff_after (dev p) = Some n" and "cal_synced (dev p)"
  shows "\<exists>p'. Set_Time width height touches p = Ret (True, p', rest) \<and> rtc_irq p'
    \<and> calendar (dev p') = calendar_at (unat (t_year (set_time q))) (unat (t_mon (set_time q)))
         (unat (t_day (set_time q))) (unat (t_hour (set_time q))) (unat (t_min (set_time q)))
         (unat (t_sec (set_time q)))"
proof -
  have "dev q = dev p" using set_loop_dev [OF assms(1)] by (simp add: enter_panel_dev)
  moreover have "unat (t_year (set_time q)) \<le> 2099"
    using set_loop_ok [OF assms(3,1)] by (simp add: panel_ok_def Let_def)
  ultimately show ?thesis
    using RTC_Set_at [OF assms(4) _ assms(5), of "dev q" n] assms
    by (simp add: Set_Time_def leave_panel_def Let_def draw_def)
qed

lemma cancelled_session_changes_nothing_witness:
  "\<exists>p' rest. Set_Time 240 320 [\<lparr> pressed = True, sx = 100, sy = 300 \<rparr>] sample_panel
     = Ret (True, p', rest) \<and> dev p' = dev sample_panel"
proof -
  have "set_loop 240 320 [\<lparr> pressed = True, sx = 100, sy = 300 \<rparr>] (enter_panel sample_panel)
      = (True, (enter_panel sample_panel) \<lparr> status := 67 \<rparr>, [])"
    by (simp add: press_leave area_nat)
  from cancelled_session_changes_nothing [OF this] show ?thesis by auto
qed

lemma confirmed_session_sets_the_clock_witness:
  "\<exists>p' rest. Set_Time 240 320 [\<lparr> pressed = True, sx = 200, sy = 300 \<rparr>] sample_panel
     = Ret (True, p', rest) \<and> calendar (dev p') = calendar_at 2017 5 27 17 7 0"
proof -
  have "set_loop 240 320 [\<lparr> pressed = True, sx = 200, sy = 300 \<rparr>] (enter_panel sample_panel)
      = (True, (enter_panel sample_panel) \<lparr> status := 69 \<rparr>, [])"
    by (simp add: press_leave area_nat)
  from confirmed_session_sets_the_clock [OF this _ sample_entered(2)] show ?thesis
    using sample_date sample_entered by auto
qed

text \<open>
  Touching the month and then E, with no digit in between, writes month 0: whatever
  the panel held and wherever in the two areas the touches fall, \<open>RTC_Set\<close> runs past
  \<open>mon_table\<close>.
\<close>

theorem month_without_digits_overruns:
  assumes "SET_MON x y" and "OK x' y'" and "x < width" "y < height" "x' < width" "y' < height"
    and "1970 \<le> unat (w_year (calendar (dev p)))" and "unat (w_year (calendar (dev p))) \<le> 2099"
  shows "Set_Time width height [\<lparr> pressed = True, sx = x, sy = y \<rparr>, \<lparr> pressed = False, sx = u, sy = v \<rparr>,
    \<lparr> pressed = True, sx = x', sy = y' \<rparr>] p = Fault"
proof -
  have item: "press x y q = (False, q \<lparr> time_flag_flash := 2, set_value := 0,
      set_time := (set_time q) \<lparr> t_mon := 0 \<rparr>, green_led := \<not> green_led q \<rparr>)" for q
    using press_item [of Month x y q] assms(1) by simp
  have range: "\<not> (w_year (calendar (dev p)) < 1970 \<or> 2099 < w_year (calendar (dev p)))"
    using assms(7,8) by (simp add: word_less_nat_alt)
  show ?thesis
    using assms(3-6) range press_leave(2) [OF assms(2)]
    by (simp add: Set_Time_def item blink_def draw_def enter_panel_def leave_panel_def Let_def
        RTC_Set_def date_seconds_month_0)
qed

lemma month_without_digits_overruns_witness:
  "Set_Time 240 320 [\<lparr> pressed = True, sx = 125, sy = 55 \<rparr>, \<lparr> pressed = False, sx = 0, sy = 0 \<rparr>,
    \<lparr> pressed = True, sx = 200, sy = 300 \<rparr>] sample_panel = Fault"
  by (rule month_without_digits_overruns)
    (simp_all add: area_nat sample_panel_def calendar_at_def)

end
