(* ===== verification/Mailbox.thy ===== *)
theory Mailbox
  imports Prelude
begin

text \<open>
  The mailboxes the threads of the firmware exchange commands through
  (\<open>rt-thread/src/ipc.c\<close>): \<open>rt_mb_init\<close>, \<open>rt_mb_send_wait\<close> and \<open>rt_mb_recv\<close> on a ring of
  words. A call that cannot proceed returns at once or suspends its thread; a call that
  does proceed wakes the first thread suspended on the other side. The locale \<open>fifo\<close> is the
  contract the threads rely on.
\<close>

section \<open>The contract of a bounded queue\<close>

text \<open>The accepted and the delivered values of a sequence of calls; \<open>None\<close> is a receive.\<close>

fun traffic :: "('v \<Rightarrow> 'm \<Rightarrow> bool \<times> 'm) \<Rightarrow> ('m \<Rightarrow> 'v option \<times> 'm) \<Rightarrow> 'v option list \<Rightarrow> 'm
    \<Rightarrow> 'v list \<times> 'v list \<times> 'm" where
  "traffic put get [] m = ([], [], m)"
| "traffic put get (Some v # cs) m =
     (let (ok, m) = put v m; (acc, del, m) = traffic put get cs m
      in (if ok then v # acc else acc, del, m))"
| "traffic put get (None # cs) m =
     (let (r, m) = get m; (acc, del, m) = traffic put get cs m
      in (acc, (case r of None \<Rightarrow> del | Some v \<Rightarrow> v # del), m))"

locale fifo =
  fixes inv :: "'m \<Rightarrow> bool"
    and items :: "'m \<Rightarrow> 'v list"
    and cap :: "'m \<Rightarrow> nat"
    and put :: "'v \<Rightarrow> 'm \<Rightarrow> bool \<times> 'm"
    and get :: "'m \<Rightarrow> 'v option \<times> 'm"
  assumes put_accepts: "inv m \<Longrightarrow> length (items m) < cap m \<Longrightarrow>
      fst (put v m) \<and> inv (snd (put v m)) \<and> items (snd (put v m)) = items m @ [v]
      \<and> cap (snd (put v m)) = cap m"
    and put_refuses: "inv m \<Longrightarrow> length (items m) = cap m \<Longrightarrow> put v m = (False, m)"
    and get_takes: "inv m \<Longrightarrow> items m = v # vs \<Longrightarrow>
      fst (get m) = Some v \<and> inv (snd (get m)) \<and> items (snd (get m)) = vs \<and> cap (snd (get m)) = cap m"
    and get_waits: "inv m \<Longrightarrow> items m = [] \<Longrightarrow>
      fst (get m) = None \<and> inv (snd (get m)) \<and> items (snd (get m)) = [] \<and> cap (snd (get m)) = cap m"
    and never_over: "inv m \<Longrightarrow> length (items m) \<le> cap m"
begin

lemma put_items:
  assumes "inv m"
  shows "inv (snd (put v m)) \<and> cap (snd (put v m)) = cap m
    \<and> items (snd (put v m)) = (if fst (put v m) then items m @ [v] else items m)"
proof (cases "length (items m) < cap m")
  case True
  then show ?thesis using put_accepts [OF assms] by simp
next
  case False
  then have "put v m = (False, m)" using put_refuses [OF assms] never_over [OF assms] by simp
  then show ?thesis using assms by simp
qed

lemma get_items:
  assumes "inv m"
  shows "inv (snd (get m)) \<and> cap (snd (get m)) = cap m \<and>
    items m = (case fst (get m) of None \<Rightarrow> [] | Some v \<Rightarrow> [v]) @ items (snd (get m))"
  by (cases "items m") (use get_takes [OF assms] get_waits [OF assms] in auto)

text \<open>Nothing accepted is lost, duplicated or reordered.\<close>

lemma traffic_in_order:
  assumes "inv m" and "traffic put get cs m = (acc, del, m')"
  shows "inv m' \<and> cap m' = cap m \<and> items m @ acc = del @ items m'"
  using assms
proof (induction cs arbitrary: m acc del m')
  case Nil
  then show ?case by simp
next
  case (Cons c cs)
  show ?case
  proof (cases c)
    case (Some v)
    obtain ok m1 where p: "put v m = (ok, m1)" by (cases "put v m")
    obtain a d m2 where t: "traffic put get cs m1 = (a, d, m2)"
      by (cases "traffic put get cs m1") auto
    have "inv m1" "cap m1 = cap m" "items m1 = (if ok then items m @ [v] else items m)"
      using put_items [OF Cons.prems(1), of v] p by simp_all
    with Cons.IH [OF _ t] Cons.prems(2) Some p t show ?thesis by (auto split: if_splits)
  next
    case None
    obtain r m1 where g: "get m = (r, m1)" by (cases "get m")
    obtain a d m2 where t: "traffic put get cs m1 = (a, d, m2)"
      by (cases "traffic put get cs m1") auto
    have "inv m1" "cap m1 = cap m" "items m = (case r of None \<Rightarrow> [] | Some v \<Rightarrow> [v]) @ items m1"
      using get_items [OF Cons.prems(1)] g by simp_all
    with Cons.IH [OF _ t] Cons.prems(2) None g t show ?thesis by (auto split: option.splits)
  qed
qed

end

section \<open>The mailbox of the kernel\<close>

record mailbox =
  msg_pool :: "u32 list"
  mb_size :: u16
  entry :: u16
  in_offset :: u16
  out_offset :: u16
  suspend_thread :: "nat list"         \<comment> \<open>threads suspended in \<open>rt_mb_recv\<close>, first in first out\<close>
  suspend_sender_thread :: "nat list"

datatype mb_status = RT_EOK | RT_EFULL | RT_ETIMEOUT | RT_ERROR | Suspended

definition rt_mb_init :: "u32 list \<Rightarrow> u16 \<Rightarrow> mailbox" where
  "rt_mb_init msgpool sz =
     \<lparr> msg_pool = msgpool, mb_size = sz, entry = 0, in_offset = 0, out_offset = 0,
       suspend_thread = [], suspend_sender_thread = [] \<rparr>"

text \<open>
  \<open>timeout\<close> 0 does not wait; with any other value the thread \<open>self\<close> is suspended on the full
  mailbox and tries again when it is resumed. The resumed receiver is the second component.
\<close>

definition rt_mb_send_wait ::
    "nat \<Rightarrow> u32 \<Rightarrow> bool \<Rightarrow> mailbox \<Rightarrow> (mb_status \<times> nat option \<times> mailbox) cres" where
  "rt_mb_send_wait self v wait mb =
     (if entry mb = mb_size mb \<and> \<not> wait then Ret (RT_EFULL, None, mb)
      else if entry mb = mb_size mb then
        Ret (Suspended, None, mb \<lparr> suspend_sender_thread := suspend_sender_thread mb @ [self] \<rparr>)
      else
        cbind (c_write (msg_pool mb) (unat (in_offset mb)) v) (\<lambda>pool.
          let mb = mb \<lparr> msg_pool := pool, in_offset := in_offset mb + 1 \<rparr>;
              mb = (if mb_size mb \<le> in_offset mb then mb \<lparr> in_offset := 0 \<rparr> else mb);
              mb = mb \<lparr> entry := entry mb + 1 \<rparr>
          in (case suspend_thread mb of
                t # ts \<Rightarrow> Ret (RT_EOK, Some t, mb \<lparr> suspend_thread := ts \<rparr>)
              | [] \<Rightarrow> Ret (RT_EOK, None, mb))))"

definition rt_mb_send :: "nat \<Rightarrow> u32 \<Rightarrow> mailbox \<Rightarrow> (mb_status \<times> nat option \<times> mailbox) cres" where
  "rt_mb_send self v mb = rt_mb_send_wait self v False mb"

definition rt_mb_recv ::
    "nat \<Rightarrow> bool \<Rightarrow> mailbox \<Rightarrow> (mb_status \<times> u32 option \<times> nat option \<times> mailbox) cres" where
  "rt_mb_recv self wait mb =
     (if entry mb = 0 \<and> \<not> wait then Ret (RT_ETIMEOUT, None, None, mb)
      else if entry mb = 0 then
        Ret (Suspended, None, None, mb \<lparr> suspend_thread := suspend_thread mb @ [self] \<rparr>)
      else
        cbind (c_read (msg_pool mb) (unat (out_offset mb))) (\<lambda>v.
          let mb = mb \<lparr> out_offset := out_offset mb + 1 \<rparr>;
              mb = (if mb_size mb \<le> out_offset mb then mb \<lparr> out_offset := 0 \<rparr> else mb);
              mb = mb \<lparr> entry := entry mb - 1 \<rparr>
          in (case suspend_sender_thread mb of
                t # ts \<Rightarrow> Ret (RT_EOK, Some v, Some t, mb \<lparr> suspend_sender_thread := ts \<rparr>)
              | [] \<Rightarrow> Ret (RT_EOK, Some v, None, mb))))"

section \<open>The ring as a queue\<close>

definition mb_ok :: "mailbox \<Rightarrow> bool" where
  "mb_ok mb \<longleftrightarrow> 0 < mb_size mb \<and> length (msg_pool mb) = unat (mb_size mb) \<and>
     in_offset mb < mb_size mb \<and> out_offset mb < mb_size mb \<and> entry mb \<le> mb_size mb \<and>
     unat (in_offset mb) = (unat (out_offset mb) + unat (entry mb)) mod unat (mb_size mb)"

definition mb_items :: "mailbox \<Rightarrow> u32 list" where
  "mb_items mb = map (\<lambda>i. msg_pool mb ! ((unat (out_offset mb) + i) mod unat (mb_size mb)))
     [0..<unat (entry mb)]"

lemma length_mb_items [simp]: "length (mb_items mb) = unat (entry mb)"
  by (simp add: mb_items_def)

lemma mb_okD:
  assumes "mb_ok mb"
  shows "0 < unat (mb_size mb)" "length (msg_pool mb) = unat (mb_size mb)"
    "unat (in_offset mb) < unat (mb_size mb)" "unat (out_offset mb) < unat (mb_size mb)"
    "unat (entry mb) \<le> unat (mb_size mb)"
    "unat (in_offset mb) = (unat (out_offset mb) + unat (entry mb)) mod unat (mb_size mb)"
  using assms by (simp_all add: mb_ok_def word_less_nat_alt word_le_nat_alt)

text \<open>An offset that is advanced and set back to 0 at the end of the pool.\<close>

lemma advance_offset:
  assumes "unat (i :: u16) < unat n"
  shows "unat (if n \<le> i + 1 then 0 else i + 1) = (unat i + 1) mod unat n"
proof -
  have "unat i < 65535" using assms unat_u16_lt [of n] by linarith
  then have i: "unat (i + 1) = unat i + 1" by (rule unat_suc_u16)
  show ?thesis
  proof (cases "unat i + 1 = unat n")
    case True
    then show ?thesis using i by (simp add: word_le_nat_alt)
  next
    case False
    then have "unat i + 1 < unat n" using assms by simp
    then show ?thesis using i by (simp add: word_le_nat_alt)
  qed
qed

lemma ring_distinct:
  assumes "(o' :: nat) < n" and "i < e" and "e < n"
  shows "(o' + i) mod n \<noteq> (o' + e) mod n"
proof
  assume "(o' + i) mod n = (o' + e) mod n"
  then have "n dvd (o' + e) - (o' + i)" using assms by (intro mod_eq_dvd_iff_nat [THEN iffD1]) simp_all
  then have "n dvd e - i" by simp
  then show False using assms by (simp add: nat_dvd_not_less)
qed

lemma rt_mb_send_accepts:
  assumes "mb_ok mb" and "unat (entry mb) < unat (mb_size mb)"
  shows "\<exists>t mb'. rt_mb_send self v mb = Ret (RT_EOK, t, mb') \<and> mb_ok mb'
    \<and> mb_items mb' = mb_items mb @ [v] \<and> mb_size mb' = mb_size mb
    \<and> t = (case suspend_thread mb of [] \<Rightarrow> None | x # _ \<Rightarrow> Some x)"
proof -
  note ok = mb_okD [OF assms(1)]
  let ?in = "if mb_size mb \<le> in_offset mb + 1 then 0 else in_offset mb + 1"
  define mb1 where "mb1 = mb \<lparr> msg_pool := (msg_pool mb)[unat (in_offset mb) := v],
      in_offset := ?in, entry := entry mb + 1 \<rparr>"
  have e1: "unat (entry mb + 1) = unat (entry mb) + 1"
    using assms(2) unat_u16_lt [of "mb_size mb"] by (intro unat_suc_u16) linarith
  have i1: "unat ?in = (unat (in_offset mb) + 1) mod unat (mb_size mb)"
    by (rule advance_offset [OF ok(3)])
  have "unat ?in < unat (mb_size mb)" unfolding i1 using ok(1) by simp
  moreover have "(unat (in_offset mb) + 1) mod unat (mb_size mb)
      = (unat (out_offset mb) + (unat (entry mb) + 1)) mod unat (mb_size mb)"
    unfolding ok(6) by (simp add: mod_Suc_eq)
  ultimately have okm: "mb_ok mb1"
    using assms ok e1 i1
    by (simp add: mb_ok_def mb1_def word_less_nat_alt word_le_nat_alt del: One_nat_def)
  have items: "mb_items mb1 = mb_items mb @ [v]"
    using ok e1 not_sym [OF ring_distinct [OF ok(4) _ assms(2)]]
    by (auto simp: mb_items_def mb1_def nth_list_update)
  have upd: "mb_ok (m \<lparr> suspend_thread := ts \<rparr>) = mb_ok m"
    "mb_items (m \<lparr> suspend_thread := ts \<rparr>) = mb_items m" for m ts
    by (simp_all add: mb_ok_def mb_items_def)
  have "entry mb \<noteq> mb_size mb" using assms(2) by auto
  then have "rt_mb_send self v mb = (case suspend_thread mb of
      t # ts \<Rightarrow> Ret (RT_EOK, Some t, mb1 \<lparr> suspend_thread := ts \<rparr>) | [] \<Rightarrow> Ret (RT_EOK, None, mb1))"
    using ok(2,3)
    by (auto simp: rt_mb_send_def rt_mb_send_wait_def Let_def mb1_def split: list.split)
  then show ?thesis
    using okm items by (cases "suspend_thread mb") (auto simp: upd mb1_def)
qed

lemma rt_mb_recv_takes:
  assumes "mb_ok mb" and "mb_items mb = v # vs"
  shows "\<exists>t mb'. rt_mb_recv self wait mb = Ret (RT_EOK, Some v, t, mb') \<and> mb_ok mb'
    \<and> mb_items mb' = vs \<and> mb_size mb' = mb_size mb
    \<and> t = (case suspend_sender_thread mb of [] \<Rightarrow> None | x # _ \<Rightarrow> Some x)"
proof -
  note ok = mb_okD [OF assms(1)]
  let ?out = "if mb_size mb \<le> out_offset mb + 1 then 0 else out_offset mb + 1"
  define mb1 where "mb1 = mb \<lparr> out_offset := ?out, entry := entry mb - 1 \<rparr>"
  obtain n where n: "unat (entry mb) = Suc n"
    using assms(2) length_mb_items [of mb] by (metis length_Cons)
  then have e1: "unat (entry mb - 1) = n" by (simp add: unat_diff_le word_le_nat_alt)
  have o1: "unat ?out = (unat (out_offset mb) + 1) mod unat (mb_size mb)"
    by (rule advance_offset [OF ok(4)])
  have shift: "((unat (out_offset mb) + 1) mod unat (mb_size mb) + i) mod unat (mb_size mb)
      = (unat (out_offset mb) + Suc i) mod unat (mb_size mb)" for i
    by (simp add: mod_add_left_eq)
  have "unat ?out < unat (mb_size mb)" unfolding o1 using ok(1) by simp
  then have okm: "mb_ok mb1"
    using assms(1) ok e1 n o1 shift [of n]
    by (simp add: mb_ok_def mb1_def word_less_nat_alt word_le_nat_alt del: One_nat_def)
  have "mb_items mb = msg_pool mb ! unat (out_offset mb) #
      map (\<lambda>i. msg_pool mb ! ((unat (out_offset mb) + Suc i) mod unat (mb_size mb))) [0..<n]"
    using ok(4) by (simp add: mb_items_def n upt_conv_Cons map_Suc_upt [symmetric] comp_def del: upt_Suc)
  with assms(2) have v: "v = msg_pool mb ! unat (out_offset mb)"
    and vs: "vs = map (\<lambda>i. msg_pool mb ! ((unat (out_offset mb) + Suc i) mod unat (mb_size mb))) [0..<n]"
    by simp_all
  have items: "mb_items mb1 = vs"
    unfolding vs mb_items_def using e1 o1 shift by (simp add: mb1_def del: One_nat_def)
  have upd: "mb_ok (m \<lparr> suspend_sender_thread := ts \<rparr>) = mb_ok m"
    "mb_items (m \<lparr> suspend_sender_thread := ts \<rparr>) = mb_items m" for m ts
    by (simp_all add: mb_ok_def mb_items_def)
  have "entry mb \<noteq> 0" using n by auto
  then have "rt_mb_recv self wait mb = (case suspend_sender_thread mb of
      t # ts \<Rightarrow> Ret (RT_EOK, Some v, Some t, mb1 \<lparr> suspend_sender_thread := ts \<rparr>)
    | [] \<Rightarrow> Ret (RT_EOK, Some v, None, mb1))"
    using ok(2,4) by (auto simp: rt_mb_recv_def Let_def mb1_def v split: list.split)
  then show ?thesis
    using okm items by (cases "suspend_sender_thread mb") (auto simp: upd mb1_def)
qed

text \<open>The calls as the threads make them: a send that does not wait, a receive that does.\<close>

definition mb_put :: "u32 \<Rightarrow> mailbox \<Rightarrow> bool \<times> mailbox" where
  "mb_put v mb = (case rt_mb_send 0 v mb of Ret (st, _, mb') \<Rightarrow> (st = RT_EOK, mb') | _ \<Rightarrow> (False, mb))"

definition mb_get :: "mailbox \<Rightarrow> u32 option \<times> mailbox" where
  "mb_get mb = (case rt_mb_recv 0 True mb of Ret (_, r, _, mb') \<Rightarrow> (r, mb') | _ \<Rightarrow> (None, mb))"

lemma rt_mb_send_full:
  "mb_ok mb \<Longrightarrow> unat (entry mb) = unat (mb_size mb) \<Longrightarrow> rt_mb_send self v mb = Ret (RT_EFULL, None, mb)"
  by (simp add: rt_mb_send_def rt_mb_send_wait_def word_unat_eq_iff)

lemma rt_mb_recv_empty:
  "mb_items mb = [] \<Longrightarrow> rt_mb_recv self True mb
     = Ret (Suspended, None, None, mb \<lparr> suspend_thread := suspend_thread mb @ [self] \<rparr>)"
proof -
  assume "mb_items mb = []"
  then have "unat (entry mb) = 0" by (metis length_mb_items list.size(3))
  then have "entry mb = 0" by (simp add: word_unat_eq_iff)
  then show ?thesis by (simp add: rt_mb_recv_def)
qed

interpretation mb: fifo mb_ok mb_items "\<lambda>mb. unat (mb_size mb)" mb_put mb_get
proof unfold_locales
  fix m :: mailbox and v
  assume ok: "mb_ok m"
  show "fst (mb_put v m) \<and> mb_ok (snd (mb_put v m)) \<and> mb_items (snd (mb_put v m)) = mb_items m @ [v]
      \<and> unat (mb_size (snd (mb_put v m))) = unat (mb_size m)" if "length (mb_items m) < unat (mb_size m)"
    using rt_mb_send_accepts [OF ok, of 0 v] that by (auto simp: mb_put_def)
  show "mb_put v m = (False, m)" if "length (mb_items m) = unat (mb_size m)"
    using rt_mb_send_full [OF ok] that by (simp add: mb_put_def)
  show "fst (mb_get m) = Some v \<and> mb_ok (snd (mb_get m)) \<and> mb_items (snd (mb_get m)) = vs
      \<and> unat (mb_size (snd (mb_get m))) = unat (mb_size m)" if "mb_items m = v # vs" for vs
    using rt_mb_recv_takes [OF ok that, of 0 True] by (auto simp: mb_get_def)
  have keep: "mb_ok (m \<lparr> suspend_thread := ts \<rparr>) = mb_ok m"
    "mb_items (m \<lparr> suspend_thread := ts \<rparr>) = mb_items m" for ts
    by (simp_all add: mb_ok_def mb_items_def)
  show "fst (mb_get m) = None \<and> mb_ok (snd (mb_get m)) \<and> mb_items (snd (mb_get m)) = []
      \<and> unat (mb_size (snd (mb_get m))) = unat (mb_size m)" if "mb_items m = []"
    using rt_mb_recv_empty [OF that, of 0] ok that by (simp add: mb_get_def keep)
  show "length (mb_items m) \<le> unat (mb_size m)" using mb_okD(5) [OF ok] by simp
qed

lemma rt_mb_init_ok:
  "0 < sz \<Longrightarrow> length pool = unat sz \<Longrightarrow> mb_ok (rt_mb_init pool sz) \<and> mb_items (rt_mb_init pool sz) = []"
  by (simp add: mb_ok_def rt_mb_init_def mb_items_def word_le_nat_alt)

section \<open>Properties\<close>

text \<open>
  C14. Whatever calls are made on a mailbox, the values received are the values that were
  accepted, in the order they were sent, and what was accepted and not yet received is still
  in the ring: nothing is lost, repeated or reordered.
\<close>

theorem mailbox_delivers_in_order:
  assumes "0 < sz" and "length pool = unat sz"
    and "traffic mb_put mb_get calls (rt_mb_init pool sz) = (accepted, delivered, mb')"
  shows "accepted = delivered @ mb_items mb' \<and> length (mb_items mb') \<le> unat sz"
proof -
  have init: "mb_ok (rt_mb_init pool sz)" "mb_items (rt_mb_init pool sz) = []"
    using rt_mb_init_ok [OF assms(1,2)] by simp_all
  have "unat (mb_size mb') = unat sz" "mb_ok mb'" "accepted = delivered @ mb_items mb'"
    using mb.traffic_in_order [OF init(1) assms(3)] init(2) by (simp_all add: rt_mb_init_def)
  then show ?thesis using mb.never_over [of mb'] by simp
qed

lemma mailbox_delivers_in_order_witness:
  "\<exists>mb'. traffic mb_put mb_get [Some 1, Some 2, None, Some 3] (rt_mb_init [0, 0] 2) = ([1, 2, 3], [1], mb')
    \<and> [1, 2, 3] = [1] @ mb_items mb' \<and> length (mb_items mb') \<le> unat (2 :: u16)"
proof -
  have "\<exists>mb'. traffic mb_put mb_get [Some 1, Some 2, None, Some 3] (rt_mb_init [0, 0] 2) = ([1, 2, 3], [1], mb')"
    by (simp add: mb_put_def mb_get_def rt_mb_send_def rt_mb_send_wait_def rt_mb_recv_def rt_mb_init_def
        Let_def word_le_nat_alt)
  then obtain mb' where t: "traffic mb_put mb_get [Some 1, Some 2, None, Some 3] (rt_mb_init [0, 0] 2)
      = ([1, 2, 3], [1], mb')" by blast
  show ?thesis using mailbox_delivers_in_order [OF _ _ t] t by simp
qed

end
