(* ===== verification/Gsm.thy ===== *)
theory Gsm
  imports C_String
begin

text \<open>
  The driver of the GSM module, \<open>applications/bsp_gsm.c\<close>: every command is a text sent over
  the serial port and a wait for bit 15 of \<open>USART_RX2_STA\<close>, bounded by the system tick. The
  answers of the module are the input of the model: a text that is in the receive buffer when
  the wait ends, or no answer in time.
\<close>

section \<open>State\<close>

record gsm =
  tx :: "string list"             \<comment> \<open>the texts given to \<open>usart2_senddata\<close>\<close>
  rx_buf :: string                \<comment> \<open>\<open>USART_RX2_BUF\<close> up to its NUL\<close>
  rx_sta :: u16                   \<comment> \<open>\<open>USART_RX2_STA\<close>\<close>
  replies :: "string option list" \<comment> \<open>the coming answers; \<open>None\<close> is a time-out\<close>
  heap_blocks :: nat              \<comment> \<open>256-byte blocks this function holds in the heap\<close>
  stack_overrun :: nat            \<comment> \<open>bytes \<open>sprintf\<close> wrote past the one-byte buffers\<close>
  after_1A :: string              \<comment> \<open>the bytes behind \<open>cmd_1A\<close> in memory up to a NUL\<close>

record readings =
  r_temp :: u8
  r_humi :: u8
  r_mq_int :: u8
  r_mq_dec :: u8

definition nl :: string where "nl = [CHR 0x0A]"

definition usart2_senddata :: "string \<Rightarrow> gsm \<Rightarrow> gsm" where
  "usart2_senddata s g = g \<lparr> tx := tx g @ [s] \<rparr>"

text \<open>\<open>char cmd_1A[] = {0x1A};\<close> has no NUL: what follows it in memory is sent as well.\<close>

definition cmd_1A :: "gsm \<Rightarrow> string" where
  "cmd_1A g = CHR 0x1A # after_1A g"

definition clear_buf :: "gsm \<Rightarrow> gsm" where
  "clear_buf g = g \<lparr> rx_buf := [] \<rparr>"

text \<open>\<open>while((USART_RX2_STA&0x8000)==0)\<close> with its time-out.\<close>

definition await :: "gsm \<Rightarrow> bool \<times> gsm" where
  "await g =
     (if and (rx_sta g) 0x8000 \<noteq> 0 then (True, g)
      else case replies g of
             Some t # rs \<Rightarrow> (True, g \<lparr> rx_buf := t, rx_sta := 0x8000, replies := rs \<rparr>)
           | None # rs \<Rightarrow> (False, g \<lparr> replies := rs \<rparr>)
           | [] \<Rightarrow> (False, g))"

text \<open>The exit on a time-out: \<open>rt_free(prt_backup); return;\<close>.\<close>

definition give_up :: "gsm \<Rightarrow> gsm" where
  "give_up g = g \<lparr> heap_blocks := heap_blocks g - 1 \<rparr>"

text \<open>Send, wait, and either leave or clear the flag and go on.\<close>

definition ask :: "string \<Rightarrow> (gsm \<Rightarrow> gsm) \<Rightarrow> gsm \<Rightarrow> gsm" where
  "ask s k g =
     (case await (usart2_senddata s g) of
        (True, g) \<Rightarrow> k (g \<lparr> rx_sta := 0 \<rparr>)
      | (False, g) \<Rightarrow> give_up g)"

section \<open>The contents of a message\<close>

definition sprintf1 :: "string \<Rightarrow> gsm \<Rightarrow> gsm" where
  "sprintf1 s g = g \<lparr> stack_overrun := stack_overrun g + overrun 1 s \<rparr>"

definition temp_text :: "readings \<Rightarrow> string" where
  "temp_text r = ''Temperature:'' @ dec (unat (r_temp r)) @ [CHR 0x27] @ ''C'' @ nl"

definition humi_text :: "readings \<Rightarrow> string" where
  "humi_text r = ''Humidity:'' @ dec (unat (r_humi r)) @ ''%'' @ nl"

definition mq_text :: "readings \<Rightarrow> string" where
  "mq_text r = ''M       Q:'' @ dec (unat (r_mq_int r)) @ ''.'' @ dec2 (unat (r_mq_dec r)) @ nl"

definition sms_report_status :: "readings \<Rightarrow> (gsm \<Rightarrow> gsm) \<Rightarrow> gsm \<Rightarrow> gsm" where
  "sms_report_status r k g =
     ask (temp_text r) (\<lambda>g.
       ask (humi_text r) (\<lambda>g.
         ask (mq_text r) k (sprintf1 (mq_text r) g))
       (sprintf1 (humi_text r) g))
     (sprintf1 (temp_text r) g)"

definition sms_set_ok :: "(gsm \<Rightarrow> gsm) \<Rightarrow> gsm \<Rightarrow> gsm" where
  "sms_set_ok k = ask ''set_ok'' k"

definition sms_set_Err :: "(gsm \<Rightarrow> gsm) \<Rightarrow> gsm \<Rightarrow> gsm" where
  "sms_set_Err k = ask ''set_Err'' k"

definition sms_MQ_LEAKING :: "(gsm \<Rightarrow> gsm) \<Rightarrow> gsm \<Rightarrow> gsm" where
  "sms_MQ_LEAKING k = ask ''MQ_LEAKING'' k"

definition sms_Invaiding :: "(gsm \<Rightarrow> gsm) \<Rightarrow> gsm \<Rightarrow> gsm" where
  "sms_Invaiding k = ask ''Invaiding'' k"

definition sms_On_Fire :: "(gsm \<Rightarrow> gsm) \<Rightarrow> gsm \<Rightarrow> gsm" where
  "sms_On_Fire k = ask ''On_Fire'' k"

definition tip1 :: string where
  "tip1 = ''1.Send '' @ [CHR 0x22] @ ''report status'' @ [CHR 0x22] @ ''to get sensor status.'' @ nl"
definition tip2 :: string where
  "tip2 = ''2.Send '' @ [CHR 0x22] @ ''out'' @ [CHR 0x22] @ ''to set OUT mode.'' @ nl"
definition tip3 :: string where
  "tip3 = ''3.Send '' @ [CHR 0x22] @ ''home'' @ [CHR 0x22] @ ''to set HOME mode.'' @ nl"

definition sms_tips :: "(gsm \<Rightarrow> gsm) \<Rightarrow> gsm \<Rightarrow> gsm" where
  "sms_tips k = ask (''Wrong Command!!'' @ nl) (ask tip1 (ask tip2 (ask tip3 k)))"

definition sms_content :: "u8 \<Rightarrow> readings \<Rightarrow> (gsm \<Rightarrow> gsm) \<Rightarrow> gsm \<Rightarrow> gsm" where
  "sms_content content r k =
     (if content = 11 then sms_report_status r k
      else if content = 44 then sms_set_ok k
      else if content = 55 then sms_set_Err k
      else if content = 66 then sms_MQ_LEAKING k
      else if content = 77 then sms_Invaiding k
      else if content = 99 then sms_On_Fire k
      else if content = 88 then sms_tips k
      else k)"

section \<open>\<open>GSM_SendSMS\<close>\<close>

definition at_text :: string where
  "at_text = ''AT+CSCS='' @ [CHR 0x22] @ ''GSM'' @ [CHR 0x22] @ nl"

definition at_number :: string where
  "at_number = ''AT+CMGS='' @ [CHR 0x22] @ ''17511681733'' @ [CHR 0x22] @ nl"

text \<open>The end of the function: the block is freed and the receive buffer cleared.\<close>

definition sms_release :: "gsm \<Rightarrow> gsm" where
  "sms_release g = clear_buf (give_up g)"

text \<open>
  After the text: Ctrl-Z, the wait for the confirmation, and Ctrl-Z again. Both branches of
  the test for \<open>+CMGS:\<close> send the same.
\<close>

definition sms_submit :: "gsm \<Rightarrow> gsm" where
  "sms_submit g =
     (let g = clear_buf g in
      ask (cmd_1A g) (\<lambda>g.
        (case strstr (rx_buf g) ''+CMGS: '' of
           Some _ \<Rightarrow> sms_release (usart2_senddata (cmd_1A g) g)
         | None \<Rightarrow> sms_release (usart2_senddata (cmd_1A g) g))) g)"

definition sms_prompted :: "u8 \<Rightarrow> readings \<Rightarrow> gsm \<Rightarrow> gsm" where
  "sms_prompted content r g =
     (case strstr (rx_buf g) ''> '' of
        Some _ \<Rightarrow> sms_content content r sms_submit g
      | None \<Rightarrow> sms_release (usart2_senddata (cmd_1A g) g))"

text \<open>After the answer to \<open>AT\<close>; without an \<open>OK\<close> in it the function returns at once.\<close>

definition sms_dialogue :: "u8 \<Rightarrow> readings \<Rightarrow> gsm \<Rightarrow> gsm" where
  "sms_dialogue content r g =
     (case strstr (rx_buf g) ''OK'' of
        None \<Rightarrow> g
      | Some _ \<Rightarrow>
          (let g = clear_buf (g \<lparr> rx_sta := 0 \<rparr>) in
           ask (''AT+CMGF=1'' @ nl)
             (ask at_text (ask (''AT+CNMI=2,1'' @ nl) (ask at_number (sms_prompted content r)))) g))"

text \<open>\<open>heap_ok\<close>: \<open>rt_malloc(256)\<close> succeeds.\<close>

definition GSM_SendSMS :: "bool \<Rightarrow> u8 \<Rightarrow> readings \<Rightarrow> gsm \<Rightarrow> gsm" where
  "GSM_SendSMS heap_ok content r g =
     (if \<not> heap_ok then g
      else ask (''AT'' @ nl) (sms_dialogue content r) (g \<lparr> heap_blocks := heap_blocks g + 1 \<rparr>))"

section \<open>\<open>scm800c_init\<close>\<close>

text \<open>The start-up of the module: four commands; a missing answer ends it without an error.\<close>

definition init_ask :: "string \<Rightarrow> (gsm \<Rightarrow> int \<times> gsm) \<Rightarrow> gsm \<Rightarrow> int \<times> gsm" where
  "init_ask s k g =
     (case await (usart2_senddata s g) of
        (True, g) \<Rightarrow> k (g \<lparr> rx_sta := 0 \<rparr>)
      | (False, g) \<Rightarrow> (0, g))"

definition scm800c_init :: "gsm \<Rightarrow> int \<times> gsm" where
  "scm800c_init =
     init_ask (''AT+CMGF=1'' @ nl)
       (init_ask (''AT+CMGF=1'' @ nl) (\<lambda>g.
         init_ask at_text (\<lambda>g.
           init_ask (''AT+CNMI=2,1'' @ nl) (\<lambda>g. (0, clear_buf g)) (clear_buf g))
         (clear_buf g)))"

section \<open>One question and its answer\<close>

lemma await_simps:
  "and (rx_sta g) 0x8000 = 0 \<Longrightarrow> replies g = Some t # rs \<Longrightarrow>
     await g = (True, g \<lparr> rx_buf := t, rx_sta := 0x8000, replies := rs \<rparr>)"
  "and (rx_sta g) 0x8000 = 0 \<Longrightarrow> replies g = None # rs \<Longrightarrow> await g = (False, g \<lparr> replies := rs \<rparr>)"
  "and (rx_sta g) 0x8000 \<noteq> 0 \<Longrightarrow> await g = (True, g)"
  by (simp_all add: await_def)

lemma await_keeps:
  "heap_blocks (snd (await g)) = heap_blocks g"
  "stack_overrun (snd (await g)) = stack_overrun g"
  "tx (snd (await g)) = tx g"
  by (simp_all add: await_def split: list.split option.split)

lemma ask_cases:
  obtains (answer) g' where "ask s k g = k (g' \<lparr> rx_sta := 0 \<rparr>)"
      "heap_blocks g' = heap_blocks g" "stack_overrun g' = stack_overrun g" "tx g' = tx g @ [s]"
      "await (usart2_senddata s g) = (True, g')"
  | (time_out) g' where "ask s k g = give_up g'"
      "heap_blocks g' = heap_blocks g" "stack_overrun g' = stack_overrun g" "tx g' = tx g @ [s]"
      "await (usart2_senddata s g) = (False, g')"
proof -
  obtain b g' where a: "await (usart2_senddata s g) = (b, g')" by (cases "await (usart2_senddata s g)")
  have k: "heap_blocks g' = heap_blocks g" "stack_overrun g' = stack_overrun g" "tx g' = tx g @ [s]"
    using await_keeps [of "usart2_senddata s g"] a by (simp_all add: usart2_senddata_def)
  show ?thesis
  proof (cases b)
    case True
    with a have "ask s k g = k (g' \<lparr> rx_sta := 0 \<rparr>)" by (simp add: ask_def)
    with k a True show ?thesis by (intro answer) simp_all
  next
    case False
    with a have "ask s k g = give_up g'" by (simp add: ask_def)
    with k a False show ?thesis by (intro time_out) simp_all
  qed
qed

lemma ask_answered:
  "and (rx_sta g) 0x8000 = 0 \<Longrightarrow> replies g = Some t # rs \<Longrightarrow>
     ask s k g = k (g \<lparr> tx := tx g @ [s], rx_buf := t, replies := rs, rx_sta := 0 \<rparr>)"
  by (simp add: ask_def usart2_senddata_def await_simps)

section \<open>The block of the heap\<close>

text \<open>A continuation that gives the block back on every path.\<close>

definition frees :: "(gsm \<Rightarrow> gsm) \<Rightarrow> bool" where
  "frees k \<longleftrightarrow> (\<forall>g. heap_blocks (k g) = heap_blocks g - 1)"

named_theorems frees_intros \<comment> \<open>which continuations give the block back\<close>

lemma frees_ask [frees_intros]: "frees k \<Longrightarrow> frees (ask s k)"
  unfolding frees_def
proof (intro allI)
  fix g assume k: "\<forall>g. heap_blocks (k g) = heap_blocks g - 1"
  show "heap_blocks (ask s k g) = heap_blocks g - 1"
    by (rule ask_cases [of s k g]) (simp_all add: k give_up_def)
qed

lemma frees_sprintf1 [frees_intros]: "frees k \<Longrightarrow> frees (\<lambda>g. k (sprintf1 t g))"
  by (simp add: frees_def sprintf1_def)

lemma frees_clear [frees_intros]: "frees k \<Longrightarrow> frees (\<lambda>g. k (clear_buf g))"
  by (simp add: frees_def clear_buf_def)

lemma frees_send [frees_intros]: "frees k \<Longrightarrow> frees (\<lambda>g. k (usart2_senddata (cmd_1A g) g))"
  by (simp add: frees_def usart2_senddata_def)

lemma frees_release [frees_intros]: "frees sms_release"
  by (simp add: frees_def sms_release_def clear_buf_def give_up_def)

lemma frees_submit [frees_intros]: "frees sms_submit"
proof -
  have "frees (\<lambda>g. sms_release (usart2_senddata (cmd_1A g) g))" by (intro frees_intros)
  then have "frees (ask s (\<lambda>g. sms_release (usart2_senddata (cmd_1A g) g)))" for s
    by (rule frees_ask)
  then show ?thesis
    by (simp add: frees_def sms_submit_def Let_def clear_buf_def option.case_eq_if)
qed

lemma frees_report_status [frees_intros]: "frees k \<Longrightarrow> frees (sms_report_status r k)"
  unfolding sms_report_status_def by (intro frees_intros)

lemma frees_content [frees_intros]: "frees k \<Longrightarrow> frees (sms_content c r k)"
  unfolding sms_content_def sms_set_ok_def sms_set_Err_def sms_MQ_LEAKING_def
    sms_Invaiding_def sms_On_Fire_def sms_tips_def
  by (simp add: frees_intros)

lemma frees_prompted [frees_intros]: "frees (sms_prompted c r)"
proof -
  have "frees (\<lambda>g. sms_release (usart2_senddata (cmd_1A g) g))" by (intro frees_intros)
  moreover have "frees (sms_content c r sms_submit)" by (intro frees_intros)
  ultimately show ?thesis by (auto simp: frees_def sms_prompted_def split: option.split)
qed

text \<open>What the wait for the first answer leaves in the receive buffer.\<close>

definition first_answer :: "gsm \<Rightarrow> string option" where
  "first_answer g =
     (if and (rx_sta g) 0x8000 \<noteq> 0 then Some (rx_buf g)
      else case replies g of [] \<Rightarrow> None | a # _ \<Rightarrow> a)"

lemma await_first_answer:
  "await (usart2_senddata s g) = (True, g') \<Longrightarrow> first_answer g = Some (rx_buf g')"
  "await (usart2_senddata s g) = (False, g') \<Longrightarrow> first_answer g = None"
  by (auto simp: await_def first_answer_def usart2_senddata_def
      split: if_splits list.splits option.splits)

definition refused :: "gsm \<Rightarrow> bool" where
  "refused g = (case first_answer g of None \<Rightarrow> False | Some t \<Rightarrow> strstr t ''OK'' = None)"

lemma dialogue_heap:
  "heap_blocks (sms_dialogue c r g) =
     (if strstr (rx_buf g) ''OK'' = None then heap_blocks g else heap_blocks g - 1)"
proof -
  have "frees (ask (''AT+CMGF=1'' @ nl)
     (ask at_text (ask (''AT+CNMI=2,1'' @ nl) (ask at_number (sms_prompted c r)))))"
    by (intro frees_intros)
  then show ?thesis
    by (simp add: sms_dialogue_def frees_def Let_def clear_buf_def split: option.split)
qed

text \<open>
  C21. \<open>GSM_SendSMS\<close> returns the 256-byte block it takes from the heap on every path, time-outs
  at any of its questions and missing prompts included, with one exception: when the module
  answers the first \<open>AT\<close> with a text that has no \<open>OK\<close> in it, the function returns with the
  block still taken. Every such call loses one block.
\<close>

theorem GSM_SendSMS_heap_balance:
  "heap_blocks (GSM_SendSMS heap_ok c r g) =
     heap_blocks g + (if heap_ok then if refused g then 1 else 0 else 0)"
proof (cases heap_ok)
  case True
  let ?g = "g \<lparr> heap_blocks := heap_blocks g + 1 \<rparr>"
  have fa: "first_answer ?g = first_answer g" by (simp add: first_answer_def)
  show ?thesis
  proof (rule ask_cases [of "''AT'' @ nl" "sms_dialogue c r" ?g])
    fix g' assume a: "ask (''AT'' @ nl) (sms_dialogue c r) ?g = sms_dialogue c r (g' \<lparr> rx_sta := 0 \<rparr>)"
      "heap_blocks g' = heap_blocks ?g" "await (usart2_senddata (''AT'' @ nl) ?g) = (True, g')"
    have "first_answer g = Some (rx_buf g')" using await_first_answer(1) [OF a(3)] fa by metis
    then have "refused g = (strstr (rx_buf g') ''OK'' = None)" by (simp add: refused_def)
    with a True show ?thesis by (simp add: GSM_SendSMS_def dialogue_heap)
  next
    fix g' assume a: "ask (''AT'' @ nl) (sms_dialogue c r) ?g = give_up g'"
      "heap_blocks g' = heap_blocks ?g" "await (usart2_senddata (''AT'' @ nl) ?g) = (False, g')"
    have "first_answer g = None" using await_first_answer(2) [OF a(3)] fa by metis
    then have "\<not> refused g" by (simp add: refused_def)
    with a True show ?thesis by (simp add: GSM_SendSMS_def give_up_def)
  qed
qed (simp add: GSM_SendSMS_def)

section \<open>The whole dialogue\<close>

text \<open>The text of a message, in the pieces it is sent.\<close>

definition sms_body :: "u8 \<Rightarrow> readings \<Rightarrow> string list" where
  "sms_body c r =
     (if c = 11 then [temp_text r, humi_text r, mq_text r]
      else if c = 44 then [''set_ok'']
      else if c = 55 then [''set_Err'']
      else if c = 66 then [''MQ_LEAKING'']
      else if c = 77 then [''Invaiding'']
      else if c = 99 then [''On_Fire'']
      else if c = 88 then [''Wrong Command!!'' @ nl, tip1, tip2, tip3]
      else [])"

text \<open>The overrun of the three one-byte buffers of a status report.\<close>

definition report_overrun :: "u8 \<Rightarrow> readings \<Rightarrow> nat" where
  "report_overrun c r =
     (if c = 11 then length (temp_text r) + length (humi_text r) + length (mq_text r) else 0)"

lemmas sms_bodies = sms_report_status_def sms_set_ok_def sms_set_Err_def sms_MQ_LEAKING_def
  sms_Invaiding_def sms_On_Fire_def sms_tips_def

text \<open>When every piece is answered the text is sent and the continuation runs.\<close>

lemma content_answered:
  assumes "rx_sta g = 0" "replies g = map Some ts @ rs" "length ts = length (sms_body c r)"
  shows "\<exists>b. sms_content c r k g =
           k (g \<lparr> tx := tx g @ sms_body c r, rx_buf := b, replies := rs,
                  stack_overrun := stack_overrun g + report_overrun c r \<rparr>)"
proof -
  consider "c = 11" | "c = 44 \<or> c = 55 \<or> c = 66 \<or> c = 77 \<or> c = 99" | "c = 88"
    | "c \<notin> {11, 44, 55, 66, 77, 99, 88}" by auto
  then show ?thesis
  proof cases
    case 1
    with assms obtain a b d where ts: "ts = [a, b, d]"
      by (auto simp: sms_body_def length_Suc_conv)
    with assms 1 show ?thesis
      by (intro exI [of _ d])
        (cases g, simp add: sms_content_def sms_bodies sms_body_def report_overrun_def ask_answered
          sprintf1_def overrun_def add_ac)
  next
    case 2
    then have "length (sms_body c r) = 1" by (auto simp: sms_body_def)
    with assms obtain a where ts: "ts = [a]" by (auto simp: length_Suc_conv)
    with assms 2 show ?thesis
      by (intro exI [of _ a])
        (cases g, elim disjE; simp add: sms_content_def sms_bodies sms_body_def report_overrun_def ask_answered)
  next
    case 3
    with assms obtain a b d e where ts: "ts = [a, b, d, e]"
      by (auto simp: sms_body_def length_Suc_conv)
    with assms 3 show ?thesis
      by (intro exI [of _ e])
        (cases g, simp add: sms_content_def sms_bodies sms_body_def report_overrun_def ask_answered)
  next
    case 4
    with assms show ?thesis
      by (intro exI [of _ "rx_buf g"]) (cases g, simp add: sms_content_def sms_body_def report_overrun_def)
  qed
qed

lemma submit_answered:
  assumes "rx_sta g = 0" "replies g = Some t # rs"
  shows "sms_submit g =
    sms_release (g \<lparr> tx := tx g @ [cmd_1A g, cmd_1A g], rx_buf := t, replies := rs \<rparr>)"
  using assms
  by (cases g) (simp add: sms_submit_def Let_def clear_buf_def ask_answered usart2_senddata_def cmd_1A_def
      sms_release_def give_up_def option.case_eq_if)

text \<open>
  C22. When every question is answered in time, the first answer holds \<open>OK\<close> and the fifth the
  prompt \<open>> \<close>, the texts sent are the five commands in their order, the pieces of the message
  for the given code and Ctrl-Z twice; the block is back in the heap, all answers are used, and
  a status report (code 11) has written past its three one-byte buffers by the length of the
  three texts, no other code by anything.
\<close>

theorem GSM_SendSMS_answered:
  assumes sta: "rx_sta g = 0"
    and rep: "replies g = map Some ([a1, a2, a3, a4, a5] @ ts @ [a6]) @ rs"
    and len: "length ts = length (sms_body c r)"
    and ok: "strstr a1 ''OK'' \<noteq> None" and prompt: "strstr a5 ''> '' \<noteq> None"
  shows "GSM_SendSMS True c r g =
    g \<lparr> tx := tx g @ [''AT'' @ nl, ''AT+CMGF=1'' @ nl, at_text, ''AT+CNMI=2,1'' @ nl, at_number]
              @ sms_body c r @ [cmd_1A g, cmd_1A g],
       rx_buf := [], replies := rs,
       stack_overrun := stack_overrun g + report_overrun c r \<rparr>"
proof -
  let ?cmds = "[''AT'' @ nl, ''AT+CMGF=1'' @ nl, at_text, ''AT+CNMI=2,1'' @ nl, at_number]"
  let ?h = "g \<lparr> heap_blocks := heap_blocks g + 1, tx := tx g @ ?cmds, rx_buf := a5,
                replies := map Some ts @ Some a6 # rs \<rparr>"
  have "GSM_SendSMS True c r g = sms_prompted c r ?h"
    using sta rep ok
    by (cases g) (auto simp: GSM_SendSMS_def ask_answered sms_dialogue_def Let_def clear_buf_def)
  also have "\<dots> = sms_content c r sms_submit ?h"
    using prompt by (auto simp: sms_prompted_def)
  also have "\<dots> = sms_release (?h \<lparr> tx := tx ?h @ sms_body c r @ [cmd_1A g, cmd_1A g], rx_buf := a6,
      replies := rs, stack_overrun := stack_overrun g + report_overrun c r \<rparr>)"
    using content_answered [of ?h ts "Some a6 # rs" c r sms_submit] sta len
    by (cases g) (auto simp: submit_answered cmd_1A_def)
  finally show ?thesis by (simp add: sms_release_def give_up_def clear_buf_def)
qed

lemma strstr_examples: "strstr ''OK'' ''OK'' \<noteq> None" "strstr ''> '' ''> '' \<noteq> None"
  by (simp_all add: strstr_Cons)

lemma GSM_SendSMS_answered_witness:
  "GSM_SendSMS True 44 \<lparr> r_temp = 20, r_humi = 50, r_mq_int = 0, r_mq_dec = 10 \<rparr>
     \<lparr> tx = [], rx_buf = [], rx_sta = 0,
       replies = map Some ([''OK'', ''OK'', ''OK'', ''OK'', ''> ''] @ [[]] @ [''+CMGS: 5'']) @ [],
       heap_blocks = 0, stack_overrun = 0, after_1A = [] \<rparr> =
   \<lparr> tx = [''AT'' @ nl, ''AT+CMGF=1'' @ nl, at_text, ''AT+CNMI=2,1'' @ nl, at_number]
          @ [''set_ok''] @ [[CHR 0x1A], [CHR 0x1A]],
     rx_buf = [], rx_sta = 0, replies = [], heap_blocks = 0, stack_overrun = 0, after_1A = [] \<rparr>"
  by (subst GSM_SendSMS_answered [where ts = "[[]]" and rs = "[]"])
    (use strstr_examples in \<open>simp_all add: sms_body_def report_overrun_def cmd_1A_def\<close>)

section \<open>Start-up\<close>

lemma init_ask_answered:
  "and (rx_sta g) 0x8000 = 0 \<Longrightarrow> replies g = Some t # rs \<Longrightarrow>
     init_ask s k g = k (g \<lparr> tx := tx g @ [s], rx_buf := t, replies := rs, rx_sta := 0 \<rparr>)"
  by (simp add: init_ask_def usart2_senddata_def await_simps)

lemma init_ask_silent:
  "and (rx_sta g) 0x8000 = 0 \<Longrightarrow> replies g = None # rs \<Longrightarrow>
     init_ask s k g = (0, g \<lparr> tx := tx g @ [s], replies := rs \<rparr>)"
  by (simp add: init_ask_def usart2_senddata_def await_simps)

text \<open>
  The start-up of the module sends its four commands as long as the answers come in time and
  stops after the first command without one; either way it returns 0, so the caller cannot tell a
  module that is there from one that is not.
\<close>

theorem scm800c_init_stops_at_silence:
  assumes "rx_sta g = 0" "replies g = map Some ts @ None # rs"
  shows "fst (scm800c_init g) = 0 \<and>
         tx (snd (scm800c_init g)) =
           tx g @ take (length ts + 1) [''AT+CMGF=1'' @ nl, ''AT+CMGF=1'' @ nl, at_text, ''AT+CNMI=2,1'' @ nl]"
proof -
  consider "ts = []" | a where "ts = [a]" | a b where "ts = [a, b]" | a b c where "ts = [a, b, c]"
    | a b c d us where "ts = a # b # c # d # us" by (metis list.exhaust)
  then show ?thesis
    by cases (use assms in \<open>simp_all add: scm800c_init_def init_ask_answered init_ask_silent
        clear_buf_def\<close>)
qed

lemma scm800c_init_stops_at_silence_witness:
  "tx (snd (scm800c_init \<lparr> tx = [], rx_buf = [], rx_sta = 0, replies = map Some [''OK''] @ None # [],
      heap_blocks = 0, stack_overrun = 0, after_1A = [] \<rparr>)) = [''AT+CMGF=1'' @ nl, ''AT+CMGF=1'' @ nl]"
  using scm800c_init_stops_at_silence [of "\<lparr> tx = [], rx_buf = [], rx_sta = 0,
      replies = map Some [''OK''] @ None # [], heap_blocks = 0, stack_overrun = 0, after_1A = [] \<rparr>"
      "[''OK'']" "[]"]
  by simp

end
