(* ===== verification/Sensors.thy ===== *)
theory Sensors
  imports Complex_Main Bits C_String
begin

text \<open>
  The sensors: the one-wire reader of the temperature and humidity sensor
  (\<open>applications/dht11.c\<close>), the averaging of the converter (\<open>get_aver_val\<close> and
  \<open>get_LS1_Status\<close> of \<open>applications/bsp_adc.c\<close>) and the decimals of a printed value
  (\<open>Get_decimal\<close> of \<open>applications/public.c\<close>).

  A line is the list of its levels, one per unit of \<open>delay_2us\<close>, from now on; it is high after
  the end of the list. Floating-point values are exact rationals; the rounding of the one
  product that is not exact, an average times \<open>3.3/4096\<close>, is the parameter \<open>fl\<close>.
\<close>

section \<open>The one-wire line\<close>

definition dq_in :: "bool list \<Rightarrow> bool" where
  "dq_in w = (case w of [] \<Rightarrow> True | b # _ \<Rightarrow> b)"

text \<open>
  \<open>while (DQ == level && retry < 100) { retry++; delay_2us(1); }\<close> with the number of retries
  left: 0 means that \<open>retry\<close> has reached 100.
\<close>

fun wait_level :: "bool \<Rightarrow> nat \<Rightarrow> bool list \<Rightarrow> nat \<times> bool list" where
  "wait_level lvl 0 w = (0, w)"
| "wait_level lvl (Suc n) w = (if dq_in w = lvl then wait_level lvl n (drop 1 w) else (Suc n, w))"

text \<open>1: no sensor; 0: there is one.\<close>

definition DHT11_Check :: "bool list \<Rightarrow> u8 \<times> bool list" where
  "DHT11_Check w =
     (let (n, w) = wait_level True 100 w in
      if n = 0 then (1, w)
      else let (n, w) = wait_level False 100 w in
        if n = 0 then (1, w) else (0, w))"

definition DHT11_Read_Bit :: "bool list \<Rightarrow> bool \<times> bool list" where
  "DHT11_Read_Bit w =
     (let w = snd (wait_level True 100 w);
          w = snd (wait_level False 100 w);
          w = drop 30 w
      in (dq_in w, w))"

fun read_bits :: "nat \<Rightarrow> u8 \<Rightarrow> bool list \<Rightarrow> u8 \<times> bool list" where
  "read_bits 0 dat w = (dat, w)"
| "read_bits (Suc n) dat w = (let (b, w) = DHT11_Read_Bit w in read_bits n (shift_in dat b) w)"

definition DHT11_Read_Byte :: "bool list \<Rightarrow> u8 \<times> bool list" where
  "DHT11_Read_Byte w = read_bits 8 0 w"

fun read_bytes :: "nat \<Rightarrow> bool list \<Rightarrow> u8 list \<times> bool list" where
  "read_bytes 0 w = ([], w)"
| "read_bytes (Suc n) w =
     (let (b, w) = DHT11_Read_Byte w; (bs, w) = read_bytes n w in (b # bs, w))"

text \<open>
  \<open>w\<close> is the line from the end of \<open>DHT11_Rst\<close> on; the sum is an \<open>int\<close>. The result is the value
  returned and the new \<open>temp\<close> and \<open>humi\<close>.
\<close>

definition DHT11_Read_Data :: "bool list \<Rightarrow> u8 \<times> u8 \<Rightarrow> u8 \<times> u8 \<times> u8" where
  "DHT11_Read_Data w th =
     (let (r, w) = DHT11_Check w in
      if r = 0 then
        let buf = fst (read_bytes 5 w) in
        if uint (buf ! 0) + uint (buf ! 1) + uint (buf ! 2) + uint (buf ! 3) = uint (buf ! 4)
        then (0, buf ! 2, buf ! 0)
        else (0, th)
      else (1, th))"

section \<open>The converter\<close>

text \<open>\<open>vals\<close> are the conversions; \<open>temp\<close> is a 16-bit sum, \<open>temp/time\<close> an integer division.\<close>

definition adc_sum :: "u16 list \<Rightarrow> u16" where
  "adc_sum vals = foldl (+) 0 vals"

definition get_aver_val :: "(rat \<Rightarrow> rat) \<Rightarrow> u16 list \<Rightarrow> rat" where
  "get_aver_val fl vals = fl (of_nat (unat (adc_sum vals) div length vals) * (33 / 40960))"

definition get_LS1_Status :: "(rat \<Rightarrow> rat) \<Rightarrow> u16 list \<Rightarrow> bool" where
  "get_LS1_Status fl vals \<longleftrightarrow> 5 / 2 < fl (of_nat (unat (adc_sum vals) div length vals) * (33 / 40960))"

text \<open>
  \<open>Get_decimal\<close>: the value is a float, so its product with at most 10000 is exact in double;
  \<open>x1 % x3\<close> is computed unsigned.
\<close>

definition Get_decimal :: "rat \<Rightarrow> u8 \<Rightarrow> u16" where
  "Get_decimal dt deci =
     (let deci = (if 4 < deci then 4 else deci);
          deci = (if deci < 1 then 1 else deci);
          x3 = (if deci = 1 then 10 else if deci = 2 then 100 else if deci = 3 then 1000 else 10000 :: u32);
          x1 = (if 0 \<le> dt then floor (dt * of_nat (unat x3)) else ceiling (dt * of_nat (unat x3)))
      in ucast ((word_of_int x1 :: u32) mod x3))"

section \<open>Waiting for an edge\<close>

lemma dq_in_simps [simp]: "dq_in [] = True" "dq_in (b # w) = b"
  by (simp_all add: dq_in_def)

lemma wait_level_run:
  "k \<le> n \<Longrightarrow> wait_level lvl n (replicate k lvl @ w) = wait_level lvl (n - k) w"
  by (induction k arbitrary: n) (auto simp: Suc_le_eq elim: less_imp_Suc_add[THEN exE])

lemma wait_level_edge: "dq_in w \<noteq> lvl \<Longrightarrow> wait_level lvl n w = (n, w)"
  by (cases n) simp_all

lemma wait_level_pulse:
  "k \<le> n \<Longrightarrow> dq_in w \<noteq> lvl \<Longrightarrow> wait_level lvl n (replicate k lvl @ w) = (n - k, w)"
  by (simp add: wait_level_run wait_level_edge)

lemma dq_in_replicate [simp]: "0 < l \<Longrightarrow> dq_in (replicate l b @ w) = b"
  by (cases l) simp_all

section \<open>A frame on the line\<close>

text \<open>A bit is a low pulse and a high pulse; the length of the high pulse is the bit.\<close>

definition bit_ok :: "nat \<times> nat \<Rightarrow> bool" where
  "bit_ok p \<longleftrightarrow> 30 < fst p \<and> fst p < 100 \<and> 0 < snd p \<and> snd p < 100"

fun bits_wave :: "(nat \<times> nat) list \<Rightarrow> bool list \<Rightarrow> bool list" where
  "bits_wave [] rest = rest"
| "bits_wave ((l, h) # ps) rest = replicate l False @ replicate h True @ bits_wave ps rest"

text \<open>What may be left of the pulses before the next bit.\<close>

definition bits_ahead :: "(nat \<times> nat) list \<Rightarrow> nat \<Rightarrow> bool list \<Rightarrow> bool" where
  "bits_ahead ps e w \<longleftrightarrow> (\<exists>k l. k < 100 \<and> 0 < l \<and> l < 100 \<and>
     w = replicate k True @ replicate l False @
       (case ps of [] \<Rightarrow> [] | (_, h) # ps' \<Rightarrow> replicate h True @ bits_wave ps' (replicate e False)))"

lemma next_low:
  assumes "list_all bit_ok ps" and "30 < e" and "e < 100" and "j \<le> 30"
  shows "\<exists>l. 0 < l \<and> l < 100 \<and> drop j (bits_wave ps (replicate e False)) = replicate l False @
    (case ps of [] \<Rightarrow> [] | (_, h) # ps' \<Rightarrow> replicate h True @ bits_wave ps' (replicate e False))"
proof (cases ps)
  case Nil
  then show ?thesis using assms by (intro exI [of _ "e - j"]) simp
next
  case (Cons p ps')
  obtain l h where p: "p = (l, h)" by (cases p)
  with Cons assms show ?thesis by (intro exI [of _ "l - j"]) (simp add: bit_ok_def less_imp_diff_less)
qed

lemma bits_ahead_start:
  assumes "list_all bit_ok ps" and "30 < e" and "e < 100" and "k < 100" and "j \<le> 30"
  shows "bits_ahead ps e (replicate k True @ drop j (bits_wave ps (replicate e False)))"
proof -
  obtain l where l: "0 < l" "l < 100" "drop j (bits_wave ps (replicate e False)) = replicate l False @
    (case ps of [] \<Rightarrow> [] | (_, h) # ps' \<Rightarrow> replicate h True @ bits_wave ps' (replicate e False))"
    using next_low [OF assms(1-3,5)] by blast
  show ?thesis unfolding bits_ahead_def
    by (rule exI [of _ k], rule exI [of _ l]) (simp add: l assms(4))
qed

lemma read_bit_wave:
  assumes "bits_ahead ((l, h) # ps) e w" and "list_all bit_ok ((l, h) # ps)" and "30 < e" and "e < 100"
  shows "\<exists>w'. DHT11_Read_Bit w = (30 < h, w') \<and> bits_ahead ps e w'"
proof -
  let ?rest = "bits_wave ps (replicate e False)"
  obtain k l' where kl: "k < 100" "0 < l'" "l' < 100"
    and w: "w = replicate k True @ replicate l' False @ replicate h True @ ?rest"
    using assms(1) by (auto simp: bits_ahead_def)
  have h: "0 < h" "h < 100" and ps: "list_all bit_ok ps" using assms(2) by (simp_all add: bit_ok_def)
  have "DHT11_Read_Bit w = (let w = drop 30 (replicate h True @ ?rest) in (dq_in w, w))"
    using kl h by (simp add: w DHT11_Read_Bit_def wait_level_pulse)
  then have read: "DHT11_Read_Bit w =
      (dq_in (drop 30 (replicate h True @ ?rest)), drop 30 (replicate h True @ ?rest))"
    by (simp add: Let_def)
  show ?thesis
  proof (cases "30 < h")
    case True
    then have d: "drop 30 (replicate h True @ ?rest) = replicate (h - 30) True @ drop 0 ?rest" by simp
    moreover have "bits_ahead ps e (replicate (h - 30) True @ drop 0 ?rest)"
      using bits_ahead_start [OF ps assms(3,4), of "h - 30" 0] h by simp
    ultimately show ?thesis using True read by simp
  next
    case False
    then have d: "drop 30 (replicate h True @ ?rest) = replicate 0 True @ drop (30 - h) ?rest" by simp
    have "bits_ahead ps e (replicate 0 True @ drop (30 - h) ?rest)"
      using bits_ahead_start [OF ps assms(3,4), of 0 "30 - h"] h by simp
    moreover have "\<not> dq_in (drop (30 - h) ?rest)"
      using next_low [OF ps assms(3,4), of "30 - h"] h by auto
    ultimately show ?thesis using False read d by simp
  qed
qed

lemma read_bits_wave:
  assumes "bits_ahead (ps @ qs) e w" and "list_all bit_ok (ps @ qs)" and "30 < e" and "e < 100"
  shows "\<exists>w'. read_bits (length ps) v w = (foldl shift_in v (map (\<lambda>p. 30 < snd p) ps), w')
    \<and> bits_ahead qs e w'"
  using assms
proof (induction ps arbitrary: v w)
  case Nil
  then show ?case by simp
next
  case (Cons p ps)
  obtain l h where p: "p = (l, h)" by (cases p)
  obtain w1 where w1: "DHT11_Read_Bit w = (30 < h, w1)" "bits_ahead (ps @ qs) e w1"
    using read_bit_wave [of l h "ps @ qs" e w] Cons.prems p by auto
  with Cons.IH [OF w1(2)] Cons.prems p show ?case by simp
qed

definition spells :: "(nat \<times> nat) list \<Rightarrow> u8 \<Rightarrow> bool" where
  "spells ps x \<longleftrightarrow> list_all bit_ok ps \<and> map (\<lambda>p. 30 < snd p) ps = byte_bits x"

lemma read_byte_wave:
  assumes "bits_ahead (ps @ qs) e w" and "spells ps x" and "list_all bit_ok qs" and "30 < e" and "e < 100"
  shows "\<exists>w'. DHT11_Read_Byte w = (x, w') \<and> bits_ahead qs e w'"
proof -
  have "length ps = 8" using assms(2) by (metis length_byte_bits length_map spells_def)
  moreover have "foldl shift_in (0 :: u8) (map (\<lambda>p. 30 < snd p) ps) = x"
    using assms(2) by (simp add: spells_def shift_in_byte)
  ultimately show ?thesis
    using read_bits_wave [of ps qs e w 0] assms by (simp add: DHT11_Read_Byte_def spells_def)
qed

lemma read_bytes_wave:
  assumes "list_all2 spells pss xs" and "bits_ahead (concat pss) e w" and "30 < e" and "e < 100"
  shows "fst (read_bytes (length xs) w) = xs"
  using assms
proof (induction pss xs arbitrary: w rule: list_all2_induct)
  case Nil
  then show ?case by simp
next
  case (Cons ps pss x xs)
  have "list_all bit_ok (concat pss)"
    using Cons.hyps(2) by (induction rule: list_all2_induct) (simp_all add: spells_def)
  then obtain w' where "DHT11_Read_Byte w = (x, w')" "bits_ahead (concat pss) e w'"
    using read_byte_wave [of ps "concat pss" e w x] Cons by auto
  with Cons.IH [of w'] Cons.prems show ?case by (simp add: case_prod_beta)
qed

section \<open>Averages\<close>

lemma adc_sum_nat:
  assumes "\<forall>v \<in> set vals. unat v < 4096" and "length vals \<le> 16"
  shows "unat (adc_sum vals) = sum_list (map unat vals)"
proof -
  have "length vals * 4095 < 65536" using assms(2) by simp
  have "unat (adc_sum vals) = sum_list (map unat vals) \<and> sum_list (map unat vals) \<le> length vals * 4095"
    using assms(1) \<open>length vals * 4095 < 65536\<close>
  proof (induction vals rule: rev_induct)
    case Nil
    then show ?case by (simp add: adc_sum_def)
  next
    case (snoc v vals)
    then show ?case by (auto simp: adc_sum_def unat_word_ariths)
  qed
  then show ?thesis by simp
qed

text \<open>A product of floating-point numbers has a small relative error.\<close>

definition fl_close :: "(rat \<Rightarrow> rat) \<Rightarrow> bool" where
  "fl_close fl \<longleftrightarrow> (\<forall>x \<ge> 0. \<bar>fl x - x\<bar> \<le> x / 1000000)"

lemma fl_bounds:
  assumes "fl_close fl" and "0 \<le> x"
  shows "x * (999999 / 1000000) \<le> fl x" and "fl x \<le> x * (1000001 / 1000000)"
proof -
  have "\<bar>fl x - x\<bar> \<le> x / 1000000" using assms by (simp add: fl_close_def)
  then have "fl x - x \<le> x / 1000000" "- (fl x - x) \<le> x / 1000000"
    using abs_le_D1 abs_le_D2 by blast+
  then show "x * (999999 / 1000000) \<le> fl x" and "fl x \<le> x * (1000001 / 1000000)"
    by linarith+
qed

lemma fl_below:
  assumes "fl_close fl" and "n \<le> m"
  shows "fl (of_nat n * (33 / 40960)) \<le> of_nat m * (33 / 40960) * (1000001 / 1000000)"
proof -
  have "fl (of_nat n * (33 / 40960)) \<le> of_nat n * (33 / 40960) * (1000001 / 1000000)"
    by (rule fl_bounds(2) [OF assms(1)]) simp
  also have "\<dots> \<le> of_nat m * (33 / 40960) * (1000001 / 1000000)" using assms(2) by simp
  finally show ?thesis .
qed

lemma fl_above:
  assumes "fl_close fl" and "m \<le> n"
  shows "of_nat m * (33 / 40960) * (999999 / 1000000) \<le> fl (of_nat n * (33 / 40960))"
proof -
  have "of_nat m * (33 / 40960) * (999999 / 1000000) \<le> (of_nat n * (33 / 40960) * (999999 / 1000000) :: rat)"
    using assms(2) by simp
  also have "\<dots> \<le> fl (of_nat n * (33 / 40960))" by (rule fl_bounds(1) [OF assms(1)]) simp
  finally show ?thesis .
qed

section \<open>Properties\<close>

text \<open>
  C29. A sensor that answers within the bounds of the polling loops and sends the bits of five
  bytes is read exactly: 0 is returned, and temperature and humidity become the third and the
  first byte if the fifth is the sum of the first four as an integer. The sum is not reduced
  to a byte, so a frame whose four bytes add up to 256 or more is dropped although its
  check byte is right, and a dropped frame is reported as a success.
\<close>

theorem DHT11_reads_a_frame:
  assumes shake: "a < 100" "0 < b" "b < 100" "0 < c" "c < 100"
    and bits: "list_all2 spells pss [hu, hf, te, td, ck]" and tail: "30 < e" "e < 100"
  shows "DHT11_Read_Data
      (replicate a True @ replicate b False @ replicate c True @ bits_wave (concat pss) (replicate e False)) th
    = (0, if unat hu + unat hf + unat te + unat td = unat ck then (te, hu) else th)"
proof -
  let ?w = "replicate c True @ bits_wave (concat pss) (replicate e False)"
  have "list_all bit_ok (concat pss)"
    using bits by (induction rule: list_all2_induct) (simp_all add: spells_def)
  then have "bits_ahead (concat pss) e ?w"
    using bits_ahead_start [of "concat pss" e c 0] shake tail by simp
  from read_bytes_wave [OF bits this tail] have "fst (read_bytes 5 ?w) = [hu, hf, te, td, ck]"
    by (simp add: eval_nat_numeral)
  moreover have "DHT11_Check (replicate a True @ replicate b False @ ?w) = (0, ?w)"
    using shake by (simp add: DHT11_Check_def wait_level_pulse)
  moreover have "uint hu + uint hf + uint te + uint td = uint ck \<longleftrightarrow>
      unat hu + unat hf + unat te + unat td = unat ck"
    by (simp only: uint_nat of_nat_add [symmetric] of_nat_eq_iff)
  ultimately show ?thesis by (simp add: DHT11_Read_Data_def)
qed

definition nominal :: "u8 \<Rightarrow> (nat \<times> nat) list" where
  "nominal x = map (\<lambda>b. (50, if b then 70 else 27)) (byte_bits x)"

lemma nominal_spells: "spells (nominal x) x"
  by (simp add: nominal_def spells_def bit_ok_def byte_bits_def)

lemma DHT11_reads_a_frame_witness:
  "DHT11_Read_Data (replicate 30 True @ replicate 80 False @ replicate 80 True @
      bits_wave (concat (map nominal [60, 0, 25, 0, 85])) (replicate 50 False)) (9, 9) = (0, 25, 60)
   \<and> DHT11_Read_Data (replicate 30 True @ replicate 80 False @ replicate 80 True @
      bits_wave (concat (map nominal [200, 0, 60, 0, 4])) (replicate 50 False)) (9, 9) = (0, 9, 9)"
proof
  have sp: "list_all2 spells (map nominal xs) xs" for xs
    by (induction xs) (simp_all add: nominal_spells)
  show "DHT11_Read_Data (replicate 30 True @ replicate 80 False @ replicate 80 True @
      bits_wave (concat (map nominal [60, 0, 25, 0, 85])) (replicate 50 False)) (9, 9) = (0, 25, 60)"
    using DHT11_reads_a_frame [where a = 30 and b = 80 and c = 80 and e = 50 and th = "(9, 9)"
      and pss = "map nominal [60, 0, 25, 0, 85]" and hu = 60 and hf = 0 and te = 25 and td = 0 and ck = 85,
      OF _ _ _ _ _ sp] by simp
  show "DHT11_Read_Data (replicate 30 True @ replicate 80 False @ replicate 80 True @
      bits_wave (concat (map nominal [200, 0, 60, 0, 4])) (replicate 50 False)) (9, 9) = (0, 9, 9)"
    using DHT11_reads_a_frame [where a = 30 and b = 80 and c = 80 and e = 50 and th = "(9, 9)"
      and pss = "map nominal [200, 0, 60, 0, 4]" and hu = 200 and hf = 0 and te = 60 and td = 0 and ck = 4,
      OF _ _ _ _ _ sp] by simp
qed

text \<open>
  For at most 16 conversions of 12 bits the 16-bit sum does not wrap, and the tests the
  threads make on an average \<open>q\<close> (the sum divided by the count) are, whatever the rounding of
  the floating-point product: gas is reported exactly for \<open>q >= 373\<close> (the upper limit 3.4 never
  excludes anything), fire exactly for \<open>1 <= q <= 1241\<close>, night exactly for \<open>q >= 3104\<close>.
\<close>

theorem sensor_thresholds:
  assumes fl: "fl_close fl" and vals: "\<forall>v \<in> set vals. unat v < 4096"
    and len: "0 < length vals" "length vals \<le> 16"
  defines "q \<equiv> sum_list (map unat vals) div length vals"
  shows "(get_aver_val fl vals \<le> 34 / 10 \<and> 3 / 10 \<le> get_aver_val fl vals \<longleftrightarrow> 373 \<le> q)
    \<and> (get_aver_val fl vals \<le> 1 \<and> get_aver_val fl vals \<noteq> 0 \<longleftrightarrow> 1 \<le> q \<and> q \<le> 1241)
    \<and> (get_LS1_Status fl vals \<longleftrightarrow> 3104 \<le> q)"
proof -
  have "sum_list (map unat vals) \<le> length vals * 4095"
    using sum_list_mono [of vals unat "\<lambda>_. 4095"] vals by (simp add: sum_list_triv) fastforce
  then have q: "q \<le> 4095" unfolding q_def using len(1)
    by (metis div_le_mono nonzero_mult_div_cancel_left not_less0)
  have v: "get_aver_val fl vals = fl (of_nat q * (33 / 40960))"
    "get_LS1_Status fl vals = (5 / 2 < fl (of_nat q * (33 / 40960)))"
    using adc_sum_nat [OF vals len(2)] by (simp_all add: get_aver_val_def get_LS1_Status_def q_def)
  have "q = 0 \<Longrightarrow> fl (of_nat q * (33 / 40960)) = 0"
    using fl by (auto simp: fl_close_def dest: spec [of _ 0])
  then show ?thesis
    unfolding v
    using fl_below [OF fl q] fl_below [OF fl, of q 372] fl_below [OF fl, of q 1241] fl_below [OF fl, of q 3103]
      fl_above [OF fl, of 373 q] fl_above [OF fl, of 1 q] fl_above [OF fl, of 1242 q] fl_above [OF fl, of 3104 q]
    by (cases "q = 0"; cases "q \<le> 372"; cases "q \<le> 1241"; cases "q \<le> 3103"; simp; linarith)
qed

lemma sensor_thresholds_witness:
  "get_LS1_Status (\<lambda>x. x) [3104, 3105, 3103]"
proof -
  have "fl_close (\<lambda>x. x)" by (simp add: fl_close_def)
  from sensor_thresholds [OF this, of "[3104, 3105, 3103]"] show ?thesis by simp
qed

end
