(* ===== verification/Center.thy ===== *)
theory Center
  imports Set_Time_Panel Mailbox Gsm Sensors
begin

text \<open>
  The threads of \<open>applications/main.c\<close> and the lights of \<open>applications/bsp_led.c\<close>: the system
  mode, the lamps, the curtain, the alarms and the messages, on one state. Each thread body is
  an operation that runs from one scheduling point to the next; \<open>act\<close> is one such run, and
  a history of the system is a list of actions. Outputs are the display calls, the pins and
  the radio packets; console output is left out. A thread that waits in the middle of its body
  (the alarms, the corridor lamp) keeps its position in the state.
\<close>

section \<open>State\<close>

text \<open>Where the security thread goes on after a delay.\<close>

datatype sec_pc = Sec_Start | Off_Invaiding | Off_Gas | Off_Fire

record center =
  sys_status :: u8
  curtain_status :: u8
  color_flag :: bool
  beep :: bool                       \<comment> \<open>PB8\<close>
  red_led :: bool                    \<comment> \<open>PB5; the lamp is on at 0\<close>
  ui :: panel                        \<comment> \<open>display, PE5 and clock, shared with the time panel\<close>
  gsm_mb :: mailbox                  \<comment> \<open>\<open>GSM_mq_send\<close>\<close>
  nrf_mb :: mailbox                  \<comment> \<open>\<open>IRDA_NRF2401_send\<close>\<close>
  gsm_sem :: u16                     \<comment> \<open>value of \<open>GSM_sem_read\<close>\<close>
  modem :: gsm
  sms_alive :: bool                  \<comment> \<open>\<open>GSM_read_thread\<close> has not returned\<close>
  temp :: u8
  humi :: u8
  mq :: rat
  hz :: rat
  bss_overrun :: nat                 \<comment> \<open>bytes \<open>sprintf\<close> wrote past the global text buffers\<close>
  sec_pc :: sec_pc
  lamp_wait :: bool                  \<comment> \<open>the corridor thread waits with the lamp on\<close>
  air :: "(string \<times> bool) list"     \<comment> \<open>packets given to the radio, and whether it sent them\<close>

definition HOME :: u8 where "HOME = 1"
definition OUT :: u8 where "OUT = 0"
definition GREEN :: u32 where "GREEN = 0x07E0"

definition powr_key :: u8 where "powr_key = 0xA2"
definition up :: u8 where "up = 0x62"
definition log_key :: u8 where "log_key = 0xE2"
definition left :: u8 where "left = 0x22"
definition stop :: u8 where "stop = 0x02"
definition right :: u8 where "right = 0xC2"

lemmas key_code_defs = powr_key_def up_def log_key_def left_def stop_def right_def

definition set_ok :: u32 where "set_ok = 44"
definition report_status :: u32 where "report_status = 11"
definition MQ_LEAKING :: u32 where "MQ_LEAKING = 66"
definition Invaiding :: u32 where "Invaiding = 77"
definition tips :: u32 where "tips = 88"
definition On_Fire :: u32 where "On_Fire = 99"

definition show_lcd :: "lcd_call list \<Rightarrow> center \<Rightarrow> center" where
  "show_lcd calls c = c \<lparr> ui := draw calls (ui c) \<rparr>"

text \<open>The threads ignore what \<open>rt_mb_send\<close> returns.\<close>

definition post_gsm :: "u32 \<Rightarrow> center \<Rightarrow> center" where
  "post_gsm code c = c \<lparr> gsm_mb := snd (mb_put code (gsm_mb c)) \<rparr>"

definition post_nrf :: "u8 \<Rightarrow> center \<Rightarrow> center" where
  "post_nrf key c = c \<lparr> nrf_mb := snd (mb_put (ucast key) (nrf_mb c)) \<rparr>"

section \<open>Lights\<close>

definition set_corridor :: "bool \<Rightarrow> center \<Rightarrow> center" where
  "set_corridor level c = c \<lparr> ui := (ui c) \<lparr> green_led := level \<rparr> \<rparr>"

text \<open>\<open>BEDROOM_LIGHT\<close> and \<open>LIVINGROOM_LIGHT\<close> are both \<open>RED_LED\<close>.\<close>

definition Light_Control :: "u8 \<Rightarrow> center \<Rightarrow> center" where
  "Light_Control val c =
     (if val = 1 then
        (let c = c \<lparr> red_led := \<not> red_led c \<rparr> in
         if red_led c
         then show_lcd [Point_Color BLACK, Show_String 0 236 200 16 16 ''Bedroom    Light:     OFF''] c
         else show_lcd [Point_Color RED, Show_String 0 236 200 16 16 ''Bedroom    Light:     ON ''] c)
      else if val = 2 then
        (let c = c \<lparr> red_led := \<not> red_led c \<rparr> in
         if red_led c
         then show_lcd [Point_Color BLACK, Show_String 0 254 200 16 16 ''Livingroom Light:     OFF''] c
         else show_lcd [Point_Color RED, Show_String 0 254 200 16 16 ''Livingroom Light:     ON ''] c)
      else if val = 3 then
        (if green_led (ui c)
         then show_lcd [Point_Color RED, Show_String 0 272 200 16 16 ''Corridor   Light:     ON '']
                (set_corridor False c)
         else show_lcd [Point_Color BLACK, Show_String 0 272 200 16 16 ''Corridor   Light:     OFF'']
                (set_corridor True c))
      else c)"

section \<open>Mode and keys\<close>

definition toggle_mode :: "u16 \<Rightarrow> center \<Rightarrow> center" where
  "toggle_mode width c =
     (if sys_status c = HOME
      then (show_lcd [Point_Color RED, Show_String (width - 95) 58 200 24 24 '' OUT  ''] c) \<lparr> sys_status := OUT \<rparr>
      else (show_lcd [Point_Color GREEN, Show_String (width - 95) 58 200 24 24 '' Home ''] c) \<lparr> sys_status := HOME \<rparr>)"

definition irda_key :: "u16 \<Rightarrow> u8 \<Rightarrow> center \<Rightarrow> center" where
  "irda_key width key c =
     (if key = powr_key then toggle_mode width c
      else if key = up then Light_Control 2 c
      else if key = log_key then Light_Control 3 c
      else if key = left then post_nrf left c
      else if key = stop then post_nrf stop c
      else if key = right then post_nrf right c
      else c)"

text \<open>
  \<open>scans\<close> are the values \<open>Remote_Scan\<close> returns; the key acts when it is released. \<open>None\<close>: it is
  still held after the last of them.
\<close>

fun released :: "u8 \<Rightarrow> u8 list \<Rightarrow> bool" where
  "released key [] = False"
| "released key (s # ss) = (s \<noteq> key \<or> released key ss)"

definition IRDA_thread :: "u16 \<Rightarrow> u8 list \<Rightarrow> center \<Rightarrow> center option" where
  "IRDA_thread width scans c =
     (case scans of
        [] \<Rightarrow> None
      | key # ss \<Rightarrow>
          if key = 0 then Some c
          else if released key ss then Some (irda_key width key c)
          else None)"

section \<open>Curtain\<close>

definition packet :: "char \<Rightarrow> string" where
  "packet ch = CHR '' '' # ch # replicate 30 CHR '' ''"

definition nrf_open :: "bool \<Rightarrow> center \<Rightarrow> center" where
  "nrf_open sent c =
     (let c = c \<lparr> air := air c @ [(packet CHR ''8'', sent)] \<rparr> in
      if sent then
        (show_lcd [Point_Color RED, Show_String 80 290 200 16 16 ''OPEN'',
                   Point_Color BLACK, Show_String 80 290 200 16 16 ''OPEN'',
                   Point_Color BLACK, Show_String 184 290 200 16 16 ''K/T''] c)
          \<lparr> color_flag := False, curtain_status := 1 \<rparr>
      else c)"

definition nrf_close :: "bool \<Rightarrow> center \<Rightarrow> center" where
  "nrf_close sent c =
     (let c = c \<lparr> air := air c @ [(packet CHR ''9'', sent)] \<rparr> in
      if sent then
        (show_lcd [Point_Color RED, Show_String 128 290 200 16 16 ''CLOSE'',
                   Point_Color BLACK, Show_String 128 290 200 16 16 ''CLOSE'',
                   Point_Color BLACK, Show_String 184 290 200 16 16 ''K/T''] c)
          \<lparr> color_flag := False, curtain_status := 0 \<rparr>
      else c)"

definition nrf_stop :: "bool \<Rightarrow> center \<Rightarrow> center" where
  "nrf_stop sent c =
     (let c = c \<lparr> air := air c @ [(packet CHR ''7'', sent)] \<rparr> in
      if sent then
        (if \<not> color_flag c
         then (show_lcd [Point_Color RED, Show_String 184 290 200 16 16 ''K/T''] c) \<lparr> color_flag := True \<rparr>
         else (show_lcd [Point_Color BLACK, Show_String 184 290 200 16 16 ''K/T''] c) \<lparr> color_flag := False \<rparr>)
      else c)"

text \<open>\<open>sent\<close>: \<open>NRF24L01_TxPacket\<close> returns \<open>TX_OK\<close>. The red pin is inverted and then set.\<close>

definition nrf_command :: "bool \<Rightarrow> u8 \<Rightarrow> center \<Rightarrow> center" where
  "nrf_command sent key c =
     (let c = c \<lparr> red_led := \<not> red_led c \<rparr>;
          c = (if key = left then nrf_open sent c
               else if key = right then nrf_close sent c
               else if key = stop then nrf_stop sent c
               else c)
      in c \<lparr> red_led := True \<rparr>)"

definition NRF2401_thread :: "bool \<Rightarrow> center \<Rightarrow> center" where
  "NRF2401_thread sent c =
     (case mb_get (nrf_mb c) of
        (Some v, mb) \<Rightarrow> nrf_command sent (ucast v) (c \<lparr> nrf_mb := mb \<rparr>)
      | (None, mb) \<Rightarrow> c \<lparr> nrf_mb := mb \<rparr>)"

section \<open>Messages\<close>

definition readings_of :: "center \<Rightarrow> readings" where
  "readings_of c = \<lparr> r_temp = temp c, r_humi = humi c,
     r_mq_int = of_int (floor (mq c)), r_mq_dec = ucast (Get_decimal (mq c) 2) \<rparr>"

definition GSM_send_thread :: "bool \<Rightarrow> center \<Rightarrow> center" where
  "GSM_send_thread heap_ok c =
     (case mb_get (gsm_mb c) of
        (Some v, mb) \<Rightarrow>
          c \<lparr> gsm_mb := mb, modem := GSM_SendSMS heap_ok (ucast v) (readings_of c) (modem c) \<rparr>
      | (None, mb) \<Rightarrow> c \<lparr> gsm_mb := mb \<rparr>)"

definition GSM_thread :: "center \<Rightarrow> center" where
  "GSM_thread c =
     (if and (rx_sta (modem c)) 0x8000 \<noteq> 0
      then c \<lparr> modem := (modem c) \<lparr> rx_sta := 0 \<rparr>, gsm_sem := gsm_sem c + 1 \<rparr>
      else c)"

text \<open>A time-out: the block is freed and the thread function returns.\<close>

definition sms_stop :: "center \<Rightarrow> center" where
  "sms_stop c = c \<lparr> modem := give_up (modem c), sms_alive := False \<rparr>"

text \<open>A command to the module and the wait for its answer, with the flag cleared.\<close>

definition sms_ask :: "string \<Rightarrow> (center \<Rightarrow> center) \<Rightarrow> center \<Rightarrow> center" where
  "sms_ask s k c =
     (case await (usart2_senddata s (modem c)) of
        (True, g) \<Rightarrow> k (c \<lparr> modem := g \<lparr> rx_sta := 0 \<rparr> \<rparr>)
      | (False, g) \<Rightarrow> sms_stop (c \<lparr> modem := g \<rparr>))"

definition sms_set_mode :: "u16 \<Rightarrow> u8 \<Rightarrow> u32 \<Rightarrow> string \<Rightarrow> center \<Rightarrow> center" where
  "sms_set_mode width mode colour label c =
     (let c = c \<lparr> sys_status := mode \<rparr>;
          c = show_lcd [Point_Color colour, Show_String (width - 95) 58 200 24 24 label] c;
          c = c \<lparr> beep := False, red_led := True \<rparr>
      in if sys_status c = mode then post_gsm set_ok c else post_gsm 55 c)"

text \<open>The tests for a command in the text of the message, in their order.\<close>

definition sms_dispatch :: "u16 \<Rightarrow> center \<Rightarrow> center" where
  "sms_dispatch width c =
     (let text = rx_buf (modem c) in
      if strstr text ''report status'' \<noteq> None then post_gsm report_status c
      else if strstr text ''home'' \<noteq> None then sms_set_mode width HOME GREEN '' Home '' c
      else if strstr text ''out'' \<noteq> None then sms_set_mode width OUT RED '' OUT '' c
      else post_gsm tips c)"

text \<open>\<open>LOOP:\<close> the receive buffer is cleared and the block is freed.\<close>

definition sms_done :: "center \<Rightarrow> center" where
  "sms_done c = c \<lparr> modem := sms_release (modem c) \<rparr>"

definition sms_fetch :: "u16 \<Rightarrow> string \<Rightarrow> center \<Rightarrow> center" where
  "sms_fetch width index c =
     (let cmd = ''AT+CMGR='' @ index @ nl @ nl;
          c = c \<lparr> modem := clear_buf (sprintf1 cmd ((modem c) \<lparr> rx_sta := 0 \<rparr>)) \<rparr>
      in sms_ask cmd (\<lambda>c. sms_ask cmd (\<lambda>c. sms_done (sms_dispatch width c))
           (c \<lparr> modem := clear_buf (modem c) \<rparr>)) c)"

text \<open>
  From \<open>loop:\<close> on. The index is the text from the thirteenth character of \<open>+CMTI:\<close> on, compared
  with \<open>99\<close> as text; after the deletion of all messages the loop looks at the buffer again.
\<close>

function sms_loop :: "u16 \<Rightarrow> center \<Rightarrow> center" where
  "sms_loop width c =
     (case strstr (rx_buf (modem c)) ''+CMTI:'' of
        None \<Rightarrow> sms_done c
      | Some pt \<Rightarrow>
          (let index = drop 12 pt; c = c \<lparr> modem := sprintf1 index (modem c) \<rparr> in
           if 0 \<le> strcmp index ''99'' then
             (case await (usart2_senddata (''AT+CMGD=1,4'' @ nl) (modem c)) of
                (True, g) \<Rightarrow> sms_loop width (c \<lparr> modem := g \<lparr> rx_sta := 0 \<rparr> \<rparr>)
              | (False, g) \<Rightarrow> sms_stop (c \<lparr> modem := g \<rparr>))
           else sms_fetch width index c))"
  by pat_completeness auto
termination
  by (relation "measure (\<lambda>(_, c). 2 * length (replies (modem c)) +
      (if and (rx_sta (modem c)) 0x8000 = 0 then 0 else 1))")
    (auto simp: await_def usart2_senddata_def sprintf1_def split: if_splits list.splits option.splits)

declare sms_loop.simps [simp del]

text \<open>One turn after the semaphore is taken; \<open>heap_ok\<close>: \<open>rt_malloc(256)\<close> succeeds.\<close>

definition GSM_read_thread :: "u16 \<Rightarrow> bool \<Rightarrow> center \<Rightarrow> center" where
  "GSM_read_thread width heap_ok c =
     (if \<not> sms_alive c \<or> gsm_sem c = 0 then c
      else
        let c = c \<lparr> gsm_sem := gsm_sem c - 1 \<rparr> in
        if \<not> heap_ok then c \<lparr> sms_alive := False \<rparr>
        else sms_loop width (c \<lparr> modem := (modem c) \<lparr> heap_blocks := heap_blocks (modem c) + 1 \<rparr> \<rparr>))"

section \<open>Security\<close>

definition alarm_on :: "u32 \<Rightarrow> sec_pc \<Rightarrow> center \<Rightarrow> center" where
  "alarm_on code pc c = (post_gsm code c) \<lparr> beep := True, red_led := False, sec_pc := pc \<rparr>"

definition alarm_off :: "center \<Rightarrow> center" where
  "alarm_off c = c \<lparr> beep := False, red_led := True, sec_pc := Sec_Start \<rparr>"

text \<open>The three tests; a test that fires ends the step at its delay.\<close>

definition gas_alarm :: "rat \<Rightarrow> bool" where
  "gas_alarm v \<longleftrightarrow> v \<le> 34 / 10 \<and> 3 / 10 \<le> v"

definition fire_alarm :: "rat \<Rightarrow> bool" where
  "fire_alarm v \<longleftrightarrow> v \<le> 1 \<and> v \<noteq> 0"

definition check_fire :: "center \<Rightarrow> center" where
  "check_fire c = (if fire_alarm (hz c) then alarm_on On_Fire Off_Fire c else c)"

definition check_gas :: "center \<Rightarrow> center" where
  "check_gas c =
     (if gas_alarm (mq c) then alarm_on MQ_LEAKING Off_Gas c else check_fire c)"

definition check_intruder :: "bool \<Rightarrow> center \<Rightarrow> center" where
  "check_intruder presence c =
     (if sys_status c = OUT \<and> presence then alarm_on Invaiding Off_Invaiding c else check_gas c)"

definition security_thread :: "bool \<Rightarrow> center \<Rightarrow> center" where
  "security_thread presence c =
     (case sec_pc c of
        Sec_Start \<Rightarrow> check_intruder presence c
      | Off_Invaiding \<Rightarrow> check_gas (alarm_off c)
      | Off_Gas \<Rightarrow> check_fire (alarm_off c)
      | Off_Fire \<Rightarrow> alarm_off c)"

section \<open>Corridor lamp and sensors\<close>

definition Corridor_Light_thread :: "bool \<Rightarrow> bool \<Rightarrow> center \<Rightarrow> center" where
  "Corridor_Light_thread night presence c =
     (if lamp_wait c then
        (show_lcd [Point_Color BLACK, Show_String 0 272 200 16 16 ''Corridor   Light:     OFF'']
           (set_corridor True c)) \<lparr> lamp_wait := False \<rparr>
      else if sys_status c = HOME then
        (if night then
           if presence then
             (show_lcd [Show_String 0 272 200 16 16 ''Corridor   Light:     ON '']
                (set_corridor False (show_lcd [Point_Color RED] c))) \<lparr> lamp_wait := True \<rparr>
           else c
         else c)
      else if sys_status c = OUT then
        show_lcd [Point_Color BLACK, Show_String 0 272 200 16 16 ''Corridor   Light:     OFF''] c
      else c)"

definition sprintf_bss :: "string \<Rightarrow> center \<Rightarrow> center" where
  "sprintf_bss s c = c \<lparr> bss_overrun := bss_overrun c + overrun 1 s \<rparr>"

text \<open>A value with its colour.\<close>

definition show_value :: "bool \<Rightarrow> u16 \<Rightarrow> string \<Rightarrow> center \<Rightarrow> center" where
  "show_value good y text c =
     show_lcd [Point_Color (if good then GREEN else RED), Show_String 105 y 200 16 16 text]
       (sprintf_bss text c)"

definition volts_text :: "rat \<Rightarrow> string" where
  "volts_text v = dec (unat (of_int (floor v) :: u8)) @ ''.'' @ dec2 (unat (ucast (Get_decimal v 2) :: u8))"

text \<open>The conversions for gas and fire and the line of the DHT11 are the inputs.\<close>

definition Get_Sensor_Status_thread ::
    "(rat \<Rightarrow> rat) \<Rightarrow> bool list \<Rightarrow> u16 list \<Rightarrow> u16 list \<Rightarrow> center \<Rightarrow> center" where
  "Get_Sensor_Status_thread fl line mqs hzs c =
     (let (_, t, h) = DHT11_Read_Data line (temp c, humi c);
          c = c \<lparr> temp := t, humi := h \<rparr>;
          c = show_value (23 \<le> t \<and> t \<le> 27) 124 (dec (unat t) @ [CHR 0x27] @ ''C'') c;
          c = show_value (45 \<le> h \<and> h \<le> 65) 142 (dec (unat h) @ ''%'') c;
          c = c \<lparr> mq := get_aver_val fl mqs \<rparr>;
          c = show_value (\<not> 3 / 10 \<le> mq c) 176 (volts_text (mq c)) c;
          c = c \<lparr> hz := get_aver_val fl hzs \<rparr>
      in show_value (1 \<le> hz c) 158 (volts_text (hz c)) c)"

section \<open>Touch\<close>

text \<open>The areas other than \<open>TIME\<close>, tested one after the other on \<open>tp_dev.x[0]\<close> and \<open>tp_dev.y[0]\<close>.\<close>

definition touch_areas :: "u16 \<Rightarrow> u16 \<Rightarrow> u16 \<Rightarrow> center \<Rightarrow> center" where
  "touch_areas width x y c =
     (let c = on_cond (MODE x y) (toggle_mode width) c;
          c = on_cond (Bedroom_Light width x y) (Light_Control 1) c;
          c = on_cond (Livingroom_Light width x y) (Light_Control 2) c;
          c = on_cond (Corridor_Light width x y) (Light_Control 3) c;
          c = on_cond (Curtain_CLOSE x y) (post_nrf right) c;
          c = on_cond (Curtain_OPEN x y) (post_nrf left) c
      in on_cond (Curtain_KT x y) (post_nrf stop) c)"

text \<open>
  A press at \<open>x\<close>, \<open>y\<close>. The scans of the time panel overwrite \<open>tp_dev\<close>: after \<open>Set_Time\<close> the
  other areas are tested on the last point it scanned. \<open>False\<close>: the panel is still open.
\<close>

definition touch_thread ::
    "u16 \<Rightarrow> u16 \<Rightarrow> u16 \<Rightarrow> u16 \<Rightarrow> sample list \<Rightarrow> center \<Rightarrow> (bool \<times> center) cres" where
  "touch_thread width height x y samples c =
     (if \<not> (x < width \<and> y < height) then Ret (True, c)
      else if TIME x y then
        cbind (Set_Time width height samples ((ui c) \<lparr> rtc_irq := False \<rparr>)) (\<lambda>(quit, p, rest).
          let c = c \<lparr> ui := p \<rparr>; s = last (take (length samples - length rest) samples)
          in if quit then Ret (True, touch_areas width (sx s) (sy s) c) else Ret (False, c))
      else Ret (True, touch_areas width x y c))"

end
