(* ===== verification/Web_Cgi.thy ===== *)
theory Web_Cgi
  imports Center
begin

text \<open>
  The web pages of the controller
  (\<open>rt-thread/components/net/lwip-1.4.1/lwip_app/web_server_demo/\<close>): the handlers of
  \<open>httpd_cgi_ssi.c\<close> for the forms (lights, beeper, mode) and for the values inserted in the
  pages, and the read-only file system \<open>fs.c\<close> with the names of \<open>fsdata.c\<close> the answered page is
  opened in. The parameters of a request are the list of names and values the server parsed.
\<close>

section \<open>Beeper\<close>

text \<open>\<open>beep_warning\<close> (\<open>applications/beep.c\<close>): fifty pulses, each ends with both pins switched back.\<close>

definition beep_pulse :: "center \<Rightarrow> center" where
  "beep_pulse c = (let c = c \<lparr> beep := True, red_led := False \<rparr> in c \<lparr> beep := False, red_led := True \<rparr>)"

fun beep_loop :: "nat \<Rightarrow> center \<Rightarrow> center" where
  "beep_loop 0 c = c"
| "beep_loop (Suc i) c = beep_loop i (beep_pulse c)"

definition beep_warning :: "center \<Rightarrow> center" where
  "beep_warning c = beep_loop 50 c"

section \<open>Forms\<close>

type_synonym params = "(string \<times> string) list"

fun find_from :: "int \<Rightarrow> string \<Rightarrow> params \<Rightarrow> int" where
  "find_from i key [] = -1"
| "find_from i key ((p, v) # ps) = (if strcmp key p = 0 then i else find_from (i + 1) key ps)"

definition FindCGIParameter :: "string \<Rightarrow> params \<Rightarrow> int" where
  "FindCGIParameter = find_from 0"

text \<open>The page for the mode and the pins; the three handlers end with the same tests.\<close>

definition state_is :: "u8 \<Rightarrow> bool \<Rightarrow> bool \<Rightarrow> bool \<Rightarrow> center \<Rightarrow> bool" where
  "state_is mode b r g c \<longleftrightarrow> sys_status c = mode \<and> beep c = b \<and> red_led c = r \<and> green_led (ui c) = g"

definition cgi_page :: "center \<Rightarrow> string" where
  "cgi_page c =
     (if state_is OUT False True True c then ''/alloff.shtml''
      else if state_is HOME True False False c then ''/allon.shtml''
      else if state_is OUT False False True c then ''/bedroomon.shtml''
      else if state_is OUT False False False c then ''/bedroomon_corridoron.shtml''
      else if state_is OUT True True True c then ''/beepon.shtml''
      else if state_is OUT True False True c then ''/beepon_Bedroomon.shtml''
      else if state_is OUT True False False c then ''/beepon_bedroomon_corridoron.shtml''
      else if state_is OUT True True False c then ''/beepon_corridoron.shtml''
      else if state_is OUT False True False c then ''/corridoron.shtml''
      else if state_is HOME False True True c then ''/modehome.shtml''
      else if state_is HOME False False True c then ''/modehome_bedroomon.shtml''
      else if state_is HOME False False False c then ''/modehome_bedroomon_corridoron.shtml''
      else if state_is HOME True True True c then ''/modehome_beepon.shtml''
      else if state_is HOME True False True c then ''/modehome_beepon_bedroomon.shtml''
      else if state_is HOME True True False c then ''/modehome_beepon_corridoron.shtml''
      else if state_is HOME False True False c then ''/modehome_corridoron.shtml''
      else ''/404.html'')"

definition leds_param :: "string \<times> string \<Rightarrow> center \<Rightarrow> center" where
  "leds_param pv c =
     (let (p, v) = pv;
          c = (if strcmp p ''light'' = 0 then
                 if strcmp v ''Bedroom_lightON'' = 0 then
                   show_lcd [Point_Color RED, Show_String 0 236 200 16 16 ''Bedroom    Light:     ON '']
                     (c \<lparr> red_led := False \<rparr>)
                 else if strcmp v ''Bedroom_lightOFF'' = 0 then
                   show_lcd [Point_Color BLACK, Show_String 0 236 200 16 16 ''Bedroom    Light:     OFF'']
                     (c \<lparr> red_led := True \<rparr>)
                 else c
               else c)
      in if strcmp p ''light'' = 0 then
           if strcmp v ''Corridor_lightON'' = 0 then
             show_lcd [Point_Color RED, Show_String 0 272 200 16 16 ''Corridor   Light:     ON '']
               (set_corridor False c)
           else if strcmp v ''Corridor_lightOFF'' = 0 then
             show_lcd [Point_Color BLACK, Show_String 0 272 200 16 16 ''Corridor   Light:     OFF'']
               (set_corridor True c)
           else c
         else c)"

definition LEDS_CGI_Handler :: "params \<Rightarrow> center \<Rightarrow> string \<times> center" where
  "LEDS_CGI_Handler ps c =
     (let c = (if FindCGIParameter ''light'' ps \<noteq> -1 then foldl (\<lambda>c pv. leds_param pv c) c ps else c)
      in (cgi_page c, c))"

definition beep_param :: "string \<times> string \<Rightarrow> center \<Rightarrow> center" where
  "beep_param pv c =
     (let (p, v) = pv in
      if strcmp p ''BEEP'' = 0 then
        if strcmp v ''BEEPON'' = 0 then beep_warning c
        else if strcmp v ''BEEPOFF'' = 0 then c \<lparr> beep := False \<rparr>
        else c
      else c)"

definition BEEP_CGI_Handler :: "params \<Rightarrow> center \<Rightarrow> string \<times> center" where
  "BEEP_CGI_Handler ps c =
     (let c = (if FindCGIParameter ''BEEP'' ps \<noteq> -1
               then foldl (\<lambda>c pv. beep_param pv c) (c \<lparr> beep := False \<rparr>) ps else c)
      in (cgi_page c, c))"

definition mode_param :: "u16 \<Rightarrow> string \<times> string \<Rightarrow> center \<Rightarrow> center" where
  "mode_param width pv c =
     (let (p, v) = pv in
      if strcmp p ''Mode'' = 0 then
        if strcmp v ''Home'' = 0 then
          show_lcd [Point_Color GREEN, Show_String (width - 95) 58 200 24 24 '' Home '']
            (c \<lparr> sys_status := HOME \<rparr>)
        else if strcmp v ''Out'' = 0 then
          show_lcd [Point_Color RED, Show_String (width - 95) 58 200 24 24 '' OUT  '']
            (c \<lparr> sys_status := OUT \<rparr>)
        else c
      else c)"

definition MODE_CGI_Handler :: "u16 \<Rightarrow> params \<Rightarrow> center \<Rightarrow> string \<times> center" where
  "MODE_CGI_Handler width ps c =
     (let c = (if FindCGIParameter ''Mode'' ps \<noteq> -1 then foldl (\<lambda>c pv. mode_param width pv c) c ps else c)
      in (cgi_page c, c))"

text \<open>\<open>ppcURLs\<close>: the three forms and their handlers.\<close>

definition ppcURLs :: "u16 \<Rightarrow> (string \<times> (params \<Rightarrow> center \<Rightarrow> string \<times> center)) list" where
  "ppcURLs width =
     [(''/leds.cgi'', LEDS_CGI_Handler), (''/beep.cgi'', BEEP_CGI_Handler),
      (''/mode.cgi'', MODE_CGI_Handler width)]"

section \<open>Values in the pages\<close>

text \<open>
  The handlers write single characters from the start of \<open>pcInsert\<close>, with no NUL after them;
  \<open>chr\<close> is \<open>(char)(d + 0x30)\<close>.
\<close>

definition chr :: "u16 \<Rightarrow> char" where
  "chr d = char_of (unat (ucast d + 0x30 :: u8))"

definition put_chars :: "string \<Rightarrow> string \<Rightarrow> string" where
  "put_chars s buf = s @ drop (length s) buf"

definition Temperate_Handler :: "u8 \<Rightarrow> string \<Rightarrow> string" where
  "Temperate_Handler t = put_chars [chr (ucast (t div 10)), chr (ucast (t mod 10))]"

definition Humidity_Handler :: "u8 \<Rightarrow> string \<Rightarrow> string" where
  "Humidity_Handler h = put_chars [chr (ucast (h div 10)), chr (ucast (h mod 10))]"

text \<open>The digits of a value in hundredths of a volt, as the three voltage handlers find them.\<close>

definition volt_digits :: "u16 \<Rightarrow> u16 \<times> u16 \<times> u16" where
  "volt_digits v =
     (if v < 10 then (0, 0, v)
      else if v < 100 then (0, v div 10, v mod 10)
      else if 100 < v then (v div 100, v mod 100 div 10, v mod 10)
      else (0, 0, 0))"

definition volt_chars :: "u16 \<Rightarrow> string" where
  "volt_chars v = (let (d1, d2, d3) = volt_digits v in [chr d1, CHR ''.'', chr d2, chr d3])"

text \<open>\<open>fl\<close> rounds the product with 100; the result is truncated to \<open>uint16_t\<close>.\<close>

definition hundredths :: "(rat \<Rightarrow> rat) \<Rightarrow> rat \<Rightarrow> u16" where
  "hundredths fl v = of_int (floor (fl (v * 100)))"

definition Fire_Handler :: "(rat \<Rightarrow> rat) \<Rightarrow> u16 list \<Rightarrow> string \<Rightarrow> string" where
  "Fire_Handler fl hzs = put_chars (volt_chars (hundredths fl (get_aver_val fl hzs)))"

definition MQ_Handler :: "(rat \<Rightarrow> rat) \<Rightarrow> u16 list \<Rightarrow> string \<Rightarrow> string" where
  "MQ_Handler fl mqs = put_chars (volt_chars (hundredths fl (get_aver_val fl mqs)))"

definition Light_sensor_Handler :: "(rat \<Rightarrow> rat) \<Rightarrow> rat \<Rightarrow> string \<Rightarrow> string" where
  "Light_sensor_Handler fl ls = put_chars (volt_chars (hundredths fl ls))"

definition RTCTime_Handler :: "calendar_obj \<Rightarrow> string \<Rightarrow> string" where
  "RTCTime_Handler cal =
     (let hour = c_hour cal; min = c_min cal; sec = c_sec cal in
      put_chars [chr (ucast (hour div 10)), chr (ucast (hour mod 10)), CHR '':'',
                 chr (ucast (min div 10)), chr (ucast (min mod 10)), CHR '':'',
                 chr (ucast (sec div 10)), chr (ucast (sec mod 10))])"

definition RTCdate_Handler :: "calendar_obj \<Rightarrow> string \<Rightarrow> string" where
  "RTCdate_Handler cal =
     (let year = w_year cal; month = ucast (w_month cal) :: u16; date = ucast (w_date cal) :: u16;
          week = ucast (c_week cal) :: u16 in
      put_chars ([CHR ''2'', CHR ''0'', chr (year mod 100 div 10), chr (year mod 10), CHR ''-'',
                  chr (month div 10), chr (month mod 10), CHR ''-'', chr (date div 10), chr (date mod 10)]
                 @ '' week:'' @ [chr week]))"

record web_values =
  v_temp :: u8
  v_humi :: u8
  v_fire :: "u16 list"   \<comment> \<open>the conversions of \<open>get_aver_val(5,HZ)\<close>\<close>
  v_gas :: "u16 list"    \<comment> \<open>the conversion of \<open>get_aver_val(1,MQ)\<close>\<close>
  v_light :: rat         \<comment> \<open>\<open>LS1_VAL\<close>\<close>
  v_cal :: calendar_obj

text \<open>\<open>strlen(pcInsert)\<close>: the characters before the first NUL of the buffer.\<close>

definition SSIHandler :: "(rat \<Rightarrow> rat) \<Rightarrow> int \<Rightarrow> web_values \<Rightarrow> string \<Rightarrow> nat \<times> string" where
  "SSIHandler fl i w buf =
     (let buf = (if i = 0 then Temperate_Handler (v_temp w) buf
                 else if i = 1 then Humidity_Handler (v_humi w) buf
                 else if i = 2 then Fire_Handler fl (v_fire w) buf
                 else if i = 3 then MQ_Handler fl (v_gas w) buf
                 else if i = 4 then Light_sensor_Handler fl (v_light w) buf
                 else if i = 5 then RTCTime_Handler (v_cal w) buf
                 else if i = 6 then RTCdate_Handler (v_cal w) buf
                 else buf)
      in (length (takeWhile (\<lambda>ch. ch \<noteq> CHR 0x00) buf), buf))"

section \<open>Files\<close>

text \<open>The list that starts at \<open>FS_ROOT\<close>, last file first.\<close>

definition fs_root :: "string list" where
  "fs_root =
     [''/STM32F103_RTC.shtml'', ''/STM32F103_ADC_sensor_status.shtml'', ''/modehome_corridoron.shtml'',
      ''/modehome_beepon_corridoron.shtml'', ''/modehome_beepon_bedroomon.shtml'',
      ''/modehome_beepon.shtml'', ''/modehome_bedroomon_corridoron.shtml'', ''/modehome_bedroomon.shtml'',
      ''/modehome.shtml'', ''/index.html'', ''/corridoron.shtml'', ''/beepon_corridoron.shtml'',
      ''/beepon_bedroomon_corridoron.shtml'', ''/beepon_Bedroomon.shtml'', ''/beepon.shtml'',
      ''/bedroomon_corridoron.shtml'', ''/bedroomon.shtml'', ''/allon.shtml'', ''/alloff.shtml'',
      ''/404.html'', ''/image/tab.jpg'']"

text \<open>
  \<open>fs_memory\<close>: the open files; \<open>None\<close> is a slot that is not in use. An entry holds the place of
  the file in the list, its length and the position of the next byte.
\<close>

record fs_file =
  f_place :: nat
  f_len :: nat
  f_index :: nat

definition LWIP_MAX_OPEN_FILES :: nat where "LWIP_MAX_OPEN_FILES = 10"

fun fs_malloc :: "fs_file option list \<Rightarrow> nat option" where
  "fs_malloc [] = None"
| "fs_malloc (None # fs) = Some 0"
| "fs_malloc (Some f # fs) = map_option Suc (fs_malloc fs)"

definition fs_free :: "nat \<Rightarrow> fs_file option list \<Rightarrow> fs_file option list" where
  "fs_free slot fs = fs[slot := None]"

fun fs_find :: "nat \<Rightarrow> string \<Rightarrow> string list \<Rightarrow> nat option" where
  "fs_find i name [] = None"
| "fs_find i name (f # fs) = (if strcmp name f = 0 then Some i else fs_find (Suc i) name fs)"

text \<open>\<open>lens\<close> gives the length of a file by its place; \<open>index = len\<close> because the data is all there.\<close>

definition fs_open :: "(nat \<Rightarrow> nat) \<Rightarrow> string \<Rightarrow> fs_file option list \<Rightarrow> nat option \<times> fs_file option list" where
  "fs_open lens name fs =
     (case fs_malloc fs of
        None \<Rightarrow> (None, fs)
      | Some slot \<Rightarrow>
          (case fs_find 0 name fs_root of
             Some i \<Rightarrow> (Some slot, fs[slot := Some \<lparr> f_place = i, f_len = lens i, f_index = lens i \<rparr>])
           | None \<Rightarrow> (None, fs_free slot fs)))"

definition fs_close :: "nat \<Rightarrow> fs_file option list \<Rightarrow> fs_file option list" where
  "fs_close = fs_free"

definition fs_bytes_left :: "fs_file \<Rightarrow> int" where
  "fs_bytes_left f = int (f_len f) - int (f_index f)"

text \<open>
  The bytes of the files by their place; a count that is not negative. What is read, the bytes and the file.
\<close>

definition fs_read :: "(nat \<Rightarrow> 'b list) \<Rightarrow> nat \<Rightarrow> fs_file \<Rightarrow> int \<times> 'b list \<times> fs_file" where
  "fs_read bytes count f =
     (if f_index f = f_len f then (-1, [], f)
      else let n = f_len f - f_index f; n = (if n > count then count else n)
           in (int n, take n (drop (f_index f) (bytes (f_place f))), f \<lparr> f_index := f_index f + n \<rparr>))"

text \<open>
  Two reads give what one read of both counts gives; a file just opened counts as read to its end.
\<close>

lemma take_two_parts:
  assumes "i + m \<le> n"
  shows "take (n - i) (drop i xs) = take m (drop i xs) @ take (n - (m + i)) (drop (m + i) xs)"
proof -
  have "n - i = m + (n - (m + i))" using assms by simp
  then show ?thesis by (metis add.commute drop_drop take_add)
qed

lemma fs_read_twice:
  assumes "fs_read bytes a f = (r, xs, f')" and "fs_read bytes b f' = (s, ys, f'')" and "r \<noteq> -1" and "s \<noteq> -1" and "f_index f \<le> f_len f"
  shows "fs_read bytes (a + b) f = (r + s, xs @ ys, f'')"
proof (cases "a < f_len f - f_index f")
  case False
  then show ?thesis using assms by (auto simp: fs_read_def Let_def split: if_splits)
next
  case True
  then show ?thesis
    using assms take_two_parts [of "f_index f" a "f_len f" "bytes (f_place f)"]
      take_add [of a b "drop (f_index f) (bytes (f_place f))"]
    by (auto simp: fs_read_def Let_def ac_simps split: if_splits)
qed

lemma fs_read_after_open:
  assumes "fs_open lens name fs = (Some slot, fs')" and "slot < length fs'" and "fs' ! slot = Some f"
  shows "fs_read bytes count f = (-1, [], f)"
  using assms by (auto simp: fs_open_def fs_read_def split: option.splits)

end
