(* ===== verification/Histories.thy ===== *)
theory Histories
  imports Web_Cgi
begin

text \<open>
  Histories of the whole controller: a list of steps of the threads of \<open>applications/main.c\<close> and
  of requests to the web forms, in any order, from the state \<open>Smart_IOT_Center\<close> sets up. One
  rule, \<open>run_invariant\<close>, carries an invariant of every step through a history.
\<close>

datatype action =
    Ir "u8 list"                        \<comment> \<open>the values \<open>Remote_Scan\<close> returns\<close>
  | Touch u16 u16 "sample list"         \<comment> \<open>a press, and the scans of the time panel\<close>
  | Radio bool                          \<comment> \<open>whether the packet is sent\<close>
  | Sms_Send bool                       \<comment> \<open>whether the heap has a block\<close>
  | Sms_Poll
  | Sms_Read bool
  | Security bool                       \<comment> \<open>presence\<close>
  | Corridor bool bool                  \<comment> \<open>night, presence\<close>
  | Sense "bool list" "u16 list" "u16 list"
  | Web nat params                      \<comment> \<open>the form by its place in \<open>ppcURLs\<close>\<close>

text \<open>\<open>width\<close> and \<open>height\<close> are those of \<open>lcddev\<close>, \<open>fl\<close> is the rounding of the averages.\<close>

fun act :: "u16 \<Rightarrow> u16 \<Rightarrow> (rat \<Rightarrow> rat) \<Rightarrow> action \<Rightarrow> center \<Rightarrow> center cres" where
  "act width height fl (Ir scans) c = (case IRDA_thread width scans c of Some c \<Rightarrow> Ret c | None \<Rightarrow> Ret c)"
| "act width height fl (Touch x y samples) c =
     cbind (touch_thread width height x y samples c) (\<lambda>(_, c). Ret c)"
| "act width height fl (Radio sent) c = Ret (NRF2401_thread sent c)"
| "act width height fl (Sms_Send heap_ok) c = Ret (GSM_send_thread heap_ok c)"
| "act width height fl Sms_Poll c = Ret (GSM_thread c)"
| "act width height fl (Sms_Read heap_ok) c = Ret (GSM_read_thread width heap_ok c)"
| "act width height fl (Security presence) c = Ret (security_thread presence c)"
| "act width height fl (Corridor night presence) c = Ret (Corridor_Light_thread night presence c)"
| "act width height fl (Sense line mqs hzs) c = Ret (Get_Sensor_Status_thread fl line mqs hzs c)"
| "act width height fl (Web i ps) c =
     (if i < length (ppcURLs width) then Ret (snd (snd (ppcURLs width ! i) ps c)) else Ret c)"

fun run :: "u16 \<Rightarrow> u16 \<Rightarrow> (rat \<Rightarrow> rat) \<Rightarrow> action list \<Rightarrow> center \<Rightarrow> center cres" where
  "run width height fl [] c = Ret c"
| "run width height fl (a # as) c = cbind (act width height fl a c) (run width height fl as)"

lemma run_invariant [consumes 2, case_names step]:
  assumes "run width height fl as c = Ret c'" and "I c"
    and step: "\<And>a c c'. a \<in> set as \<Longrightarrow> I c \<Longrightarrow> act width height fl a c = Ret c' \<Longrightarrow> I c'"
  shows "I c'"
  using assms
proof (induction as arbitrary: c)
  case (Cons a as)
  then obtain c1 where c1: "act width height fl a c = Ret c1" "run width height fl as c1 = Ret c'"
    by (auto simp: cbind_Ret_iff)
  have "I c1" by (rule Cons.prems(3) [OF _ Cons.prems(2) c1(1)]) simp
  then show ?case by (rule Cons.IH [OF c1(2)]) (rule Cons.prems(3); simp)
qed simp

text \<open>\<open>Smart_IOT_Center\<close>: the mode is shown, the semaphore and the two mailboxes are empty.\<close>

definition Smart_IOT_Center :: "u16 \<Rightarrow> panel \<Rightarrow> gsm \<Rightarrow> u32 list \<Rightarrow> u32 list \<Rightarrow> center" where
  "Smart_IOT_Center width p g pool pool' =
     \<lparr> sys_status = HOME, curtain_status = 1, color_flag = False, beep = False, red_led = True,
       ui = draw [Point_Color GREEN, Show_String (width - 95) 58 200 24 24 '' Home ''] p,
       gsm_mb = rt_mb_init pool 4, nrf_mb = rt_mb_init pool' 4, gsm_sem = 0, modem = g,
       sms_alive = True, temp = 0, humi = 0, mq = 0, hz = 0, bss_overrun = 0,
       sec_pc = Sec_Start, lamp_wait = False, air = [] \<rparr>"

end
