(* ===== verification/Center_Facts.thy ===== *)
theory Center_Facts
  imports Histories
begin

text \<open>
  What the threads do together: the curtain commands travel through the mailbox in order, the
  invariants of every history, the agreement of the displayed mode with the mode, the alarms of
  a turn of the security thread, the execution of a command received by message, and what the
  return from the time panel does to the rest.
\<close>

text \<open>A system that has just started, for the examples.\<close>

definition silent_modem :: gsm where
  "silent_modem = \<lparr> tx = [], rx_buf = [], rx_sta = 0, replies = [], heap_blocks = 0,
     stack_overrun = 0, after_1A = [] \<rparr>"

definition sample_center :: center where
  "sample_center = Smart_IOT_Center 240 sample_panel silent_modem [0, 0, 0, 0] [0, 0, 0, 0]"

lemma sample_center_fields [simp]:
  "sec_pc sample_center = Sec_Start" "sys_status sample_center = HOME" "mq sample_center = 0"
  "hz sample_center = 0" "ui sample_center
     = draw [Point_Color GREEN, Show_String 145 58 200 24 24 '' Home ''] sample_panel"
  "gsm_mb sample_center = rt_mb_init [0, 0, 0, 0] 4" "nrf_mb sample_center = rt_mb_init [0, 0, 0, 0] 4"
  "modem sample_center = silent_modem" "sms_alive sample_center" "gsm_sem sample_center = 0"
  by (simp_all add: sample_center_def Smart_IOT_Center_def)

lemma sample_mailbox [simp]:
  "mb_ok (rt_mb_init [0, 0, 0, 0] 4)" "mb_items (rt_mb_init [0, 0, 0, 0] 4) = []"
  "mb_size (rt_mb_init p n) = n" "entry (rt_mb_init p n) = 0"
  using rt_mb_init_ok [of 4 "[0, 0, 0, 0]"] by (simp_all add: rt_mb_init_def)

section \<open>The queue of curtain commands\<close>

lemma post_nrf_items:
  assumes "mb_ok (nrf_mb c)"
  shows "mb_ok (nrf_mb (post_nrf k c)) \<and> mb_size (nrf_mb (post_nrf k c)) = mb_size (nrf_mb c)
    \<and> mb_items (nrf_mb (post_nrf k c))
      = take (unat (mb_size (nrf_mb c))) (mb_items (nrf_mb c) @ [ucast k])"
proof (cases "length (mb_items (nrf_mb c)) < unat (mb_size (nrf_mb c))")
  case True
  with mb.put_accepts [OF assms True] show ?thesis by (simp add: post_nrf_def word_unat_eq_iff)
next
  case False
  then have "length (mb_items (nrf_mb c)) = unat (mb_size (nrf_mb c))"
    using mb.never_over [OF assms] by simp
  with mb.put_refuses [OF assms this] show ?thesis using assms by (simp add: post_nrf_def)
qed

lemma take_snoc_take: "take n (take n xs @ [y]) = take n (xs @ [y])"
  by (cases "length xs < n") simp_all

lemma key_through_mailbox [simp]: "ucast (ucast (k :: u8) :: u32) = k"
proof -
  have "unat k mod 256 = unat k" "unat k mod 4294967296 = unat k"
    using unat_u8_lt [of k] by (simp_all del: unat_u8_lt)
  then show ?thesis by (simp add: word_unat_eq_iff unat_ucast_mod)
qed

definition curtain_keys :: "u8 set" where "curtain_keys = {left, stop, right}"

definition curtain_packet :: "u8 \<Rightarrow> string" where
  "curtain_packet k = packet (if k = left then CHR ''8'' else if k = right then CHR ''9'' else CHR ''7'')"

lemma irda_key_curtain: "k \<in> curtain_keys \<Longrightarrow> irda_key width k c = post_nrf k c"
  by (auto simp: curtain_keys_def irda_key_def key_code_defs)

lemma curtain_keys_posted:
  assumes "mb_ok (nrf_mb c)" and "set ks \<subseteq> curtain_keys"
  shows "\<exists>mb. foldl (\<lambda>c k. irda_key width k c) c ks = c \<lparr> nrf_mb := mb \<rparr> \<and> mb_ok mb
    \<and> mb_size mb = mb_size (nrf_mb c)
    \<and> mb_items mb = take (unat (mb_size (nrf_mb c))) (mb_items (nrf_mb c) @ map ucast ks)"
  using assms(2)
proof (induction ks rule: rev_induct)
  case Nil
  have "length (mb_items (nrf_mb c)) \<le> unat (mb_size (nrf_mb c))" by (rule mb.never_over [OF assms(1)])
  then show ?case using assms(1) by (intro exI [of _ "nrf_mb c"]) simp
next
  case (snoc k ks)
  then obtain mb where mb: "foldl (\<lambda>c k. irda_key width k c) c ks = c \<lparr> nrf_mb := mb \<rparr>" "mb_ok mb"
    "mb_size mb = mb_size (nrf_mb c)"
    "mb_items mb = take (unat (mb_size (nrf_mb c))) (mb_items (nrf_mb c) @ map ucast ks)" by auto
  let ?c = "post_nrf k (c \<lparr> nrf_mb := mb \<rparr>)"
  have "foldl (\<lambda>c k. irda_key width k c) c (ks @ [k]) = c \<lparr> nrf_mb := nrf_mb ?c \<rparr>"
    using mb(1) snoc.prems by (simp add: irda_key_curtain) (simp add: post_nrf_def)
  moreover have "mb_items (nrf_mb ?c)
      = take (unat (mb_size (nrf_mb c))) (mb_items (nrf_mb c) @ map ucast (ks @ [k]))"
    using post_nrf_items [of "c \<lparr> nrf_mb := mb \<rparr>" k] mb
      take_snoc_take [of "unat (mb_size (nrf_mb c))" "mb_items (nrf_mb c) @ map ucast ks" "ucast k"]
    by (simp del: take_append)
  moreover have "mb_ok (nrf_mb ?c) \<and> mb_size (nrf_mb ?c) = mb_size (nrf_mb c)"
    using post_nrf_items [of "c \<lparr> nrf_mb := mb \<rparr>" k] mb by simp
  ultimately show ?case by (intro exI [of _ "nrf_mb ?c"] conjI) simp_all
qed

lemma radio_takes:
  assumes "mb_ok (nrf_mb c)" and "mb_items (nrf_mb c) = ucast k # vs" and "k \<in> curtain_keys"
  shows "mb_ok (nrf_mb (NRF2401_thread sent c)) \<and> mb_items (nrf_mb (NRF2401_thread sent c)) = vs
    \<and> air (NRF2401_thread sent c) = air c @ [(curtain_packet k, sent)]"
proof -
  obtain mb where mb: "mb_get (nrf_mb c) = (Some (ucast k), mb)" "mb_ok mb" "mb_items mb = vs"
    using mb.get_takes [OF assms(1,2)] by (metis prod.collapse)
  with assms(3) show ?thesis
    by (auto simp: NRF2401_thread_def nrf_command_def Let_def curtain_keys_def curtain_packet_def
        nrf_open_def nrf_close_def nrf_stop_def show_lcd_def key_code_defs)
qed

lemma radio_takes_all:
  assumes "mb_ok (nrf_mb c)" and "mb_items (nrf_mb c) = map ucast ks" and "set ks \<subseteq> curtain_keys"
    and "length oks = length ks"
  shows "mb_items (nrf_mb (foldl (\<lambda>c ok. NRF2401_thread ok c) c oks)) = []
    \<and> air (foldl (\<lambda>c ok. NRF2401_thread ok c) c oks) = air c @ zip (map curtain_packet ks) oks"
  using assms(4,1-3)
proof (induction oks ks arbitrary: c rule: list_induct2)
  case Nil
  then show ?case by simp
next
  case (Cons ok oks k ks)
  with radio_takes [of c k "map ucast ks" ok] show ?case by simp
qed

text \<open>
  C28. Curtain keys pressed on the remote while the radio is busy are transmitted in the order they
  were pressed, one packet for each, whatever the success of each transmission; keys beyond
  the four the mailbox holds are dropped, and afterwards the mailbox is empty.
\<close>

theorem curtain_keys_in_order:
  assumes "mb_ok (nrf_mb c)" and "mb_items (nrf_mb c) = []" and "unat (mb_size (nrf_mb c)) = 4"
    and "set ks \<subseteq> {left, stop, right}" and "length oks = length (take 4 ks)"
  shows "let c' = foldl (\<lambda>c ok. NRF2401_thread ok c) (foldl (\<lambda>c k. irda_key width k c) c ks) oks
    in air c' = air c @ zip (map curtain_packet (take 4 ks)) oks \<and> mb_items (nrf_mb c') = []"
proof -
  have ks: "set ks \<subseteq> curtain_keys" using assms(4) by (simp add: curtain_keys_def)
  obtain mb where mb: "foldl (\<lambda>c k. irda_key width k c) c ks = c \<lparr> nrf_mb := mb \<rparr>" "mb_ok mb"
    "mb_items mb = map ucast (take 4 ks)"
    using curtain_keys_posted [OF assms(1) ks, of width] assms(2,3) by (auto simp: take_map)
  have "set (take 4 ks) \<subseteq> curtain_keys" using ks by (meson order_trans set_take_subset)
  with radio_takes_all [of "c \<lparr> nrf_mb := mb \<rparr>" "take 4 ks" oks] mb assms(5) show ?thesis by simp
qed

lemma curtain_keys_in_order_witness:
  "air (foldl (\<lambda>c ok. NRF2401_thread ok c)
       (foldl (\<lambda>c k. irda_key 240 k c) sample_center [left, right, stop, left, right]) [True, False, True, True])
     = air sample_center @
       [(packet CHR ''8'', True), (packet CHR ''9'', False), (packet CHR ''7'', True), (packet CHR ''8'', True)]"
  using curtain_keys_in_order [of sample_center "[left, right, stop, left, right]" "[True, False, True, True]" 240]
  by (simp add: Let_def curtain_packet_def key_code_defs)

section \<open>Invariants of every history\<close>

text \<open>The state of the curtain after the packets that were sent.\<close>

definition curtain_after :: "(string \<times> bool) list \<Rightarrow> u8" where
  "curtain_after = foldl (\<lambda>s (p, sent).
     if sent \<and> p = packet CHR ''8'' then 1 else if sent \<and> p = packet CHR ''9'' then 0 else s) 1"

definition center_ok :: "center \<Rightarrow> bool" where
  "center_ok c \<longleftrightarrow> (sys_status c = HOME \<or> sys_status c = OUT)
     \<and> mb_ok (gsm_mb c) \<and> mb_size (gsm_mb c) = 4 \<and> mb_ok (nrf_mb c) \<and> mb_size (nrf_mb c) = 4
     \<and> curtain_status c = curtain_after (air c)
     \<and> (beep c \<longrightarrow> sec_pc c \<noteq> Sec_Start)"

named_theorems keeps_ok \<comment> \<open>which operations keep \<open>center_ok\<close>\<close>

lemma center_ok_updates [simp]:
  "center_ok (c \<lparr> ui := p \<rparr>) = center_ok c" "center_ok (c \<lparr> red_led := b \<rparr>) = center_ok c"
  "center_ok (c \<lparr> modem := g \<rparr>) = center_ok c" "center_ok (c \<lparr> color_flag := b \<rparr>) = center_ok c"
  "center_ok (c \<lparr> sms_alive := b \<rparr>) = center_ok c" "center_ok (c \<lparr> gsm_sem := n \<rparr>) = center_ok c"
  "center_ok (c \<lparr> temp := t \<rparr>) = center_ok c" "center_ok (c \<lparr> humi := t \<rparr>) = center_ok c"
  "center_ok (c \<lparr> mq := v \<rparr>) = center_ok c" "center_ok (c \<lparr> hz := v \<rparr>) = center_ok c"
  "center_ok (c \<lparr> bss_overrun := k \<rparr>) = center_ok c" "center_ok (c \<lparr> lamp_wait := b \<rparr>) = center_ok c"
  "center_ok (show_lcd cs c) = center_ok c" "center_ok (set_corridor b c) = center_ok c"
  by (simp_all add: center_ok_def show_lcd_def set_corridor_def)

lemma put_ok: "mb_ok mb \<Longrightarrow> mb_size mb = 4 \<Longrightarrow> mb_ok (snd (mb_put v mb)) \<and> mb_size (snd (mb_put v mb)) = 4"
  using mb.put_items [of mb v] by (simp add: word_unat_eq_iff)

lemma get_ok: "mb_ok mb \<Longrightarrow> mb_size mb = 4 \<Longrightarrow> mb_get mb = (r, mb') \<Longrightarrow> mb_ok mb' \<and> mb_size mb' = 4"
  using mb.get_items [of mb] by (simp add: word_unat_eq_iff)

lemma posts_ok [keeps_ok]: "center_ok c \<Longrightarrow> center_ok (post_gsm k c)" "center_ok c \<Longrightarrow> center_ok (post_nrf q c)"
  using put_ok by (simp_all add: center_ok_def post_gsm_def post_nrf_def)

lemma mode_ok [keeps_ok]:
  "center_ok c \<Longrightarrow> center_ok (c \<lparr> sys_status := HOME \<rparr>)" "center_ok c \<Longrightarrow> center_ok (c \<lparr> sys_status := OUT \<rparr>)"
  "center_ok c \<Longrightarrow> center_ok (c \<lparr> beep := False \<rparr>)"
  by (simp_all add: center_ok_def)

lemma lights_ok [keeps_ok]: "center_ok c \<Longrightarrow> center_ok (Light_Control v c)"
  by (simp add: Light_Control_def Let_def)

lemma toggle_mode_ok [keeps_ok]: "center_ok c \<Longrightarrow> center_ok (toggle_mode w c)"
  by (simp add: toggle_mode_def keeps_ok)

lemma irda_key_ok [keeps_ok]: "center_ok c \<Longrightarrow> center_ok (irda_key w k c)"
  by (simp add: irda_key_def keeps_ok)

lemma IRDA_ok: "center_ok c \<Longrightarrow> IRDA_thread w scans c = Some c' \<Longrightarrow> center_ok c'"
  by (auto simp: IRDA_thread_def keeps_ok split: list.splits if_splits)

lemma curtain_after_snoc:
  "curtain_after (ps @ [(p, sent)]) =
     (if sent \<and> p = packet CHR ''8'' then 1 else if sent \<and> p = packet CHR ''9'' then 0 else curtain_after ps)"
  by (simp add: curtain_after_def)

lemma packet_inj [simp]: "packet a = packet b \<longleftrightarrow> a = b"
  by (simp add: packet_def)

lemma nrf_packets_ok:
  "center_ok c \<Longrightarrow> center_ok (nrf_open sent c)" "center_ok c \<Longrightarrow> center_ok (nrf_close sent c)"
  "center_ok c \<Longrightarrow> center_ok (nrf_stop sent c)"
  by (simp_all add: center_ok_def nrf_open_def nrf_close_def nrf_stop_def Let_def show_lcd_def curtain_after_snoc)

lemma NRF2401_thread_ok [keeps_ok]: "center_ok c \<Longrightarrow> center_ok (NRF2401_thread sent c)"
proof -
  assume c: "center_ok c"
  obtain r mb where g: "mb_get (nrf_mb c) = (r, mb)" by (cases "mb_get (nrf_mb c)")
  have "center_ok (c \<lparr> nrf_mb := mb \<rparr>)" using c get_ok [OF _ _ g] by (simp add: center_ok_def)
  then show ?thesis
    using g by (simp add: NRF2401_thread_def nrf_command_def Let_def nrf_packets_ok split: option.split)
qed

lemma GSM_send_ok [keeps_ok]: "center_ok c \<Longrightarrow> center_ok (GSM_send_thread h c)"
proof -
  assume c: "center_ok c"
  obtain r mb where g: "mb_get (gsm_mb c) = (r, mb)" by (cases "mb_get (gsm_mb c)")
  have "center_ok (c \<lparr> gsm_mb := mb \<rparr>)" using c get_ok [OF _ _ g] by (simp add: center_ok_def)
  then show ?thesis using g by (simp add: GSM_send_thread_def split: option.split)
qed

lemma GSM_thread_ok [keeps_ok]: "center_ok c \<Longrightarrow> center_ok (GSM_thread c)"
  by (simp add: GSM_thread_def)

lemma sms_set_mode_ok [keeps_ok]:
  "center_ok c \<Longrightarrow> m = HOME \<or> m = OUT \<Longrightarrow> center_ok (sms_set_mode w m colour label c)"
  by (elim disjE; simp add: sms_set_mode_def Let_def keeps_ok)

lemma sms_dispatch_ok [keeps_ok]: "center_ok c \<Longrightarrow> center_ok (sms_dispatch w c)"
  by (simp add: sms_dispatch_def Let_def keeps_ok)

lemma sms_ask_ok:
  "center_ok c \<Longrightarrow> (\<And>c. center_ok c \<Longrightarrow> center_ok (k c)) \<Longrightarrow> center_ok (sms_ask s k c)"
  by (simp add: sms_ask_def sms_stop_def split: prod.split bool.split)

lemma sms_fetch_ok [keeps_ok]: "center_ok c \<Longrightarrow> center_ok (sms_fetch w i c)"
  unfolding sms_fetch_def Let_def
  by (rule sms_ask_ok) (auto intro!: sms_ask_ok simp: sms_done_def keeps_ok)

lemma sms_loop_ok: "center_ok c \<Longrightarrow> center_ok (sms_loop w c)"
proof (induction w c rule: sms_loop.induct)
  case (1 w c)
  then show ?case
    by (subst sms_loop.simps)
      (auto simp: sms_done_def sms_stop_def Let_def keeps_ok split: option.split prod.split bool.split)
qed

lemma GSM_read_ok [keeps_ok]: "center_ok c \<Longrightarrow> center_ok (GSM_read_thread w h c)"
  by (simp add: GSM_read_thread_def Let_def sms_loop_ok)

lemma alarm_ok:
  "center_ok c \<Longrightarrow> pc \<noteq> Sec_Start \<Longrightarrow> center_ok (alarm_on code pc c)" "center_ok c \<Longrightarrow> center_ok (alarm_off c)"
  using posts_ok(1) [of c code] by (simp_all add: center_ok_def alarm_on_def alarm_off_def)

lemma security_ok [keeps_ok]: "center_ok c \<Longrightarrow> center_ok (security_thread b c)"
  by (simp add: security_thread_def check_intruder_def check_gas_def check_fire_def alarm_ok split: sec_pc.split)

lemma corridor_ok [keeps_ok]: "center_ok c \<Longrightarrow> center_ok (Corridor_Light_thread n b c)"
  by (simp add: Corridor_Light_thread_def)

lemma center_ok_show [simp]: "center_ok (show_value g y t c) = center_ok c"
  by (simp add: show_value_def sprintf_bss_def)

lemma sense_ok [keeps_ok]: "center_ok c \<Longrightarrow> center_ok (Get_Sensor_Status_thread fl l m h c)"
  unfolding Get_Sensor_Status_thread_def Let_def
  by (simp add: center_ok_show case_prod_beta)

lemma on_cond_ok: "center_ok c \<Longrightarrow> (center_ok c \<Longrightarrow> center_ok (f c)) \<Longrightarrow> center_ok (on_cond b f c)"
  by (rule on_cond_inv)

lemma touch_areas_ok [keeps_ok]: "center_ok c \<Longrightarrow> center_ok (touch_areas w x y c)"
  unfolding touch_areas_def Let_def by (intro on_cond_ok keeps_ok)

lemma touch_ok: "center_ok c \<Longrightarrow> touch_thread w h x y ss c = Ret (q, c') \<Longrightarrow> center_ok c'"
  by (auto simp: touch_thread_def cbind_Ret_iff Let_def keeps_ok split: if_splits prod.splits)

lemma beep_loop_result: "beep_loop (Suc n) c = c \<lparr> beep := False, red_led := True \<rparr>"
  by (induction n arbitrary: c) (simp_all add: beep_pulse_def Let_def)

lemma beep_warning_result: "beep_warning c = c \<lparr> beep := False, red_led := True \<rparr>"
  unfolding beep_warning_def using beep_loop_result [of 49 c] by simp

lemma web_params_ok:
  "center_ok c \<Longrightarrow> center_ok (leds_param pv c)" "center_ok c \<Longrightarrow> center_ok (beep_param pv c)"
  "center_ok c \<Longrightarrow> center_ok (mode_param w pv c)"
  by (simp_all add: leds_param_def beep_param_def mode_param_def Let_def beep_warning_result keeps_ok
      split: prod.split)

lemma web_ok [keeps_ok]:
  "center_ok c \<Longrightarrow> center_ok (snd (LEDS_CGI_Handler ps c))"
  "center_ok c \<Longrightarrow> center_ok (snd (BEEP_CGI_Handler ps c))"
  "center_ok c \<Longrightarrow> center_ok (snd (MODE_CGI_Handler w ps c))"
  by (simp_all add: LEDS_CGI_Handler_def BEEP_CGI_Handler_def MODE_CGI_Handler_def Let_def
      foldl_inv [where P = center_ok] web_params_ok keeps_ok)

lemma forms_cases:
  assumes "i < length (ppcURLs w)"
  obtains "snd (ppcURLs w ! i) = LEDS_CGI_Handler" | "snd (ppcURLs w ! i) = BEEP_CGI_Handler"
    | "snd (ppcURLs w ! i) = MODE_CGI_Handler w"
  using assms by (auto simp: ppcURLs_def less_Suc_eq)

lemma form_ok [keeps_ok]:
  "center_ok c \<Longrightarrow> i < length (ppcURLs w) \<Longrightarrow> center_ok (snd (snd (ppcURLs w ! i) ps c))"
  by (erule forms_cases) (simp_all add: keeps_ok)

lemma act_ok: "center_ok c \<Longrightarrow> act w h fl a c = Ret c' \<Longrightarrow> center_ok c'"
proof (induction w h fl a c rule: act.induct)
  case (1 w h fl scans c)
  then show ?case using IRDA_ok by (auto split: option.splits)
next
  case (2 w h fl x y ss c)
  then show ?case using touch_ok by (auto simp: cbind_Ret_iff)
qed (auto intro: keeps_ok split: if_splits)

lemma run_ok: "run w h fl as c = Ret c' \<Longrightarrow> center_ok c \<Longrightarrow> center_ok c'"
  by (induction rule: run_invariant) (rule act_ok)

lemma start_ok:
  assumes "length pool = 4" and "length pool' = 4"
  shows "center_ok (Smart_IOT_Center w p g pool pool')"
  using rt_mb_init_ok [of 4 pool] rt_mb_init_ok [of 4 pool'] assms
  by (simp add: center_ok_def Smart_IOT_Center_def rt_mb_init_def curtain_after_def)



section \<open>A turn of the security thread\<close>

definition alarms :: "bool \<Rightarrow> center \<Rightarrow> u32 list" where
  "alarms presence c = (if sys_status c = OUT \<and> presence then [77] else [])
     @ (if gas_alarm (mq c) then [66] else [])
     @ (if fire_alarm (hz c) then [99] else [])"

lemma put_all_items:
  assumes "mb_ok mb" and "length (mb_items mb) + length ks \<le> unat (mb_size mb)"
  shows "mb_items (foldl (\<lambda>mb k. snd (mb_put k mb)) mb ks) = mb_items mb @ ks"
  using assms
proof (induction ks arbitrary: mb)
  case (Cons k ks)
  have "length (mb_items mb) < unat (mb_size mb)" using Cons.prems(2) by simp
  from mb.put_accepts [OF Cons.prems(1) this, of k] Cons.prems(2)
  show ?case using Cons.IH [of "snd (mb_put k mb)"] by simp
qed simp

lemmas turn_defs = security_thread_def check_gas_def check_fire_def alarm_on_def alarm_off_def
  post_gsm_def MQ_LEAKING_def On_Fire_def

lemma security_turn:
  assumes "sec_pc c = Sec_Start"
  shows "(security_thread presence ^^ Suc (length (alarms presence c))) c =
    (if alarms presence c = [] then c
     else c \<lparr> gsm_mb := foldl (\<lambda>mb k. snd (mb_put k mb)) (gsm_mb c) (alarms presence c),
              beep := False, red_led := True \<rparr>)"
proof (cases "sys_status c = OUT \<and> presence")
  case True
  then show ?thesis
    using assms
    by (cases "gas_alarm (mq c)"; cases "fire_alarm (hz c)")
      (simp_all add: turn_defs check_intruder_def alarms_def Invaiding_def)
next
  case False
  then have "check_intruder presence c = check_gas c" by (auto simp: check_intruder_def)
  moreover from False have "alarms presence c =
      (if gas_alarm (mq c) then [66] else []) @ (if fire_alarm (hz c) then [99] else [])"
    by (auto simp: alarms_def)
  ultimately show ?thesis
    using assms by (cases "gas_alarm (mq c)"; cases "fire_alarm (hz c)") (simp_all add: turn_defs)
qed



section \<open>The displayed mode\<close>

text \<open>The last text written in the line of the mode (y = 58).\<close>

fun mode_step :: "string option \<Rightarrow> lcd_call \<Rightarrow> string option" where
  "mode_step r (Show_String x y w h sz s) = (if y = 58 then Some s else r)"
| "mode_step r _ = r"

definition mode_text :: "lcd_call list \<Rightarrow> string option" where
  "mode_text = foldl mode_step None"

lemma mode_text_append: "mode_text (xs @ ys) = foldl mode_step (mode_text xs) ys"
  by (simp add: mode_text_def)

definition mode_ok :: "center \<Rightarrow> bool" where
  "mode_ok c \<longleftrightarrow> (sys_status c = HOME \<and> mode_text (screen (ui c)) = Some '' Home '')
     \<or> (sys_status c = OUT \<and> mode_text (screen (ui c)) \<in> {Some '' OUT '', Some '' OUT  ''})"

lemma mode_ok_updates [simp]:
  "mode_ok (c \<lparr> red_led := b \<rparr>) = mode_ok c" "mode_ok (c \<lparr> beep := b \<rparr>) = mode_ok c"
  "mode_ok (c \<lparr> modem := g \<rparr>) = mode_ok c" "mode_ok (c \<lparr> color_flag := b \<rparr>) = mode_ok c"
  "mode_ok (c \<lparr> sms_alive := b \<rparr>) = mode_ok c" "mode_ok (c \<lparr> gsm_sem := n \<rparr>) = mode_ok c"
  "mode_ok (c \<lparr> temp := t \<rparr>) = mode_ok c" "mode_ok (c \<lparr> humi := t \<rparr>) = mode_ok c"
  "mode_ok (c \<lparr> mq := v \<rparr>) = mode_ok c" "mode_ok (c \<lparr> hz := v \<rparr>) = mode_ok c"
  "mode_ok (c \<lparr> bss_overrun := k \<rparr>) = mode_ok c" "mode_ok (c \<lparr> lamp_wait := b \<rparr>) = mode_ok c"
  "mode_ok (c \<lparr> gsm_mb := mb \<rparr>) = mode_ok c" "mode_ok (c \<lparr> nrf_mb := mb \<rparr>) = mode_ok c"
  "mode_ok (c \<lparr> curtain_status := u \<rparr>) = mode_ok c" "mode_ok (c \<lparr> air := ps \<rparr>) = mode_ok c"
  "mode_ok (c \<lparr> sec_pc := pc \<rparr>) = mode_ok c"
  "mode_ok (post_gsm code c) = mode_ok c" "mode_ok (post_nrf q c) = mode_ok c"
  "mode_ok (set_corridor b c) = mode_ok c"
  by (simp_all add: mode_ok_def post_gsm_def post_nrf_def set_corridor_def)

lemma mode_ok_show [simp]:
  "(\<And>r. foldl mode_step r calls = r) \<Longrightarrow> mode_ok (show_lcd calls c) = mode_ok c"
  by (simp add: mode_ok_def show_lcd_def draw_def mode_text_append)

named_theorems keeps_mode \<comment> \<open>which operations keep \<open>mode_ok\<close>\<close>

lemma lights_mode [keeps_mode]: "mode_ok c \<Longrightarrow> mode_ok (Light_Control v c)"
  by (simp add: Light_Control_def Let_def)

lemma toggle_mode_shows [keeps_mode]: "mode_ok (toggle_mode w c)"
  by (simp add: toggle_mode_def mode_ok_def show_lcd_def draw_def mode_text_append)

lemma irda_key_mode [keeps_mode]: "mode_ok c \<Longrightarrow> mode_ok (irda_key w k c)"
  by (simp add: irda_key_def keeps_mode)

lemma IRDA_mode: "mode_ok c \<Longrightarrow> IRDA_thread w scans c = Some c' \<Longrightarrow> mode_ok c'"
  by (auto simp: IRDA_thread_def keeps_mode split: list.splits if_splits)

lemma NRF2401_mode [keeps_mode]: "mode_ok c \<Longrightarrow> mode_ok (NRF2401_thread sent c)"
  by (simp add: NRF2401_thread_def nrf_command_def nrf_open_def nrf_close_def nrf_stop_def Let_def
      split: prod.split option.split)

lemma GSM_send_mode [keeps_mode]: "mode_ok c \<Longrightarrow> mode_ok (GSM_send_thread h c)"
  by (simp add: GSM_send_thread_def split: prod.split option.split)

lemma GSM_thread_mode [keeps_mode]: "mode_ok c \<Longrightarrow> mode_ok (GSM_thread c)"
  by (simp add: GSM_thread_def)

lemma sms_dispatch_mode: "mode_ok c \<Longrightarrow> mode_ok (sms_dispatch w c)"
proof -
  have "mode_ok (sms_set_mode w HOME GREEN '' Home '' d)" "mode_ok (sms_set_mode w OUT RED '' OUT '' d)" for d
    by (simp_all add: sms_set_mode_def Let_def)
      (simp_all add: mode_ok_def show_lcd_def draw_def mode_text_append)
  then show "mode_ok c \<Longrightarrow> mode_ok (sms_dispatch w c)" by (simp add: sms_dispatch_def Let_def)
qed

lemma sms_ask_mode:
  "mode_ok c \<Longrightarrow> (\<And>c. mode_ok c \<Longrightarrow> mode_ok (k c)) \<Longrightarrow> mode_ok (sms_ask s k c)"
  by (simp add: sms_ask_def sms_stop_def split: prod.split bool.split)

lemma sms_fetch_mode: "mode_ok c \<Longrightarrow> mode_ok (sms_fetch w i c)"
  unfolding sms_fetch_def Let_def
  by (rule sms_ask_mode) (auto intro!: sms_ask_mode simp: sms_done_def sms_dispatch_mode)

lemma sms_loop_mode: "mode_ok c \<Longrightarrow> mode_ok (sms_loop w c)"
proof (induction w c rule: sms_loop.induct)
  case (1 w c)
  then show ?case
    by (subst sms_loop.simps)
      (auto simp: sms_done_def sms_stop_def Let_def sms_fetch_mode split: option.split prod.split bool.split)
qed

lemma GSM_read_mode [keeps_mode]: "mode_ok c \<Longrightarrow> mode_ok (GSM_read_thread w h c)"
  by (simp add: GSM_read_thread_def Let_def sms_loop_mode)

lemma security_mode [keeps_mode]: "mode_ok c \<Longrightarrow> mode_ok (security_thread b c)"
  by (simp add: security_thread_def check_intruder_def check_gas_def check_fire_def alarm_on_def
      alarm_off_def split: sec_pc.split)

lemma corridor_mode [keeps_mode]: "mode_ok c \<Longrightarrow> mode_ok (Corridor_Light_thread n b c)"
  by (simp add: Corridor_Light_thread_def)

lemma show_value_mode: "y \<noteq> 58 \<Longrightarrow> mode_ok (show_value g y t c) = mode_ok c"
  by (simp add: show_value_def sprintf_bss_def)

lemma sense_mode [keeps_mode]: "mode_ok c \<Longrightarrow> mode_ok (Get_Sensor_Status_thread fl l m h c)"
  unfolding Get_Sensor_Status_thread_def Let_def by (simp add: show_value_mode case_prod_beta)

lemma on_cond_mode: "mode_ok c \<Longrightarrow> (mode_ok c \<Longrightarrow> mode_ok (f c)) \<Longrightarrow> mode_ok (on_cond b f c)"
  by (rule on_cond_inv)

lemma post_nrf_mode [keeps_mode]: "mode_ok c \<Longrightarrow> mode_ok (post_nrf k c)"
  by simp

lemma touch_areas_mode [keeps_mode]: "mode_ok c \<Longrightarrow> mode_ok (touch_areas w x y c)"
  unfolding touch_areas_def Let_def by (intro on_cond_mode keeps_mode)

lemma web_params_mode:
  "mode_ok c \<Longrightarrow> mode_ok (leds_param pv c)" "mode_ok c \<Longrightarrow> mode_ok (beep_param pv c)"
  "mode_ok c \<Longrightarrow> mode_ok (mode_param w pv c)"
  by (simp_all add: leds_param_def beep_param_def mode_param_def Let_def beep_warning_result split: prod.split)
    (simp_all add: mode_ok_def show_lcd_def draw_def mode_text_append)

lemma web_mode [keeps_mode]:
  "mode_ok c \<Longrightarrow> mode_ok (snd (LEDS_CGI_Handler ps c))"
  "mode_ok c \<Longrightarrow> mode_ok (snd (BEEP_CGI_Handler ps c))"
  "mode_ok c \<Longrightarrow> mode_ok (snd (MODE_CGI_Handler w ps c))"
  by (simp_all add: LEDS_CGI_Handler_def BEEP_CGI_Handler_def MODE_CGI_Handler_def Let_def
      foldl_inv [where P = mode_ok] web_params_mode)

lemma form_mode [keeps_mode]:
  "mode_ok c \<Longrightarrow> i < length (ppcURLs w) \<Longrightarrow> mode_ok (snd (snd (ppcURLs w ! i) ps c))"
  by (erule forms_cases) (simp_all add: keeps_mode)

fun no_session :: "action \<Rightarrow> bool" where
  "no_session (Touch x y _) = (\<not> TIME x y)"
| "no_session _ = True"

lemma act_mode: "mode_ok c \<Longrightarrow> no_session a \<Longrightarrow> act w h fl a c = Ret c' \<Longrightarrow> mode_ok c'"
proof (induction w h fl a c rule: act.induct)
  case (1 w h fl scans c)
  then show ?case using IRDA_mode by (auto split: option.splits)
next
  case (2 w h fl x y ss c)
  then show ?case by (auto simp: touch_thread_def keeps_mode split: if_splits)
qed (auto intro: keeps_mode split: if_splits)

text \<open>
  C27. As long as nobody opens the time panel the display names the mode the system is in: after
  every history of remote keys, touches, messages, web forms, radio, alarms and sensor updates the last
  text in the mode field is the label of the current mode.
\<close>

theorem displayed_mode_is_the_mode:
  assumes "run width height fl as (Smart_IOT_Center width p g pool pool') = Ret c"
    and "list_all no_session as"
  shows "mode_ok c"
proof -
  have "mode_ok (Smart_IOT_Center width p g pool pool')"
    by (simp add: mode_ok_def Smart_IOT_Center_def draw_def mode_text_append)
  with assms(1) show ?thesis
  proof (induction rule: run_invariant)
    case (step a c1 c2)
    then show ?case using assms(2) by (auto simp: list_all_iff intro: act_mode)
  qed
qed

lemma displayed_mode_is_the_mode_witness:
  "\<exists>c. run 240 320 (\<lambda>x. x) [Touch 200 60 [], Ir [0], Touch 200 60 [], Touch 200 60 []]
      (Smart_IOT_Center 240 sample_panel
        silent_modem
        [0, 0, 0, 0] [0, 0, 0, 0]) = Ret c \<and> mode_ok c"
  (is "\<exists>c. run _ _ _ ?as ?start = Ret c \<and> _")
proof -
  have t: "\<not> TIME 200 60" by (simp add: TIME_def in_area_def word_less_nat_alt)
  then have "\<exists>c. run 240 320 (\<lambda>x. x) ?as ?start = Ret c"
    by (simp add: IRDA_thread_def touch_thread_def)
  then obtain c where c: "run 240 320 (\<lambda>x. x) ?as ?start = Ret c" by (elim exE)
  from displayed_mode_is_the_mode [OF this] t c show ?thesis by (intro exI conjI) simp_all
qed

section \<open>Leaving the time panel\<close>

text \<open>
  Cancelling the time panel disturbs the rest. When the key C is touched where it lies over
  the OPEN button of the main window, that button is taken to be pressed as well and the
  curtain is told to open; the redrawn window says Home although the system stays in the OUT
  mode; and the corridor lamp is switched off.
\<close>

theorem cancelling_the_panel_opens_the_curtain:
  assumes "TIME x y" and "x < width" "y < height" and "x' < width" "y' < height"
    and "CANCLE x' y'" and "Curtain_OPEN x' y'"
    and "mb_ok (nrf_mb c)" and "length (mb_items (nrf_mb c)) < unat (mb_size (nrf_mb c))"
  shows "\<exists>c'. touch_thread width height x y [\<lparr> pressed = True, sx = x', sy = y' \<rparr>] c = Ret (True, c')
    \<and> mb_items (nrf_mb c') = mb_items (nrf_mb c) @ [ucast left]
    \<and> sys_status c' = sys_status c \<and> mode_text (screen (ui c')) = Some '' Home '' \<and> green_led (ui c')"
proof -
  let ?ss = "[\<lparr> pressed = True, sx = x', sy = y' \<rparr>]"
  let ?p = "(ui c) \<lparr> rtc_irq := False \<rparr>"
  have "set_loop width height ?ss (enter_panel ?p) = (True, (enter_panel ?p) \<lparr> status := 67 \<rparr>, [])"
    using assms(4,5) press_leave(1) [OF assms(6)] by simp
  then obtain p where p: "Set_Time width height ?ss ?p = Ret (True, p, [])" "green_led p"
    "mode_text (screen p) = Some '' Home ''"
    by (auto simp: Set_Time_def leave_panel_def draw_def mode_text_append Draw_window_def)
  have pos: "80 < unat x'" "unat x' < 111" "290 < unat y'" "unat y' < 306"
    using assms(7) by (simp_all add: Curtain_OPEN_def in_area_def word_less_nat_alt)
  have light: "edge \<le> 272 \<Longrightarrow> \<not> light_button edge width x' y'" for edge
    using pos(3) unfolding light_button_def uint_nat [of y'] by linarith
  have far: "\<not> MODE x' y'" "\<not> Bedroom_Light width x' y'" "\<not> Livingroom_Light width x' y'"
    "\<not> Corridor_Light width x' y'" "\<not> Curtain_CLOSE x' y'" "\<not> Curtain_KT x' y'"
    using pos by (simp_all add: light MODE_def Bedroom_Light_def Livingroom_Light_def Corridor_Light_def
        Curtain_CLOSE_def Curtain_KT_def in_area_def word_less_nat_alt)
  have "touch_thread width height x y ?ss c = Ret (True, post_nrf left (c \<lparr> ui := p \<rparr>))"
    using assms(1-3,7) p(1) far by (simp add: touch_thread_def touch_areas_def)
  moreover have "mb_items (nrf_mb (post_nrf left (c \<lparr> ui := p \<rparr>))) = mb_items (nrf_mb c) @ [ucast left]"
    using mb.put_accepts [OF assms(8,9)] by (simp add: post_nrf_def)
  ultimately show ?thesis using p by (intro exI conjI) (assumption, simp_all add: post_nrf_def)
qed

lemma cancelling_the_panel_opens_the_curtain_witness:
  "\<exists>c'. touch_thread 240 320 50 60 [\<lparr> pressed = True, sx = 90, sy = 300 \<rparr>] (sample_center \<lparr> sys_status := OUT \<rparr>)
     = Ret (True, c') \<and> mb_items (nrf_mb c') = [ucast left] \<and> sys_status c' = OUT
     \<and> mode_text (screen (ui c')) = Some '' Home ''"
  using cancelling_the_panel_opens_the_curtain [of 50 60 240 320 90 300 "sample_center \<lparr> sys_status := OUT \<rparr>"]
  by (auto simp: TIME_def CANCLE_def Curtain_OPEN_def in_area_def word_less_nat_alt)

section \<open>A command received by message\<close>

text \<open>
  C12. A notification with an index below 99 makes the reader fetch the message twice and obey the
  second copy: \<open>report status\<close> before \<open>home\<close> before \<open>out\<close>, with the confirmation or the requested
  report queued for the sender, and a list of the commands for any other text. The block of the
  heap is returned, the receive buffer is cleared and the reader stays alive.
\<close>

theorem message_command_is_obeyed:
  assumes "sms_alive c" and "gsm_sem c \<noteq> 0" and "rx_sta (modem c) = 0"
    and msg: "strstr (rx_buf (modem c)) ''+CMTI:'' = Some pt" "strcmp (drop 12 pt) ''99'' < 0"
    and "replies (modem c) = Some first # Some text # rs"
    and room: "mb_ok (gsm_mb c)" "length (mb_items (gsm_mb c)) < unat (mb_size (gsm_mb c))"
  defines "report \<equiv> strstr text ''report status'' \<noteq> None" and "home \<equiv> strstr text ''home'' \<noteq> None"
    and "out \<equiv> strstr text ''out'' \<noteq> None"
  shows "let c' = GSM_read_thread width True c in
    sys_status c' = (if report then sys_status c else if home then HOME else if out then OUT else sys_status c)
    \<and> mb_items (gsm_mb c') = mb_items (gsm_mb c) @ [if report then 11 else if home \<or> out then 44 else 88]
    \<and> tx (modem c') = tx (modem c) @ (let cmd = ''AT+CMGR='' @ drop 12 pt @ nl @ nl in [cmd, cmd])
    \<and> heap_blocks (modem c') = heap_blocks (modem c) \<and> rx_buf (modem c') = []
    \<and> replies (modem c') = rs \<and> sms_alive c'"
proof -
  let ?cmd = "''AT+CMGR='' @ drop 12 pt @ nl @ nl"
  let ?over = "stack_overrun (modem c) + overrun 1 (drop 12 pt) + overrun 1 ?cmd"
  let ?d = "c \<lparr> gsm_sem := gsm_sem c - 1, modem := (modem c) \<lparr> tx := tx (modem c) @ [?cmd, ?cmd],
     rx_buf := text, replies := rs, heap_blocks := heap_blocks (modem c) + 1, stack_overrun := ?over \<rparr> \<rparr>"
  have "GSM_read_thread width True c = sms_done (sms_dispatch width ?d)"
    using assms(1-6)
    by (cases "modem c") (auto simp: GSM_read_thread_def sms_loop.simps sms_fetch_def Let_def sprintf1_def
        sms_ask_def usart2_senddata_def await_simps clear_buf_def)
  moreover have "mb_items (snd (mb_put v (gsm_mb c))) = mb_items (gsm_mb c) @ [v]" for v
    using mb.put_accepts [OF room] by simp
  ultimately show ?thesis
    using assms(1) unfolding report_def home_def out_def
    by (auto simp: sms_dispatch_def sms_done_def sms_release_def give_up_def clear_buf_def sms_set_mode_def
        post_gsm_def show_lcd_def Let_def report_status_def set_ok_def tips_def HOME_def OUT_def)
qed

lemma message_command_is_obeyed_witness:
  "sys_status (GSM_read_thread 240 True (sample_center \<lparr> gsm_sem := 1, modem := silent_modem
     \<lparr> rx_buf := ''+CMTI: SM  ,5'', replies := [Some [], Some ''go out''] \<rparr> \<rparr>)) = OUT"
proof -
  have "strstr ''+CMTI: SM  ,5'' ''+CMTI:'' = Some ''+CMTI: SM  ,5''"
    "strstr ''go out'' ''report status'' = None" "strstr ''go out'' ''home'' = None"
    "strstr ''go out'' ''out'' \<noteq> None"
    by (simp_all add: strstr_Cons strstr_Nil)
  then show ?thesis
    using message_command_is_obeyed [of "sample_center \<lparr> gsm_sem := 1, modem := silent_modem
     \<lparr> rx_buf := ''+CMTI: SM  ,5'', replies := [Some [], Some ''go out''] \<rparr> \<rparr>" "''+CMTI: SM  ,5''" "[]" "''go out''" "[]" 240]
    by (simp add: silent_modem_def Let_def)
qed

end
