(* ===== verification/Web_Facts.thy ===== *)
theory Web_Facts
  imports Web_Cgi Center_Facts
begin

text \<open>
  What a browser sees: the page a form answers with is the one whose name states the mode, the
  beeper and the lamps, and the inserted values are the decimal texts of the sensors and the
  clock.
\<close>

section \<open>Pages\<close>

text \<open>What the name of a page says: home, beeper on, bedroom lamp on, corridor lamp on.\<close>

definition page_says :: "string \<Rightarrow> bool \<times> bool \<times> bool \<times> bool" where
  "page_says p =
     (let says = (\<lambda>t. strstr p ''allon'' \<noteq> None \<or> strstr p t \<noteq> None)
      in (says ''modehome'', says ''beepon'', says ''edroomon'', says ''corridoron''))"

definition page_for :: "bool \<times> bool \<times> bool \<times> bool \<Rightarrow> string \<Rightarrow> bool" where
  "page_for s p \<longleftrightarrow> page_says p = s \<and> p \<in> set fs_root"

lemma pages_out:
  "page_for (False, False, False, False) ''/alloff.shtml''"
  "page_for (False, False, True, False) ''/bedroomon.shtml''"
  "page_for (False, False, True, True) ''/bedroomon_corridoron.shtml''"
  "page_for (False, True, False, False) ''/beepon.shtml''"
  "page_for (False, True, True, False) ''/beepon_Bedroomon.shtml''"
  "page_for (False, True, True, True) ''/beepon_bedroomon_corridoron.shtml''"
  "page_for (False, True, False, True) ''/beepon_corridoron.shtml''"
  "page_for (False, False, False, True) ''/corridoron.shtml''"
  by code_simp+

lemma pages_home:
  "page_for (True, True, True, True) ''/allon.shtml''"
  "page_for (True, False, False, False) ''/modehome.shtml''"
  "page_for (True, False, True, False) ''/modehome_bedroomon.shtml''"
  "page_for (True, False, True, True) ''/modehome_bedroomon_corridoron.shtml''"
  "page_for (True, True, False, False) ''/modehome_beepon.shtml''"
  "page_for (True, True, True, False) ''/modehome_beepon_bedroomon.shtml''"
  "page_for (True, True, False, True) ''/modehome_beepon_corridoron.shtml''"
  "page_for (True, False, False, True) ''/modehome_corridoron.shtml''"
  by code_simp+

lemma page_out:
  assumes "sys_status c = OUT"
  shows "page_for (False, beep c, \<not> red_led c, \<not> green_led (ui c)) (cgi_page c)"
  using assms
  by (cases "beep c"; cases "red_led c"; cases "green_led (ui c)")
    (simp_all add: cgi_page_def state_is_def HOME_def OUT_def pages_out)

lemma page_home:
  assumes "sys_status c = HOME"
  shows "page_for (True, beep c, \<not> red_led c, \<not> green_led (ui c)) (cgi_page c)"
  using assms
  by (cases "beep c"; cases "red_led c"; cases "green_led (ui c)")
    (simp_all add: cgi_page_def state_is_def HOME_def OUT_def pages_home)

lemma form_page:
  assumes "i < length (ppcURLs w)" and "snd (ppcURLs w ! i) ps c = (page, c')"
  shows "page = cgi_page c'"
  using assms(1)
  by (rule forms_cases)
    (use assms(2) in \<open>auto simp: LEDS_CGI_Handler_def BEEP_CGI_Handler_def MODE_CGI_Handler_def Let_def\<close>)

lemma fs_malloc_free: "None \<in> set fs \<Longrightarrow> \<exists>slot < length fs. fs_malloc fs = Some slot \<and> fs ! slot = None"
  by (induction fs rule: fs_malloc.induct) auto

lemma fs_find_listed: "name \<in> set fs \<Longrightarrow> \<exists>i. fs_find n name fs = Some i"
  by (induction n name fs rule: fs_find.induct) (auto simp: strcmp_0_iff)

text \<open>
  C3. After every history of the controller and of earlier requests, whichever form is sent
  with whatever parameters, the answered page is one whose name states exactly the new mode,
  beeper and lamps, never the page for an error; and it is opened whenever one of the ten file
  slots is free.
\<close>

theorem form_answers_the_state:
  assumes "length pool = 4" "length pool' = 4"
    and "run width height fl as (Smart_IOT_Center width p g pool pool') = Ret c"
    and "i < length (ppcURLs width)" and "snd (ppcURLs width ! i) ps c = (page, c')"
    and "None \<in> set files"
  shows "page_says page = (sys_status c' = HOME, beep c', \<not> red_led c', \<not> green_led (ui c'))
    \<and> (\<exists>slot. fst (fs_open lens page files) = Some slot)"
proof -
  have "center_ok c" by (rule run_ok [OF assms(3) start_ok [OF assms(1,2)]])
  then have "center_ok c'" using form_ok [of c i width ps] assms(4,5) by simp
  then have "sys_status c' = HOME \<or> sys_status c' = OUT" by (simp add: center_ok_def)
  then have "page_for (sys_status c' = HOME, beep c', \<not> red_led c', \<not> green_led (ui c')) page"
    using page_out [of c'] page_home [of c'] form_page [OF assms(4,5)] by (auto simp: HOME_def OUT_def)
  moreover obtain slot where "fs_malloc files = Some slot" using fs_malloc_free [OF assms(6)] by blast
  ultimately show ?thesis
    using fs_find_listed [of page fs_root 0] by (auto simp: page_for_def fs_open_def)
qed

lemma form_answers_the_state_witness:
  "\<exists>c'. snd (ppcURLs 240 ! 2) [(''Mode'', ''Out'')] sample_center = (''/alloff.shtml'', c')
     \<and> page_says ''/alloff.shtml'' = (sys_status c' = HOME, beep c', \<not> red_led c', \<not> green_led (ui c'))"
  (is "\<exists>c'. ?req = (_, c') \<and> _")
proof -
  obtain page c' where r: "?req = (page, c')" by (cases ?req)
  then have "page = ''/alloff.shtml''"
    by (auto simp: ppcURLs_def MODE_CGI_Handler_def FindCGIParameter_def Let_def mode_param_def cgi_page_def
        state_is_def show_lcd_def draw_def sample_panel_def sample_center_def Smart_IOT_Center_def)
  moreover have "page_says page = (sys_status c' = HOME, beep c', \<not> red_led c', \<not> green_led (ui c'))"
    using form_answers_the_state [of "[0, 0, 0, 0]" "[0, 0, 0, 0]" 240 320 "\<lambda>x. x" "[]" sample_panel
        silent_modem sample_center 2 "[(''Mode'', ''Out'')]" page c' "[None]"] r
    by (simp add: sample_center_def ppcURLs_def)
  ultimately show ?thesis using r by blast
qed

section \<open>Inserted values\<close>

text \<open>The texts inserted for a sequence of tags; the buffer is the same for all of them.\<close>

fun ssi_page :: "(rat \<Rightarrow> rat) \<Rightarrow> web_values \<Rightarrow> int list \<Rightarrow> string \<Rightarrow> string list" where
  "ssi_page fl w [] buf = []"
| "ssi_page fl w (i # is) buf = (let (n, buf) = SSIHandler fl i w buf in take n buf # ssi_page fl w is buf)"

definition volt_text :: "nat \<Rightarrow> string" where
  "volt_text v = (if v = 100 then ''0.00'' else dec (v div 100) @ ''.'' @ dec2 (v mod 100))"

lemma chr_digit:
  assumes "unat d < 10"
  shows "chr d = digit (unat d)" and "chr d \<noteq> CHR 0x00"
proof -
  have "unat (ucast d :: u8) = unat d" using assms by (simp add: unat_ucast_mod)
  then have "unat (ucast d + 0x30 :: u8) = unat d + 48" using assms by (simp add: unat_word_ariths)
  then show c: "chr d = digit (unat d)" by (simp add: chr_def digit_def add.commute)
  show "chr d \<noteq> CHR 0x00"
  proof
    assume "chr d = CHR 0x00"
    then have "(of_char (digit (unat d)) :: nat) = 0" using c by simp
    with assms show False by (simp add: of_char_digit)
  qed
qed

lemma digit_0: "digit 0 = CHR ''0''"
  by code_simp

lemma dec2_digits: "n < 100 \<Longrightarrow> dec2 n = [digit (n div 10), digit (n mod 10)]"
  by (cases "n < 10") (simp_all add: dec2_def dec_step digit_0)

text \<open>An insert without a NUL over a buffer that holds nothing but NULs behind it.\<close>

definition blank_from :: "nat \<Rightarrow> string \<Rightarrow> bool" where
  "blank_from n buf \<longleftrightarrow> set (drop n buf) \<subseteq> {CHR 0x00}"

lemma inserted:
  assumes "blank_from n buf" and "n \<le> length s" and "length s < length buf" and "CHR 0x00 \<notin> set s"
  shows "take (length (takeWhile (\<lambda>ch. ch \<noteq> CHR 0x00) (put_chars s buf))) (put_chars s buf) = s"
    and "blank_from (length s) (put_chars s buf)" and "length (put_chars s buf) = length buf"
proof -
  have sub: "set (drop (length s) buf) \<subseteq> {CHR 0x00}"
    using assms(1,2) set_drop_subset_set_drop [of n "length s" buf] by (auto simp: blank_from_def)
  obtain c r where r: "drop (length s) buf = c # r" using assms(3) by (cases "drop (length s) buf") auto
  with sub have c: "c = CHR 0x00" by simp
  have "takeWhile (\<lambda>ch. ch \<noteq> CHR 0x00) (s @ CHR 0x00 # r) = s"
    using assms(4) by (induction s) auto
  then show "take (length (takeWhile (\<lambda>ch. ch \<noteq> CHR 0x00) (put_chars s buf))) (put_chars s buf) = s"
    using r c by (simp add: put_chars_def)
  show "blank_from (length s) (put_chars s buf)" "length (put_chars s buf) = length buf"
    using sub assms(3) by (simp_all add: blank_from_def put_chars_def)
qed

text \<open>A run of inserts, each at least as long as the one before it.\<close>

lemma ssi_page_step:
  assumes "SSIHandler fl i w buf = (length (takeWhile (\<lambda>ch. ch \<noteq> CHR 0x00) (put_chars s buf)), put_chars s buf)"
    and "blank_from n buf" and "n \<le> length s" and "length s < length buf" and "CHR 0x00 \<notin> set s"
  shows "ssi_page fl w (i # is) buf = s # ssi_page fl w is (put_chars s buf)"
    and "blank_from (length s) (put_chars s buf)" and "length (put_chars s buf) = length buf"
  using assms(1) inserted [OF assms(2-5)] by simp_all

lemma two_digits:
  assumes "unat (x :: u8) < 100"
  shows "[chr (ucast (x div 10)), chr (ucast (x mod 10))] = dec2 (unat x)"
    and "CHR 0x00 \<notin> set (dec2 (unat x))" and "length (dec2 (unat x)) = 2"
proof -
  have "unat (ucast (x div 10) :: u16) = unat x div 10" "unat (ucast (x mod 10) :: u16) = unat x mod 10"
    by (simp_all add: unat_div unat_mod)
  moreover have "unat x div 10 < 10" using assms by linarith
  ultimately have small: "unat (ucast (x div 10) :: u16) < 10" "unat (ucast (x mod 10) :: u16) < 10"
    and "unat (ucast (x div 10) :: u16) = unat x div 10" "unat (ucast (x mod 10) :: u16) = unat x mod 10"
    by simp_all
  then show e: "[chr (ucast (x div 10)), chr (ucast (x mod 10))] = dec2 (unat x)"
    using assms by (simp add: chr_digit dec2_digits)
  show "length (dec2 (unat x)) = 2" using assms by (simp add: length_dec2)
  show "CHR 0x00 \<notin> set (dec2 (unat x))"
    unfolding e [symmetric] using chr_digit(2) [OF small(1)] chr_digit(2) [OF small(2)] by auto
qed

lemma volt_chars_text:
  assumes "unat v < 1000"
  shows "volt_chars v = volt_text (unat v)" and "CHR 0x00 \<notin> set (volt_chars v)"
    and "length (volt_chars v) = 4"
proof -
  obtain a b c where d: "volt_digits v = (a, b, c)" by (cases "volt_digits v") auto
  have abc: "unat a < 10 \<and> unat b < 10 \<and> unat c < 10 \<and>
      (if unat v = 100 then unat a = 0 \<and> unat b = 0 \<and> unat c = 0
       else unat a = unat v div 100 \<and> unat b = unat v mod 100 div 10 \<and> unat c = unat v mod 100 mod 10)"
    using d assms
    by (auto simp: volt_digits_def word_less_nat_alt unat_div unat_mod mod_mod_cancel split: if_splits)
  then have t: "volt_chars v = [digit (unat a), CHR ''.'', digit (unat b), digit (unat c)]"
    using d by (simp add: volt_chars_def chr_digit)
  show "volt_chars v = volt_text (unat v)"
  proof (cases "unat v = 100")
    case True
    with abc t show ?thesis by (simp add: volt_text_def digit_0)
  next
    case False
    with abc t assms show ?thesis by (simp add: volt_text_def dec2_digits)
  qed
  show "CHR 0x00 \<notin> set (volt_chars v)"
    using d abc chr_digit(2) [of a] chr_digit(2) [of b] chr_digit(2) [of c]
    by (auto simp: volt_chars_def)
  show "length (volt_chars v) = 4" by (simp add: t)
qed

definition time_text :: "calendar_obj \<Rightarrow> string" where
  "time_text cal = dec2 (unat (c_hour cal)) @ '':'' @ dec2 (unat (c_min cal)) @ '':'' @ dec2 (unat (c_sec cal))"

definition date_text :: "calendar_obj \<Rightarrow> string" where
  "date_text cal = ''20'' @ dec2 (unat (w_year cal) mod 100) @ ''-'' @ dec2 (unat (w_month cal)) @ ''-''
     @ dec2 (unat (w_date cal)) @ '' week:'' @ dec (unat (c_week cal))"

lemma two_digits16:
  assumes "unat (x :: u16) < 100"
  shows "[chr (x div 10), chr (x mod 10)] = dec2 (unat x)"
    and "CHR 0x00 \<notin> set (dec2 (unat x))" and "length (dec2 (unat x)) = 2"
proof -
  have "unat x div 10 < 10" using assms by linarith
  then have small: "unat (x div 10) < 10" "unat (x mod 10) < 10" by (simp_all add: unat_div unat_mod)
  then show e: "[chr (x div 10), chr (x mod 10)] = dec2 (unat x)"
    using assms by (simp add: chr_digit dec2_digits unat_div unat_mod)
  show "length (dec2 (unat x)) = 2" using assms by (simp add: length_dec2)
  show "CHR 0x00 \<notin> set (dec2 (unat x))"
    unfolding e [symmetric] using chr_digit(2) [OF small(1)] chr_digit(2) [OF small(2)] by auto
qed

lemma time_handler:
  assumes "unat (c_hour cal) < 100" "unat (c_min cal) < 100" "unat (c_sec cal) < 100"
  shows "RTCTime_Handler cal = put_chars (time_text cal)" and "CHR 0x00 \<notin> set (time_text cal)"
    and "length (time_text cal) = 8"
proof -
  note two = two_digits [OF assms(1)] two_digits [OF assms(2)] two_digits [OF assms(3)]
  show "RTCTime_Handler cal = put_chars (time_text cal)"
    by (simp add: RTCTime_Handler_def time_text_def Let_def two(1,4,7) [symmetric])
  show "CHR 0x00 \<notin> set (time_text cal)" "length (time_text cal) = 8"
    using two by (simp_all add: time_text_def)
qed

lemma date_handler:
  assumes "unat (w_month cal) < 100" "unat (w_date cal) < 100" "unat (c_week cal) < 10"
  shows "RTCdate_Handler cal = put_chars (date_text cal)" and "CHR 0x00 \<notin> set (date_text cal)"
    and "length (date_text cal) = 17"
proof -
  have y: "unat (w_year cal mod 100) < 100" by (simp add: unat_mod)
  have y10: "w_year cal mod 10 = w_year cal mod 100 mod 10"
    by (simp add: word_unat_eq_iff unat_mod mod_mod_cancel)
  note two = two_digits16 [OF y] two_digits16 [of "ucast (w_month cal)"] two_digits16 [of "ucast (w_date cal)"]
  have week: "chr (ucast (c_week cal)) = digit (unat (c_week cal))" "digit (unat (c_week cal)) \<noteq> CHR 0x00"
    using chr_digit [of "ucast (c_week cal)"] assms(3) by simp_all
  have texts: "dec2 (unat (w_year cal) mod 100) = [chr (w_year cal mod 100 div 10), chr (w_year cal mod 100 mod 10)]"
    "dec2 (unat (w_month cal)) = [chr (ucast (w_month cal) div 10), chr (ucast (w_month cal) mod 10)]"
    "dec2 (unat (w_date cal)) = [chr (ucast (w_date cal) div 10), chr (ucast (w_date cal) mod 10)]"
    using two(1,4,7) assms by (simp_all add: unat_mod)
  show "RTCdate_Handler cal = put_chars (date_text cal)"
    by (simp add: RTCdate_Handler_def date_text_def Let_def y10 week texts assms(3))
  show "CHR 0x00 \<notin> set (date_text cal)" "length (date_text cal) = 17"
    using two assms week by (simp_all add: date_text_def unat_mod)
qed

text \<open>
  The two pages with values are filled in correctly although no handler writes a closing NUL:
  on the page of the sensors temperature and humidity appear with two digits and the three
  voltages with two decimals, on the page of the clock time and date appear as the calendar
  holds them. The one exception is a value of exactly one volt, which is shown as 0.00.
\<close>

theorem pages_show_the_values:
  assumes "unat (v_temp w) < 100" "unat (v_humi w) < 100"
    and "unat (hundredths fl (get_aver_val fl (v_fire w))) < 1000"
    and "unat (hundredths fl (get_aver_val fl (v_gas w))) < 1000"
    and "unat (hundredths fl (v_light w)) < 1000"
    and "unat (c_hour (v_cal w)) < 100" "unat (c_min (v_cal w)) < 100" "unat (c_sec (v_cal w)) < 100"
    and "unat (w_month (v_cal w)) < 100" "unat (w_date (v_cal w)) < 100" "unat (c_week (v_cal w)) < 10"
    and "blank_from 0 buf" and "17 < length buf"
  shows "ssi_page fl w [0, 1, 2, 3, 4] buf =
      [dec2 (unat (v_temp w)), dec2 (unat (v_humi w)),
       volt_text (unat (hundredths fl (get_aver_val fl (v_fire w)))),
       volt_text (unat (hundredths fl (get_aver_val fl (v_gas w)))),
       volt_text (unat (hundredths fl (v_light w)))]
    \<and> ssi_page fl w [5, 6] buf = [time_text (v_cal w), date_text (v_cal w)]"
proof
  note v = volt_chars_text [OF assms(3)] volt_chars_text [OF assms(4)] volt_chars_text [OF assms(5)]
  note t = two_digits [OF assms(1)] two_digits [OF assms(2)]
  note ssi_defs = SSIHandler_def Let_def Temperate_Handler_def Humidity_Handler_def Fire_Handler_def
    MQ_Handler_def Light_sensor_Handler_def
  let ?b1 = "put_chars (dec2 (unat (v_temp w))) buf"
  let ?b2 = "put_chars (dec2 (unat (v_humi w))) ?b1"
  let ?b3 = "put_chars (volt_chars (hundredths fl (get_aver_val fl (v_fire w)))) ?b2"
  let ?b4 = "put_chars (volt_chars (hundredths fl (get_aver_val fl (v_gas w)))) ?b3"
  note s1 = ssi_page_step [of fl 0 w buf "dec2 (unat (v_temp w))" 0]
  note s2 = ssi_page_step [of fl 1 w ?b1 "dec2 (unat (v_humi w))" 2]
  note s3 = ssi_page_step [of fl 2 w ?b2 "volt_chars (hundredths fl (get_aver_val fl (v_fire w)))" 2]
  note s4 = ssi_page_step [of fl 3 w ?b3 "volt_chars (hundredths fl (get_aver_val fl (v_gas w)))" 4]
  note s5 = ssi_page_step [of fl 4 w ?b4 "volt_chars (hundredths fl (v_light w))" 4]
  have i1: "ssi_page fl w (0 # is) buf = dec2 (unat (v_temp w)) # ssi_page fl w is ?b1"
    "blank_from 2 ?b1" "length ?b1 = length buf" for "is"
    using s1 t assms(12,13) by (simp_all add: ssi_defs)
  have i2: "ssi_page fl w (1 # is) ?b1 = dec2 (unat (v_humi w)) # ssi_page fl w is ?b2"
    "blank_from 2 ?b2" "length ?b2 = length buf" for "is"
    using s2 t i1(2,3) assms(13) by (simp_all add: ssi_defs)
  have i3: "ssi_page fl w (2 # is) ?b2 = volt_chars (hundredths fl (get_aver_val fl (v_fire w))) # ssi_page fl w is ?b3"
    "blank_from 4 ?b3" "length ?b3 = length buf" for "is"
    using s3 v i2(2,3) assms(13) by (simp_all add: ssi_defs)
  have i4: "ssi_page fl w (3 # is) ?b3 = volt_chars (hundredths fl (get_aver_val fl (v_gas w))) # ssi_page fl w is ?b4"
    "blank_from 4 ?b4" "length ?b4 = length buf" for "is"
    using s4 v i3(2,3) assms(13) by (simp_all add: ssi_defs)
  have i5: "ssi_page fl w [4] ?b4 = [volt_chars (hundredths fl (v_light w))]"
    using s5 v i4(2,3) assms(13) by (simp_all add: ssi_defs)
  show "ssi_page fl w [0, 1, 2, 3, 4] buf =
      [dec2 (unat (v_temp w)), dec2 (unat (v_humi w)),
       volt_text (unat (hundredths fl (get_aver_val fl (v_fire w)))),
       volt_text (unat (hundredths fl (get_aver_val fl (v_gas w)))),
       volt_text (unat (hundredths fl (v_light w)))]"
    by (simp only: i1(1) i2(1) i3(1) i4(1) i5 v(1,4,7) [symmetric])
next
  note h = time_handler [OF assms(6-8)] date_handler [OF assms(9-11)]
  let ?b1 = "put_chars (time_text (v_cal w)) buf"
  have i1: "ssi_page fl w (5 # is) buf = time_text (v_cal w) # ssi_page fl w is ?b1"
    "blank_from 8 ?b1" "length ?b1 = length buf" for "is"
    using ssi_page_step [of fl 5 w buf "time_text (v_cal w)" 0] h assms(12,13)
    by (simp_all add: SSIHandler_def Let_def)
  show "ssi_page fl w [5, 6] buf = [time_text (v_cal w), date_text (v_cal w)]"
    unfolding i1(1)
    using ssi_page_step(1) [of fl 6 w ?b1 "date_text (v_cal w)" 8 "[]"] h i1(2,3) assms(13)
    by (simp add: SSIHandler_def Let_def)
qed

lemma pages_show_the_values_witness:
  "ssi_page (\<lambda>x. x) \<lparr> v_temp = 25, v_humi = 60, v_fire = [1241], v_gas = [500], v_light = 1,
      v_cal = \<lparr> c_hour = 21, c_min = 5, c_sec = 0, w_year = 2019, w_month = 8, w_date = 6, c_week = 2 \<rparr> \<rparr> [0, 1, 2, 3, 4] (replicate 193 CHR 0x00)
    = [''25'', ''60'', ''0.99'', ''0.40'', ''0.00'']"
proof -
  have "\<lfloor>204765 / 2048 :: rat\<rfloor> = 99" "\<lfloor>20625 / 512 :: rat\<rfloor> = 40"
    by (rule floor_unique; simp)+
  then have v: "hundredths (\<lambda>x. x) (get_aver_val (\<lambda>x. x) [1241]) = 99" "hundredths (\<lambda>x. x) (get_aver_val (\<lambda>x. x) [500]) = 40"
    "hundredths (\<lambda>x. x) 1 = 100"
    by (simp_all add: hundredths_def get_aver_val_def adc_sum_def)
  have t: "dec2 25 = ''25''" "dec2 60 = ''60''" "volt_text 99 = ''0.99''" "volt_text 40 = ''0.40''" "volt_text 100 = ''0.00''"
    by code_simp+
  show ?thesis
    using pages_show_the_values [of "\<lparr> v_temp = 25, v_humi = 60, v_fire = [1241], v_gas = [500], v_light = 1,
      v_cal = \<lparr> c_hour = 21, c_min = 5, c_sec = 0, w_year = 2019, w_month = 8, w_date = 6, c_week = 2 \<rparr> \<rparr>" "\<lambda>x. x" "replicate 193 CHR 0x00"]
    by (simp add: v t blank_from_def del: ssi_page.simps)
qed

end
