(* ===== verification/Touch_Input.thy ===== *)
theory Touch_Input
  imports Bits "HOL-Library.Multiset"
begin

text \<open>
  The reading of the resistive touch controller (\<open>applications/touch.c\<close>): the command byte and the
  sixteen clocks of a conversion on the pins, the filter over five conversions, and the pair of
  readings that must agree. The converter chip is a parameter: the level of its output at the next
  rising edge of the clock, after what it has seen on its pins.
\<close>

section \<open>Pins\<close>

datatype adc_symbol = Select | Clock bool

record adc_port =
  tclk :: bool
  tdin :: bool
  tcs :: bool                      \<comment> \<open>chip select, active low\<close>
  dout :: bool                     \<comment> \<open>level of \<open>DOUT\<close> at the last rising edge\<close>
  adc_seen :: "adc_symbol list"

type_synonym adc_chip = "adc_symbol list \<Rightarrow> bool"

definition set_tclk :: "adc_chip \<Rightarrow> bool \<Rightarrow> adc_port \<Rightarrow> adc_port" where
  "set_tclk chip v p =
     (if v \<and> \<not> tclk p
      then p \<lparr> tclk := v, dout := chip (adc_seen p), adc_seen := adc_seen p @ [Clock (tdin p)] \<rparr>
      else p \<lparr> tclk := v \<rparr>)"

definition set_tcs :: "bool \<Rightarrow> adc_port \<Rightarrow> adc_port" where
  "set_tcs v p =
     (if tcs p \<and> \<not> v then p \<lparr> tcs := v, adc_seen := adc_seen p @ [Select] \<rparr> else p \<lparr> tcs := v \<rparr>)"

section \<open>A conversion\<close>

fun write_bits :: "adc_chip \<Rightarrow> nat \<Rightarrow> u8 \<Rightarrow> adc_port \<Rightarrow> adc_port" where
  "write_bits chip 0 num p = p"
| "write_bits chip (Suc left) num p =
     (let p = p \<lparr> tdin := (and num 0x80 \<noteq> 0) \<rparr>;
          p = set_tclk chip False p;
          p = set_tclk chip True p
      in write_bits chip left (push_bit 1 num) p)"

definition TP_Write_Byte :: "adc_chip \<Rightarrow> u8 \<Rightarrow> adc_port \<Rightarrow> adc_port" where
  "TP_Write_Byte chip num p = write_bits chip 8 num p"

fun read_adc_bits :: "adc_chip \<Rightarrow> nat \<Rightarrow> u16 \<Rightarrow> adc_port \<Rightarrow> u16 \<times> adc_port" where
  "read_adc_bits chip 0 Num p = (Num, p)"
| "read_adc_bits chip (Suc left) Num p =
     (let Num = push_bit 1 Num;
          p = set_tclk chip False p;
          p = set_tclk chip True p
      in read_adc_bits chip left (if dout p then Num + 1 else Num) p)"

definition TP_Read_AD :: "adc_chip \<Rightarrow> u8 \<Rightarrow> adc_port \<Rightarrow> u16 \<times> adc_port" where
  "TP_Read_AD chip CMD p =
     (let p = set_tclk chip False p;
          p = p \<lparr> tdin := False \<rparr>;
          p = set_tcs False p;
          p = TP_Write_Byte chip CMD p;
          p = set_tclk chip False p;
          p = set_tclk chip True p;
          p = set_tclk chip False p;
          (Num, p) = read_adc_bits chip 16 0 p
      in (drop_bit 4 Num, set_tcs True p))"

section \<open>The filter\<close>

definition READ_TIMES :: nat where "READ_TIMES = 5"
definition LOST_VAL :: nat where "LOST_VAL = 1"

fun read_times :: "adc_chip \<Rightarrow> nat \<Rightarrow> u8 \<Rightarrow> adc_port \<Rightarrow> u16 list \<times> adc_port" where
  "read_times chip 0 xy p = ([], p)"
| "read_times chip (Suc i) xy p =
     (let (v, p) = TP_Read_AD chip xy p; (vs, p) = read_times chip i xy p in (v # vs, p))"

text \<open>The exchange sort of the two nested loops.\<close>

definition exchange :: "nat \<Rightarrow> nat \<Rightarrow> u16 list \<Rightarrow> u16 list" where
  "exchange i j buf = (if buf ! i > buf ! j then buf[i := buf ! j, j := buf ! i] else buf)"

definition sort_buf :: "nat \<Rightarrow> u16 list \<Rightarrow> u16 list" where
  "sort_buf n buf = foldl (\<lambda>buf i. foldl (\<lambda>buf j. exchange i j buf) buf [i + 1..<n]) buf [0..<n - 1]"

definition TP_Read_XOY :: "adc_chip \<Rightarrow> u8 \<Rightarrow> adc_port \<Rightarrow> u16 \<times> adc_port" where
  "TP_Read_XOY chip xy p =
     (let (buf, p) = read_times chip READ_TIMES xy p;
          buf = sort_buf READ_TIMES buf;
          sum = foldl (\<lambda>sum i. sum + buf ! i) 0 [LOST_VAL..<READ_TIMES - LOST_VAL]
      in (sum div of_nat (READ_TIMES - 2 * LOST_VAL), p))"

text \<open>\<open>TP_Read_XY\<close> always succeeds; the commands of the two directions are globals.\<close>

definition TP_Read_XY :: "adc_chip \<Rightarrow> u8 \<Rightarrow> u8 \<Rightarrow> adc_port \<Rightarrow> u8 \<times> u16 \<times> u16 \<times> adc_port" where
  "TP_Read_XY chip CMD_RDX CMD_RDY p =
     (let (xtemp, p) = TP_Read_XOY chip CMD_RDX p;
          (ytemp, p) = TP_Read_XOY chip CMD_RDY p
      in (1, xtemp, ytemp, p))"

definition ERR_RANGE :: int where "ERR_RANGE = 50"

definition agree :: "u16 \<Rightarrow> u16 \<Rightarrow> bool" where
  "agree a b \<longleftrightarrow> uint b \<le> uint a \<and> uint a < uint b + ERR_RANGE \<or> uint a \<le> uint b \<and> uint b < uint a + ERR_RANGE"

text \<open>\<open>None\<close>: the coordinates of the caller are not written.\<close>

definition TP_Read_XY2 :: "adc_chip \<Rightarrow> u8 \<Rightarrow> u8 \<Rightarrow> adc_port \<Rightarrow> (u16 \<times> u16) option \<times> adc_port" where
  "TP_Read_XY2 chip CMD_RDX CMD_RDY p =
     (let (flag, x1, y1, p) = TP_Read_XY chip CMD_RDX CMD_RDY p
      in if flag = 0 then (None, p)
         else let (flag, x2, y2, p) = TP_Read_XY chip CMD_RDX CMD_RDY p
              in if flag = 0 then (None, p)
                 else if agree x1 x2 \<and> agree y1 y2
                 then (Some (word_of_int ((uint x1 + uint x2) div 2), word_of_int ((uint y1 + uint y2) div 2)), p)
                 else (None, p))"

section \<open>What a conversion reads\<close>

text \<open>The next levels of the chip's output while the input pin keeps its level.\<close>

fun output_bits :: "adc_chip \<Rightarrow> bool \<Rightarrow> nat \<Rightarrow> adc_symbol list \<Rightarrow> bool list" where
  "output_bits chip t 0 h = []"
| "output_bits chip t (Suc n) h = chip h # output_bits chip t n (h @ [Clock t])"

lemma length_output_bits [simp]: "length (output_bits chip t n h) = n"
  by (induction n arbitrary: h) simp_all

lemmas port_defs = set_tclk_def set_tcs_def

lemma read_adc_bits_seen:
  "fst (read_adc_bits chip n v p) = foldl shift_in v (output_bits chip (tdin p) n (adc_seen p))
    \<and> (n = 0 \<or> tclk (snd (read_adc_bits chip n v p)))
    \<and> tcs (snd (read_adc_bits chip n v p)) = tcs p"
proof (induction n arbitrary: v p)
  case (Suc n)
  let ?p = "set_tclk chip True (set_tclk chip False p)" and ?b = "chip (adc_seen p)"
  have p: "dout ?p = ?b" "adc_seen ?p = adc_seen p @ [Clock (tdin p)]" "tdin ?p = tdin p" "tclk ?p"
    "tcs ?p = tcs p"
    by (simp_all add: port_defs)
  have "read_adc_bits chip (Suc n) v p = read_adc_bits chip n (shift_in v ?b) ?p"
    by (simp only: read_adc_bits.simps Let_def p(1) shift_in_add)
  with Suc.IH [of "shift_in v ?b" ?p] p show ?case by (cases n) simp_all
qed simp

lemma write_bits_seen:
  "adc_seen (write_bits chip n num p) = adc_seen p @ map (\<lambda>i. Clock (bit (push_bit i num) 7)) [0..<n]
    \<and> tcs (write_bits chip n num p) = tcs p
    \<and> (0 < n \<longrightarrow> tdin (write_bits chip n num p) = bit (push_bit (n - 1) num) 7)"
proof (induction n arbitrary: num p)
  case (Suc n)
  let ?p = "set_tclk chip True (set_tclk chip False (p \<lparr> tdin := (and num 0x80 \<noteq> 0) \<rparr>))"
  have p: "adc_seen ?p = adc_seen p @ [Clock (bit num 7)]" "tcs ?p = tcs p" "tdin ?p = bit num 7"
    by (simp_all add: port_defs top_bit)
  show ?case
    using Suc.IH [of "push_bit 1 num" ?p] p
    by (cases n) (simp_all add: Let_def upt_conv_Cons map_Suc_upt [symmetric] comp_def del: upt_Suc)
qed simp

lemma bits_value_less: "bits_value bs < 2 ^ length bs"
proof (induction bs rule: rev_induct)
  case (snoc b bs)
  then show ?case by (cases b) (simp_all add: bits_value_snoc)
qed (simp add: bits_value_def)

text \<open>The upper twelve of sixteen bits.\<close>

lemma upper_twelve:
  assumes "length bs = 16"
  shows "unat (drop_bit 4 (foldl shift_in 0 bs :: u16)) = bits_value (take 12 bs)"
proof -
  have v: "unat (foldl shift_in 0 bs :: u16) = bits_value bs"
    using bits_value_less [of bs] assms by (simp add: shift_in_bits unat_of_nat_u16)
  have "bits_value bs = bits_value (take 12 bs) * 2 ^ 4 + bits_value (drop 12 bs)"
    using bits_value_append [of "take 12 bs" "drop 12 bs"] assms by simp
  moreover have "bits_value (drop 12 bs) < 2 ^ 4"
    using bits_value_less [of "drop 12 bs"] assms by simp
  ultimately have "bits_value bs div 16 = bits_value (take 12 bs)" by simp
  moreover have "take_bit 16 (bits_value bs) = bits_value bs"
    using bits_value_less [of bs] assms by (simp add: take_bit_nat_eq_self)
  ultimately show ?thesis by (simp only: unsigned_drop_bit_eq v) (simp add: drop_bit_eq_div)
qed

text \<open>
  What the chip has seen when its sixteen bits are read: the selection, the command and one more
  clock.
\<close>

definition commanded :: "u8 \<Rightarrow> adc_symbol list" where
  "commanded cmd = Select # map Clock (byte_bits cmd) @ [Clock (bit cmd 0)]"

lemma TP_Read_AD_reads:
  assumes "tcs p"
  shows "unat (fst (TP_Read_AD chip cmd p))
      = bits_value (take 12 (output_bits chip (bit cmd 0) 16 (adc_seen p @ commanded cmd)))
    \<and> tcs (snd (TP_Read_AD chip cmd p))"
proof -
  define q where "q = set_tcs False ((set_tclk chip False p) \<lparr> tdin := False \<rparr>)"
  define r where "r = set_tclk chip False (set_tclk chip True (set_tclk chip False (TP_Write_Byte chip cmd q)))"
  have q: "adc_seen q = adc_seen p @ [Select]" using assms by (simp add: q_def port_defs)
  have "map (\<lambda>i. Clock (bit (push_bit i cmd) 7)) [0..<8] = map Clock (byte_bits cmd)"
    unfolding shifted_bits [symmetric] map_map by (simp add: comp_def)
  then have r: "adc_seen r = adc_seen p @ commanded cmd" "tdin r = bit cmd 0"
    using write_bits_seen [of chip 8 cmd q] q
    by (simp_all add: r_def port_defs TP_Write_Byte_def commanded_def bit_push_bit_iff)
  have "TP_Read_AD chip cmd p = (let (v, s) = read_adc_bits chip 16 0 r in (drop_bit 4 v, set_tcs True s))"
    by (simp only: TP_Read_AD_def Let_def q_def r_def)
  then show ?thesis
    using read_adc_bits_seen [of chip 16 0 r] r by (simp add: split_beta upper_twelve port_defs)
qed

lemma TP_Read_AD_bound: "unat (fst (TP_Read_AD chip cmd p)) < 4096"
proof -
  define r where "r = set_tclk chip False (set_tclk chip True (set_tclk chip False (TP_Write_Byte chip cmd
    (set_tcs False ((set_tclk chip False p) \<lparr> tdin := False \<rparr>)))))"
  have "TP_Read_AD chip cmd p = (let (v, s) = read_adc_bits chip 16 0 r in (drop_bit 4 v, set_tcs True s))"
    by (simp only: TP_Read_AD_def Let_def r_def)
  then have "unat (fst (TP_Read_AD chip cmd p)) = bits_value (take 12 (output_bits chip (tdin r) 16 (adc_seen r)))"
    using read_adc_bits_seen [of chip 16 0 r] by (simp add: split_beta upper_twelve)
  then show ?thesis using bits_value_less [of "take 12 (output_bits chip (tdin r) 16 (adc_seen r))"] by simp
qed

section \<open>The exchange sort\<close>

lemma exchange_keeps:
  assumes "i < length buf" "j < length buf"
  shows "mset (exchange i j buf) = mset buf" "length (exchange i j buf) = length buf"
    "k \<noteq> i \<Longrightarrow> k \<noteq> j \<Longrightarrow> exchange i j buf ! k = buf ! k"
  using assms by (auto simp: exchange_def mset_swap)

text \<open>A sweep moves the least of the rest to its place.\<close>

lemma sweep:
  assumes "i < m" and "m \<le> length buf"
  defines "b \<equiv> foldl (\<lambda>buf j. exchange i j buf) buf [i + 1..<m]"
  shows "mset b = mset buf \<and> length b = length buf \<and> (\<forall>k. k < i \<or> m \<le> k \<longrightarrow> b ! k = buf ! k)
    \<and> (\<forall>k. i < k \<and> k < m \<longrightarrow> b ! i \<le> b ! k)"
proof -
  from assms(1) have "Suc i \<le> m" by simp
  then show ?thesis
    using assms(2) unfolding b_def
  proof (induction m rule: dec_induct)
    case (step m)
    let ?b = "foldl (\<lambda>buf j. exchange i j buf) buf [i + 1..<m]"
    have ih: "mset ?b = mset buf" "length ?b = length buf" "\<forall>k. k < i \<or> m \<le> k \<longrightarrow> ?b ! k = buf ! k"
      "\<forall>k. i < k \<and> k < m \<longrightarrow> ?b ! i \<le> ?b ! k"
      using step by simp_all
    have e: "foldl (\<lambda>buf j. exchange i j buf) buf [i + 1..<Suc m] = exchange i m ?b" using step by simp
    have l: "i < length ?b" "m < length ?b" "i \<noteq> m" using step ih(2) by simp_all
    have k: "mset (exchange i m ?b) = mset buf" "length (exchange i m ?b) = length buf"
      using exchange_keeps(1,2) [OF l(1,2)] ih by simp_all
    moreover have "exchange i m ?b ! k = buf ! k" if "k < i \<or> Suc m \<le> k" for k
      using exchange_keeps(3) [OF l(1,2), of k] ih(3) that step by auto
    moreover have "exchange i m ?b ! i \<le> exchange i m ?b ! k" if "i < k \<and> k < Suc m" for k
      using ih(4) that l by (fastforce simp: exchange_def nth_list_update less_Suc_eq)
    ultimately show ?case unfolding e by blast
  qed auto
qed

lemma drop_mset_eq:
  assumes "mset b = mset a" "length b = length a" "\<forall>k < i. b ! k = a ! k" "i \<le> length a"
  shows "set (drop i b) = set (drop i a)"
proof -
  have "take i b = take i a" using assms by (intro nth_equalityI) auto
  then have "mset (drop i b) = mset (drop i a)"
    using assms(1) by (metis add_left_imp_eq append_take_drop_id mset_append)
  then show ?thesis by (metis set_mset_mset)
qed

text \<open>The nested loops sort.\<close>

theorem sort_buf_sorts:
  assumes "length buf = n"
  shows "sort_buf n buf = sort buf"
proof -
  define f where "f buf i = foldl (\<lambda>buf j. exchange i j buf) buf [i + 1..<n]" for buf i
  have inv: "mset (foldl f buf [0..<m]) = mset buf \<and> length (foldl f buf [0..<m]) = n
    \<and> (\<forall>a < m. \<forall>b. a < b \<and> b < n \<longrightarrow> foldl f buf [0..<m] ! a \<le> foldl f buf [0..<m] ! b)" if "m \<le> n - 1" for m
    using that
  proof (induction m)
    case (Suc m)
    let ?b = "foldl f buf [0..<m]" and ?c = "foldl f buf [0..<Suc m]"
    have ih: "mset ?b = mset buf" "length ?b = n"
      "\<And>a b. a < m \<Longrightarrow> a < b \<Longrightarrow> b < n \<Longrightarrow> ?b ! a \<le> ?b ! b" using Suc by auto
    have c: "mset ?c = mset ?b" "length ?c = n" "\<forall>k < m. ?c ! k = ?b ! k"
      "\<And>k. m < k \<Longrightarrow> k < n \<Longrightarrow> ?c ! m \<le> ?c ! k"
      using sweep [of m n ?b] ih(2) Suc.prems by (auto simp: f_def)
    have d: "set (drop m ?c) = set (drop m ?b)"
      using c ih Suc.prems by (intro drop_mset_eq) auto
    have "?c ! a \<le> ?c ! b" if "a < Suc m" "a < b" "b < n" for a b
    proof (cases "a < m \<and> m \<le> b")
      case True
      then have "?c ! b \<in> set (drop m ?c)" using that c(2)
        by (auto simp: in_set_conv_nth intro: exI [of _ "b - m"])
      then obtain k where "m \<le> k" "k < n" "?c ! b = ?b ! k"
        unfolding d using ih(2) by (auto simp: in_set_conv_nth) (metis le_add1 less_diff_conv add.commute)
      with True ih(3) [of a k] c(3) show ?thesis by simp
    next
      case False
      with that c(3,4) ih(3) [of a b] show ?thesis by (auto simp: less_Suc_eq)
    qed
    with c ih show ?case by simp
  qed (simp add: assms)
  let ?r = "foldl f buf [0..<n - 1]"
  have r: "mset ?r = mset buf" "length ?r = n"
    "\<And>a b. a < n - 1 \<Longrightarrow> a < b \<Longrightarrow> b < n \<Longrightarrow> ?r ! a \<le> ?r ! b"
    using inv [of "n - 1"] by auto
  have "?r ! a \<le> ?r ! b" if "a < b" "b < length ?r" for a b
    using that r(2,3) by simp
  then have "sorted ?r" unfolding sorted_iff_nth_mono_less by blast
  with r(1) have "sort buf = ?r" by (metis properties_for_sort)
  moreover have "f = (\<lambda>buf i. foldl (\<lambda>buf j. exchange i j buf) buf [i + 1..<n])"
    by (intro ext) (simp only: f_def)
  ultimately show ?thesis by (simp only: sort_buf_def)
qed

lemma sort_unat: "sort (map unat buf) = map unat (sort (buf :: 'a::len word list))"
proof (rule properties_for_sort)
  have "sorted (map unat xs)" if "sorted xs" for xs :: "'a word list"
    using that by (auto simp: sorted_iff_nth_mono word_le_nat_alt)
  then show "sorted (map unat (sort buf))" by simp
qed simp

section \<open>The filter\<close>

lemma read_times_bounds:
  "length (fst (read_times chip n xy p)) = n
    \<and> (\<forall>v \<in> set (fst (read_times chip n xy p)). unat v < 4096)"
proof (induction n arbitrary: p)
  case (Suc n)
  then show ?case using TP_Read_AD_bound [of chip xy p] by (simp add: split_beta Let_def)
qed simp

text \<open>
  C26. \<open>TP_Read_XOY\<close> drops the smallest and the largest of five 12-bit conversions and returns the
  integer average of the other three: the nested loops sort, the 16-bit sum does not wrap, and
  so the result lies between the second smallest and the second largest reading, wherever a single
  bad reading may be.
\<close>

theorem TP_Read_XOY_averages_the_middle:
  defines "r chip xy p \<equiv> unat (fst (TP_Read_XOY chip xy p))"
    and "s chip xy p \<equiv> sort (map unat (fst (read_times chip 5 xy p)))"
  shows "r chip xy p = (s chip xy p ! 1 + s chip xy p ! 2 + s chip xy p ! 3) div 3
    \<and> s chip xy p ! 1 \<le> r chip xy p \<and> r chip xy p \<le> s chip xy p ! 3
    \<and> r chip xy p < 4096 \<and> snd (TP_Read_XOY chip xy p) = snd (read_times chip 5 xy p)"
proof -
  define buf where "buf = fst (read_times chip 5 xy p)"
  define t where "t = sort buf"
  have buf: "length buf = 5" "\<forall>v \<in> set t. unat v < 4096"
    using read_times_bounds [of chip 5 xy p] by (simp_all add: buf_def t_def)
  have s: "s chip xy p ! k = unat (t ! k)" if "k < 5" for k
    using that buf by (simp add: s_def buf_def [symmetric] sort_unat t_def)
  have t: "length t = 5" "sorted t" using buf(1) by (simp_all add: t_def)
  then have b: "unat (t ! k) < 4096" if "k < 5" for k using buf(2) that by simp
  have le: "unat (t ! 1) \<le> unat (t ! 2)" "unat (t ! 2) \<le> unat (t ! 3)"
    using t by (simp_all add: word_le_nat_alt [symmetric] sorted_nth_mono)
  have "unat (t ! 1 + t ! 2 + t ! 3) = unat (t ! 1) + unat (t ! 2) + unat (t ! 3)"
    using b [of 1] b [of 2] b [of 3] by (simp add: unat_word_ariths)
  moreover have "TP_Read_XOY chip xy p = ((t ! 1 + t ! 2 + t ! 3) div 3, snd (read_times chip 5 xy p))"
    using sort_buf_sorts [OF buf(1)]
    by (simp add: TP_Read_XOY_def READ_TIMES_def LOST_VAL_def split_beta t_def buf_def upt_rec Let_def eval_nat_numeral)
  ultimately have "r chip xy p = (unat (t ! 1) + unat (t ! 2) + unat (t ! 3)) div 3"
    and "snd (TP_Read_XOY chip xy p) = snd (read_times chip 5 xy p)"
    by (simp_all add: r_def unat_div)
  then show ?thesis using s [of 1] s [of 2] s [of 3] le b [of 3] by (simp add: less_mult_imp_div_less) linarith
qed

text \<open>Two readings agree when they differ by less than fifty; the caller gets their mean.\<close>

lemma TP_Read_XY2_agreeing:
  assumes "TP_Read_XY2 chip rx ry p = (Some (x, y), p')"
  defines "a \<equiv> TP_Read_XY chip rx ry p"
  defines "b \<equiv> TP_Read_XY chip rx ry (snd (snd (snd a)))"
  shows "uint x = (uint (fst (snd a)) + uint (fst (snd b))) div 2
    \<and> \<bar>uint (fst (snd a)) - uint (fst (snd b))\<bar> < 50
    \<and> uint y = (uint (fst (snd (snd a))) + uint (fst (snd (snd b)))) div 2
    \<and> \<bar>uint (fst (snd (snd a))) - uint (fst (snd (snd b)))\<bar> < 50"
proof -
  have mean: "uint (word_of_int ((uint u + uint v) div 2) :: u16) = (uint u + uint v) div 2" for u v :: u16
    using uint_lt2p [of u] uint_lt2p [of v] by (simp add: uint_word_of_int mod_pos_pos_trivial)
  have one: "fst (TP_Read_XY chip rx ry q) = 1" for q by (simp add: TP_Read_XY_def split_beta)
  show ?thesis
    using assms(1) unfolding a_def b_def TP_Read_XY2_def Let_def split_beta
    by (auto simp: one agree_def ERR_RANGE_def mean split: if_splits)
qed

end
