(* ===== verification/I2c_Bus.thy ===== *)
theory I2c_Bus
  imports Bits
begin

text \<open>
  The bit-banged two-wire bus of the EEPROM (\<open>applications/myiic.c\<close>): the two pins, the
  direction of the data pin, and what a chip on the bus sees of them: the level of the data line
  at every rising edge of the clock, and the start and stop conditions (the data line changes
  while the clock is high). The chip is the parameter \<open>slave\<close>: the level it puts on the data line
  after what it has seen.
\<close>

section \<open>Lines\<close>

datatype bus_symbol = Start | Stop | Bit_Seen bool

record wire =
  scl :: bool
  sda :: bool                    \<comment> \<open>the output latch of the data pin\<close>
  sda_out :: bool                \<comment> \<open>\<open>SDA_OUT()\<close>: the pin drives the line\<close>
  line :: bool                   \<comment> \<open>level at the last rising edge, stable while the clock is high\<close>
  seen :: "bus_symbol list"

type_synonym chip = "bus_symbol list \<Rightarrow> bool"

definition level :: "chip \<Rightarrow> wire \<Rightarrow> bool" where
  "level slave w = (if sda_out w then sda w else slave (seen w))"

definition set_scl :: "chip \<Rightarrow> bool \<Rightarrow> wire \<Rightarrow> wire" where
  "set_scl slave v w =
     (if v \<and> \<not> scl w
      then w \<lparr> scl := v, line := level slave w, seen := seen w @ [Bit_Seen (level slave w)] \<rparr>
      else w \<lparr> scl := v \<rparr>)"

text \<open>A change of the latch or of the direction; on a high clock it is a condition.\<close>

definition drive :: "bool \<Rightarrow> bool \<Rightarrow> wire \<Rightarrow> wire" where
  "drive out v w =
     (let before = (if sda_out w then sda w else line w); now = (if out then v else True);
          w = w \<lparr> sda_out := out, sda := v \<rparr>
      in if scl w \<and> before \<noteq> now then w \<lparr> seen := seen w @ [if now then Stop else Start] \<rparr> else w)"

definition SDA_OUT :: "wire \<Rightarrow> wire" where "SDA_OUT w = drive True (sda w) w"
definition SDA_IN :: "wire \<Rightarrow> wire" where "SDA_IN w = drive False (sda w) w"
definition set_sda :: "bool \<Rightarrow> wire \<Rightarrow> wire" where "set_sda v w = drive (sda_out w) v w"
definition READ_SDA :: "wire \<Rightarrow> bool" where "READ_SDA w = line w"

section \<open>The operations of the bus\<close>

text \<open>Both pins become push-pull outputs and then high.\<close>

definition IIC_Init :: "chip \<Rightarrow> wire \<Rightarrow> wire" where
  "IIC_Init slave w = set_scl slave True (set_sda True (SDA_OUT w))"

definition IIC_Start :: "chip \<Rightarrow> wire \<Rightarrow> wire" where
  "IIC_Start slave w =
     (let w = SDA_OUT w;
          w = set_sda True w;
          w = set_scl slave True w;
          w = set_sda False w
      in set_scl slave False w)"

definition IIC_Stop :: "chip \<Rightarrow> wire \<Rightarrow> wire" where
  "IIC_Stop slave w =
     (let w = SDA_OUT w;
          w = set_scl slave False w;
          w = set_sda False w;
          w = set_scl slave True w
      in set_sda True w)"

text \<open>The poll of the acknowledgement: \<open>True\<close> when all the reads see a high level.\<close>

fun poll_ack :: "nat \<Rightarrow> wire \<Rightarrow> bool" where
  "poll_ack 0 w = True"
| "poll_ack (Suc n) w = (READ_SDA w \<and> poll_ack n w)"

definition IIC_Wait_Ack :: "chip \<Rightarrow> wire \<Rightarrow> u8 \<times> wire" where
  "IIC_Wait_Ack slave w =
     (let w = SDA_IN w;
          w = set_sda True w;
          w = set_scl slave True w
      in if poll_ack 251 w then (1, IIC_Stop slave w) else (0, set_scl slave False w))"

definition IIC_Ack :: "chip \<Rightarrow> wire \<Rightarrow> wire" where
  "IIC_Ack slave w =
     (let w = set_scl slave False w;
          w = SDA_OUT w;
          w = set_sda False w;
          w = set_scl slave True w
      in set_scl slave False w)"

definition IIC_NAck :: "chip \<Rightarrow> wire \<Rightarrow> wire" where
  "IIC_NAck slave w =
     (let w = set_scl slave False w;
          w = SDA_OUT w;
          w = set_sda True w;
          w = set_scl slave True w
      in set_scl slave False w)"

fun send_bits :: "chip \<Rightarrow> nat \<Rightarrow> u8 \<Rightarrow> wire \<Rightarrow> wire" where
  "send_bits slave 0 txd w = w"
| "send_bits slave (Suc t) txd w =
     (let w = set_sda (and txd 0x80 \<noteq> 0) w;
          w = set_scl slave True w;
          w = set_scl slave False w
      in send_bits slave t (push_bit 1 txd) w)"

definition IIC_Send_Byte :: "chip \<Rightarrow> u8 \<Rightarrow> wire \<Rightarrow> wire" where
  "IIC_Send_Byte slave txd w = send_bits slave 8 txd (set_scl slave False (SDA_OUT w))"

fun recv_bits :: "chip \<Rightarrow> nat \<Rightarrow> u8 \<Rightarrow> wire \<Rightarrow> u8 \<times> wire" where
  "recv_bits slave 0 receive w = (receive, w)"
| "recv_bits slave (Suc i) receive w =
     (let w = set_scl slave False w;
          w = set_scl slave True w;
          receive = push_bit 1 receive
      in recv_bits slave i (if READ_SDA w then receive + 1 else receive) w)"

definition IIC_Read_Byte :: "chip \<Rightarrow> bool \<Rightarrow> wire \<Rightarrow> u8 \<times> wire" where
  "IIC_Read_Byte slave ack w =
     (let (receive, w) = recv_bits slave 8 0 (SDA_IN w)
      in (receive, if \<not> ack then IIC_NAck slave w else IIC_Ack slave w))"

lemmas wire_defs = set_scl_def drive_def SDA_OUT_def SDA_IN_def set_sda_def READ_SDA_def level_def

section \<open>What the chip sees\<close>

text \<open>Between two calls the clock is low.\<close>

lemma IIC_Start_seen:
  "\<not> scl w \<Longrightarrow> seen (IIC_Start slave w) = seen w @ [Bit_Seen True, Start] \<and> \<not> scl (IIC_Start slave w)"
  by (simp add: IIC_Start_def wire_defs Let_def)

lemma IIC_Stop_seen:
  "\<not> scl w \<Longrightarrow> seen (IIC_Stop slave w) = seen w @ [Bit_Seen False, Stop] \<and> scl (IIC_Stop slave w)
     \<and> sda (IIC_Stop slave w) \<and> sda_out (IIC_Stop slave w)"
  by (simp add: IIC_Stop_def wire_defs Let_def)

lemma poll_ack_READ_SDA: "0 < n \<Longrightarrow> poll_ack n w = READ_SDA w"
  by (induction n rule: nat_induct_non_zero) auto

lemma IIC_Wait_Ack_seen:
  assumes "\<not> scl w"
  shows "fst (IIC_Wait_Ack slave w) = (if slave (seen w) then 1 else 0)
    \<and> seen (snd (IIC_Wait_Ack slave w)) =
        (if slave (seen w) then seen w @ [Bit_Seen True, Bit_Seen False, Stop] else seen w @ [Bit_Seen False])
    \<and> scl (snd (IIC_Wait_Ack slave w)) = slave (seen w)"
  using assms by (simp add: IIC_Wait_Ack_def IIC_Stop_def poll_ack_READ_SDA wire_defs Let_def)

lemma send_bits_seen:
  assumes "\<not> scl w" and "sda_out w"
  shows "seen (send_bits slave n txd w)
      = seen w @ map (\<lambda>i. Bit_Seen (bit (push_bit i txd :: u8) 7)) [0..<n]
    \<and> \<not> scl (send_bits slave n txd w) \<and> sda_out (send_bits slave n txd w)"
  using assms
proof (induction n arbitrary: txd w)
  case (Suc n)
  let ?w = "set_scl slave False (set_scl slave True (set_sda (and txd 0x80 \<noteq> 0) w))"
  have w: "\<not> scl ?w" "sda_out ?w" "seen ?w = seen w @ [Bit_Seen (bit txd 7)]"
    using Suc.prems by (simp_all add: wire_defs Let_def top_bit)
  have "map (\<lambda>i. Bit_Seen (bit (push_bit i txd) 7)) [0..<Suc n]
      = Bit_Seen (bit txd 7) # map (\<lambda>i. Bit_Seen (bit (push_bit i (push_bit 1 txd)) 7)) [0..<n]"
    by (simp add: upt_conv_Cons map_Suc_upt [symmetric] comp_def del: upt_Suc)
  with Suc.IH [OF w(1,2), of "push_bit 1 txd"] w(3) show ?case by (simp add: Let_def)
qed simp

lemma IIC_Send_Byte_seen:
  assumes "\<not> scl w"
  shows "seen (IIC_Send_Byte slave x w) = seen w @ map Bit_Seen (byte_bits x)
    \<and> \<not> scl (IIC_Send_Byte slave x w) \<and> sda_out (IIC_Send_Byte slave x w)"
proof -
  have w: "\<not> scl (set_scl slave False (SDA_OUT w))" "sda_out (set_scl slave False (SDA_OUT w))"
    "seen (set_scl slave False (SDA_OUT w)) = seen w"
    using assms by (simp_all add: wire_defs Let_def)
  have "map (\<lambda>i. Bit_Seen (bit (push_bit i x) 7)) [0..<8] = map Bit_Seen (byte_bits x)"
    unfolding shifted_bits [symmetric] map_map by (simp add: comp_def)
  with send_bits_seen [OF w(1,2), of slave 8 x] w(3) show ?thesis by (simp add: IIC_Send_Byte_def)
qed

text \<open>The next bits a chip puts on the line, each after it has seen the ones before.\<close>

fun slave_bits :: "chip \<Rightarrow> nat \<Rightarrow> bus_symbol list \<Rightarrow> bool list" where
  "slave_bits slave 0 h = []"
| "slave_bits slave (Suc n) h = slave h # slave_bits slave n (h @ [Bit_Seen (slave h)])"

lemma recv_bits_seen:
  assumes "\<not> sda_out w"
  shows "fst (recv_bits slave n r w) = foldl shift_in r (slave_bits slave n (seen w))
    \<and> seen (snd (recv_bits slave n r w)) = seen w @ map Bit_Seen (slave_bits slave n (seen w))
    \<and> \<not> sda_out (snd (recv_bits slave n r w)) \<and> sda (snd (recv_bits slave n r w)) = sda w"
  using assms
proof (induction n arbitrary: r w)
  case (Suc n)
  let ?w = "set_scl slave True (set_scl slave False w)" and ?b = "slave (seen w)"
  have w: "\<not> sda_out ?w" "seen ?w = seen w @ [Bit_Seen ?b]" "line ?w = ?b" "sda ?w = sda w"
    using Suc.prems by (simp_all add: wire_defs)
  have "recv_bits slave (Suc n) r w = recv_bits slave n (shift_in r ?b) ?w"
    by (simp only: recv_bits.simps Let_def READ_SDA_def w(3) shift_in_add)
  with Suc.IH [OF w(1), of "shift_in r ?b"] w(2,4) show ?case by simp
qed simp

lemma length_slave_bits [simp]: "length (slave_bits slave n h) = n"
  by (induction n arbitrary: h) simp_all

text \<open>The two closing calls of a read, which are made with the clock still high.\<close>

lemma IIC_Ack_seen:
  "\<not> sda_out w \<Longrightarrow> seen (if ack then IIC_Ack slave w else IIC_NAck slave w) = seen w @ [Bit_Seen (\<not> ack)]
     \<and> \<not> scl (if ack then IIC_Ack slave w else IIC_NAck slave w)"
  by (simp add: IIC_Ack_def IIC_NAck_def wire_defs Let_def)

lemma IIC_Read_Byte_seen:
  assumes "\<not> scl w"
  shows "byte_bits (fst (IIC_Read_Byte slave ack w)) = slave_bits slave 8 (seen w)
    \<and> seen (snd (IIC_Read_Byte slave ack w))
        = seen w @ map Bit_Seen (slave_bits slave 8 (seen w)) @ [Bit_Seen (\<not> ack)]
    \<and> \<not> scl (snd (IIC_Read_Byte slave ack w))"
proof -
  have w: "\<not> sda_out (SDA_IN w)" "seen (SDA_IN w) = seen w"
    using assms by (simp_all add: wire_defs Let_def)
  obtain r w' where r: "recv_bits slave 8 0 (SDA_IN w) = (r, w')" by fastforce
  with recv_bits_seen [OF w(1), of slave 8 0] w(2)
  have w': "r = foldl shift_in 0 (slave_bits slave 8 (seen w))"
    "seen w' = seen w @ map Bit_Seen (slave_bits slave 8 (seen w))" "\<not> sda_out w'"
    by simp_all
  show ?thesis
    using IIC_Ack_seen [OF w'(3), of ack slave] byte_bits_shift_in [of "slave_bits slave 8 (seen w)"]
    by (cases ack) (simp_all add: IIC_Read_Byte_def r w')
qed

text \<open>
  On a bus with the clock low every call is seen by the chip as what it means: a byte that is
  sent as exactly its eight bits from the top with no start or stop condition among them; the wait
  for the acknowledgement as one bit the chip decides, 0 returned for a low level with the clock
  low again and 1, followed by a stop condition, for a high one; a byte that is read as the
  chip's own next eight bits, which are the bits of the result, and one more high bit; and the
  start and stop calls as one start and one stop condition.
\<close>

theorem bus_calls_are_seen:
  assumes "\<not> scl w"
  shows "seen (IIC_Send_Byte slave x w) = seen w @ map Bit_Seen (byte_bits x)
    \<and> fst (IIC_Wait_Ack slave w) = (if slave (seen w) then 1 else 0)
    \<and> seen (snd (IIC_Wait_Ack slave w)) =
        (if slave (seen w) then seen w @ [Bit_Seen True, Bit_Seen False, Stop] else seen w @ [Bit_Seen False])
    \<and> scl (snd (IIC_Wait_Ack slave w)) = slave (seen w)
    \<and> byte_bits (fst (IIC_Read_Byte slave ack w)) = slave_bits slave 8 (seen w)
    \<and> seen (snd (IIC_Read_Byte slave ack w))
        = seen w @ map Bit_Seen (slave_bits slave 8 (seen w)) @ [Bit_Seen (\<not> ack)]
    \<and> seen (IIC_Start slave w) = seen w @ [Bit_Seen True, Start]
    \<and> seen (IIC_Stop slave w) = seen w @ [Bit_Seen False, Stop]"
  using assms IIC_Send_Byte_seen IIC_Wait_Ack_seen IIC_Read_Byte_seen IIC_Start_seen IIC_Stop_seen
  by simp

text \<open>A chip that always pulls the line low.\<close>

theorem bus_calls_are_seen_witness:
  "fst (IIC_Wait_Ack (\<lambda>_. False)
     \<lparr> scl = False, sda = False, sda_out = True, line = False, seen = [] \<rparr>) = 0"
  using bus_calls_are_seen
    [of "\<lparr> scl = False, sda = False, sda_out = True, line = False, seen = [] \<rparr>" "\<lambda>_. False"]
  by simp

end
