(* ===== verification/Eeprom.thy ===== *)
theory Eeprom
  imports I2c_Bus
begin

text \<open>
  The driver of the EEPROM (\<open>applications/24cxx.c\<close>) on the pins of \<open>I2c_Bus\<close>: the random read and
  the byte write, and the reads and writes of words and buffers made of them. The chip is not code
  of the repository: what its data sheet promises of a byte write and a random read is the locale
  \<open>eeprom\<close>, stated on what the chip has seen of the bus, and the driver's theorems are proved from
  it. A working model of the 24C02, with its word address, page latch and output bits, satisfies it.
\<close>

section \<open>The driver\<close>

definition AT24C02 :: nat where "AT24C02 = 255"
definition AT24C16 :: nat where "AT24C16 = 2047"
definition EE_TYPE :: nat where "EE_TYPE = AT24C02"

definition AT24CXX_Init :: "chip \<Rightarrow> wire \<Rightarrow> wire" where
  "AT24CXX_Init slave w = IIC_Init slave w"

definition AT24CXX_ReadOneByte :: "chip \<Rightarrow> u16 \<Rightarrow> wire \<Rightarrow> u8 \<times> wire" where
  "AT24CXX_ReadOneByte slave ReadAddr w =
     (let w = IIC_Start slave w;
          w = (if EE_TYPE > AT24C16
               then IIC_Send_Byte slave (ucast (drop_bit 8 ReadAddr))
                      (snd (IIC_Wait_Ack slave (IIC_Send_Byte slave 0xA0 w)))
               else IIC_Send_Byte slave (0xA0 + push_bit 1 (ucast (ReadAddr div 256))) w);
          w = snd (IIC_Wait_Ack slave w);
          w = IIC_Send_Byte slave (ucast (ReadAddr mod 256)) w;
          w = snd (IIC_Wait_Ack slave w);
          w = IIC_Start slave w;
          w = IIC_Send_Byte slave 0xA1 w;
          w = snd (IIC_Wait_Ack slave w);
          (temp, w) = IIC_Read_Byte slave False w
      in (temp, IIC_Stop slave w))"

definition AT24CXX_WriteOneByte :: "chip \<Rightarrow> u16 \<Rightarrow> u8 \<Rightarrow> wire \<Rightarrow> wire" where
  "AT24CXX_WriteOneByte slave WriteAddr DataToWrite w =
     (let w = IIC_Start slave w;
          w = (if EE_TYPE > AT24C16
               then IIC_Send_Byte slave (ucast (drop_bit 8 WriteAddr))
                      (snd (IIC_Wait_Ack slave (IIC_Send_Byte slave 0xA0 w)))
               else IIC_Send_Byte slave (0xA0 + push_bit 1 (ucast (WriteAddr div 256))) w);
          w = snd (IIC_Wait_Ack slave w);
          w = IIC_Send_Byte slave (ucast (WriteAddr mod 256)) w;
          w = snd (IIC_Wait_Ack slave w);
          w = IIC_Send_Byte slave DataToWrite w;
          w = snd (IIC_Wait_Ack slave w)
      in IIC_Stop slave w)"

text \<open>
  The loops over the bytes of a word and of a buffer. \<open>t\<close> counts up to \<open>Len\<close>; a shift by 32 or more
  is undefined in C, so the lemmas below bound \<open>Len\<close> by 4, the callers' longest.
\<close>

definition AT24CXX_WriteLenByte :: "chip \<Rightarrow> u16 \<Rightarrow> u32 \<Rightarrow> u8 \<Rightarrow> wire \<Rightarrow> wire" where
  "AT24CXX_WriteLenByte slave WriteAddr DataToWrite Len w =
     foldl (\<lambda>w t. AT24CXX_WriteOneByte slave (WriteAddr + of_nat t)
                    (ucast (and (drop_bit (8 * t) DataToWrite) 0xff)) w)
       w [0..<unat Len]"

fun read_len :: "chip \<Rightarrow> u16 \<Rightarrow> nat \<Rightarrow> u32 \<Rightarrow> wire \<Rightarrow> u32 \<times> wire" where
  "read_len slave ReadAddr 0 temp w = (temp, w)"
| "read_len slave ReadAddr (Suc left) temp w =
     (let (b, w) = AT24CXX_ReadOneByte slave (ReadAddr + of_nat left) w
      in read_len slave ReadAddr left (push_bit 8 temp + ucast b) w)"

definition AT24CXX_ReadLenByte :: "chip \<Rightarrow> u16 \<Rightarrow> u8 \<Rightarrow> wire \<Rightarrow> u32 \<times> wire" where
  "AT24CXX_ReadLenByte slave ReadAddr Len w = read_len slave ReadAddr (unat Len) 0 w"

definition AT24CXX_Check :: "chip \<Rightarrow> wire \<Rightarrow> u8 \<times> wire" where
  "AT24CXX_Check slave w =
     (let (temp, w) = AT24CXX_ReadOneByte slave 255 w
      in if temp = 0x55 then (0, w)
         else let w = AT24CXX_WriteOneByte slave 255 0x55 w;
                  (temp, w) = AT24CXX_ReadOneByte slave 255 w
              in if temp = 0x55 then (0, w) else (1, w))"

fun AT24CXX_Read :: "chip \<Rightarrow> u16 \<Rightarrow> nat \<Rightarrow> wire \<Rightarrow> u8 list \<times> wire" where
  "AT24CXX_Read slave ReadAddr 0 w = ([], w)"
| "AT24CXX_Read slave ReadAddr (Suc NumToRead) w =
     (let (b, w) = AT24CXX_ReadOneByte slave ReadAddr w;
          (bs, w) = AT24CXX_Read slave (ReadAddr + 1) NumToRead w
      in (b # bs, w))"

fun AT24CXX_Write :: "chip \<Rightarrow> u16 \<Rightarrow> u8 list \<Rightarrow> wire \<Rightarrow> wire" where
  "AT24CXX_Write slave WriteAddr [] w = w"
| "AT24CXX_Write slave WriteAddr (b # bs) w =
     AT24CXX_Write slave (WriteAddr + 1) bs (AT24CXX_WriteOneByte slave WriteAddr b w)"

section \<open>What the data sheet promises\<close>

text \<open>What a chip sees of the openings of a transaction, when every byte is acknowledged.\<close>

definition sent :: "u8 \<Rightarrow> bus_symbol list" where
  "sent x = map Bit_Seen (byte_bits x)"

definition addressed :: "u8 \<Rightarrow> bus_symbol list" where
  "addressed a = Start # sent 0xA0 @ Bit_Seen False # sent a @ [Bit_Seen False]"

definition reading :: "u8 \<Rightarrow> bus_symbol list" where
  "reading a = addressed a @ Bit_Seen True # Start # sent 0xA1"

definition closing :: "bus_symbol list" where
  "closing = [Bit_Seen False, Stop]"

locale eeprom =
  fixes slave :: chip
    and idle :: "bus_symbol list \<Rightarrow> bool"
    and mem :: "bus_symbol list \<Rightarrow> u8 \<Rightarrow> u8"
  assumes device_ack: "idle h \<Longrightarrow> \<not> slave (h @ Start # sent 0xA0)"
    and address_ack: "idle h \<Longrightarrow> \<not> slave (h @ Start # sent 0xA0 @ Bit_Seen False # sent a)"
    and data_ack: "idle h \<Longrightarrow> \<not> slave (h @ addressed a @ sent d)"
    and stored: "idle h \<Longrightarrow> mem (h @ addressed a @ sent d @ Bit_Seen False # closing) = (mem h)(a := d)"
    and stored_idle: "idle h \<Longrightarrow> idle (h @ addressed a @ sent d @ Bit_Seen False # closing)"
    and read_ack: "idle h \<Longrightarrow> \<not> slave (h @ reading a)"
    and read_bits: "idle h \<Longrightarrow> slave_bits slave 8 (h @ reading a @ [Bit_Seen False]) = byte_bits (mem h a)"
    and read_keeps: "idle h \<Longrightarrow>
      mem (h @ reading a @ Bit_Seen False # sent d @ Bit_Seen True # closing) = mem h"
    and read_idle: "idle h \<Longrightarrow>
      idle (h @ reading a @ Bit_Seen False # sent d @ Bit_Seen True # closing)"

text \<open>The bus between two transactions: both lines high, the data pin an output.\<close>

definition bus_free :: "wire \<Rightarrow> bool" where
  "bus_free w = (scl w \<and> sda w \<and> sda_out w)"

lemma IIC_Start_free:
  "bus_free w \<Longrightarrow> seen (IIC_Start slave w) = seen w @ [Start] \<and> \<not> scl (IIC_Start slave w)"
  by (simp add: IIC_Start_def bus_free_def wire_defs Let_def)

lemma IIC_Stop_free: "\<not> scl w \<Longrightarrow> seen (IIC_Stop slave w) = seen w @ closing \<and> bus_free (IIC_Stop slave w)"
  using IIC_Stop_seen [of w slave] by (simp add: bus_free_def closing_def)

lemma AT24CXX_Init_free: "bus_free w \<Longrightarrow> AT24CXX_Init slave w = w"
  by (cases w) (simp add: AT24CXX_Init_def IIC_Init_def bus_free_def wire_defs Let_def)

text \<open>A byte the chip acknowledges.\<close>

lemma send_acked:
  assumes "\<not> scl w" and "\<not> slave (seen w @ sent x)"
  shows "seen (snd (IIC_Wait_Ack slave (IIC_Send_Byte slave x w))) = seen w @ sent x @ [Bit_Seen False]
    \<and> \<not> scl (snd (IIC_Wait_Ack slave (IIC_Send_Byte slave x w)))"
proof -
  have w: "\<not> scl (IIC_Send_Byte slave x w)" "seen (IIC_Send_Byte slave x w) = seen w @ sent x"
    using IIC_Send_Byte_seen [OF assms(1), of slave x] by (simp_all add: sent_def)
  show ?thesis using IIC_Wait_Ack_seen [OF w(1), of slave] w(2) assms(2) by simp
qed

text \<open>In the address range of the 24C02 the two bytes sent are the device and the address.\<close>

lemma device_byte: "a < 256 \<Longrightarrow> (0xA0 :: u8) + push_bit 1 (ucast ((a :: u16) div 256)) = 0xA0"
proof -
  assume "a < 256"
  then have "a div 256 = 0" by (simp add: word_less_nat_alt div_word_less)
  then show ?thesis by simp
qed

lemmas ee_defs = EE_TYPE_def AT24C02_def AT24C16_def


lemma low_byte: "(ucast ((a :: u16) mod 256) :: u8) = ucast a"
proof -
  have "unat (a mod 256) mod 256 = unat a mod 256" by (simp add: unat_mod)
  then have "unat (ucast (a mod 256) :: u8) = unat (ucast a :: u8)"
    by (simp add: unsigned_ucast_eq take_bit_eq_mod)
  then show ?thesis by (rule unsigned_word_eqI [where ?'a = nat])
qed

text \<open>Consecutive addresses, as the loops compute them and as the chip counts them.\<close>

lemma unatSuc_u16: "unat (a :: u16) + 1 \<le> 65535 \<Longrightarrow> unat (a + 1) = Suc (unat a)"
  using unat_add_of_nat_u16 [of a 1] by simp

lemma ucast_add_nat: "(ucast ((a :: u16) + of_nat n) :: u8) = ucast a + of_nat n"
  by (simp add: unsigned_ucast_eq word_eq_iff_unsigned [where ?'a = nat] unat_word_ariths
      unsigned_of_nat take_bit_eq_mod mod_mod_cancel mod_simps)

lemma ucast_add_one: "(ucast ((a :: u16) + 1) :: u8) = ucast a + 1"
  using ucast_add_nat [of a 1] by simp

text \<open>The cells after consecutive bytes have been written from an address on.\<close>

fun overwrite :: "(u8 \<Rightarrow> u8) \<Rightarrow> u8 \<Rightarrow> u8 list \<Rightarrow> u8 \<Rightarrow> u8" where
  "overwrite m a [] = m"
| "overwrite m a (b # bs) = overwrite (m(a := b)) (a + 1) bs"

lemma overwrite_outside:
  "(\<And>i. i < length bs \<Longrightarrow> c \<noteq> a + of_nat i) \<Longrightarrow> overwrite m a bs c = m c"
proof (induction bs arbitrary: m a)
  case (Cons b bs)
  have "c \<noteq> a" using Cons.prems [of 0] by simp
  moreover have "overwrite (m(a := b)) (a + 1) bs c = (m(a := b)) c"
    using Cons.prems [of "Suc i" for i] by (intro Cons.IH) (auto simp: algebra_simps)
  ultimately show ?case by simp
qed simp

lemma of_nat_u8_eq: "i < 256 \<Longrightarrow> j < 256 \<Longrightarrow> (of_nat i = (of_nat j :: u8)) = (i = j)"
  by (simp add: of_nat_eq_iff unsigned_of_nat take_bit_eq_mod word_eq_iff_unsigned [where ?'a = nat])

lemma overwrite_inside:
  "i < length bs \<Longrightarrow> length bs \<le> 256 \<Longrightarrow> overwrite m a bs (a + of_nat i) = bs ! i"
proof (induction bs arbitrary: m a i)
  case (Cons b bs)
  show ?case
  proof (cases i)
    case 0
    have "a \<noteq> a + 1 + of_nat j" if "j < length bs" for j
      using of_nat_u8_eq [of 0 "Suc j"] that Cons.prems(2) by (auto simp: add.assoc)
    then have "overwrite (m(a := b)) (a + 1) bs a = b" by (subst overwrite_outside) auto
    then show ?thesis by (simp add: 0)
  next
    case (Suc j)
    then have "overwrite (m(a := b)) (a + 1) bs (a + 1 + of_nat j) = bs ! j"
      using Cons.prems by (intro Cons.IH) simp_all
    then show ?thesis by (simp only: Suc overwrite.simps nth_Cons_Suc of_nat_Suc add.assoc)
  qed
qed simp

text \<open>The bytes of a word, lowest first, and the word read back from them.\<close>

definition word_bytes :: "u32 \<Rightarrow> nat \<Rightarrow> u8 list" where
  "word_bytes d n = map (\<lambda>t. ucast (and (drop_bit (8 * t) d) 0xff)) [0..<n]"

lemma take_bit_byte: "take_bit (8 * n + 8) (d :: u32)
    = push_bit (8 * n) (take_bit 8 (drop_bit (8 * n) d)) + take_bit (8 * n) d"
proof -
  have "push_bit (8 * n) (take_bit 8 (drop_bit (8 * n) d)) + take_bit (8 * n) d
      = or (push_bit (8 * n) (take_bit 8 (drop_bit (8 * n) d))) (take_bit (8 * n) d)"
    by (rule disjunctive_add) (simp add: bit_simps)
  also have "\<dots> = take_bit (8 * n + 8) d"
    by (rule bit_eqI) (auto simp: bit_simps)
  finally show ?thesis by simp
qed

lemma byte_of_word: "ucast (ucast (and (d :: u32) 0xff) :: u8) = take_bit 8 d"
proof -
  have "and d 0xff = take_bit 8 d" by (simp add: take_bit_eq_mask mask_eq_exp_minus_1)
  then show ?thesis by (simp add: bit_eq_iff bit_simps)
qed

lemma horner_bytes:
  "foldl (\<lambda>t b. push_bit 8 t + ucast b) t (rev (word_bytes d n))
    = push_bit (8 * n) t + take_bit (8 * n) (d :: u32)"
proof (induction n arbitrary: t)
  case (Suc n)
  have "foldl (\<lambda>t b. push_bit 8 t + ucast b) t (rev (word_bytes d (Suc n)))
      = push_bit (8 * n) (push_bit 8 t + take_bit 8 (drop_bit (8 * n) d)) + take_bit (8 * n) d"
    using Suc [of "push_bit 8 t + take_bit 8 (drop_bit (8 * n) d)"]
    by (simp add: word_bytes_def byte_of_word)
  also have "\<dots> = push_bit (8 * n + 8) t + take_bit (8 * n + 8) d"
    by (simp only: take_bit_byte push_bit_add push_bit_push_bit add.assoc)
  finally show ?case by (simp add: add.commute)
qed (simp add: word_bytes_def)

section \<open>The driver on a chip that keeps its promises\<close>

text \<open>
  \<open>stores m w\<close>: the bus is free, the chip is between two transactions and holds \<open>m\<close>.
\<close>

definition stores :: "(bus_symbol list \<Rightarrow> bool) \<Rightarrow> (bus_symbol list \<Rightarrow> u8 \<Rightarrow> u8) \<Rightarrow> (u8 \<Rightarrow> u8) \<Rightarrow> wire \<Rightarrow> bool"
  where "stores idle mem m w = (bus_free w \<and> idle (seen w) \<and> mem (seen w) = m)"

text \<open>The opening the read and the write share: the device and the address in it.\<close>

definition selected :: "chip \<Rightarrow> u16 \<Rightarrow> wire \<Rightarrow> wire" where
  "selected slave a w =
     (let w = snd (IIC_Wait_Ack slave (IIC_Send_Byte slave (0xA0 + push_bit 1 (ucast (a div 256)))
                     (IIC_Start slave w)))
      in snd (IIC_Wait_Ack slave (IIC_Send_Byte slave (ucast (a mod 256)) w)))"

lemma AT24CXX_WriteOneByte_selected:
  "AT24CXX_WriteOneByte slave a d w =
     IIC_Stop slave (snd (IIC_Wait_Ack slave (IIC_Send_Byte slave d (selected slave a w))))"
  by (simp add: AT24CXX_WriteOneByte_def selected_def ee_defs Let_def)

lemma AT24CXX_ReadOneByte_selected:
  "AT24CXX_ReadOneByte slave a w =
     (let r = IIC_Read_Byte slave False (snd (IIC_Wait_Ack slave
                (IIC_Send_Byte slave 0xA1 (IIC_Start slave (selected slave a w)))))
      in (fst r, IIC_Stop slave (snd r)))"
  by (simp add: AT24CXX_ReadOneByte_def selected_def ee_defs Let_def split_beta)

context eeprom
begin

lemma selected_seen:
  assumes "bus_free w" and "idle (seen w)" and "a < 256"
  shows "seen (selected slave a w) = seen w @ addressed (ucast a) \<and> \<not> scl (selected slave a w)"
proof -
  define w1 where "w1 = snd (IIC_Wait_Ack slave (IIC_Send_Byte slave 0xA0 (IIC_Start slave w)))"
  have w: "seen (IIC_Start slave w) = seen w @ [Start]" "\<not> scl (IIC_Start slave w)"
    using IIC_Start_free assms(1) by simp_all
  have w1: "seen w1 = seen w @ Start # sent 0xA0 @ [Bit_Seen False]" "\<not> scl w1"
    using send_acked [OF w(2), of slave "0xA0"] device_ack [OF assms(2)] by (simp_all add: w1_def w(1))
  have "selected slave a w = snd (IIC_Wait_Ack slave (IIC_Send_Byte slave (ucast a) w1))"
    by (simp only: selected_def Let_def device_byte [OF assms(3)] low_byte w1_def)
  then show ?thesis
    using send_acked [OF w1(2), of slave "ucast a"] address_ack [OF assms(2), of "ucast a"]
    by (simp add: w1(1) addressed_def)
qed

lemma WriteOneByte_stores:
  assumes "stores idle mem m w" and "a < 256"
  shows "stores idle mem (m(ucast a := d)) (AT24CXX_WriteOneByte slave a d w)"
proof -
  define w2 where "w2 = selected slave a w"
  define w3 where "w3 = snd (IIC_Wait_Ack slave (IIC_Send_Byte slave d w2))"
  have w: "bus_free w" "idle (seen w)" "mem (seen w) = m" using assms(1) by (simp_all add: stores_def)
  have w2: "seen w2 = seen w @ addressed (ucast a)" "\<not> scl w2"
    using selected_seen [OF w(1,2) assms(2)] by (simp_all add: w2_def)
  have w3: "seen w3 = seen w @ addressed (ucast a) @ sent d @ [Bit_Seen False]" "\<not> scl w3"
    using send_acked [OF w2(2), of slave d] data_ack [OF w(2), of "ucast a" d] by (simp_all add: w3_def w2(1))
  have "seen (IIC_Stop slave w3) = seen w @ addressed (ucast a) @ sent d @ Bit_Seen False # closing"
    and "bus_free (IIC_Stop slave w3)"
    using IIC_Stop_free [OF w3(2)] by (simp_all add: w3(1))
  moreover have "AT24CXX_WriteOneByte slave a d w = IIC_Stop slave w3"
    by (simp only: AT24CXX_WriteOneByte_selected w2_def w3_def)
  ultimately show ?thesis
    using stored [OF w(2)] stored_idle [OF w(2)] by (simp add: stores_def w(3))
qed

lemma ReadOneByte_stores:
  assumes "stores idle mem m w" and "a < 256"
  shows "fst (AT24CXX_ReadOneByte slave a w) = m (ucast a)
    \<and> stores idle mem m (snd (AT24CXX_ReadOneByte slave a w))"
proof -
  define w2 where "w2 = selected slave a w"
  define w3 where "w3 = snd (IIC_Wait_Ack slave (IIC_Send_Byte slave 0xA1 (IIC_Start slave w2)))"
  let ?r = "IIC_Read_Byte slave False w3" and ?h = "seen w @ reading (ucast a) @ [Bit_Seen False]"
  have w: "bus_free w" "idle (seen w)" "mem (seen w) = m" using assms(1) by (simp_all add: stores_def)
  have w2: "seen w2 = seen w @ addressed (ucast a)" "\<not> scl w2"
    using selected_seen [OF w(1,2) assms(2)] by (simp_all add: w2_def)
  have s: "seen (IIC_Start slave w2) = seen w @ addressed (ucast a) @ [Bit_Seen True, Start]"
    "\<not> scl (IIC_Start slave w2)"
    using IIC_Start_seen [OF w2(2), of slave] by (simp_all add: w2(1))
  have w3: "seen w3 = ?h" "\<not> scl w3"
    using send_acked [OF s(2), of slave "0xA1"] read_ack [OF w(2), of "ucast a"]
    by (simp_all add: w3_def s(1) reading_def)
  have bits: "slave_bits slave 8 ?h = byte_bits (m (ucast a))" using read_bits [OF w(2)] by (simp add: w(3))
  have r: "byte_bits (fst ?r) = byte_bits (m (ucast a))"
    "seen (snd ?r) = ?h @ sent (m (ucast a)) @ [Bit_Seen True]" "\<not> scl (snd ?r)"
    using IIC_Read_Byte_seen [OF w3(2), of slave False] bits by (simp_all add: w3(1) sent_def)
  have "fst ?r = m (ucast a)" using r(1) by (metis shift_in_byte)
  moreover have "seen (IIC_Stop slave (snd ?r))
      = seen w @ reading (ucast a) @ Bit_Seen False # sent (m (ucast a)) @ Bit_Seen True # closing"
    and "bus_free (IIC_Stop slave (snd ?r))"
    using IIC_Stop_free [OF r(3)] by (simp_all add: r(2))
  moreover have "AT24CXX_ReadOneByte slave a w = (fst ?r, IIC_Stop slave (snd ?r))"
    by (simp only: AT24CXX_ReadOneByte_selected Let_def w2_def w3_def)
  ultimately show ?thesis
    using read_keeps [OF w(2)] read_idle [OF w(2)] by (simp add: stores_def w(3))
qed


lemma Write_stores:
  "stores idle mem m w \<Longrightarrow> unat a + length bs \<le> 256 \<Longrightarrow>
     stores idle mem (overwrite m (ucast a) bs) (AT24CXX_Write slave a bs w)"
proof (induction bs arbitrary: m a w)
  case (Cons b bs)
  have a: "a < 256" "unat (a + 1) + length bs \<le> 256"
    using Cons.prems(2) by (simp_all add: word_less_nat_alt unatSuc_u16)
  show ?case
    unfolding AT24CXX_Write.simps overwrite.simps ucast_add_one [symmetric]
    by (intro Cons.IH WriteOneByte_stores Cons.prems(1) a)
qed simp

lemma Read_stores:
  "stores idle mem m w \<Longrightarrow> unat a + n \<le> 256 \<Longrightarrow>
     fst (AT24CXX_Read slave a n w) = map (\<lambda>i. m (ucast a + of_nat i)) [0..<n]
     \<and> stores idle mem m (snd (AT24CXX_Read slave a n w))"
proof (induction n arbitrary: a w)
  case (Suc n)
  have a: "a < 256" "unat (a + 1) + n \<le> 256"
    using Suc.prems(2) by (simp_all add: word_less_nat_alt unatSuc_u16)
  obtain b w1 where r: "AT24CXX_ReadOneByte slave a w = (b, w1)" by fastforce
  then have b: "b = m (ucast a)" "stores idle mem m w1"
    using ReadOneByte_stores [OF Suc.prems(1) a(1)] by simp_all
  show ?case
    using Suc.IH [OF b(2) a(2)]
    by (simp add: r b(1) split_beta Let_def upt_conv_Cons map_Suc_upt [symmetric] comp_def
      ucast_add_one add.assoc del: upt_Suc)
qed simp

lemma read_len_stores:
  "stores idle mem m w \<Longrightarrow> unat a + n \<le> 256 \<Longrightarrow>
     fst (read_len slave a n t w)
       = foldl (\<lambda>t b. push_bit 8 t + ucast b) t (rev (map (\<lambda>i. m (ucast a + of_nat i)) [0..<n]))
     \<and> stores idle mem m (snd (read_len slave a n t w))"
proof (induction n arbitrary: t w)
  case (Suc n)
  have n: "a + of_nat n < 256" "unat a + n \<le> 256"
    using Suc.prems(2) by (simp_all add: word_less_nat_alt unat_add_of_nat_u16)
  obtain b w1 where r: "AT24CXX_ReadOneByte slave (a + of_nat n) w = (b, w1)" by fastforce
  then have b: "b = m (ucast a + of_nat n)" "stores idle mem m w1"
    using ReadOneByte_stores [OF Suc.prems(1) n(1)] by (simp_all add: ucast_add_nat)
  show ?case using Suc.IH [OF b(2) n(2)] by (simp add: r b(1))
qed simp

lemma Check_stores:
  assumes "stores idle mem m w"
  shows "fst (AT24CXX_Check slave w) = 0
    \<and> stores idle mem (m(255 := 0x55)) (snd (AT24CXX_Check slave w))"
proof -
  obtain t w1 where r: "AT24CXX_ReadOneByte slave 255 w = (t, w1)" by fastforce
  then have t: "t = m 255" "stores idle mem m w1"
    using ReadOneByte_stores [OF assms, of 255] by simp_all
  have w2: "stores idle mem (m(255 := 0x55)) (AT24CXX_WriteOneByte slave 255 0x55 w1)"
    using WriteOneByte_stores [OF t(2), of 255 "0x55"] by simp
  obtain u w3 where r2: "AT24CXX_ReadOneByte slave 255 (AT24CXX_WriteOneByte slave 255 0x55 w1) = (u, w3)"
    by fastforce
  then have u: "u = 0x55" "stores idle mem (m(255 := 0x55)) w3"
    using ReadOneByte_stores [OF w2, of 255] by simp_all
  show ?thesis
    using t u(2) by (cases "m 255 = 0x55") (simp_all add: AT24CXX_Check_def r r2 u(1) Let_def fun_upd_idem)
qed

end

lemma AT24CXX_WriteLenByte_Write:
  "AT24CXX_WriteLenByte slave a d len w = AT24CXX_Write slave a (word_bytes d (unat len)) w"
proof -
  have "AT24CXX_Write slave a (map f [i..<j]) w
      = foldl (\<lambda>w t. AT24CXX_WriteOneByte slave (a + of_nat (t - i)) (f t) w) w [i..<j]"
    if "i \<le> j" for f i j
  proof -
    have "AT24CXX_Write slave a (bs @ [b]) w
        = AT24CXX_WriteOneByte slave (a + of_nat (length bs)) b (AT24CXX_Write slave a bs w)" for a bs b w
      by (induction bs arbitrary: a w) (simp_all add: algebra_simps)
    with that show ?thesis
      by (induction rule: dec_induct) simp_all
  qed
  from this [of 0 "unat len" "\<lambda>t. ucast (and (drop_bit (8 * t) d) 0xff)"] show ?thesis
    by (simp add: AT24CXX_WriteLenByte_def word_bytes_def)
qed

section \<open>A working 24C02\<close>

text \<open>
  The chip as its data sheet describes it: a start condition selects it when the byte that follows
  is \<open>1010000x\<close>; with \<open>x = 0\<close> a word address and then data bytes follow, which are programmed at
  the stop condition, with \<open>x = 1\<close> the chip sends the bytes from its word address on, while they
  are acknowledged. \<open>got\<close> counts the bits of the current byte; the ninth is the acknowledgement.
\<close>

datatype phase = Standby | Device_Byte | Word_Address | Data_Byte | Sending

record eeprom_chip =
  phase :: phase
  got :: nat
  acc :: u8
  word_address :: u8
  latch :: "(u8 \<times> u8) list"
  cells :: "u8 \<Rightarrow> u8"

definition selects :: "u8 \<Rightarrow> bool" where
  "selects x = (and x 0xFE = 0xA0)"

definition ninth :: "bool \<Rightarrow> eeprom_chip \<Rightarrow> eeprom_chip" where
  "ninth b c =
     (case phase c of
        Standby \<Rightarrow> c
      | Device_Byte \<Rightarrow>
          c \<lparr> phase := (if \<not> selects (acc c) then Standby
                        else if bit (acc c) 0 then Sending else Word_Address), got := 0, acc := 0 \<rparr>
      | Word_Address \<Rightarrow> c \<lparr> phase := Data_Byte, word_address := acc c, got := 0, acc := 0 \<rparr>
      | Data_Byte \<Rightarrow>
          c \<lparr> latch := latch c @ [(word_address c, acc c)],
              word_address := or (and (word_address c) 0xF8) (and (word_address c + 1) 0x07),
              got := 0, acc := 0 \<rparr>
      | Sending \<Rightarrow>
          if b then c \<lparr> phase := Standby \<rparr>
          else c \<lparr> word_address := word_address c + 1, got := 0, acc := 0 \<rparr>)"

fun bus_step :: "eeprom_chip \<Rightarrow> bus_symbol \<Rightarrow> eeprom_chip" where
  "bus_step c Start = c \<lparr> phase := Device_Byte, got := 0, acc := 0, latch := [] \<rparr>"
| "bus_step c Stop =
     c \<lparr> phase := Standby, latch := [], cells := foldl (\<lambda>m (a, d). m(a := d)) (cells c) (latch c) \<rparr>"
| "bus_step c (Bit_Seen b) =
     (if phase c = Standby then c
      else if got c < 8 then c \<lparr> got := got c + 1, acc := shift_in (acc c) b \<rparr>
      else ninth b c)"

definition pulls_up :: "eeprom_chip \<Rightarrow> bool" where
  "pulls_up c =
     (case phase c of
        Standby \<Rightarrow> True
      | Device_Byte \<Rightarrow> got c < 8 \<or> \<not> selects (acc c)
      | Sending \<Rightarrow> if got c < 8 then bit (cells c (word_address c)) (7 - got c) else True
      | _ \<Rightarrow> got c < 8)"

definition chip_after :: "(u8 \<Rightarrow> u8) \<Rightarrow> bus_symbol list \<Rightarrow> eeprom_chip" where
  "chip_after m h = foldl bus_step
     \<lparr> phase = Standby, got = 0, acc = 0, word_address = 0, latch = [], cells = m \<rparr> h"

definition at24 :: "(u8 \<Rightarrow> u8) \<Rightarrow> chip" where
  "at24 m h = pulls_up (chip_after m h)"

text \<open>A byte the chip receives.\<close>

lemma eight_bits:
  assumes "phase c \<noteq> Standby" and "got c + length bs \<le> 8"
  shows "foldl bus_step c (map Bit_Seen bs)
    = c \<lparr> got := got c + length bs, acc := foldl shift_in (acc c) bs \<rparr>"
  using assms by (induction bs arbitrary: c) simp_all

lemma received:
  assumes "phase c \<noteq> Standby" and "got c = 0" and "acc c = 0"
  shows "foldl bus_step c (sent x) = c \<lparr> got := 8, acc := x \<rparr>"
  using eight_bits [of c "byte_bits x"] assms by (simp add: sent_def shift_in_byte)

text \<open>The chip at the stages of a transaction.\<close>

lemma chip_after_append: "chip_after m (h @ h') = foldl bus_step (chip_after m h) h'"
  by (simp add: chip_after_def)

lemma started: "foldl bus_step c (Start # sent x)
    = c \<lparr> phase := Device_Byte, got := 8, acc := x, latch := [] \<rparr>"
  using received [of "bus_step c Start" x] by simp

lemma selects_write: "selects 0xA0" and selects_read: "selects 0xA1"
  by (simp_all add: selects_def)

lemma device_selected: "foldl bus_step c (Start # sent 0xA0 @ [Bit_Seen b])
    = c \<lparr> phase := Word_Address, got := 0, acc := 0, latch := [] \<rparr>"
proof -
  have "foldl bus_step c (Start # sent 0xA0 @ [Bit_Seen b])
      = bus_step (foldl bus_step c (Start # sent 0xA0)) (Bit_Seen b)" by simp
  also have "\<dots> = c \<lparr> phase := Word_Address, got := 0, acc := 0, latch := [] \<rparr>"
    unfolding started by (simp add: ninth_def selects_write)
  finally show ?thesis .
qed

lemma chip_addressed: "foldl bus_step c (addressed a)
    = c \<lparr> phase := Data_Byte, got := 0, acc := 0, word_address := a, latch := [] \<rparr>"
  and chip_address_byte: "foldl bus_step c (Start # sent 0xA0 @ Bit_Seen b # sent a)
    = c \<lparr> phase := Word_Address, got := 8, acc := a, latch := [] \<rparr>"
proof -
  let ?d = "c \<lparr> phase := Word_Address, got := 0, acc := 0, latch := [] \<rparr>"
  have *: "foldl bus_step c (Start # sent 0xA0 @ Bit_Seen b # sent a) = foldl bus_step ?d (sent a)"
    for b
    using device_selected [of c b] by simp
  show byte: "foldl bus_step c (Start # sent 0xA0 @ Bit_Seen b # sent a)
    = c \<lparr> phase := Word_Address, got := 8, acc := a, latch := [] \<rparr>" for b
    unfolding * using received [of ?d a] by simp
  have "foldl bus_step c (addressed a)
      = bus_step (foldl bus_step c (Start # sent 0xA0 @ Bit_Seen False # sent a)) (Bit_Seen False)"
    by (simp add: addressed_def)
  also have "\<dots> = c \<lparr> phase := Data_Byte, got := 0, acc := 0, word_address := a, latch := [] \<rparr>"
    unfolding byte by (simp add: ninth_def)
  finally show "foldl bus_step c (addressed a)
    = c \<lparr> phase := Data_Byte, got := 0, acc := 0, word_address := a, latch := [] \<rparr>" .
qed

lemma chip_data_byte: "foldl bus_step c (addressed a @ sent d)
    = c \<lparr> phase := Data_Byte, got := 8, acc := d, word_address := a, latch := [] \<rparr>"
  using received [of "foldl bus_step c (addressed a)" d] by (simp add: chip_addressed)

lemma chip_stored:
  "cells (foldl bus_step c (addressed a @ sent d @ Bit_Seen False # closing)) = (cells c)(a := d)"
  "phase (foldl bus_step c (addressed a @ sent d @ Bit_Seen False # closing)) = Standby"
proof -
  have "foldl bus_step c (addressed a @ sent d @ Bit_Seen False # closing)
      = foldl bus_step (foldl bus_step c (addressed a @ sent d)) (Bit_Seen False # closing)" by simp
  then show "cells (foldl bus_step c (addressed a @ sent d @ Bit_Seen False # closing)) = (cells c)(a := d)"
    and "phase (foldl bus_step c (addressed a @ sent d @ Bit_Seen False # closing)) = Standby"
    unfolding chip_data_byte by (simp_all add: closing_def ninth_def)
qed

lemma chip_reading: "foldl bus_step c (reading a)
    = c \<lparr> phase := Device_Byte, got := 8, acc := 0xA1, word_address := a, latch := [] \<rparr>"
proof -
  have "foldl bus_step c (reading a)
      = foldl bus_step (bus_step (foldl bus_step c (addressed a)) (Bit_Seen True)) (Start # sent 0xA1)"
    by (simp add: reading_def)
  then show ?thesis unfolding started chip_addressed by simp
qed

lemma chip_sending: "foldl bus_step c (reading a @ [Bit_Seen False])
    = c \<lparr> phase := Sending, got := 0, acc := 0, word_address := a, latch := [] \<rparr>"
  using chip_reading [of c a] by (simp add: ninth_def selects_read bit_simps)

lemma chip_read: "foldl bus_step c (reading a @ Bit_Seen False # sent d @ Bit_Seen True # closing)
    = c \<lparr> phase := Standby, got := 8, acc := d, word_address := a, latch := [] \<rparr>"
proof -
  let ?s = "foldl bus_step c (reading a @ [Bit_Seen False])"
  have s: "?s = c \<lparr> phase := Sending, got := 0, acc := 0, word_address := a, latch := [] \<rparr>"
    by (rule chip_sending)
  have "foldl bus_step c (reading a @ Bit_Seen False # sent d @ Bit_Seen True # closing)
      = foldl bus_step (foldl bus_step ?s (sent d)) (Bit_Seen True # closing)"
    by (simp only: foldl_append append_Cons append_Nil foldl.simps)
  also have "foldl bus_step ?s (sent d) = ?s \<lparr> got := 8, acc := d \<rparr>"
    using received [of ?s d] s by (simp del: foldl_append)
  also have "\<dots> = c \<lparr> phase := Sending, got := 8, acc := d, word_address := a, latch := [] \<rparr>"
    unfolding s by simp
  also have "foldl bus_step \<dots> (Bit_Seen True # closing)
      = c \<lparr> phase := Standby, got := 8, acc := d, word_address := a, latch := [] \<rparr>"
    by (cases c) (simp add: closing_def ninth_def)
  finally show ?thesis .
qed

lemma chip_bits:
  assumes "phase (chip_after m h) = Sending" and "got (chip_after m h) + n \<le> 8"
  shows "slave_bits (at24 m) n h
    = map (\<lambda>i. bit (cells (chip_after m h) (word_address (chip_after m h))) (7 - (got (chip_after m h) + i))) [0..<n]"
  using assms
proof (induction n arbitrary: h)
  case (Suc n)
  define c where "c = chip_after m h"
  define b where "b = at24 m h"
  have b: "b = bit (cells c (word_address c)) (7 - got c)"
    using Suc.prems by (simp add: b_def c_def at24_def pulls_up_def)
  have c: "chip_after m (h @ [Bit_Seen b]) = c \<lparr> got := Suc (got c), acc := shift_in (acc c) b \<rparr>"
    using Suc.prems by (simp add: c_def chip_after_append)
  have "slave_bits (at24 m) n (h @ [Bit_Seen b])
      = map (\<lambda>i. bit (cells c (word_address c)) (7 - (got c + Suc i))) [0..<n]"
    using Suc.IH [of "h @ [Bit_Seen b]"] Suc.prems by (simp add: c flip: c_def)
  then show ?case
    by (simp add: upt_conv_Cons map_Suc_upt [symmetric] comp_def b flip: b_def c_def del: upt_Suc)
qed simp

interpretation c02: eeprom "at24 m" "\<lambda>h. phase (chip_after m h) = Standby" "\<lambda>h. cells (chip_after m h)" for m
proof
  fix h a d
  show "\<not> at24 m (h @ Start # sent 0xA0)"
    unfolding at24_def chip_after_append started by (simp add: pulls_up_def selects_write)
  show "\<not> at24 m (h @ Start # sent 0xA0 @ Bit_Seen False # sent a)"
    unfolding at24_def chip_after_append chip_address_byte by (simp add: pulls_up_def)
  show "\<not> at24 m (h @ addressed a @ sent d)"
    unfolding at24_def chip_after_append chip_data_byte by (simp add: pulls_up_def)
  show "\<not> at24 m (h @ reading a)"
    unfolding at24_def chip_after_append chip_reading by (simp add: pulls_up_def selects_read)
  have "slave_bits (at24 m) 8 (h @ reading a @ [Bit_Seen False])
      = map (\<lambda>i. bit (cells (chip_after m h) a) (7 - i)) [0..<8]"
    by (subst chip_bits) (simp_all add: chip_after_append chip_sending [simplified])
  then show "slave_bits (at24 m) 8 (h @ reading a @ [Bit_Seen False]) = byte_bits (cells (chip_after m h) a)"
    by (simp add: byte_bits_def upt_rec)
qed (simp_all only: chip_after_append chip_stored chip_read, simp_all)

text \<open>The chip on an idle bus.\<close>

definition idle_wire :: wire where
  "idle_wire = \<lparr> scl = True, sda = True, sda_out = True, line = True, seen = [] \<rparr>"

lemma at24_stores:
  "stores (\<lambda>h. phase (chip_after m h) = Standby) (\<lambda>h. cells (chip_after m h)) m idle_wire"
  by (simp add: stores_def bus_free_def chip_after_def idle_wire_def)

section \<open>Properties\<close>

lemma eeprom_read_back:
  assumes e: "eeprom slave idle mem" and st: "stores idle mem m w" and a: "unat a + length bs \<le> 256"
  shows "fst (AT24CXX_Read slave a (length bs) (AT24CXX_Write slave a bs w)) = bs"
    and "stores idle mem (overwrite m (ucast a) bs) (snd (AT24CXX_Read slave a (length bs) (AT24CXX_Write slave a bs w)))"
proof -
  have "map (\<lambda>i. overwrite m (ucast a) bs (ucast a + of_nat i)) [0..<length bs] = bs"
    using a by (intro nth_equalityI) (simp_all add: overwrite_inside)
  then show "fst (AT24CXX_Read slave a (length bs) (AT24CXX_Write slave a bs w)) = bs"
    and "stores idle mem (overwrite m (ucast a) bs) (snd (AT24CXX_Read slave a (length bs) (AT24CXX_Write slave a bs w)))"
    using eeprom.Read_stores [OF e eeprom.Write_stores [OF e st a] a] by simp_all
qed

lemma eeprom_word_back:
  assumes e: "eeprom slave idle mem" and st: "stores idle mem m w" and a: "unat a + unat len \<le> 256"
  shows "fst (AT24CXX_ReadLenByte slave a len (AT24CXX_WriteLenByte slave a d len w)) = take_bit (8 * unat len) d"
proof -
  let ?bs = "word_bytes d (unat len)"
  have l: "length ?bs = unat len" by (simp add: word_bytes_def)
  have "map (\<lambda>i. overwrite m (ucast a) ?bs (ucast a + of_nat i)) [0..<unat len] = ?bs"
    using a l by (intro nth_equalityI) (simp_all add: overwrite_inside)
  then show ?thesis
    using eeprom.read_len_stores [OF e eeprom.Write_stores [OF e st, of a ?bs] a] a l horner_bytes [of 0 d "unat len"]
    by (simp add: AT24CXX_ReadLenByte_def AT24CXX_WriteLenByte_Write)
qed

text \<open>No chip on the bus: the line stays high.\<close>

lemma absent_reads_ones: "fst (AT24CXX_ReadOneByte (\<lambda>_. True) a w) = 0xFF"
proof -
  have b: "slave_bits (\<lambda>_. True) n h = replicate n True" for n h
    by (induction n arbitrary: h) simp_all
  have "foldl shift_in 0 (replicate 8 True) = (0xFF :: u8)"
    by (simp add: eval_nat_numeral shift_in_eq)
  moreover have "\<not> sda_out (SDA_IN v)" for v by (simp add: wire_defs Let_def)
  ultimately have "fst (IIC_Read_Byte (\<lambda>_. True) ack v) = 0xFF" for ack v
    using recv_bits_seen [of "SDA_IN v" "\<lambda>_. True" 8 0]
    by (simp add: IIC_Read_Byte_def split_beta b)
  then show ?thesis by (simp add: AT24CXX_ReadOneByte_def Let_def split_beta)
qed

text \<open>
  C18. On a chip that keeps the promises of its data sheet, from the pins up: a buffer written with
  \<open>AT24CXX_Write\<close> inside the 256 cells is read back by \<open>AT24CXX_Read\<close> exactly and no other cell has
  changed; a word of up to four bytes written with \<open>AT24CXX_WriteLenByte\<close> is read back, reduced to
  its length; and \<open>AT24CXX_Check\<close> finds the chip, changing no cell but its mark in the last one,
  while it reports 1 when there is no chip.
\<close>

theorem eeprom_keeps_what_is_written:
  assumes "eeprom slave idle mem" and "stores idle mem m w"
    and "unat a + length bs \<le> 256" and "unat b + unat len \<le> 256" and "unat len \<le> 4"
  shows "fst (AT24CXX_Read slave a (length bs) (AT24CXX_Write slave a bs w)) = bs
    \<and> (\<exists>m'. stores idle mem m' (AT24CXX_Write slave a bs w)
         \<and> (\<forall>c. unat c < unat a \<or> unat a + length bs \<le> unat c \<longrightarrow> m' c = m c))
    \<and> fst (AT24CXX_ReadLenByte slave b len (AT24CXX_WriteLenByte slave b d len w)) = take_bit (8 * unat len) d
    \<and> fst (AT24CXX_Check slave w) = 0
    \<and> stores idle mem (m(255 := 0x55)) (snd (AT24CXX_Check slave w))
    \<and> fst (AT24CXX_Check (\<lambda>_. True) w) = 1"
proof (intro conjI)
  show "\<exists>m'. stores idle mem m' (AT24CXX_Write slave a bs w)
      \<and> (\<forall>c. unat c < unat a \<or> unat a + length bs \<le> unat c \<longrightarrow> m' c = m c)"
  proof (intro exI conjI allI impI)
    show "stores idle mem (overwrite m (ucast a) bs) (AT24CXX_Write slave a bs w)"
      by (rule eeprom.Write_stores [OF assms(1-3)])
    fix c :: u8
    assume c: "unat c < unat a \<or> unat a + length bs \<le> unat c"
    show "overwrite m (ucast a) bs c = m c"
    proof (rule overwrite_outside)
      fix i assume i: "i < length bs"
      then have "unat (ucast a + of_nat i :: u8) = unat a + i"
        using assms(3) by (simp add: unat_word_ariths unat_of_nat_u8 unsigned_ucast_eq take_bit_eq_mod)
      with c i show "c \<noteq> ucast a + of_nat i" by auto
    qed
  qed
  have "fst (AT24CXX_Check (\<lambda>_. True) w) = 1"
    by (simp add: AT24CXX_Check_def Let_def split_beta absent_reads_ones)
  then show "fst (AT24CXX_Check (\<lambda>_. True) w) = 1" .
qed (use eeprom_read_back(1) [OF assms(1-3)] eeprom_word_back [OF assms(1,2,4)]
      eeprom.Check_stores [OF assms(1,2)] in auto)

theorem eeprom_keeps_what_is_written_witness:
  "fst (AT24CXX_Read (at24 (\<lambda>_. 0xFF)) 250 3 (AT24CXX_Write (at24 (\<lambda>_. 0xFF)) 250 [1, 2, 3] idle_wire)) = [1, 2, 3]
   \<and> fst (AT24CXX_ReadLenByte (at24 (\<lambda>_. 0xFF)) 7 2 (AT24CXX_WriteLenByte (at24 (\<lambda>_. 0xFF)) 7 0x12345 2 idle_wire))
     = 0x2345"
  using eeprom_keeps_what_is_written [OF c02.eeprom_axioms at24_stores, of 250 "[1, 2, 3]" 7 2 "\<lambda>_. 0xFF" "0x12345"]
  by (simp del: AT24CXX_Read.simps AT24CXX_Write.simps add: take_bit_eq_mod numeral_3_eq_3)

end
