(* ===== verification/Float32.thy ===== *)
theory Float32
  imports Complex_Main Prelude
begin

text \<open>
  C's \<open>float\<close>: the 32-bit image the firmware stores (sign, eight bits of exponent, 23 of mantissa),
  the rational it stands for, and rounding to nearest, ties to even, which every operation on
  floats ends with. Above the largest float the rounding gives the image of infinity; a
  not-a-number is not produced by the operations modelled with it.
\<close>

section \<open>Images and values\<close>

definition float_of :: "u32 \<Rightarrow> rat" where
  "float_of x =
     (let e = unat (take_bit 8 (drop_bit 23 x)); m = unat (take_bit 23 x);
          v = (if e = 0 then of_nat m * 2 powi (- 149)
               else of_nat (2 ^ 23 + m) * 2 powi (int e - 150))
      in if bit x 31 then - v else v)"

definition round_half_even :: "rat \<Rightarrow> int" where
  "round_half_even q =
     (let n = floor q; d = q - of_int n
      in if d < 1 / 2 \<or> d = 1 / 2 \<and> even n then n else n + 1)"

text \<open>The exponent field of a magnitude: the first whose range ends above it.\<close>

fun exponent_from :: "nat \<Rightarrow> nat \<Rightarrow> rat \<Rightarrow> nat" where
  "exponent_from 0 e q = e"
| "exponent_from (Suc fuel) e q = (if q < 2 powi (int e - 126) then e else exponent_from fuel (Suc e) q)"

definition float_round :: "rat \<Rightarrow> u32" where
  "float_round q =
     (let e = exponent_from 254 1 \<bar>q\<bar>;
          m = nat (round_half_even (\<bar>q\<bar> * 2 powi (150 - int e)));
          x = (if 254 < e then 0x7F800000 else of_nat ((e - 1) * 2 ^ 23 + m))
      in if q < 0 then or x 0x80000000 else x)"

declare exponent_from.simps [simp del]

section \<open>The rounding error\<close>

lemma round_half_even_close: "\<bar>of_int (round_half_even q) - q\<bar> \<le> 1 / 2"
proof -
  have "of_int (floor q) \<le> q" "q < of_int (floor q) + 1" by linarith+
  then show ?thesis unfolding round_half_even_def Let_def abs_if by (auto; linarith)
qed

lemma round_half_even_bounds:
  "of_int a \<le> q \<Longrightarrow> a \<le> round_half_even q" "q \<le> of_int b \<Longrightarrow> round_half_even q \<le> b"
proof -
  show "of_int a \<le> q \<Longrightarrow> a \<le> round_half_even q"
    unfolding round_half_even_def Let_def using le_floor_iff [of a q] by auto
  assume "q \<le> of_int b"
  then consider "q = of_int b" | "floor q < b" by (metis floor_less_iff order_le_less)
  then show "round_half_even q \<le> b" by cases (auto simp: round_half_even_def Let_def)
qed

lemma exponent_from_bounds:
  "e \<le> exponent_from n e q" "exponent_from n e q \<le> e + n"
  "exponent_from n e q < e + n \<Longrightarrow> q < 2 powi (int (exponent_from n e q) - 126)"
  "e < exponent_from n e q \<Longrightarrow> 2 powi (int (exponent_from n e q) - 127) \<le> q"
proof -
  show le: "e \<le> exponent_from n e q" for e n by (induction n arbitrary: e) (auto simp: exponent_from.simps intro: Suc_leD)
  show "exponent_from n e q \<le> e + n"
  proof (induction n arbitrary: e)
    case (Suc n)
    show ?case using Suc.IH [of "Suc e"] by (simp add: exponent_from.simps)
  qed (simp add: exponent_from.simps)
  show "exponent_from n e q < e + n \<Longrightarrow> q < 2 powi (int (exponent_from n e q) - 126)"
    by (induction n arbitrary: e) (auto simp: exponent_from.simps split: if_splits)
  show "e < exponent_from n e q \<Longrightarrow> 2 powi (int (exponent_from n e q) - 127) \<le> q"
  proof (induction n arbitrary: e)
    case (Suc n)
    then have q: "2 powi (int e - 126) \<le> q" by (auto simp: exponent_from.simps split: if_splits)
    show ?case
    proof (cases "Suc e < exponent_from n (Suc e) q")
      case True
      with Suc.IH [of "Suc e"] q show ?thesis by (simp add: exponent_from.simps)
    next
      case False
      with le [of "Suc e" n] have "exponent_from n (Suc e) q = Suc e" by (simp add: exponent_from.simps)
      with q show ?thesis by (simp add: exponent_from.simps algebra_simps)
    qed
  qed (simp add: exponent_from.simps)
qed

text \<open>The image built from an exponent and a mantissa stands for their product.\<close>

lemma float_of_image:
  assumes "0 < e" "e \<le> 254" "m \<le> 2 ^ 24" and m: "e = 1 \<or> 2 ^ 23 \<le> m"
    and below: "e < 254 \<or> m < 2 ^ 24"
  shows "float_of (of_nat ((e - 1) * 2 ^ 23 + m)) = of_nat m * 2 powi (int e - 150)"
    and "\<not> bit (of_nat ((e - 1) * 2 ^ 23 + m) :: u32) 31"
proof -
  define N where "N = (e - 1) * 2 ^ 23 + m"
  have N: "N < 2 ^ 31" using assms unfolding N_def by auto
  have u: "unat (of_nat N :: u32) = N" using N by (simp add: unsigned_of_nat take_bit_nat_eq_self)
  have fields: "unat (take_bit 8 (drop_bit 23 (of_nat N :: u32))) = N div 2 ^ 23 mod 2 ^ 8"
    "unat (take_bit 23 (of_nat N :: u32)) = N mod 2 ^ 23"
    by (simp_all only: unsigned_take_bit_eq unsigned_drop_bit_eq u)
      (use N in \<open>simp_all add: take_bit_eq_mod drop_bit_eq_div\<close>)
  show b: "\<not> bit (of_nat ((e - 1) * 2 ^ 23 + m) :: u32) 31"
    using N unfolding N_def [symmetric] by (simp only: bit_of_nat_iff) (simp add: bit_iff_odd)
  consider "e = 1" "m < 2 ^ 23" | "2 ^ 23 \<le> m" "m < 2 ^ 24" | "m = 2 ^ 24" "e < 254"
    using assms by linarith
  then have "float_of (of_nat N) = of_nat m * 2 powi (int e - 150)"
  proof cases
    case 1
    then have "N = m" by (simp add: N_def)
    with 1 b show ?thesis unfolding float_of_def fields Let_def N_def [symmetric] by simp
  next
    case 2
    then have "N = e * 2 ^ 23 + (m - 2 ^ 23)" using assms(1) by (cases e) (simp_all add: N_def)
    moreover from 2 have "m - 2 ^ 23 < 2 ^ 23" by simp
    ultimately have "N div 2 ^ 23 = e" "N mod 2 ^ 23 = m - 2 ^ 23" by (simp_all del: diff_is_0_eq)
    with 2 b assms(1,2) show ?thesis unfolding float_of_def fields Let_def N_def [symmetric] by simp
  next
    case 3
    then have "N = Suc e * 2 ^ 23" using assms(1) by (cases e) (simp_all add: N_def)
    then have "N div 2 ^ 23 = Suc e" "N mod 2 ^ 23 = 0" by simp_all
    with 3 b power_int_add_1' [of "2 :: rat" "int e - 150"] show ?thesis
      unfolding float_of_def fields Let_def N_def [symmetric] by simp
  qed
  then show "float_of (of_nat ((e - 1) * 2 ^ 23 + m)) = of_nat m * 2 powi (int e - 150)"
    by (simp only: N_def)
qed

lemma float_of_minus:
  assumes "\<not> bit x 31"
  shows "float_of (or x 0x80000000) = - float_of x"
proof -
  have f: "take_bit 8 (drop_bit 23 (or x 0x80000000)) = take_bit 8 (drop_bit 23 x)"
    "take_bit 23 (or x 0x80000000) = take_bit 23 x" "bit (or x 0x80000000) 31"
  proof -
    have h: "(0x80000000 :: u32) = push_bit 31 1" by simp
    show "take_bit 8 (drop_bit 23 (or x 0x80000000)) = take_bit 8 (drop_bit 23 x)"
      unfolding h by (rule bit_eqI) (auto simp: bit_simps)
    show "take_bit 23 (or x 0x80000000) = take_bit 23 x"
      unfolding h by (rule bit_eqI) (auto simp: bit_simps)
    show "bit (or x 0x80000000) 31" unfolding h by (auto simp: bit_simps)
  qed
  show ?thesis using assms by (simp only: float_of_def f Let_def if_True if_False minus_minus)
qed

text \<open>
  Rounding moves a number below \<open>2 ^ 127\<close> by at most its \<open>2 ^ 24\<close>th part, or, next to zero, by
  half of the smallest float.
\<close>

theorem float_round_close:
  assumes "\<bar>q\<bar> < 2 ^ 127"
  shows "\<bar>float_of (float_round q) - q\<bar> \<le> \<bar>q\<bar> / 2 ^ 24 + 1 / 2 ^ 150"
proof -
  define a where "a = \<bar>q\<bar>"
  define e where "e = exponent_from 254 1 a"
  define s where "s = a * 2 powi (150 - int e)"
  define m where "m = nat (round_half_even s)"
  define p where "p = (2 :: rat) powi (int e - 150)"
  have p: "0 < p" "s * p = a"
    by (simp_all add: p_def s_def power_int_add [symmetric] mult.assoc)
  have e: "1 \<le> e" "e \<le> 255" unfolding e_def using exponent_from_bounds(1,2) [where e = 1 and n = 254] by simp_all
  have ge: "2 powi (int e - 127) \<le> a" if "e \<noteq> 1"
    using exponent_from_bounds(4) [where e = 1 and n = 254 and q = a] e that by (simp add: e_def)
  have e254: "e < 254"
  proof (rule ccontr)
    assume "\<not> e < 254"
    then have "(2 :: rat) ^ 127 \<le> 2 powi (int e - 127)"
      using power_int_increasing [of 127 "int e - 127" "2 :: rat"] by simp
    with ge assms \<open>\<not> e < 254\<close> show False by (simp add: a_def)
  qed
  have up: "a < 2 powi (int e - 126)"
    using exponent_from_bounds(3) [where e = 1 and n = 254 and q = a] e254 by (simp add: e_def)
  have "s < 2 powi (int e - 126) * 2 powi (150 - int e)"
    unfolding s_def by (rule mult_strict_right_mono [OF up]) simp
  then have s: "0 \<le> s" "s \<le> of_int (2 ^ 24)"
    by (simp_all add: power_int_add [symmetric]) (simp add: s_def a_def)
  have m: "of_nat m = of_int (round_half_even s)" "m \<le> 2 ^ 24"
    using round_half_even_bounds(1) [of 0 s] round_half_even_bounds(2) [OF s(2)] s(1) by (simp_all add: m_def)
  have low: "e = 1 \<or> 2 ^ 23 \<le> m"
  proof (cases "e = 1")
    case False
    have "(2 :: rat) powi (int e - 127) * 2 powi (150 - int e) \<le> s"
      unfolding s_def by (rule mult_right_mono [OF ge [OF False]]) simp
    then have "of_int (2 ^ 23) \<le> s" by (simp add: power_int_add [symmetric])
    from round_half_even_bounds(1) [OF this] have "2 ^ 23 \<le> m" unfolding m_def by (simp add: le_nat_iff)
    then show ?thesis by simp
  qed simp
  have image: "float_of (of_nat ((e - 1) * 2 ^ 23 + m)) = of_nat m * p"
    and sign: "\<not> bit (of_nat ((e - 1) * 2 ^ 23 + m) :: u32) 31"
    unfolding p_def by (intro float_of_image; use e e254 m(2) low in linarith)+
  have "float_round q = (let x = of_nat ((e - 1) * 2 ^ 23 + m) in if q < 0 then or x 0x80000000 else x)"
    using e254 by (simp only: float_round_def Let_def a_def [symmetric] e_def [symmetric]
      s_def [symmetric] m_def [symmetric]) simp
  then have "float_of (float_round q) = (if q < 0 then - (of_nat m * p) else of_nat m * p)"
    by (simp only: Let_def float_of_minus [OF sign] image if_distrib [of float_of])
  then have "\<bar>float_of (float_round q) - q\<bar> = \<bar>of_nat m * p - a\<bar>"
    by (auto simp: a_def)
  also have "\<dots> = \<bar>of_nat m - s\<bar> * p"
    by (simp only: p(2) [symmetric] left_diff_distrib [symmetric] abs_mult abs_of_pos [OF p(1)])
  also have "\<dots> \<le> 1 / 2 * p"
    using round_half_even_close [of s] p(1) by (simp add: m(1))
  also have "\<dots> \<le> \<bar>q\<bar> / 2 ^ 24 + 1 / 2 ^ 150"
  proof (cases "e = 1")
    case True
    then show ?thesis by (simp add: p_def power_int_minus)
  next
    case False
    have "p = 2 powi (int e - 127) * 2 powi (- 23)"
      unfolding p_def by (subst power_int_add [symmetric]) simp_all
    with ge [OF False] show ?thesis by (simp add: a_def power_int_minus)
  qed
  finally show ?thesis .
qed

end
