(* ===== verification/Touch_Panel.thy ===== *)
theory Touch_Panel
  imports Touch_Input Eeprom Float32 Screen
begin

text \<open>
  The touch panel (\<open>applications/touch.c\<close>): the device record \<open>tp_dev\<close>, the scan that turns
  readings into screen coordinates and keeps the pen's state, the calibration data in the EEPROM,
  the four-point calibration and the initialisation.
\<close>

section \<open>The device\<close>

datatype scan_function = TP_Scan_Fn | GT9147_Scan_Fn | OTT2001A_Scan_Fn | FT5206_Scan_Fn

record tp_dev =
  scan :: scan_function
  tp_x :: "u16 list"
  tp_y :: "u16 list"
  sta :: u8
  xfac :: u32                      \<comment> \<open>image of a \<open>float\<close>\<close>
  yfac :: u32
  xoff :: u16                      \<comment> \<open>\<open>short\<close>\<close>
  yoff :: u16
  touchtype :: u8
  filler :: u8                     \<comment> \<open>the byte after \<open>touchtype\<close>, up to the record's alignment\<close>
  CMD_RDX :: u8
  CMD_RDY :: u8
  port :: adc_port

text \<open>The initial values of the record and of the two commands, with the pins at rest.\<close>

definition initial_tp_dev :: tp_dev where
  "initial_tp_dev =
     \<lparr> scan = TP_Scan_Fn, tp_x = replicate 5 0, tp_y = replicate 5 0, sta = 0, xfac = 0, yfac = 0,
       xoff = 0, yoff = 0, touchtype = 0, filler = 0, CMD_RDX = 0xD0, CMD_RDY = 0x90,
       port = \<lparr> tclk = False, tdin = False, tcs = True, dout = False, adc_seen = [] \<rparr> \<rparr>"

definition TP_PRES_DOWN :: u8 where "TP_PRES_DOWN = 0x80"
definition TP_CATH_PRES :: u8 where "TP_CATH_PRES = 0x40"

section \<open>Scanning\<close>

text \<open>
  \<open>(uint16_t)(fac * v + off)\<close> in float arithmetic: the product and the sum are rounded, the
  result is truncated. Outside the range of \<open>uint16_t\<close> the conversion is undefined in C.
\<close>

definition truncated :: "rat \<Rightarrow> int" where
  "truncated q = (if 0 \<le> q then floor q else ceiling q)"

definition scaled :: "u32 \<Rightarrow> u16 \<Rightarrow> u16 \<Rightarrow> u16" where
  "scaled fac v off =
     (let product = float_round (float_of fac * of_nat (unat v));
          s = float_round (float_of product + of_int (sint off))
      in word_of_int (truncated (float_of s)))"

definition read_point :: "adc_chip \<Rightarrow> tp_dev \<Rightarrow> bool \<times> tp_dev" where
  "read_point chip t =
     (case TP_Read_XY2 chip (CMD_RDX t) (CMD_RDY t) (port t) of
        (None, p) \<Rightarrow> (False, t \<lparr> port := p \<rparr>)
      | (Some (x, y), p) \<Rightarrow> (True, t \<lparr> port := p, tp_x := (tp_x t)[0 := x], tp_y := (tp_y t)[0 := y] \<rparr>))"

text \<open>\<open>pen\<close>: the interrupt line of the controller is low, the panel is touched.\<close>

definition TP_Scan :: "adc_chip \<Rightarrow> bool \<Rightarrow> bool \<Rightarrow> tp_dev \<Rightarrow> u8 \<times> tp_dev" where
  "TP_Scan chip pen tp t =
     (let t =
        (if pen then
           let t = (if tp then snd (read_point chip t)
                    else let (ok, t) = read_point chip t
                         in if ok
                            then t \<lparr> tp_x := (tp_x t)[0 := scaled (xfac t) (tp_x t ! 0) (xoff t)],
                                     tp_y := (tp_y t)[0 := scaled (yfac t) (tp_y t ! 0) (yoff t)] \<rparr>
                            else t)
           in if and (sta t) TP_PRES_DOWN = 0
              then t \<lparr> sta := or TP_PRES_DOWN TP_CATH_PRES,
                       tp_x := (tp_x t)[4 := tp_x t ! 0], tp_y := (tp_y t)[4 := tp_y t ! 0] \<rparr>
              else t
         else if and (sta t) TP_PRES_DOWN \<noteq> 0 then t \<lparr> sta := and (sta t) (not (push_bit 7 1)) \<rparr>
         else t \<lparr> tp_x := (tp_x t)[4 := 0, 0 := 0xffff], tp_y := (tp_y t)[4 := 0, 0 := 0xffff] \<rparr>)
      in (and (sta t) TP_PRES_DOWN, t))"

section \<open>The calibration data\<close>

definition SAVE_ADDR_BASE :: u16 where "SAVE_ADDR_BASE = 40"

text \<open>The fourteen bytes from \<open>&tp_dev.xfac\<close> on, lowest byte first, and their way back.\<close>

definition adj_bytes :: "tp_dev \<Rightarrow> u8 list" where
  "adj_bytes t = word_bytes (xfac t) 4 @ word_bytes (yfac t) 4 @ word_bytes (ucast (xoff t)) 2
     @ word_bytes (ucast (yoff t)) 2 @ [touchtype t, filler t]"

definition bytes_word :: "u8 list \<Rightarrow> u32" where
  "bytes_word bs = foldl (\<lambda>t b. push_bit 8 t + ucast b) 0 (rev bs)"

definition set_adj_bytes :: "u8 list \<Rightarrow> tp_dev \<Rightarrow> tp_dev" where
  "set_adj_bytes bs t =
     t \<lparr> xfac := bytes_word (take 4 bs), yfac := bytes_word (take 4 (drop 4 bs)),
         xoff := ucast (bytes_word (take 2 (drop 8 bs))), yoff := ucast (bytes_word (take 2 (drop 10 bs))),
         touchtype := bs ! 12, filler := bs ! 13 \<rparr>"

definition TP_Save_Adjdata :: "chip \<Rightarrow> tp_dev \<Rightarrow> wire \<Rightarrow> wire" where
  "TP_Save_Adjdata slave t w =
     AT24CXX_WriteOneByte slave (SAVE_ADDR_BASE + 14) 0x0A
       (AT24CXX_Write slave SAVE_ADDR_BASE (adj_bytes t) w)"

definition set_commands :: "tp_dev \<Rightarrow> tp_dev" where
  "set_commands t =
     (if touchtype t \<noteq> 0 then t \<lparr> CMD_RDX := 0x90, CMD_RDY := 0xD0 \<rparr>
      else t \<lparr> CMD_RDX := 0xD0, CMD_RDY := 0x90 \<rparr>)"

definition TP_Get_Adjdata :: "chip \<Rightarrow> tp_dev \<Rightarrow> wire \<Rightarrow> u8 \<times> tp_dev \<times> wire" where
  "TP_Get_Adjdata slave t w =
     (let (temp, w) = AT24CXX_ReadOneByte slave (SAVE_ADDR_BASE + 14) w
      in if temp = 0x0A
         then let (bs, w) = AT24CXX_Read slave SAVE_ADDR_BASE 14 w
              in (1, set_commands (set_adj_bytes bs t), w)
         else (0, t, w))"

section \<open>Calibration\<close>

definition TP_Drow_Touch_Point :: "u16 \<Rightarrow> u16 \<Rightarrow> u32 \<Rightarrow> lcd_call list" where
  "TP_Drow_Touch_Point x y color =
     [Point_Color color, Line (x - 12) y (x + 13) y, Line x (y - 12) x (y + 13),
      Draw_Point (x + 1) (y + 1), Draw_Point (x - 1) (y + 1),
      Draw_Point (x + 1) (y - 1), Draw_Point (x - 1) (y - 1), Circle x y 6]"

definition TP_Draw_Big_Point :: "u16 \<Rightarrow> u16 \<Rightarrow> u32 \<Rightarrow> lcd_call list" where
  "TP_Draw_Big_Point x y color =
     [Point_Color color, Draw_Point x y, Draw_Point (x + 1) y, Draw_Point x (y + 1),
      Draw_Point (x + 1) (y + 1)]"

definition TP_Adj_Info_Show :: "u16 \<Rightarrow> u16 \<Rightarrow> (u16 \<times> u16) list \<Rightarrow> u16 \<Rightarrow> lcd_call list" where
  "TP_Adj_Info_Show width height ps fac =
     [Point_Color RED,
      Show_String 40 160 width height 16 ''x1:'', Show_String 120 160 width height 16 ''y1:'',
      Show_String 40 180 width height 16 ''x2:'', Show_String 120 180 width height 16 ''y2:'',
      Show_String 40 200 width height 16 ''x3:'', Show_String 120 200 width height 16 ''y3:'',
      Show_String 40 220 width height 16 ''x4:'', Show_String 120 220 width height 16 ''y4:'',
      Show_String 40 240 width height 16 ''fac is:'',
      Show_Num 64 160 (ucast (fst (ps ! 0))) 4 16, Show_Num 144 160 (ucast (snd (ps ! 0))) 4 16,
      Show_Num 64 180 (ucast (fst (ps ! 1))) 4 16, Show_Num 144 180 (ucast (snd (ps ! 1))) 4 16,
      Show_Num 64 200 (ucast (fst (ps ! 2))) 4 16, Show_Num 144 200 (ucast (snd (ps ! 2))) 4 16,
      Show_Num 64 220 (ucast (fst (ps ! 3))) 4 16, Show_Num 144 220 (ucast (snd (ps ! 3))) 4 16,
      Show_Num 96 240 (ucast fac) 3 16]"

text \<open>
  The distance of two points: \<open>sqrt\<close> of a 32-bit number in double precision, truncated, is its
  integer square root, found here bit by bit.
\<close>

definition integer_sqrt :: "nat \<Rightarrow> nat" where
  "integer_sqrt n =
     foldl (\<lambda>r k. if (r + 2 ^ k) * (r + 2 ^ k) \<le> n then r + 2 ^ k else r) 0 (rev [0..<16])"

definition square_abs :: "u16 \<Rightarrow> u16 \<Rightarrow> u32" where
  "square_abs a b = (let tem = word_of_int \<bar>uint a - uint b\<bar> in tem * tem)"

definition point_distance :: "u16 \<times> u16 \<Rightarrow> u16 \<times> u16 \<Rightarrow> u16" where
  "point_distance p q =
     of_nat (integer_sqrt (unat (square_abs (fst p) (fst q) + square_abs (snd p) (snd q))))"

text \<open>
  \<open>fac = (float)d1/d2\<close> and the test against 0.95 and 1.05. A division by zero gives an infinity,
  which is above 1.05, or, when \<open>d1\<close> is zero too, a not-a-number, for which both tests are false.
\<close>

definition ratio :: "u16 \<Rightarrow> u16 \<Rightarrow> rat" where
  "ratio d1 d2 = float_of (float_round (of_nat (unat d1) / of_nat (unat d2)))"

definition off_ratio :: "u16 \<Rightarrow> u16 \<Rightarrow> bool" where
  "off_ratio d1 d2 =
     (if d2 = 0 then d1 \<noteq> 0 else ratio d1 d2 < 95 / 100 \<or> 105 / 100 < ratio d1 d2)"

text \<open>The first quotient of opposite sides or of the diagonals that is off, as \<open>fac*100\<close>.\<close>

definition percent :: "u16 \<Rightarrow> u16 \<Rightarrow> u16" where
  "percent d1 d2 = (if d2 = 0 then 0 else word_of_int (floor (ratio d1 d2 * 100)))"

definition first_fault :: "(u16 \<times> u16) list \<Rightarrow> u16 option" where
  "first_fault ps =
     (let d1 = point_distance (ps ! 0) (ps ! 1); d2 = point_distance (ps ! 2) (ps ! 3) in
      if off_ratio d1 d2 \<or> d1 = 0 \<or> d2 = 0 then Some (percent d1 d2)
      else let d1 = point_distance (ps ! 0) (ps ! 2); d2 = point_distance (ps ! 1) (ps ! 3) in
      if off_ratio d1 d2 then Some (percent d1 d2)
      else let d1 = point_distance (ps ! 1) (ps ! 2); d2 = point_distance (ps ! 0) (ps ! 3) in
      if off_ratio d1 d2 then Some (percent d1 d2)
      else None)"

text \<open>
  The factor and the offset of one direction: \<open>size\<close> is the screen's extent, \<open>a\<close> and \<open>b\<close> the
  readings at 20 and at \<open>size - 20\<close>. \<open>abs\<close> is the integer function of \<open>stdlib.h\<close>, so the fraction
  of the factor is dropped before the comparison; an infinite factor is above any bound.
\<close>

definition factor :: "u16 \<Rightarrow> u16 \<Rightarrow> u16 \<Rightarrow> u32" where
  "factor extent a b =
     (if a = b then 0x7F800000
      else float_round (of_int (uint extent - 40) / of_int (uint b - uint a)))"

definition offset :: "u16 \<Rightarrow> u32 \<Rightarrow> u16 \<Rightarrow> u16 \<Rightarrow> u16" where
  "offset extent fac a b =
     (let product = float_round (float_of fac * of_int (uint b + uint a));
          difference = float_round (of_nat (unat extent) - float_of product)
      in word_of_int (truncated (float_of (float_round (float_of difference / 2)))))"

definition above_two :: "u32 \<Rightarrow> bool" where
  "above_two fac = (2 < \<bar>truncated (float_of fac)\<bar>)"

section \<open>The calibration loop\<close>

record adjust =
  dev :: tp_dev
  cnt :: u8
  outtime :: u16
  pos_temp :: "(u16 \<times> u16) list"
  drawn :: "lcd_call list"
  bus :: wire

datatype outcome = Again adjust | Returned adjust

text \<open>How the switch over the points is left: by \<open>continue\<close>, by \<open>break\<close> or by \<open>return\<close>.\<close>

datatype left_by = Continue adjust | Break adjust | Return adjust

definition draw_on :: "lcd_call list \<Rightarrow> adjust \<Rightarrow> adjust" where
  "draw_on cs a = a \<lparr> drawn := drawn a @ cs \<rparr>"

text \<open>The fourth point is in: check, compute, and save or start again.\<close>

definition restart :: "u16 \<Rightarrow> u16 \<Rightarrow> adjust \<Rightarrow> adjust" where
  "restart width height a =
     draw_on (TP_Drow_Touch_Point (width - 20) (height - 20) WHITE @ TP_Drow_Touch_Point 20 20 RED)
       (a \<lparr> cnt := 0 \<rparr>)"

definition four_points :: "chip \<Rightarrow> u16 \<Rightarrow> u16 \<Rightarrow> adjust \<Rightarrow> left_by" where
  "four_points slave width height a =
     (let ps = pos_temp a in
      case first_fault ps of
        Some fac \<Rightarrow> Continue (draw_on (TP_Adj_Info_Show width height ps fac) (restart width height a))
      | None \<Rightarrow>
          let xf = factor width (fst (ps ! 0)) (fst (ps ! 1));
              yf = factor height (snd (ps ! 0)) (snd (ps ! 2));
              a = a \<lparr> dev := (dev a) \<lparr> xfac := xf, xoff := offset width xf (fst (ps ! 0)) (fst (ps ! 1)),
                          yfac := yf, yoff := offset height yf (snd (ps ! 0)) (snd (ps ! 2)) \<rparr> \<rparr>
          in if above_two xf \<or> above_two yf
             then let a = draw_on [Show_String 40 26 width height 16 ''TP Need readjust!''] (restart width height a)
                  in Continue (a \<lparr> dev := set_commands ((dev a)
                         \<lparr> touchtype := (if touchtype (dev a) = 0 then 1 else 0) \<rparr>) \<rparr>)
             else let a = draw_on [Point_Color BLUE, Clear_Screen WHITE,
                            Show_String 35 110 width height 16 ''Touch Screen Adjust OK!''] a;
                      a = a \<lparr> bus := TP_Save_Adjdata slave (dev a) (bus a) \<rparr>
                  in Return (draw_on [Clear_Screen WHITE] a))"

text \<open>One point more: the next cross, or the check of the four.\<close>

definition click :: "chip \<Rightarrow> u16 \<Rightarrow> u16 \<Rightarrow> adjust \<Rightarrow> left_by" where
  "click slave width height a =
     (let a = a \<lparr> outtime := 0, dev := (dev a) \<lparr> sta := and (sta (dev a)) (not (push_bit 6 1)) \<rparr> \<rparr>;
          a = a \<lparr> pos_temp := (pos_temp a)[unat (cnt a) := (tp_x (dev a) ! 0, tp_y (dev a) ! 0)], cnt := cnt a + 1 \<rparr>
      in if cnt a = 1
         then Break (draw_on (TP_Drow_Touch_Point 20 20 WHITE @ TP_Drow_Touch_Point (width - 20) 20 RED) a)
         else if cnt a = 2
         then Break (draw_on (TP_Drow_Touch_Point (width - 20) 20 WHITE
                @ TP_Drow_Touch_Point 20 (height - 20) RED) a)
         else if cnt a = 3
         then Break (draw_on (TP_Drow_Touch_Point 20 (height - 20) WHITE
                @ TP_Drow_Touch_Point (width - 20) (height - 20) RED) a)
         else if cnt a = 4 then four_points slave width height a
         else Break a)"

text \<open>The end of a turn: after more than a thousand turns without a point the stored data is used.\<close>

definition wait_turn :: "chip \<Rightarrow> adjust \<Rightarrow> outcome" where
  "wait_turn slave a =
     (let a = a \<lparr> outtime := outtime a + 1 \<rparr>
      in if outtime a > 1000
         then (case TP_Get_Adjdata slave (dev a) (bus a) of
                 (r, t, w) \<Rightarrow> Returned (a \<lparr> dev := t, bus := w \<rparr>))
         else Again a)"

definition adjust_turn :: "adc_chip \<Rightarrow> chip \<Rightarrow> u16 \<Rightarrow> u16 \<Rightarrow> bool \<Rightarrow> adjust \<Rightarrow> outcome" where
  "adjust_turn chip slave width height pen a =
     (let a = a \<lparr> dev := snd (TP_Scan chip pen True (dev a)) \<rparr>
      in if and (sta (dev a)) 0xC0 = TP_CATH_PRES
         then (case click slave width height a of
                 Return b \<Rightarrow> Returned b
               | Continue b \<Rightarrow> Again b
               | Break b \<Rightarrow> wait_turn slave b)
         else wait_turn slave a)"

text \<open>
  The loop: \<open>pen n\<close> is the state of the panel at turn \<open>n\<close>; \<open>None\<close> would be a loop that never ends.
\<close>

partial_function (option) adjust_loop ::
    "adc_chip \<Rightarrow> chip \<Rightarrow> u16 \<Rightarrow> u16 \<Rightarrow> (nat \<Rightarrow> bool) \<Rightarrow> nat \<Rightarrow> adjust \<Rightarrow> adjust option" where
  "adjust_loop chip slave width height pen n a =
     (case adjust_turn chip slave width height (pen n) a of
        Returned b \<Rightarrow> Some b
      | Again b \<Rightarrow> adjust_loop chip slave width height pen (Suc n) b)"

definition TP_REMIND_MSG_TBL :: string where
  "TP_REMIND_MSG_TBL = ''Please use the stylus click the cross on the screen.The cross will always move until the screen adjustment is completed.''"

definition TP_Adjust :: "adc_chip \<Rightarrow> chip \<Rightarrow> u16 \<Rightarrow> u16 \<Rightarrow> (nat \<Rightarrow> bool) \<Rightarrow> adjust \<Rightarrow> adjust option" where
  "TP_Adjust chip slave width height pen a =
     (let a = draw_on ([Point_Color BLUE, Back_Color WHITE, Clear_Screen WHITE, Point_Color RED,
                Clear_Screen WHITE, Point_Color BLACK, Show_String 40 40 160 100 16 TP_REMIND_MSG_TBL]
                @ TP_Drow_Touch_Point 20 20 RED) (a \<lparr> cnt := 0, outtime := 0 \<rparr>);
          a = a \<lparr> dev := (dev a) \<lparr> sta := 0, xfac := 0 \<rparr> \<rparr>
      in adjust_loop chip slave width height pen 0 a)"

section \<open>Initialisation\<close>

text \<open>
  \<open>gt9147\<close> is what \<open>GT9147_Init\<close> returned, \<open>dir\<close> the direction of the display. \<open>None\<close>: the
  calibration never ended.
\<close>

definition capacitive :: "scan_function \<Rightarrow> u8 \<Rightarrow> tp_dev \<Rightarrow> tp_dev" where
  "capacitive f dir t =
     t \<lparr> scan := f, touchtype := or (or (touchtype t) 0x80) (and dir 0x01) \<rparr>"

definition TP_Init :: "adc_chip \<Rightarrow> chip \<Rightarrow> u16 \<Rightarrow> u8 \<Rightarrow> u8 \<Rightarrow> u16 \<Rightarrow> u16 \<Rightarrow> (nat \<Rightarrow> bool) \<Rightarrow> adjust
    \<Rightarrow> (u8 \<times> adjust) option" where
  "TP_Init chip slave lcd_id gt9147 dir width height pen a =
     (if lcd_id = 0x5510
      then Some (0, a \<lparr> dev := capacitive (if gt9147 = 0 then GT9147_Scan_Fn else OTT2001A_Scan_Fn) dir (dev a) \<rparr>)
      else if lcd_id = 0x1963
      then Some (0, a \<lparr> dev := capacitive FT5206_Scan_Fn dir (dev a) \<rparr>)
      else let t = dev a;
               (r, x, y, p) = TP_Read_XY chip (CMD_RDX t) (CMD_RDY t) (port t);
               t = t \<lparr> port := p, tp_x := (tp_x t)[0 := x], tp_y := (tp_y t)[0 := y] \<rparr>;
               w = AT24CXX_Init slave (bus a);
               (r, t, w) = TP_Get_Adjdata slave t w;
               a = a \<lparr> dev := t, bus := w \<rparr>
           in if r \<noteq> 0 then Some (0, a)
              else case TP_Adjust chip slave width height pen (draw_on [Clear_Screen WHITE] a) of
                     None \<Rightarrow> None
                   | Some a \<Rightarrow> let (r, t, w) = TP_Get_Adjdata slave (dev a) (bus a)
                               in Some (1, a \<lparr> dev := t, bus := w \<rparr>))"

section \<open>Saving and reading back\<close>

lemma length_word_bytes [simp]: "length (word_bytes d n) = n"
  by (simp add: word_bytes_def)

lemma bytes_word_bytes: "bytes_word (word_bytes d n) = take_bit (8 * n) d"
  by (simp add: bytes_word_def horner_bytes)

lemma take_bit_u32 [simp]: "take_bit 32 (d :: u32) = d"
  by (simp add: take_bit_word_eq_self)

lemma short_bytes [simp]: "(ucast (take_bit 16 (ucast (d :: u16) :: u32)) :: u16) = d"
  by (simp add: bit_eq_iff bit_simps)

lemma set_adj_bytes_adj_bytes:
  "set_adj_bytes (adj_bytes t) u =
     u \<lparr> xfac := xfac t, yfac := yfac t, xoff := xoff t, yoff := yoff t, touchtype := touchtype t,
         filler := filler t \<rparr>"
  by (simp add: set_adj_bytes_def adj_bytes_def bytes_word_bytes nth_append)

lemma length_adj_bytes [simp]: "length (adj_bytes t) = 14"
  by (simp add: adj_bytes_def)

context eeprom
begin

lemma Save_stores:
  "stores idle mem m w \<Longrightarrow>
     stores idle mem ((overwrite m 40 (adj_bytes t))(54 := 0x0A)) (TP_Save_Adjdata slave t w)"
  using WriteOneByte_stores [OF Write_stores [of m w 40 "adj_bytes t"], of 54 "0x0A"]
  by (simp add: TP_Save_Adjdata_def SAVE_ADDR_BASE_def)

lemma Get_stores:
  assumes "stores idle mem m w"
  defines "bs \<equiv> map (\<lambda>i. m (40 + of_nat i)) [0..<14]"
  shows "fst (TP_Get_Adjdata slave t w) = (if m 54 = 0x0A then 1 else 0)
    \<and> fst (snd (TP_Get_Adjdata slave t w))
        = (if m 54 = 0x0A then set_commands (set_adj_bytes bs t) else t)
    \<and> stores idle mem m (snd (snd (TP_Get_Adjdata slave t w)))"
proof -
  obtain b w1 where r: "AT24CXX_ReadOneByte slave 54 w = (b, w1)" by fastforce
  with ReadOneByte_stores [OF assms(1), of 54] have b: "b = m 54" "stores idle mem m w1" by simp_all
  show ?thesis
    using Read_stores [OF b(2), of 40 14] b(2)
    by (auto simp: TP_Get_Adjdata_def SAVE_ADDR_BASE_def r b(1) bs_def split_beta Let_def)
qed

end

end
