(* ===== verification/Touch_Facts.thy ===== *)
theory Touch_Facts
  imports Touch_Panel
begin

text \<open>
  The properties of the touch panel: the calibration loop ends, the calibration survives a restart
  in the EEPROM, and what the initialisation does with and without a stored calibration.
\<close>

section \<open>The pen\<close>

lemma bit_7_u8: "(and (x :: u8) 0x80 = 0) = (\<not> bit x 7)"
  using top_bit [of x] by blast

lemma sta_bits: "bit (or TP_PRES_DOWN TP_CATH_PRES) 7" "bit (and (x :: u8) (not (push_bit 7 1))) 6 = bit x 6"
  "\<not> bit (and (x :: u8) (not (push_bit 7 1))) 7" "\<not> bit (and (x :: u8) (not (push_bit 6 1))) 6"
  "bit (and (x :: u8) (not (push_bit 6 1))) 7 = bit x 7"
  unfolding TP_PRES_DOWN_def TP_CATH_PRES_def by (simp_all add: bit_simps)

lemma clicked: "(and (x :: u8) 0xC0 = TP_CATH_PRES) = (bit x 6 \<and> \<not> bit x 7)"
proof -
  have c: "(0xC0 :: u8) = or (push_bit 6 1) (push_bit 7 1)" "TP_CATH_PRES = push_bit 6 1"
    by (simp_all add: TP_CATH_PRES_def)
  have "bit (0xC0 :: u8) n = (n = 6 \<or> n = 7)" "bit TP_CATH_PRES n = (n = 6)" for n
    unfolding c by (simp_all only: bit_simps) auto
  moreover have "(and x 0xC0 = TP_CATH_PRES) = (\<forall>n. bit (and x 0xC0) n = bit TP_CATH_PRES n)"
    by (metis bit_eqI)
  moreover have "(\<forall>n. (bit x n \<and> (n = 6 \<or> n = 7)) = (n = 6)) = (bit x 6 \<and> \<not> bit x 7)"
    by (auto dest: spec [of _ 6] spec [of _ 7])
  ultimately show ?thesis by (simp only: bit_and_iff)
qed

lemma sta_read_point [simp]: "sta (snd (read_point chip t)) = sta t"
  by (simp add: read_point_def split: prod.split option.split)

lemma sta_TP_Scan:
  "sta (snd (TP_Scan chip pen tp t)) =
     (if pen then if bit (sta t) 7 then sta t else or TP_PRES_DOWN TP_CATH_PRES
      else if bit (sta t) 7 then and (sta t) (not (push_bit 7 1)) else sta t)"
  by (auto simp: TP_Scan_def Let_def split_beta bit_7_u8 TP_PRES_DOWN_def)

section \<open>The calibration ends\<close>

text \<open>
  A state in which the next turn takes no point: the panel is touched, or the pen has been lifted
  and its press dealt with.
\<close>

definition quiet :: "bool \<Rightarrow> adjust \<Rightarrow> bool" where
  "quiet pen a \<longleftrightarrow> pen \<or> \<not> bit (sta (dev a)) 6 \<and> \<not> bit (sta (dev a)) 7"

lemma draw_on_simps [simp]: "dev (draw_on cs a) = dev a" "outtime (draw_on cs a) = outtime a"
  "cnt (draw_on cs a) = cnt a" "bus (draw_on cs a) = bus a" "pos_temp (draw_on cs a) = pos_temp a"
  by (simp_all add: draw_on_def)

lemma restart_simps [simp]: "dev (restart w h a) = dev a" "outtime (restart w h a) = outtime a"
  by (simp_all add: restart_def)

lemma sta_set_commands [simp]: "sta (set_commands t) = sta t"
  by (simp add: set_commands_def)

lemma four_points_leaves:
  "(case four_points slave w h a of
      Return b \<Rightarrow> True | Continue b \<Rightarrow> sta (dev b) = sta (dev a) \<and> outtime b = outtime a | Break b \<Rightarrow> False)"
  by (simp add: four_points_def Let_def split: option.split)

lemma click_leaves:
  "(case click slave w h a of
      Return b \<Rightarrow> True
    | Continue b \<Rightarrow> \<not> bit (sta (dev b)) 6 \<and> bit (sta (dev b)) 7 = bit (sta (dev a)) 7 \<and> outtime b = 0
    | Break b \<Rightarrow> \<not> bit (sta (dev b)) 6 \<and> bit (sta (dev b)) 7 = bit (sta (dev a)) 7 \<and> outtime b = 0)"
proof -
  define b where "b = (let a = a \<lparr> outtime := 0, dev := (dev a) \<lparr> sta := and (sta (dev a)) (not (push_bit 6 1)) \<rparr> \<rparr>
    in a \<lparr> pos_temp := (pos_temp a)[unat (cnt a) := (tp_x (dev a) ! 0, tp_y (dev a) ! 0)], cnt := cnt a + 1 \<rparr>)"
  have b: "\<not> bit (sta (dev b)) 6" "bit (sta (dev b)) 7 = bit (sta (dev a)) 7" "outtime b = 0"
    unfolding b_def Let_def by (simp_all add: sta_bits del: push_bit_of_1)
  show ?thesis
    using four_points_leaves [where slave = slave and w = w and h = h and a = b] b
    unfolding click_def Let_def b_def [unfolded Let_def, symmetric]
    by (auto split: left_by.splits)
qed

lemma wait_turn_again:
  assumes "wait_turn slave a = Again b"
  shows "b = a \<lparr> outtime := outtime a + 1 \<rparr> \<and> unat (outtime b) \<le> 1000"
  using assms by (auto simp: wait_turn_def Let_def word_less_nat_alt split: if_splits prod.splits)

lemma adjust_turn_again:
  assumes "adjust_turn chip slave w h pen a = Again b"
  shows "quiet pen b \<and> unat (outtime b) \<le> 1000"
proof -
  define c where "c = a \<lparr> dev := snd (TP_Scan chip pen True (dev a)) \<rparr>"
  have sc: "bit (sta (dev c)) 7 = pen"
    by (auto simp: c_def sta_TP_Scan sta_bits simp del: push_bit_of_1)
  have turn: "(if and (sta (dev c)) 0xC0 = TP_CATH_PRES
      then (case click slave w h c of Return b \<Rightarrow> Returned b | Continue b \<Rightarrow> Again b | Break b \<Rightarrow> wait_turn slave b)
      else wait_turn slave c) = Again b"
    using assms unfolding adjust_turn_def Let_def c_def .
  show ?thesis
  proof (cases "and (sta (dev c)) 0xC0 = TP_CATH_PRES")
    case True
    then show ?thesis
      using turn click_leaves [where slave = slave and w = w and h = h and a = c] sc
      by (auto simp: quiet_def clicked dest!: wait_turn_again split: left_by.splits)
  next
    case False
    then show ?thesis
      using turn sc by (auto simp: quiet_def clicked dest!: wait_turn_again)
  qed
qed

lemma adjust_turn_quiet:
  assumes "quiet pen a"
  shows "adjust_turn chip slave w h pen a = wait_turn slave (a \<lparr> dev := snd (TP_Scan chip pen True (dev a)) \<rparr>)"
proof -
  let ?t = "snd (TP_Scan chip pen True (dev a))"
  have "\<not> (bit (sta ?t) 6 \<and> \<not> bit (sta ?t) 7)"
    using assms by (auto simp: quiet_def sta_TP_Scan sta_bits simp del: push_bit_of_1)
  then show ?thesis by (auto simp: adjust_turn_def Let_def clicked)
qed

lemma adjust_loop_step:
  "adjust_loop chip slave w h pen n a =
     (case adjust_turn chip slave w h (pen n) a of
        Returned b \<Rightarrow> Some b | Again b \<Rightarrow> adjust_loop chip slave w h pen (Suc n) b)"
  by (subst adjust_loop.simps) simp

text \<open>From a quiet state the loop ends in a turn that returns, and keeps what every turn keeps.\<close>

lemma quiet_loop_ends:
  assumes "\<forall>k \<ge> n. pen k = p" and "quiet p a" and "unat (outtime a) \<le> 1000" and "P a"
    and keeps: "\<And>a b. P a \<Longrightarrow> quiet p a \<Longrightarrow> adjust_turn chip slave w h p a = Again b \<Longrightarrow> P b"
  shows "\<exists>c b. P c \<and> quiet p c \<and> adjust_turn chip slave w h p c = Returned b
    \<and> adjust_loop chip slave w h pen n a = Some b"
  using assms(1-4)
proof (induction "1000 - unat (outtime a)" arbitrary: n a rule: less_induct)
  case less
  have pen: "pen n = p" using less.prems(1) by simp
  note t = adjust_turn_quiet [OF less.prems(2), where chip = chip and slave = slave and w = w and h = h]
  show ?case
  proof (cases "adjust_turn chip slave w h p a")
    case (Again b)
    with t have "wait_turn slave (a \<lparr> dev := snd (TP_Scan chip p True (dev a)) \<rparr>) = Again b" by simp
    from wait_turn_again [OF this] have o: "outtime b = outtime a + 1" "unat (outtime b) \<le> 1000"
      by (simp, blast)
    then have "unat (outtime b) = unat (outtime a) + 1"
      using less.prems(3) by (simp add: unat_suc_u16)
    with less.hyps [of b "Suc n"] less.prems adjust_turn_again [OF Again] o(2)
      keeps [OF less.prems(4,2) Again] show ?thesis
      by (subst adjust_loop_step) (simp add: pen Again)
  next
    case (Returned b)
    with less.prems show ?thesis by (subst adjust_loop_step) (auto simp: pen)
  qed
qed

lemma loop_ends:
  assumes "\<forall>k \<ge> N. pen k = p" and "unat (outtime a) \<le> 1000"
  shows "\<exists>b. adjust_loop chip slave w h pen n a = Some b"
  using assms(2)
proof (induction "N - n" arbitrary: n a rule: less_induct)
  case less
  show ?case
  proof (cases "adjust_turn chip slave w h (pen n) a")
    case (Again b)
    then have b: "quiet (pen n) b" "unat (outtime b) \<le> 1000" using adjust_turn_again by simp_all
    have "\<exists>c. adjust_loop chip slave w h pen (Suc n) b = Some c"
    proof (cases "n < N")
      case True
      with less.hyps [of "Suc n" b] b(2) show ?thesis by simp
    next
      case False
      with assms(1) have "pen n = p" "\<forall>k \<ge> Suc n. pen k = p" by simp_all
      with quiet_loop_ends [where n = "Suc n" and pen = pen and p = p and a = b and P = "\<lambda>_. True"
          and chip = chip and slave = slave and w = w and h = h] b show ?thesis by auto
    qed
    then show ?thesis by (subst adjust_loop_step) (simp add: Again)
  qed (subst adjust_loop_step, simp)
qed

text \<open>
  C20. The calibration ends: if from some turn on the panel is no longer touched, or is touched
  without end, the endless loop of \<open>TP_Adjust\<close> returns, whatever was touched before, whatever the
  converter and the EEPROM answer, and however often the four points were rejected.
\<close>

theorem TP_Adjust_ends:
  assumes "\<forall>k \<ge> N. pen k = pen N"
  shows "\<exists>b. TP_Adjust chip slave width height pen a = Some b"
  unfolding TP_Adjust_def Let_def by (rule loop_ends [OF assms]) simp

theorem TP_Adjust_ends_witness:
  "\<exists>b. TP_Adjust (\<lambda>_. False) (\<lambda>_. True) 240 320 (\<lambda>k. k mod 7 = 3 \<and> k < 100)
     \<lparr> dev = initial_tp_dev, cnt = 0, outtime = 0, pos_temp = replicate 4 (0, 0), drawn = [],
       bus = idle_wire \<rparr> = Some b"
  using TP_Adjust_ends [of 100 "\<lambda>k. k mod 7 = 3 \<and> k < 100"] by simp

section \<open>The stored calibration\<close>

text \<open>
  C19. The calibration survives in the EEPROM: after \<open>TP_Save_Adjdata\<close> on a chip that keeps the
  promises of its data sheet, \<open>TP_Get_Adjdata\<close> succeeds in any later state of the device record
  and restores the factors bit for bit, the offsets and the type, chooses the commands of the two
  directions by the type, and the cells outside the fifteen of the calibration are untouched.
\<close>

theorem calibration_survives:
  fixes t u :: tp_dev
  assumes "eeprom slave idle mem" and "stores idle mem m w"
  defines "g \<equiv> TP_Get_Adjdata slave u (TP_Save_Adjdata slave t w)"
  shows "fst g = 1
    \<and> fst (snd g) = set_commands (u \<lparr> xfac := xfac t, yfac := yfac t, xoff := xoff t,
         yoff := yoff t, touchtype := touchtype t, filler := filler t \<rparr>)
    \<and> (\<exists>m'. stores idle mem m' (snd (snd g)) \<and> (\<forall>c. c < 40 \<or> 54 < c \<longrightarrow> m' c = m c))"
proof -
  let ?m = "(overwrite m 40 (adj_bytes t))(54 := 0x0A)"
  have st: "stores idle mem ?m (TP_Save_Adjdata slave t w)"
    by (rule eeprom.Save_stores [OF assms(1,2)])
  have "(of_nat i :: u8) \<noteq> 14" if "i < 14" for i
    using of_nat_u8_eq [of i 14] that by simp
  then have "map (\<lambda>i. ?m (40 + of_nat i)) [0..<14] = adj_bytes t"
    by (intro nth_equalityI) (simp_all add: overwrite_inside)
  then have data: "fst g = 1" "fst (snd g) = set_commands (set_adj_bytes (adj_bytes t) u)"
    "stores idle mem ?m (snd (snd g))"
    using eeprom.Get_stores [OF assms(1) st, of u] by (simp_all add: g_def)
  have "?m c = m c" if "c < 40 \<or> 54 < c" for c
  proof -
    have ne: "c \<noteq> 40 + of_nat i" if i: "i < 14" for i
    proof -
      have "unat (40 + of_nat i :: u8) = 40 + i" using i by (simp add: unat_word_ariths unat_of_nat_u8)
      with i \<open>c < 40 \<or> 54 < c\<close> show ?thesis by (auto simp: word_less_nat_alt)
    qed
    have "overwrite m 40 (adj_bytes t) c = m c" by (rule overwrite_outside) (simp add: ne)
    with that show ?thesis by auto
  qed
  with data show ?thesis by (auto simp: set_adj_bytes_adj_bytes)
qed

theorem calibration_survives_witness:
  "fst (TP_Get_Adjdata (at24 (\<lambda>_. 0xFF)) initial_tp_dev (TP_Save_Adjdata (at24 (\<lambda>_. 0xFF)) initial_tp_dev
     idle_wire)) = 1"
  using calibration_survives [OF c02.eeprom_axioms at24_stores] by simp

text \<open>Turns without a touch keep the factor and the EEPROM, up to the last.\<close>

lemma xfac_TP_Scan [simp]: "xfac (snd (TP_Scan chip False tp t)) = xfac t"
  by (simp add: TP_Scan_def Let_def)

lemma untouched_turn:
  assumes e: "eeprom slave idle mem" and "m 54 \<noteq> 0x0A" and "quiet False c"
    and "xfac (dev c) = 0 \<and> stores idle mem m (bus c)"
  shows "case adjust_turn chip slave w h False c of
      Again b \<Rightarrow> xfac (dev b) = 0 \<and> stores idle mem m (bus b)
    | Returned b \<Rightarrow> xfac (dev b) = 0 \<and> stores idle mem m (bus b)"
  using assms(2-) adjust_turn_quiet [OF assms(3), where chip = chip and slave = slave and w = w and h = h]
    eeprom.Get_stores [OF e, of m "bus c" "snd (TP_Scan chip False True (dev c))"]
  by (auto simp: wait_turn_def Let_def split: prod.split)

lemma untouched_TP_Adjust:
  assumes "eeprom slave idle mem" and "m 54 \<noteq> 0x0A" and "\<forall>k. \<not> pen k" and "stores idle mem m (bus a)"
  shows "\<exists>b. TP_Adjust chip slave width height pen a = Some b
    \<and> xfac (dev b) = 0 \<and> stores idle mem m (bus b)"
proof -
  define a1 where "a1 = (draw_on ([Point_Color BLUE, Back_Color WHITE, Clear_Screen WHITE, Point_Color RED,
      Clear_Screen WHITE, Point_Color BLACK, Show_String 40 40 160 100 16 TP_REMIND_MSG_TBL]
      @ TP_Drow_Touch_Point 20 20 RED) (a \<lparr> cnt := 0, outtime := 0 \<rparr>))
        \<lparr> dev := (dev a) \<lparr> sta := 0, xfac := 0 \<rparr> \<rparr>"
  have a1: "quiet False a1" "unat (outtime a1) \<le> 1000" "xfac (dev a1) = 0 \<and> stores idle mem m (bus a1)"
    using assms(4) by (simp_all add: a1_def quiet_def draw_on_def)
  have "\<exists>c b. (xfac (dev c) = 0 \<and> stores idle mem m (bus c)) \<and> quiet False c
      \<and> adjust_turn chip slave width height False c = Returned b
      \<and> adjust_loop chip slave width height pen 0 a1 = Some b"
    using assms(3) a1 untouched_turn [OF assms(1), where m = m and chip = chip and w = width and h = height, OF assms(2)]
    by (intro quiet_loop_ends [where P = "\<lambda>c. xfac (dev c) = 0 \<and> stores idle mem m (bus c)"]) fastforce+
  moreover have "TP_Adjust chip slave width height pen a = adjust_loop chip slave width height pen 0 a1"
    by (simp add: TP_Adjust_def Let_def a1_def draw_on_def)
  ultimately show ?thesis
    using untouched_turn [OF assms(1), where m = m and chip = chip and w = width and h = height, OF assms(2)] by fastforce
qed

lemma scaled_zero: "scaled 0 v off = scaled 0 u off"
  by (simp add: scaled_def float_of_def)

text \<open>
  What \<open>TP_Init\<close> does with a resistive panel: with a stored calibration it returns 0 and takes
  it without drawing anything; without one, when nobody touches the crosses, it gives up after the
  thousandth turn and returns 1, "calibrated", all the same, with the factor \<open>xfac\<close> zero, so that
  every later touch is scaled to the same column.
\<close>

theorem TP_Init_results:
  assumes e: "eeprom slave idle mem" and st: "stores idle mem m (bus a)"
    and "lcd_id \<noteq> 0x5510" and "lcd_id \<noteq> 0x1963"
  shows "(m 54 = 0x0A \<longrightarrow> (\<exists>b. TP_Init chip slave lcd_id gt dir width height pen a = Some (0, b)
           \<and> drawn b = drawn a \<and> stores idle mem m (bus b)))
    \<and> (m 54 \<noteq> 0x0A \<and> (\<forall>k. \<not> pen k) \<longrightarrow>
         (\<exists>b. TP_Init chip slave lcd_id gt dir width height pen a = Some (1, b)
           \<and> xfac (dev b) = 0 \<and> (\<forall>u v. scaled (xfac (dev b)) u (xoff (dev b)) = scaled (xfac (dev b)) v (xoff (dev b)))
           \<and> stores idle mem m (bus b)))"
proof -
  define t where "t = (dev a) \<lparr> port := snd (snd (snd (TP_Read_XY chip (CMD_RDX (dev a)) (CMD_RDY (dev a)) (port (dev a))))),
      tp_x := (tp_x (dev a))[0 := fst (snd (TP_Read_XY chip (CMD_RDX (dev a)) (CMD_RDY (dev a)) (port (dev a))))],
      tp_y := (tp_y (dev a))[0 := fst (snd (snd (TP_Read_XY chip (CMD_RDX (dev a)) (CMD_RDY (dev a)) (port (dev a)))))] \<rparr>"
  obtain r u w where g: "TP_Get_Adjdata slave t (bus a) = (r, u, w)" by (metis prod_cases3)
  have w: "AT24CXX_Init slave (bus a) = bus a" using st by (simp add: AT24CXX_Init_free stores_def)
  have got: "r = (if m 54 = 0x0A then 1 else 0)" "stores idle mem m w"
    using eeprom.Get_stores [OF e st, of t] by (simp_all add: g)
  let ?a = "draw_on [Clear_Screen WHITE] (a \<lparr> dev := u, bus := w \<rparr>)"
  have init: "TP_Init chip slave lcd_id gt dir width height pen a =
      (if r \<noteq> 0 then Some (0, a \<lparr> dev := u, bus := w \<rparr>)
       else case TP_Adjust chip slave width height pen ?a of
          None \<Rightarrow> None
        | Some b \<Rightarrow> (let (r, t, w) = TP_Get_Adjdata slave (dev b) (bus b) in Some (1, b \<lparr> dev := t, bus := w \<rparr>)))"
    using assms(3,4) by (simp add: TP_Init_def Let_def split_beta w g [unfolded t_def])
  show ?thesis
  proof (intro conjI impI)
    assume "m 54 = 0x0A"
    with got show "\<exists>b. TP_Init chip slave lcd_id gt dir width height pen a = Some (0, b)
        \<and> drawn b = drawn a \<and> stores idle mem m (bus b)" by (simp add: init)
  next
    assume no: "m 54 \<noteq> 0x0A \<and> (\<forall>k. \<not> pen k)"
    with untouched_TP_Adjust [OF e, of m pen ?a chip width height] got(2)
    obtain b where b: "TP_Adjust chip slave width height pen ?a = Some b" "xfac (dev b) = 0"
      "stores idle mem m (bus b)" by auto
    with eeprom.Get_stores [OF e b(3), of "dev b"] no got(1)
    show "\<exists>b. TP_Init chip slave lcd_id gt dir width height pen a = Some (1, b)
        \<and> xfac (dev b) = 0 \<and> (\<forall>u v. scaled (xfac (dev b)) u (xoff (dev b)) = scaled (xfac (dev b)) v (xoff (dev b)))
        \<and> stores idle mem m (bus b)"
      by (auto simp: init intro: scaled_zero split: prod.split)
  qed
qed

theorem TP_Init_results_witness:
  "\<exists>b. TP_Init (\<lambda>_. False) (at24 (\<lambda>_. 0xFF)) 0x9341 0 0 240 320 (\<lambda>_. False)
     \<lparr> dev = initial_tp_dev, cnt = 0, outtime = 0, pos_temp = replicate 4 (0, 0), drawn = [], bus = idle_wire \<rparr>
     = Some (1, b) \<and> xfac (dev b) = 0"
  using TP_Init_results [OF c02.eeprom_axioms, of "\<lambda>_. 0xFF" "\<lambda>_. 0xFF"
    "\<lparr> dev = initial_tp_dev, cnt = 0, outtime = 0, pos_temp = replicate 4 (0, 0), drawn = [], bus = idle_wire \<rparr>"
    "0x9341" "\<lambda>_. False" 0 0 240 320 "\<lambda>_. False"] at24_stores [of "\<lambda>_. 0xFF"] by auto

end
