(* ===== verification/Lcd_Driver.thy ===== *)
theory Lcd_Driver
  imports Prelude
begin

text \<open>
  The display driver under the drawing primitives (\<open>applications/lcd.c\<close>): the parameters of the
  display in \<open>lcddev\<close>, and for each operation the writes to the controller's command and data
  registers, in order; the reads are in \<open>Lcd_Power\<close>. Four families of controllers are told apart by their identity.
\<close>

section \<open>Registers and parameters\<close>

datatype bus_write = Reg u16 | Ram u16

record lcd_dev =
  width :: u16
  height :: u16
  ident :: u16
  dir :: u8
  wramcmd :: u16
  setxcmd :: u16
  setycmd :: u16

definition LCD_WR_REG :: "u16 \<Rightarrow> bus_write list" where "LCD_WR_REG regval = [Reg regval]"
definition LCD_WR_DATA :: "u16 \<Rightarrow> bus_write list" where "LCD_WR_DATA d = [Ram d]"

definition LCD_WriteReg :: "u16 \<Rightarrow> u16 \<Rightarrow> bus_write list" where
  "LCD_WriteReg LCD_Reg LCD_RegValue = [Reg LCD_Reg, Ram LCD_RegValue]"

definition LCD_WriteRAM_Prepare :: "lcd_dev \<Rightarrow> bus_write list" where
  "LCD_WriteRAM_Prepare l = [Reg (wramcmd l)]"

definition LCD_WriteRAM :: "u16 \<Rightarrow> bus_write list" where
  "LCD_WriteRAM RGB_Code = [Ram RGB_Code]"

definition high_byte :: "u16 \<Rightarrow> u16" where "high_byte v = drop_bit 8 v"
definition low_byte_of :: "u16 \<Rightarrow> u16" where "low_byte_of v = and v 0xFF"

text \<open>The two data writes of a 16-bit number.\<close>

definition data16 :: "u16 \<Rightarrow> bus_write list" where
  "data16 v = LCD_WR_DATA (high_byte v) @ LCD_WR_DATA (low_byte_of v)"

section \<open>Colours\<close>

definition LCD_BGR2RGB :: "u16 \<Rightarrow> u16" where
  "LCD_BGR2RGB c =
     (let b = and (drop_bit 0 c) 0x1f; g = and (drop_bit 5 c) 0x3f; r = and (drop_bit 11 c) 0x1f
      in push_bit 11 b + push_bit 5 g + push_bit 0 r)"

section \<open>The cursor and single points\<close>

definition LCD_DisplayOn :: "lcd_dev \<Rightarrow> bus_write list" where
  "LCD_DisplayOn l =
     (if ident l = 0x9341 \<or> ident l = 0x5310 \<or> ident l = 0x1963 then LCD_WR_REG 0x29
      else if ident l = 0x5510 then LCD_WR_REG 0x2900 else [])"

definition LCD_DisplayOff :: "lcd_dev \<Rightarrow> bus_write list" where
  "LCD_DisplayOff l =
     (if ident l = 0x9341 \<or> ident l = 0x5310 \<or> ident l = 0x1963 then LCD_WR_REG 0x28
      else if ident l = 0x5510 then LCD_WR_REG 0x2800 else [])"

definition LCD_SetCursor :: "lcd_dev \<Rightarrow> u16 \<Rightarrow> u16 \<Rightarrow> bus_write list" where
  "LCD_SetCursor l Xpos Ypos =
     (if ident l = 0x9341 \<or> ident l = 0x5310 then
        LCD_WR_REG (setxcmd l) @ data16 Xpos @ LCD_WR_REG (setycmd l) @ data16 Ypos
      else if ident l = 0x1963 then
        (if dir l = 0
         then let Xpos = width l - 1 - Xpos
              in LCD_WR_REG (setxcmd l) @ LCD_WR_DATA 0 @ LCD_WR_DATA 0 @ data16 Xpos
         else LCD_WR_REG (setxcmd l) @ data16 Xpos @ data16 (width l - 1))
        @ LCD_WR_REG (setycmd l) @ data16 Ypos @ data16 (height l - 1)
      else if ident l = 0x5510 then
        LCD_WR_REG (setxcmd l) @ LCD_WR_DATA (high_byte Xpos)
        @ LCD_WR_REG (setxcmd l + 1) @ LCD_WR_DATA (low_byte_of Xpos)
        @ LCD_WR_REG (setycmd l) @ LCD_WR_DATA (high_byte Ypos)
        @ LCD_WR_REG (setycmd l + 1) @ LCD_WR_DATA (low_byte_of Ypos)
      else [])"

definition LCD_DrawPoint :: "lcd_dev \<Rightarrow> u32 \<Rightarrow> u16 \<Rightarrow> u16 \<Rightarrow> bus_write list" where
  "LCD_DrawPoint l POINT_COLOR x y =
     LCD_SetCursor l x y @ LCD_WriteRAM_Prepare l @ [Ram (ucast POINT_COLOR)]"

definition LCD_Fast_DrawPoint :: "lcd_dev \<Rightarrow> u16 \<Rightarrow> u16 \<Rightarrow> u32 \<Rightarrow> bus_write list" where
  "LCD_Fast_DrawPoint l x y color =
     (if ident l = 0x9341 \<or> ident l = 0x5310 then
        LCD_WR_REG (setxcmd l) @ data16 x @ LCD_WR_REG (setycmd l) @ data16 y
      else if ident l = 0x5510 then
        LCD_WR_REG (setxcmd l) @ LCD_WR_DATA (high_byte x)
        @ LCD_WR_REG (setxcmd l + 1) @ LCD_WR_DATA (low_byte_of x)
        @ LCD_WR_REG (setycmd l) @ LCD_WR_DATA (high_byte y)
        @ LCD_WR_REG (setycmd l + 1) @ LCD_WR_DATA (low_byte_of y)
      else if ident l = 0x1963 then
        (let x = (if dir l = 0 then width l - 1 - x else x)
         in LCD_WR_REG (setxcmd l) @ data16 x @ data16 x @ LCD_WR_REG (setycmd l) @ data16 y @ data16 y)
      else [])
     @ [Reg (wramcmd l), Ram (ucast color)]"

section \<open>Directions\<close>

definition turned_dir :: "u8 \<Rightarrow> u8" where
  "turned_dir d =
     (if d = 0 then 6 else if d = 1 then 7 else if d = 2 then 4 else if d = 3 then 5
      else if d = 4 then 1 else if d = 5 then 0 else if d = 6 then 3 else if d = 7 then 2 else d)"

definition dir_bits :: "u8 \<Rightarrow> u16" where
  "dir_bits d =
     (if d = 0 then 0x00 else if d = 1 then 0x80 else if d = 2 then 0x40 else if d = 3 then 0xC0
      else if d = 4 then 0x20 else if d = 5 then 0x60 else if d = 6 then 0xA0 else if d = 7 then 0xE0 else 0)"

definition LCD_Scan_Dir :: "u8 \<Rightarrow> lcd_dev \<Rightarrow> bus_write list \<times> lcd_dev" where
  "LCD_Scan_Dir d l =
     (let d = (if dir l = 1 \<and> ident l \<noteq> 0x1963 \<or> dir l = 0 \<and> ident l = 0x1963 then turned_dir d else d)
      in if ident l = 0x9341 \<or> ident l = 0x5310 \<or> ident l = 0x5510 \<or> ident l = 0x1963
         then let regval = dir_bits d;
                  dirreg = (if ident l = 0x5510 then 0x3600 else 0x36);
                  regval = (if ident l \<noteq> 0x5310 \<and> ident l \<noteq> 0x5510 \<and> ident l \<noteq> 0x1963
                            then or regval 0x08 else regval);
                  swap = (ident l \<noteq> 0x1963 \<and>
                    (if and regval 0x20 \<noteq> 0 then width l < height l else width l > height l));
                  l = (if swap then l \<lparr> width := height l, height := width l \<rparr> else l)
              in (LCD_WriteReg dirreg regval @
                  (if ident l = 0x5510
                   then LCD_WR_REG (setxcmd l) @ LCD_WR_DATA 0 @ LCD_WR_REG (setxcmd l + 1) @ LCD_WR_DATA 0
                     @ LCD_WR_REG (setxcmd l + 2) @ LCD_WR_DATA (high_byte (width l - 1))
                     @ LCD_WR_REG (setxcmd l + 3) @ LCD_WR_DATA (low_byte_of (width l - 1))
                     @ LCD_WR_REG (setycmd l) @ LCD_WR_DATA 0 @ LCD_WR_REG (setycmd l + 1) @ LCD_WR_DATA 0
                     @ LCD_WR_REG (setycmd l + 2) @ LCD_WR_DATA (high_byte (height l - 1))
                     @ LCD_WR_REG (setycmd l + 3) @ LCD_WR_DATA (low_byte_of (height l - 1))
                   else LCD_WR_REG (setxcmd l) @ LCD_WR_DATA 0 @ LCD_WR_DATA 0 @ data16 (width l - 1)
                     @ LCD_WR_REG (setycmd l) @ LCD_WR_DATA 0 @ LCD_WR_DATA 0 @ data16 (height l - 1)), l)
         else ([], l))"

definition DFT_SCAN_DIR :: u8 where "DFT_SCAN_DIR = 0"

definition LCD_Display_Dir :: "u8 \<Rightarrow> lcd_dev \<Rightarrow> bus_write list \<times> lcd_dev" where
  "LCD_Display_Dir d l =
     (let l = l \<lparr> dir := d \<rparr>;
          l = (if d = 0
               then let l = l \<lparr> width := 240, height := 320 \<rparr>
                    in if ident l = 0x9341 \<or> ident l = 0x5310
                       then let l = l \<lparr> wramcmd := 0x2C, setxcmd := 0x2A, setycmd := 0x2B \<rparr>
                            in if ident l = 0x5310 then l \<lparr> width := 320, height := 480 \<rparr> else l
                       else if ident l = 0x5510
                       then l \<lparr> wramcmd := 0x2C00, setxcmd := 0x2A00, setycmd := 0x2B00, width := 480, height := 800 \<rparr>
                       else if ident l = 0x1963
                       then l \<lparr> wramcmd := 0x2C, setxcmd := 0x2B, setycmd := 0x2A, width := 480, height := 800 \<rparr>
                       else l
               else let l = l \<lparr> width := 320, height := 240 \<rparr>;
                        l = (if ident l = 0x9341 \<or> ident l = 0x5310
                             then l \<lparr> wramcmd := 0x2C, setxcmd := 0x2A, setycmd := 0x2B \<rparr>
                             else if ident l = 0x5510
                             then l \<lparr> wramcmd := 0x2C00, setxcmd := 0x2A00, setycmd := 0x2B00, width := 800, height := 480 \<rparr>
                             else if ident l = 0x1963
                             then l \<lparr> wramcmd := 0x2C, setxcmd := 0x2A, setycmd := 0x2B, width := 800, height := 480 \<rparr>
                             else l)
                    in if ident l = 0x5310 then l \<lparr> width := 480, height := 320 \<rparr> else l)
      in LCD_Scan_Dir DFT_SCAN_DIR l)"

definition LCD_Set_Window :: "lcd_dev \<Rightarrow> u16 \<Rightarrow> u16 \<Rightarrow> u16 \<Rightarrow> u16 \<Rightarrow> bus_write list" where
  "LCD_Set_Window l sx sy w h =
     (let twidth = sx + w - 1; theight = sy + h - 1
      in if ident l = 0x9341 \<or> ident l = 0x5310 \<or> dir l = 1 \<and> ident l = 0x1963
         then LCD_WR_REG (setxcmd l) @ data16 sx @ data16 twidth @ LCD_WR_REG (setycmd l) @ data16 sy @ data16 theight
         else if ident l = 0x1963
         then let sx = width l - w - sx; h = sy + h - 1
              in LCD_WR_REG (setxcmd l) @ data16 sx @ data16 (sx + w - 1) @ LCD_WR_REG (setycmd l) @ data16 sy @ data16 h
         else if ident l = 0x5510
         then LCD_WR_REG (setxcmd l) @ LCD_WR_DATA (high_byte sx) @ LCD_WR_REG (setxcmd l + 1) @ LCD_WR_DATA (low_byte_of sx)
           @ LCD_WR_REG (setxcmd l + 2) @ LCD_WR_DATA (high_byte twidth) @ LCD_WR_REG (setxcmd l + 3) @ LCD_WR_DATA (low_byte_of twidth)
           @ LCD_WR_REG (setycmd l) @ LCD_WR_DATA (high_byte sy) @ LCD_WR_REG (setycmd l + 1) @ LCD_WR_DATA (low_byte_of sy)
           @ LCD_WR_REG (setycmd l + 2) @ LCD_WR_DATA (high_byte theight) @ LCD_WR_REG (setycmd l + 3) @ LCD_WR_DATA (low_byte_of theight)
         else [])"

section \<open>Areas\<close>

definition LCD_Clear :: "lcd_dev \<Rightarrow> u32 \<Rightarrow> bus_write list" where
  "LCD_Clear l color =
     (let totalpoint = (ucast (width l) * ucast (height l) :: u32)
      in LCD_SetCursor l 0 0 @ LCD_WriteRAM_Prepare l @ replicate (unat totalpoint) (Ram (ucast color)))"

text \<open>One row of \<open>LCD_Fill\<close> or \<open>LCD_Color_Fill\<close>.\<close>

definition fill_row :: "lcd_dev \<Rightarrow> u16 \<Rightarrow> u16 \<Rightarrow> u16 list \<Rightarrow> bus_write list" where
  "fill_row l sx i colors = LCD_SetCursor l sx i @ LCD_WriteRAM_Prepare l @ map Ram colors"

end
