(* ===== verification/Lcd_Draw.thy ===== *)
theory Lcd_Draw
  imports Screen
begin

text \<open>
  The drawing primitives of \<open>applications/lcd.c\<close> as the points they set, in program order: filled
  areas, lines, circles, characters from the glyph tables of \<open>font.h\<close>, numbers and strings.
\<close>

type_synonym point = "u16 \<times> u16"

section \<open>Lines and circles\<close>

text \<open>
  The loop of \<open>LCD_DrawLine\<close>; the counter is a \<open>u16\<close>, compared as an \<open>int\<close>, so the loop may not
  end: \<open>None\<close>. The coordinates are passed to \<open>LCD_DrawPoint\<close> as 16-bit numbers.
\<close>

partial_function (option) line_loop ::
    "int \<Rightarrow> int \<Rightarrow> int \<Rightarrow> int \<Rightarrow> int \<Rightarrow> u16 \<Rightarrow> int \<Rightarrow> int \<Rightarrow> int \<Rightarrow> int \<Rightarrow> point list option" where
  "line_loop distance delta_x delta_y incx incy t xerr yerr uRow uCol =
     (if uint t \<le> distance + 1
      then Option.bind
        (line_loop distance delta_x delta_y incx incy (t + 1)
          (if xerr + delta_x > distance then xerr + delta_x - distance else xerr + delta_x)
          (if yerr + delta_y > distance then yerr + delta_y - distance else yerr + delta_y)
          (if xerr + delta_x > distance then uRow + incx else uRow)
          (if yerr + delta_y > distance then uCol + incy else uCol))
        (\<lambda>ps. Some ((word_of_int uRow, word_of_int uCol) # ps))
      else Some [])"

definition LCD_DrawLine :: "u16 \<Rightarrow> u16 \<Rightarrow> u16 \<Rightarrow> u16 \<Rightarrow> point list option" where
  "LCD_DrawLine x1 y1 x2 y2 =
     (let delta_x = uint x2 - uint x1; delta_y = uint y2 - uint y1;
          incx = (if delta_x > 0 then 1 else if delta_x = 0 then 0 else -1);
          incy = (if delta_y > 0 then 1 else if delta_y = 0 then 0 else -1);
          delta_x = (if delta_x < 0 then - delta_x else delta_x);
          delta_y = (if delta_y < 0 then - delta_y else delta_y);
          distance = (if delta_x > delta_y then delta_x else delta_y)
      in line_loop distance delta_x delta_y incx incy 0 0 0 (uint x1) (uint y1))"

definition LCD_DrawRectangle :: "u16 \<Rightarrow> u16 \<Rightarrow> u16 \<Rightarrow> u16 \<Rightarrow> point list option" where
  "LCD_DrawRectangle x1 y1 x2 y2 =
     Option.bind (LCD_DrawLine x1 y1 x2 y1) (\<lambda>a.
     Option.bind (LCD_DrawLine x1 y1 x1 y2) (\<lambda>b.
     Option.bind (LCD_DrawLine x1 y2 x2 y2) (\<lambda>c.
     Option.bind (LCD_DrawLine x2 y1 x2 y2) (\<lambda>d. Some (a @ b @ c @ d)))))"

text \<open>The eight points of one turn of the circle, and the turns. \<open>a++\<close> comes before the update of \<open>di\<close>.\<close>

definition octants :: "u16 \<Rightarrow> u16 \<Rightarrow> int \<Rightarrow> int \<Rightarrow> point list" where
  "octants x0 y0 a b =
     (let p = (\<lambda>dx dy. (word_of_int (uint x0 + dx), word_of_int (uint y0 + dy)))
      in [p a (- b), p b (- a), p b a, p a b, p (- a) b, p (- b) a, p (- a) (- b), p (- b) (- a)])"

function circle_loop :: "u16 \<Rightarrow> u16 \<Rightarrow> int \<Rightarrow> int \<Rightarrow> int \<Rightarrow> point list" where
  "circle_loop x0 y0 a b di =
     (if a \<le> b
      then octants x0 y0 a b @
        (let a = a + 1
         in if di < 0 then circle_loop x0 y0 a b (di + 4 * a + 6)
            else circle_loop x0 y0 a (b - 1) (di + 10 + 4 * (a - b)))
      else [])"
  by pat_completeness auto

termination circle_loop
  by (relation "measure (\<lambda>(x0, y0, a, b, di). nat (b + 1 - a))") auto

definition LCD_Draw_Circle :: "u16 \<Rightarrow> u16 \<Rightarrow> u8 \<Rightarrow> point list" where
  "LCD_Draw_Circle x0 y0 r = circle_loop x0 y0 0 (uint r) (3 - 2 * uint r)"

section \<open>Characters\<close>

text \<open>
  \<open>font\<close> gives byte \<open>t\<close> of glyph \<open>num\<close> in the table of a size. A character sets points to the
  ink or, in mode 0, to the background; the result of a loop is the place where it goes on,
  \<open>None\<close> after a \<open>return\<close> at the edge of the screen.
\<close>

datatype ink = Point_Ink | Back_Ink

type_synonym font = "u8 \<Rightarrow> u8 \<Rightarrow> u8 \<Rightarrow> u8"

fun char_bits :: "u16 \<Rightarrow> u16 \<Rightarrow> u16 \<Rightarrow> u8 \<Rightarrow> u8 \<Rightarrow> nat \<Rightarrow> u8 \<Rightarrow> u16 \<Rightarrow> u16 \<Rightarrow> (point \<times> ink) list \<times> point option" where
  "char_bits width height y0 size_px mode 0 temp x y = ([], Some (x, y))"
| "char_bits width height y0 size_px mode (Suc left) temp x y =
     (let px = (if and temp 0x80 \<noteq> 0 then [((x, y), Point_Ink)]
                else if mode = 0 then [((x, y), Back_Ink)] else []);
          temp = push_bit 1 temp;
          y = y + 1
      in if y \<ge> height then (px, None)
         else if uint y - uint y0 = uint size_px
         then let y = y0; x = x + 1 in if x \<ge> width then (px, None) else (px, Some (x, y))
         else let (ps, r) = char_bits width height y0 size_px mode left temp x y in (px @ ps, r))"

fun char_bytes :: "font \<Rightarrow> u16 \<Rightarrow> u16 \<Rightarrow> u16 \<Rightarrow> u8 \<Rightarrow> u8 \<Rightarrow> u8 \<Rightarrow> nat \<Rightarrow> u8 \<Rightarrow> u16 \<Rightarrow> u16 \<Rightarrow> (point \<times> ink) list" where
  "char_bytes font width height y0 num size_px mode 0 t x y = []"
| "char_bytes font width height y0 num size_px mode (Suc left) t x y =
     (if size_px = 12 \<or> size_px = 16 \<or> size_px = 24 \<or> size_px = 32
      then let (px, r) = char_bits width height y0 size_px mode 8 (font size_px num t) x y
           in case r of None \<Rightarrow> px
              | Some (x, y) \<Rightarrow> px @ char_bytes font width height y0 num size_px mode left (t + 1) x y
      else [])"

definition csize :: "u8 \<Rightarrow> u8" where
  "csize size_px = (size_px div 8 + (if size_px mod 8 \<noteq> 0 then 1 else 0)) * (size_px div 2)"

definition LCD_ShowChar :: "font \<Rightarrow> u16 \<Rightarrow> u16 \<Rightarrow> u16 \<Rightarrow> u16 \<Rightarrow> u8 \<Rightarrow> u8 \<Rightarrow> u8 \<Rightarrow> (point \<times> ink) list" where
  "LCD_ShowChar font width height x y num size_px mode =
     char_bytes font width height y (num - 0x20) size_px mode (unat (csize size_px)) 0 x y"

section \<open>Numbers and strings\<close>

text \<open>What numbers and strings pass to \<open>LCD_ShowChar\<close>: a place, a character and the mode.\<close>

type_synonym shown = "u16 \<times> u16 \<times> u8 \<times> u8"

definition LCD_Pow :: "u8 \<Rightarrow> u8 \<Rightarrow> u32" where
  "LCD_Pow m n = ((\<lambda>result. result * ucast m) ^^ unat n) 1"

fun num_loop :: "u16 \<Rightarrow> u16 \<Rightarrow> u32 \<Rightarrow> u8 \<Rightarrow> u8 \<Rightarrow> u8 \<Rightarrow> u8 \<Rightarrow> nat \<Rightarrow> u8 \<Rightarrow> bool \<Rightarrow> shown list" where
  "num_loop x y num len size_px blank mode 0 t enshow = []"
| "num_loop x y num len size_px blank mode (Suc left) t enshow =
     (let temp = ucast ((num div LCD_Pow 10 (len - t - 1)) mod 10);
          at = x + ucast (size_px div 2) * ucast t
      in if \<not> enshow \<and> uint t < uint len - 1 \<and> temp = 0
         then (at, y, blank, mode) # num_loop x y num len size_px blank mode left (t + 1) enshow
         else (at, y, temp + 0x30, mode)
              # num_loop x y num len size_px blank mode left (t + 1) (enshow \<or> uint t < uint len - 1))"

definition LCD_ShowNum :: "u16 \<Rightarrow> u16 \<Rightarrow> u32 \<Rightarrow> u8 \<Rightarrow> u8 \<Rightarrow> shown list" where
  "LCD_ShowNum x y num len size_px = num_loop x y num len size_px 0x20 0 (unat len) 0 False"

definition LCD_ShowxNum :: "u16 \<Rightarrow> u16 \<Rightarrow> u32 \<Rightarrow> u8 \<Rightarrow> u8 \<Rightarrow> u8 \<Rightarrow> shown list" where
  "LCD_ShowxNum x y num len size_px mode =
     num_loop x y num len size_px (if and mode 0x80 \<noteq> 0 then 0x30 else 0x20) (and mode 0x01) (unat len) 0 False"

text \<open>\<open>x0\<close> is a byte, so the line after a wrap starts at \<open>x\<close> modulo 256.\<close>

fun string_loop :: "u16 \<Rightarrow> u16 \<Rightarrow> u8 \<Rightarrow> u8 \<Rightarrow> u16 \<Rightarrow> u16 \<Rightarrow> u8 list \<Rightarrow> shown list" where
  "string_loop width height x0 size_px x y [] = []"
| "string_loop width height x0 size_px x y (c # p) =
     (if c \<le> 0x7E \<and> 0x20 \<le> c
      then let (x, y) = (if x > width then (ucast x0, y + ucast size_px) else (x, y))
           in if y > height then []
              else (x, y, c, 0) # string_loop width height x0 size_px (x + ucast (size_px div 2)) y p
      else [])"

definition LCD_ShowString :: "u16 \<Rightarrow> u16 \<Rightarrow> u16 \<Rightarrow> u16 \<Rightarrow> u8 \<Rightarrow> u8 list \<Rightarrow> shown list" where
  "LCD_ShowString x y width height size_px p =
     string_loop (width + x) (height + y) (ucast x) size_px x y p"

section \<open>Areas\<close>

text \<open>
  The rows of \<open>LCD_Fill\<close>: where the cursor is put and how many points follow. The row counter is a
  \<open>u16\<close> compared with \<open>ey\<close>, so the loop does not end for \<open>ey = 0xFFFF\<close>.
\<close>

partial_function (option) fill_rows :: "u16 \<Rightarrow> u16 \<Rightarrow> u16 \<Rightarrow> u16 \<Rightarrow> (point \<times> nat) list option" where
  "fill_rows sx ey xlen i =
     (if i \<le> ey
      then Option.bind (fill_rows sx ey xlen (i + 1)) (\<lambda>rows. Some (((sx, i), unat xlen) # rows))
      else Some [])"

definition LCD_Fill :: "u16 \<Rightarrow> u16 \<Rightarrow> u16 \<Rightarrow> u16 \<Rightarrow> (point \<times> nat) list option" where
  "LCD_Fill sx sy ex ey = fill_rows sx ey (ex - sx + 1) sy"

definition LCD_Color_Fill :: "u16 \<Rightarrow> u16 \<Rightarrow> u16 \<Rightarrow> u16 \<Rightarrow> u16 list \<Rightarrow> (point \<times> u16 list) list" where
  "LCD_Color_Fill sx sy ex ey color =
     (let width = unat (ex - sx + 1); height = unat (ey - sy + 1)
      in map (\<lambda>i. ((sx, sy + of_nat i), map (\<lambda>j. color ! (i * width + j)) [0..<width])) [0..<height])"

end
