(* ===== verification/Lcd_Facts.thy ===== *)
theory Lcd_Facts
  imports Lcd_Draw Bits
begin

text \<open>
  The properties of the drawing primitives: a line joins its end points within one pixel of the
  straight line, a circle stays in its square, a character is the raster of its glyph, a number is
  its decimal text.
\<close>

section \<open>Lines\<close>

text \<open>The steps made in one direction before the point number \<open>t\<close>.\<close>

definition steps :: "int \<Rightarrow> int \<Rightarrow> int \<Rightarrow> int" where
  "steps d a t = (if a = 0 \<or> t = 0 then 0 else (t * a - 1) div d)"

lemma steps_Suc:
  assumes "0 \<le> a" "a \<le> d" "0 \<le> t"
  shows "(if t * a - steps d a t * d + a > d then steps d a t + 1 else steps d a t) = steps d a (t + 1)"
proof (cases "a = 0 \<or> t = 0")
  case True
  with assms show ?thesis by (auto simp: steps_def div_pos_pos_trivial)
next
  case False
  then have d: "0 < d" "0 < a" using assms by simp_all
  define q where "q = (t * a - 1) div d"
  define r where "r = (t * a - 1) mod d"
  have r: "0 \<le> r" "r < d" "t * a - 1 = q * d + r"
    using d by (simp_all add: q_def r_def)
  have "((t + 1) * a - 1) div d = (if r + a \<ge> d then q + 1 else q)"
  proof (cases "r + a \<ge> d")
    case True
    have "(t + 1) * a - 1 = (q + 1) * d + (r + a - d)" using r(3) by (simp add: algebra_simps)
    moreover have "0 \<le> r + a - d" "r + a - d < d" using True r assms by simp_all
    ultimately show ?thesis using True by (simp add: int_div_pos_eq)
  next
    case False
    have "(t + 1) * a - 1 = q * d + (r + a)" using r(3) by (simp add: algebra_simps)
    then show ?thesis using False r d by (simp add: int_div_pos_eq)
  qed
  moreover have "(t * a - q * d + a > d) = (r + a \<ge> d)" using r(3) by auto
  ultimately show ?thesis using False assms by (simp add: steps_def q_def)
qed

lemma line_loop_points:
  assumes "0 \<le> dx" "dx \<le> d" "0 \<le> dy" "dy \<le> d" "d < 65534" and "t \<le> nat d + 2"
  shows "line_loop d dx dy incx incy (of_nat t)
      (int t * dx - steps d dx (int t) * d) (int t * dy - steps d dy (int t) * d)
      (X + incx * steps d dx (int t)) (Y + incy * steps d dy (int t))
    = Some (map (\<lambda>k. (word_of_int (X + incx * steps d dx (int k)), word_of_int (Y + incy * steps d dy (int k))))
        [t..<nat d + 2])"
  using assms(6)
proof (induction t rule: inc_induct)
  case base
  have "unat (of_nat (nat d + 2) :: u16) = nat d + 2" using assms by (intro unat_of_nat_u16) linarith
  then have out: "\<not> uint (of_nat (nat d + 2) :: u16) \<le> d + 1" using assms by (simp only: uint_nat)
  have nil: "[nat d + 2..<nat d + 2] = []" by simp
  show ?case by (subst line_loop.simps) (simp only: out if_False nil list.map)
next
  case (step t)
  have t: "uint (of_nat t :: u16) \<le> d + 1"
  proof -
    have "unat (of_nat t :: u16) = t" using step.hyps assms by (intro unat_of_nat_u16) linarith
    with step.hyps assms show ?thesis by (simp only: uint_nat)
  qed
  have sx: "(if int t * dx - steps d dx (int t) * d + dx > d then steps d dx (int t) + 1 else steps d dx (int t))
      = steps d dx (int (Suc t))"
    and sy: "(if int t * dy - steps d dy (int t) * d + dy > d then steps d dy (int t) + 1 else steps d dy (int t))
      = steps d dy (int (Suc t))"
    using steps_Suc [of dx d "int t"] steps_Suc [of dy d "int t"] assms by (simp_all add: add.commute)
  have u: "of_nat t + 1 = (of_nat (Suc t) :: u16)" by simp
  have ex: "(if int t * dx - steps d dx (int t) * d + dx > d then int t * dx - steps d dx (int t) * d + dx - d
        else int t * dx - steps d dx (int t) * d + dx) = int (Suc t) * dx - steps d dx (int (Suc t)) * d"
    "(if int t * dx - steps d dx (int t) * d + dx > d then X + incx * steps d dx (int t) + incx
        else X + incx * steps d dx (int t)) = X + incx * steps d dx (int (Suc t))"
    unfolding sx [symmetric] by (auto simp: algebra_simps)
  have ey: "(if int t * dy - steps d dy (int t) * d + dy > d then int t * dy - steps d dy (int t) * d + dy - d
        else int t * dy - steps d dy (int t) * d + dy) = int (Suc t) * dy - steps d dy (int (Suc t)) * d"
    "(if int t * dy - steps d dy (int t) * d + dy > d then Y + incy * steps d dy (int t) + incy
        else Y + incy * steps d dy (int t)) = Y + incy * steps d dy (int (Suc t))"
    unfolding sy [symmetric] by (auto simp: algebra_simps)
  show ?case
    using step.hyps
    by (subst line_loop.simps) (simp only: t if_True u ex ey step.IH bind.bind_lunit option.simps
      upt_conv_Cons list.map)
qed

lemma line_loop_from_0:
  assumes "0 \<le> dx" "dx \<le> d" "0 \<le> dy" "dy \<le> d" "d < 65534"
  shows "line_loop d dx dy incx incy 0 0 0 X Y
    = Some (map (\<lambda>k. (word_of_int (X + incx * steps d dx (int k)), word_of_int (Y + incy * steps d dy (int k))))
        [0..<nat d + 2])"
proof -
  have z: "steps d a 0 = 0" for a by (simp add: steps_def)
  show ?thesis
    using line_loop_points [OF assms le0, of incx incy X Y]
    by (simp only: of_nat_simps(1) z mult_zero_left mult_zero_right diff_0_right add_0_right)
qed

lemma steps_bounds:
  assumes "0 \<le> a" "a \<le> d" "0 \<le> t" "t \<le> d + 1"
  shows "0 \<le> steps d a t" "steps d a t \<le> a" "steps d a (d + 1) = a"
    "1 \<le> t \<Longrightarrow> \<bar>steps d a t * d - (t - 1) * a\<bar> < max d 1"
proof -
  have s: "steps d a t = 0 \<and> steps d a (d + 1) = a" if "a = 0" using that by (simp add: steps_def)
  have pos: "0 \<le> steps d a t \<and> steps d a t \<le> a \<and> steps d a (d + 1) = a
      \<and> (1 \<le> t \<longrightarrow> \<bar>steps d a t * d - (t - 1) * a\<bar> < max d 1)" if a: "0 < a"
  proof -
    have d: "0 < d" using a assms by simp
    have e: "((d + 1) * a - 1) div d = a"
      using a assms d by (intro int_div_pos_eq [where r = "a - 1"]) (simp_all add: algebra_simps)
    show ?thesis
    proof (cases "t = 0")
      case False
      define q where "q = (t * a - 1) div d"
      define r where "r = (t * a - 1) mod d"
      have r: "0 \<le> r" "r < d" "t * a - 1 = q * d + r" using d by (simp_all add: q_def r_def)
      have ta: "1 * 1 \<le> t * a" using False assms a by (intro mult_mono) simp_all
      then have q0: "0 \<le> q" using d by (simp add: q_def pos_imp_zdiv_nonneg_iff)
      have "t * a \<le> (d + 1) * a" using assms a by (intro mult_right_mono) simp_all
      then have "q \<le> ((d + 1) * a - 1) div d" unfolding q_def using d by (intro zdiv_mono1) simp_all
      then have q1: "q \<le> a" using e by simp
      have "q * d - (t - 1) * a = a - 1 - r" using r(3) by (simp add: algebra_simps)
      then have "\<bar>q * d - (t - 1) * a\<bar> < d" using r a assms by simp
      with q0 q1 e a d False show ?thesis by (simp add: steps_def q_def [symmetric])
    qed (use a e d in \<open>simp add: steps_def\<close>)
  qed
  show "0 \<le> steps d a t" "steps d a t \<le> a" "steps d a (d + 1) = a"
    "1 \<le> t \<Longrightarrow> \<bar>steps d a t * d - (t - 1) * a\<bar> < max d 1"
    using s pos assms(1) by (cases "a = 0"; simp)+
qed

text \<open>The increments of the code as sign and magnitude.\<close>

lemma sign_step:
  "(if delta > 0 then 1 else if delta = 0 then 0 else - 1 :: int) = sgn delta"
  "(if delta < 0 then - delta else delta :: int) = \<bar>delta\<bar>"
  by (simp_all add: sgn_if abs_if)

lemma LCD_DrawLine_points:
  fixes x1 y1 x2 y2 :: u16
  defines "dx \<equiv> uint x2 - uint x1" and "dy \<equiv> uint y2 - uint y1"
  defines "d \<equiv> max \<bar>dx\<bar> \<bar>dy\<bar>"
  assumes "d < 65534"
  shows "LCD_DrawLine x1 y1 x2 y2 = Some (map (\<lambda>k.
      (word_of_int (uint x1 + sgn dx * steps d \<bar>dx\<bar> (int k)), word_of_int (uint y1 + sgn dy * steps d \<bar>dy\<bar> (int k))))
     [0..<nat d + 2])"
proof -
  have m: "(if \<bar>dx\<bar> > \<bar>dy\<bar> then \<bar>dx\<bar> else \<bar>dy\<bar>) = d" by (simp add: d_def)
  have line: "LCD_DrawLine x1 y1 x2 y2
      = line_loop d \<bar>dx\<bar> \<bar>dy\<bar> (sgn dx) (sgn dy) 0 0 0 (uint x1) (uint y1)"
    unfolding LCD_DrawLine_def Let_def sign_step dx_def [symmetric] dy_def [symmetric] m ..
  have le: "\<bar>dx\<bar> \<le> d" "\<bar>dy\<bar> \<le> d" by (simp_all add: d_def)
  show ?thesis unfolding line by (rule line_loop_from_0 [OF abs_ge_zero le(1) abs_ge_zero le(2) assms(4)])
qed

lemma between_u16:
  fixes a b :: u16
  assumes "\<bar>uint b - uint a\<bar> = m" "0 \<le> s" "s \<le> m"
  shows "uint (word_of_int (uint a + sgn (uint b - uint a) * s) :: u16) = uint a + sgn (uint b - uint a) * s"
    "min (uint a) (uint b) \<le> uint a + sgn (uint b - uint a) * s"
    "uint a + sgn (uint b - uint a) * s \<le> max (uint a) (uint b)"
proof -
  show lo: "min (uint a) (uint b) \<le> uint a + sgn (uint b - uint a) * s"
    and hi: "uint a + sgn (uint b - uint a) * s \<le> max (uint a) (uint b)"
    using assms by (auto simp: sgn_if)
  have "0 \<le> uint a + sgn (uint b - uint a) * s" using lo by (meson min.boundedI order_trans unsigned_greater_eq)
  moreover have "uint a + sgn (uint b - uint a) * s < 65536"
  proof -
    have "max (uint a) (uint b) < 65536" using uint_lt2p [of a] uint_lt2p [of b] by simp
    with hi show ?thesis by linarith
  qed
  ultimately show "uint (word_of_int (uint a + sgn (uint b - uint a) * s) :: u16) = uint a + sgn (uint b - uint a) * s"
    by (subst uint_word_of_int) (rule mod_pos_pos_trivial, simp_all)
qed

lemma between_word:
  "(min (a :: u16) b \<le> x \<and> x \<le> max a b \<and> P) = (min (uint a) (uint b) \<le> uint x \<and> uint x \<le> max (uint a) (uint b) \<and> P)"
  "(min (a :: u16) b \<le> x \<and> x \<le> max a b) = (min (uint a) (uint b) \<le> uint x \<and> uint x \<le> max (uint a) (uint b))"
  by (simp_all add: word_le_def min_def max_def)

lemma line_joins:
  fixes x1 y1 x2 y2 :: u16
  defines "d \<equiv> max \<bar>uint x2 - uint x1\<bar> \<bar>uint y2 - uint y1\<bar>"
  assumes "d < 65534"
  shows "\<exists>ps. LCD_DrawLine x1 y1 x2 y2 = Some ps \<and> length ps = nat d + 2
    \<and> hd ps = (x1, y1) \<and> last ps = (x2, y2)
    \<and> (\<forall>(x, y) \<in> set ps. min x1 x2 \<le> x \<and> x \<le> max x1 x2 \<and> min y1 y2 \<le> y \<and> y \<le> max y1 y2)
    \<and> (\<forall>t. 0 < t \<and> t < length ps \<longrightarrow>
          \<bar>(uint (fst (ps ! t)) - uint x1) * d - (uint x2 - uint x1) * (int t - 1)\<bar> < max d 1
        \<and> \<bar>(uint (snd (ps ! t)) - uint y1) * d - (uint y2 - uint y1) * (int t - 1)\<bar> < max d 1)"
proof -
  let ?dx = "uint x2 - uint x1" and ?dy = "uint y2 - uint y1"
  define c where "c a b t = (word_of_int (uint a + sgn (uint b - uint a) * steps d \<bar>uint b - uint a\<bar> (int t)) :: u16)"
    for a b :: u16 and t
  define ps where "ps = map (\<lambda>t. (c x1 x2 t, c y1 y2 t)) [0..<nat d + 2]"
  have d: "\<bar>?dx\<bar> \<le> d" "\<bar>?dy\<bar> \<le> d" "0 \<le> d" by (simp_all add: d_def)
  have line: "LCD_DrawLine x1 y1 x2 y2 = Some ps"
    unfolding ps_def c_def d_def by (rule LCD_DrawLine_points [OF assms(2) [unfolded d_def]])
  have c: "uint (c a b t) = uint a + sgn (uint b - uint a) * steps d \<bar>uint b - uint a\<bar> (int t)
      \<and> min (uint a) (uint b) \<le> uint (c a b t) \<and> uint (c a b t) \<le> max (uint a) (uint b)
      \<and> (0 < t \<longrightarrow> \<bar>(uint (c a b t) - uint a) * d - (uint b - uint a) * (int t - 1)\<bar> < max d 1)"
    if "\<bar>uint b - uint a\<bar> \<le> d" "t < nat d + 2" for a b t
  proof -
    have t: "0 \<le> int t" "int t \<le> d + 1" using that d by simp_all
    note s = steps_bounds [OF abs_ge_zero that(1) t]
    note u = between_u16 [OF refl s(1,2)]
    have "\<bar>(uint (c a b t) - uint a) * d - (uint b - uint a) * (int t - 1)\<bar> < max d 1" if "0 < t"
    proof -
      let ?s = "steps d \<bar>uint b - uint a\<bar> (int t)"
      have "(uint (c a b t) - uint a) * d - (uint b - uint a) * (int t - 1)
          = sgn (uint b - uint a) * (?s * d - (int t - 1) * \<bar>uint b - uint a\<bar>)"
        (is "?l = _")
      proof -
        have "?l = sgn (uint b - uint a) * ?s * d - (sgn (uint b - uint a) * \<bar>uint b - uint a\<bar>) * (int t - 1)"
          unfolding c_def u(1) sgn_mult_abs by (simp only: add_diff_cancel_left')
        also have "\<dots> = sgn (uint b - uint a) * (?s * d - (int t - 1) * \<bar>uint b - uint a\<bar>)"
          by (simp only: right_diff_distrib mult.assoc mult.left_commute mult.commute)
        finally show ?thesis .
      qed
      then have "\<bar>(uint (c a b t) - uint a) * d - (uint b - uint a) * (int t - 1)\<bar>
          \<le> \<bar>?s * d - (int t - 1) * \<bar>uint b - uint a\<bar>\<bar>" by (simp add: abs_mult sgn_if)
      also have "\<dots> < max d 1" using s(4) that by simp
      finally show ?thesis .
    qed
    with u show ?thesis by (simp add: c_def)
  qed
  have first: "c a b 0 = a" and final: "\<bar>uint b - uint a\<bar> \<le> d \<Longrightarrow> c a b (nat d + 1) = b" for a b
  proof -
    show "c a b 0 = a" by (simp add: c_def steps_def)
    assume ab: "\<bar>uint b - uint a\<bar> \<le> d"
    have "steps d \<bar>uint b - uint a\<bar> (int (nat d + 1)) = \<bar>uint b - uint a\<bar>"
      using steps_bounds(3) [OF abs_ge_zero ab, of 0] d(3) by (simp add: add.commute)
    then show "c a b (nat d + 1) = b" by (simp only: c_def sgn_mult_abs) simp
  qed
  have len: "length ps = nat d + 2" by (simp add: ps_def)
  have nth: "ps ! t = (c x1 x2 t, c y1 y2 t)" if "t < nat d + 2" for t
    using that by (simp only: ps_def length_upt diff_zero nth_map nth_upt add_0_left)
  have hd: "hd ps = (x1, y1)"
    using nth [of 0] len by (simp only: hd_conv_nth first) (simp add: hd_conv_nth first flip: length_greater_0_conv)
  have last: "last ps = (x2, y2)"
    using nth [of "nat d + 1"] len final [OF d(1)] final [OF d(2)]
    by (subst last_conv_nth) (simp_all flip: length_greater_0_conv)
  have box: "\<forall>(x, y) \<in> set ps. min x1 x2 \<le> x \<and> x \<le> max x1 x2 \<and> min y1 y2 \<le> y \<and> y \<le> max y1 y2"
  proof
    fix p assume "p \<in> set ps"
    then obtain t where "p = (c x1 x2 t, c y1 y2 t)" "t < nat d + 2"
      unfolding in_set_conv_nth len using nth by metis
    with c [OF d(1), of t] c [OF d(2), of t]
    show "case p of (x, y) \<Rightarrow> min x1 x2 \<le> x \<and> x \<le> max x1 x2 \<and> min y1 y2 \<le> y \<and> y \<le> max y1 y2"
      by (simp only: prod.case between_word) simp
  qed
  have near: "\<forall>t. 0 < t \<and> t < length ps \<longrightarrow>
          \<bar>(uint (fst (ps ! t)) - uint x1) * d - (uint x2 - uint x1) * (int t - 1)\<bar> < max d 1
        \<and> \<bar>(uint (snd (ps ! t)) - uint y1) * d - (uint y2 - uint y1) * (int t - 1)\<bar> < max d 1"
  proof (intro allI impI)
    fix t assume "0 < t \<and> t < length ps"
    then have t: "0 < t" "t < nat d + 2" by (simp_all only: len)
    show "\<bar>(uint (fst (ps ! t)) - uint x1) * d - (uint x2 - uint x1) * (int t - 1)\<bar> < max d 1
        \<and> \<bar>(uint (snd (ps ! t)) - uint y1) * d - (uint y2 - uint y1) * (int t - 1)\<bar> < max d 1"
      unfolding nth [OF t(2)] fst_conv snd_conv using c [OF d(1) t(2)] c [OF d(2) t(2)] t(1) by blast
  qed
  show ?thesis by (intro exI conjI) (rule line, rule len, rule hd, rule last, rule box, rule near)
qed

text \<open>
  Up to 65533 points long, a line ends and joins its end points: the first point is
  \<open>(x1, y1)\<close>, the last is \<open>(x2, y2)\<close>, no point leaves the rectangle between them (so a line between
  points of the screen stays on the screen), and after the first the points run along the longer
  direction with less than one pixel of distance from the straight line.
\<close>

theorem LCD_DrawLine_joins:
  fixes x1 y1 x2 y2 :: u16
  defines "d \<equiv> max \<bar>uint x2 - uint x1\<bar> \<bar>uint y2 - uint y1\<bar>"
  assumes "d < 65534"
  shows "\<exists>ps. LCD_DrawLine x1 y1 x2 y2 = Some ps \<and> length ps = nat d + 2
    \<and> hd ps = (x1, y1) \<and> last ps = (x2, y2)
    \<and> (\<forall>(x, y) \<in> set ps. min x1 x2 \<le> x \<and> x \<le> max x1 x2 \<and> min y1 y2 \<le> y \<and> y \<le> max y1 y2)
    \<and> (\<forall>t. 0 < t \<and> t < length ps \<longrightarrow>
          \<bar>(uint (fst (ps ! t)) - uint x1) * d - (uint x2 - uint x1) * (int t - 1)\<bar> < max d 1
        \<and> \<bar>(uint (snd (ps ! t)) - uint y1) * d - (uint y2 - uint y1) * (int t - 1)\<bar> < max d 1)"
  unfolding d_def by (rule line_joins [OF assms(2) [unfolded d_def]])

theorem LCD_DrawLine_joins_witness:
  "\<exists>ps. LCD_DrawLine 0 24 240 24 = Some ps \<and> hd ps = (0, 24) \<and> last ps = (240, 24)"
  using LCD_DrawLine_joins [of 240 0 24 24] by auto

section \<open>Characters\<close>

text \<open>What one bit of a glyph puts at a point.\<close>

definition shade :: "u8 \<Rightarrow> bool \<Rightarrow> point \<Rightarrow> (point \<times> ink) list" where
  "shade mode b p = (if b then [(p, Point_Ink)] else if mode = 0 then [(p, Back_Ink)] else [])"

text \<open>A run of bits that stays in the column, and one that reaches its end.\<close>

lemma row_inside:
  assumes "unat y = unat y0 + k" "k + 1 \<le> unat s" "unat y0 + unat s \<le> unat height"
    "k + 1 < unat s \<or> unat y0 + unat s < unat height"
  shows "unat (y + 1) = unat y0 + (k + 1)" "\<not> y + 1 \<ge> (height :: u16)"
    "(uint (y + 1) - uint y0 = uint (s :: u8)) = (k + 1 = unat s)"
proof -
  have "unat y < 65535" using assms unat_u16_lt [of height] by linarith
  then show u: "unat (y + 1) = unat y0 + (k + 1)" using assms(1) by (simp add: unat_suc_u16)
  show "\<not> y + 1 \<ge> height" unfolding word_le_nat_alt u using assms by linarith
  show "(uint (y + 1) - uint y0 = uint s) = (k + 1 = unat s)"
    unfolding uint_nat u by linarith
qed

lemma char_bits_inside:
  assumes "unat y = unat y0 + k" "k + n < unat s" "unat y0 + unat s \<le> unat height"
  shows "char_bits width height y0 s mode n temp x y
    = (concat (map (\<lambda>i. shade mode (bit (push_bit i temp) 7) (x, y + of_nat i)) [0..<n]), Some (x, y + of_nat n))"
  using assms
proof (induction n arbitrary: k temp y)
  case (Suc n)
  have r: "unat (y + 1) = unat y0 + (k + 1)" "\<not> y + 1 \<ge> height" "\<not> uint (y + 1) - uint y0 = uint s"
    using row_inside [of y y0 k s height] Suc.prems by auto
  have "char_bits width height y0 s mode n (push_bit 1 temp) x (y + 1)
      = (concat (map (\<lambda>i. shade mode (bit (push_bit i (push_bit 1 temp)) 7) (x, y + 1 + of_nat i)) [0..<n]),
         Some (x, y + 1 + of_nat n))"
    using Suc.prems by (intro Suc.IH [OF r(1)]) simp_all
  moreover have "concat (map (\<lambda>i. shade mode (bit (push_bit i temp) 7) (x, y + of_nat i)) [0..<Suc n])
      = shade mode (bit temp 7) (x, y)
        @ concat (map (\<lambda>i. shade mode (bit (push_bit i (push_bit 1 temp)) 7) (x, y + 1 + of_nat i)) [0..<n])"
    by (simp add: upt_conv_Cons map_Suc_upt [symmetric] comp_def add.assoc del: upt_Suc)
  ultimately show ?case
    by (simp only: char_bits.simps Let_def r(2,3) if_False split_beta fst_conv snd_conv top_bit
        shade_def of_nat_Suc add.assoc add.commute [of "of_nat n"])
qed simp

lemma char_bits_end:
  assumes "unat y = unat y0 + k" "k < unat s" "unat s \<le> k + n" "unat y0 + unat s \<le> unat height"
  shows "char_bits width height y0 s mode n temp x y
    = (concat (map (\<lambda>i. shade mode (bit (push_bit i temp) 7) (x, y + of_nat i)) [0..<unat s - k]),
       if unat y0 + unat s = unat height \<or> x + 1 \<ge> width then None else Some (x + 1, y0))"
  using assms
proof (induction n arbitrary: k temp y)
  case (Suc n)
  have first: "concat (map (\<lambda>i. shade mode (bit (push_bit i temp) 7) (x, y + of_nat i)) [0..<unat s - k])
      = shade mode (bit temp 7) (x, y)
        @ concat (map (\<lambda>i. shade mode (bit (push_bit i (push_bit 1 temp)) 7) (x, y + 1 + of_nat i)) [0..<unat s - (k + 1)])"
  proof -
    have "unat s - k = Suc (unat s - (k + 1))" using Suc.prems(2) by simp
    then show ?thesis
      by (simp add: upt_conv_Cons map_Suc_upt [symmetric] comp_def add.assoc del: upt_Suc)
  qed
  consider "k + 1 < unat s" | "k + 1 = unat s" "unat y0 + unat s < unat height"
    | "k + 1 = unat s" "unat y0 + unat s = unat height"
    using Suc.prems by linarith
  then show ?case
  proof cases
    case 1
    have r: "unat (y + 1) = unat y0 + (k + 1)" "\<not> y + 1 \<ge> height" "\<not> uint (y + 1) - uint y0 = uint s"
      using row_inside [of y y0 k s height] Suc.prems 1 by auto
    note ih = Suc.IH [OF r(1), of "push_bit 1 temp"]
    show ?thesis
      using Suc.prems 1 ih unfolding first
      by (simp only: char_bits.simps Let_def r(2,3) if_False split_beta top_bit) (simp add: shade_def)
  next
    case 2
    have r: "\<not> y + 1 \<ge> height" "uint (y + 1) - uint y0 = uint s"
      using row_inside [of y y0 k s height] Suc.prems 2 by auto
    show ?thesis
      using 2 unfolding first by (simp only: char_bits.simps Let_def r if_False if_True top_bit) (simp add: shade_def)
  next
    case 3
    have "unat y < 65535" using Suc.prems(1) 3 unat_u16_lt [of height] by linarith
    then have "y + 1 \<ge> height" using Suc.prems(1) 3 by (simp add: word_le_nat_alt unat_suc_u16)
    then show ?thesis
      using 3 unfolding first by (simp only: char_bits.simps Let_def if_True top_bit) (simp add: shade_def)
  qed
qed simp

text \<open>The row \<open>r\<close> of the column that starts with byte \<open>tb\<close> of the glyph.\<close>

definition glyph_row :: "font \<Rightarrow> u8 \<Rightarrow> u8 \<Rightarrow> u8 \<Rightarrow> u8 \<Rightarrow> u16 \<Rightarrow> u16 \<Rightarrow> nat \<Rightarrow> (point \<times> ink) list" where
  "glyph_row font s num mode tb x y r =
     shade mode (bit (font s num (tb + of_nat (r div 8))) (7 - r mod 8)) (x, y + of_nat r)"

lemma byte_rows:
  assumes "n \<le> 8"
  shows "concat (map (\<lambda>i. shade mode (bit (push_bit i (font s num (tb + of_nat j))) 7) (x, y0 + of_nat (8 * j) + of_nat i)) [0..<n])
    = concat (map (glyph_row font s num mode tb x y0) [8 * j..<8 * j + n])"
proof -
  have "[8 * j..<8 * j + n] = map (\<lambda>i. i + 8 * j) [0..<n]" by (simp add: map_add_upt add.commute)
  moreover have "shade mode (bit (push_bit i (font s num (tb + of_nat j))) 7) (x, y0 + of_nat (8 * j) + of_nat i)
      = glyph_row font s num mode tb x y0 (i + 8 * j)" if "i < n" for i
  proof -
    have i: "i < 8" using that assms by simp
    then have "(i + 8 * j) div 8 = j" "(i + 8 * j) mod 8 = i" by simp_all
    moreover have "bit (push_bit i b) 7 = bit b (7 - i)" for b :: u8
      using i by (auto simp: bit_push_bit_iff)
    ultimately show ?thesis by (simp add: glyph_row_def add.assoc add.commute [of "of_nat i"])
  qed
  then have "map (\<lambda>i. shade mode (bit (push_bit i (font s num (tb + of_nat j))) 7) (x, y0 + of_nat (8 * j) + of_nat i)) [0..<n]
      = map (\<lambda>i. glyph_row font s num mode tb x y0 (i + 8 * j)) [0..<n]"
    by (intro map_cong) simp_all
  ultimately show ?thesis by (simp only: map_map comp_def)
qed

lemma glyph_column:
  assumes s: "s = 12 \<or> s = 16 \<or> s = 24 \<or> s = 32" and y: "unat y0 + unat s \<le> unat height"
    and j: "8 * j < unat s" "unat s \<le> 8 * (j + m)" "8 * (j + m) < unat s + 8"
  shows "char_bytes font width height y0 num s mode (m + rest) (tb + of_nat j) x (y0 + of_nat (8 * j))
    = concat (map (glyph_row font s num mode tb x y0) [8 * j..<unat s])
      @ (if unat y0 + unat s = unat height \<or> x + 1 \<ge> width then []
         else char_bytes font width height y0 num s mode rest (tb + of_nat (j + m)) (x + 1) y0)"
  using j
proof (induction m arbitrary: j)
  case (Suc m)
  have "unat s \<le> 32" using s by auto
  then have k: "unat (y0 + of_nat (8 * j)) = unat y0 + 8 * j"
    using Suc.prems(1) y unat_u16_lt [of height]
    by (intro unat_add_of_nat_u16) linarith
  let ?b = "font s num (tb + of_nat j)"
  show ?case
  proof (cases m)
    case 0
    have "char_bits width height y0 s mode 8 ?b x (y0 + of_nat (8 * j))
        = (concat (map (glyph_row font s num mode tb x y0) [8 * j..<unat s]),
           if unat y0 + unat s = unat height \<or> x + 1 \<ge> width then None else Some (x + 1, y0))"
      using char_bits_end [OF k Suc.prems(1) _ y, of 8 width mode ?b x] Suc.prems 0
        byte_rows [of "unat s - 8 * j" mode font s num tb j x y0] by simp
    then show ?thesis using s 0 by (simp add: algebra_simps)
  next
    case (Suc m')
    have j: "8 * (j + 1) < unat s" "8 * j + 8 < unat s" using Suc.prems Suc by simp_all
    have bits: "char_bits width height y0 s mode 8 ?b x (y0 + of_nat (8 * j))
        = (concat (map (glyph_row font s num mode tb x y0) [8 * j..<8 * j + 8]), Some (x, y0 + of_nat (8 * (j + 1))))"
      using char_bits_inside [OF k j(2) y, of width mode ?b x] byte_rows [of 8 mode font s num tb j x y0]
      by (simp add: algebra_simps)
    have up: "[8 * j..<unat s] = [8 * j..<8 * j + 8] @ [8 * (j + 1)..<unat s]"
      using upt_add_eq_append [of "8 * j" "8 * j + 8" "unat s - (8 * j + 8)"] j(2) by (simp add: add.commute)
    have "char_bytes font width height y0 num s mode (Suc m + rest) (tb + of_nat j) x (y0 + of_nat (8 * j))
      = concat (map (glyph_row font s num mode tb x y0) [8 * j..<8 * j + 8])
        @ char_bytes font width height y0 num s mode (m + rest) (tb + of_nat (j + 1)) x (y0 + of_nat (8 * (j + 1)))"
      using s by (simp only: add_Suc char_bytes.simps bits prod.case option.case Let_def if_True of_nat_add of_nat_1 add.assoc)
    then show ?thesis
      using Suc.IH [OF j(1)] Suc.prems unfolding up by (simp add: algebra_simps)
  qed
qed simp

text \<open>The columns of a glyph of \<open>rb\<close> bytes each.\<close>

lemma glyph_columns:
  assumes s: "s = 12 \<or> s = 16 \<or> s = 24 \<or> s = 32" and y: "unat y0 + unat s < unat height"
    and rb: "rb = (unat s + 7) div 8" and x: "unat x + m \<le> unat width"
  shows "char_bytes font width height y0 num s mode (rb * m) (of_nat (rb * i)) x y0
    = concat (map (\<lambda>c. concat (map (glyph_row font s num mode (of_nat (rb * (i + c))) (x + of_nat c) y0) [0..<unat s])) [0..<m])"
  using x
proof (induction m arbitrary: i x)
  case (Suc m)
  have b: "0 < unat s" "unat s \<le> 8 * rb" "8 * rb < unat s + 8" using s rb by auto
  have "unat x < 65535" using Suc.prems unat_u16_lt [of width] by linarith
  then have x1: "unat (x + 1) = unat x + 1" by (rule unat_suc_u16)
  have "char_bytes font width height y0 num s mode (rb * Suc m) (of_nat (rb * i)) x y0
      = concat (map (glyph_row font s num mode (of_nat (rb * i)) x y0) [0..<unat s])
        @ (if x + 1 \<ge> width then [] else char_bytes font width height y0 num s mode (rb * m) (of_nat (rb * Suc i)) (x + 1) y0)"
    using glyph_column [OF s, of y0 height 0 rb font width num mode "rb * m" "of_nat (rb * i)" x] y b
    by (simp add: algebra_simps)
  also have "(if x + 1 \<ge> width then [] else char_bytes font width height y0 num s mode (rb * m) (of_nat (rb * Suc i)) (x + 1) y0)
      = char_bytes font width height y0 num s mode (rb * m) (of_nat (rb * Suc i)) (x + 1) y0"
    using Suc.prems x1 by (cases m) (auto simp: word_le_nat_alt)
  also have "\<dots> = concat (map (\<lambda>c. concat (map (glyph_row font s num mode (of_nat (rb * (Suc i + c))) (x + 1 + of_nat c) y0) [0..<unat s])) [0..<m])"
    using Suc.IH [of "x + 1" "Suc i"] Suc.prems x1 by simp
  finally show ?case
    by (simp add: upt_conv_Cons map_Suc_upt [symmetric] comp_def algebra_simps del: upt_Suc)
qed simp

lemma csize_columns:
  "s = 12 \<or> s = 16 \<or> s = 24 \<or> s = 32 \<Longrightarrow> unat (csize s) = (unat s + 7) div 8 * (unat s div 2)"
  by (elim disjE) (simp_all add: csize_def)

text \<open>
  A character that ends above the last row and inside the width of the screen is the raster of
  its glyph: column by column from the left and row by row from the top, each point from its bit
  of the table, set to the ink or, in mode 0, to the background, every point exactly once and none
  outside the cell. A character whose last row is the last of the screen loses everything but its
  first column, because the test for the edge comes before the one for the end of the column.
\<close>

theorem LCD_ShowChar_draws_the_glyph:
  fixes font :: font and x y :: u16 and num s mode :: u8
  assumes "s = 12 \<or> s = 16 \<or> s = 24 \<or> s = 32" and "unat x + unat s div 2 \<le> unat width"
  defines "column \<equiv> \<lambda>c. concat (map (\<lambda>r.
      shade mode (bit (font s (num - 0x20) (of_nat ((unat s + 7) div 8 * c + r div 8))) (7 - r mod 8))
        (x + of_nat c, y + of_nat r)) [0..<unat s])"
  shows "(unat y + unat s < unat height \<longrightarrow>
      LCD_ShowChar font width height x y num s mode = concat (map column [0..<unat s div 2]))
    \<and> (unat y + unat s = unat height \<longrightarrow> LCD_ShowChar font width height x y num s mode = column 0)"
proof (intro conjI impI)
  have col: "column c = concat (map (glyph_row font s (num - 0x20) mode (of_nat ((unat s + 7) div 8 * c)) (x + of_nat c) y) [0..<unat s])"
    for c by (simp only: column_def glyph_row_def [abs_def] of_nat_add)
  have cols: "column = (\<lambda>c. concat (map (glyph_row font s (num - 0x20) mode (of_nat ((unat s + 7) div 8 * c)) (x + of_nat c) y) [0..<unat s]))"
    by (rule ext) (rule col)
  show "LCD_ShowChar font width height x y num s mode = concat (map column [0..<unat s div 2])"
    if "unat y + unat s < unat height"
    using glyph_columns [OF assms(1) that refl assms(2), of font "num - 0x20" mode 0]
    by (simp only: LCD_ShowChar_def csize_columns [OF assms(1)] cols mult_0_right of_nat_simps(1) add_0_left)
  show "LCD_ShowChar font width height x y num s mode = column 0" if "unat y + unat s = unat height"
  proof -
    have e: "unat (csize s) = (unat s + 7) div 8 + (unat s + 7) div 8 * (unat s div 2 - 1)"
      using assms(1) by (elim disjE) (simp_all add: csize_def)
    show ?thesis
      using glyph_column [OF assms(1), of y height 0 "(unat s + 7) div 8" font width "num - 0x20" mode
          "(unat s + 7) div 8 * (unat s div 2 - 1)" 0 x] that assms(1)
      by (auto simp: LCD_ShowChar_def e col)
  qed
qed

lemma length_shade [simp]: "length (shade 0 b p) = 1"
  by (simp add: shade_def)

theorem LCD_ShowChar_draws_the_glyph_witness:
  "length (LCD_ShowChar (\<lambda>_ _ _. 0x0F) 240 320 20 305 0x41 12 0) = 72
   \<and> length (LCD_ShowChar (\<lambda>_ _ _. 0x0F) 240 320 20 308 0x41 12 0) = 12"
  using LCD_ShowChar_draws_the_glyph [where s = 12 and x = 20 and y = 305 and width = 240 and height = 320
      and num = "0x41" and mode = 0 and font = "\<lambda>_ _ _. 0x0F"]
    LCD_ShowChar_draws_the_glyph [where s = 12 and x = 20 and y = 308 and width = 240 and height = 320
      and num = "0x41" and mode = 0 and font = "\<lambda>_ _ _. 0x0F"]
  by (simp add: length_concat comp_def sum_list_triv)

section \<open>Numbers\<close>

text \<open>The digits at a fixed width, and with leading zeros replaced, but for the last.\<close>

fun digits :: "nat \<Rightarrow> nat \<Rightarrow> nat list" where
  "digits 0 n = []"
| "digits (Suc k) n = n div 10 ^ k mod 10 # digits k n"

fun padded :: "nat \<Rightarrow> nat \<Rightarrow> nat \<Rightarrow> nat list" where
  "padded blank 0 n = []"
| "padded blank (Suc k) n =
     (if n div 10 ^ k mod 10 = 0 \<and> k \<noteq> 0 then blank # padded blank k n
      else map ((+) 48) (digits (Suc k) n))"

lemma length_digits [simp]: "length (digits k n) = k"
  by (induction k) simp_all

lemma digits_snoc: "digits (Suc k) n = digits k (n div 10) @ [n mod 10]"
  by (induction k) (simp_all add: div_mult2_eq [symmetric] mult.commute)

lemma dec_as_digits:
  "n < 10 ^ k \<Longrightarrow> 0 < k \<Longrightarrow> k = 1 \<or> 10 ^ (k - 1) \<le> n \<Longrightarrow> map of_char (dec n) = map ((+) 48) (digits k n)"
proof (induction k arbitrary: n)
  case (Suc k)
  show ?case
  proof (cases k)
    case 0
    with Suc.prems show ?thesis by (simp add: of_char_digit)
  next
    case (Suc j)
    with Suc.prems have n: "10 \<le> n" "n div 10 < 10 ^ k" "10 ^ (k - 1) \<le> n div 10"
      by (auto simp: less_eq_div_iff_mult_less_eq div_less_iff_less_mult mult.commute
        intro: order_trans [of _ "10 * 10 ^ j"])
    then have "map of_char (dec (n div 10)) = map ((+) 48) (digits k (n div 10))"
      using Suc.IH [of "n div 10"] Suc by simp
    with n(1) show ?thesis by (simp only: digits_snoc dec_step map_append list.map) (simp add: of_char_digit)
  qed
qed simp

lemma mod_power_split: "k \<le> m \<Longrightarrow> (n :: nat) mod 10 ^ m div 10 ^ k = n div 10 ^ k mod 10 ^ (m - k)"
proof -
  assume "k \<le> m"
  then have "(10 :: nat) ^ m = 10 ^ k * 10 ^ (m - k)" by (simp flip: power_add)
  then show ?thesis by (simp add: mod_mult2_eq)
qed

lemma digits_mod: "k \<le> m \<Longrightarrow> digits k (n mod 10 ^ m) = digits k n"
proof (induction k)
  case (Suc k)
  then have "(10 :: nat) dvd 10 ^ (m - k)" by (simp add: Suc_diff_Suc [symmetric] del: dvd_imp_mod_0)
  then have "n mod 10 ^ m div 10 ^ k mod 10 = n div 10 ^ k mod 10"
    using Suc.prems by (simp add: mod_power_split mod_mod_cancel)
  with Suc show ?case by simp
qed simp

lemma length_dec_le: "n < 10 ^ k \<Longrightarrow> 0 < k \<Longrightarrow> length (dec n) \<le> k"
proof (induction k arbitrary: n)
  case (Suc k)
  show ?case
  proof (cases "n < 10")
    case False
    with Suc.prems have "n div 10 < 10 ^ k" "0 < k"
      by (auto simp: div_less_iff_less_mult mult.commute intro: gr0I)
    with Suc.IH [of "n div 10"] False show ?thesis by (simp add: length_dec_Suc)
  qed simp
qed simp

lemma padded_dec:
  "0 < k \<Longrightarrow> padded blank k n
    = replicate (k - length (dec (n mod 10 ^ k))) blank @ map of_char (dec (n mod 10 ^ k))"
proof (induction k)
  case (Suc k)
  define d where "d = n div 10 ^ k mod 10"
  have N: "n mod 10 ^ Suc k = d * 10 ^ k + n mod 10 ^ k"
    by (simp add: d_def mod_mult2_eq mult.commute [of 10])
  show ?case
  proof (cases "d = 0 \<and> k \<noteq> 0")
    case True
    then have "length (dec (n mod 10 ^ k)) \<le> k" by (intro length_dec_le) simp_all
    with True Suc.IH N show ?thesis by (simp add: d_def [symmetric] Suc_diff_le)
  next
    case False
    have "Suc k = 1 \<or> 10 ^ (Suc k - 1) \<le> n mod 10 ^ Suc k"
      using False unfolding N by (cases d) auto
    then have "map of_char (dec (n mod 10 ^ Suc k)) = map ((+) 48) (digits (Suc k) (n mod 10 ^ Suc k))"
      by (intro dec_as_digits) simp_all
    moreover from this have "length (dec (n mod 10 ^ Suc k)) = Suc k"
      by (metis length_digits length_map)
    ultimately show ?thesis
      using False by (simp only: digits_mod [OF order_refl]) (auto simp: d_def)
  qed
qed simp

text \<open>The loop over the digits, at 32 and 8 bits.\<close>

lemma LCD_Pow_10: "unat k \<le> 9 \<Longrightarrow> unat (LCD_Pow 10 k) = 10 ^ unat k"
proof -
  have "n \<le> 9 \<Longrightarrow> unat (((\<lambda>result. result * ucast (10 :: u8)) ^^ n) (1 :: u32)) = 10 ^ n" for n
  proof (induction n)
    case (Suc n)
    have "(10 :: nat) ^ Suc n \<le> 10 ^ 9" using Suc.prems by (intro power_increasing) simp_all
    with Suc show ?case by (simp add: unat_word_ariths)
  qed simp
  then show "unat k \<le> 9 \<Longrightarrow> unat (LCD_Pow 10 k) = 10 ^ unat k" by (simp add: LCD_Pow_def)
qed

lemma unat_ascii: "unat (a :: u8) = d \<Longrightarrow> d < 10 \<Longrightarrow> unat (a + 0x30) = 48 + d"
  by (simp add: unat_word_ariths)

lemma num_loop_digits:
  assumes "unat t + left = unat len" and "unat len \<le> 10"
  shows "map (\<lambda>(x, y, c, m). unat c) (num_loop x y num len s blank mode left t enshow)
    = (if enshow then map ((+) 48) (digits left (unat num)) else padded (unat blank) left (unat num))"
  using assms(1)
proof (induction left arbitrary: t enshow)
  case (Suc k)
  have t: "unat (t + 1) = unat t + 1" using Suc.prems assms(2) by (intro unat_suc_u8) linarith
  have k: "unat (len - t - 1) = k"
  proof -
    have "unat (len - t) = Suc k"
      using Suc.prems by (subst unat_sub) (simp_all add: word_le_nat_alt)
    then show ?thesis by (subst unat_sub) (simp_all add: word_le_nat_alt)
  qed
  define d where "d = unat num div 10 ^ k mod 10"
  have temp: "unat (ucast ((num div LCD_Pow 10 (len - t - 1)) mod 10) :: u8) = d"
  proof -
    have "unat (LCD_Pow 10 (len - t - 1)) = 10 ^ k" using k Suc.prems assms(2) by (simp add: LCD_Pow_10)
    then have "unat ((num div LCD_Pow 10 (len - t - 1)) mod 10) = d" by (simp add: unat_div unat_mod d_def)
    moreover have "d < 10" by (simp add: d_def)
    ultimately show ?thesis by (simp add: unsigned_ucast_eq take_bit_eq_mod)
  qed
  then have zero: "(ucast ((num div LCD_Pow 10 (len - t - 1)) mod 10) = (0 :: u8)) = (d = 0)"
    by (metis unat_eq_zero)
  have ascii: "unat ((ucast ((num div LCD_Pow 10 (len - t - 1)) mod 10) :: u8) + 0x30) = 48 + d"
    by (rule unat_ascii [OF temp]) (simp add: d_def)
  have ks: "(uint t < uint len - 1) = (k \<noteq> 0)"
    unfolding uint_nat [of t] uint_nat [of len] using Suc.prems by linarith
  have d0: "k = 0 \<Longrightarrow> unat num mod 10 = d" by (simp add: d_def)
  have t': "unat (t + 1) + k = unat len" using Suc.prems t by simp
  show ?case
    by (cases "enshow"; cases "k = 0"; cases "d = 0")
      (simp_all add: Let_def zero ks ascii Suc.IH [OF t'] d0 d_def [symmetric])
qed simp

lemma num_loop_places:
  assumes "unat t + left \<le> 255"
  shows "map (\<lambda>(x, y, c, m). (x, y)) (num_loop x y num len s blank mode left t enshow)
    = map (\<lambda>k. (x + ucast (s div 2) * of_nat (unat t + k), y)) [0..<left]"
  using assms
proof (induction left arbitrary: t enshow)
  case (Suc k)
  have t: "unat (t + 1) = unat t + 1" using Suc.prems by (intro unat_suc_u8) linarith
  have "(ucast (t + 1) :: u16) = of_nat (unat (t + 1))" by simp
  then have u: "(ucast (1 + t) :: u16) = ucast t + 1" unfolding t by (simp add: add.commute)
  show ?case
    using Suc.IH [of "t + 1"] Suc.prems t
    by (simp add: Let_def upt_conv_Cons map_Suc_upt [symmetric] comp_def algebra_simps u del: upt_Suc)
qed simp

text \<open>
  \<open>LCD_ShowNum\<close> and \<open>LCD_ShowxNum\<close> show decimal numbers: for up to ten digits the characters
  are the decimal text of the number reduced to \<open>len\<close> digits, right-aligned in \<open>len\<close> places behind
  blanks or, with the fill bit of the mode, zeros, half a character height apart; the powers of ten
  do not wrap. A number with more digits loses the upper ones without a sign of it.
\<close>

theorem LCD_ShowNum_is_decimal:
  assumes "0 < unat len" and "unat len \<le> 10"
  shows "map (\<lambda>(x, y, c, m). unat c) (LCD_ShowNum x y num len s)
      = replicate (unat len - length (dec (unat num mod 10 ^ unat len))) 32 @ map of_char (dec (unat num mod 10 ^ unat len))
    \<and> map (\<lambda>(x, y, c, m). unat c) (LCD_ShowxNum x y num len s mode)
      = replicate (unat len - length (dec (unat num mod 10 ^ unat len))) (if bit mode 7 then 48 else 32)
        @ map of_char (dec (unat num mod 10 ^ unat len))
    \<and> map (\<lambda>(x, y, c, m). (x, y)) (LCD_ShowNum x y num len s)
      = map (\<lambda>k. (x + ucast (s div 2) * of_nat k, y)) [0..<unat len]"
proof -
  have "unat 0 + unat len = unat len" "unat (0 :: u8) + unat len \<le> 255" using assms(2) by simp_all
  with assms show ?thesis
    using num_loop_digits [where t = 0 and left = "unat len" and len = len and num = num and x = x and y = y
        and s = s and blank = "0x20" and mode = 0 and enshow = False]
      num_loop_digits [where t = 0 and left = "unat len" and len = len and num = num and x = x and y = y and s = s
        and blank = "if and mode 0x80 \<noteq> 0 then 0x30 else 0x20" and mode = "and mode 0x01" and enshow = False]
      num_loop_places [where t = 0 and left = "unat len" and len = len and num = num and x = x and y = y
        and s = s and blank = "0x20" and mode = 0 and enshow = False]
    by (simp add: LCD_ShowNum_def LCD_ShowxNum_def padded_dec top_bit)
qed

theorem LCD_ShowNum_is_decimal_witness:
  "map (\<lambda>(x, y, c, m). unat c) (LCD_ShowNum 64 160 307 4 16) = [32, 51, 48, 55]"
  using LCD_ShowNum_is_decimal [of 4 64 160 307 16] by (simp add: dec_step of_char_digit)

section \<open>Circles\<close>

declare circle_loop.simps [simp del]

text \<open>
  \<open>di\<close> is the usual decision variable plus \<open>4 a\<close>: the increment of \<open>a\<close> comes one statement early.
  \<open>off a b r\<close> measures how far an offset is from the circle.
\<close>

definition off :: "int \<Rightarrow> int \<Rightarrow> int \<Rightarrow> int" where
  "off a b r = a * a + b * b - r * r"

definition decision :: "int \<Rightarrow> int \<Rightarrow> int \<Rightarrow> int" where
  "decision a b r = 2 * (a + 1) * (a + 1) + b * b + (b - 1) * (b - 1) - 2 * r * r + 4 * a"

lemma decision_off: "decision a b r = 2 * off a b r + 8 * a - 2 * b + 3"
  by (simp add: decision_def off_def algebra_simps)

lemma off_next:
  "off (a + 1) b r = off a b r + 2 * a + 1" "off (a + 1) (b - 1) r = off a b r + 2 * a + 2 - 2 * b"
  by (simp_all add: off_def algebra_simps)

lemma circle_loop_close:
  assumes "0 \<le> a" "b \<le> r" "di = decision a b r" "- b - 2 * a \<le> off a b r" "a \<le> b \<longrightarrow> off a b r \<le> b + 1"
  shows "\<forall>p \<in> set (circle_loop x0 y0 a b di). \<exists>dx dy. p = (word_of_int (uint x0 + dx), word_of_int (uint y0 + dy))
    \<and> \<bar>dx\<bar> \<le> r \<and> \<bar>dy\<bar> \<le> r \<and> - 3 * r \<le> off dx dy r \<and> off dx dy r \<le> r + 1"
  using assms
proof (induction x0 y0 a b di rule: circle_loop.induct)
  case (1 x0 y0 a b di)
  show ?case
  proof (cases "a \<le> b")
    case True
    let ?ok = "\<lambda>p. \<exists>dx dy. p = (word_of_int (uint x0 + dx), word_of_int (uint y0 + dy))
      \<and> \<bar>dx\<bar> \<le> r \<and> \<bar>dy\<bar> \<le> r \<and> - 3 * r \<le> off dx dy r \<and> off dx dy r \<le> r + 1"
    have e: "- 3 * r \<le> off a b r" "off a b r \<le> r + 1" "\<bar>a\<bar> \<le> r" "\<bar>b\<bar> \<le> r" using 1 True by simp_all
    have sym: "off b a r = off a b r" "off (- a) b r = off a b r" "off a (- b) r = off a b r"
      "off (- b) a r = off a b r" "off b (- a) r = off a b r" "off (- a) (- b) r = off a b r"
      "off (- b) (- a) r = off a b r" by (simp_all add: off_def)
    have pt: "?ok (word_of_int (uint x0 + dx), word_of_int (uint y0 + dy))"
      if "\<bar>dx\<bar> \<le> r" "\<bar>dy\<bar> \<le> r" "off dx dy r = off a b r" for dx dy
      using that e by (intro exI [of _ dx] exI [of _ dy]) simp
    have "\<forall>p \<in> set (octants x0 y0 a b). ?ok p"
      unfolding octants_def Let_def list.set ball_simps by (intro conjI pt; use e sym in simp)
    moreover have "\<forall>p \<in> set (circle_loop x0 y0 (a + 1) b (di + 4 * (a + 1) + 6)). ?ok p" if "di < 0"
    proof (rule "1.IH"(1) [OF True refl that])
      show "0 \<le> a + 1" "b \<le> r" using 1 by simp_all
      show "di + 4 * (a + 1) + 6 = decision (a + 1) b r" using 1 by (simp add: decision_def algebra_simps)
      have "2 * off a b r + 8 * a - 2 * b + 3 < 0" using 1 that by (simp add: decision_off)
      then show "a + 1 \<le> b \<longrightarrow> off (a + 1) b r \<le> b + 1" using 1 unfolding off_next by simp
      show "- b - 2 * (a + 1) \<le> off (a + 1) b r" using 1 unfolding off_next by simp
    qed
    moreover have "\<forall>p \<in> set (circle_loop x0 y0 (a + 1) (b - 1) (di + 10 + 4 * (a + 1 - b))). ?ok p" if "\<not> di < 0"
    proof (rule "1.IH"(2) [OF True refl that])
      show "0 \<le> a + 1" "b - 1 \<le> r" using 1 by simp_all
      show "di + 10 + 4 * (a + 1 - b) = decision (a + 1) (b - 1) r" using 1 by (simp add: decision_def algebra_simps)
      have "0 \<le> 2 * off a b r + 8 * a - 2 * b + 3" using 1 that by (simp add: decision_off)
      then show "- (b - 1) - 2 * (a + 1) \<le> off (a + 1) (b - 1) r" unfolding off_next(2) by simp
      show "a + 1 \<le> b - 1 \<longrightarrow> off (a + 1) (b - 1) r \<le> b - 1 + 1" using 1 True unfolding off_next(2) by simp
    qed
    ultimately show ?thesis using True
      by (subst circle_loop.simps) (simp add: Let_def ball_Un)
  qed (subst circle_loop.simps, simp)
qed

text \<open>
  A circle stays in its square and near its radius: every point is an offset \<open>(dx, dy)\<close> of the
  centre with neither part above \<open>r\<close> and \<open>dx * dx + dy * dy\<close> between \<open>r * r - 3 * r\<close> and
  \<open>r * r + r + 1\<close>. The lower bound is not that of Bresenham's circle: the calibration cross of
  radius 6 has the point \<open>(2, 5)\<close>, seven below 36, where \<open>(2, 6)\<close> is four above.
\<close>

theorem LCD_Draw_Circle_is_round:
  "(\<forall>p \<in> set (LCD_Draw_Circle x0 y0 r). \<exists>dx dy. p = (word_of_int (uint x0 + dx), word_of_int (uint y0 + dy))
      \<and> \<bar>dx\<bar> \<le> uint r \<and> \<bar>dy\<bar> \<le> uint r
      \<and> uint r * uint r - 3 * uint r \<le> dx * dx + dy * dy \<and> dx * dx + dy * dy \<le> uint r * uint r + uint r + 1)
   \<and> (100 + 2, 100 + 5) \<in> set (LCD_Draw_Circle 100 100 6) \<and> (100 + 2, 100 + 6) \<notin> set (LCD_Draw_Circle 100 100 6)"
proof (intro conjI)
  have "\<forall>p \<in> set (circle_loop x0 y0 0 (uint r) (3 - 2 * uint r)).
      \<exists>dx dy. p = (word_of_int (uint x0 + dx), word_of_int (uint y0 + dy))
      \<and> \<bar>dx\<bar> \<le> uint r \<and> \<bar>dy\<bar> \<le> uint r \<and> - 3 * uint r \<le> off dx dy (uint r) \<and> off dx dy (uint r) \<le> uint r + 1"
    by (rule circle_loop_close) (simp_all add: decision_def off_def algebra_simps)
  then show "\<forall>p \<in> set (LCD_Draw_Circle x0 y0 r). \<exists>dx dy. p = (word_of_int (uint x0 + dx), word_of_int (uint y0 + dy))
      \<and> \<bar>dx\<bar> \<le> uint r \<and> \<bar>dy\<bar> \<le> uint r
      \<and> uint r * uint r - 3 * uint r \<le> dx * dx + dy * dy \<and> dx * dx + dy * dy \<le> uint r * uint r + uint r + 1"
    unfolding LCD_Draw_Circle_def off_def by (intro ballI) (drule (1) bspec, auto simp: algebra_simps)
  have "LCD_Draw_Circle 100 100 6 = octants 100 100 0 6 @ octants 100 100 1 6 @ octants 100 100 2 5
      @ octants 100 100 3 5 @ octants 100 100 4 4"
    by (simp add: LCD_Draw_Circle_def circle_loop.simps)
  then show "(100 + 2, 100 + 5) \<in> set (LCD_Draw_Circle 100 100 6)" "(100 + 2, 100 + 6) \<notin> set (LCD_Draw_Circle 100 100 6)"
    by (simp_all add: octants_def)
qed

theorem LCD_Draw_Circle_is_round_witness:
  "\<exists>dx dy. ((102, 105) :: point) = (word_of_int (100 + dx), word_of_int (100 + dy)) \<and> \<bar>dx\<bar> \<le> 6 \<and> \<bar>dy\<bar> \<le> 6
     \<and> 18 \<le> dx * dx + dy * dy \<and> dx * dx + dy * dy \<le> 43"
proof -
  have p: "((102, 105) :: point) \<in> set (LCD_Draw_Circle 100 100 6)"
    using LCD_Draw_Circle_is_round [of 100 100 6] by simp
  show ?thesis using bspec [OF conjunct1 [OF LCD_Draw_Circle_is_round [of 100 100 6]] p] by simp
qed

section \<open>Areas\<close>

lemma fill_rows_end:
  assumes "fill_rows sx ey xlen i = Some rows"
  shows "ey \<noteq> 0xFFFF"
  using assms
proof (rule fill_rows.raw_induct [where P = "\<lambda>sx ey xlen i rows. ey \<noteq> 0xFFFF", rotated])
  fix f and sx ey xlen i :: u16 and rows
  assume ih: "\<And>sx ey xlen i rows. f sx ey xlen i = Some rows \<Longrightarrow> ey \<noteq> 0xFFFF"
    and step: "(if i \<le> ey then Option.bind (f sx ey xlen (i + 1)) (\<lambda>rows. Some (((sx, i), unat xlen) # rows))
      else Some []) = Some rows"
  have le: "unat i \<le> 65535" using unat_u16_lt [of i] by linarith
  show "ey \<noteq> 0xFFFF"
    using step ih by (auto simp: word_le_nat_alt le split: if_splits bind_splits)
qed

lemma fill_rows_rows:
  assumes "unat i \<le> unat ey + 1" "ey \<noteq> 0xFFFF"
  shows "fill_rows sx ey xlen i = Some (map (\<lambda>k. ((sx, of_nat k), unat xlen)) [unat i..<unat ey + 1])"
  using assms(1)
proof (induction "unat ey + 1 - unat i" arbitrary: i)
  case 0
  then have "\<not> i \<le> ey" by (simp add: word_le_nat_alt)
  with 0 show ?case by (subst fill_rows.simps) simp
next
  case (Suc n)
  have "unat ey \<noteq> 65535" using assms(2) by (simp add: word_eq_iff_unsigned [where ?'a = nat])
  then have ey: "unat ey < 65535" using unat_u16_lt [of ey] by linarith
  have i: "unat i \<le> unat ey" using Suc.hyps(2) by simp
  then have i1: "unat (i + 1) = unat i + 1" using ey by (intro unat_suc_u16) linarith
  have "fill_rows sx ey xlen (i + 1) = Some (map (\<lambda>k. ((sx, of_nat k), unat xlen)) [unat (i + 1)..<unat ey + 1])"
    using Suc i i1 by (intro Suc.hyps(1)) simp_all
  then show ?case
    using i by (subst fill_rows.simps) (simp add: word_le_nat_alt i1 upt_conv_Cons del: upt_Suc)
qed

text \<open>
  \<open>LCD_Fill\<close> covers exactly the rectangle, row by row, when the last row is not 65535; with
  that row its 16-bit counter never passes the limit and the call does not return.
\<close>

theorem LCD_Fill_covers_the_rectangle:
  assumes "sx \<le> ex" and "sy \<le> ey"
  shows "LCD_Fill sx sy ex ey = (if ey = 0xFFFF then None
    else Some (map (\<lambda>k. ((sx, of_nat k), if unat ex - unat sx = 65535 then 0 else unat ex - unat sx + 1))
      [unat sy..<unat ey + 1]))"
proof (cases "ey = 0xFFFF")
  case True
  then show ?thesis using fill_rows_end [of sx ey "ex - sx + 1" sy] by (cases "LCD_Fill sx sy ex ey") (auto simp: LCD_Fill_def)
next
  case False
  have "unat (ex - sx + 1) = (if unat ex - unat sx = 65535 then 0 else unat ex - unat sx + 1)"
  proof -
    have "unat (ex - sx) = unat ex - unat sx" using assms(1) by (simp add: unat_sub word_le_nat_alt)
    moreover have "unat ex - unat sx < 65536" using unat_u16_lt [of ex] by linarith
    ultimately show ?thesis by (cases "unat ex - unat sx = 65535") (simp_all add: unat_word_ariths)
  qed
  moreover have "unat sy \<le> unat ey + 1" using assms(2) by (simp add: word_le_nat_alt)
  ultimately show ?thesis using False by (simp add: LCD_Fill_def fill_rows_rows)
qed

theorem LCD_Fill_covers_the_rectangle_witness:
  "LCD_Fill 3 7 5 8 = Some [((3, 7), 3), ((3, 8), 3)] \<and> LCD_Fill 0 0 239 0xFFFF = None"
  using LCD_Fill_covers_the_rectangle [of 3 5 7 8] LCD_Fill_covers_the_rectangle [of 0 239 0 "0xFFFF"]
  by (simp add: upt_rec)

end
