(* ===== verification/Display_Facts.thy ===== *)
theory Display_Facts
  imports Lcd_Driver Lcd_Facts
begin

text \<open>
  The driver of the display against its controller. What the data sheet of the controllers with the
  command set 2A, 2B, 2C promises is the locale \<open>display\<close>: after the two start coordinates and the
  write command, values fill the window from there to its end, column by column and row by row.
  A working controller satisfies it. From it the points of the drawing primitives reach the
  picture memory.
\<close>

section \<open>The controller\<close>

definition cursor :: "u16 \<Rightarrow> u16 \<Rightarrow> bus_write list" where
  "cursor x y = Reg 0x2A # data16 x @ Reg 0x2B # data16 y"

text \<open>Which of the values written from \<open>(x, y)\<close> on arrives at a point; \<open>e\<close> is the last column.\<close>

definition arrival :: "nat \<Rightarrow> point \<Rightarrow> point \<Rightarrow> nat" where
  "arrival e start p = (unat (snd p) - unat (snd start)) * (e + 1 - unat (fst start)) + (unat (fst p) - unat (fst start))"

definition covered :: "nat \<Rightarrow> point \<Rightarrow> nat \<Rightarrow> point \<Rightarrow> bool" where
  "covered e start n p \<longleftrightarrow> unat (fst start) \<le> unat (fst p) \<and> unat (fst p) \<le> e \<and> unat (snd start) \<le> unat (snd p)
     \<and> arrival e start p < n"

locale display =
  fixes gram :: "bus_write list \<Rightarrow> point \<Rightarrow> u16"
    and end_column :: "bus_write list \<Rightarrow> nat"
    and end_page :: "bus_write list \<Rightarrow> nat"
  assumes run: "unat x \<le> end_column h \<Longrightarrow> unat y \<le> end_page h \<Longrightarrow>
      length cs \<le> (end_page h + 1 - unat y) * (end_column h + 1 - unat x) \<Longrightarrow>
      gram (h @ cursor x y @ Reg 0x2C # map Ram cs) p =
        (if covered (end_column h) (x, y) (length cs) p then cs ! arrival (end_column h) (x, y) p else gram h p)"
    and run_window: "end_column (h @ cursor x y @ Reg 0x2C # map Ram cs) = end_column h"
      "end_page (h @ cursor x y @ Reg 0x2C # map Ram cs) = end_page h"

text \<open>The driver's parameters for such a controller, with the window of the whole screen.\<close>

definition drives :: "lcd_dev \<Rightarrow> bool" where
  "drives l \<longleftrightarrow> (ident l = 0x9341 \<or> ident l = 0x5310) \<and> setxcmd l = 0x2A \<and> setycmd l = 0x2B \<and> wramcmd l = 0x2C
     \<and> width l \<noteq> 0 \<and> height l \<noteq> 0"

lemma LCD_SetCursor_drives: "drives l \<Longrightarrow> LCD_SetCursor l x y = cursor x y"
  by (auto simp: drives_def LCD_SetCursor_def cursor_def LCD_WR_REG_def)

lemma covered_point:
  assumes "unat x \<le> e"
  shows "covered e (x, y) 1 p \<longleftrightarrow> p = (x, y)"
proof
  assume c: "covered e (x, y) 1 p"
  then have z: "(unat (snd p) - unat y) * (e + 1 - unat x) = 0" "unat (fst p) - unat x = 0"
    and le: "unat x \<le> unat (fst p)" "unat y \<le> unat (snd p)"
    by (simp_all only: covered_def arrival_def fst_conv snd_conv less_one add_is_0)
  from z(1) assms have "unat (snd p) - unat y = 0" by simp
  with z(2) le have "unat (fst p) = unat x" "unat (snd p) = unat y" by linarith+
  then show "p = (x, y)" by (metis prod.collapse unsigned_word_eqI)
next
  assume "p = (x, y)"
  with assms show "covered e (x, y) 1 p" by (simp add: covered_def arrival_def)
qed

text \<open>The controller's window is the whole screen of the driver.\<close>

definition shows_on :: "(bus_write list \<Rightarrow> nat) \<Rightarrow> (bus_write list \<Rightarrow> nat) \<Rightarrow> lcd_dev \<Rightarrow> bus_write list \<Rightarrow> bool" where
  "shows_on end_column end_page l h \<longleftrightarrow>
     drives l \<and> end_column h + 1 = unat (width l) \<and> end_page h + 1 = unat (height l)"

definition draws :: "lcd_dev \<Rightarrow> u32 \<Rightarrow> point list \<Rightarrow> bus_write list" where
  "draws l c ps = concat (map (\<lambda>(x, y). LCD_DrawPoint l c x y) ps)"

lemma row_major: "x < w \<Longrightarrow> (y * w + x < k * w) = (y < (k :: nat))"
proof
  assume "y < k" and x: "x < w"
  then have "(y + 1) * w \<le> k * w" by (intro mult_right_mono) simp_all
  with x show "y * w + x < k * w" by simp
next
  assume l: "y * w + x < k * w"
  show "y < k"
  proof (rule ccontr)
    assume "\<not> y < k"
    then have "k * w \<le> y * w" by (intro mult_right_mono) simp_all
    with l show False by simp
  qed
qed

context display
begin

lemma point_drawn:
  assumes "shows_on end_column end_page l h" and "x < width l" and "y < height l"
  shows "gram (h @ LCD_DrawPoint l c x y) = (gram h)((x, y) := ucast c)" and "shows_on end_column end_page l (h @ LCD_DrawPoint l c x y)"
proof -
  have d: "LCD_DrawPoint l c x y = cursor x y @ Reg 0x2C # map Ram [ucast c]"
    using assms(1) by (simp add: LCD_DrawPoint_def LCD_SetCursor_drives LCD_WriteRAM_Prepare_def shows_on_def drives_def)
  have b: "unat x \<le> end_column h" "unat y \<le> end_page h"
    using assms by (simp_all add: shows_on_def word_less_nat_alt)
  then have "length [ucast c :: u16] \<le> (end_page h + 1 - unat y) * (end_column h + 1 - unat x)"
    by (simp add: Suc_diff_le)
  from run [OF b this] show "gram (h @ LCD_DrawPoint l c x y) = (gram h)((x, y) := ucast c)"
    unfolding d by (intro ext) (simp add: covered_point [OF b(1), unfolded One_nat_def] arrival_def)
  show "shows_on end_column end_page l (h @ LCD_DrawPoint l c x y)"
    using assms(1) unfolding d shows_on_def run_window .
qed

lemma points_drawn:
  assumes "shows_on end_column end_page l h" and "\<forall>(x, y) \<in> set ps. x < width l \<and> y < height l"
  shows "gram (h @ draws l c ps) = (\<lambda>p. if p \<in> set ps then ucast c else gram h p) \<and> shows_on end_column end_page l (h @ draws l c ps)"
  using assms
proof (induction ps rule: rev_induct)
  case (snoc p ps)
  obtain x y where p: "p = (x, y)" by fastforce
  have ih: "gram (h @ draws l c ps) = (\<lambda>p. if p \<in> set ps then ucast c else gram h p)" "shows_on end_column end_page l (h @ draws l c ps)"
    using snoc by simp_all
  have xy: "x < width l" "y < height l" using snoc.prems(2) p by simp_all
  show ?case
    using point_drawn [OF ih(2) xy, of c] ih(1) by (auto simp: draws_def p)
qed (simp add: draws_def)

lemma screen_cleared:
  assumes "shows_on end_column end_page l h"
  shows "gram (h @ LCD_Clear l c) = (\<lambda>p. if fst p < width l \<and> snd p < height l then ucast c else gram h p)"
    and "shows_on end_column end_page l (h @ LCD_Clear l c)"
proof -
  define n where "n = unat (width l) * unat (height l)"
  have "unat (width l) * unat (height l) \<le> 65535 * 65535"
    by (intro mult_mono) (use unat_u16_lt [of "width l"] unat_u16_lt [of "height l"] in linarith)+
  moreover have "take_bit 32 (unat (w :: u16)) = unat w" for w
    by (rule take_bit_nat_eq_self) (rule order_less_trans [OF unat_u16_lt], simp)
  ultimately have n: "unat (ucast (width l) * ucast (height l) :: u32) = n"
    by (simp add: n_def unat_word_ariths unsigned_ucast_eq)
  have d: "LCD_Clear l c = cursor 0 0 @ Reg 0x2C # map Ram (replicate n (ucast c))"
    using assms by (simp add: LCD_Clear_def LCD_SetCursor_drives LCD_WriteRAM_Prepare_def shows_on_def drives_def n)
  have e: "end_column h + 1 = unat (width l)" "end_page h + 1 = unat (height l)"
    using assms by (simp_all add: shows_on_def)
  have len: "length (replicate n (ucast c :: u16)) \<le> (end_page h + 1 - unat (0 :: u16)) * (end_column h + 1 - unat (0 :: u16))"
    by (simp add: n_def e [symmetric])
  have cov: "covered (end_column h) (0, 0) n p = (fst p < width l \<and> snd p < height l)" for p
  proof -
    have le: "(unat (fst p) \<le> end_column h) = (unat (fst p) < unat (width l))" using e by auto
    have "covered (end_column h) (0, 0) n p = (unat (fst p) < unat (width l)
        \<and> unat (snd p) * unat (width l) + unat (fst p) < unat (height l) * unat (width l))"
      by (simp add: covered_def arrival_def le e(1) [unfolded Suc_eq_plus1 [symmetric]] n_def mult.commute
        del: mult_Suc mult_Suc_right)
    then show ?thesis by (auto simp: row_major word_less_nat_alt)
  qed
  have "gram (h @ LCD_Clear l c) p = (if fst p < width l \<and> snd p < height l then ucast c else gram h p)" for p
  proof -
    have "arrival (end_column h) (0, 0) p < n" if "covered (end_column h) (0, 0) n p"
      using that by (simp add: covered_def)
    then show ?thesis
      unfolding d using run [OF _ _ len, of p] by (auto simp: cov)
  qed
  then show "gram (h @ LCD_Clear l c) = (\<lambda>p. if fst p < width l \<and> snd p < height l then ucast c else gram h p)" by blast
  show "shows_on end_column end_page l (h @ LCD_Clear l c)"
    using assms unfolding d shows_on_def run_window .
qed

end

section \<open>A working controller\<close>

record controller =
  command :: u16
  index :: nat
  sc :: u16
  ec :: u16
  sp :: u16
  ep :: u16
  col :: u16
  page :: u16
  picture :: "point \<Rightarrow> u16"

definition byte_in :: "bool \<Rightarrow> u16 \<Rightarrow> u16 \<Rightarrow> u16" where
  "byte_in upper old v = (if upper then or (push_bit 8 v) (and old 0xFF) else or (and old 0xFF00) (and v 0xFF))"

definition parameter :: "nat \<Rightarrow> u16 \<Rightarrow> u16 \<times> u16 \<Rightarrow> u16 \<times> u16" where
  "parameter i v se =
     (if i < 2 then (byte_in (i = 0) (fst se) v, snd se)
      else if i < 4 then (fst se, byte_in (i = 2) (snd se) v) else se)"

fun controller_step :: "controller \<Rightarrow> bus_write \<Rightarrow> controller" where
  "controller_step s (Reg c) =
     (if c = 0x2C then s \<lparr> command := c, index := 0, col := sc s, page := sp s \<rparr>
      else s \<lparr> command := c, index := 0 \<rparr>)"
| "controller_step s (Ram v) =
     (if command s = 0x2A
      then s \<lparr> index := index s + 1, sc := fst (parameter (index s) v (sc s, ec s)), ec := snd (parameter (index s) v (sc s, ec s)) \<rparr>
      else if command s = 0x2B
      then s \<lparr> index := index s + 1, sp := fst (parameter (index s) v (sp s, ep s)), ep := snd (parameter (index s) v (sp s, ep s)) \<rparr>
      else if command s = 0x2C
      then s \<lparr> picture := (picture s)((col s, page s) := v),
               col := (if col s = ec s then sc s else col s + 1),
               page := (if col s = ec s then if page s = ep s then sp s else page s + 1 else page s) \<rparr>
      else s)"

definition panel_9341 :: "bus_write list \<Rightarrow> controller" where
  "panel_9341 h = foldl controller_step
     \<lparr> command = 0, index = 0, sc = 0, ec = 239, sp = 0, ep = 319, col = 0, page = 0, picture = (\<lambda>_. 0) \<rparr> h"

lemma byte_in_both: "byte_in False (byte_in True old (high_byte v)) (low_byte_of v) = v"
proof -
  have m: "(0xFF00 :: u16) = push_bit 8 (mask 8)" "(0xFF :: u16) = mask 8" by (simp_all add: mask_eq_exp_minus_1)
  show ?thesis unfolding byte_in_def high_byte_def low_byte_of_def m
    by (rule bit_eqI) (auto simp: bit_simps)
qed

lemma after_cursor:
  "foldl controller_step s (cursor x y @ [Reg 0x2C])
    = s \<lparr> command := 0x2C, index := 0, sc := x, sp := y, col := x, page := y \<rparr>"
  by (cases s) (simp add: cursor_def data16_def LCD_WR_DATA_def parameter_def byte_in_both)

lemma next_pixel:
  assumes "n mod w = w - 1" "0 < (w :: nat)"
  shows "Suc n mod w = 0" "Suc n div w = Suc (n div w)"
proof -
  have "Suc n = (n div w + 1) * w" using assms by (metis Suc_diff_1 add.commute add_Suc_right distrib_right div_mult_mod_eq mult_1)
  then show "Suc n mod w = 0" "Suc n div w = Suc (n div w)" using assms(2) by simp_all
qed

lemma covered_Suc:
  assumes "unat x + n mod w = unat a" "unat y + n div w = unat b" "w = e + 1 - unat x" "0 < w"
  shows "covered e (x, y) (Suc n) p = (covered e (x, y) n p \<or> p = (a, b))" "arrival e (x, y) (a, b) = n"
    "\<not> covered e (x, y) n (a, b)"
proof -
  show arr: "arrival e (x, y) (a, b) = n"
    by (simp only: arrival_def fst_conv snd_conv assms(1,2) [symmetric] assms(3) [symmetric]) simp
  then show "\<not> covered e (x, y) n (a, b)" by (simp add: covered_def)
  have ab: "covered e (x, y) (Suc n) (a, b)"
  proof -
    have "n mod w < w" using assms(4) by simp
    then have "unat a \<le> e" using assms(1,3) by linarith
    then show ?thesis using arr assms(1,2) by (simp add: covered_def)
  qed
  have "p = (a, b)" if c: "covered e (x, y) (Suc n) p" "\<not> covered e (x, y) n p"
  proof -
    have "arrival e (x, y) p = n" using c by (auto simp: covered_def)
    then have r: "(unat (snd p) - unat y) * w + (unat (fst p) - unat x) = n"
      by (simp add: arrival_def assms(3))
    have le: "unat x \<le> unat (fst p)" "unat (fst p) \<le> e" "unat y \<le> unat (snd p)"
      using c(1) by (simp_all add: covered_def)
    then have "unat (fst p) - unat x < w" using assms(3,4) by linarith
    then have "n mod w = unat (fst p) - unat x" "n div w = unat (snd p) - unat y"
      using r assms(4) by auto
    with le assms(1,2) have "unat (fst p) = unat a" "unat (snd p) = unat b" by linarith+
    then show ?thesis by (metis prod.collapse unsigned_word_eqI)
  qed
  with ab show "covered e (x, y) (Suc n) p = (covered e (x, y) n p \<or> p = (a, b))"
    by (auto simp: covered_def)
qed

lemma written:
  assumes "command s = 0x2C" "col s = sc s" "page s = sp s" "unat (sc s) \<le> unat (ec s)" "unat (sp s) \<le> unat (ep s)"
  defines "w \<equiv> unat (ec s) + 1 - unat (sc s)"
  assumes "length cs \<le> (unat (ep s) + 1 - unat (sp s)) * w"
  shows "\<exists>c p. foldl controller_step s (map Ram cs) = s \<lparr> picture := (\<lambda>q.
        if covered (unat (ec s)) (sc s, sp s) (length cs) q then cs ! arrival (unat (ec s)) (sc s, sp s) q else picture s q),
      col := c, page := p \<rparr>
    \<and> (length cs < (unat (ep s) + 1 - unat (sp s)) * w \<longrightarrow>
         unat c = unat (sc s) + length cs mod w \<and> unat p = unat (sp s) + length cs div w)"
  using assms(7)
proof (induction cs rule: rev_induct)
  case Nil
  have "\<not> covered (unat (ec s)) (sc s, sp s) 0 q" for q by (simp add: covered_def)
  then show ?case using assms(2,3) by (intro exI [of _ "col s"] exI [of _ "page s"]) simp
next
  case (snoc v cs)
  let ?n = "length cs" and ?e = "unat (ec s)" and ?start = "(sc s, sp s)"
  have w: "0 < w" using assms(4) by (simp add: w_def)
  have n: "?n < (unat (ep s) + 1 - unat (sp s)) * w" using snoc.prems by simp
  from snoc.IH obtain c p where ih: "foldl controller_step s (map Ram cs) = s \<lparr> picture := (\<lambda>q.
        if covered ?e ?start ?n q then cs ! arrival ?e ?start q else picture s q), col := c, page := p \<rparr>"
    "unat c = unat (sc s) + ?n mod w" "unat p = unat (sp s) + ?n div w"
    using n by auto
  note cov = covered_Suc [OF ih(2) [symmetric] ih(3) [symmetric] w_def [THEN meta_eq_to_obj_eq] w]
  have pic: "(\<lambda>q. if covered ?e ?start ?n q then cs ! arrival ?e ?start q else picture s q)((c, p) := v)
      = (\<lambda>q. if covered ?e ?start (Suc ?n) q then (cs @ [v]) ! arrival ?e ?start q else picture s q)"
    using cov by (intro ext) (auto simp: nth_append covered_def)
  define c' where "c' = (if c = ec s then sc s else c + 1)"
  define p' where "p' = (if c = ec s then if p = ep s then sp s else p + 1 else p)"
  have "foldl controller_step s (map Ram (cs @ [v])) = controller_step (foldl controller_step s (map Ram cs)) (Ram v)"
    by simp
  also have "\<dots> = s \<lparr> picture := (\<lambda>q. if covered ?e ?start (Suc ?n) q then (cs @ [v]) ! arrival ?e ?start q else picture s q),
      col := c', page := p' \<rparr>"
    unfolding ih(1) pic [symmetric] using assms(1) by (cases s) (simp add: c'_def p'_def)
  moreover have "unat c' = unat (sc s) + Suc ?n mod w \<and> unat p' = unat (sp s) + Suc ?n div w"
    if more: "Suc ?n < (unat (ep s) + 1 - unat (sp s)) * w"
  proof (cases "c = ec s")
    case True
    then have m: "?n mod w = w - 1" using ih(2) assms(4) by (simp add: w_def)
    have "Suc ?n div w < unat (ep s) + 1 - unat (sp s)" using more w by (simp add: div_less_iff_less_mult)
    then have "unat p < unat (ep s)" using ih(3) next_pixel(2) [OF m w] assms(5) by simp
    moreover then have "p \<noteq> ep s" by auto
    moreover from \<open>unat p < unat (ep s)\<close> have "unat (p + 1) = unat p + 1"
      using unat_u16_lt [of "ep s"] by (intro unat_suc_u16) linarith
    ultimately show ?thesis using True next_pixel [OF m w] ih(3) by (simp add: c'_def p'_def)
  next
    case False
    have "?n mod w < w" "w = unat (ec s) + 1 - unat (sc s)" using w by (simp_all add: w_def)
    then have "unat c \<le> unat (ec s)" using ih(2) assms(4) by linarith
    moreover have "unat c \<noteq> unat (ec s)" using False by (metis unsigned_word_eqI)
    ultimately have lt: "unat c < unat (ec s)" by simp
    then have "unat (c + 1) = unat c + 1" using unat_u16_lt [of "ec s"] by (intro unat_suc_u16) linarith
    moreover have "Suc (?n mod w) \<noteq> w"
      using lt ih(2) assms(4) \<open>w = unat (ec s) + 1 - unat (sc s)\<close> by linarith
    ultimately show ?thesis using False ih(2,3) by (simp add: c'_def p'_def mod_Suc div_Suc)
  qed
  ultimately show ?case by (intro exI [of _ c'] exI [of _ p']) simp
qed

lemma ram_keeps: "command s = 0x2C \<Longrightarrow> ec (foldl controller_step s (map Ram cs)) = ec s
    \<and> ep (foldl controller_step s (map Ram cs)) = ep s"
  by (induction cs arbitrary: s) simp_all

interpretation c9341: display "\<lambda>h. picture (panel_9341 h)" "\<lambda>h. unat (ec (panel_9341 h))" "\<lambda>h. unat (ep (panel_9341 h))"
proof
  fix x y :: u16 and h cs p
  define s where "s = panel_9341 h"
  define t where "t = s \<lparr> command := 0x2C, index := 0, sc := x, sp := y, col := x, page := y \<rparr>"
  have run: "panel_9341 (h @ cursor x y @ Reg 0x2C # map Ram cs) = foldl controller_step t (map Ram cs)"
  proof -
    have "panel_9341 (h @ cursor x y @ Reg 0x2C # map Ram cs)
        = foldl controller_step (foldl controller_step s (cursor x y @ [Reg 0x2C])) (map Ram cs)"
      by (simp add: panel_9341_def s_def)
    then show ?thesis unfolding after_cursor t_def .
  qed
  show "picture (panel_9341 (h @ cursor x y @ Reg 0x2C # map Ram cs)) p =
      (if covered (unat (ec (panel_9341 h))) (x, y) (length cs) p then cs ! arrival (unat (ec (panel_9341 h))) (x, y) p
       else picture (panel_9341 h) p)"
    if "unat x \<le> unat (ec (panel_9341 h))" "unat y \<le> unat (ep (panel_9341 h))"
      "length cs \<le> (unat (ep (panel_9341 h)) + 1 - unat y) * (unat (ec (panel_9341 h)) + 1 - unat x)"
    unfolding run using written [of t cs] that by (auto simp: t_def s_def)
  show "unat (ec (panel_9341 (h @ cursor x y @ Reg 0x2C # map Ram cs))) = unat (ec (panel_9341 h))"
    and "unat (ep (panel_9341 (h @ cursor x y @ Reg 0x2C # map Ram cs))) = unat (ep (panel_9341 h))"
    unfolding run using ram_keeps [of t cs] by (simp_all add: t_def s_def)
qed

section \<open>Properties\<close>

text \<open>
  C39. What is drawn reaches the picture memory: on a controller that keeps the promises of its data
  sheet, clearing the screen and then drawing a line between two points of it sets exactly the
  points of the line to the ink and every other point of the screen to the background, and nothing
  outside the screen.
\<close>

theorem drawing_reaches_the_screen:
  assumes dsp: "display gram end_column end_page" and sh: "shows_on end_column end_page l h"
    and "x1 < width l" "x2 < width l" "y1 < height l" "y2 < height l"
    and short: "max \<bar>uint x2 - uint x1\<bar> \<bar>uint y2 - uint y1\<bar> < 65534"
  shows "\<exists>ps. LCD_DrawLine x1 y1 x2 y2 = Some ps \<and> {(x1, y1), (x2, y2)} \<subseteq> set ps
    \<and> gram (h @ LCD_Clear l paper @ draws l ink ps)
      = (\<lambda>p. if p \<in> set ps then ucast ink else if fst p < width l \<and> snd p < height l then ucast paper else gram h p)"
proof -
  obtain ps where ps: "LCD_DrawLine x1 y1 x2 y2 = Some ps" "hd ps = (x1, y1)" "last ps = (x2, y2)"
    and len: "length ps = nat (max \<bar>uint x2 - uint x1\<bar> \<bar>uint y2 - uint y1\<bar>) + 2"
    and box: "\<forall>(x, y) \<in> set ps. min x1 x2 \<le> x \<and> x \<le> max x1 x2 \<and> min y1 y2 \<le> y \<and> y \<le> max y1 y2"
    using line_joins [OF short] by blast
  have ne: "ps \<noteq> []" using len by auto
  have m: "max x1 x2 < width l" "max y1 y2 < height l" using assms(3-6) by (simp_all add: max_def)
  have on: "\<forall>(x, y) \<in> set ps. x < width l \<and> y < height l"
    using box by (auto intro: order_le_less_trans [OF _ m(1)] order_le_less_trans [OF _ m(2)])
  have ends: "{(x1, y1), (x2, y2)} \<subseteq> set ps"
    using ps(2,3) ne by (metis empty_subsetI hd_in_set insert_subset last_in_set)
  note clear = display.screen_cleared [OF dsp sh, of paper]
  have "gram ((h @ LCD_Clear l paper) @ draws l ink ps)
      = (\<lambda>p. if p \<in> set ps then ucast ink else gram (h @ LCD_Clear l paper) p)"
    using display.points_drawn [OF dsp clear(2) on, of ink] by simp
  then have "gram (h @ LCD_Clear l paper @ draws l ink ps)
      = (\<lambda>p. if p \<in> set ps then ucast ink else if fst p < width l \<and> snd p < height l then ucast paper else gram h p)"
    unfolding clear(1) append_assoc .
  with ps(1) ends show ?thesis by blast
qed

theorem drawing_reaches_the_screen_witness:
  "\<exists>ps. LCD_DrawLine 1 2 3 4 = Some ps \<and> picture (panel_9341 (LCD_Clear
      \<lparr> width = 240, height = 320, ident = 0x9341, dir = 0, wramcmd = 0x2C, setxcmd = 0x2A, setycmd = 0x2B \<rparr> 0xFFFF
    @ draws \<lparr> width = 240, height = 320, ident = 0x9341, dir = 0, wramcmd = 0x2C, setxcmd = 0x2A, setycmd = 0x2B \<rparr> 0 ps)) (3, 4) = 0"
proof -
  have "shows_on (\<lambda>h. unat (ec (panel_9341 h))) (\<lambda>h. unat (ep (panel_9341 h)))
      \<lparr> width = 240, height = 320, ident = 0x9341, dir = 0, wramcmd = 0x2C, setxcmd = 0x2A, setycmd = 0x2B \<rparr> []"
    by (simp add: shows_on_def drives_def panel_9341_def)
  from drawing_reaches_the_screen [OF c9341.display_axioms this, of 1 3 2 4 "0xFFFF" 0] show ?thesis by auto
qed

text \<open>
  On three of the four controller families the fast way to set a point makes exactly the register
  writes of the slow one; on the fourth (identity 0x1963) the two agree on where the window starts
  but the fast way also closes the window behind the point.
\<close>

theorem LCD_Fast_DrawPoint_is_LCD_DrawPoint:
  "(ident l \<noteq> 0x1963 \<longrightarrow> LCD_Fast_DrawPoint l x y color = LCD_DrawPoint l color x y)
   \<and> (ident l = 0x1963 \<and> dir l \<noteq> 0 \<longrightarrow>
       LCD_Fast_DrawPoint l x y color
         = Reg (setxcmd l) # data16 x @ data16 x @ Reg (setycmd l) # data16 y @ data16 y @ [Reg (wramcmd l), Ram (ucast color)]
       \<and> LCD_DrawPoint l color x y
         = Reg (setxcmd l) # data16 x @ data16 (width l - 1) @ Reg (setycmd l) # data16 y @ data16 (height l - 1)
           @ [Reg (wramcmd l), Ram (ucast color)])"
  by (auto simp: LCD_Fast_DrawPoint_def LCD_DrawPoint_def LCD_SetCursor_def LCD_WR_REG_def LCD_WriteRAM_Prepare_def)

theorem LCD_Fast_DrawPoint_is_LCD_DrawPoint_witness:
  "LCD_Fast_DrawPoint \<lparr> width = 240, height = 320, ident = 0x9341, dir = 0, wramcmd = 0x2C, setxcmd = 0x2A, setycmd = 0x2B \<rparr> 5 300 0xF800
   = LCD_DrawPoint \<lparr> width = 240, height = 320, ident = 0x9341, dir = 0, wramcmd = 0x2C, setxcmd = 0x2A, setycmd = 0x2B \<rparr> 0xF800 5 300"
  using LCD_Fast_DrawPoint_is_LCD_DrawPoint [of "\<lparr> width = 240, height = 320, ident = 0x9341, dir = 0, wramcmd = 0x2C, setxcmd = 0x2A, setycmd = 0x2B \<rparr>" 5 300 "0xF800"]
  by simp

lemma small_or_big: "(d :: u8) = 0 \<or> d = 1 \<or> 1 < d"
  by (cases "d = 0"; cases "d = 1") (auto simp: word_less_nat_alt word_eq_iff_unsigned [where ?'a = nat])

text \<open>
  \<open>LCD_Display_Dir\<close> puts the display upright for 0 and on its side for 1, with the extent and
  the commands of its controller, whatever they were before; any other direction is on its side
  for the family 0x1963 only, the others keep the extent of an upright display.
\<close>

theorem LCD_Display_Dir_sets_the_extent:
  "(let l' = snd (LCD_Display_Dir d l);
        big = (ident l = 0x5510 \<or> ident l = 0x1963); mid = (ident l = 0x5310);
        short = (if big then 480 else if mid then 320 else 240); long = (if big then 800 else if mid then 480 else 320)
    in (d = 0 \<longrightarrow> width l' = short \<and> height l' = long)
     \<and> (d = 1 \<longrightarrow> width l' = long \<and> height l' = short)
     \<and> (1 < d \<and> (ident l = 0x9341 \<or> ident l = 0x5310 \<or> ident l = 0x5510) \<longrightarrow> width l' = short \<and> height l' = long)
     \<and> (1 < d \<and> ident l = 0x1963 \<longrightarrow> width l' = long \<and> height l' = short)
     \<and> (ident l = 0x9341 \<or> ident l = 0x5310 \<longrightarrow> drives l')
     \<and> dir l' = d \<and> ident l' = ident l)"
proof -
  have d: "d = 0 \<or> d = 1 \<or> 1 < d" by (rule small_or_big)
  then have nz: "d \<noteq> 0 \<and> d \<noteq> 1" if "1 < d" using that by auto
  consider "ident l = 0x9341" | "ident l = 0x5310" | "ident l = 0x5510" | "ident l = 0x1963"
    | "ident l \<noteq> 0x9341" "ident l \<noteq> 0x5310" "ident l \<noteq> 0x5510" "ident l \<noteq> 0x1963" by blast
  then show ?thesis
  proof cases
    case 1
    then show ?thesis using d nz
      by (elim disjE) (simp_all add: LCD_Display_Dir_def LCD_Scan_Dir_def DFT_SCAN_DIR_def turned_dir_def dir_bits_def drives_def)
  next
    case 2
    then show ?thesis using d nz
      by (elim disjE) (simp_all add: LCD_Display_Dir_def LCD_Scan_Dir_def DFT_SCAN_DIR_def turned_dir_def dir_bits_def drives_def)
  next
    case 3
    then show ?thesis using d nz
      by (elim disjE) (simp_all add: LCD_Display_Dir_def LCD_Scan_Dir_def DFT_SCAN_DIR_def turned_dir_def dir_bits_def drives_def)
  next
    case 4
    then show ?thesis using d nz
      by (elim disjE) (simp_all add: LCD_Display_Dir_def LCD_Scan_Dir_def DFT_SCAN_DIR_def turned_dir_def dir_bits_def drives_def)
  next
    case 5
    then show ?thesis using d nz
      by (elim disjE) (simp_all add: LCD_Display_Dir_def LCD_Scan_Dir_def DFT_SCAN_DIR_def)
  qed
qed

theorem LCD_Display_Dir_sets_the_extent_witness:
  "let l' = snd (LCD_Display_Dir 1 \<lparr> width = 0, height = 0, ident = 0x5310, dir = 0, wramcmd = 0, setxcmd = 0, setycmd = 0 \<rparr>)
   in width l' = 480 \<and> height l' = 320 \<and> drives l'"
  using LCD_Display_Dir_sets_the_extent [of 1 "\<lparr> width = 0, height = 0, ident = 0x5310, dir = 0, wramcmd = 0, setxcmd = 0, setycmd = 0 \<rparr>"]
  by (simp add: Let_def)

end
