(* ===== verification/Radio.thy ===== *)
theory Radio
  imports Bits
begin

text \<open>
  The driver of the radio chip (\<open>applications/24l01.c\<close>) on the serial port (\<open>applications/spi.c\<close>).
  What the chip sees of its lines is a list of events: the select line, the enable line and the
  bytes clocked through in the mode it understands. The chip is a parameter: the byte it answers
  with and the level of its interrupt line, after what it has seen.
\<close>

section \<open>The serial port\<close>

datatype spi_event =
    Csn bool          \<comment> \<open>\<open>NRF24L01_CSN\<close>\<close>
  | Ce bool           \<comment> \<open>\<open>NRF24L01_CE\<close>\<close>
  | Byte u8           \<comment> \<open>one byte in the clock mode of the chip\<close>
  | Garbled u8        \<comment> \<open>one byte in another clock mode\<close>
  | Pause             \<comment> \<open>time passes between two calls\<close>

text \<open>
  The handler's fields that change, the control register of the port, and the history of the lines.
\<close>

record spi_port =
  clk_polarity :: u16
  clk_phase :: u16
  cr1 :: u16
  events :: "spi_event list"

type_synonym miso = "spi_event list \<Rightarrow> u8"

definition SPI_DISABLE :: "spi_port \<Rightarrow> spi_port" where
  "SPI_DISABLE s = s \<lparr> cr1 := and (cr1 s) (not 0x40) \<rparr>"

definition SPI_ENABLE :: "spi_port \<Rightarrow> spi_port" where
  "SPI_ENABLE s = s \<lparr> cr1 := or (cr1 s) 0x40 \<rparr>"

text \<open>
  \<open>HAL_SPI_Init\<close> writes the control register from the handler: master (0x104), select by
  software (0x200), divider 256 (0x38), polarity and phase. It leaves the port disabled.
\<close>

definition HAL_SPI_Init :: "spi_port \<Rightarrow> spi_port" where
  "HAL_SPI_Init s = s \<lparr> cr1 := or (or 0x33C (clk_polarity s)) (clk_phase s) \<rparr>"

text \<open>The chip reads its input in mode 0: idle clock low, first edge.\<close>

definition mode_0 :: "spi_port \<Rightarrow> bool" where
  "mode_0 s \<longleftrightarrow> and (cr1 s) 3 = 0"

definition SPI2_ReadWriteByte :: "miso \<Rightarrow> u8 \<Rightarrow> spi_port \<Rightarrow> u8 \<times> spi_port" where
  "SPI2_ReadWriteByte chip TxData s =
     (let s = SPI_ENABLE s
      in (chip (events s), s \<lparr> events := events s @ [if mode_0 s then Byte TxData else Garbled TxData] \<rparr>))"

definition SPI_POLARITY_HIGH :: u16 where "SPI_POLARITY_HIGH = 2"
definition SPI_PHASE_2EDGE :: u16 where "SPI_PHASE_2EDGE = 1"

definition SPI2_Init :: "miso \<Rightarrow> spi_port \<Rightarrow> spi_port" where
  "SPI2_Init chip s =
     (let s = s \<lparr> clk_polarity := SPI_POLARITY_HIGH, clk_phase := SPI_PHASE_2EDGE \<rparr>;
          s = HAL_SPI_Init s;
          s = SPI_ENABLE s
      in snd (SPI2_ReadWriteByte chip 0xFF s))"

definition SPI_BAUDRATEPRESCALER_8 :: u8 where "SPI_BAUDRATEPRESCALER_8 = 0x10"

definition SPI2_SetSpeed :: "u8 \<Rightarrow> spi_port \<Rightarrow> spi_port" where
  "SPI2_SetSpeed p s =
     (let s = SPI_DISABLE s;
          s = s \<lparr> cr1 := and (cr1 s) 0xFFC7 \<rparr>;
          s = s \<lparr> cr1 := or (cr1 s) (ucast p) \<rparr>
      in SPI_ENABLE s)"

definition NRF24L01_SPI_Init :: "spi_port \<Rightarrow> spi_port" where
  "NRF24L01_SPI_Init s =
     (let s = SPI_DISABLE s;
          s = s \<lparr> clk_polarity := 0, clk_phase := 0 \<rparr>;
          s = HAL_SPI_Init s
      in SPI_ENABLE s)"

section \<open>Registers and buffers of the chip\<close>

definition NRF_WRITE_REG :: u8 where "NRF_WRITE_REG = 0x20"
definition RD_RX_PLOAD :: u8 where "RD_RX_PLOAD = 0x61"
definition WR_TX_PLOAD :: u8 where "WR_TX_PLOAD = 0xA0"
definition FLUSH_TX :: u8 where "FLUSH_TX = 0xE1"
definition FLUSH_RX :: u8 where "FLUSH_RX = 0xE2"
definition CONFIG :: u8 where "CONFIG = 0x00"
definition EN_AA :: u8 where "EN_AA = 0x01"
definition EN_RXADDR :: u8 where "EN_RXADDR = 0x02"
definition SETUP_RETR :: u8 where "SETUP_RETR = 0x04"
definition RF_CH :: u8 where "RF_CH = 0x05"
definition RF_SETUP :: u8 where "RF_SETUP = 0x06"
definition STATUS :: u8 where "STATUS = 0x07"
definition MAX_TX :: u8 where "MAX_TX = 0x10"
definition TX_OK :: u8 where "TX_OK = 0x20"
definition RX_OK :: u8 where "RX_OK = 0x40"
definition RX_ADDR_P0 :: u8 where "RX_ADDR_P0 = 0x0A"
definition TX_ADDR :: u8 where "TX_ADDR = 0x10"
definition RX_PW_P0 :: u8 where "RX_PW_P0 = 0x11"
definition TX_ADR_WIDTH :: u8 where "TX_ADR_WIDTH = 5"
definition RX_ADR_WIDTH :: u8 where "RX_ADR_WIDTH = 5"
definition TX_PLOAD_WIDTH :: u8 where "TX_PLOAD_WIDTH = 32"
definition RX_PLOAD_WIDTH :: u8 where "RX_PLOAD_WIDTH = 32"

definition set_csn :: "bool \<Rightarrow> spi_port \<Rightarrow> spi_port" where
  "set_csn v s = s \<lparr> events := events s @ [Csn v] \<rparr>"

definition set_ce :: "bool \<Rightarrow> spi_port \<Rightarrow> spi_port" where
  "set_ce v s = s \<lparr> events := events s @ [Ce v] \<rparr>"

definition NRF24L01_Write_Reg :: "miso \<Rightarrow> u8 \<Rightarrow> u8 \<Rightarrow> spi_port \<Rightarrow> u8 \<times> spi_port" where
  "NRF24L01_Write_Reg chip r value s =
     (let s = set_csn False s;
          (status, s) = SPI2_ReadWriteByte chip r s;
          (_, s) = SPI2_ReadWriteByte chip value s
      in (status, set_csn True s))"

definition NRF24L01_Read_Reg :: "miso \<Rightarrow> u8 \<Rightarrow> spi_port \<Rightarrow> u8 \<times> spi_port" where
  "NRF24L01_Read_Reg chip r s =
     (let s = set_csn False s;
          (_, s) = SPI2_ReadWriteByte chip r s;
          (reg_val, s) = SPI2_ReadWriteByte chip 0xFF s
      in (reg_val, set_csn True s))"

text \<open>A buffer is what its pointer reads at each offset.\<close>

type_synonym buffer = "nat \<Rightarrow> u8"

fun read_bytes_spi :: "miso \<Rightarrow> nat \<Rightarrow> spi_port \<Rightarrow> u8 list \<times> spi_port" where
  "read_bytes_spi chip 0 s = ([], s)"
| "read_bytes_spi chip (Suc n) s =
     (let (b, s) = SPI2_ReadWriteByte chip 0xFF s; (bs, s) = read_bytes_spi chip n s in (b # bs, s))"

definition NRF24L01_Read_Buf :: "miso \<Rightarrow> u8 \<Rightarrow> u8 \<Rightarrow> spi_port \<Rightarrow> u8 \<times> u8 list \<times> spi_port" where
  "NRF24L01_Read_Buf chip r len s =
     (let s = set_csn False s;
          (status, s) = SPI2_ReadWriteByte chip r s;
          (bs, s) = read_bytes_spi chip (unat len) s
      in (status, bs, set_csn True s))"

fun write_bytes_spi :: "miso \<Rightarrow> u8 list \<Rightarrow> spi_port \<Rightarrow> spi_port" where
  "write_bytes_spi chip [] s = s"
| "write_bytes_spi chip (b # bs) s = write_bytes_spi chip bs (snd (SPI2_ReadWriteByte chip b s))"

definition NRF24L01_Write_Buf :: "miso \<Rightarrow> u8 \<Rightarrow> buffer \<Rightarrow> u8 \<Rightarrow> spi_port \<Rightarrow> u8 \<times> spi_port" where
  "NRF24L01_Write_Buf chip r pBuf len s =
     (let s = set_csn False s;
          (status, s) = SPI2_ReadWriteByte chip r s;
          s = write_bytes_spi chip (map pBuf [0..<unat len]) s
      in (status, set_csn True s))"

section \<open>Modes and packets\<close>

definition TX_ADDRESS :: buffer where "TX_ADDRESS i = [0xFF, 0xFF, 0xFF, 0xFF, 0xFF] ! i"
definition RX_ADDRESS :: buffer where "RX_ADDRESS i = [0xFF, 0xFF, 0xFF, 0xFF, 0xFF] ! i"

definition write_reg :: "miso \<Rightarrow> u8 \<Rightarrow> u8 \<Rightarrow> spi_port \<Rightarrow> spi_port" where
  "write_reg chip r v s = snd (NRF24L01_Write_Reg chip (NRF_WRITE_REG + r) v s)"

definition write_address :: "miso \<Rightarrow> u8 \<Rightarrow> buffer \<Rightarrow> u8 \<Rightarrow> spi_port \<Rightarrow> spi_port" where
  "write_address chip r a w s = snd (NRF24L01_Write_Buf chip (NRF_WRITE_REG + r) a w s)"

definition NRF24L01_RX_Mode :: "miso \<Rightarrow> spi_port \<Rightarrow> spi_port" where
  "NRF24L01_RX_Mode chip s =
     (let s = set_ce False s;
          s = write_address chip RX_ADDR_P0 RX_ADDRESS RX_ADR_WIDTH s;
          s = write_reg chip EN_AA 0x01 s;
          s = write_reg chip EN_RXADDR 0x01 s;
          s = write_reg chip RF_CH 0 s;
          s = write_reg chip RX_PW_P0 RX_PLOAD_WIDTH s;
          s = write_reg chip RF_SETUP 0x0F s;
          s = write_reg chip CONFIG 0x0F s
      in set_ce True s)"

definition NRF24L01_TX_Mode :: "miso \<Rightarrow> spi_port \<Rightarrow> spi_port" where
  "NRF24L01_TX_Mode chip s =
     (let s = set_ce False s;
          s = write_address chip TX_ADDR TX_ADDRESS TX_ADR_WIDTH s;
          s = write_address chip RX_ADDR_P0 RX_ADDRESS RX_ADR_WIDTH s;
          s = write_reg chip EN_AA 0x01 s;
          s = write_reg chip EN_RXADDR 0x01 s;
          s = write_reg chip SETUP_RETR 0x1A s;
          s = write_reg chip RF_CH 0 s;
          s = write_reg chip RF_SETUP 0x0F s;
          s = write_reg chip CONFIG 0x0E s
      in set_ce True s)"

text \<open>
  The wait for the interrupt: \<open>irq h n\<close> is the level of the line at poll \<open>n\<close> after the events
  \<open>h\<close>. \<open>None\<close>: the line never falls.
\<close>

type_synonym irq_line = "spi_event list \<Rightarrow> nat \<Rightarrow> bool"

partial_function (option) wait_irq :: "(nat \<Rightarrow> bool) \<Rightarrow> nat \<Rightarrow> unit option" where
  "wait_irq level n = (if level n then wait_irq level (n + 1) else Some ())"

definition NRF24L01_TxPacket :: "miso \<Rightarrow> irq_line \<Rightarrow> buffer \<Rightarrow> spi_port \<Rightarrow> (u8 \<times> spi_port) option" where
  "NRF24L01_TxPacket chip irq txbuf s =
     (let s = SPI2_SetSpeed SPI_BAUDRATEPRESCALER_8 s;
          s = set_ce False s;
          (_, s) = NRF24L01_Write_Buf chip WR_TX_PLOAD txbuf TX_PLOAD_WIDTH s;
          s = set_ce True s
      in Option.bind (wait_irq (irq (events s)) 0) (\<lambda>_.
           let (sta, s) = NRF24L01_Read_Reg chip STATUS s;
               s = write_reg chip STATUS sta s
           in Some (if and sta MAX_TX \<noteq> 0
                    then (MAX_TX, snd (NRF24L01_Write_Reg chip FLUSH_TX 0xFF s))
                    else if and sta TX_OK \<noteq> 0 then (TX_OK, s)
                    else (0xFF, s))))"

text \<open>The payload is left in the buffer when the result is 0.\<close>

definition NRF24L01_RxPacket :: "miso \<Rightarrow> spi_port \<Rightarrow> u8 \<times> u8 list option \<times> spi_port" where
  "NRF24L01_RxPacket chip s =
     (let s = SPI2_SetSpeed SPI_BAUDRATEPRESCALER_8 s;
          (sta, s) = NRF24L01_Read_Reg chip STATUS s;
          s = write_reg chip STATUS sta s
      in if and sta RX_OK \<noteq> 0
         then let (_, rxbuf, s) = NRF24L01_Read_Buf chip RD_RX_PLOAD RX_PLOAD_WIDTH s;
                  s = snd (NRF24L01_Write_Reg chip FLUSH_RX 0xFF s)
              in (0, Some rxbuf, s)
         else (1, None, s))"

fun first_differing :: "u8 list \<Rightarrow> nat" where
  "first_differing [] = 0"
| "first_differing (b # bs) = (if b \<noteq> 0xA5 then 0 else 1 + first_differing bs)"

definition NRF24L01_Check :: "miso \<Rightarrow> spi_port \<Rightarrow> u8 \<times> spi_port" where
  "NRF24L01_Check chip s =
     (let s = SPI2_SetSpeed SPI_BAUDRATEPRESCALER_8 s;
          s = write_address chip TX_ADDR (\<lambda>i. [0xA5, 0xA5, 0xA5, 0xA5, 0xA5] ! i) 5 s;
          (_, buf, s) = NRF24L01_Read_Buf chip TX_ADDR 5 s
      in (if first_differing buf \<noteq> 5 then 1 else 0, s))"

text \<open>The result of the check is only printed.\<close>

definition NRF24L01_Init :: "miso \<Rightarrow> spi_port \<Rightarrow> u8 \<times> spi_port" where
  "NRF24L01_Init chip s =
     (let s = SPI2_Init chip s;
          s = NRF24L01_SPI_Init s;
          s = set_ce False s;
          s = set_csn True s
      in (0, snd (NRF24L01_Check chip s)))"

end
