(* ===== verification/Radio_Link.thy ===== *)
theory Radio_Link
  imports Radio
begin

text \<open>
  The radio driver against its chip. What the data sheet promises of the registers, the queues and
  a transmission is the locale \<open>nrf24\<close>, stated on what the chip has seen; from it \<open>NRF24L01_TX_Mode\<close>
  makes the chip ready, \<open>NRF24L01_TxPacket\<close> returns and tells whether the packet was acknowledged,
  and \<open>NRF24L01_RxPacket\<close> takes the packet that has arrived. A working chip, with any partner on
  the other end, satisfies it.
\<close>

section \<open>What the chip sees of a call\<close>

definition frame :: "u8 \<Rightarrow> u8 list \<Rightarrow> spi_event list" where
  "frame c ds = Csn False # map Byte (c # ds) @ [Csn True]"

named_theorems driver \<comment> \<open>what a call adds to the history, in the clock mode of the chip\<close>

text \<open>Bits 0 and 1 of the control register are the clock mode; the speed and the enable bit are others.\<close>

lemma mode_bits: "mode_0 s \<longleftrightarrow> \<not> bit (cr1 s) 0 \<and> \<not> bit (cr1 s) 1"
proof -
  have m: "(3 :: u16) = mask 2" by (simp add: mask_eq_exp_minus_1)
  have "bit (and (cr1 s) 3) n = (bit (cr1 s) n \<and> n < 2)" for n
    unfolding m by (auto simp: bit_simps dest: bit_imp_le_length)
  then have "(and (cr1 s) 3 = 0) = (\<forall>n. \<not> (bit (cr1 s) n \<and> n < 2))"
    by (metis bit_0_eq bit_eqI bot_apply bot_bool_def)
  then show ?thesis by (auto simp: mode_0_def less_2_cases_iff)
qed

lemma mode_keeps [simp]:
  "mode_0 (SPI_ENABLE s) = mode_0 s" "mode_0 (SPI_DISABLE s) = mode_0 s"
  "mode_0 (set_csn v s) = mode_0 s" "mode_0 (set_ce v s) = mode_0 s"
  "mode_0 (s \<lparr> events := h \<rparr>) = mode_0 s"
  by (simp_all add: mode_bits SPI_ENABLE_def SPI_DISABLE_def set_csn_def set_ce_def bit_simps)

lemma events_keeps [simp]:
  "events (SPI_ENABLE s) = events s" "events (SPI_DISABLE s) = events s"
  "events (set_csn v s) = events s @ [Csn v]" "events (set_ce v s) = events s @ [Ce v]"
  by (simp_all add: SPI_ENABLE_def SPI_DISABLE_def set_csn_def set_ce_def)

lemma SPI2_SetSpeed_8 [simp]:
  "events (SPI2_SetSpeed SPI_BAUDRATEPRESCALER_8 s) = events s"
  "mode_0 (SPI2_SetSpeed SPI_BAUDRATEPRESCALER_8 s) = mode_0 s"
  by (simp_all add: SPI2_SetSpeed_def SPI_BAUDRATEPRESCALER_8_def Let_def)
    (simp add: mode_bits bit_simps SPI_DISABLE_def)

lemma SPI2_ReadWriteByte_seen [driver]:
  assumes "mode_0 s"
  shows "fst (SPI2_ReadWriteByte chip b s) = chip (events s)"
    and "events (snd (SPI2_ReadWriteByte chip b s)) = events s @ [Byte b]"
    and "mode_0 (snd (SPI2_ReadWriteByte chip b s))"
  using assms by (simp_all add: SPI2_ReadWriteByte_def Let_def)

lemma NRF24L01_Write_Reg_seen [driver]:
  assumes "mode_0 s"
  shows "fst (NRF24L01_Write_Reg chip r v s) = chip (events s @ [Csn False])"
    and "events (snd (NRF24L01_Write_Reg chip r v s)) = events s @ frame r [v]"
    and "mode_0 (snd (NRF24L01_Write_Reg chip r v s))"
  using assms by (simp_all add: NRF24L01_Write_Reg_def frame_def split_beta Let_def driver)

lemma NRF24L01_Read_Reg_seen [driver]:
  assumes "mode_0 s"
  shows "fst (NRF24L01_Read_Reg chip r s) = chip (events s @ Csn False # map Byte [r])"
    and "events (snd (NRF24L01_Read_Reg chip r s)) = events s @ frame r [0xFF]"
    and "mode_0 (snd (NRF24L01_Read_Reg chip r s))"
  using assms by (simp_all add: NRF24L01_Read_Reg_def frame_def split_beta Let_def driver)

lemma read_bytes_spi_seen:
  "mode_0 s \<Longrightarrow> fst (read_bytes_spi chip n s) = map (\<lambda>i. chip (events s @ replicate i (Byte 0xFF))) [0..<n]
     \<and> events (snd (read_bytes_spi chip n s)) = events s @ replicate n (Byte 0xFF)
     \<and> mode_0 (snd (read_bytes_spi chip n s))"
proof (induction n arbitrary: s)
  case (Suc n)
  define s1 where "s1 = snd (SPI2_ReadWriteByte chip 0xFF s)"
  have s1: "events s1 = events s @ [Byte 0xFF]" "mode_0 s1" using Suc.prems by (simp_all add: s1_def driver)
  have "read_bytes_spi chip (Suc n) s = (chip (events s) # fst (read_bytes_spi chip n s1), snd (read_bytes_spi chip n s1))"
    using Suc.prems by (simp add: split_beta Let_def driver s1_def)
  then show ?case
    using Suc.IH [OF s1(2)] s1(1) by (simp add: upt_conv_Cons map_Suc_upt [symmetric] del: upt_Suc)
qed simp

lemma write_bytes_spi_seen:
  "mode_0 s \<Longrightarrow> events (write_bytes_spi chip bs s) = events s @ map Byte bs \<and> mode_0 (write_bytes_spi chip bs s)"
  by (induction bs arbitrary: s) (simp_all add: driver)

lemma NRF24L01_Write_Buf_seen [driver]:
  assumes "mode_0 s"
  shows "events (snd (NRF24L01_Write_Buf chip r pBuf len s)) = events s @ frame r (map pBuf [0..<unat len])"
    and "mode_0 (snd (NRF24L01_Write_Buf chip r pBuf len s))"
  using assms by (simp_all add: NRF24L01_Write_Buf_def frame_def split_beta Let_def driver write_bytes_spi_seen)

lemma NRF24L01_Read_Buf_seen [driver]:
  assumes "mode_0 s"
  shows "fst (snd (NRF24L01_Read_Buf chip r len s))
      = map (\<lambda>i. chip (events s @ Csn False # map Byte (r # replicate i 0xFF))) [0..<unat len]"
    and "events (snd (snd (NRF24L01_Read_Buf chip r len s))) = events s @ frame r (replicate (unat len) 0xFF)"
    and "mode_0 (snd (snd (NRF24L01_Read_Buf chip r len s)))"
  using assms by (simp_all add: NRF24L01_Read_Buf_def frame_def split_beta Let_def driver read_bytes_spi_seen)

lemma write_reg_seen [driver]:
  assumes "mode_0 s"
  shows "events (write_reg chip r v s) = events s @ frame (0x20 + r) [v]" and "mode_0 (write_reg chip r v s)"
  using assms by (simp_all add: write_reg_def NRF_WRITE_REG_def driver)

lemma write_address_seen [driver]:
  assumes "mode_0 s"
  shows "events (write_address chip r a w s) = events s @ frame (0x20 + r) (map a [0..<unat w])"
    and "mode_0 (write_address chip r a w s)"
  using assms by (simp_all add: write_address_def NRF_WRITE_REG_def driver)

section \<open>What the data sheet promises\<close>

text \<open>
  The registers by their bytes, the queues of packets to send and received, and the packets the
  partner has acknowledged.
\<close>

record nrf_view =
  regs :: "u8 \<Rightarrow> u8 list"
  tx_queue :: "u8 list list"
  rx_queue :: "u8 list list"
  acked :: "u8 list list"

definition nrf_status :: "nrf_view \<Rightarrow> u8" where "nrf_status v = hd (regs v 7)"

definition with_status :: "u8 \<Rightarrow> nrf_view \<Rightarrow> nrf_view" where
  "with_status st v = v \<lparr> regs := (regs v)(7 := [st]) \<rparr>"

text \<open>The status after the flags of \<open>x\<close> have been written as ones.\<close>

definition cleared :: "u8 \<Rightarrow> u8 \<Rightarrow> u8" where
  "cleared x st = and st (not (and x 0x70))"

definition reg_width :: "u8 \<Rightarrow> nat" where
  "reg_width a = (if a = 0x0A \<or> a = 0x0B \<or> a = 0x10 then 5 else 1)"

text \<open>The level of the enable line.\<close>

definition enabled :: "spi_event list \<Rightarrow> bool" where
  "enabled = foldl (\<lambda>on e. case e of Ce v \<Rightarrow> v | _ \<Rightarrow> on) False"

text \<open>Powered up as a sender with automatic acknowledgement on its own address.\<close>

definition tx_mode :: "nrf_view \<Rightarrow> bool" where
  "tx_mode v \<longleftrightarrow> regs v CONFIG = [0x0E] \<and> bit (hd (regs v EN_AA)) 0 \<and> bit (hd (regs v EN_RXADDR)) 0
     \<and> regs v RX_ADDR_P0 = regs v TX_ADDR"

text \<open>
  The flags of the status register are bits 4 to 6; writing a one clears a flag. A transmission
  starts when the enable line rises and ends, with the interrupt, by an acknowledgement or
  after the last retry, when the packet stays in the queue. A chip that has seen no command since
  it was powered up has empty queues and no flags. Packets arrive only while time passes between
  calls.
\<close>

locale nrf24 =
  fixes miso :: miso
    and irq :: irq_line
    and idle :: "spi_event list \<Rightarrow> bool"
    and view :: "spi_event list \<Rightarrow> nrf_view"
  assumes idle_frame: "idle h \<Longrightarrow> idle (h @ frame c ds)"
    and idle_ce: "idle h \<Longrightarrow> idle (h @ [Ce v])"
    and idle_pause: "idle h \<Longrightarrow> idle (h @ [Pause])"
    and width: "idle h \<Longrightarrow> a < 0x20 \<Longrightarrow> length (regs (view h) a) = reg_width a"
    and reg_byte: "idle h \<Longrightarrow> a < 0x20 \<Longrightarrow> length ds < reg_width a \<Longrightarrow>
      miso (h @ Csn False # map Byte (a # ds)) = regs (view h) a ! length ds"
    and read_same: "idle h \<Longrightarrow> a < 0x20 \<Longrightarrow> view (h @ frame a ds) = view h"
    and written: "idle h \<Longrightarrow> a < 0x20 \<Longrightarrow> a \<noteq> 7 \<Longrightarrow> length ds = reg_width a \<Longrightarrow>
      view (h @ frame (0x20 + a) ds) = (view h) \<lparr> regs := (regs (view h))(a := ds) \<rparr>"
    and write_status: "idle h \<Longrightarrow>
      view (h @ frame 0x27 [x]) = with_status (cleared x (nrf_status (view h))) (view h)"
    and load: "idle h \<Longrightarrow> tx_queue (view h) = [] \<Longrightarrow> length ds = 32 \<Longrightarrow>
      view (h @ frame 0xA0 ds) = (view h) \<lparr> tx_queue := [ds] \<rparr>"
    and flush_tx: "idle h \<Longrightarrow> view (h @ frame 0xE1 [x]) = (view h) \<lparr> tx_queue := [] \<rparr>"
    and flush_rx: "idle h \<Longrightarrow> view (h @ frame 0xE2 [x]) = (view h) \<lparr> rx_queue := [] \<rparr>"
    and payload_byte: "idle h \<Longrightarrow> rx_queue (view h) = p # ps \<Longrightarrow> length ds < length p \<Longrightarrow>
      miso (h @ Csn False # map Byte (0x61 # ds)) = p ! length ds"
    and payload_taken: "idle h \<Longrightarrow> rx_queue (view h) = p # ps \<Longrightarrow> length ds = length p \<Longrightarrow>
      view (h @ frame 0x61 ds) = (view h) \<lparr> rx_queue := ps \<rparr>"
    and ce_low: "idle h \<Longrightarrow> view (h @ [Ce False]) = view h"
    and ce_high: "idle h \<Longrightarrow> tx_queue (view h) = [] \<Longrightarrow> \<not> bit (hd (regs (view h) CONFIG)) 0 \<Longrightarrow>
      view (h @ [Ce True]) = view h"
    and fresh: "set h \<subseteq> {Garbled 0xFF, Ce False} \<Longrightarrow> idle (h @ [Csn True]) \<and> tx_queue (view (h @ [Csn True])) = []
      \<and> rx_queue (view (h @ [Csn True])) = [] \<and> acked (view (h @ [Csn True])) = []
      \<and> and (nrf_status (view (h @ [Csn True]))) 0x70 = 0"
    and transmit: "idle h \<Longrightarrow> \<not> enabled h \<Longrightarrow> tx_mode (view h) \<Longrightarrow> tx_queue (view h) = [p] \<Longrightarrow>
      and (nrf_status (view h)) 0x70 = 0 \<Longrightarrow>
      (\<exists>n. \<not> irq (h @ [Ce True]) n)
      \<and> (\<exists>st. (and st 0x70 = TX_OK
            \<and> view (h @ [Ce True]) = with_status st ((view h) \<lparr> tx_queue := [], acked := acked (view h) @ [p] \<rparr>))
          \<or> (and st 0x70 = MAX_TX \<and> view (h @ [Ce True]) = with_status st (view h)))"

lemma first_differing_5: "length bs = 5 \<Longrightarrow> (first_differing bs = 5) = (\<forall>b \<in> set bs. b = 0xA5)"
proof -
  have "(first_differing cs = length cs) = (\<forall>b \<in> set cs. b = 0xA5)" for cs by (induction cs) auto
  then show "length bs = 5 \<Longrightarrow> (first_differing bs = 5) = (\<forall>b \<in> set bs. b = 0xA5)" by metis
qed

text \<open>Between two calls: the clock mode is right, the chip is deselected, nothing is pending.\<close>

definition at_rest :: "(spi_event list \<Rightarrow> bool) \<Rightarrow> (spi_event list \<Rightarrow> nrf_view) \<Rightarrow> spi_port \<Rightarrow> bool" where
  "at_rest idle view s \<longleftrightarrow> mode_0 s \<and> idle (events s) \<and> tx_queue (view (events s)) = []
     \<and> and (nrf_status (view (events s))) 0x70 = 0"

lemma enabled_events [simp]:
  "enabled (h @ [Ce v]) = v" "enabled (h @ frame c ds) = enabled h"
proof -
  have b: "foldl (\<lambda>on e. case e of Ce v \<Rightarrow> v | _ \<Rightarrow> on) on (map Byte bs) = on" for on bs
    by (induction bs) simp_all
  show "enabled (h @ [Ce v]) = v" "enabled (h @ frame c ds) = enabled h"
    by (simp_all add: enabled_def frame_def b)
qed

lemma status_with_status [simp]: "nrf_status (with_status st v) = st"
  by (simp add: nrf_status_def with_status_def)

lemma with_status_keeps [simp]:
  "tx_queue (with_status st v) = tx_queue v" "rx_queue (with_status st v) = rx_queue v"
  "acked (with_status st v) = acked v" "a \<noteq> 7 \<Longrightarrow> regs (with_status st v) a = regs v a"
  "tx_mode (with_status st v) = tx_mode v"
  by (simp_all add: with_status_def tx_mode_def CONFIG_def EN_AA_def EN_RXADDR_def RX_ADDR_P0_def TX_ADDR_def)

lemma with_status_twice [simp]: "with_status a (with_status b v) = with_status a v"
  by (simp add: with_status_def)

lemma wait_irq_returns: "\<not> level n \<Longrightarrow> wait_irq level 0 = Some ()"
proof -
  have "i \<le> n \<Longrightarrow> \<not> level n \<Longrightarrow> wait_irq level i = Some ()" for i
  proof (induction i rule: inc_induct)
    case base
    then show ?case by (subst wait_irq.simps) simp
  next
    case (step i)
    then show ?case by (subst wait_irq.simps) simp
  qed
  then show "\<not> level n \<Longrightarrow> wait_irq level 0 = Some ()" by simp
qed

lemma flags_cleared [simp]: "and (cleared st st) 0x70 = 0"
proof -
  have "and (and st (not (and st f))) f = 0" for f :: u8 by (rule bit_eqI) (auto simp: bit_simps)
  then show ?thesis unfolding cleared_def .
qed

lemma tx_mode_updates [simp]:
  "tx_mode (v \<lparr> tx_queue := q \<rparr>) = tx_mode v" "tx_mode (v \<lparr> acked := a \<rparr>) = tx_mode v"
  "tx_mode (v \<lparr> rx_queue := q \<rparr>) = tx_mode v"
  by (simp_all add: tx_mode_def)

context nrf24
begin

lemma status_read: "idle h \<Longrightarrow> miso (h @ Csn False # map Byte [7]) = nrf_status (view h)"
proof -
  assume h: "idle h"
  have w: "reg_width 7 = 1" by (simp add: reg_width_def)
  have "length (regs (view h) 7) = 1" using width [OF h, of 7] by (simp add: w)
  then show ?thesis
    using reg_byte [OF h, of 7 "[]"] by (simp add: w nrf_status_def hd_conv_nth flip: length_greater_0_conv)
qed

text \<open>Reading the status and writing it back clears the flags that were read.\<close>

lemma acknowledge:
  assumes "mode_0 s" and "idle (events s)"
  defines "r \<equiv> NRF24L01_Read_Reg miso STATUS s"
  defines "s' \<equiv> write_reg miso STATUS (fst r) (snd r)"
  shows "fst r = nrf_status (view (events s))" and "mode_0 s'" and "idle (events s')"
    and "view (events s') = with_status (cleared (nrf_status (view (events s))) (nrf_status (view (events s)))) (view (events s))"
proof -
  have r: "fst r = nrf_status (view (events s))" "events (snd r) = events s @ frame 7 [0xFF]" "mode_0 (snd r)"
    using assms(1) status_read [OF assms(2)] by (simp_all add: r_def STATUS_def driver)
  have i: "idle (events (snd r))" "view (events (snd r)) = view (events s)"
    unfolding r(2) by (rule idle_frame [OF assms(2)]) (rule read_same [OF assms(2)], simp)
  have "events s' = events (snd r) @ frame 0x27 [fst r]"
    using r(3) by (simp add: s'_def STATUS_def driver)
  then show "fst r = nrf_status (view (events s))" "mode_0 s'" "idle (events s')"
    "view (events s') = with_status (cleared (nrf_status (view (events s))) (nrf_status (view (events s)))) (view (events s))"
    using r i idle_frame [OF i(1)] write_status [OF i(1)] by (simp_all add: s'_def driver)
qed

lemma packet_sent:
  fixes txbuf :: buffer
  assumes "at_rest idle view s" and "tx_mode (view (events s))"
  defines "v \<equiv> view (events s)" and "p \<equiv> map txbuf [0..<32]"
  shows "\<exists>r s'. NRF24L01_TxPacket miso irq txbuf s = Some (r, s') \<and> at_rest idle view s'
    \<and> tx_mode (view (events s')) \<and> rx_queue (view (events s')) = rx_queue v
    \<and> (r = TX_OK \<and> acked (view (events s')) = acked v @ [p] \<or> r = MAX_TX \<and> acked (view (events s')) = acked v)"
proof -
  have s: "mode_0 s" "idle (events s)" "tx_queue v = []" "and (nrf_status v) 0x70 = 0"
    using assms(1) by (simp_all add: at_rest_def v_def)
  define s0 where "s0 = set_ce False (SPI2_SetSpeed SPI_BAUDRATEPRESCALER_8 s)"
  have s0: "mode_0 s0" "idle (events s0)" "view (events s0) = v" "\<not> enabled (events s0)"
    using s idle_ce [OF s(2)] ce_low [OF s(2)] by (simp_all add: s0_def v_def)
  define s1 where "s1 = snd (NRF24L01_Write_Buf miso WR_TX_PLOAD txbuf TX_PLOAD_WIDTH s0)"
  have e1: "events s1 = events s0 @ frame 0xA0 p" and m1: "mode_0 s1"
    using s0(1) by (simp_all add: s1_def driver WR_TX_PLOAD_def TX_PLOAD_WIDTH_def p_def)
  have p: "length p = 32" by (simp add: p_def)
  have v1: "idle (events s1)" "view (events s1) = v \<lparr> tx_queue := [p] \<rparr>" "\<not> enabled (events s1)"
    using idle_frame [OF s0(2)] load [OF s0(2) _ p] s(3) s0(3,4) by (simp_all add: e1)
  define s2 where "s2 = set_ce True s1"
  have e2: "events s2 = events s1 @ [Ce True]" and m2: "mode_0 s2" using m1 by (simp_all add: s2_def)
  have tx: "tx_mode (view (events s1))" "tx_queue (view (events s1)) = [p]" "and (nrf_status (view (events s1))) 0x70 = 0"
    using assms(2) s(4) by (simp_all add: v1(2) tx_mode_def v_def nrf_status_def)
  from transmit [OF v1(1,3) tx] obtain n st where irq: "\<not> irq (events s2) n"
    and st: "and st 0x70 = TX_OK \<and> view (events s2) = with_status st (v \<lparr> tx_queue := [], acked := acked v @ [p] \<rparr>)
      \<or> and st 0x70 = MAX_TX \<and> view (events s2) = with_status st (v \<lparr> tx_queue := [p] \<rparr>)"
    by (auto simp: e2 v1(2))
  define r where "r = NRF24L01_Read_Reg miso STATUS s2"
  define s3 where "s3 = write_reg miso STATUS (fst r) (snd r)"
  have i2: "idle (events s2)" using idle_ce [OF v1(1)] by (simp add: e2)
  note ack = acknowledge [OF m2 i2, folded r_def, folded s3_def]
  have status2: "nrf_status (view (events s2)) = st" using st by auto
  have v3: "view (events s3) = with_status (cleared st st) (view (events s2))"
    using ack(4) by (simp add: status2)
  have run: "NRF24L01_TxPacket miso irq txbuf s = Some (if and (fst r) MAX_TX \<noteq> 0
      then (MAX_TX, snd (NRF24L01_Write_Reg miso FLUSH_TX 0xFF s3))
      else if and (fst r) TX_OK \<noteq> 0 then (TX_OK, s3) else (0xFF, s3))"
    using wait_irq_returns [where level = "irq (events s2)", OF irq, unfolded e2]
    by (simp add: NRF24L01_TxPacket_def Let_def split_beta s0_def [symmetric] s1_def [symmetric] s2_def [symmetric]
        r_def [symmetric] s3_def [symmetric])
  have sub: "and st MAX_TX = and (and st 0x70) MAX_TX" "and st TX_OK = and (and st 0x70) TX_OK"
    by (simp_all add: MAX_TX_def TX_OK_def and.assoc)
  from st show ?thesis
  proof (elim disjE conjE)
    assume ok: "and st 0x70 = TX_OK" "view (events s2) = with_status st (v \<lparr> tx_queue := [], acked := acked v @ [p] \<rparr>)"
    have "NRF24L01_TxPacket miso irq txbuf s = Some (TX_OK, s3)"
      unfolding run ack(1) status2 sub ok(1) by (simp add: TX_OK_def MAX_TX_def)
    moreover have "at_rest idle view s3" "tx_mode (view (events s3))"
      using ack(2,3) assms(2) by (simp_all add: at_rest_def v3 ok(2) v_def)
    ultimately show ?thesis by (simp add: v3 ok(2))
  next
    assume no: "and st 0x70 = MAX_TX" "view (events s2) = with_status st (v \<lparr> tx_queue := [p] \<rparr>)"
    define s4 where "s4 = snd (NRF24L01_Write_Reg miso FLUSH_TX 0xFF s3)"
    have e4: "events s4 = events s3 @ frame 0xE1 [0xFF]" and m4: "mode_0 s4"
      using ack(2) by (simp_all add: s4_def driver FLUSH_TX_def)
    have v4: "view (events s4) = (view (events s3)) \<lparr> tx_queue := [] \<rparr>" "idle (events s4)"
      using flush_tx [OF ack(3)] idle_frame [OF ack(3)] by (simp_all add: e4)
    have "NRF24L01_TxPacket miso irq txbuf s = Some (MAX_TX, s4)"
      unfolding run ack(1) status2 sub no(1) s4_def by (simp add: MAX_TX_def)
    moreover have "nrf_status (view (events s4)) = cleared st st"
      by (simp add: v4(1) v3 nrf_status_def with_status_def)
    then have "at_rest idle view s4" using m4 v4 by (simp add: at_rest_def)
    moreover have "tx_mode (view (events s4))"
      using assms(2) by (simp add: v4(1) v3 no(2) v_def)
    ultimately show ?thesis by (simp add: v4(1) v3 no(2))
  qed
qed

text \<open>The registers one write after another; the queues and the flags are left alone.\<close>

definition configured :: "(u8 \<times> u8 list) list \<Rightarrow> nrf_view \<Rightarrow> nrf_view" where
  "configured ws v = v \<lparr> regs := foldl (\<lambda>f (a, ds). f(a := ds)) (regs v) ws \<rparr>"

definition sets :: "(u8 \<times> u8 list) list \<Rightarrow> spi_port \<Rightarrow> spi_port \<Rightarrow> bool" where
  "sets ws s s' \<longleftrightarrow> mode_0 s' \<and> idle (events s') \<and> view (events s') = configured ws (view (events s))"

lemma configured_snoc: "configured (ws @ [(a, ds)]) v = (configured ws v) \<lparr> regs := (regs (configured ws v))(a := ds) \<rparr>"
  by (simp add: configured_def)

lemma sets_reg:
  assumes "sets ws s s'" and "a < 0x20" "a \<noteq> 7" "reg_width a = 1"
  shows "sets (ws @ [(a, [x])]) s (write_reg miso a x s')"
  using assms idle_frame written [of "events s'" a "[x]"]
  by (simp add: sets_def driver configured_snoc)

lemma sets_address:
  assumes "sets ws s s'" and "a < 0x20" "a \<noteq> 7" "reg_width a = 5"
  shows "sets (ws @ [(a, map p [0..<5])]) s (write_address miso a p 5 s')"
  using assms idle_frame written [of "events s'" a "map p [0..<5]"]
  by (simp add: sets_def driver configured_snoc)

lemma sets_ce_low: "mode_0 s \<Longrightarrow> idle (events s) \<Longrightarrow> sets [] s (set_ce False s)"
  using idle_ce ce_low by (simp add: sets_def configured_def)

lemma address_ones: "map TX_ADDRESS [0..<5] = replicate 5 0xFF" "map RX_ADDRESS [0..<5] = replicate 5 0xFF"
  by (simp_all add: TX_ADDRESS_def RX_ADDRESS_def upt_rec numeral_eq_Suc)

lemmas reg_numbers = TX_ADDR_def RX_ADDR_P0_def EN_AA_def EN_RXADDR_def SETUP_RETR_def RF_CH_def RF_SETUP_def
  CONFIG_def RX_PW_P0_def reg_width_def

lemma ready_to_send:
  assumes "at_rest idle view s"
  defines "s' \<equiv> NRF24L01_TX_Mode miso s"
  shows "at_rest idle view s' \<and> tx_mode (view (events s')) \<and> acked (view (events s')) = acked (view (events s))"
proof -
  have s: "mode_0 s" "idle (events s)" "tx_queue (view (events s)) = []" "and (nrf_status (view (events s))) 0x70 = 0"
    using assms(1) by (simp_all add: at_rest_def)
  define ws where "ws = [(TX_ADDR, replicate 5 0xFF), (RX_ADDR_P0, replicate 5 0xFF), (EN_AA, [1]), (EN_RXADDR, [1]),
    (SETUP_RETR, [0x1A]), (RF_CH, [0]), (RF_SETUP, [0x0F]), (CONFIG, [0x0E :: u8])]"
  define s1 where "s1 = write_reg miso CONFIG 0x0E (write_reg miso RF_SETUP 0x0F (write_reg miso RF_CH 0
    (write_reg miso SETUP_RETR 0x1A (write_reg miso EN_RXADDR 1 (write_reg miso EN_AA 1
    (write_address miso RX_ADDR_P0 RX_ADDRESS 5 (write_address miso TX_ADDR TX_ADDRESS 5 (set_ce False s))))))))"
  have "sets ([] @ [(TX_ADDR, map TX_ADDRESS [0..<5])] @ [(RX_ADDR_P0, map RX_ADDRESS [0..<5])] @ [(EN_AA, [1])] @ [(EN_RXADDR, [1])]
      @ [(SETUP_RETR, [0x1A])] @ [(RF_CH, [0])] @ [(RF_SETUP, [0x0F])] @ [(CONFIG, [0x0E])]) s s1"
    unfolding s1_def append_assoc [symmetric]
    by (intro sets_reg sets_address sets_ce_low s) (simp_all add: reg_numbers)
  then have s1: "mode_0 s1" "idle (events s1)" "view (events s1) = configured ws (view (events s))"
    by (simp_all add: sets_def ws_def address_ones)
  have s': "s' = set_ce True s1"
    by (simp add: s'_def NRF24L01_TX_Mode_def Let_def s1_def TX_ADR_WIDTH_def RX_ADR_WIDTH_def)
  have v: "tx_queue (view (events s1)) = []" "tx_mode (view (events s1))" "\<not> bit (hd (regs (view (events s1)) CONFIG)) 0"
    "nrf_status (view (events s1)) = nrf_status (view (events s))" "acked (view (events s1)) = acked (view (events s))"
    using s(3) by (simp_all add: s1(3) configured_def ws_def tx_mode_def nrf_status_def reg_numbers)
  have "view (events s') = view (events s1)" "idle (events s')" "mode_0 s'"
    using ce_high [OF s1(2) v(1,3)] idle_ce [OF s1(2)] s1(1) by (simp_all add: s')
  with v s(4) show ?thesis by (simp add: at_rest_def)
qed

lemma packet_taken:
  assumes "mode_0 s" and "idle (events s)"
  defines "v \<equiv> view (events s)" and "r \<equiv> NRF24L01_RxPacket miso s"
  shows "and (nrf_status v) RX_OK = 0 \<Longrightarrow> fst r = 1 \<and> rx_queue (view (events (snd (snd r)))) = rx_queue v"
    and "and (nrf_status v) RX_OK \<noteq> 0 \<Longrightarrow> rx_queue v = p # ps \<Longrightarrow> length p = 32 \<Longrightarrow>
      fst r = 0 \<and> fst (snd r) = Some p \<and> rx_queue (view (events (snd (snd r)))) = []
      \<and> and (nrf_status (view (events (snd (snd r))))) RX_OK = 0"
proof -
  define s0 where "s0 = SPI2_SetSpeed SPI_BAUDRATEPRESCALER_8 s"
  have s0: "mode_0 s0" "idle (events s0)" "view (events s0) = v" using assms by (simp_all add: s0_def v_def)
  define q where "q = NRF24L01_Read_Reg miso STATUS s0"
  define s1 where "s1 = write_reg miso STATUS (fst q) (snd q)"
  note ack = acknowledge [OF s0(1,2), folded q_def, folded s1_def]
  have v1: "view (events s1) = with_status (cleared (nrf_status v) (nrf_status v)) v" using ack(4) by (simp add: s0(3))
  define b where "b = NRF24L01_Read_Buf miso RD_RX_PLOAD RX_PLOAD_WIDTH s1"
  define s2 where "s2 = snd (NRF24L01_Write_Reg miso FLUSH_RX 0xFF (snd (snd b)))"
  have "r = (if and (fst q) RX_OK \<noteq> 0 then (0, Some (fst (snd b)), s2) else (1, None, s1))"
    by (simp add: r_def NRF24L01_RxPacket_def Let_def split_beta s0_def [symmetric] q_def [symmetric] s1_def [symmetric]
        b_def [symmetric] s2_def)
  then have r: "r = (if and (nrf_status v) RX_OK \<noteq> 0 then (0, Some (fst (snd b)), s2) else (1, None, s1))"
    unfolding ack(1) s0(3) .
  show "and (nrf_status v) RX_OK = 0 \<Longrightarrow> fst r = 1 \<and> rx_queue (view (events (snd (snd r)))) = rx_queue v"
    by (simp add: r v1)
  assume rx: "and (nrf_status v) RX_OK \<noteq> 0" "rx_queue v = p # ps" "length p = 32"
  have q1: "rx_queue (view (events s1)) = p # ps" by (simp add: v1 rx(2))
  have bytes: "fst (snd b) = map (\<lambda>i. p ! i) [0..<32]"
    using ack(2) payload_byte [OF ack(3) q1, of "replicate i 0xFF" for i] rx(3)
    by (simp add: b_def driver RD_RX_PLOAD_def RX_PLOAD_WIDTH_def)
  then have bytes: "fst (snd b) = p" by (simp add: map_nth flip: rx(3))
  have eb: "events (snd (snd b)) = events s1 @ frame 0x61 (replicate 32 0xFF)" and mb: "mode_0 (snd (snd b))"
    using ack(2) by (simp_all add: b_def driver RD_RX_PLOAD_def RX_PLOAD_WIDTH_def)
  have vb: "view (events (snd (snd b))) = (view (events s1)) \<lparr> rx_queue := ps \<rparr>" "idle (events (snd (snd b)))"
    using payload_taken [OF ack(3) q1, of "replicate 32 0xFF"] idle_frame [OF ack(3)] rx(3) by (simp_all add: eb)
  have e2: "events s2 = events (snd (snd b)) @ frame 0xE2 [0xFF]" using mb by (simp add: s2_def driver FLUSH_RX_def)
  have v2: "view (events s2) = (view (events s1)) \<lparr> rx_queue := [] \<rparr>"
    using flush_rx [OF vb(2)] vb(1) by (simp add: e2)
  have "nrf_status (view (events s2)) = cleared (nrf_status v) (nrf_status v)" by (simp add: v2 v1 nrf_status_def with_status_def)
  moreover have "and (cleared (nrf_status v) (nrf_status v)) RX_OK = and (and (cleared (nrf_status v) (nrf_status v)) 0x70) RX_OK"
    by (simp only: and.assoc) (simp add: RX_OK_def)
  then have "and (cleared (nrf_status v) (nrf_status v)) RX_OK = 0" unfolding flags_cleared by simp
  ultimately show "fst r = 0 \<and> fst (snd r) = Some p \<and> rx_queue (view (events (snd (snd r)))) = []
      \<and> and (nrf_status (view (events (snd (snd r))))) RX_OK = 0"
    using rx(1) by (simp add: r bytes v2)
qed

text \<open>The chip is found, and its address for sending is left at the pattern of the check.\<close>

lemma check_finds:
  assumes "mode_0 s" and "idle (events s)"
  shows "fst (NRF24L01_Check miso s) = 0"
    and "sets [(TX_ADDR, replicate 5 0xA5)] s (snd (NRF24L01_Check miso s))"
proof -
  define s0 where "s0 = SPI2_SetSpeed SPI_BAUDRATEPRESCALER_8 s"
  have s0: "mode_0 s0" "idle (events s0)" "view (events s0) = view (events s)" using assms by (simp_all add: s0_def)
  define p :: buffer where "p = (\<lambda>i. [0xA5, 0xA5, 0xA5, 0xA5, 0xA5] ! i)"
  have p: "map p [0..<5] = replicate 5 0xA5" by (simp add: p_def upt_rec numeral_eq_Suc)
  define s1 where "s1 = write_address miso TX_ADDR p 5 s0"
  have "sets [] s0 s0" using s0 by (simp add: sets_def configured_def)
  then have "sets ([] @ [(TX_ADDR, map p [0..<5])]) s0 s1"
    unfolding s1_def by (intro sets_address) (simp_all add: reg_numbers)
  then have s1: "mode_0 s1" "idle (events s1)" "view (events s1) = configured [(TX_ADDR, replicate 5 0xA5)] (view (events s))"
    by (simp_all add: sets_def p s0(3))
  define b where "b = NRF24L01_Read_Buf miso TX_ADDR 5 s1"
  have reg: "regs (view (events s1)) TX_ADDR = replicate 5 0xA5" by (simp add: s1(3) configured_def)
  have "fst (snd b) = map (\<lambda>i. replicate 5 0xA5 ! i) [0..<5]"
    using s1(1) reg_byte [OF s1(2), of TX_ADDR "replicate i 0xFF" for i] reg
    by (simp add: b_def driver reg_numbers)
  then have "\<forall>x \<in> set (fst (snd b)). x = 0xA5" "length (fst (snd b)) = 5" by (auto simp: nth_replicate)
  then have same: "first_differing (fst (snd b)) = 5" by (simp add: first_differing_5)
  have c: "NRF24L01_Check miso s = (if first_differing (fst (snd b)) \<noteq> 5 then 1 else 0, snd (snd b))"
    by (simp add: NRF24L01_Check_def Let_def split_beta s0_def [symmetric] p_def [symmetric] s1_def [symmetric]
        b_def [symmetric])
  show "fst (NRF24L01_Check miso s) = 0" by (simp add: c same)
  have "events (snd (snd b)) = events s1 @ frame TX_ADDR (replicate 5 0xFF)" "mode_0 (snd (snd b))"
    using s1(1) by (simp_all add: b_def driver)
  then show "sets [(TX_ADDR, replicate 5 0xA5)] s (snd (NRF24L01_Check miso s))"
    using idle_frame [OF s1(2)] read_same [OF s1(2), of TX_ADDR] by (simp add: c sets_def s1(3) reg_numbers)
qed

lemma check_address:
  assumes "mode_0 s" and "idle (events s)"
  shows "regs (view (events (snd (NRF24L01_Check miso s)))) TX_ADDR = replicate 5 0xA5"
  using check_finds(2) [OF assms] by (simp add: sets_def configured_def)

text \<open>From power-up: the first byte goes out in the wrong clock mode, before the chip's mode is set.\<close>

lemma initialised:
  assumes "events s = []"
  defines "s' \<equiv> snd (NRF24L01_Init miso s)"
  shows "at_rest idle view s' \<and> acked (view (events s')) = [] \<and> rx_queue (view (events s')) = []"
proof -
  define s1 where "s1 = set_csn True (set_ce False (NRF24L01_SPI_Init (SPI2_Init miso s)))"
  have "events s1 = [Garbled 0xFF, Ce False] @ [Csn True]" "mode_0 s1"
    using assms(1) by (simp_all add: s1_def NRF24L01_SPI_Init_def SPI2_Init_def HAL_SPI_Init_def SPI2_ReadWriteByte_def
        SPI_ENABLE_def SPI_DISABLE_def set_csn_def set_ce_def mode_0_def Let_def SPI_POLARITY_HIGH_def SPI_PHASE_2EDGE_def)
  moreover note fresh [of "[Garbled 0xFF, Ce False]"]
  ultimately have s1: "mode_0 s1" "idle (events s1)" "tx_queue (view (events s1)) = []" "rx_queue (view (events s1)) = []"
    "acked (view (events s1)) = []" "and (nrf_status (view (events s1))) 0x70 = 0"
    by simp_all
  have "s' = snd (NRF24L01_Check miso s1)" by (simp add: s'_def NRF24L01_Init_def s1_def Let_def)
  with check_finds(2) [OF s1(1,2)] s1 show ?thesis
    by (simp add: at_rest_def sets_def configured_def nrf_status_def TX_ADDR_def)
qed

end

end
