(* ===== verification/Radio_Chip.thy ===== *)
theory Radio_Chip
  imports Radio_Link
begin

text \<open>
  A working radio chip with its registers, queues, enable line and a partner: \<open>peer n\<close> says whether
  the \<open>n\<close>-th transmission is acknowledged, \<open>incoming\<close> are the packets the partner sends. It keeps
  the promises of \<open>nrf24\<close>.
\<close>

record nrf =
  v_of :: nrf_view
  selected :: bool
  taken :: "u8 list"           \<comment> \<open>the bytes since the chip was selected\<close>
  ce_line :: bool
  tries :: nat
  incoming :: "u8 list list"

definition nrf_powered :: "u8 list list \<Rightarrow> nrf" where
  "nrf_powered packets =
     \<lparr> v_of = \<lparr> regs = \<lambda>a. replicate (reg_width a) 0, tx_queue = [], rx_queue = [], acked = [] \<rparr>,
       selected = False, taken = [], ce_line = False, tries = 0, incoming = packets \<rparr>"

fun nrf_execute :: "u8 list \<Rightarrow> nrf_view \<Rightarrow> nrf_view" where
  "nrf_execute [] v = v"
| "nrf_execute (c # ds) v =
     (if c = 0x27 then (if length ds = 1 then with_status (cleared (hd ds) (nrf_status v)) v else v)
      else if 0x20 \<le> c \<and> c < 0x40
      then (if length ds = reg_width (c - 0x20) then v \<lparr> regs := (regs v)(c - 0x20 := ds) \<rparr> else v)
      else if c = 0xA0 then v \<lparr> tx_queue := tx_queue v @ [ds] \<rparr>
      else if c = 0xE1 then v \<lparr> tx_queue := [] \<rparr>
      else if c = 0xE2 then v \<lparr> rx_queue := [] \<rparr>
      else if c = 0x61 then v \<lparr> rx_queue := tl (rx_queue v) \<rparr>
      else v)"

text \<open>One transmission: the packet leaves the queue when it is acknowledged.\<close>

definition nrf_transmit :: "bool \<Rightarrow> nrf_view \<Rightarrow> nrf_view" where
  "nrf_transmit ok v =
     (if ok then with_status (or (nrf_status v) TX_OK)
        (v \<lparr> tx_queue := tl (tx_queue v), acked := acked v @ [hd (tx_queue v)] \<rparr>)
      else with_status (or (nrf_status v) MAX_TX) v)"

fun nrf_step :: "(nat \<Rightarrow> bool) \<Rightarrow> nrf \<Rightarrow> spi_event \<Rightarrow> nrf" where
  "nrf_step peer c (Csn False) = c \<lparr> selected := True, taken := [] \<rparr>"
| "nrf_step peer c (Csn True) =
     (if selected c then c \<lparr> selected := False, v_of := nrf_execute (taken c) (v_of c) \<rparr> else c)"
| "nrf_step peer c (Byte b) = (if selected c then c \<lparr> taken := taken c @ [b] \<rparr> else c)"
| "nrf_step peer c (Garbled b) = c"
| "nrf_step peer c (Ce False) = c \<lparr> ce_line := False \<rparr>"
| "nrf_step peer c (Ce True) =
     (if ce_line c \<or> bit (hd (regs (v_of c) CONFIG)) 0 \<or> tx_queue (v_of c) = [] then c \<lparr> ce_line := True \<rparr>
      else c \<lparr> ce_line := True, tries := tries c + 1, v_of := nrf_transmit (peer (tries c)) (v_of c) \<rparr>)"
| "nrf_step peer c Pause =
     (if ce_line c \<and> bit (hd (regs (v_of c) CONFIG)) 0 \<and> incoming c \<noteq> []
      then c \<lparr> incoming := tl (incoming c),
               v_of := with_status (or (nrf_status (v_of c)) RX_OK) ((v_of c) \<lparr> rx_queue := rx_queue (v_of c) @ [hd (incoming c)] \<rparr>) \<rparr>
      else c)"

definition nrf_after :: "(nat \<Rightarrow> bool) \<Rightarrow> u8 list list \<Rightarrow> spi_event list \<Rightarrow> nrf" where
  "nrf_after peer packets h = foldl (nrf_step peer) (nrf_powered packets) h"

definition nrf_miso :: "(nat \<Rightarrow> bool) \<Rightarrow> u8 list list \<Rightarrow> miso" where
  "nrf_miso peer packets h =
     (let c = nrf_after peer packets h
      in case taken c of
           [] \<Rightarrow> nrf_status (v_of c)
         | r # ds \<Rightarrow> if r < 0x20 then regs (v_of c) r ! length ds
                    else if r = 0x61 then hd (rx_queue (v_of c)) ! length ds else 0)"

text \<open>The interrupt line is low while a flag is set, and falls with a delay.\<close>

definition nrf_irq :: "(nat \<Rightarrow> bool) \<Rightarrow> u8 list list \<Rightarrow> irq_line" where
  "nrf_irq peer packets h n = (n < 3 \<or> and (nrf_status (v_of (nrf_after peer packets h))) 0x70 = 0)"

definition widths :: "nrf_view \<Rightarrow> bool" where
  "widths v \<longleftrightarrow> (\<forall>a. length (regs v a) = reg_width a)"

definition nrf_idle :: "(nat \<Rightarrow> bool) \<Rightarrow> u8 list list \<Rightarrow> spi_event list \<Rightarrow> bool" where
  "nrf_idle peer packets h \<longleftrightarrow> \<not> selected (nrf_after peer packets h) \<and> widths (v_of (nrf_after peer packets h))"

lemma nrf_after_append [simp]: "nrf_after peer ps (h @ h') = foldl (nrf_step peer) (nrf_after peer ps h) h'"
  by (simp add: nrf_after_def)

lemma nrf_bytes: "selected c \<Longrightarrow> foldl (nrf_step peer) c (map Byte bs) = c \<lparr> taken := taken c @ bs \<rparr>"
  by (induction bs arbitrary: c) simp_all

lemma nrf_frame: "foldl (nrf_step peer) c (frame r ds)
    = c \<lparr> selected := False, taken := r # ds, v_of := nrf_execute (r # ds) (v_of c) \<rparr>"
  by (simp add: frame_def nrf_bytes del: nrf_execute.simps)

lemma nrf_open_frame: "foldl (nrf_step peer) c (Csn False # map Byte bs) = c \<lparr> selected := True, taken := bs \<rparr>"
  by (simp add: nrf_bytes)

lemma nrf_enabled: "ce_line (nrf_after peer ps h) = enabled h"
proof (induction h rule: rev_induct)
  case (snoc e h)
  then show ?case
    by (cases "(peer, nrf_after peer ps h, e)" rule: nrf_step.cases)
      (simp_all add: enabled_def)
qed (simp add: nrf_after_def nrf_powered_def enabled_def)

lemma widths_updates [simp]:
  "widths v \<Longrightarrow> widths (with_status st v)" "widths (v \<lparr> tx_queue := q \<rparr>) = widths v"
  "widths (v \<lparr> rx_queue := q \<rparr>) = widths v" "widths (v \<lparr> acked := q \<rparr>) = widths v"
  "widths v \<Longrightarrow> length ds = reg_width a \<Longrightarrow> widths (v \<lparr> regs := (regs v)(a := ds) \<rparr>)"
  by (simp_all add: widths_def with_status_def reg_width_def)

lemma widths_execute: "widths v \<Longrightarrow> widths (nrf_execute ds v)"
  by (cases ds) simp_all

lemma widths_transmit: "widths v \<Longrightarrow> widths (nrf_transmit ok v)"
  by (simp add: nrf_transmit_def)

lemma low_command: "(a :: u8) < 0x20 \<Longrightarrow> unat (0x20 + a) = 0x20 + unat a"
  by (simp add: unat_word_ariths word_less_nat_alt)

lemma flag_set: "and st 0x70 = 0 \<Longrightarrow> and (or st f) 0x70 = and f 0x70" for st :: u8
  by (simp add: bit.conj_disj_distrib2)

lemma fresh_history: "set h \<subseteq> {Garbled 0xFF, Ce False} \<Longrightarrow> nrf_after peer ps h = nrf_powered ps"
proof (induction h rule: rev_induct)
  case (snoc e h)
  then show ?case by (auto simp: nrf_powered_def)
qed (simp add: nrf_after_def)

interpretation n24: nrf24 "nrf_miso peer ps" "nrf_irq peer ps" "nrf_idle peer ps" "\<lambda>h. v_of (nrf_after peer ps h)"
  for peer ps
proof
  fix h :: "spi_event list" and a c x :: u8 and ds p qs and v :: bool
  assume h: "nrf_idle peer ps h"
  let ?c = "nrf_after peer ps h"
  have w: "widths (v_of ?c)" "\<not> selected ?c" using h by (simp_all add: nrf_idle_def)
  show "nrf_idle peer ps (h @ frame c ds)"
    using widths_execute [OF w(1)] by (simp add: nrf_idle_def nrf_frame del: nrf_execute.simps)
  show "nrf_idle peer ps (h @ [Ce v])"
    using w widths_transmit by (cases v) (simp_all add: nrf_idle_def)
  show "nrf_idle peer ps (h @ [Pause])" using w by (simp add: nrf_idle_def)
  show "length (regs (v_of ?c) a) = reg_width a" using w(1) by (simp add: widths_def)
  show "nrf_miso peer ps (h @ Csn False # map Byte (a # ds)) = regs (v_of ?c) a ! length ds" if "a < 0x20"
    unfolding nrf_miso_def nrf_after_append nrf_open_frame using that by simp
  show "v_of (nrf_after peer ps (h @ frame a ds)) = v_of ?c" if "a < 0x20"
    using that by (auto simp: nrf_frame word_less_nat_alt word_le_nat_alt)
  show "v_of (nrf_after peer ps (h @ frame (0x20 + a) ds)) = (v_of ?c) \<lparr> regs := (regs (v_of ?c))(a := ds) \<rparr>"
    if "a < 0x20" "a \<noteq> 7" "length ds = reg_width a"
  proof -
    have "unat (0x20 + a) = 0x20 + unat a" "unat a < 32"
      using that(1) low_command by (simp_all add: word_less_nat_alt)
    then have c: "0x20 \<le> 0x20 + a" "0x20 + a < 0x40" "0x20 + a \<noteq> 0x27"
      using that(2) by (auto simp: word_less_nat_alt word_le_nat_alt)
    then show ?thesis using that(3) by (simp add: nrf_frame)
  qed
  show "v_of (nrf_after peer ps (h @ frame 0x27 [x])) = with_status (cleared x (nrf_status (v_of ?c))) (v_of ?c)"
    by (simp add: nrf_frame)
  show "v_of (nrf_after peer ps (h @ frame 0xA0 ds)) = (v_of ?c) \<lparr> tx_queue := [ds] \<rparr>" if "tx_queue (v_of ?c) = []"
    using that by (simp add: nrf_frame)
  show "v_of (nrf_after peer ps (h @ frame 0xE1 [x])) = (v_of ?c) \<lparr> tx_queue := [] \<rparr>" by (simp add: nrf_frame)
  show "v_of (nrf_after peer ps (h @ frame 0xE2 [x])) = (v_of ?c) \<lparr> rx_queue := [] \<rparr>" by (simp add: nrf_frame)
  show "nrf_miso peer ps (h @ Csn False # map Byte (0x61 # ds)) = p ! length ds" if "rx_queue (v_of ?c) = p # qs"
    unfolding nrf_miso_def nrf_after_append nrf_open_frame using that by simp
  show "v_of (nrf_after peer ps (h @ frame 0x61 ds)) = (v_of ?c) \<lparr> rx_queue := qs \<rparr>" if "rx_queue (v_of ?c) = p # qs"
    using that by (simp add: nrf_frame)
  show "v_of (nrf_after peer ps (h @ [Ce False])) = v_of ?c" by simp
  show "v_of (nrf_after peer ps (h @ [Ce True])) = v_of ?c" if "tx_queue (v_of ?c) = []" using that by simp
  show "(\<exists>n. \<not> nrf_irq peer ps (h @ [Ce True]) n)
      \<and> (\<exists>st. (and st 0x70 = TX_OK \<and> v_of (nrf_after peer ps (h @ [Ce True]))
            = with_status st ((v_of ?c) \<lparr> tx_queue := [], acked := acked (v_of ?c) @ [p] \<rparr>))
          \<or> (and st 0x70 = MAX_TX \<and> v_of (nrf_after peer ps (h @ [Ce True])) = with_status st (v_of ?c)))"
    if "\<not> enabled h" "tx_mode (v_of ?c)" "tx_queue (v_of ?c) = [p]" "and (nrf_status (v_of ?c)) 0x70 = 0"
  proof -
    have "\<not> ce_line ?c" "\<not> bit (hd (regs (v_of ?c) CONFIG)) 0"
      using that(1,2) by (simp_all add: nrf_enabled tx_mode_def)
    then have v: "v_of (nrf_after peer ps (h @ [Ce True])) = nrf_transmit (peer (tries ?c)) (v_of ?c)"
      using that(3) by simp
    have st: "and (or (nrf_status (v_of ?c)) TX_OK) 0x70 = TX_OK" "and (or (nrf_status (v_of ?c)) MAX_TX) 0x70 = MAX_TX"
      by (simp_all add: flag_set [OF that(4)]) (simp_all add: TX_OK_def MAX_TX_def)
    have "and (nrf_status (nrf_transmit ok (v_of ?c))) 0x70 \<noteq> 0" for ok
      using st by (cases ok) (simp_all add: nrf_transmit_def TX_OK_def MAX_TX_def)
    then have "\<not> nrf_irq peer ps (h @ [Ce True]) 3" unfolding nrf_irq_def v by simp
    moreover have "nrf_transmit (peer (tries ?c)) (v_of ?c)
        = (if peer (tries ?c) then with_status (or (nrf_status (v_of ?c)) TX_OK) ((v_of ?c) \<lparr> tx_queue := [], acked := acked (v_of ?c) @ [p] \<rparr>)
           else with_status (or (nrf_status (v_of ?c)) MAX_TX) (v_of ?c))"
      by (simp add: nrf_transmit_def that(3))
    ultimately show ?thesis unfolding v using st by (cases "peer (tries ?c)") auto
  qed
next
  fix h assume "set h \<subseteq> {Garbled 0xFF, Ce False}"
  from fresh_history [OF this, of peer ps]
  show "nrf_idle peer ps (h @ [Csn True]) \<and> tx_queue (v_of (nrf_after peer ps (h @ [Csn True]))) = []
      \<and> rx_queue (v_of (nrf_after peer ps (h @ [Csn True]))) = [] \<and> acked (v_of (nrf_after peer ps (h @ [Csn True]))) = []
      \<and> and (nrf_status (v_of (nrf_after peer ps (h @ [Csn True])))) 0x70 = 0"
    by (simp add: nrf_idle_def nrf_powered_def widths_def nrf_status_def reg_width_def)
qed

section \<open>Properties\<close>

definition fresh_port :: spi_port where
  "fresh_port = \<lparr> clk_polarity = 0, clk_phase = 0, cr1 = 0, events = [] \<rparr>"

lemma sample_radio:
  fixes peer :: "nat \<Rightarrow> bool" and ps :: "u8 list list"
  defines "s \<equiv> NRF24L01_TX_Mode (nrf_miso peer ps) (snd (NRF24L01_Init (nrf_miso peer ps) fresh_port))"
  shows "at_rest (nrf_idle peer ps) (\<lambda>h. v_of (nrf_after peer ps h)) s" "tx_mode (v_of (nrf_after peer ps (events s)))"
    "acked (v_of (nrf_after peer ps (events s))) = []"
  using n24.initialised [of fresh_port peer ps] n24.ready_to_send [of peer ps "snd (NRF24L01_Init (nrf_miso peer ps) fresh_port)"]
  by (simp_all add: s_def fresh_port_def)

text \<open>
  With a chip that keeps its data sheet and is set to send, \<open>NRF24L01_TxPacket\<close> always returns, loads
  exactly the 32 bytes at its pointer, and tells the truth: \<open>TX_OK\<close> when the partner has
  acknowledged the packet, \<open>MAX_TX\<close> when it has not, in which case the packet is thrown away; either
  way the flags and the queue are clear, so the next packet can be sent.
\<close>

theorem NRF24L01_TxPacket_tells_the_outcome:
  assumes "nrf24 miso irq idle view" and "at_rest idle view s" and "tx_mode (view (events s))"
  shows "\<exists>r s'. NRF24L01_TxPacket miso irq txbuf s = Some (r, s')
    \<and> at_rest idle view s' \<and> tx_mode (view (events s'))
    \<and> (r = TX_OK \<and> acked (view (events s')) = acked (view (events s)) @ [map txbuf [0..<32]]
       \<or> r = MAX_TX \<and> acked (view (events s')) = acked (view (events s)))"
  using nrf24.packet_sent [OF assms] by blast

theorem NRF24L01_TxPacket_tells_the_outcome_witness:
  "\<exists>r s'. NRF24L01_TxPacket (nrf_miso (\<lambda>n. even n) []) (nrf_irq (\<lambda>n. even n) []) (\<lambda>i. of_nat i)
      (NRF24L01_TX_Mode (nrf_miso (\<lambda>n. even n) []) (snd (NRF24L01_Init (nrf_miso (\<lambda>n. even n) []) fresh_port))) = Some (r, s')
    \<and> (r = TX_OK \<and> acked (v_of (nrf_after (\<lambda>n. even n) [] (events s'))) = [map of_nat [0..<32]]
       \<or> r = MAX_TX \<and> acked (v_of (nrf_after (\<lambda>n. even n) [] (events s'))) = [])"
  using NRF24L01_TxPacket_tells_the_outcome [OF n24.nrf24_axioms sample_radio(1,2) [of "\<lambda>n. even n" "[]"], of "\<lambda>i. of_nat i"]
    sample_radio(3) [of "\<lambda>n. even n" "[]"] by auto

text \<open>
  \<open>NRF24L01_RxPacket\<close> returns 0 with the oldest packet that has arrived, byte for byte, and clears
  the flag; without the flag it returns 1 and takes nothing. It flushes the queue after the
  packet it took, so packets that arrived behind it before the call are lost.
\<close>

theorem NRF24L01_RxPacket_takes_one_packet:
  assumes "nrf24 miso irq idle view" and "mode_0 s" "idle (events s)"
  defines "v \<equiv> view (events s)" and "r \<equiv> NRF24L01_RxPacket miso s"
  shows "(and (nrf_status v) RX_OK = 0 \<longrightarrow> fst r = 1 \<and> rx_queue (view (events (snd (snd r)))) = rx_queue v)
    \<and> (\<forall>p ps. and (nrf_status v) RX_OK \<noteq> 0 \<and> rx_queue v = p # ps \<and> length p = 32 \<longrightarrow>
         fst r = 0 \<and> fst (snd r) = Some p \<and> rx_queue (view (events (snd (snd r)))) = []
         \<and> and (nrf_status (view (events (snd (snd r))))) RX_OK = 0)"
  using nrf24.packet_taken [OF assms(1-3)] by (auto simp: v_def r_def)

text \<open>Two packets arrive at a chip in receiving mode; the first is taken and both are gone.\<close>

definition receiving :: "u8 list list \<Rightarrow> spi_port" where
  "receiving ps = \<lparr> clk_polarity = 0, clk_phase = 0, cr1 = 0, events = frame 0x20 [0x0F] @ [Ce True, Pause, Pause] \<rparr>"

lemma receiving_view:
  assumes "ps = [replicate 32 1, replicate 32 2]"
  shows "rx_queue (v_of (nrf_after peer ps (events (receiving ps)))) = ps"
    and "and (nrf_status (v_of (nrf_after peer ps (events (receiving ps))))) RX_OK \<noteq> 0"
    and "nrf_idle peer ps (events (receiving ps))" and "mode_0 (receiving ps)"
proof -
  let ?v = "(v_of (nrf_powered ps)) \<lparr> regs := (regs (v_of (nrf_powered ps)))(0 := [0x0F]) \<rparr>"
  have c: "foldl (nrf_step peer) (nrf_powered ps) (frame 0x20 [0x0F]) = (nrf_powered ps)
      \<lparr> taken := [0x20, 0x0F], v_of := ?v \<rparr>"
    by (simp add: nrf_frame reg_width_def) (simp add: nrf_powered_def)
  have st: "nrf_status ?v = 0" by (simp add: nrf_status_def nrf_powered_def reg_width_def)
  have after: "nrf_after peer ps (events (receiving ps)) = foldl (nrf_step peer) (foldl (nrf_step peer) (nrf_powered ps) (frame 0x20 [0x0F])) [Ce True, Pause, Pause]"
    by (simp add: nrf_after_def receiving_def)
  have run: "v_of (nrf_after peer ps (events (receiving ps))) = with_status RX_OK (?v \<lparr> rx_queue := ps \<rparr>)
      \<and> \<not> selected (nrf_after peer ps (events (receiving ps)))"
    unfolding after c
    by (simp add: assms nrf_powered_def CONFIG_def with_status_def nrf_status_def reg_width_def RX_OK_def)
  show "rx_queue (v_of (nrf_after peer ps (events (receiving ps)))) = ps"
    "and (nrf_status (v_of (nrf_after peer ps (events (receiving ps))))) RX_OK \<noteq> 0"
    using run by (simp_all add: RX_OK_def)
  show "nrf_idle peer ps (events (receiving ps))"
    using run by (auto simp: nrf_idle_def widths_def with_status_def nrf_powered_def reg_width_def)
  show "mode_0 (receiving ps)" by (simp add: mode_0_def receiving_def)
qed

theorem NRF24L01_RxPacket_takes_one_packet_witness:
  "let ps = [replicate 32 1, replicate 32 2]; r = NRF24L01_RxPacket (nrf_miso (\<lambda>n. True) ps) (receiving ps)
   in fst r = 0 \<and> fst (snd r) = Some (replicate 32 1) \<and> rx_queue (v_of (nrf_after (\<lambda>n. True) ps (events (snd (snd r))))) = []"
  using NRF24L01_RxPacket_takes_one_packet [OF n24.nrf24_axioms
      receiving_view(4) [OF refl] receiving_view(3) [OF refl, where peer = "\<lambda>n. True"]] receiving_view(1,2) [OF refl, where peer = "\<lambda>n. True"]
  by (simp add: Let_def)

text \<open>
  \<open>NRF24L01_Check\<close> finds a chip that keeps its data sheet, and leaves the test pattern in its
  address for sending; with no chip on the port, when every answer is the level of an open line or
  any other constant but the pattern, it reports the failure. \<open>NRF24L01_Init\<close> returns 0 in both cases.
\<close>

theorem NRF24L01_Check_finds_the_chip:
  assumes "nrf24 miso irq idle view" and "mode_0 s" "idle (events s)" and "x \<noteq> 0xA5"
  shows "fst (NRF24L01_Check miso s) = 0
    \<and> regs (view (events (snd (NRF24L01_Check miso s)))) TX_ADDR = replicate 5 0xA5
    \<and> fst (NRF24L01_Check (\<lambda>h. x) s) = 1
    \<and> fst (NRF24L01_Init miso s) = 0 \<and> fst (NRF24L01_Init (\<lambda>h. x) s) = 0"
proof -
  define s1 where "s1 = write_address (\<lambda>h. x) TX_ADDR (\<lambda>i. [0xA5, 0xA5, 0xA5, 0xA5, 0xA5] ! i) 5
    (SPI2_SetSpeed SPI_BAUDRATEPRESCALER_8 s)"
  have "mode_0 s1" using assms(2) by (simp add: s1_def driver)
  then have "fst (snd (NRF24L01_Read_Buf (\<lambda>h. x) TX_ADDR 5 s1)) = replicate 5 x"
    by (simp add: driver map_replicate_const)
  moreover have "first_differing (replicate 5 x) = 0" using assms(4) by (simp add: numeral_eq_Suc)
  ultimately have "first_differing (fst (snd (NRF24L01_Read_Buf (\<lambda>h. x) TX_ADDR 5 s1))) = 0" by simp
  then have "fst (NRF24L01_Check (\<lambda>h. x) s) = 1"
    by (simp add: NRF24L01_Check_def Let_def split_beta s1_def [symmetric])
  then show ?thesis
    using nrf24.check_finds(1) [OF assms(1-3)] nrf24.check_address [OF assms(1-3)] by (simp add: NRF24L01_Init_def Let_def)
qed

theorem NRF24L01_Check_finds_the_chip_witness:
  "fst (NRF24L01_Check (nrf_miso (\<lambda>n. True) []) fresh_port) = 0 \<and> fst (NRF24L01_Check (\<lambda>h. 0xFF) fresh_port) = 1"
proof -
  have "mode_0 fresh_port" "nrf_idle (\<lambda>n. True) [] (events fresh_port)"
    by (simp_all add: fresh_port_def mode_0_def nrf_idle_def nrf_after_def nrf_powered_def widths_def)
  from NRF24L01_Check_finds_the_chip [OF n24.nrf24_axioms this, of "0xFF"] show ?thesis by simp
qed

end
