(* ===== verification/Radio_Facts.thy ===== *)
theory Radio_Facts
  imports Radio_Chip Center_Facts
begin

text \<open>
  The radio thread of \<open>applications/main.c\<close> with its driver: histories of the whole controller in
  which the packets really go through \<open>NRF24L01_TxPacket\<close>, and what the partner has acknowledged
  after them.
\<close>

section \<open>The thread on its driver\<close>

text \<open>A string literal as the driver reads it, with its NUL.\<close>

definition literal :: "string \<Rightarrow> buffer" where
  "literal s i = (map of_char s @ [0]) ! i"

definition key_packet :: "u8 \<Rightarrow> string option" where
  "key_packet key =
     (if key = left then Some (packet CHR ''8'')
      else if key = right then Some (packet CHR ''9'')
      else if key = stop then Some (packet CHR ''7'')
      else None)"

definition radio_turn :: "miso \<Rightarrow> irq_line \<Rightarrow> center \<times> spi_port \<Rightarrow> (center \<times> spi_port) cres" where
  "radio_turn chip irq = (\<lambda>(c, s).
     case mb_get (nrf_mb c) of
       (None, mb) \<Rightarrow> Ret (c \<lparr> nrf_mb := mb \<rparr>, s)
     | (Some v, mb) \<Rightarrow>
         let key = ucast v; c = c \<lparr> nrf_mb := mb \<rparr>
         in case key_packet key of
              None \<Rightarrow> Ret (nrf_command False key c, s)
            | Some p \<Rightarrow>
                case NRF24L01_TxPacket chip irq (literal p) s of
                  None \<Rightarrow> Spin
                | Some (r, s) \<Rightarrow> Ret (nrf_command (r = TX_OK) key c, s))"

text \<open>Steps and histories of \<open>Histories\<close>, with the driver in the place of the outcome of \<open>Radio\<close>.\<close>

fun radio_act :: "u16 \<Rightarrow> u16 \<Rightarrow> (rat \<Rightarrow> rat) \<Rightarrow> miso \<Rightarrow> irq_line \<Rightarrow> action \<Rightarrow> center \<times> spi_port \<Rightarrow> (center \<times> spi_port) cres" where
  "radio_act width height fl chip irq (Radio _) cs = radio_turn chip irq cs"
| "radio_act width height fl chip irq a cs = cbind (act width height fl a (fst cs)) (\<lambda>c. Ret (c, snd cs))"

fun radio_run :: "u16 \<Rightarrow> u16 \<Rightarrow> (rat \<Rightarrow> rat) \<Rightarrow> miso \<Rightarrow> irq_line \<Rightarrow> action list \<Rightarrow> center \<times> spi_port \<Rightarrow> (center \<times> spi_port) cres" where
  "radio_run width height fl chip irq [] cs = Ret cs"
| "radio_run width height fl chip irq (a # as) cs =
     cbind (radio_act width height fl chip irq a cs) (radio_run width height fl chip irq as)"

section \<open>Only the radio thread uses the radio\<close>

definition air_is :: "(string \<times> bool) list \<Rightarrow> center \<Rightarrow> bool" where
  "air_is A c \<longleftrightarrow> air c = A"

named_theorems keeps_air \<comment> \<open>which operations send no packet\<close>

lemma air_is_updates [simp]:
  "air_is A (c \<lparr> ui := p \<rparr>) = air_is A c" "air_is A (c \<lparr> red_led := b \<rparr>) = air_is A c"
  "air_is A (c \<lparr> modem := g \<rparr>) = air_is A c" "air_is A (c \<lparr> color_flag := b \<rparr>) = air_is A c"
  "air_is A (c \<lparr> sms_alive := b \<rparr>) = air_is A c" "air_is A (c \<lparr> gsm_sem := n \<rparr>) = air_is A c"
  "air_is A (c \<lparr> temp := t \<rparr>) = air_is A c" "air_is A (c \<lparr> humi := t \<rparr>) = air_is A c"
  "air_is A (c \<lparr> mq := v \<rparr>) = air_is A c" "air_is A (c \<lparr> hz := v \<rparr>) = air_is A c"
  "air_is A (c \<lparr> bss_overrun := k \<rparr>) = air_is A c" "air_is A (c \<lparr> lamp_wait := b \<rparr>) = air_is A c"
  "air_is A (c \<lparr> gsm_mb := mb \<rparr>) = air_is A c" "air_is A (c \<lparr> nrf_mb := mb \<rparr>) = air_is A c"
  "air_is A (c \<lparr> sec_pc := pc \<rparr>) = air_is A c" "air_is A (c \<lparr> beep := b \<rparr>) = air_is A c"
  "air_is A (c \<lparr> sys_status := m \<rparr>) = air_is A c"
  "air_is A (show_lcd cs c) = air_is A c" "air_is A (set_corridor b c) = air_is A c"
  "air_is A (post_gsm code c) = air_is A c" "air_is A (post_nrf q c) = air_is A c"
  by (simp_all add: air_is_def show_lcd_def set_corridor_def post_gsm_def post_nrf_def)

lemma keys_air [keeps_air]:
  "air_is A c \<Longrightarrow> air_is A (Light_Control v c)" "air_is A c \<Longrightarrow> air_is A (toggle_mode w c)"
  by (simp_all add: Light_Control_def toggle_mode_def Let_def)

lemma irda_key_air [keeps_air]: "air_is A c \<Longrightarrow> air_is A (irda_key w k c)"
  by (simp add: irda_key_def keeps_air)

lemma IRDA_air: "air_is A c \<Longrightarrow> IRDA_thread w scans c = Some c' \<Longrightarrow> air_is A c'"
  by (auto simp: IRDA_thread_def keeps_air split: list.splits if_splits)

lemma GSM_air [keeps_air]:
  "air_is A c \<Longrightarrow> air_is A (GSM_send_thread h c)" "air_is A c \<Longrightarrow> air_is A (GSM_thread c)"
  by (simp_all add: GSM_send_thread_def GSM_thread_def split: prod.split option.split)

lemma sms_dispatch_air: "air_is A c \<Longrightarrow> air_is A (sms_dispatch w c)"
  by (simp add: sms_dispatch_def sms_set_mode_def Let_def keeps_air)

lemma sms_ask_air:
  "air_is A c \<Longrightarrow> (\<And>c. air_is A c \<Longrightarrow> air_is A (k c)) \<Longrightarrow> air_is A (sms_ask s k c)"
  by (simp add: sms_ask_def sms_stop_def split: prod.split bool.split)

lemma sms_fetch_air: "air_is A c \<Longrightarrow> air_is A (sms_fetch w i c)"
  unfolding sms_fetch_def Let_def
  by (rule sms_ask_air) (auto intro!: sms_ask_air simp: sms_done_def sms_dispatch_air)

lemma sms_loop_air: "air_is A c \<Longrightarrow> air_is A (sms_loop w c)"
proof (induction w c rule: sms_loop.induct)
  case (1 w c)
  then show ?case
    by (subst sms_loop.simps)
      (auto simp: sms_done_def sms_stop_def Let_def sms_fetch_air split: option.split prod.split bool.split)
qed

lemma GSM_read_air [keeps_air]: "air_is A c \<Longrightarrow> air_is A (GSM_read_thread w h c)"
  by (simp add: GSM_read_thread_def Let_def sms_loop_air)

lemma security_air [keeps_air]: "air_is A c \<Longrightarrow> air_is A (security_thread b c)"
  by (simp add: security_thread_def check_intruder_def check_gas_def check_fire_def alarm_on_def
      alarm_off_def split: sec_pc.split)

lemma sensors_air [keeps_air]:
  "air_is A c \<Longrightarrow> air_is A (Corridor_Light_thread n b c)"
  "air_is A c \<Longrightarrow> air_is A (Get_Sensor_Status_thread fl l m h c)"
  by (simp_all add: Corridor_Light_thread_def Get_Sensor_Status_thread_def show_value_def sprintf_bss_def Let_def
      case_prod_beta)

lemma on_cond_air: "air_is A c \<Longrightarrow> (air_is A c \<Longrightarrow> air_is A (f c)) \<Longrightarrow> air_is A (on_cond b f c)"
  by (rule on_cond_inv)

lemma post_nrf_air [keeps_air]: "air_is A c \<Longrightarrow> air_is A (post_nrf k c)"
  by simp

lemma touch_areas_air [keeps_air]: "air_is A c \<Longrightarrow> air_is A (touch_areas w x y c)"
  unfolding touch_areas_def Let_def by (intro on_cond_air keeps_air)

lemma touch_air: "air_is A c \<Longrightarrow> touch_thread w h x y ss c = Ret (q, c') \<Longrightarrow> air_is A c'"
  by (auto simp: touch_thread_def cbind_Ret_iff Let_def keeps_air split: if_splits prod.splits)

lemma web_params_air:
  "air_is A c \<Longrightarrow> air_is A (leds_param pv c)" "air_is A c \<Longrightarrow> air_is A (beep_param pv c)"
  "air_is A c \<Longrightarrow> air_is A (mode_param w pv c)"
  by (simp_all add: leds_param_def beep_param_def mode_param_def Let_def beep_warning_result split: prod.split)

lemma web_air [keeps_air]:
  "air_is A c \<Longrightarrow> air_is A (snd (LEDS_CGI_Handler ps c))"
  "air_is A c \<Longrightarrow> air_is A (snd (BEEP_CGI_Handler ps c))"
  "air_is A c \<Longrightarrow> air_is A (snd (MODE_CGI_Handler w ps c))"
  by (simp_all add: LEDS_CGI_Handler_def BEEP_CGI_Handler_def MODE_CGI_Handler_def Let_def
      foldl_inv [where P = "air_is A"] web_params_air)

lemma form_air [keeps_air]:
  "air_is A c \<Longrightarrow> i < length (ppcURLs w) \<Longrightarrow> air_is A (snd (snd (ppcURLs w ! i) ps c))"
  by (erule forms_cases) (simp_all add: keeps_air)

fun is_radio :: "action \<Rightarrow> bool" where
  "is_radio (Radio _) = True"
| "is_radio _ = False"

lemma act_air: "air_is A c \<Longrightarrow> \<not> is_radio a \<Longrightarrow> act w h fl a c = Ret c' \<Longrightarrow> air_is A c'"
proof (induction w h fl a c rule: act.induct)
  case (1 w h fl scans c)
  then show ?case using IRDA_air by (auto split: option.splits)
next
  case (2 w h fl x y ss c)
  then show ?case using touch_air by (auto simp: cbind_Ret_iff)
qed (auto intro: keeps_air split: if_splits)

section \<open>Histories with the driver\<close>

text \<open>The packets that were sent, as bytes.\<close>

definition heard :: "(string \<times> bool) list \<Rightarrow> u8 list list" where
  "heard ps = map (\<lambda>(p, _). map of_char p) (filter snd ps)"

definition linked :: "(spi_event list \<Rightarrow> bool) \<Rightarrow> (spi_event list \<Rightarrow> nrf_view) \<Rightarrow> center \<times> spi_port \<Rightarrow> bool" where
  "linked idle view = (\<lambda>(c, s). at_rest idle view s \<and> tx_mode (view (events s))
     \<and> acked (view (events s)) = heard (air c))"

definition same_but_radio :: "action \<Rightarrow> action \<Rightarrow> bool" where
  "same_but_radio a b \<longleftrightarrow> a = b \<or> is_radio a \<and> is_radio b"

lemma same_but_radio_rules [simp]: "same_but_radio a a" "same_but_radio (Radio x) (Radio y)"
  by (simp_all add: same_but_radio_def)

lemma heard_snoc: "heard (ps @ [(p, sent)]) = heard ps @ (if sent then [map of_char p] else [])"
  by (simp add: heard_def)

lemma length_packet [simp]: "length (packet ch) = 32"
  by (simp add: packet_def)

lemma literal_bytes: "map (literal s) [0..<length s] = map of_char s"
  by (rule nth_equalityI) (simp_all add: literal_def nth_append)

lemma key_packet_air:
  "key_packet k = Some p \<Longrightarrow> length p = 32 \<and> air (nrf_command sent k c) = air c @ [(p, sent)]"
  by (auto simp: key_packet_def nrf_command_def nrf_open_def nrf_close_def nrf_stop_def show_lcd_def key_code_defs Let_def
      split: if_splits)

lemma no_packet_air: "key_packet k = None \<Longrightarrow> nrf_command sent k c = nrf_command False k c \<and> air (nrf_command sent k c) = air c"
  by (auto simp: key_packet_def nrf_command_def Let_def split: if_splits)

context nrf24
begin

lemma radio_turn_linked:
  assumes "linked idle view (c, s)"
  shows "\<exists>sent s'. radio_turn miso irq (c, s) = Ret (NRF2401_thread sent c, s') \<and> linked idle view (NRF2401_thread sent c, s')"
proof -
  have s: "at_rest idle view s" "tx_mode (view (events s))" "acked (view (events s)) = heard (air c)"
    using assms by (simp_all add: linked_def)
  obtain r mb where g: "mb_get (nrf_mb c) = (r, mb)" by (cases "mb_get (nrf_mb c)")
  show ?thesis
  proof (cases r)
    case None
    with g assms show ?thesis
      by (intro exI [of _ False] exI [of _ s]) (simp add: radio_turn_def NRF2401_thread_def linked_def)
  next
    case (Some v)
    let ?k = "ucast v :: u8" and ?c = "c \<lparr> nrf_mb := mb \<rparr>"
    have thread: "NRF2401_thread sent c = nrf_command sent ?k ?c" for sent
      using g Some by (simp add: NRF2401_thread_def)
    show ?thesis
    proof (cases "key_packet ?k")
      case None
      with g Some s no_packet_air [OF None, of False ?c] show ?thesis
        by (intro exI [of _ False] exI [of _ s]) (simp add: radio_turn_def thread linked_def)
    next
      case p: (Some p)
      note sent = packet_sent [OF s(1,2), of "literal p"]
      have "map (literal p) [0..<32] = map of_char p" using key_packet_air [OF p] literal_bytes [of p] by simp
      with sent obtain q s' where q: "NRF24L01_TxPacket miso irq (literal p) s = Some (q, s')" "at_rest idle view s'"
        "tx_mode (view (events s'))" "q = TX_OK \<and> acked (view (events s')) = acked (view (events s)) @ [map of_char p]
          \<or> q = MAX_TX \<and> acked (view (events s')) = acked (view (events s))"
        by auto
      have "air (nrf_command (q = TX_OK) ?k ?c) = air c @ [(p, q = TX_OK)]"
        using key_packet_air [OF p, of "q = TX_OK" ?c] by simp
      then have "acked (view (events s')) = heard (air (nrf_command (q = TX_OK) ?k ?c))"
        using q(4) s(3) by (auto simp: heard_snoc TX_OK_def MAX_TX_def)
      with g Some p q(1-3) show ?thesis
        by (intro exI [of _ "q = TX_OK"] exI [of _ s']) (simp add: radio_turn_def thread linked_def Let_def)
    qed
  qed
qed

lemma radio_run_linked:
  "linked idle view (c, s) \<Longrightarrow> \<exists>as'. list_all2 same_but_radio as as'
    \<and> (case radio_run width height fl miso irq as (c, s) of
         Ret (c', s') \<Rightarrow> run width height fl as' c = Ret c' \<and> linked idle view (c', s')
       | Fault \<Rightarrow> run width height fl as' c = Fault
       | Spin \<Rightarrow> run width height fl as' c = Spin)"
proof (induction as arbitrary: c s)
  case (Cons a as)
  show ?case
  proof (cases "is_radio a")
    case True
    then obtain b where a: "a = Radio b" by (cases a) auto
    obtain sent s1 where t: "radio_turn miso irq (c, s) = Ret (NRF2401_thread sent c, s1)"
      "linked idle view (NRF2401_thread sent c, s1)"
      using radio_turn_linked [OF Cons.prems] by blast
    from Cons.IH [OF t(2)] obtain as' where "list_all2 same_but_radio as as'"
      "case radio_run width height fl miso irq as (NRF2401_thread sent c, s1) of
         Ret (c', s') \<Rightarrow> run width height fl as' (NRF2401_thread sent c) = Ret c' \<and> linked idle view (c', s')
       | Fault \<Rightarrow> run width height fl as' (NRF2401_thread sent c) = Fault
       | Spin \<Rightarrow> run width height fl as' (NRF2401_thread sent c) = Spin" by blast
    moreover have "run width height fl (Radio sent # as') c = run width height fl as' (NRF2401_thread sent c)" by simp
    moreover have "radio_run width height fl miso irq (a # as) (c, s) = radio_run width height fl miso irq as (NRF2401_thread sent c, s1)"
      by (simp add: a t(1))
    ultimately show ?thesis
      by (intro exI [of _ "Radio sent # as'"]) (simp only: a list_all2_Cons same_but_radio_rules simp_thms)
  next
    case False
    have step: "radio_act width height fl miso irq a (c, s) = cbind (act width height fl a c) (\<lambda>c. Ret (c, s))"
      using False by (cases a) simp_all
    show ?thesis
    proof (cases "act width height fl a c")
      case (Ret c1)
      have "air_is (air c) c1" by (rule act_air [OF _ False Ret]) (simp add: air_is_def)
      then have "linked idle view (c1, s)" using Cons.prems by (simp add: linked_def air_is_def)
      from Cons.IH [OF this] obtain as' where "list_all2 same_but_radio as as'"
        "case radio_run width height fl miso irq as (c1, s) of
           Ret (c', s') \<Rightarrow> run width height fl as' c1 = Ret c' \<and> linked idle view (c', s')
         | Fault \<Rightarrow> run width height fl as' c1 = Fault
         | Spin \<Rightarrow> run width height fl as' c1 = Spin" by blast
      moreover have "run width height fl (a # as') c = run width height fl as' c1" by (simp add: Ret)
      moreover have "radio_run width height fl miso irq (a # as) (c, s) = radio_run width height fl miso irq as (c1, s)"
        by (simp add: step Ret)
      ultimately show ?thesis
        by (intro exI [of _ "a # as'"]) (simp only: list_all2_Cons same_but_radio_rules simp_thms)
    next
      case Fault
      then show ?thesis
        by (intro exI [of _ "a # as"]) (simp add: step list_all2_same)
    next
      case Spin
      then show ?thesis
        by (intro exI [of _ "a # as"]) (simp add: step list_all2_same)
    qed
  qed
qed (simp add: linked_def)

end

section \<open>Properties\<close>

text \<open>What the partner is told, by the packets it has acknowledged: 1 open, 0 closed.\<close>

definition curtain_told :: "u8 list list \<Rightarrow> u8" where
  "curtain_told = foldl (\<lambda>s p.
     if p = map of_char (packet CHR ''8'') then 1 else if p = map of_char (packet CHR ''9'') then 0 else s) 1"

lemma of_char_inj: "(map of_char s = (map of_char t :: u8 list)) = (s = t)"
proof -
  have "inj (of_char :: char \<Rightarrow> u8)"
  proof (rule injI)
    fix a b :: char assume "(of_char a :: u8) = of_char b"
    moreover have "unat (of_char c :: u8) = of_char c" for c :: char
      unfolding of_nat_of_char [symmetric, where ?'a = u8 and c = c] by (simp add: unsigned_of_nat take_bit_eq_mod)
    ultimately have "(of_char a :: nat) = of_char b" by metis
    then show "a = b" by simp
  qed
  then show ?thesis by (simp add: inj_map_eq_map)
qed

lemma curtain_told_heard: "curtain_told (heard ps) = curtain_after ps"
proof -
  have "foldl (\<lambda>s p. if p = map of_char (packet CHR ''8'') then 1
        else if p = map of_char (packet CHR ''9'') then 0 else s) u (heard ps)
      = foldl (\<lambda>s (p, sent). if sent \<and> p = packet CHR ''8'' then 1
        else if sent \<and> p = packet CHR ''9'' then 0 else s) u ps" for u :: u8
    by (induction ps arbitrary: u) (auto simp: heard_def of_char_inj split: prod.splits)
  then show ?thesis by (simp add: curtain_told_def curtain_after_def)
qed

text \<open>The port after the board has started: the chip initialised and set to send.\<close>

definition started_radio :: "miso \<Rightarrow> spi_port \<Rightarrow> spi_port" where
  "started_radio chip s = NRF24L01_TX_Mode chip (snd (NRF24L01_Init chip s))"

context nrf24
begin

lemma started_linked:
  assumes "events s = []" and "air c = []"
  shows "linked idle view (c, started_radio miso s)"
  using initialised [OF assms(1)] ready_to_send [of "snd (NRF24L01_Init miso s)"] assms(2)
  by (simp add: linked_def started_radio_def heard_def)

lemma history_linked:
  assumes "events s = []" and "length pool = 4" "length pool' = 4"
    and "radio_run width height fl miso irq as (Smart_IOT_Center width p g pool pool', started_radio miso s) = Ret (c, s')"
  shows "acked (view (events s')) = heard (air c) \<and> curtain_status c = curtain_told (acked (view (events s')))"
proof -
  let ?c = "Smart_IOT_Center width p g pool pool'"
  have l: "linked idle view (?c, started_radio miso s)"
    by (rule started_linked [OF assms(1)]) (simp add: Smart_IOT_Center_def)
  obtain as' where "run width height fl as' ?c = Ret c" "linked idle view (c, s')"
    using radio_run_linked [OF l, of as width height fl] assms(4) by auto
  moreover have "center_ok c" by (rule run_ok [OF calculation(1) start_ok [OF assms(2,3)]])
  ultimately show ?thesis by (simp add: linked_def curtain_told_heard center_ok_def)
qed

end

text \<open>
  C2. The curtain is where the controller says it is. In every history of the whole controller in
  which the radio packets go through the driver, from power-up on, with a chip that keeps its data
  sheet: the packets acknowledged by the partner are exactly those the radio thread counted as
  sent, in order, and the status of the curtain that the web page and the messages report is what
  the acknowledged packets make of it, however many packets were lost. No wait for the radio
  lasts for ever: a history ends in every way only as one of \<open>run\<close> does in which some outcomes
  of the radio are given.
\<close>

theorem curtain_status_is_acknowledged:
  assumes "nrf24 miso irq idle view" and "events s = []" and "length pool = 4" "length pool' = 4"
  shows "case radio_run width height fl miso irq as (Smart_IOT_Center width p g pool pool', started_radio miso s) of
      Ret (c, s') \<Rightarrow> acked (view (events s')) = heard (air c) \<and> curtain_status c = curtain_told (acked (view (events s')))
    | r \<Rightarrow> \<exists>as'. list_all2 same_but_radio as as' \<and> run width height fl as' (Smart_IOT_Center width p g pool pool')
              = (case r of Fault \<Rightarrow> Fault | _ \<Rightarrow> Spin)"
proof -
  let ?c = "Smart_IOT_Center width p g pool pool'"
  have "linked idle view (?c, started_radio miso s)"
    by (rule nrf24.started_linked [OF assms(1,2)]) (simp add: Smart_IOT_Center_def)
  note hist = nrf24.radio_run_linked [OF assms(1) this, of as width height fl]
  show ?thesis
    using hist nrf24.history_linked [OF assms, of width height fl as p g]
    by (cases "radio_run width height fl miso irq as (?c, started_radio miso s)") auto
qed

lemma keys_return: "\<forall>a \<in> set as. is_radio a \<or> (\<exists>scans. a = Ir scans) \<Longrightarrow> \<exists>c'. run w h fl as c = Ret c'"
proof (induction as arbitrary: c)
  case (Cons a as)
  have "\<exists>c1. act w h fl a c = Ret c1" using Cons.prems by (cases a) (auto split: option.split)
  with Cons show ?case by fastforce
qed simp

text \<open>One press of the key that opens the curtain, one that closes it; the second is not acknowledged.\<close>

theorem curtain_status_is_acknowledged_witness:
  "\<exists>c s'. radio_run 240 320 (\<lambda>x. x) (nrf_miso (\<lambda>n. n = 0) []) (nrf_irq (\<lambda>n. n = 0) []) [Ir [left, 0], Radio True, Ir [right, 0], Radio True]
      (Smart_IOT_Center 240 sample_panel silent_modem [0, 0, 0, 0] [0, 0, 0, 0],
       started_radio (nrf_miso (\<lambda>n. n = 0) []) \<lparr> clk_polarity = 0, clk_phase = 0, cr1 = 0, events = [] \<rparr>) = Ret (c, s')
    \<and> curtain_status c = curtain_told (acked (v_of (nrf_after (\<lambda>n. n = 0) [] (events s'))))"
proof -
  let ?m = "nrf_miso (\<lambda>n. n = 0) []" and ?i = "nrf_irq (\<lambda>n. n = 0) []"
  let ?as = "[Ir [left, 0], Radio True, Ir [right, 0], Radio True]"
  let ?c = "Smart_IOT_Center 240 sample_panel silent_modem [0, 0, 0, 0] [0, 0, 0, 0]"
  let ?s = "\<lparr> clk_polarity = 0, clk_phase = 0, cr1 = 0, events = [] \<rparr>"
  have returns: "\<exists>c. run 240 320 (\<lambda>x. x) as' ?c = Ret c" if "list_all2 same_but_radio ?as as'" for as'
    using that by (intro keys_return) (auto simp: list_all2_Cons1 same_but_radio_def)
  note th = curtain_status_is_acknowledged [OF n24.nrf24_axioms [of "\<lambda>n. n = 0" "[]"], of ?s "[0, 0, 0, 0]" "[0, 0, 0, 0]",
      where width = 240 and height = 320 and fl = "\<lambda>x. x" and as = ?as and p = sample_panel and g = silent_modem]
  show ?thesis
  proof (cases "radio_run 240 320 (\<lambda>x. x) ?m ?i ?as (?c, started_radio ?m ?s)")
    case (Ret r)
    obtain c s' where "r = (c, s')" by (cases r)
    with th Ret show ?thesis by (intro exI [of _ c] exI [of _ s']) (simp del: radio_run.simps)
  next
    case Fault
    with th obtain as' where "list_all2 same_but_radio ?as as'" "run 240 320 (\<lambda>x. x) as' ?c = Fault"
      by (auto simp del: radio_run.simps)
    with returns show ?thesis by fastforce
  next
    case Spin
    with th obtain as' where "list_all2 same_but_radio ?as as'" "run 240 320 (\<lambda>x. x) as' ?c = Spin"
      by (auto simp del: radio_run.simps)
    with returns show ?thesis by fastforce
  qed
qed

end
