(* ===== verification/Ct_Iic.thy ===== *)
theory Ct_Iic
  imports Eeprom
begin

text \<open>
  The two-wire bus of the capacitive touch controllers (\<open>applications/ctiic.c\<close>) on pins like those of
  \<open>I2c_Bus\<close>, and the reads and writes of controller registers the three drivers share. All calls but
  three are those of \<open>myiic.c\<close>; the stop call raises the clock before it lowers the data line, so the
  chip sees one more start condition before the stop. What a chip promises of its registers is
  the locale \<open>register_chip\<close>; \<open>steady_chip\<close> adds that nothing but a write changes them.
\<close>

section \<open>The operations of the bus\<close>

definition CT_IIC_Init :: "chip \<Rightarrow> wire \<Rightarrow> wire" where
  "CT_IIC_Init slave w = set_sda True (set_scl slave True (SDA_OUT w))"

definition CT_IIC_Start :: "chip \<Rightarrow> wire \<Rightarrow> wire" where
  "CT_IIC_Start slave w =
     (let w = SDA_OUT w;
          w = set_sda True w;
          w = set_scl slave True w;
          w = set_sda False w
      in set_scl slave False w)"

definition CT_IIC_Stop :: "chip \<Rightarrow> wire \<Rightarrow> wire" where
  "CT_IIC_Stop slave w =
     (let w = SDA_OUT w;
          w = set_scl slave True w;
          w = set_sda False w
      in set_sda True w)"

definition CT_IIC_Wait_Ack :: "chip \<Rightarrow> wire \<Rightarrow> u8 \<times> wire" where
  "CT_IIC_Wait_Ack slave w =
     (let w = SDA_IN w;
          w = set_sda True w;
          w = set_scl slave True w
      in if poll_ack 251 w then (1, CT_IIC_Stop slave w) else (0, set_scl slave False w))"

definition CT_IIC_Ack :: "chip \<Rightarrow> wire \<Rightarrow> wire" where
  "CT_IIC_Ack slave w =
     (let w = set_scl slave False w;
          w = SDA_OUT w;
          w = set_sda False w;
          w = set_scl slave True w
      in set_scl slave False w)"

definition CT_IIC_NAck :: "chip \<Rightarrow> wire \<Rightarrow> wire" where
  "CT_IIC_NAck slave w =
     (let w = set_scl slave False w;
          w = SDA_OUT w;
          w = set_sda True w;
          w = set_scl slave True w
      in set_scl slave False w)"

definition CT_IIC_Send_Byte :: "chip \<Rightarrow> u8 \<Rightarrow> wire \<Rightarrow> wire" where
  "CT_IIC_Send_Byte slave txd w = send_bits slave 8 txd (set_scl slave False (SDA_OUT w))"

definition CT_IIC_Read_Byte :: "chip \<Rightarrow> bool \<Rightarrow> wire \<Rightarrow> u8 \<times> wire" where
  "CT_IIC_Read_Byte slave ack w =
     (let (receive, w) = recv_bits slave 8 0 (SDA_IN w)
      in (receive, if \<not> ack then CT_IIC_NAck slave w else CT_IIC_Ack slave w))"

lemma same_calls:
  "CT_IIC_Start = IIC_Start" "CT_IIC_Ack = IIC_Ack" "CT_IIC_NAck = IIC_NAck"
  "CT_IIC_Send_Byte = IIC_Send_Byte" "CT_IIC_Read_Byte = IIC_Read_Byte"
proof -
  show acks: "CT_IIC_Ack = IIC_Ack" "CT_IIC_NAck = IIC_NAck"
    by (simp_all add: fun_eq_iff CT_IIC_Ack_def IIC_Ack_def CT_IIC_NAck_def IIC_NAck_def)
  show "CT_IIC_Start = IIC_Start" "CT_IIC_Send_Byte = IIC_Send_Byte" "CT_IIC_Read_Byte = IIC_Read_Byte"
    by (simp_all add: fun_eq_iff CT_IIC_Start_def IIC_Start_def CT_IIC_Send_Byte_def IIC_Send_Byte_def
        CT_IIC_Read_Byte_def IIC_Read_Byte_def acks split_beta)
qed

section \<open>Registers\<close>

text \<open>A byte and the wait for its acknowledgement, whose result is not used.\<close>

definition ct_send :: "chip \<Rightarrow> u8 \<Rightarrow> wire \<Rightarrow> wire" where
  "ct_send slave b w = snd (CT_IIC_Wait_Ack slave (CT_IIC_Send_Byte slave b w))"

text \<open>The data of a write, up to the first byte that is not acknowledged.\<close>

fun ct_write :: "chip \<Rightarrow> u8 list \<Rightarrow> u8 \<Rightarrow> wire \<Rightarrow> u8 \<times> wire" where
  "ct_write slave [] ret w = (ret, w)"
| "ct_write slave (b # bs) ret w =
     (let (ret, w) = CT_IIC_Wait_Ack slave (CT_IIC_Send_Byte slave b w)
      in if ret \<noteq> 0 then (ret, w) else ct_write slave bs ret w)"

text \<open>The data of a read; the last byte is not acknowledged.\<close>

fun ct_read :: "chip \<Rightarrow> nat \<Rightarrow> wire \<Rightarrow> u8 list \<times> wire" where
  "ct_read slave 0 w = ([], w)"
| "ct_read slave (Suc left) w =
     (let (b, w) = CT_IIC_Read_Byte slave (left \<noteq> 0) w; (bs, w) = ct_read slave left w in (b # bs, w))"

text \<open>The two transactions, after the bytes that select a register.\<close>

definition ct_wr_reg :: "chip \<Rightarrow> u8 list \<Rightarrow> u8 list \<Rightarrow> wire \<Rightarrow> u8 \<times> wire" where
  "ct_wr_reg slave selector buf w =
     (let w = CT_IIC_Start slave w;
          w = foldl (\<lambda>w b. ct_send slave b w) w selector;
          (ret, w) = ct_write slave buf 0 w
      in (ret, CT_IIC_Stop slave w))"

definition ct_rd_reg :: "chip \<Rightarrow> u8 list \<Rightarrow> u8 \<Rightarrow> nat \<Rightarrow> wire \<Rightarrow> u8 list \<times> wire" where
  "ct_rd_reg slave selector rd len w =
     (let w = CT_IIC_Start slave w;
          w = foldl (\<lambda>w b. ct_send slave b w) w selector;
          w = CT_IIC_Start slave w;
          w = ct_send slave rd w;
          (bs, w) = ct_read slave len w
      in (bs, CT_IIC_Stop slave w))"

section \<open>What the chip sees\<close>

text \<open>Bytes the chip acknowledges, and the end of every transaction: a start and a stop condition.\<close>

definition taken_bytes :: "u8 list \<Rightarrow> bus_symbol list" where
  "taken_bytes bs = concat (map (\<lambda>b. sent b @ [Bit_Seen False]) bs)"

definition ct_ending :: "bus_symbol list" where
  "ct_ending = [Bit_Seen True, Start, Stop]"

text \<open>Bytes the driver receives: all but the last are acknowledged.\<close>

fun given_bytes :: "u8 list \<Rightarrow> bus_symbol list" where
  "given_bytes [] = []"
| "given_bytes (b # bs) = sent b @ Bit_Seen (bs = []) # given_bytes bs"

definition ct_written :: "u8 list \<Rightarrow> u8 list \<Rightarrow> bus_symbol list" where
  "ct_written selector ds = Start # taken_bytes (selector @ ds) @ ct_ending"

definition ct_opened :: "u8 list \<Rightarrow> bus_symbol list" where
  "ct_opened selector = Start # taken_bytes selector @ [Bit_Seen True, Start]"

definition ct_was_read :: "u8 list \<Rightarrow> u8 \<Rightarrow> u8 list \<Rightarrow> bus_symbol list" where
  "ct_was_read selector rd bs = ct_opened selector @ taken_bytes [rd] @ given_bytes bs @ ct_ending"

text \<open>Between the calls of a transaction: the clock is low and the latch of the data pin high.\<close>

definition ready :: "wire \<Rightarrow> bool" where
  "ready w \<longleftrightarrow> \<not> scl w \<and> sda w"

lemma ct_stop_seen: "ready w \<Longrightarrow> seen (CT_IIC_Stop slave w) = seen w @ ct_ending \<and> bus_free (CT_IIC_Stop slave w)"
  by (simp add: CT_IIC_Stop_def ready_def bus_free_def ct_ending_def wire_defs Let_def)

lemma ct_start_seen:
  "bus_free w \<Longrightarrow> seen (CT_IIC_Start slave w) = seen w @ [Start] \<and> \<not> scl (CT_IIC_Start slave w)"
  "ready w \<Longrightarrow> seen (CT_IIC_Start slave w) = seen w @ [Bit_Seen True, Start] \<and> \<not> scl (CT_IIC_Start slave w)"
  by (simp_all add: CT_IIC_Start_def ready_def bus_free_def wire_defs Let_def)

lemma ct_wait_ack_seen:
  assumes "\<not> scl w" and "\<not> slave (seen w)"
  shows "fst (CT_IIC_Wait_Ack slave w) = 0 \<and> seen (snd (CT_IIC_Wait_Ack slave w)) = seen w @ [Bit_Seen False]
    \<and> ready (snd (CT_IIC_Wait_Ack slave w))"
  using assms by (simp add: CT_IIC_Wait_Ack_def poll_ack_READ_SDA ready_def wire_defs Let_def)

lemma ct_send_seen:
  assumes "\<not> scl w" and "\<not> slave (seen w @ sent x)"
  shows "seen (ct_send slave x w) = seen w @ taken_bytes [x] \<and> ready (ct_send slave x w)"
    and "fst (CT_IIC_Wait_Ack slave (CT_IIC_Send_Byte slave x w)) = 0"
proof -
  have w: "\<not> scl (CT_IIC_Send_Byte slave x w)" "seen (CT_IIC_Send_Byte slave x w) = seen w @ sent x"
    using IIC_Send_Byte_seen [OF assms(1), of slave x] by (simp_all add: sent_def same_calls)
  show "seen (ct_send slave x w) = seen w @ taken_bytes [x] \<and> ready (ct_send slave x w)"
    and "fst (CT_IIC_Wait_Ack slave (CT_IIC_Send_Byte slave x w)) = 0"
    using ct_wait_ack_seen [OF w(1), of slave] w(2) assms(2) by (simp_all add: ct_send_def taken_bytes_def)
qed

lemma taken_bytes_append: "taken_bytes (xs @ ys) = taken_bytes xs @ taken_bytes ys"
  by (simp add: taken_bytes_def)

text \<open>Several bytes, each acknowledged after the ones before.\<close>

lemma ct_sends_seen:
  assumes "\<not> scl w" "xs \<noteq> []"
    and "\<And>us x vs. xs = us @ x # vs \<Longrightarrow> \<not> slave (seen w @ taken_bytes us @ sent x)"
  shows "seen (foldl (\<lambda>w b. ct_send slave b w) w xs) = seen w @ taken_bytes xs
    \<and> ready (foldl (\<lambda>w b. ct_send slave b w) w xs)"
  using assms(2,3)
proof (induction xs rule: rev_induct)
  case (snoc x xs)
  have last: "\<not> slave (seen w @ taken_bytes xs @ sent x)" using snoc.prems(2) [of xs x "[]"] by simp
  show ?case
  proof (cases "xs = []")
    case True
    with ct_send_seen(1) [OF assms(1), of slave x] last show ?thesis by (simp add: taken_bytes_def)
  next
    case False
    then have ih: "seen (foldl (\<lambda>w b. ct_send slave b w) w xs) = seen w @ taken_bytes xs"
      "ready (foldl (\<lambda>w b. ct_send slave b w) w xs)"
      using snoc.IH snoc.prems(2) by (metis append_Cons append_assoc)+
    from ih(2) have "\<not> scl (foldl (\<lambda>w b. ct_send slave b w) w xs)" by (simp add: ready_def)
    from ct_send_seen(1) [OF this, of slave x] ih(1) last show ?thesis by (simp add: taken_bytes_append)
  qed
qed simp

lemma ct_write_seen:
  assumes "ready w" and "\<And>us x vs. bs = us @ x # vs \<Longrightarrow> \<not> slave (seen w @ taken_bytes us @ sent x)"
  shows "fst (ct_write slave bs 0 w) = 0 \<and> seen (snd (ct_write slave bs 0 w)) = seen w @ taken_bytes bs
    \<and> ready (snd (ct_write slave bs 0 w))"
  using assms
proof (induction bs arbitrary: w)
  case (Cons b bs)
  have w: "\<not> scl w" using Cons.prems(1) by (simp add: ready_def)
  have ack: "\<not> slave (seen w @ sent b)" using Cons.prems(2) [of "[]" b bs] by (simp add: taken_bytes_def)
  define w1 where "w1 = ct_send slave b w"
  have w1: "seen w1 = seen w @ taken_bytes [b]" "ready w1" using ct_send_seen(1) [of w slave b, OF w ack] by (simp_all add: w1_def)
  have "\<not> slave (seen w1 @ taken_bytes us @ sent x)" if "bs = us @ x # vs" for us x vs
    using Cons.prems(2) [of "b # us" x vs] that taken_bytes_append [of "[b]" us] by (simp add: w1(1))
  note ih = Cons.IH [OF w1(2) this]
  have "ct_write slave (b # bs) 0 w = ct_write slave bs 0 w1"
    using ct_send_seen(2) [of w slave b, OF w ack] by (simp add: split_beta w1_def ct_send_def)
  with ih w1(1) taken_bytes_append [of "[b]" bs] show ?case by simp
qed (simp add: taken_bytes_def)

text \<open>The bytes of a read are those the chip gives, each after the ones before.\<close>

lemma ct_read_seen:
  assumes "\<not> scl w" and "\<And>i. i < length bs \<Longrightarrow>
      slave_bits slave 8 (seen w @ taken_bytes (take i bs)) = byte_bits (bs ! i)"
  shows "fst (ct_read slave (length bs) w) = bs \<and> seen (snd (ct_read slave (length bs) w)) = seen w @ given_bytes bs
    \<and> (bs \<noteq> [] \<longrightarrow> ready (snd (ct_read slave (length bs) w)))"
  using assms
proof (induction bs arbitrary: w)
  case (Cons b bs)
  have bits: "slave_bits slave 8 (seen w) = byte_bits b" using Cons.prems(2) [of 0] by (simp add: taken_bytes_def)
  define r where "r = CT_IIC_Read_Byte slave (bs \<noteq> []) w"
  have r: "byte_bits (fst r) = byte_bits b" "seen (snd r) = seen w @ sent b @ [Bit_Seen (bs = [])]" "\<not> scl (snd r)"
    using IIC_Read_Byte_seen [OF Cons.prems(1), of slave "bs \<noteq> []"] bits by (simp_all add: r_def same_calls sent_def)
  have b: "fst r = b" using r(1) by (metis shift_in_byte)
  have step: "ct_read slave (length (b # bs)) w
      = (b # fst (ct_read slave (length bs) (snd r)), snd (ct_read slave (length bs) (snd r)))"
    using b by (simp add: r_def split_beta)
  show ?case
  proof (cases "bs = []")
    case False
    have "slave_bits slave 8 (seen (snd r) @ taken_bytes (take i bs)) = byte_bits (bs ! i)" if "i < length bs" for i
      using Cons.prems(2) [of "Suc i"] that False r(2) taken_bytes_append [of "[b]" "take i bs"]
      by (simp add: taken_bytes_def)
    from Cons.IH [OF r(3) this] show ?thesis unfolding step using False r(2) by simp
  next
    case True
    then have "ready (snd r)"
      using r(3) by (simp add: r_def same_calls IIC_Read_Byte_def IIC_NAck_def ready_def split_beta wire_defs Let_def)
    with True r(2) show ?thesis unfolding step by simp
  qed
qed simp

section \<open>What the data sheets promise\<close>

text \<open>
  \<open>selector r\<close> are the bytes that select the register \<open>r\<close> for writing, \<open>rd\<close> is the byte that starts a
  read. Between two transactions the chip answers to both, takes data, and gives the registers
  from the selected one on.
\<close>

locale register_chip =
  fixes slave :: chip
    and idle :: "bus_symbol list \<Rightarrow> bool"
    and reg_of :: "bus_symbol list \<Rightarrow> u16 \<Rightarrow> u8"
    and selector :: "u16 \<Rightarrow> u8 list"
    and rd :: u8
  assumes opens: "selector r \<noteq> []"
    and open_ack: "idle h \<Longrightarrow> selector r = us @ x # vs \<Longrightarrow> \<not> slave (h @ Start # taken_bytes us @ sent x)"
    and data_ack: "idle h \<Longrightarrow> \<not> slave (h @ Start # taken_bytes (selector r @ us) @ sent x)"
    and written_idle: "idle h \<Longrightarrow> idle (h @ ct_written (selector r) ds)"
    and read_ack: "idle h \<Longrightarrow> \<not> slave (h @ ct_opened (selector r) @ sent rd)"
    and read_bits: "idle h \<Longrightarrow> slave_bits slave 8 (h @ ct_opened (selector r) @ taken_bytes [rd]
        @ taken_bytes (map (\<lambda>j. reg_of h (r + of_nat j)) [0..<i])) = byte_bits (reg_of h (r + of_nat i))"
    and read_idle: "idle h \<Longrightarrow> 0 < n \<Longrightarrow>
      idle (h @ ct_was_read (selector r) rd (map (\<lambda>j. reg_of h (r + of_nat j)) [0..<n]))"

text \<open>
  Nothing else happens to the registers: nobody moves a finger, and the chip leaves them alone.
  \<open>cell\<close> tells which register numbers are the same register of the chip.
\<close>

fun overwritten :: "(u16 \<Rightarrow> u16) \<Rightarrow> u16 \<Rightarrow> u8 list \<Rightarrow> (u16 \<Rightarrow> u8) \<Rightarrow> u16 \<Rightarrow> u8" where
  "overwritten cell r [] m = m"
| "overwritten cell r (d # ds) m = overwritten cell (r + 1) ds (\<lambda>a. if cell a = cell r then d else m a)"

locale steady_chip = register_chip +
  fixes cell :: "u16 \<Rightarrow> u16"
  assumes read_keeps: "idle h \<Longrightarrow> 0 < n \<Longrightarrow>
      reg_of (h @ ct_was_read (selector r) rd (map (\<lambda>j. reg_of h (r + of_nat j)) [0..<n])) = reg_of h"
    and written_regs: "idle h \<Longrightarrow> reg_of (h @ ct_written (selector r) ds) = overwritten cell r ds (reg_of h)"

text \<open>The bus between two transactions with the chip.\<close>

definition ct_free :: "(bus_symbol list \<Rightarrow> bool) \<Rightarrow> wire \<Rightarrow> bool" where
  "ct_free idle w \<longleftrightarrow> bus_free w \<and> idle (seen w)"

context register_chip
begin

lemma opened_write:
  fixes r :: u16
  assumes "ct_free idle w"
  defines "w' \<equiv> foldl (\<lambda>w b. ct_send slave b w) (CT_IIC_Start slave w) (selector r)"
  shows "seen w' = seen w @ Start # taken_bytes (selector r) \<and> ready w'"
proof -
  have w: "bus_free w" "idle (seen w)" using assms(1) by (simp_all add: ct_free_def)
  from ct_start_seen(1) [OF w(1), of slave]
  have s: "seen (CT_IIC_Start slave w) = seen w @ [Start]" "\<not> scl (CT_IIC_Start slave w)" by simp_all
  show ?thesis
    using ct_sends_seen [OF s(2) opens, of r slave] open_ack [OF w(2), of r] by (simp add: s(1) w'_def)
qed

lemma wr_reg:
  assumes "ct_free idle w"
  shows "fst (ct_wr_reg slave (selector r) ds w) = 0
    \<and> seen (snd (ct_wr_reg slave (selector r) ds w)) = seen w @ ct_written (selector r) ds
    \<and> ct_free idle (snd (ct_wr_reg slave (selector r) ds w))"
proof -
  have w: "idle (seen w)" using assms(1) by (simp add: ct_free_def)
  define w1 where "w1 = foldl (\<lambda>w b. ct_send slave b w) (CT_IIC_Start slave w) (selector r)"
  have w1: "seen w1 = seen w @ Start # taken_bytes (selector r)" "ready w1"
    using opened_write [OF assms(1), of r] by (simp_all add: w1_def)
  define w2 where "w2 = snd (ct_write slave ds 0 w1)"
  have w2: "fst (ct_write slave ds 0 w1) = 0" "seen w2 = seen w1 @ taken_bytes ds" "ready w2"
    using ct_write_seen [OF w1(2), of ds slave] data_ack [OF w, of r]
    by (simp_all add: w1(1) w2_def taken_bytes_append)
  have c: "ct_wr_reg slave (selector r) ds w = (0, CT_IIC_Stop slave w2)"
    using w2(1) by (simp add: ct_wr_reg_def Let_def split_beta w1_def w2_def)
  have "seen (CT_IIC_Stop slave w2) = seen w @ ct_written (selector r) ds"
    using ct_stop_seen [OF w2(3)] by (simp add: w2(2) w1(1) ct_written_def taken_bytes_append)
  with written_idle [OF w, of r ds] ct_stop_seen [OF w2(3), of slave] show ?thesis by (simp add: c ct_free_def)
qed

lemma rd_reg:
  fixes r :: u16
  assumes "ct_free idle w" and "0 < n"
  defines "bs \<equiv> map (\<lambda>j. reg_of (seen w) (r + of_nat j)) [0..<n]"
  shows "fst (ct_rd_reg slave (selector r) rd n w) = bs
    \<and> seen (snd (ct_rd_reg slave (selector r) rd n w)) = seen w @ ct_was_read (selector r) rd bs
    \<and> ct_free idle (snd (ct_rd_reg slave (selector r) rd n w))"
proof -
  have w: "idle (seen w)" using assms(1) by (simp add: ct_free_def)
  define w1 where "w1 = foldl (\<lambda>w b. ct_send slave b w) (CT_IIC_Start slave w) (selector r)"
  have w1: "seen w1 = seen w @ Start # taken_bytes (selector r)" "ready w1"
    using opened_write [OF assms(1), of r] by (simp_all add: w1_def)
  have s: "seen (CT_IIC_Start slave w1) = seen w @ ct_opened (selector r)" "\<not> scl (CT_IIC_Start slave w1)"
    using ct_start_seen(2) [OF w1(2), of slave] by (simp_all add: w1(1) ct_opened_def)
  define w2 where "w2 = ct_send slave rd (CT_IIC_Start slave w1)"
  have w2: "seen w2 = seen w @ ct_opened (selector r) @ taken_bytes [rd]" "ready w2"
    using ct_send_seen(1) [OF s(2), of slave rd] read_ack [OF w, of r] by (simp_all add: s(1) w2_def)
  define w3 where "w3 = snd (ct_read slave n w2)"
  have len: "length bs = n" "bs \<noteq> []" using assms(2) by (auto simp: bs_def)
  have nth: "take i bs = map (\<lambda>j. reg_of (seen w) (r + of_nat j)) [0..<i]" "bs ! i = reg_of (seen w) (r + of_nat i)"
    if "i < n" for i using that by (simp_all add: bs_def take_map)
  have "slave_bits slave 8 (seen w2 @ taken_bytes (take i bs)) = byte_bits (bs ! i)" if "i < length bs" for i
    using read_bits [OF w, of r i] that len(1) by (simp add: w2(1) nth)
  from ct_read_seen [of w2 bs slave, OF _ this] w2(2) len
  have w3: "fst (ct_read slave n w2) = bs" "seen w3 = seen w2 @ given_bytes bs" "ready w3"
    by (simp_all add: w3_def ready_def)
  have c: "ct_rd_reg slave (selector r) rd n w = (bs, CT_IIC_Stop slave w3)"
    using w3(1) by (simp add: ct_rd_reg_def Let_def split_beta w1_def w2_def w3_def)
  have "seen (CT_IIC_Stop slave w3) = seen w @ ct_was_read (selector r) rd bs"
    using ct_stop_seen [OF w3(3)] by (simp add: w3(2) w2(1) ct_was_read_def)
  with read_idle [OF w assms(2), of r] ct_stop_seen [OF w3(3), of slave] show ?thesis
    by (simp add: c ct_free_def bs_def)
qed

end

context steady_chip
begin

lemma wr_reg_steady:
  fixes r :: u16
  assumes "ct_free idle w"
  shows "reg_of (seen (snd (ct_wr_reg slave (selector r) ds w))) = overwritten cell r ds (reg_of (seen w))
    \<and> fst (ct_wr_reg slave (selector r) ds w) = 0 \<and> ct_free idle (snd (ct_wr_reg slave (selector r) ds w))"
proof -
  have "idle (seen w)" using assms by (simp add: ct_free_def)
  from wr_reg [OF assms, of r ds] written_regs [OF this, of r ds] show ?thesis by simp
qed

lemma rd_reg_steady:
  fixes r :: u16
  assumes "ct_free idle w" and "0 < n"
  shows "reg_of (seen (snd (ct_rd_reg slave (selector r) rd n w))) = reg_of (seen w)
    \<and> fst (ct_rd_reg slave (selector r) rd n w) = map (\<lambda>j. reg_of (seen w) (r + of_nat j)) [0..<n]
    \<and> ct_free idle (snd (ct_rd_reg slave (selector r) rd n w))"
proof -
  have "idle (seen w)" using assms(1) by (simp add: ct_free_def)
  from rd_reg [OF assms, of r] read_keeps [OF this assms(2), of r] show ?thesis by simp
qed

end

text \<open>Registers that are different cells are read back as they were written.\<close>

lemma overwritten_outside:
  "(\<And>i. i < length ds \<Longrightarrow> cell a \<noteq> cell (r + of_nat i)) \<Longrightarrow> overwritten cell r ds m a = m a"
proof (induction ds arbitrary: r m)
  case (Cons d ds)
  have "cell a \<noteq> cell (r + 1 + of_nat i)" if "i < length ds" for i
    using Cons.prems [of "Suc i"] that by (simp add: algebra_simps)
  moreover have "cell a \<noteq> cell r" using Cons.prems [of 0] by simp
  ultimately show ?case by (simp add: Cons.IH)
qed simp

lemma overwritten_inside:
  assumes "i < length ds" and "\<And>k. i < k \<Longrightarrow> k < length ds \<Longrightarrow> cell (r + of_nat i) \<noteq> cell (r + of_nat k)"
  shows "overwritten cell r ds m (r + of_nat i) = ds ! i"
  using assms
proof (induction ds arbitrary: r m i)
  case (Cons d ds)
  show ?case
  proof (cases i)
    case 0
    have "cell r \<noteq> cell (r + 1 + of_nat k)" if "k < length ds" for k
      using Cons.prems(2) [of "Suc k"] that 0 by (simp add: algebra_simps)
    with 0 show ?thesis by (simp add: overwritten_outside)
  next
    case (Suc j)
    have "cell (r + 1 + of_nat j) \<noteq> cell (r + 1 + of_nat k)" if "j < k" "k < length ds" for k
      using Cons.prems(2) [of "Suc k"] that Suc by (simp add: algebra_simps)
    with Cons.prems(1) Suc show ?thesis
      using Cons.IH [of j "r + 1"] by (simp add: algebra_simps)
  qed
qed simp

end
