(* ===== verification/Ct_Chip.thy ===== *)
theory Ct_Chip
  imports Ct_Iic
begin

text \<open>
  A working touch chip as the data sheets describe its interface: a device address (the write
  command; the read command is one more), a register number of one or two bytes, and registers that
  are taken or given one after the other. It keeps the laws of \<open>register_chip\<close> and \<open>steady_chip\<close>, and
  the drivers' reads and writes on it go round.
\<close>

section \<open>The chip\<close>

datatype ct_phase = Deselected | Naming | Selecting nat | Taking | Giving

record touch_chip =
  ct_phase :: ct_phase
  ct_got :: nat
  ct_acc :: u8
  ct_ptr :: u16
  ct_regs :: "u16 \<Rightarrow> u8"

definition ct_cell :: "bool \<Rightarrow> u16 \<Rightarrow> u16" where
  "ct_cell wide p = (if wide then p else take_bit 8 p)"

definition ct_ninth :: "bool \<Rightarrow> u8 \<Rightarrow> bool \<Rightarrow> touch_chip \<Rightarrow> touch_chip" where
  "ct_ninth wide device b c =
     (case ct_phase c of
        Deselected \<Rightarrow> c
      | Naming \<Rightarrow>
          if ct_acc c = device
          then c \<lparr> ct_phase := Selecting (if wide then 2 else 1), ct_got := 0, ct_acc := 0, ct_ptr := 0 \<rparr>
          else c \<lparr> ct_phase := (if ct_acc c = device + 1 then Giving else Deselected), ct_got := 0, ct_acc := 0 \<rparr>
      | Selecting n \<Rightarrow>
          c \<lparr> ct_phase := (if n \<le> 1 then Taking else Selecting (n - 1)), ct_got := 0, ct_acc := 0,
              ct_ptr := push_bit 8 (ct_ptr c) + ucast (ct_acc c) \<rparr>
      | Taking \<Rightarrow>
          c \<lparr> ct_regs := (ct_regs c)(ct_cell wide (ct_ptr c) := ct_acc c), ct_ptr := ct_ptr c + 1,
              ct_got := 0, ct_acc := 0 \<rparr>
      | Giving \<Rightarrow>
          if b then c \<lparr> ct_phase := Deselected \<rparr>
          else c \<lparr> ct_ptr := ct_ptr c + 1, ct_got := 0, ct_acc := 0 \<rparr>)"

fun ct_step :: "bool \<Rightarrow> u8 \<Rightarrow> touch_chip \<Rightarrow> bus_symbol \<Rightarrow> touch_chip" where
  "ct_step wide device c Start = c \<lparr> ct_phase := Naming, ct_got := 0, ct_acc := 0 \<rparr>"
| "ct_step wide device c Stop = c \<lparr> ct_phase := Deselected \<rparr>"
| "ct_step wide device c (Bit_Seen b) =
     (if ct_phase c = Deselected then c
      else if ct_got c < 8 then c \<lparr> ct_got := ct_got c + 1, ct_acc := shift_in (ct_acc c) b \<rparr>
      else ct_ninth wide device b c)"

definition ct_pulls_up :: "bool \<Rightarrow> u8 \<Rightarrow> touch_chip \<Rightarrow> bool" where
  "ct_pulls_up wide device c =
     (case ct_phase c of
        Deselected \<Rightarrow> True
      | Naming \<Rightarrow> ct_got c < 8 \<or> ct_acc c \<noteq> device \<and> ct_acc c \<noteq> device + 1
      | Giving \<Rightarrow> ct_got c < 8 \<longrightarrow> bit (ct_regs c (ct_cell wide (ct_ptr c))) (7 - ct_got c)
      | _ \<Rightarrow> ct_got c < 8)"

definition ct_after :: "bool \<Rightarrow> u8 \<Rightarrow> (u16 \<Rightarrow> u8) \<Rightarrow> bus_symbol list \<Rightarrow> touch_chip" where
  "ct_after wide device m h = foldl (ct_step wide device)
     \<lparr> ct_phase = Deselected, ct_got = 0, ct_acc = 0, ct_ptr = 0, ct_regs = m \<rparr> h"

definition touch_ic :: "bool \<Rightarrow> u8 \<Rightarrow> (u16 \<Rightarrow> u8) \<Rightarrow> chip" where
  "touch_ic wide device m h = ct_pulls_up wide device (ct_after wide device m h)"

definition ct_idle :: "bool \<Rightarrow> u8 \<Rightarrow> (u16 \<Rightarrow> u8) \<Rightarrow> bus_symbol list \<Rightarrow> bool" where
  "ct_idle wide device m h = (ct_phase (ct_after wide device m h) = Deselected)"

definition ct_reg :: "bool \<Rightarrow> u8 \<Rightarrow> (u16 \<Rightarrow> u8) \<Rightarrow> bus_symbol list \<Rightarrow> u16 \<Rightarrow> u8" where
  "ct_reg wide device m h a = ct_regs (ct_after wide device m h) (ct_cell wide a)"

definition ct_selector :: "bool \<Rightarrow> u8 \<Rightarrow> u16 \<Rightarrow> u8 list" where
  "ct_selector wide device r = device # (if wide then [ucast (drop_bit 8 r)] else []) @ [ucast r]"

section \<open>The chip at the stages of a transaction\<close>

lemma ct_after_append: "ct_after wide device m (h @ h') = foldl (ct_step wide device) (ct_after wide device m h) h'"
  by (simp add: ct_after_def)

lemma ct_bits_received:
  assumes "ct_phase c \<noteq> Deselected" and "ct_got c + length bs \<le> 8"
  shows "foldl (ct_step wide device) c (map Bit_Seen bs)
    = c \<lparr> ct_got := ct_got c + length bs, ct_acc := foldl shift_in (ct_acc c) bs \<rparr>"
  using assms by (induction bs arbitrary: c) simp_all

lemma ct_byte_received:
  assumes "ct_phase c \<noteq> Deselected" and "ct_got c = 0" and "ct_acc c = 0"
  shows "foldl (ct_step wide device) c (sent x) = c \<lparr> ct_got := 8, ct_acc := x \<rparr>"
  using ct_bits_received [of c "byte_bits x"] assms by (simp add: sent_def shift_in_byte)

lemma ct_byte_taken:
  assumes "ct_phase c \<noteq> Deselected" and "ct_got c = 0" and "ct_acc c = 0"
  shows "foldl (ct_step wide device) c (taken_bytes [x]) = ct_ninth wide device False (c \<lparr> ct_got := 8, ct_acc := x \<rparr>)"
  using ct_byte_received [OF assms, of wide device x] assms(1) by (simp add: taken_bytes_def)

lemma ct_cell_add: "ct_cell wide (ct_cell wide r + a) = ct_cell wide (r + a)"
  by (simp add: ct_cell_def word_eq_iff_unsigned [where ?'a = nat] unsigned_take_bit_eq unat_word_ariths
      take_bit_eq_mod mod_mod_cancel mod_simps)

lemma ct_cell_idem [simp]: "ct_cell wide (ct_cell wide r) = ct_cell wide r"
  using ct_cell_add [of wide r 0] by simp

text \<open>Selected for writing: the next byte goes to the register \<open>r\<close>.\<close>

definition ct_selected :: "bool \<Rightarrow> u16 \<Rightarrow> touch_chip \<Rightarrow> touch_chip" where
  "ct_selected wide r c = c \<lparr> ct_phase := Taking, ct_got := 0, ct_acc := 0, ct_ptr := ct_cell wide r \<rparr>"

definition ct_named :: "bool \<Rightarrow> touch_chip \<Rightarrow> touch_chip" where
  "ct_named wide c = c \<lparr> ct_phase := Selecting (if wide then 2 else 1), ct_got := 0, ct_acc := 0, ct_ptr := 0 \<rparr>"

lemma register_bytes: "push_bit 8 (ucast (ucast (drop_bit 8 r) :: u8)) + ucast (ucast r :: u8) = (r :: u16)"
proof -
  have "push_bit 8 (ucast (ucast (drop_bit 8 r) :: u8)) + ucast (ucast r :: u8)
      = or (push_bit 8 (ucast (ucast (drop_bit 8 r) :: u8))) (ucast (ucast r :: u8) :: u16)"
    by (rule disjunctive_add) (auto simp: bit_simps)
  also have "\<dots> = r" by (rule bit_eqI) (auto simp: bit_simps)
  finally show ?thesis .
qed

lemma ct_cell_narrow: "ucast (ucast r :: u8) = ct_cell False r"
  by (rule bit_eqI) (auto simp: ct_cell_def bit_simps)

lemma ct_start_named: "foldl (ct_step wide device) c (Start # taken_bytes [device]) = ct_named wide c"
  using ct_byte_taken [of "ct_step wide device c Start" wide device device] by (simp add: ct_ninth_def ct_named_def)

lemma foldl_taken_Cons: "foldl f c (taken_bytes (d # ds)) = foldl f (foldl f c (taken_bytes [d])) (taken_bytes ds)"
  by (simp add: taken_bytes_def)

lemma ct_start_selected:
  "foldl (ct_step wide device) c (Start # taken_bytes (ct_selector wide device r)) = ct_selected wide r c"
proof -
  define bs :: "u8 list" where "bs = (if wide then [ucast (drop_bit 8 r)] else []) @ [ucast r]"
  have "foldl (ct_step wide device) c (Start # taken_bytes (ct_selector wide device r))
      = foldl (ct_step wide device) (foldl (ct_step wide device) c (Start # taken_bytes [device])) (taken_bytes bs)"
    by (simp add: ct_selector_def bs_def taken_bytes_def)
  also have "\<dots> = foldl (ct_step wide device) (ct_named wide c) (taken_bytes bs)"
    by (simp only: ct_start_named)
  also have "\<dots> = ct_selected wide r c"
  proof (cases wide)
    case True
    have "foldl (ct_step wide device) (ct_named wide c) (taken_bytes bs)
        = foldl (ct_step wide device) (foldl (ct_step wide device) (ct_named wide c)
            (taken_bytes [ucast (drop_bit 8 r)])) (taken_bytes [ucast r])"
      using True by (simp only: bs_def if_True append_Cons append_Nil) (rule foldl_taken_Cons)
    also have "foldl (ct_step wide device) (ct_named wide c) (taken_bytes [ucast (drop_bit 8 r)])
        = (ct_named wide c) \<lparr> ct_phase := Selecting 1, ct_ptr := ucast (ucast (drop_bit 8 r) :: u8) \<rparr>"
      using True by (subst ct_byte_taken) (simp_all add: ct_named_def ct_ninth_def)
    also have "foldl (ct_step wide device) \<dots> (taken_bytes [ucast r]) = ct_selected wide r c"
      using True by (subst ct_byte_taken) (simp_all add: ct_named_def ct_ninth_def ct_selected_def ct_cell_def register_bytes)
    finally show ?thesis .
  next
    case False
    then show ?thesis
      by (simp only: bs_def if_False append_Nil) (subst ct_byte_taken,
        simp_all add: ct_named_def ct_ninth_def ct_selected_def ct_cell_narrow)
  qed
  finally show ?thesis .
qed

text \<open>Data is taken while the chip is selected, and given after the read command.\<close>

lemma ct_taking:
  assumes "ct_phase c = Taking" and "ct_got c = 0" and "ct_acc c = 0"
  shows "foldl (ct_step wide device) c (taken_bytes ds)
    = c \<lparr> ct_ptr := ct_ptr c + of_nat (length ds),
          ct_regs := ct_regs (foldl (ct_step wide device) c (taken_bytes ds)) \<rparr>
    \<and> (\<lambda>a. ct_regs (foldl (ct_step wide device) c (taken_bytes ds)) (ct_cell wide a))
      = overwritten (ct_cell wide) (ct_ptr c) ds (\<lambda>a. ct_regs c (ct_cell wide a))"
  using assms
proof (induction ds arbitrary: c)
  case (Cons d ds)
  define c1 where "c1 = c \<lparr> ct_regs := (ct_regs c)(ct_cell wide (ct_ptr c) := d), ct_ptr := ct_ptr c + 1 \<rparr>"
  have zero: "c1 = c1 \<lparr> ct_got := 0, ct_acc := 0 \<rparr>" using Cons.prems by (simp add: c1_def)
  have c1: "foldl (ct_step wide device) c (taken_bytes (d # ds)) = foldl (ct_step wide device) c1 (taken_bytes ds)"
    unfolding foldl_taken_Cons [of _ c d ds] using ct_byte_taken [of c wide device d] Cons.prems
    by (subst zero) (simp add: ct_ninth_def c1_def)
  have "foldl (ct_step wide device) c1 (taken_bytes ds)
    = c1 \<lparr> ct_ptr := ct_ptr c1 + of_nat (length ds),
          ct_regs := ct_regs (foldl (ct_step wide device) c1 (taken_bytes ds)) \<rparr>
    \<and> (\<lambda>a. ct_regs (foldl (ct_step wide device) c1 (taken_bytes ds)) (ct_cell wide a))
      = overwritten (ct_cell wide) (ct_ptr c1) ds (\<lambda>a. ct_regs c1 (ct_cell wide a))"
    by (rule Cons.IH) (use Cons.prems in \<open>simp_all add: c1_def\<close>)
  moreover have "(\<lambda>a. ct_regs c1 (ct_cell wide a))
      = (\<lambda>a. if ct_cell wide a = ct_cell wide (ct_ptr c) then d else ct_regs c (ct_cell wide a))"
    by (simp add: c1_def fun_eq_iff)
  ultimately show ?case unfolding c1 by (simp add: c1_def algebra_simps)
qed (simp add: taken_bytes_def)

lemma ct_giving:
  assumes "ct_phase c = Giving" and "ct_got c = 0" and "ct_acc c = 0"
  shows "foldl (ct_step wide device) c (taken_bytes ds) = c \<lparr> ct_ptr := ct_ptr c + of_nat (length ds) \<rparr>"
  using assms
proof (induction ds arbitrary: c)
  case (Cons d ds)
  have zero: "c \<lparr> ct_ptr := ct_ptr c + 1 \<rparr> = c \<lparr> ct_ptr := ct_ptr c + 1, ct_got := 0, ct_acc := 0 \<rparr>"
    using Cons.prems by simp
  have "foldl (ct_step wide device) c (taken_bytes (d # ds))
      = foldl (ct_step wide device) (c \<lparr> ct_ptr := ct_ptr c + 1 \<rparr>) (taken_bytes ds)"
    unfolding foldl_taken_Cons [of _ c d ds] using ct_byte_taken [of c wide device d] Cons.prems
    by (subst zero) (simp add: ct_ninth_def)
  with Cons.IH [of "c \<lparr> ct_ptr := ct_ptr c + 1 \<rparr>"] Cons.prems show ?case by (simp add: algebra_simps)
qed (simp add: taken_bytes_def)

text \<open>The bits of the register the pointer names, one after the other.\<close>

lemma ct_chip_bits:
  assumes "ct_phase (ct_after wide device m h) = Giving" and "ct_got (ct_after wide device m h) + n \<le> 8"
  shows "slave_bits (touch_ic wide device m) n h
    = map (\<lambda>i. bit (ct_regs (ct_after wide device m h) (ct_cell wide (ct_ptr (ct_after wide device m h))))
              (7 - (ct_got (ct_after wide device m h) + i))) [0..<n]"
  using assms
proof (induction n arbitrary: h)
  case (Suc n)
  define c where "c = ct_after wide device m h"
  define b where "b = touch_ic wide device m h"
  have b: "b = bit (ct_regs c (ct_cell wide (ct_ptr c))) (7 - ct_got c)"
    using Suc.prems by (simp add: b_def c_def touch_ic_def ct_pulls_up_def)
  have c: "ct_after wide device m (h @ [Bit_Seen b]) = c \<lparr> ct_got := Suc (ct_got c), ct_acc := shift_in (ct_acc c) b \<rparr>"
    using Suc.prems by (simp add: c_def ct_after_append)
  have "slave_bits (touch_ic wide device m) n (h @ [Bit_Seen b])
      = map (\<lambda>i. bit (ct_regs c (ct_cell wide (ct_ptr c))) (7 - (ct_got c + Suc i))) [0..<n]"
    using Suc.IH [of "h @ [Bit_Seen b]"] Suc.prems by (simp add: c flip: c_def)
  then show ?case
    by (simp add: upt_conv_Cons map_Suc_upt [symmetric] comp_def b flip: b_def c_def del: upt_Suc)
qed simp

text \<open>Bits alone leave the registers of a chip that gives, or is deselected, as they are.\<close>

lemma ct_bits_keep:
  assumes "ct_phase c = Giving \<or> ct_phase c = Deselected"
  shows "ct_regs (foldl (ct_step wide device) c (map Bit_Seen bs)) = ct_regs c"
  using assms
proof (induction bs arbitrary: c)
  case (Cons b bs)
  have "ct_regs (ct_step wide device c (Bit_Seen b)) = ct_regs c
    \<and> (ct_phase (ct_step wide device c (Bit_Seen b)) = Giving
        \<or> ct_phase (ct_step wide device c (Bit_Seen b)) = Deselected)"
    using Cons.prems by (auto simp: ct_ninth_def)
  with Cons.IH [of "ct_step wide device c (Bit_Seen b)"] show ?case by simp
qed simp

lemma given_bytes_bits: "\<exists>cs. given_bytes bs = map Bit_Seen cs"
proof (induction bs)
  case (Cons b bs)
  then obtain cs where "given_bytes bs = map Bit_Seen cs" by blast
  then have "given_bytes (b # bs) = map Bit_Seen (byte_bits b @ (bs = []) # cs)" by (simp add: sent_def)
  then show ?case by blast
qed simp

lemma ct_reading:
  "foldl (ct_step wide device) c (ct_opened (ct_selector wide device r))
    = c \<lparr> ct_phase := Naming, ct_got := 0, ct_acc := 0, ct_ptr := ct_cell wide r \<rparr>"
  "foldl (ct_step wide device) c (ct_opened (ct_selector wide device r) @ taken_bytes [device + 1])
    = c \<lparr> ct_phase := Giving, ct_got := 0, ct_acc := 0, ct_ptr := ct_cell wide r \<rparr>"
proof -
  show o: "foldl (ct_step wide device) c (ct_opened (ct_selector wide device r))
    = c \<lparr> ct_phase := Naming, ct_got := 0, ct_acc := 0, ct_ptr := ct_cell wide r \<rparr>"
    using ct_start_selected [of wide device c r] by (simp add: ct_opened_def ct_selected_def)
  show "foldl (ct_step wide device) c (ct_opened (ct_selector wide device r) @ taken_bytes [device + 1])
    = c \<lparr> ct_phase := Giving, ct_got := 0, ct_acc := 0, ct_ptr := ct_cell wide r \<rparr>"
    unfolding foldl_append o by (subst ct_byte_taken) (simp_all add: ct_ninth_def)
qed

section \<open>The laws\<close>

lemma ct_acked:
  assumes "ct_got c = 0" "ct_acc c = 0"
    and "ct_phase c = Naming \<and> (x = device \<or> x = device + 1) \<or> ct_phase c = Taking \<or> (\<exists>n. ct_phase c = Selecting n)"
  shows "\<not> ct_pulls_up wide device (foldl (ct_step wide device) c (sent x))"
proof -
  have "ct_phase c \<noteq> Deselected" using assms(3) by auto
  from ct_byte_received [OF this assms(1,2)] assms(3) show ?thesis by (auto simp: ct_pulls_up_def)
qed

lemma ct_selector_bytes:
  assumes "ct_selector wide device r = us @ x # vs"
  shows "\<not> ct_pulls_up wide device (foldl (ct_step wide device) c (Start # taken_bytes us @ sent x))"
proof -
  define c1 where "c1 = foldl (ct_step wide device) c (Start # taken_bytes us)"
  consider (device) "us = []" "x = device" | (first) "us = [device]" | (second) y where "us = [device, y]" "wide"
    using assms by (auto simp: ct_selector_def Cons_eq_append_conv split: if_splits)
  then have "ct_got c1 = 0 \<and> ct_acc c1 = 0
    \<and> (ct_phase c1 = Naming \<and> (x = device \<or> x = device + 1) \<or> ct_phase c1 = Taking \<or> (\<exists>n. ct_phase c1 = Selecting n))"
  proof cases
    case device
    then show ?thesis by (simp add: c1_def taken_bytes_def)
  next
    case first
    then show ?thesis by (simp only: c1_def ct_start_named) (simp add: ct_named_def)
  next
    case second
    have "c1 = foldl (ct_step wide device) (ct_named wide c) (taken_bytes [y])"
      using ct_start_named [of wide device c] second(1) by (simp add: c1_def taken_bytes_def)
    then show ?thesis using second(2) by (subst (asm) ct_byte_taken) (simp_all add: ct_named_def ct_ninth_def)
  qed
  with ct_acked [of c1 x device wide] show ?thesis by (simp add: c1_def)
qed

lemma ct_stop_idle: "s \<noteq> [] \<Longrightarrow> last s = Stop \<Longrightarrow> ct_idle wide device m (h @ s)"
  by (cases s rule: rev_cases) (simp_all add: ct_idle_def ct_after_append)

lemma overwritten_cell: "overwritten (ct_cell wide) (ct_cell wide r) ds m = overwritten (ct_cell wide) r ds m"
proof -
  have "ct_cell wide q = ct_cell wide r \<Longrightarrow> overwritten (ct_cell wide) q ds m = overwritten (ct_cell wide) r ds m" for q
  proof (induction ds arbitrary: q r m)
    case (Cons d ds)
    have "ct_cell wide (q + 1) = ct_cell wide (r + 1)" using Cons.prems by (metis ct_cell_add)
    note ih = Cons.IH [OF this]
    show ?case by (simp only: overwritten.simps Cons.prems ih)
  qed simp
  from this [of "ct_cell wide r"] show ?thesis by (simp only: ct_cell_idem)
qed

lemma byte_bits_upt: "map (\<lambda>i. bit x (7 - i)) [0..<8] = byte_bits x"
  by (simp add: byte_bits_def upt_rec)

lemma ct_written_regs:
  "(\<lambda>a. ct_regs (foldl (ct_step wide device) c (ct_written (ct_selector wide device r) ds)) (ct_cell wide a))
    = overwritten (ct_cell wide) r ds (\<lambda>a. ct_regs c (ct_cell wide a))"
proof -
  define c0 where "c0 = ct_selected wide r c"
  define c1 where "c1 = foldl (ct_step wide device) c0 (taken_bytes ds)"
  have c0: "ct_phase c0 = Taking" "ct_got c0 = 0" "ct_acc c0 = 0" "ct_ptr c0 = ct_cell wide r" "ct_regs c0 = ct_regs c"
    by (simp_all add: c0_def ct_selected_def)
  from ct_taking [OF c0(1-3), of wide device ds]
  have c1: "c1 = c0 \<lparr> ct_ptr := ct_ptr c0 + of_nat (length ds), ct_regs := ct_regs c1 \<rparr>"
    "(\<lambda>a. ct_regs c1 (ct_cell wide a)) = overwritten (ct_cell wide) r ds (\<lambda>a. ct_regs c (ct_cell wide a))"
    by (simp_all only: c1_def c0(4,5) overwritten_cell)
  from c1(1) c0 have "ct_phase c1 = Taking" "ct_got c1 = 0" by (metis touch_chip.select_convs(1,2) touch_chip.surjective touch_chip.update_convs(4,5))+
  then have "ct_regs (foldl (ct_step wide device) c1 ct_ending) = ct_regs c1" by (simp add: ct_ending_def)
  moreover have "foldl (ct_step wide device) c (ct_written (ct_selector wide device r) ds)
      = foldl (ct_step wide device) c1 ct_ending"
    using ct_start_selected [of wide device c r] by (simp add: ct_written_def taken_bytes_append c1_def c0_def)
  ultimately show ?thesis by (simp only: c1(2))
qed

lemma ct_read_regs:
  "ct_regs (foldl (ct_step wide device) c (ct_was_read (ct_selector wide device r) (device + 1) bs)) = ct_regs c"
proof -
  obtain cs where cs: "given_bytes bs = map Bit_Seen cs" using given_bytes_bits by blast
  have "ct_was_read (ct_selector wide device r) (device + 1) bs
      = (ct_opened (ct_selector wide device r) @ taken_bytes [device + 1]) @ map Bit_Seen (cs @ [True]) @ [Start, Stop]"
    by (simp add: ct_was_read_def ct_ending_def cs)
  then have "foldl (ct_step wide device) c (ct_was_read (ct_selector wide device r) (device + 1) bs)
      = foldl (ct_step wide device) (foldl (ct_step wide device)
          (foldl (ct_step wide device) c (ct_opened (ct_selector wide device r) @ taken_bytes [device + 1]))
          (map Bit_Seen (cs @ [True]))) [Start, Stop]"
    by simp
  then show ?thesis unfolding ct_reading by (simp add: ct_bits_keep del: map_append)
qed

interpretation touch: steady_chip "touch_ic wide device m" "ct_idle wide device m" "ct_reg wide device m"
    "ct_selector wide device" "device + 1" "ct_cell wide"
  for wide device m
proof
  fix h r us x vs ds n i
  define c where "c = ct_after wide device m h"
  note after = touch_ic_def ct_after_append c_def [symmetric]
  show "ct_selector wide device r \<noteq> []" by (simp add: ct_selector_def)
  show "ct_selector wide device r = us @ x # vs \<Longrightarrow>
      \<not> touch_ic wide device m (h @ Start # taken_bytes us @ sent x)"
    unfolding after by (rule ct_selector_bytes)
  show "\<not> touch_ic wide device m (h @ Start # taken_bytes (ct_selector wide device r @ us) @ sent x)"
  proof -
    define c1 where "c1 = foldl (ct_step wide device) c (Start # taken_bytes (ct_selector wide device r @ us))"
    have "c1 = foldl (ct_step wide device) (ct_selected wide r c) (taken_bytes us)"
      using ct_start_selected [of wide device c r] by (simp add: c1_def taken_bytes_append)
    with ct_taking [of "ct_selected wide r c" wide device us]
    obtain p regs where "c1 = (ct_selected wide r c) \<lparr> ct_ptr := p, ct_regs := regs \<rparr>"
      by (auto simp: ct_selected_def)
    then have "ct_phase c1 = Taking \<and> ct_got c1 = 0 \<and> ct_acc c1 = 0" by (simp add: ct_selected_def)
    with ct_acked [of c1 x device wide] show ?thesis by (simp add: c1_def after)
  qed
  show "ct_idle wide device m (h @ ct_written (ct_selector wide device r) ds)"
    by (rule ct_stop_idle) (simp_all add: ct_written_def ct_ending_def)
  show "\<not> touch_ic wide device m (h @ ct_opened (ct_selector wide device r) @ sent (device + 1))"
    unfolding after foldl_append ct_reading by (rule ct_acked) simp_all
  show "slave_bits (touch_ic wide device m) 8 (h @ ct_opened (ct_selector wide device r) @ taken_bytes [device + 1]
      @ taken_bytes (map (\<lambda>j. ct_reg wide device m h (r + of_nat j)) [0..<i]))
    = byte_bits (ct_reg wide device m h (r + of_nat i))"
  proof -
    let ?h = "h @ ct_opened (ct_selector wide device r) @ taken_bytes [device + 1]
      @ taken_bytes (map (\<lambda>j. ct_reg wide device m h (r + of_nat j)) [0..<i])"
    define c1 where "c1 = ct_after wide device m ?h"
    have "c1 = c \<lparr> ct_phase := Giving, ct_got := 0, ct_acc := 0, ct_ptr := ct_cell wide r + of_nat i \<rparr>"
    proof -
      have "c1 = foldl (ct_step wide device) (foldl (ct_step wide device) c
          (ct_opened (ct_selector wide device r) @ taken_bytes [device + 1]))
          (taken_bytes (map (\<lambda>j. ct_reg wide device m h (r + of_nat j)) [0..<i]))"
        by (simp add: c1_def c_def ct_after_append)
      then show ?thesis unfolding ct_reading by (simp add: ct_giving)
    qed
    note c1 = this
    have "slave_bits (touch_ic wide device m) 8 ?h
        = map (\<lambda>i. bit (ct_regs c1 (ct_cell wide (ct_ptr c1))) (7 - (ct_got c1 + i))) [0..<8]"
      unfolding c1_def by (rule ct_chip_bits) (simp_all only: c1_def [symmetric] c1, simp_all)
    then show ?thesis
      by (simp add: c1 byte_bits_upt ct_cell_add ct_reg_def c_def)
  qed
  show "ct_idle wide device m (h @ ct_was_read (ct_selector wide device r) (device + 1)
      (map (\<lambda>j. ct_reg wide device m h (r + of_nat j)) [0..<n]))"
    by (rule ct_stop_idle) (simp_all add: ct_was_read_def ct_ending_def)
  show "ct_reg wide device m (h @ ct_was_read (ct_selector wide device r) (device + 1)
      (map (\<lambda>j. ct_reg wide device m h (r + of_nat j)) [0..<n])) = ct_reg wide device m h"
    by (simp add: fun_eq_iff ct_reg_def ct_after_append ct_read_regs)
  show "ct_reg wide device m (h @ ct_written (ct_selector wide device r) ds)
    = overwritten (ct_cell wide) r ds (ct_reg wide device m h)"
  proof -
    have "ct_reg wide device m h' = (\<lambda>a. ct_regs (ct_after wide device m h') (ct_cell wide a))" for h'
      by (simp add: fun_eq_iff ct_reg_def)
    then show ?thesis using ct_written_regs [of wide device c r ds] by (simp only: ct_after_append c_def)
  qed
qed

end
