(* ===== verification/Float64.thy ===== *)
theory Float64
  imports Complex_Main "HOL-Library.Log_Nat" Float32
begin

text \<open>
  C's \<open>double\<close>, by value: rounding of a rational to the nearest number with 53 significant bits and no
  bit below \<open>2 ^ -1074\<close>, ties to even. Numbers above the largest double are outside the model: the
  products it is used for stay below a million.
\<close>

definition double_round :: "rat \<Rightarrow> rat" where
  "double_round q =
     (let n = nat (floor (\<bar>q\<bar> * 2 ^ 1074));
          unit = 2 ^ nat (bitlen (int n) - 53);
          r = of_int (round_half_even (\<bar>q\<bar> * 2 ^ 1074 / unit)) * unit / 2 ^ 1074
      in if q < 0 then - r else r)"

lemma scaled_distance: "0 < M \<Longrightarrow> \<bar>r - a\<bar> = \<bar>r * M - a * M\<bar> / (M :: rat)"
  by (simp add: left_diff_distrib [symmetric] abs_mult)

text \<open>Rounding moves a number by at most its \<open>2 ^ 53\<close>rd part, or half of the smallest number.\<close>

lemma double_round_close: "\<bar>double_round q - q\<bar> \<le> \<bar>q\<bar> / 2 ^ 53 + 1 / 2 ^ 1075"
proof -
  define s where "s = \<bar>q\<bar> * (2 ^ 1074 :: rat)"
  define n where "n = nat (floor s)"
  define e where "e = nat (bitlen (int n) - 53)"
  define u where "u = (2 ^ e :: rat)"
  define r where "r = of_int (round_half_even (s / u)) * u / (2 ^ 1074 :: rat)"
  have u: "0 < u" by (simp add: u_def)
  have s: "0 \<le> s" by (simp add: s_def)
  have d: "double_round q = (if q < 0 then - r else r)"
    by (simp add: double_round_def Let_def s_def n_def e_def u_def r_def)
  have rs: "\<bar>r * 2 ^ 1074 - s\<bar> \<le> u / 2"
  proof -
    have "\<bar>of_int (round_half_even (s / u)) - s / u\<bar> * u \<le> 1 / 2 * u"
      using round_half_even_close [of "s / u"] u by (intro mult_right_mono) simp_all
    also have "\<bar>of_int (round_half_even (s / u)) - s / u\<bar> * u
        = \<bar>(of_int (round_half_even (s / u)) - s / u) * u\<bar>" using u by (simp add: abs_mult)
    finally show ?thesis using u by (simp add: r_def left_diff_distrib)
  qed
  have us: "u \<le> s / 2 ^ 52 + 1"
  proof (cases "e = 0")
    case True
    then show ?thesis using s by (simp add: u_def)
  next
    case False
    then have b: "bitlen (int n) = int e + 53" by (simp add: e_def)
    then have "0 < n" by (cases "n = 0") (simp_all add: bitlen_def floorlog_def)
    then have "(2 :: int) ^ nat (bitlen (int n) - 1) \<le> int n" using bitlen_bounds [of "int n"] by simp
    moreover have "nat (bitlen (int n) - 1) = e + 52" using b by simp
    ultimately have "(2 :: int) ^ (e + 52) \<le> int n" by simp
    moreover have "of_int (int n) \<le> s" using s by (simp add: n_def)
    ultimately have "(2 :: rat) ^ (e + 52) \<le> s"
      by (metis (mono_tags, lifting) of_int_le_iff of_int_numeral of_int_power order_trans)
    then show ?thesis by (simp add: u_def power_add)
  qed
  have "u / 2 \<le> (s / 2 ^ 52 + 1) / 2" by (rule divide_right_mono [OF us]) simp
  note half = order_trans [OF rs this]
  have "\<bar>double_round q - q\<bar> = \<bar>r - \<bar>q\<bar>\<bar>" by (auto simp: d)
  also have "\<dots> = \<bar>r * 2 ^ 1074 - s\<bar> / 2 ^ 1074"
    unfolding s_def by (rule scaled_distance) simp
  also have "\<dots> \<le> (s / 2 ^ 52 + 1) / 2 / 2 ^ 1074"
    by (rule divide_right_mono [OF half]) simp
  also have "\<dots> = \<bar>q\<bar> / 2 ^ 53 + 1 / 2 ^ 1075"
    by (simp add: s_def add_divide_distrib)
  finally show ?thesis .
qed

text \<open>An integer below the number stays below its rounding.\<close>

lemma double_round_integer_below:
  assumes "of_int k \<le> q" and "0 \<le> k" and "q < 2 ^ 53"
  shows "of_int k \<le> double_round q"
proof -
  define s where "s = q * (2 ^ 1074 :: rat)"
  define n where "n = nat (floor s)"
  define e where "e = nat (bitlen (int n) - 53)"
  have q: "0 \<le> q" using assms(1,2) by (meson of_int_0_le_iff order_trans)
  then have s: "0 \<le> s" by (simp add: s_def)
  have "s < 2 ^ 53 * 2 ^ 1074" unfolding s_def using assms(3) by (intro mult_strict_right_mono) simp_all
  then have "floor s < 2 ^ 1127" by (simp add: floor_less_iff power_add [symmetric])
  then have "bitlen (int n) \<le> 1127" using bitlen_le_iff_power [of "int n" 1127] s by (simp add: n_def)
  then have e: "e \<le> 1074" by (simp add: e_def)
  have split: "(2 :: rat) ^ 1074 = 2 ^ (1074 - e) * 2 ^ e" using e by (simp add: power_add [symmetric])
  have "of_int k * 2 ^ 1074 \<le> s" unfolding s_def using assms(1) by (intro mult_right_mono) simp_all
  then have "of_int (k * 2 ^ (1074 - e)) \<le> s / 2 ^ e"
    unfolding split by (simp add: pos_le_divide_eq mult.assoc)
  from round_half_even_bounds(1) [OF this]
  have "of_int (k * 2 ^ (1074 - e)) * 2 ^ e \<le> (of_int (round_half_even (s / 2 ^ e)) * 2 ^ e :: rat)"
    by (intro mult_right_mono) (simp_all del: of_int_mult)
  then have "of_int k * 2 ^ 1074 \<le> (of_int (round_half_even (s / 2 ^ e)) * 2 ^ e :: rat)"
    unfolding split by (simp add: mult.assoc)
  then have "of_int k \<le> (of_int (round_half_even (s / 2 ^ e)) * 2 ^ e :: rat) / 2 ^ 1074"
    by (simp add: pos_le_divide_eq)
  then show ?thesis using q by (simp add: double_round_def Let_def s_def n_def e_def)
qed

text \<open>The value, once the binade is known.\<close>

lemma double_round_binade:
  assumes "2 ^ 52 \<le> q * 2 ^ k" and "q * 2 ^ k < 2 ^ 53" and "k \<le> 1074"
  shows "double_round q = of_int (round_half_even (q * 2 ^ k)) / 2 ^ k"
proof -
  define t where "t = q * (2 ^ k :: rat)"
  define e where "e = 1074 - k"
  define s where "s = t * (2 ^ e :: rat)"
  have "0 < q * (2 ^ k :: rat)" using assms(1) by (rule less_le_trans [rotated]) simp
  then have q: "0 < q" by (simp add: zero_less_mult_iff)
  then have nq: "(q < 0) = False" by simp
  have k: "(2 :: rat) ^ 1074 = 2 ^ k * 2 ^ e" using assms(3) by (simp add: e_def power_add [symmetric])
  have s: "\<bar>q\<bar> * 2 ^ 1074 = s" unfolding k using q by (simp add: s_def t_def mult.assoc)
  have t: "2 ^ 52 \<le> t" "t < 2 ^ 53" using assms(1,2) by (simp_all only: t_def)
  have "(2 :: rat) ^ 52 * 2 ^ e \<le> s" unfolding s_def by (rule mult_right_mono [OF t(1)]) simp
  then have lo: "of_int (2 ^ (52 + e)) \<le> s" by (simp add: power_add)
  have "s < (2 :: rat) ^ 53 * 2 ^ e" unfolding s_def by (rule mult_strict_right_mono [OF t(2)]) simp
  then have hi: "s < of_int (2 ^ (53 + e))" by (simp add: power_add)
  define n where "n = nat (floor s)"
  have n: "2 ^ (52 + e) \<le> int n" "int n < 2 ^ (53 + e)"
  proof -
    have "2 ^ (52 + e) \<le> floor s" using lo by (simp only: le_floor_iff)
    moreover from this have "0 \<le> floor s" by (rule order_trans [rotated]) simp
    ultimately show "2 ^ (52 + e) \<le> int n" by (simp add: n_def)
    have "floor s < 2 ^ (53 + e)" using hi by (simp only: floor_less_iff)
    then show "int n < 2 ^ (53 + e)" by (simp add: n_def)
  qed
  have "bitlen (int n) = int (53 + e)"
  proof (rule antisym)
    show "bitlen (int n) \<le> int (53 + e)" using n(2) by (simp only: bitlen_le_iff_power nat_int of_nat_0_le_iff simp_thms)
    have "\<not> bitlen (int n) \<le> int (52 + e)" using n(1) by (simp only: bitlen_le_iff_power nat_int of_nat_0_le_iff not_less simp_thms)
    then show "int (53 + e) \<le> bitlen (int n)" by simp
  qed
  then have unit: "nat (bitlen (int n) - 53) = e" by simp
  have "double_round q = of_int (round_half_even (s / 2 ^ e)) * 2 ^ e / 2 ^ 1074"
    by (simp only: double_round_def Let_def s n_def [symmetric] unit nq if_False)
  also have "s / 2 ^ e = t" by (simp add: s_def)
  also have "of_int (round_half_even t) * 2 ^ e / 2 ^ 1074 = of_int (round_half_even t) / (2 :: rat) ^ k"
    unfolding k by simp
  finally show ?thesis by (simp only: t_def)
qed

lemma double_round_nonneg: "0 \<le> q \<Longrightarrow> 0 \<le> double_round q"
  using round_half_even_bounds(1) [of 0] by (simp add: double_round_def Let_def)

end
