(* ===== verification/Ct_Scan.thy ===== *)
theory Ct_Scan
  imports Ct_Chip Touch_Panel Float64
begin

text \<open>
  The drivers of the three capacitive touch controllers (\<open>applications/gt9147.c\<close>, \<open>ft5206.c\<close>,
  \<open>ott2001a.c\<close>): reading and writing of registers, the initialisation, and the scan functions that
  \<open>tp_dev.scan\<close> may point to. The reset pin, the delays and the terminal are the list of
  \<open>ct_event\<close>s an initialisation returns; the set-up of the pins is not modelled.
\<close>

record ct_state =
  panel :: tp_dev                \<comment> \<open>the shared record of \<open>touch.c\<close>\<close>
  gt_t :: u8                     \<comment> \<open>the static counters of the three scan functions\<close>
  ft_t :: u8
  ott_t :: u8
  ct_bus :: wire

datatype ct_event = Reset_Pin bool | Wait_Ms nat | Print_Id "u8 list" | Print_Version u8

section \<open>Common to the scan functions\<close>

definition select_bytes :: "u8 \<Rightarrow> u16 \<Rightarrow> u8 list" where
  "select_bytes device reg = [device, ucast (drop_bit 8 reg), ucast (and reg 0xFF)]"

text \<open>Two bytes as a number, the first being the upper one.\<close>

definition be16 :: "u8 \<Rightarrow> u8 \<Rightarrow> u16" where
  "be16 hi lo = push_bit 8 (ucast hi) + ucast lo"

text \<open>The loop over the five points of \<open>tp_dev.sta\<close>, with its body as parameter.\<close>

definition touched_points :: "(nat \<Rightarrow> ct_state \<Rightarrow> ct_state) \<Rightarrow> ct_state \<Rightarrow> ct_state" where
  "touched_points point s =
     foldl (\<lambda>s i. if and (sta (panel s)) (push_bit i 1) \<noteq> 0 then point i s else s) s [0..<5]"

text \<open>No point is pressed: the first time the release is marked, then the point is emptied.\<close>

definition lifted :: "tp_dev \<Rightarrow> tp_dev" where
  "lifted p =
     (if and (sta p) TP_PRES_DOWN \<noteq> 0 then p \<lparr> sta := and (sta p) (not (push_bit 7 1)) \<rparr>
      else p \<lparr> tp_x := (tp_x p)[0 := 0xffff], tp_y := (tp_y p)[0 := 0xffff], sta := and (sta p) 0xE0 \<rparr>)"

text \<open>The counter: every call in the first ten, then every tenth one, reads the controller.\<close>

definition polls :: "u8 \<Rightarrow> bool" where
  "polls t \<longleftrightarrow> t mod 10 = 0 \<or> t < 10"

definition wrap_ticks :: "u8 \<Rightarrow> u8" where
  "wrap_ticks t = (if t > 240 then 10 else t)"

section \<open>GT9147\<close>

definition GT9147_CFG_TBL :: "u8 list" where
  "GT9147_CFG_TBL =
     [0x60, 0xE0, 0x01, 0x20, 0x03, 0x05, 0x35, 0x00, 0x02, 0x08,
      0x1E, 0x08, 0x50, 0x3C, 0x0F, 0x05, 0x00, 0x00, 0xFF, 0x67,
      0x50, 0x00, 0x00, 0x18, 0x1A, 0x1E, 0x14, 0x89, 0x28, 0x0A,
      0x30, 0x2E, 0xBB, 0x0A, 0x03, 0x00, 0x00, 0x02, 0x33, 0x1D,
      0x00, 0x00, 0x00, 0x00, 0x00, 0x00, 0x00, 0x32, 0x00, 0x00,
      0x2A, 0x1C, 0x5A, 0x94, 0xC5, 0x02, 0x07, 0x00, 0x00, 0x00,
      0xB5, 0x1F, 0x00, 0x90, 0x28, 0x00, 0x77, 0x32, 0x00, 0x62,
      0x3F, 0x00, 0x52, 0x50, 0x00, 0x52, 0x00, 0x00, 0x00, 0x00,
      0x00, 0x00, 0x00, 0x00, 0x00, 0x00, 0x00, 0x00, 0x00, 0x00,
      0x00, 0x00, 0x00, 0x00, 0x00, 0x00, 0x00, 0x00, 0x00, 0x0F,
      0x0F, 0x03, 0x06, 0x10, 0x42, 0xF8, 0x0F, 0x14, 0x00, 0x00,
      0x00, 0x00, 0x1A, 0x18, 0x16, 0x14, 0x12, 0x10, 0x0E, 0x0C,
      0x0A, 0x08, 0x00, 0x00, 0x00, 0x00, 0x00, 0x00, 0x00, 0x00,
      0x00, 0x00, 0x00, 0x00, 0x00, 0x00, 0x00, 0x00, 0x00, 0x00,
      0x00, 0x00, 0x29, 0x28, 0x24, 0x22, 0x20, 0x1F, 0x1E, 0x1D,
      0x0E, 0x0C, 0x0A, 0x08, 0x06, 0x05, 0x04, 0x02, 0x00, 0xFF,
      0x00, 0x00, 0x00, 0x00, 0x00, 0x00, 0x00, 0x00, 0x00, 0x00,
      0x00, 0xFF, 0xFF, 0xFF, 0xFF, 0xFF, 0xFF, 0xFF, 0xFF, 0xFF,
      0xFF, 0xFF, 0xFF, 0xFF]"

definition GT9147_WR_Reg :: "chip \<Rightarrow> u16 \<Rightarrow> u8 list \<Rightarrow> wire \<Rightarrow> u8 \<times> wire" where
  "GT9147_WR_Reg slave reg buf w = ct_wr_reg slave (select_bytes 0x28 reg) buf w"

definition GT9147_RD_Reg :: "chip \<Rightarrow> u16 \<Rightarrow> nat \<Rightarrow> wire \<Rightarrow> u8 list \<times> wire" where
  "GT9147_RD_Reg slave reg len w = ct_rd_reg slave (select_bytes 0x28 reg) 0x29 len w"

definition GT9147_Send_Cfg :: "chip \<Rightarrow> u8 \<Rightarrow> wire \<Rightarrow> u8 \<times> wire" where
  "GT9147_Send_Cfg slave mode w =
     (let checksum = not (foldl (+) 0 GT9147_CFG_TBL) + 1;
          w = snd (GT9147_WR_Reg slave 0x8047 GT9147_CFG_TBL w);
          w = snd (GT9147_WR_Reg slave 0x80FF [checksum, mode] w)
      in (0, w))"

text \<open>The product number is compared as a string: up to its first zero byte.\<close>

definition c_text :: "u8 list \<Rightarrow> u8 list" where
  "c_text bs = takeWhile (\<lambda>b. b \<noteq> 0) bs"

definition GT9147_Init :: "chip \<Rightarrow> wire \<Rightarrow> u8 \<times> ct_event list \<times> wire" where
  "GT9147_Init slave w =
     (let w = CT_IIC_Init slave w;
          (temp, w) = GT9147_RD_Reg slave 0x8140 4 w;
          es = [Reset_Pin False, Wait_Ms 10, Reset_Pin True, Wait_Ms 10, Wait_Ms 100, Print_Id (c_text temp)]
      in if c_text temp = [0x39, 0x31, 0x34, 0x37]
         then let w = snd (GT9147_WR_Reg slave 0x8040 [0x02] w);
                  (version, w) = GT9147_RD_Reg slave 0x8047 1 w;
                  (es, w) = (if version ! 0 < 0x60
                             then (es @ [Print_Version (version ! 0)], snd (GT9147_Send_Cfg slave 1 w))
                             else (es, w));
                  w = snd (GT9147_WR_Reg slave 0x8040 [0x00] w)
              in (0, es @ [Wait_Ms 10], w)
         else (1, es, w))"

definition GT9147_TPX_TBL :: "u16 list" where
  "GT9147_TPX_TBL = [0x8150, 0x8158, 0x8160, 0x8168, 0x8170]"

definition gt_point :: "chip \<Rightarrow> nat \<Rightarrow> ct_state \<Rightarrow> ct_state" where
  "gt_point slave i s =
     (let (buf, w) = GT9147_RD_Reg slave (GT9147_TPX_TBL ! i) 4 (ct_bus s);
          p = panel s;
          p = (if and (touchtype p) 0x01 \<noteq> 0
               then p \<lparr> tp_y := (tp_y p)[i := be16 (buf ! 1) (buf ! 0)],
                        tp_x := (tp_x p)[i := 800 - be16 (buf ! 3) (buf ! 2)] \<rparr>
               else p \<lparr> tp_x := (tp_x p)[i := be16 (buf ! 1) (buf ! 0)],
                        tp_y := (tp_y p)[i := be16 (buf ! 3) (buf ! 2)] \<rparr>)
      in s \<lparr> panel := p, ct_bus := w \<rparr>)"

text \<open>
  One to five points are reported: the record before they are read, with the first point kept in
  the last place, and \<open>(mode, t, state)\<close> after they have been read and judged.
\<close>

definition points_pressed :: "u8 \<Rightarrow> tp_dev \<Rightarrow> tp_dev" where
  "points_pressed mode p =
     (let temp = push_bit (unat (and mode 0xF)) 0xFF
      in p \<lparr> sta := or (or (not temp) TP_PRES_DOWN) TP_CATH_PRES \<rparr>)"

definition first_kept :: "tp_dev \<Rightarrow> tp_dev" where
  "first_kept p = p \<lparr> tp_x := (tp_x p)[4 := tp_x p ! 0], tp_y := (tp_y p)[4 := tp_y p ! 0] \<rparr>"

definition gt_judged :: "u16 \<Rightarrow> u16 \<Rightarrow> u8 \<Rightarrow> u8 \<Rightarrow> u8 \<Rightarrow> ct_state \<Rightarrow> u8 \<times> u8 \<times> ct_state" where
  "gt_judged width height mode t tempsta s =
     (let p = panel s
      in if tp_x p ! 0 > width \<or> tp_y p ! 0 > height
         then if and mode 0xF > 1
              then (mode, 0, s \<lparr> panel := p \<lparr> tp_x := (tp_x p)[0 := tp_x p ! 1], tp_y := (tp_y p)[0 := tp_y p ! 1] \<rparr> \<rparr>)
              else (0x80, t, s \<lparr> panel := p \<lparr> tp_x := (tp_x p)[0 := tp_x p ! 4], tp_y := (tp_y p)[0 := tp_y p ! 4],
                                               sta := tempsta \<rparr> \<rparr>)
         else (mode, 0, s))"

definition gt_touch :: "chip \<Rightarrow> u16 \<Rightarrow> u16 \<Rightarrow> u8 \<Rightarrow> u8 \<Rightarrow> ct_state \<Rightarrow> u8 \<times> u8 \<times> ct_state" where
  "gt_touch slave width height mode t s =
     gt_judged width height mode t (sta (panel s))
       (touched_points (gt_point slave) (s \<lparr> panel := first_kept (points_pressed mode (panel s)) \<rparr>))"

definition gt_poll :: "chip \<Rightarrow> u16 \<Rightarrow> u16 \<Rightarrow> u8 \<Rightarrow> ct_state \<Rightarrow> u8 \<times> u8 \<times> u8 \<times> ct_state" where
  "gt_poll slave width height t s =
     (let (buf, w) = GT9147_RD_Reg slave 0x814E 1 (ct_bus s);
          mode = buf ! 0;
          w = (if and mode 0x80 \<noteq> 0 \<and> and mode 0xF < 6 then snd (GT9147_WR_Reg slave 0x814E [0] w) else w);
          s = s \<lparr> ct_bus := w \<rparr>
      in if and mode 0xF \<noteq> 0 \<and> and mode 0xF < 6
         then let (mode, t, s) = gt_touch slave width height mode t s in (1, mode, t, s)
         else (0, mode, t, s))"

definition GT9147_Scan :: "chip \<Rightarrow> u16 \<Rightarrow> u16 \<Rightarrow> u8 \<Rightarrow> ct_state \<Rightarrow> u8 \<times> ct_state" where
  "GT9147_Scan slave width height mode s =
     (let t = gt_t s + 1;
          (res, mode, t, s) = (if polls t then gt_poll slave width height t s else (0, mode, t, s));
          s = (if and mode 0x8F = 0x80 then s \<lparr> panel := lifted (panel s) \<rparr> else s)
      in (res, s \<lparr> gt_t := wrap_ticks t \<rparr>))"

section \<open>FT5206\<close>

definition FT5206_WR_Reg :: "chip \<Rightarrow> u16 \<Rightarrow> u8 list \<Rightarrow> wire \<Rightarrow> u8 \<times> wire" where
  "FT5206_WR_Reg slave reg buf w = ct_wr_reg slave [0x70, ucast (and reg 0xFF)] buf w"

definition FT5206_RD_Reg :: "chip \<Rightarrow> u16 \<Rightarrow> nat \<Rightarrow> wire \<Rightarrow> u8 list \<times> wire" where
  "FT5206_RD_Reg slave reg len w = ct_rd_reg slave [0x70, ucast (and reg 0xFF)] 0x71 len w"

definition FT5206_Init :: "chip \<Rightarrow> wire \<Rightarrow> u8 \<times> ct_event list \<times> wire" where
  "FT5206_Init slave w =
     (let w = CT_IIC_Init slave w;
          w = snd (FT5206_WR_Reg slave 0x00 [0] w);
          w = snd (FT5206_WR_Reg slave 0xA4 [0] w);
          w = snd (FT5206_WR_Reg slave 0x80 [22] w);
          w = snd (FT5206_WR_Reg slave 0x88 [12] w);
          (temp, w) = FT5206_RD_Reg slave 0xA1 2 w;
          es = [Reset_Pin False, Wait_Ms 20, Reset_Pin True, Wait_Ms 50]
      in if temp ! 0 = 0x30 \<and> temp ! 1 = 0x03 then (0, es @ [Print_Id temp], w) else (1, es, w))"

definition FT5206_TPX_TBL :: "u16 list" where
  "FT5206_TPX_TBL = [0x03, 0x09, 0x0F, 0x15, 0x1B]"

definition ft_point :: "chip \<Rightarrow> nat \<Rightarrow> ct_state \<Rightarrow> ct_state" where
  "ft_point slave i s =
     (let (buf, w) = FT5206_RD_Reg slave (FT5206_TPX_TBL ! i) 4 (ct_bus s);
          p = panel s;
          a = be16 (and (buf ! 0) 0x0F) (buf ! 1);
          b = be16 (and (buf ! 2) 0x0F) (buf ! 3);
          p = (if and (touchtype p) 0x01 \<noteq> 0
               then p \<lparr> tp_y := (tp_y p)[i := a], tp_x := (tp_x p)[i := b] \<rparr>
               else p \<lparr> tp_x := (tp_x p)[i := 480 - a], tp_y := (tp_y p)[i := b] \<rparr>);
          p = (if and (buf ! 0) 0xF0 \<noteq> 0x80
               then p \<lparr> tp_y := (tp_y p)[i := 0], tp_x := (tp_x p)[i := 0] \<rparr> else p)
      in s \<lparr> panel := p, ct_bus := w \<rparr>)"

definition ft_poll :: "chip \<Rightarrow> u8 \<Rightarrow> ct_state \<Rightarrow> u8 \<times> u8 \<times> u8 \<times> ct_state" where
  "ft_poll slave t s =
     (let (buf, w) = FT5206_RD_Reg slave 0x02 1 (ct_bus s);
          mode = buf ! 0;
          s = s \<lparr> ct_bus := w \<rparr>
      in if and mode 0xF \<noteq> 0 \<and> and mode 0xF < 6
         then let s = touched_points (ft_point slave) (s \<lparr> panel := points_pressed mode (panel s) \<rparr>);
                  mode = (if tp_x (panel s) ! 0 = 0 \<and> tp_y (panel s) ! 0 = 0 then 0 else mode)
              in (1, mode, 0, s)
         else (0, mode, t, s))"

definition FT5206_Scan :: "chip \<Rightarrow> u8 \<Rightarrow> ct_state \<Rightarrow> u8 \<times> ct_state" where
  "FT5206_Scan slave mode s =
     (let t = ft_t s + 1;
          (res, mode, t, s) = (if polls t then ft_poll slave t s else (0, mode, t, s));
          s = (if and mode 0x1F = 0 then s \<lparr> panel := lifted (panel s) \<rparr> else s)
      in (res, s \<lparr> ft_t := wrap_ticks t \<rparr>))"

section \<open>OTT2001A\<close>

definition OTT2001A_WR_Reg :: "chip \<Rightarrow> u16 \<Rightarrow> u8 list \<Rightarrow> wire \<Rightarrow> u8 \<times> wire" where
  "OTT2001A_WR_Reg slave reg buf w = ct_wr_reg slave (select_bytes 0xB2 reg) buf w"

definition OTT2001A_RD_Reg :: "chip \<Rightarrow> u16 \<Rightarrow> nat \<Rightarrow> wire \<Rightarrow> u8 list \<times> wire" where
  "OTT2001A_RD_Reg slave reg len w = ct_rd_reg slave (select_bytes 0xB2 reg) 0xB3 len w"

definition OTT2001A_SensorControl :: "chip \<Rightarrow> u8 \<Rightarrow> wire \<Rightarrow> wire" where
  "OTT2001A_SensorControl slave cmd w = snd (OTT2001A_WR_Reg slave 0x0D00 [if cmd \<noteq> 0 then 0x80 else 0x00] w)"

definition OTT2001A_Init :: "chip \<Rightarrow> wire \<Rightarrow> u8 \<times> ct_event list \<times> wire" where
  "OTT2001A_Init slave w =
     (let w = CT_IIC_Init slave w;
          w = OTT2001A_SensorControl slave 1 w;
          (regval, w) = OTT2001A_RD_Reg slave 0x0D00 1 w
      in (if regval ! 0 = 0x80 then 0 else 1,
          [Reset_Pin False, Wait_Ms 100, Reset_Pin True, Wait_Ms 100, Print_Id regval], w))"

definition OTT_TPX_TBL :: "u16 list" where
  "OTT_TPX_TBL = [0x0100, 0x0500, 0x1000, 0x1400, 0x1800]"

text \<open>
  The scaling, in double arithmetic: the constants are rounded, the product is rounded, and for the
  direction that is mirrored the difference is rounded too, before the conversion to \<open>uint16_t\<close>
  truncates. A mirrored coordinate below zero is outside the range of the conversion; C leaves its
  result open, here it wraps.
\<close>

definition OTT_SCAL_X :: rat where "OTT_SCAL_X = double_round (2963 / 10000)"
definition OTT_SCAL_Y :: rat where "OTT_SCAL_Y = double_round (32 / 100)"

definition ott_scaled :: "u16 \<Rightarrow> rat \<Rightarrow> rat" where
  "ott_scaled v scal = double_round (of_nat (unat v) * scal)"

definition ott_point :: "chip \<Rightarrow> nat \<Rightarrow> ct_state \<Rightarrow> ct_state" where
  "ott_point slave i s =
     (let (buf, w) = OTT2001A_RD_Reg slave (OTT_TPX_TBL ! i) 4 (ct_bus s);
          p = panel s;
          a = ott_scaled (be16 (buf ! 2) (buf ! 3)) OTT_SCAL_Y;
          b = ott_scaled (be16 (buf ! 0) (buf ! 1)) OTT_SCAL_X;
          p = (if and (touchtype p) 0x01 \<noteq> 0
               then p \<lparr> tp_y := (tp_y p)[i := word_of_int (truncated a)],
                        tp_x := (tp_x p)[i := word_of_int (truncated (double_round (800 - b)))] \<rparr>
               else p \<lparr> tp_x := (tp_x p)[i := word_of_int (truncated a)],
                        tp_y := (tp_y p)[i := word_of_int (truncated b)] \<rparr>)
      in s \<lparr> panel := p, ct_bus := w \<rparr>)"

definition ott_poll :: "chip \<Rightarrow> u8 \<Rightarrow> ct_state \<Rightarrow> u8 \<times> u8 \<times> u8 \<times> ct_state" where
  "ott_poll slave t s =
     (let (buf, w) = OTT2001A_RD_Reg slave 0x0000 1 (ct_bus s);
          mode = buf ! 0;
          s = s \<lparr> ct_bus := w \<rparr>
      in if and mode 0x1F \<noteq> 0
         then let p = (panel s) \<lparr> sta := or (or (and mode 0x1F) TP_PRES_DOWN) TP_CATH_PRES \<rparr>;
                  s = touched_points (ott_point slave) (s \<lparr> panel := p \<rparr>);
                  mode = (if tp_x (panel s) ! 0 = 0 \<and> tp_y (panel s) ! 0 = 0 then 0 else mode)
              in (1, mode, 0, s)
         else (0, mode, t, s))"

definition OTT2001A_Scan :: "chip \<Rightarrow> u8 \<Rightarrow> ct_state \<Rightarrow> u8 \<times> ct_state" where
  "OTT2001A_Scan slave mode s =
     (let t = ott_t s + 1;
          (res, mode, t, s) = (if polls t then ott_poll slave t s else (0, mode, t, s));
          s = (if and mode 0x1F = 0 then s \<lparr> panel := lifted (panel s) \<rparr> else s)
      in (res, s \<lparr> ott_t := wrap_ticks t \<rparr>))"

section \<open>The call through \<open>tp_dev.scan\<close>\<close>

definition tp_dev_scan :: "adc_chip \<Rightarrow> bool \<Rightarrow> chip \<Rightarrow> u16 \<Rightarrow> u16 \<Rightarrow> u8 \<Rightarrow> ct_state \<Rightarrow> u8 \<times> ct_state" where
  "tp_dev_scan adc pen slave width height mode s =
     (case scan (panel s) of
        TP_Scan_Fn \<Rightarrow> let (r, p) = TP_Scan adc pen (mode \<noteq> 0) (panel s) in (r, s \<lparr> panel := p \<rparr>)
      | GT9147_Scan_Fn \<Rightarrow> GT9147_Scan slave width height mode s
      | OTT2001A_Scan_Fn \<Rightarrow> OTT2001A_Scan slave mode s
      | FT5206_Scan_Fn \<Rightarrow> FT5206_Scan slave mode s)"

end
