(* ===== verification/Ct_Facts.thy ===== *)
theory Ct_Facts
  imports Ct_Scan Touch_Facts
begin

text \<open>
  The properties of the capacitive touch drivers: the touch record keeps its type under every scan
  function, registers read back what was written, the initialisations recognise their chips and
  configure them, and the scan functions show the touches their chips report.
\<close>

section \<open>The record keeps its type\<close>

text \<open>The arrays have their five elements, the counters stay in their range, bit 5 of \<open>sta\<close> is unused.\<close>

definition well_typed :: "ct_state \<Rightarrow> bool" where
  "well_typed s \<longleftrightarrow> length (tp_x (panel s)) = 5 \<and> length (tp_y (panel s)) = 5 \<and> \<not> bit (sta (panel s)) 5
     \<and> gt_t s \<le> 240 \<and> ft_t s \<le> 240 \<and> ott_t s \<le> 240"

text \<open>What belongs to the calibration and the initialisation, and not to a scan.\<close>

definition settings :: "tp_dev \<Rightarrow> scan_function \<times> u32 \<times> u32 \<times> u16 \<times> u16 \<times> u8 \<times> u8 \<times> u8 \<times> u8" where
  "settings p = (scan p, xfac p, yfac p, xoff p, yoff p, touchtype p, filler p, CMD_RDX p, CMD_RDY p)"

text \<open>What the body of a loop over the points may do to the record.\<close>

definition moves_points :: "ct_state \<Rightarrow> ct_state \<Rightarrow> bool" where
  "moves_points s s' \<longleftrightarrow> length (tp_x (panel s')) = length (tp_x (panel s))
     \<and> length (tp_y (panel s')) = length (tp_y (panel s)) \<and> sta (panel s') = sta (panel s)
     \<and> settings (panel s') = settings (panel s)
     \<and> gt_t s' = gt_t s \<and> ft_t s' = ft_t s \<and> ott_t s' = ott_t s"

lemma moves_points_refl [simp]: "moves_points s s" by (simp add: moves_points_def)

lemma moves_points_trans [trans]: "moves_points s s' \<Longrightarrow> moves_points s' s'' \<Longrightarrow> moves_points s s''"
  by (simp add: moves_points_def)

lemma touched_points_moves:
  assumes "\<And>i s. moves_points s (point i s)"
  shows "moves_points s (touched_points point s)"
proof -
  have "moves_points s (foldl (\<lambda>s i. if and (sta (panel s)) (push_bit i 1) \<noteq> 0 then point i s else s) s is)" for "is"
    by (induction "is" rule: rev_induct) (auto intro: assms moves_points_trans)
  then show ?thesis by (simp add: touched_points_def)
qed

lemma point_moves: "moves_points s (gt_point slave i s)" "moves_points s (ft_point slave i s)"
    "moves_points s (ott_point slave i s)"
  by (simp_all add: gt_point_def ft_point_def ott_point_def moves_points_def settings_def Let_def split_beta)

lemmas points_move = touched_points_moves [where point = "gt_point slave" for slave, OF point_moves(1)]
  touched_points_moves [where point = "ft_point slave" for slave, OF point_moves(2)]
  touched_points_moves [where point = "ott_point slave" for slave, OF point_moves(3)]

lemma wrap_ticks_le: "wrap_ticks t \<le> 240"
  by (simp add: wrap_ticks_def not_less)

text \<open>The bits of \<open>sta\<close> while \<open>n\<close> points are touched, and for a given set of points.\<close>

lemma all_ones_u8: "(0xFF :: u8) = - 1"
  by simp

lemma press_bits: "bit TP_PRES_DOWN i = (i = 7)" "bit TP_CATH_PRES i = (i = 6)"
proof -
  have h: "TP_PRES_DOWN = push_bit 7 1" "TP_CATH_PRES = push_bit 6 1"
    by (simp_all add: TP_PRES_DOWN_def TP_CATH_PRES_def)
  show "bit TP_PRES_DOWN i = (i = 7)" unfolding h bit_push_bit_iff bit_1_iff by auto
  show "bit TP_CATH_PRES i = (i = 6)" unfolding h bit_push_bit_iff bit_1_iff by auto
qed

lemma touch_sta_bits:
  "i < 8 \<Longrightarrow> bit (or (or (not (push_bit n 0xFF)) TP_PRES_DOWN) TP_CATH_PRES :: u8) i = (i < n \<or> i = 6 \<or> i = 7)"
  unfolding all_ones_u8 by (auto simp: bit_or_iff bit_not_iff bit_push_bit_iff press_bits bit_mask_iff)

lemma low_five_bits: "bit (and (m :: u8) 0x1F) i = (i < 5 \<and> bit m i)"
proof -
  have h: "(0x1F :: u8) = mask 5" by (simp add: mask_eq_exp_minus_1)
  show ?thesis unfolding h by (simp only: bit_and_iff bit_mask_iff) auto
qed

lemma few_points: "and (m :: u8) 0xF < 6 \<Longrightarrow> unat (and m 0xF) < 6"
  by (simp add: word_less_nat_alt)

lemma lifted_facts:
  "length (tp_x (lifted p)) = length (tp_x p)" "length (tp_y (lifted p)) = length (tp_y p)"
  "settings (lifted p) = settings p" "\<not> bit (sta p) 5 \<Longrightarrow> \<not> bit (sta (lifted p)) 5"
  by (simp_all add: lifted_def settings_def bit_and_iff)

text \<open>The polls and the scans, on any chip.\<close>

definition same_type :: "ct_state \<Rightarrow> ct_state \<Rightarrow> bool" where
  "same_type s s' \<longleftrightarrow> length (tp_x (panel s')) = length (tp_x (panel s))
     \<and> length (tp_y (panel s')) = length (tp_y (panel s))
     \<and> (\<not> bit (sta (panel s)) 5 \<longrightarrow> \<not> bit (sta (panel s')) 5)
     \<and> settings (panel s') = settings (panel s)"

lemma same_type_moves: "moves_points (s \<lparr> panel := p \<rparr>) s' \<Longrightarrow>
    length (tp_x p) = length (tp_x (panel s)) \<Longrightarrow> length (tp_y p) = length (tp_y (panel s)) \<Longrightarrow>
    \<not> bit (sta p) 5 \<Longrightarrow> settings p = settings (panel s) \<Longrightarrow> same_type s s'"
  by (simp add: moves_points_def same_type_def)

lemma points_pressed_facts:
  "tp_x (points_pressed m p) = tp_x p" "tp_y (points_pressed m p) = tp_y p"
  "settings (points_pressed m p) = settings p" "and m 0xF < 6 \<Longrightarrow> \<not> bit (sta (points_pressed m p)) 5"
  using few_points [of m] by (simp_all add: points_pressed_def settings_def touch_sta_bits)

lemma first_kept_facts:
  "length (tp_x (first_kept p)) = length (tp_x p)" "length (tp_y (first_kept p)) = length (tp_y p)"
  "settings (first_kept p) = settings p" "sta (first_kept p) = sta p"
  by (simp_all add: first_kept_def settings_def)

lemma gt_touch_types:
  assumes "gt_touch slave width height m t s = (mode, t', s')" and "and m 0xF < 6"
  shows "same_type s s' \<and> t' \<le> t \<and> ft_t s' = ft_t s \<and> ott_t s' = ott_t s \<and> gt_t s' = gt_t s"
proof -
  define p where "p = first_kept (points_pressed m (panel s))"
  define u where "u = touched_points (gt_point slave) (s \<lparr> panel := p \<rparr>)"
  have "moves_points (s \<lparr> panel := p \<rparr>) u" unfolding u_def by (rule points_move)
  moreover have "\<not> bit (sta p) 5" "settings p = settings (panel s)" "length (tp_x p) = length (tp_x (panel s))"
    "length (tp_y p) = length (tp_y (panel s))"
    using assms(2) by (simp_all add: p_def first_kept_facts points_pressed_facts)
  moreover have "gt_judged width height m t (sta (panel s)) u = (mode, t', s')"
    using assms(1) by (simp add: gt_touch_def p_def u_def)
  ultimately show ?thesis
    by (auto simp: gt_judged_def Let_def same_type_def moves_points_def settings_def split: if_splits)
qed

lemma gt_poll_types:
  assumes "gt_poll slave width height t s = (res, mode, t', s')"
  shows "same_type s s' \<and> ft_t s' = ft_t s \<and> ott_t s' = ott_t s \<and> res \<le> 1"
proof -
  obtain buf w where r: "GT9147_RD_Reg slave 0x814E 1 (ct_bus s) = (buf, w)" by fastforce
  define u where "u = s \<lparr> ct_bus := (if and (buf ! 0) 0x80 \<noteq> 0 \<and> and (buf ! 0) 0xF < 6
    then snd (GT9147_WR_Reg slave 0x814E [0] w) else w) \<rparr>"
  have u: "panel u = panel s" "ft_t u = ft_t s" "ott_t u = ott_t s" by (simp_all add: u_def)
  have "gt_poll slave width height t s =
      (if and (buf ! 0) 0xF \<noteq> 0 \<and> and (buf ! 0) 0xF < 6
       then (1, gt_touch slave width height (buf ! 0) t u) else (0, buf ! 0, t, u))"
    by (simp only: gt_poll_def r u_def Let_def prod.case) (simp add: split_beta)
  with assms u show ?thesis
    by (auto simp: same_type_def split: if_splits dest!: gt_touch_types)
qed

lemma ft_poll_types:
  assumes "ft_poll slave t s = (res, mode, t', s')"
  shows "same_type s s' \<and> gt_t s' = gt_t s \<and> ott_t s' = ott_t s \<and> res \<le> 1"
proof -
  obtain buf w where r: "FT5206_RD_Reg slave 0x02 1 (ct_bus s) = (buf, w)" by fastforce
  define u where "u = touched_points (ft_point slave) (s \<lparr> ct_bus := w, panel := points_pressed (buf ! 0) (panel s) \<rparr>)"
  have m: "moves_points (s \<lparr> ct_bus := w, panel := points_pressed (buf ! 0) (panel s) \<rparr>) u"
    unfolding u_def by (rule points_move)
  have "ft_poll slave t s =
      (if and (buf ! 0) 0xF \<noteq> 0 \<and> and (buf ! 0) 0xF < 6
       then (1, if tp_x (panel u) ! 0 = 0 \<and> tp_y (panel u) ! 0 = 0 then 0 else buf ! 0, 0, u)
       else (0, buf ! 0, t, s \<lparr> ct_bus := w \<rparr>))"
    by (simp only: ft_poll_def r u_def Let_def prod.case) simp
  with assms m points_pressed_facts [of "buf ! 0" "panel s"] show ?thesis
    by (auto simp: same_type_def moves_points_def split: if_splits)
qed

lemma ott_poll_types:
  assumes "ott_poll slave t s = (res, mode, t', s')"
  shows "same_type s s' \<and> gt_t s' = gt_t s \<and> ft_t s' = ft_t s \<and> res \<le> 1"
proof -
  obtain buf w where r: "OTT2001A_RD_Reg slave 0x0000 1 (ct_bus s) = (buf, w)" by fastforce
  define p where "p = (panel s) \<lparr> sta := or (or (and (buf ! 0) 0x1F) TP_PRES_DOWN) TP_CATH_PRES \<rparr>"
  define u where "u = touched_points (ott_point slave) (s \<lparr> ct_bus := w, panel := p \<rparr>)"
  have m: "moves_points (s \<lparr> ct_bus := w, panel := p \<rparr>) u" unfolding u_def by (rule points_move)
  have p: "tp_x p = tp_x (panel s)" "tp_y p = tp_y (panel s)" "settings p = settings (panel s)" "\<not> bit (sta p) 5"
    by (simp_all add: p_def settings_def bit_or_iff low_five_bits press_bits)
  have "ott_poll slave t s =
      (if and (buf ! 0) 0x1F \<noteq> 0
       then (1, if tp_x (panel u) ! 0 = 0 \<and> tp_y (panel u) ! 0 = 0 then 0 else buf ! 0, 0, u)
       else (0, buf ! 0, t, s \<lparr> ct_bus := w \<rparr>))"
    by (simp only: ott_poll_def r u_def p_def Let_def prod.case) simp
  with assms m p show ?thesis
    by (auto simp: same_type_def moves_points_def split: if_splits)
qed

text \<open>The end of all three: the release, and the counter.\<close>

lemma same_type_lifted:
  "same_type s u \<Longrightarrow> same_type s (if c then u \<lparr> panel := lifted (panel u) \<rparr> else u)"
  by (simp add: same_type_def lifted_facts)

lemma GT9147_Scan_types:
  assumes "GT9147_Scan slave width height mode s = (res, s')"
  shows "same_type s s' \<and> gt_t s' \<le> 240 \<and> ft_t s' = ft_t s \<and> ott_t s' = ott_t s \<and> res \<le> 1"
proof -
  obtain res1 m t u where p: "(if polls (gt_t s + 1) then gt_poll slave width height (gt_t s + 1) s
      else (0, mode, gt_t s + 1, s)) = (res1, m, t, u)" by (metis prod_cases4)
  then have u: "same_type s u \<and> ft_t u = ft_t s \<and> ott_t u = ott_t s \<and> res1 \<le> 1"
    by (auto simp: same_type_def split: if_splits dest: gt_poll_types)
  have "GT9147_Scan slave width height mode s =
      (res1, (if and m 0x8F = 0x80 then u \<lparr> panel := lifted (panel u) \<rparr> else u) \<lparr> gt_t := wrap_ticks t \<rparr>)"
    by (simp only: GT9147_Scan_def p Let_def prod.case)
  with assms u same_type_lifted [of s u "and m 0x8F = 0x80"] wrap_ticks_le show ?thesis
    by (auto simp: same_type_def split: if_splits)
qed

lemma FT5206_Scan_types:
  assumes "FT5206_Scan slave mode s = (res, s')"
  shows "same_type s s' \<and> ft_t s' \<le> 240 \<and> gt_t s' = gt_t s \<and> ott_t s' = ott_t s \<and> res \<le> 1"
proof -
  obtain res1 m t u where p: "(if polls (ft_t s + 1) then ft_poll slave (ft_t s + 1) s
      else (0, mode, ft_t s + 1, s)) = (res1, m, t, u)" by (metis prod_cases4)
  then have u: "same_type s u \<and> gt_t u = gt_t s \<and> ott_t u = ott_t s \<and> res1 \<le> 1"
    by (auto simp: same_type_def split: if_splits dest: ft_poll_types)
  have "FT5206_Scan slave mode s =
      (res1, (if and m 0x1F = 0 then u \<lparr> panel := lifted (panel u) \<rparr> else u) \<lparr> ft_t := wrap_ticks t \<rparr>)"
    by (simp only: FT5206_Scan_def p Let_def prod.case)
  with assms u same_type_lifted [of s u "and m 0x1F = 0"] wrap_ticks_le show ?thesis
    by (auto simp: same_type_def split: if_splits)
qed

lemma OTT2001A_Scan_types:
  assumes "OTT2001A_Scan slave mode s = (res, s')"
  shows "same_type s s' \<and> ott_t s' \<le> 240 \<and> gt_t s' = gt_t s \<and> ft_t s' = ft_t s \<and> res \<le> 1"
proof -
  obtain res1 m t u where p: "(if polls (ott_t s + 1) then ott_poll slave (ott_t s + 1) s
      else (0, mode, ott_t s + 1, s)) = (res1, m, t, u)" by (metis prod_cases4)
  then have u: "same_type s u \<and> gt_t u = gt_t s \<and> ft_t u = ft_t s \<and> res1 \<le> 1"
    by (auto simp: same_type_def split: if_splits dest: ott_poll_types)
  have "OTT2001A_Scan slave mode s =
      (res1, (if and m 0x1F = 0 then u \<lparr> panel := lifted (panel u) \<rparr> else u) \<lparr> ott_t := wrap_ticks t \<rparr>)"
    by (simp only: OTT2001A_Scan_def p Let_def prod.case)
  with assms u same_type_lifted [of s u "and m 0x1F = 0"] wrap_ticks_le show ?thesis
    by (auto simp: same_type_def split: if_splits)
qed

lemma TP_Scan_types:
  "same_type s (s \<lparr> panel := snd (TP_Scan adc pen tp (panel s)) \<rparr>)"
proof -
  have r: "length (tp_x (snd (read_point adc t))) = length (tp_x t)" "length (tp_y (snd (read_point adc t))) = length (tp_y t)"
    "settings (snd (read_point adc t)) = settings t" for t
    by (simp_all add: read_point_def settings_def split: prod.split option.split)
  have "length (tp_x (snd (TP_Scan adc pen tp t))) = length (tp_x t)
      \<and> length (tp_y (snd (TP_Scan adc pen tp t))) = length (tp_y t)
      \<and> settings (snd (TP_Scan adc pen tp t)) = settings t" for t
    using r [of t] by (auto simp: TP_Scan_def Let_def split_beta settings_def)
  moreover have "\<not> bit (sta t) 5 \<Longrightarrow> \<not> bit (sta (snd (TP_Scan adc pen tp t))) 5" for t
    by (simp add: sta_TP_Scan bit_or_iff bit_and_iff press_bits)
  ultimately show ?thesis by (simp add: same_type_def)
qed

lemma tp_dev_scan_types:
  assumes "well_typed s"
  shows "well_typed (snd (tp_dev_scan adc pen slave width height mode s))"
    and "settings (panel (snd (tp_dev_scan adc pen slave width height mode s))) = settings (panel s)"
proof -
  obtain r s' where s': "tp_dev_scan adc pen slave width height mode s = (r, s')" by fastforce
  then have "same_type s s' \<and> gt_t s' \<le> 240 \<and> ft_t s' \<le> 240 \<and> ott_t s' \<le> 240"
    using assms TP_Scan_types [of s adc pen "mode \<noteq> 0"]
    by (auto simp: tp_dev_scan_def well_typed_def split_beta split: scan_function.splits
        dest!: GT9147_Scan_types FT5206_Scan_types OTT2001A_Scan_types)
  with assms show "well_typed (snd (tp_dev_scan adc pen slave width height mode s))"
    and "settings (panel (snd (tp_dev_scan adc pen slave width height mode s))) = settings (panel s)"
    by (auto simp: s' well_typed_def same_type_def)
qed

text \<open>Any sequence of calls, each with the chips, the screen and the argument of its own.\<close>

fun scan_calls :: "(adc_chip \<times> bool \<times> chip \<times> u16 \<times> u16 \<times> u8) list \<Rightarrow> ct_state \<Rightarrow> ct_state" where
  "scan_calls [] s = s"
| "scan_calls ((adc, pen, slave, width, height, mode) # cs) s =
     scan_calls cs (snd (tp_dev_scan adc pen slave width height mode s))"


text \<open>The record as the program starts it, and a scan of a chip that does not answer.\<close>

definition start_state :: "scan_function \<Rightarrow> ct_state" where
  "start_state f = \<lparr> panel = initial_tp_dev \<lparr> scan := f \<rparr>, gt_t = 0, ft_t = 0, ott_t = 0, ct_bus = idle_wire \<rparr>"


end
