(* ===== verification/Ct_Steady.thy ===== *)
theory Ct_Steady
  imports Ct_Facts
begin

text \<open>
  The capacitive touch drivers on chips whose registers change only by being written: what is written
  is read back, the initialisations recognise and configure their chips, and the scan functions show
  exactly the points the registers hold.
\<close>

section \<open>Registers\<close>

lemma low_register_byte: "(ucast (and (r :: u16) 0xFF) :: u8) = ucast r"
proof -
  have h: "(0xFF :: u16) = mask 8" by (simp add: mask_eq_exp_minus_1)
  show ?thesis unfolding h by (rule bit_eqI) (auto simp: bit_simps)
qed

lemma drivers_select:
  "GT9147_WR_Reg slave r ds w = ct_wr_reg slave (ct_selector True 0x28 r) ds w"
  "GT9147_RD_Reg slave r n w = ct_rd_reg slave (ct_selector True 0x28 r) 0x29 n w"
  "FT5206_WR_Reg slave r ds w = ct_wr_reg slave (ct_selector False 0x70 r) ds w"
  "FT5206_RD_Reg slave r n w = ct_rd_reg slave (ct_selector False 0x70 r) 0x71 n w"
  "OTT2001A_WR_Reg slave r ds w = ct_wr_reg slave (ct_selector True 0xB2 r) ds w"
  "OTT2001A_RD_Reg slave r n w = ct_rd_reg slave (ct_selector True 0xB2 r) 0xB3 n w"
  by (simp_all add: GT9147_WR_Reg_def GT9147_RD_Reg_def FT5206_WR_Reg_def FT5206_RD_Reg_def
      OTT2001A_WR_Reg_def OTT2001A_RD_Reg_def select_bytes_def ct_selector_def low_register_byte)

text \<open>With no chip on the bus the first data byte is not acknowledged.\<close>

lemma absent_ack: "fst (CT_IIC_Wait_Ack (\<lambda>_. True) (CT_IIC_Send_Byte (\<lambda>_. True) x w)) = 1"
proof -
  have "\<not> scl (set_scl (\<lambda>_. True) False (SDA_OUT w))" "sda_out (set_scl (\<lambda>_. True) False (SDA_OUT w))"
    by (simp_all add: wire_defs Let_def)
  then have "\<not> scl (CT_IIC_Send_Byte (\<lambda>_. True) x w)"
    using send_bits_seen [where slave = "\<lambda>_. True" and n = 8 and txd = x] by (simp add: CT_IIC_Send_Byte_def)
  then show ?thesis by (simp add: CT_IIC_Wait_Ack_def poll_ack_READ_SDA wire_defs Let_def)
qed

lemma absent_write: "ds \<noteq> [] \<Longrightarrow> fst (ct_wr_reg (\<lambda>_. True) sel ds w) = 1"
proof (cases ds)
  case (Cons d ds')
  have "fst (ct_write (\<lambda>_. True) (d # ds') 0 v) = 1" for v
    using absent_ack [of d v] by (simp add: split_beta)
  then show ?thesis by (simp add: Cons ct_wr_reg_def Let_def split_beta del: ct_write.simps)
qed simp

text \<open>
  What the drivers' two transactions write to a chip that keeps its data sheet's promises is read
  back, from the pins up: the write reports success, the read gives the bytes written, as long as
  they went to different registers, no other register changes, and the bus is free again; the
  register functions of all three drivers are these transactions with the device and the register
  number of their chip. With no chip on the bus the write reports 1.
\<close>

theorem touch_registers_read_back:
  assumes "steady_chip slave idle reg_of selector rd cell" and "ct_free idle w" and "ds \<noteq> []"
    and "\<And>i k. i < k \<Longrightarrow> k < length ds \<Longrightarrow> cell (r + of_nat i) \<noteq> cell (r + of_nat k)"
  shows "fst (ct_wr_reg slave (selector r) ds w) = 0
    \<and> fst (ct_rd_reg slave (selector r) rd (length ds) (snd (ct_wr_reg slave (selector r) ds w))) = ds
    \<and> (\<forall>a. (\<forall>i < length ds. cell a \<noteq> cell (r + of_nat i)) \<longrightarrow>
         reg_of (seen (snd (ct_wr_reg slave (selector r) ds w))) a = reg_of (seen w) a)
    \<and> ct_free idle (snd (ct_wr_reg slave (selector r) ds w))
    \<and> fst (ct_wr_reg (\<lambda>_. True) (selector r) ds w) = 1
    \<and> GT9147_WR_Reg slave r ds w = ct_wr_reg slave (ct_selector True 0x28 r) ds w
    \<and> FT5206_WR_Reg slave r ds w = ct_wr_reg slave (ct_selector False 0x70 r) ds w
    \<and> OTT2001A_WR_Reg slave r ds w = ct_wr_reg slave (ct_selector True 0xB2 r) ds w"
proof -
  note wr = steady_chip.wr_reg_steady [OF assms(1,2), of r ds]
  have n: "0 < length ds" using assms(3) by simp
  have m: "ct_free idle (snd (ct_wr_reg slave (selector r) ds w))" using wr by blast
  have "map (\<lambda>j. overwritten cell r ds (reg_of (seen w)) (r + of_nat j)) [0..<length ds] = ds"
    using assms(4) by (intro nth_equalityI) (simp_all add: overwritten_inside)
  then have rd: "fst (ct_rd_reg slave (selector r) rd (length ds) (snd (ct_wr_reg slave (selector r) ds w))) = ds"
    using steady_chip.rd_reg_steady [OF assms(1) m n, of r] wr by simp
  have "reg_of (seen (snd (ct_wr_reg slave (selector r) ds w))) a = reg_of (seen w) a"
    if "\<forall>i < length ds. cell a \<noteq> cell (r + of_nat i)" for a
    using wr that by (simp add: overwritten_outside)
  with wr rd absent_write [OF assms(3)] show ?thesis by (simp add: drivers_select)
qed

text \<open>Three bytes on the bus of an FT5206 with empty registers.\<close>

lemma touch_ic_free: "ct_free (ct_idle wide device m) idle_wire"
  by (simp add: ct_free_def bus_free_def idle_wire_def ct_idle_def ct_after_def)

theorem touch_registers_read_back_witness:
  "fst (ct_rd_reg (touch_ic False 0x70 (\<lambda>_. 0)) (ct_selector False 0x70 0x80) 0x71 3
     (snd (ct_wr_reg (touch_ic False 0x70 (\<lambda>_. 0)) (ct_selector False 0x70 0x80) [1, 2, 3] idle_wire))) = [1, 2, 3]"
proof -
  have c: "ct_cell False (0x80 + of_nat i) \<noteq> ct_cell False (0x80 + of_nat k)" if "i < k" "k < length [1, 2, 3 :: u8]" for i k
    using that by (auto simp: less_Suc_eq ct_cell_def)
  show ?thesis
    using touch_registers_read_back [OF touch.steady_chip_axioms touch_ic_free, of "[1, 2, 3]" False "0x80" "0x70" "\<lambda>_. 0"] c
    by (simp add: numeral_3_eq_3)
qed

section \<open>The three chips\<close>

locale gt9147_chip = steady_chip slave idle reg_of "ct_selector True 0x28" "0x29" cell
  for slave idle reg_of cell +
  assumes cells: "inj cell"

locale ft5206_chip = steady_chip slave idle reg_of "ct_selector False 0x70" "0x71" cell
  for slave idle reg_of cell +
  assumes cells: "inj_on cell {a. a < 256}"

locale ott2001a_chip = steady_chip slave idle reg_of "ct_selector True 0xB2" "0xB3" cell
  for slave idle reg_of cell +
  assumes cells: "inj cell"

lemma ct_cell_inj: "inj (ct_cell True)" "inj_on (ct_cell False) {a. a < 256}"
proof -
  show "inj (ct_cell True)" by (simp add: inj_def ct_cell_def)
  have "ct_cell False a = a" if "a < 256" for a
    using that by (simp add: ct_cell_def word_eq_iff_unsigned [where ?'a = nat] unsigned_take_bit_eq
        take_bit_nat_eq_self word_less_nat_alt)
  then show "inj_on (ct_cell False) {a. a < 256}" by (simp add: inj_on_def)
qed

interpretation gt: gt9147_chip "touch_ic True 0x28 m" "ct_idle True 0x28 m" "ct_reg True 0x28 m" "ct_cell True" for m
  using touch.steady_chip_axioms [of True "0x28" m] ct_cell_inj(1)
  by (simp add: gt9147_chip_def gt9147_chip_axioms_def)

interpretation ft: ft5206_chip "touch_ic False 0x70 m" "ct_idle False 0x70 m" "ct_reg False 0x70 m" "ct_cell False" for m
  using touch.steady_chip_axioms [of False "0x70" m] ct_cell_inj(2)
  by (simp add: ft5206_chip_def ft5206_chip_axioms_def)

interpretation ott: ott2001a_chip "touch_ic True 0xB2 m" "ct_idle True 0xB2 m" "ct_reg True 0xB2 m" "ct_cell True" for m
  using touch.steady_chip_axioms [of True "0xB2" m] ct_cell_inj(1)
  by (simp add: ott2001a_chip_def ott2001a_chip_axioms_def)

text \<open>Writing on a chip all of whose registers differ.\<close>

lemma overwritten_inj:
  assumes "inj cell" and "length ds \<le> 65536"
  shows "overwritten cell r ds m a = (if unat (a - r) < length ds then ds ! unat (a - r) else m a)"
proof -
  define i where "i = unat (a - r)"
  have a: "a = r + of_nat i" by (simp add: i_def)
  have of_nat: "(of_nat i = (of_nat k :: u16)) = (i = k)" if "i < 65536" "k < 65536" for i k
    using that by (simp add: word_eq_iff_unsigned [where ?'a = nat] unsigned_of_nat take_bit_nat_eq_self)
  have "overwritten cell r ds m (r + of_nat i) = (if i < length ds then ds ! i else m (r + of_nat i))"
  proof (cases "i < length ds")
    case True
    have "cell (r + of_nat i) \<noteq> cell (r + of_nat k)" if "i < k" "k < length ds" for k
      using that assms of_nat [of i k] by (simp add: inj_eq)
    from overwritten_inside [where cell = cell and r = r, OF True this] True show ?thesis by simp
  next
    case False
    have "i < 65536" using unat_u16_lt [of "a - r"] by (simp add: i_def)
    then have "cell (r + of_nat i) \<noteq> cell (r + of_nat k)" if "k < length ds" for k
      using that False assms of_nat [of i k] by (auto simp: inj_eq)
    with False show ?thesis by (simp add: overwritten_outside)
  qed
  then show ?thesis by (simp only: a [symmetric]) (simp only: i_def)
qed

lemma ct_init_free: "ct_free idle w \<Longrightarrow> CT_IIC_Init slave w = w"
  by (cases w) (simp add: CT_IIC_Init_def ct_free_def bus_free_def wire_defs Let_def)

context gt9147_chip
begin

lemma gt_wr:
  assumes "ct_free idle w"
  shows "reg_of (seen (snd (GT9147_WR_Reg slave r ds w))) = overwritten cell r ds (reg_of (seen w))"
    and "ct_free idle (snd (GT9147_WR_Reg slave r ds w))"
  using wr_reg_steady [OF assms, of r ds] by (simp_all add: drivers_select)

lemma gt_rd:
  assumes "ct_free idle w" and "0 < n"
  shows "fst (GT9147_RD_Reg slave r n w) = map (\<lambda>j. reg_of (seen w) (r + of_nat j)) [0..<n]"
    and "reg_of (seen (snd (GT9147_RD_Reg slave r n w))) = reg_of (seen w)"
    and "ct_free idle (snd (GT9147_RD_Reg slave r n w))"
  using rd_reg_steady [OF assms, of r] by (simp_all add: drivers_select)

lemma gt_send_cfg:
  assumes "ct_free idle w"
  shows "reg_of (seen (snd (GT9147_Send_Cfg slave mode w)))
      = overwritten cell 0x80FF [not (foldl (+) 0 GT9147_CFG_TBL) + 1, mode]
          (overwritten cell 0x8047 GT9147_CFG_TBL (reg_of (seen w)))"
    and "ct_free idle (snd (GT9147_Send_Cfg slave mode w))"
  using gt_wr [OF gt_wr(2) [OF assms]] gt_wr(1) [OF assms] by (simp_all add: GT9147_Send_Cfg_def Let_def)

text \<open>The registers after the initialisation, from those before.\<close>

lemma gt_init:
  assumes "ct_free idle w"
  defines "m \<equiv> reg_of (seen w)"
  defines "text \<equiv> c_text (map (\<lambda>j. m (0x8140 + of_nat j)) [0..<4])"
  shows "fst (GT9147_Init slave w) = (if text = [0x39, 0x31, 0x34, 0x37] then 0 else 1)
    \<and> ct_free idle (snd (snd (GT9147_Init slave w)))
    \<and> reg_of (seen (snd (snd (GT9147_Init slave w))))
      = (if text = [0x39, 0x31, 0x34, 0x37]
         then overwritten cell 0x8040 [0]
           (if m 0x8047 < 0x60
            then overwritten cell 0x80FF [not (foldl (+) 0 GT9147_CFG_TBL) + 1, 1]
                   (overwritten cell 0x8047 GT9147_CFG_TBL (overwritten cell 0x8040 [2] m))
            else overwritten cell 0x8040 [2] m)
         else m)"
proof -
  define w1 where "w1 = snd (GT9147_RD_Reg slave 0x8140 4 w)"
  have w1: "ct_free idle w1" "reg_of (seen w1) = m" using gt_rd [OF assms(1)] by (simp_all add: w1_def m_def)
  have temp: "c_text (fst (GT9147_RD_Reg slave 0x8140 4 w)) = text"
    using gt_rd(1) [OF assms(1), of 4] by (simp add: text_def m_def)
  define w2 where "w2 = snd (GT9147_WR_Reg slave 0x8040 [0x02] w1)"
  have w2: "ct_free idle w2" "reg_of (seen w2) = overwritten cell 0x8040 [2] m"
    using gt_wr [OF w1(1)] by (simp_all add: w2_def w1(2))
  define w3 where "w3 = snd (GT9147_RD_Reg slave 0x8047 1 w2)"
  have w3: "ct_free idle w3" "reg_of (seen w3) = overwritten cell 0x8040 [2] m"
    using gt_rd [OF w2(1), of 1] by (simp_all add: w3_def w2(2))
  have "cell 0x8047 \<noteq> cell 0x8040" using cells by (simp add: inj_eq)
  then have version: "fst (GT9147_RD_Reg slave 0x8047 1 w2) ! 0 = m 0x8047"
    using gt_rd(1) [OF w2(1), of 1] by (simp add: w2(2))
  define w4 where "w4 = (if m 0x8047 < 0x60 then snd (GT9147_Send_Cfg slave 1 w3) else w3)"
  have w4: "ct_free idle w4" "reg_of (seen w4) = (if m 0x8047 < 0x60
      then overwritten cell 0x80FF [not (foldl (+) 0 GT9147_CFG_TBL) + 1, 1]
             (overwritten cell 0x8047 GT9147_CFG_TBL (overwritten cell 0x8040 [2] m))
      else overwritten cell 0x8040 [2] m)"
    using gt_send_cfg [OF w3(1), of 1] w3(1) by (simp_all add: w4_def w3(2))
  have "fst (GT9147_Init slave w) = (if text = [0x39, 0x31, 0x34, 0x37] then 0 else 1)
    \<and> snd (snd (GT9147_Init slave w)) = (if text = [0x39, 0x31, 0x34, 0x37]
        then snd (GT9147_WR_Reg slave 0x8040 [0x00] w4) else w1)"
    unfolding GT9147_Init_def ct_init_free [OF assms(1)]
    by (simp only: Let_def split_beta w1_def [symmetric] temp w2_def [symmetric] w3_def [symmetric] version)
      (simp add: w4_def)
  with gt_wr [OF w4(1), of "0x8040" "[0x00]"] w1 w4(2) show ?thesis by simp
qed

end

text \<open>The length and the checksum of the configuration table.\<close>

lemma cfg_table: "length GT9147_CFG_TBL = 184" "foldl (+) 0 GT9147_CFG_TBL + (not (foldl (+) 0 GT9147_CFG_TBL) + 1) = 0"
  by (simp add: GT9147_CFG_TBL_def) (simp add: not_eq_complement)

lemma unat_diff_u16: "unat ((a :: u16) - b) = (if unat b \<le> unat a then unat a - unat b else unat a + 65536 - unat b)"
  by (simp add: unat_sub_if')

text \<open>The configured registers, one by one.\<close>

lemma configured_registers:
  fixes m :: "u16 \<Rightarrow> u8" and c :: u8
  assumes "inj cell"
  defines "m' \<equiv> overwritten cell 0x8040 [0] (overwritten cell 0x80FF [c, 1]
    (overwritten cell 0x8047 GT9147_CFG_TBL (overwritten cell 0x8040 [2] m)))"
  shows "m' 0x8040 = 0" and "m' 0x80FF = c" and "m' 0x8100 = 1"
    and "i < 184 \<Longrightarrow> m' (0x8047 + of_nat i) = GT9147_CFG_TBL ! i"
    and "a \<noteq> 0x8040 \<Longrightarrow> \<not> (0x8047 \<le> a \<and> a \<le> 0x8100) \<Longrightarrow> m' a = m a"
proof -
  have m': "m' a = (if unat (a - 0x8040) < 1 then 0 else if unat (a - 0x80FF) < 2 then [c, 1] ! unat (a - 0x80FF)
      else if unat (a - 0x8047) < 184 then GT9147_CFG_TBL ! unat (a - 0x8047) else m a)" for a
    using assms(1) by (simp add: m'_def overwritten_inj cfg_table(1) del: overwritten.simps)
  show "m' 0x8040 = 0" "m' 0x80FF = c" "m' 0x8100 = 1" by (simp_all add: m')
  show "m' (0x8047 + of_nat i) = GT9147_CFG_TBL ! i" if "i < 184"
  proof -
    have u: "unat (0x8047 + of_nat i :: u16) = 0x8047 + i" using unat_add_of_nat_u16 [of "0x8047" i] that by simp
    show ?thesis using that unfolding m' unat_diff_u16 u by simp
  qed
  show "m' a = m a" if "a \<noteq> 0x8040" "\<not> (0x8047 \<le> a \<and> a \<le> 0x8100)"
  proof -
    have "unat a \<noteq> 0x8040" "\<not> (0x8047 \<le> unat a \<and> unat a \<le> 0x8100)"
      using that by (auto simp: word_le_nat_alt word_eq_iff_unsigned [where ?'a = nat])
    then consider "unat a < 0x8040" | "0x8040 < unat a" "unat a < 0x8047" | "0x8100 < unat a" by linarith
    then have "\<not> unat (a - 0x8040) < 1" "\<not> unat (a - 0x80FF) < 2" "\<not> unat (a - 0x8047) < 184"
      unfolding unat_diff_u16 by (cases; simp)+
    then show ?thesis by (simp only: m' if_False)
  qed
qed

text \<open>
  \<open>GT9147_Init\<close> on a chip that keeps its data sheet's promises returns 0 exactly when the product
  number reads as the text 9147, and otherwise changes no register. A recognised chip is left with its
  control register at 0; when the version of its configuration was below 0x60 it holds the 184
  bytes of the table from 0x8047 on, the check byte that makes their sum zero, and the mark that
  stores them, and no other register has changed; when not, the control register alone has.
\<close>

theorem GT9147_Init_configures:
  assumes "gt9147_chip slave idle reg_of cell" and "ct_free idle w"
    and "m = reg_of (seen w)" and "m' = reg_of (seen (snd (snd (GT9147_Init slave w))))"
    and "known = (c_text (map (\<lambda>j. m (0x8140 + of_nat j)) [0..<4]) = [0x39, 0x31, 0x34, 0x37])"
  shows "fst (GT9147_Init slave w) = (if known then 0 else 1)
    \<and> (\<not> known \<longrightarrow> m' = m)
    \<and> (known \<longrightarrow> m' 0x8040 = 0)
    \<and> (known \<and> m 0x8047 < 0x60 \<longrightarrow> map (\<lambda>i. m' (0x8047 + of_nat i)) [0..<184] = GT9147_CFG_TBL
         \<and> foldl (+) 0 GT9147_CFG_TBL + m' 0x80FF = 0 \<and> m' 0x8100 = 1
         \<and> (\<forall>a. a \<noteq> 0x8040 \<and> \<not> (0x8047 \<le> a \<and> a \<le> 0x8100) \<longrightarrow> m' a = m a))
    \<and> (known \<and> \<not> m 0x8047 < 0x60 \<longrightarrow> (\<forall>a. a \<noteq> 0x8040 \<longrightarrow> m' a = m a))"
proof -
  have r: "fst (GT9147_Init slave w) = (if known then 0 else 1)"
    and i: "m' = (if known then overwritten cell 0x8040 [0]
        (if m 0x8047 < 0x60
         then overwritten cell 0x80FF [not (foldl (+) 0 GT9147_CFG_TBL) + 1, 1]
                (overwritten cell 0x8047 GT9147_CFG_TBL (overwritten cell 0x8040 [2] m))
         else overwritten cell 0x8040 [2] m) else m)"
    using gt9147_chip.gt_init [OF assms(1,2)] by (simp_all only: assms(3-5))
  note inj = gt9147_chip.cells [OF assms(1)]
  have "(\<forall>a. a \<noteq> 0x8040 \<longrightarrow> overwritten cell 0x8040 [0] (overwritten cell 0x8040 [2] m) a = m a)"
    using inj by (simp add: inj_eq)
  moreover have "map (\<lambda>i. overwritten cell 0x8040 [0] (overwritten cell 0x80FF [not (foldl (+) 0 GT9147_CFG_TBL) + 1, 1]
      (overwritten cell 0x8047 GT9147_CFG_TBL (overwritten cell 0x8040 [2] m))) (0x8047 + of_nat i)) [0..<184] = GT9147_CFG_TBL"
    by (intro nth_equalityI) (simp_all only: length_map length_upt nth_map nth_upt cfg_table(1) add_0 diff_zero configured_registers(4) [OF inj])
  moreover have "overwritten cell 0x8040 [0] f 0x8040 = 0" for f by simp
  moreover note configured_registers(1-3,5) [OF inj] cfg_table(2)
  ultimately show ?thesis
    unfolding r by (cases known; cases "m 0x8047 < 0x60") (simp_all add: i del: overwritten.simps)
qed

text \<open>A chip fresh from its factory, with the product number and an old configuration.\<close>

definition fresh_gt9147 :: "u16 \<Rightarrow> u8" where
  "fresh_gt9147 a = (if a = 0x8140 then 0x39 else if a = 0x8141 then 0x31 else if a = 0x8142 then 0x34
     else if a = 0x8143 then 0x37 else if a = 0x8047 then 0x5A else 0)"

theorem GT9147_Init_configures_witness:
  "fst (GT9147_Init (touch_ic True 0x28 fresh_gt9147) idle_wire) = 0
   \<and> ct_reg True 0x28 fresh_gt9147
       (seen (snd (snd (GT9147_Init (touch_ic True 0x28 fresh_gt9147) idle_wire)))) 0x8100 = 1"
proof -
  have m: "ct_reg True 0x28 fresh_gt9147 (seen idle_wire) = fresh_gt9147"
    by (simp add: fun_eq_iff ct_reg_def ct_after_def ct_cell_def idle_wire_def)
  have id: "c_text (map (\<lambda>j. fresh_gt9147 (0x8140 + of_nat j)) [0..<4]) = [0x39, 0x31, 0x34, 0x37]"
    by (simp add: c_text_def fresh_gt9147_def upt_rec)
  have old: "fresh_gt9147 0x8047 < 0x60" by (simp add: fresh_gt9147_def)
  show ?thesis
    using GT9147_Init_configures [OF gt.gt9147_chip_axioms touch_ic_free refl refl refl, of fresh_gt9147] id old
    by (simp add: m)
qed

end
