(* ===== verification/Ct_Touches.thy ===== *)
theory Ct_Touches
  imports Ct_Steady
begin

text \<open>
  What the capacitive scan functions show: the points the registers of the chip report, and how many
  calls a touch can go unnoticed.
\<close>

section \<open>The loop over the points\<close>

definition shown :: "nat \<Rightarrow> (nat \<Rightarrow> bool) \<Rightarrow> (nat \<Rightarrow> u16) \<Rightarrow> u16 list \<Rightarrow> u16 list" where
  "shown n touched x xs = map (\<lambda>i. if i < n \<and> touched i then x i else xs ! i) [0..<length xs]"

lemma length_shown [simp]: "length (shown n touched x xs) = length xs"
  by (simp add: shown_def)

lemma nth_shown: "i < length xs \<Longrightarrow> shown n touched x xs ! i = (if i < n \<and> touched i then x i else xs ! i)"
  by (simp add: shown_def)

lemma shown_0 [simp]: "shown 0 touched x xs = xs"
  by (simp add: shown_def map_nth)

lemma shown_Suc: "shown (Suc n) touched x xs
    = (if touched n then (shown n touched x xs)[n := x n] else shown n touched x xs)"
  by (rule nth_equalityI) (auto simp: shown_def nth_list_update less_Suc_eq)

lemma touched_bit: "(and (s :: u8) (push_bit i 1) \<noteq> 0) = bit s i"
  by (simp add: and_exp_eq_0_iff_not_bit push_bit_eq_mult)

lemma touched_points_show:
  assumes step: "\<And>i s. i < 5 \<Longrightarrow> P s \<Longrightarrow> P (point i s)
      \<and> panel (point i s) = (panel s) \<lparr> tp_x := (tp_x (panel s))[i := x i], tp_y := (tp_y (panel s))[i := y i] \<rparr>"
    and "P s"
  shows "P (touched_points point s)
    \<and> panel (touched_points point s) = (panel s)
        \<lparr> tp_x := shown 5 (bit (sta (panel s))) x (tp_x (panel s)), tp_y := shown 5 (bit (sta (panel s))) y (tp_y (panel s)) \<rparr>"
proof -
  define f where "f = (\<lambda>s i. if and (sta (panel s)) (push_bit i 1) \<noteq> 0 then point i s else s)"
  have "n \<le> 5 \<Longrightarrow> P (foldl f s [0..<n]) \<and> panel (foldl f s [0..<n]) = (panel s)
      \<lparr> tp_x := shown n (bit (sta (panel s))) x (tp_x (panel s)), tp_y := shown n (bit (sta (panel s))) y (tp_y (panel s)) \<rparr>" for n
  proof (induction n)
    case (Suc n)
    define u where "u = foldl f s [0..<n]"
    have u: "P u" "panel u = (panel s)
      \<lparr> tp_x := shown n (bit (sta (panel s))) x (tp_x (panel s)), tp_y := shown n (bit (sta (panel s))) y (tp_y (panel s)) \<rparr>"
      using Suc by (simp_all add: u_def)
    have "foldl f s [0..<Suc n] = (if bit (sta (panel s)) n then point n u else u)"
      by (simp add: u_def [symmetric]) (simp add: f_def touched_bit u(2) del: push_bit_of_1)
    with step [of n u] u Suc.prems show ?case by (simp add: shown_Suc)
  qed (use assms(2) in simp)
  from this [of 5] show ?thesis by (simp add: touched_points_def f_def)
qed

section \<open>GT9147\<close>

text \<open>The coordinates of a point as the registers hold them, in both directions of the screen.\<close>

definition gt_x :: "u8 \<Rightarrow> (u16 \<Rightarrow> u8) \<Rightarrow> nat \<Rightarrow> u16" where
  "gt_x tt m i =
     (let r = GT9147_TPX_TBL ! i in if bit tt 0 then 800 - be16 (m (r + 3)) (m (r + 2)) else be16 (m (r + 1)) (m r))"

definition gt_y :: "u8 \<Rightarrow> (u16 \<Rightarrow> u8) \<Rightarrow> nat \<Rightarrow> u16" where
  "gt_y tt m i =
     (let r = GT9147_TPX_TBL ! i in if bit tt 0 then be16 (m (r + 1)) (m r) else be16 (m (r + 3)) (m (r + 2)))"

lemma landscape: "(and (t :: u8) 0x01 \<noteq> 0) = bit t 0"
  using touched_bit [of t 0] by simp

lemma point_registers: "i < 5 \<Longrightarrow> j < 4 \<Longrightarrow> GT9147_TPX_TBL ! i + of_nat j \<noteq> 0x814E"
proof -
  have "\<forall>i \<in> set [0..<5]. \<forall>j \<in> set [0..<4]. GT9147_TPX_TBL ! i + of_nat j \<noteq> 0x814E"
    by (simp add: upt_rec GT9147_TPX_TBL_def)
  then show "i < 5 \<Longrightarrow> j < 4 \<Longrightarrow> GT9147_TPX_TBL ! i + of_nat j \<noteq> 0x814E" by simp
qed

lemma low_nibble: "and (m :: u8) 0x8F = 0x80 \<Longrightarrow> and m 0xF = 0"
proof -
  assume "and m 0x8F = 0x80"
  then have "and (and m 0x8F) 0xF = 0" by simp
  then show ?thesis by (simp add: and.assoc)
qed

lemma shown_first:
  assumes "length xs = 5" and "k \<le> 5" and "\<And>i. i < 5 \<Longrightarrow> b i = (i < k)" and "\<And>i. i < 5 \<Longrightarrow> x i = x' i"
  shows "shown 5 b x xs = shown k (\<lambda>_. True) x' xs"
  using assms by (simp add: shown_def)

context gt9147_chip
begin

lemma gt_point_shows:
  assumes "ct_free idle (ct_bus s)" and "reg_of (seen (ct_bus s)) = m" and "touchtype (panel s) = tt"
  shows "(ct_free idle (ct_bus (gt_point slave i s)) \<and> reg_of (seen (ct_bus (gt_point slave i s))) = m
      \<and> touchtype (panel (gt_point slave i s)) = tt \<and> gt_t (gt_point slave i s) = gt_t s)
    \<and> panel (gt_point slave i s) = (panel s)
      \<lparr> tp_x := (tp_x (panel s))[i := gt_x tt m i], tp_y := (tp_y (panel s))[i := gt_y tt m i] \<rparr>"
proof -
  define r where "r = GT9147_TPX_TBL ! i"
  note rd = gt_rd [OF assms(1), of 4 r, unfolded assms(2)]
  obtain buf w where b: "GT9147_RD_Reg slave r 4 (ct_bus s) = (buf, w)" by fastforce
  have buf: "buf ! 0 = m r" "buf ! 1 = m (r + 1)" "buf ! 2 = m (r + 2)" "buf ! 3 = m (r + 3)"
    using rd(1) by (simp_all add: b)
  have w: "ct_free idle w" "reg_of (seen w) = m" using rd(2,3) by (simp_all add: b)
  have "gt_point slave i s = s \<lparr> ct_bus := w, panel := (panel s)
      \<lparr> tp_x := (tp_x (panel s))[i := gt_x tt m i], tp_y := (tp_y (panel s))[i := gt_y tt m i] \<rparr> \<rparr>"
    unfolding gt_point_def gt_x_def gt_y_def r_def [symmetric] b prod.case Let_def buf landscape assms(3) by simp
  with w assms(3) show ?thesis by simp
qed

text \<open>The read of the status, which clears it when it is valid.\<close>

lemma gt_status:
  assumes "ct_free idle (ct_bus s)" and "reg_of (seen (ct_bus s)) = m"
  defines "valid \<equiv> and (m 0x814E) 0x80 \<noteq> 0 \<and> and (m 0x814E) 0xF < 6"
  obtains w where "ct_free idle w" and "reg_of (seen w) = (if valid then overwritten cell 0x814E [0] m else m)"
    and "gt_poll slave width height t s =
      (if and (m 0x814E) 0xF \<noteq> 0 \<and> and (m 0x814E) 0xF < 6
       then case gt_touch slave width height (m 0x814E) t (s \<lparr> ct_bus := w \<rparr>) of (mode, t, s) \<Rightarrow> (1, mode, t, s)
       else (0, m 0x814E, t, s \<lparr> ct_bus := w \<rparr>))"
proof -
  note rd = gt_rd [OF assms(1), of 1 "0x814E", unfolded assms(2)]
  obtain buf w where b: "GT9147_RD_Reg slave 0x814E 1 (ct_bus s) = (buf, w)" by fastforce
  have buf: "buf ! 0 = m 0x814E" using rd(1) b by simp
  have w: "ct_free idle w" "reg_of (seen w) = m" using rd(2,3) b by simp_all
  define w' where "w' = (if valid then snd (GT9147_WR_Reg slave 0x814E [0] w) else w)"
  show ?thesis
  proof (rule that [of w'])
    show "ct_free idle w'" using gt_wr(2) [OF w(1)] w(1) by (simp add: w'_def)
    show "reg_of (seen w') = (if valid then overwritten cell 0x814E [0] m else m)"
      using gt_wr(1) [OF w(1), of "0x814E" "[0]"] w(2) by (simp add: w'_def)
    show "gt_poll slave width height t s =
      (if and (m 0x814E) 0xF \<noteq> 0 \<and> and (m 0x814E) 0xF < 6
       then case gt_touch slave width height (m 0x814E) t (s \<lparr> ct_bus := w' \<rparr>) of (mode, t, s) \<Rightarrow> (1, mode, t, s)
       else (0, m 0x814E, t, s \<lparr> ct_bus := w' \<rparr>))"
      unfolding gt_poll_def b prod.case Let_def buf w'_def valid_def by simp
  qed
qed

text \<open>A valid status with one to five points: everything the scan function does.\<close>

lemma gt_scan_touch:
  assumes "ct_free idle (ct_bus s)" and "reg_of (seen (ct_bus s)) = m" and "well_typed s" and "polls (gt_t s + 1)"
    and "bit (m 0x814E) 7" and "k = unat (and (m 0x814E) 0xF)" and "1 \<le> k" and "k \<le> 5"
    and "gt_x (touchtype (panel s)) m 0 \<le> width" and "gt_y (touchtype (panel s)) m 0 \<le> height"
  shows "fst (GT9147_Scan slave width height mode s) = 1
    \<and> (\<forall>i < 8. bit (sta (panel (snd (GT9147_Scan slave width height mode s)))) i = (i < k \<or> i = 6 \<or> i = 7))
    \<and> tp_x (panel (snd (GT9147_Scan slave width height mode s)))
        = shown k (\<lambda>_. True) (gt_x (touchtype (panel s)) m) ((tp_x (panel s))[4 := tp_x (panel s) ! 0])
    \<and> tp_y (panel (snd (GT9147_Scan slave width height mode s)))
        = shown k (\<lambda>_. True) (gt_y (touchtype (panel s)) m) ((tp_y (panel s))[4 := tp_y (panel s) ! 0])
    \<and> gt_t (snd (GT9147_Scan slave width height mode s)) = 0
    \<and> reg_of (seen (ct_bus (snd (GT9147_Scan slave width height mode s)))) = overwritten cell 0x814E [0] m
    \<and> ct_free idle (ct_bus (snd (GT9147_Scan slave width height mode s)))"
proof -
  define status where "status = m 0x814E"
  define m1 where "m1 = overwritten cell 0x814E [0] m"
  have k: "and status 0xF < 6" "and status 0xF \<noteq> 0" "and status 0x80 \<noteq> 0"
    using assms(5-8) bit_7_u8 [of status] by (auto simp: status_def word_less_nat_alt)
  obtain w where w: "ct_free idle w" "reg_of (seen w) = m1"
    and poll: "gt_poll slave width height (gt_t s + 1) s =
      (case gt_touch slave width height status (gt_t s + 1) (s \<lparr> ct_bus := w \<rparr>) of (mode, t, s) \<Rightarrow> (1, mode, t, s))"
    using gt_status [OF assms(1,2), of width height "gt_t s + 1"] k by (auto simp: m1_def status_def)
  define tt where "tt = touchtype (panel s)"
  define p where "p = first_kept (points_pressed status (panel s))"
  define u where "u = s \<lparr> ct_bus := w, panel := p \<rparr>"
  define v where "v = touched_points (gt_point slave) u"
  have p: "touchtype p = tt" "sta p = or (or (not (push_bit k 0xFF)) TP_PRES_DOWN) TP_CATH_PRES"
    "tp_x p = (tp_x (panel s))[4 := tp_x (panel s) ! 0]" "tp_y p = (tp_y (panel s))[4 := tp_y (panel s) ! 0]"
    by (simp_all add: p_def tt_def first_kept_def points_pressed_def status_def assms(6))
  have sta: "bit (sta p) i = (i < k \<or> i = 6 \<or> i = 7)" if "i < 8" for i
    using that unfolding p(2) by (rule touch_sta_bits)
  have v: "ct_free idle (ct_bus v)" "reg_of (seen (ct_bus v)) = m1" "gt_t v = gt_t s"
    "panel v = p \<lparr> tp_x := shown 5 (bit (sta p)) (gt_x tt m1) (tp_x p), tp_y := shown 5 (bit (sta p)) (gt_y tt m1) (tp_y p) \<rparr>"
    using touched_points_show [where P = "\<lambda>s'. ct_free idle (ct_bus s') \<and> reg_of (seen (ct_bus s')) = m1
        \<and> touchtype (panel s') = tt \<and> gt_t s' = gt_t s" and point = "gt_point slave" and x = "gt_x tt m1" and y = "gt_y tt m1" and s = u]
      gt_point_shows [where m = m1 and tt = tt] w p(1)
    by (simp_all add: v_def u_def)
  have m1: "m1 a = m a" if "a \<noteq> 0x814E" for a
    using that cells by (simp add: m1_def inj_eq)
  have same: "gt_x tt m1 i = gt_x tt m i" "gt_y tt m1 i = gt_y tt m i" if "i < 5" for i
    using m1 [OF point_registers [OF that, of 0]] m1 [OF point_registers [OF that, of 1]]
      m1 [OF point_registers [OF that, of 2]] m1 [OF point_registers [OF that, of 3]]
    by (simp_all add: gt_x_def gt_y_def Let_def)
  have len: "length (tp_x p) = 5" "length (tp_y p) = 5" using assms(3) by (simp_all add: p(3,4) well_typed_def)
  have points: "tp_x (panel v) = shown k (\<lambda>_. True) (gt_x tt m) (tp_x p)" "tp_y (panel v) = shown k (\<lambda>_. True) (gt_y tt m) (tp_y p)"
    unfolding v(4) using sta same by (auto intro!: shown_first len assms(8))
  have first: "tp_x (panel v) ! 0 = gt_x tt m 0" "tp_y (panel v) ! 0 = gt_y tt m 0"
    unfolding points using len assms(7) by (simp_all add: nth_shown)
  have touch: "gt_touch slave width height status (gt_t s + 1) (s \<lparr> ct_bus := w \<rparr>) = (status, 0, v)"
  proof -
    have "touched_points (gt_point slave) ((s \<lparr> ct_bus := w \<rparr>)
        \<lparr> panel := first_kept (points_pressed status (panel (s \<lparr> ct_bus := w \<rparr>))) \<rparr>) = v"
      by (simp add: v_def u_def p_def)
    moreover have "\<not> width < gt_x tt m 0" "\<not> height < gt_y tt m 0"
      using assms(9,10) by (simp_all add: tt_def not_less)
    ultimately show ?thesis by (simp only: gt_touch_def gt_judged_def Let_def first) simp
  qed
  have "and status 0x8F \<noteq> 0x80" using low_nibble k(2) by blast
  then have "GT9147_Scan slave width height mode s = (1, v \<lparr> gt_t := 0 \<rparr>)"
    using assms(4) by (simp add: GT9147_Scan_def poll touch wrap_ticks_def Let_def)
  with v points p(3,4) sta show ?thesis by (simp add: m1_def tt_def)
qed

end


text \<open>One point at (100, 200) on an upright screen of 480 by 800.\<close>

definition touched_gt9147 :: "u16 \<Rightarrow> u8" where
  "touched_gt9147 a = (if a = 0x814E then 0x81 else if a = 0x8150 then 100 else if a = 0x8152 then 200 else 0)"

lemma touched_gt9147_facts:
  "ct_reg True 0x28 touched_gt9147 (seen (ct_bus (start_state GT9147_Scan_Fn))) = touched_gt9147"
  "ct_free (ct_idle True 0x28 touched_gt9147) (ct_bus (start_state GT9147_Scan_Fn))"
  "well_typed (start_state GT9147_Scan_Fn)" "polls (gt_t (start_state GT9147_Scan_Fn) + 1)"
  "bit (touched_gt9147 0x814E) 7" "unat (and (touched_gt9147 0x814E) 0xF) = 1"
  "gt_x (touchtype (panel (start_state GT9147_Scan_Fn))) touched_gt9147 0 = 100"
  "gt_y (touchtype (panel (start_state GT9147_Scan_Fn))) touched_gt9147 0 = 200"
  using touch_ic_free [of True "0x28" touched_gt9147] bit_7_u8 [of "0x81"]
  by (simp_all add: start_state_def fun_eq_iff ct_reg_def ct_after_def ct_cell_def idle_wire_def well_typed_def
      initial_tp_dev_def polls_def touched_gt9147_def gt_x_def gt_y_def GT9147_TPX_TBL_def be16_def Let_def)


section \<open>A touch is noticed\<close>

text \<open>The counter from call to call while nothing is read.\<close>

definition next_tick :: "u8 \<Rightarrow> u8" where
  "next_tick t = wrap_ticks (t + 1)"

lemma next_ticks: "unat t + n \<le> 240 \<Longrightarrow> unat ((next_tick ^^ n) t) = unat t + n"
proof (induction n)
  case (Suc n)
  then have "unat ((next_tick ^^ n) t) = unat t + n" by simp
  with Suc.prems have "unat ((next_tick ^^ n) t + 1) = unat t + Suc n" by (simp add: unat_suc_u8)
  with Suc.prems show ?case
    by (simp add: next_tick_def [of "(next_tick ^^ n) t"] wrap_ticks_def word_less_nat_alt)
qed simp

lemma polls_soon:
  assumes "t \<le> 240"
  shows "\<exists>n < 11. polls ((next_tick ^^ n) t + 1)"
proof -
  consider "unat t \<le> 8" | "9 \<le> unat t" "unat t \<le> 239" | "t = 240"
    using assms by (force simp: word_le_nat_alt word_eq_iff_unsigned [where ?'a = nat])
  then show ?thesis
  proof cases
    case 1
    then have "polls ((next_tick ^^ 0) t + 1)" by (simp add: polls_def word_less_nat_alt unat_suc_u8)
    then show ?thesis by (intro exI [of _ 0]) simp
  next
    case 2
    define n where "n = 9 - unat t mod 10"
    have n: "n < 11" "unat t + n \<le> 239" "(unat t + n + 1) mod 10 = 0"
      using 2 unfolding n_def by presburger+
    have "unat ((next_tick ^^ n) t) = unat t + n" using n(2) by (intro next_ticks) simp
    then have "unat ((next_tick ^^ n) t + 1) = unat t + n + 1" using n(2) by (simp add: unat_suc_u8)
    then have "unat (((next_tick ^^ n) t + 1) mod 10) = 0" using n(3) by (simp add: unat_mod)
    then have "polls ((next_tick ^^ n) t + 1)" by (simp add: polls_def unsigned_eq_0_iff)
    with n(1) show ?thesis by blast
  next
    case 3
    have "next_tick t = 10" by (simp add: 3 next_tick_def wrap_ticks_def)
    then have "(next_tick ^^ Suc 9) t = (next_tick ^^ 9) 10" by (simp only: funpow_Suc_right comp_apply)
    moreover have "unat ((next_tick ^^ 9) 10) = 19" using next_ticks [of 10 9] by simp
    ultimately have "(next_tick ^^ Suc 9) t = word_of_int (int 19)" by (metis uint_nat word_of_int_uint)
    then have "polls ((next_tick ^^ Suc 9) t + 1)" by (simp add: polls_def del: funpow.simps)
    then show ?thesis by (intro exI [of _ "Suc 9"]) simp
  qed
qed

lemma gt_idle_calls:
  assumes "\<And>j. j < n \<Longrightarrow> \<not> polls ((next_tick ^^ j) (gt_t s) + 1)"
  shows "((\<lambda>s. snd (GT9147_Scan slave width height 0 s)) ^^ n) s = s \<lparr> gt_t := (next_tick ^^ n) (gt_t s) \<rparr>"
  using assms
proof (induction n)
  case (Suc n)
  then have "((\<lambda>s. snd (GT9147_Scan slave width height 0 s)) ^^ n) s = s \<lparr> gt_t := (next_tick ^^ n) (gt_t s) \<rparr>"
    by simp
  with Suc.prems [of n] show ?case
    by (simp add: GT9147_Scan_def Let_def next_tick_def [of "(next_tick ^^ n) (gt_t s)"])
qed simp

text \<open>
  A touch does not go unnoticed: while the chip reports points, the first of them on the screen, one
  of the next eleven calls \<open>tp_dev.scan(0)\<close> of a GT9147 panel returns 1 and marks the press and the
  point; the calls before it change nothing but the counter.
\<close>

theorem GT9147_touch_is_noticed:
  assumes "gt9147_chip slave idle reg_of cell" and "ct_free idle (ct_bus s)" and "well_typed s"
    and "m = reg_of (seen (ct_bus s))" and "bit (m 0x814E) 7"
    and "1 \<le> unat (and (m 0x814E) 0xF)" and "unat (and (m 0x814E) 0xF) \<le> 5"
    and "gt_x (touchtype (panel s)) m 0 \<le> width" and "gt_y (touchtype (panel s)) m 0 \<le> height"
    and "call = GT9147_Scan slave width height 0"
  shows "\<exists>n < 11. fst (call (((\<lambda>s. snd (call s)) ^^ n) s)) = 1
    \<and> bit (sta (panel (((\<lambda>s. snd (call s)) ^^ Suc n) s))) 7
    \<and> tp_x (panel (((\<lambda>s. snd (call s)) ^^ Suc n) s)) ! 0 = gt_x (touchtype (panel s)) m 0
    \<and> tp_y (panel (((\<lambda>s. snd (call s)) ^^ Suc n) s)) ! 0 = gt_y (touchtype (panel s)) m 0
    \<and> (\<forall>j \<le> n. \<exists>t. ((\<lambda>s. snd (call s)) ^^ j) s = s \<lparr> gt_t := t \<rparr>)"
proof -
  let ?polls = "\<lambda>n. polls ((next_tick ^^ n) (gt_t s) + 1)"
  define n where "n = (LEAST n. ?polls n)"
  have "gt_t s \<le> 240" using assms(3) by (simp add: well_typed_def)
  then obtain n0 where n0: "n0 < 11" "?polls n0" using polls_soon by blast
  then have n: "?polls n" "n < 11" "\<And>j. j < n \<Longrightarrow> \<not> ?polls j"
    unfolding n_def using LeastI [of ?polls n0] Least_le [of ?polls n0] not_less_Least [of _ ?polls] by auto
  have idle: "((\<lambda>s. snd (call s)) ^^ j) s = s \<lparr> gt_t := (next_tick ^^ j) (gt_t s) \<rparr>" if "j \<le> n" for j
    unfolding assms(10) using that n(3) by (intro gt_idle_calls) simp
  define s1 where "s1 = s \<lparr> gt_t := (next_tick ^^ n) (gt_t s) \<rparr>"
  have "(next_tick ^^ n) (gt_t s) \<le> 240"
    using assms(3) by (cases n) (simp_all add: well_typed_def next_tick_def wrap_ticks_le)
  then have s1: "ct_free idle (ct_bus s1)" "reg_of (seen (ct_bus s1)) = m" "well_typed s1" "polls (gt_t s1 + 1)"
    "panel s1 = panel s"
    using assms(2-4) n(1) by (simp_all add: s1_def well_typed_def)
  have p: "gt_x (touchtype (panel s1)) m 0 \<le> width" "gt_y (touchtype (panel s1)) m 0 \<le> height"
    using assms(8,9) s1(5) by simp_all
  note t = gt9147_chip.gt_scan_touch [OF assms(1) s1(1-4) assms(5) refl assms(6,7) p, of 0, folded assms(10)]
  have len: "length (tp_x (panel s)) = 5" "length (tp_y (panel s)) = 5" using assms(3) by (simp_all add: well_typed_def)
  have step: "((\<lambda>s. snd (call s)) ^^ Suc n) s = snd (call s1)" using idle [of n] by (simp add: s1_def)
  have "\<forall>j \<le> n. \<exists>t. ((\<lambda>s. snd (call s)) ^^ j) s = s \<lparr> gt_t := t \<rparr>" using idle by blast
  moreover have "((\<lambda>s. snd (call s)) ^^ n) s = s1" using idle [of n] by (simp add: s1_def)
  ultimately show ?thesis
    unfolding step using t assms(6) len s1(5) n(2)
    by (intro exI [of _ n]) (simp add: nth_shown)
qed

theorem GT9147_touch_is_noticed_witness:
  "\<exists>n < 11. fst (GT9147_Scan (touch_ic True 0x28 touched_gt9147) 480 800 0
     (((\<lambda>s. snd (GT9147_Scan (touch_ic True 0x28 touched_gt9147) 480 800 0 s)) ^^ n) (start_state GT9147_Scan_Fn))) = 1"
proof -
  note f = touched_gt9147_facts
  have "1 \<le> unat (and (touched_gt9147 0x814E) 0xF)" "unat (and (touched_gt9147 0x814E) 0xF) \<le> 5"
    "gt_x (touchtype (panel (start_state GT9147_Scan_Fn))) touched_gt9147 0 \<le> 480"
    "gt_y (touchtype (panel (start_state GT9147_Scan_Fn))) touched_gt9147 0 \<le> 800"
    unfolding f(6-8) by simp_all
  from GT9147_touch_is_noticed [OF gt.gt9147_chip_axioms f(2,3) f(1) [symmetric] f(5) this refl]
  show ?thesis by blast
qed

end
