(* ===== verification/Ct_Ott.thy ===== *)
theory Ct_Ott
  imports Ct_Touches
begin

text \<open>
  The scan of the OTT2001A: its raw coordinates are scaled to the screen in double arithmetic. The
  result is the exact quotient, rounded down, for every raw coordinate of the panel.
\<close>

section \<open>The scaling is exact\<close>

lemma scale_constants: "OTT_SCAL_Y = 5764607523034235 / 2 ^ 54" "OTT_SCAL_X = 5337666278359512 / 2 ^ 54"
proof -
  have "floor (32 / 100 * 2 ^ 54 :: rat) = 5764607523034234" by (rule floor_unique) simp_all
  then have "round_half_even (32 / 100 * 2 ^ 54) = 5764607523034235"
    unfolding round_half_even_def Let_def by (simp only:) simp
  moreover have "double_round (32 / 100) = of_int (round_half_even (32 / 100 * 2 ^ 54)) / 2 ^ 54"
    by (rule double_round_binade) simp_all
  ultimately show "OTT_SCAL_Y = 5764607523034235 / 2 ^ 54" by (simp add: OTT_SCAL_Y_def)
  have "floor (2963 / 10000 * 2 ^ 54 :: rat) = 5337666278359511" by (rule floor_unique) simp_all
  then have "round_half_even (2963 / 10000 * 2 ^ 54) = 5337666278359512"
    unfolding round_half_even_def Let_def by (simp only:) simp
  moreover have "double_round (2963 / 10000) = of_int (round_half_even (2963 / 10000 * 2 ^ 54)) / 2 ^ 54"
    by (rule double_round_binade) simp_all
  ultimately show "OTT_SCAL_X = 5337666278359512 / 2 ^ 54" by (simp add: OTT_SCAL_X_def)
qed

text \<open>An integer and a number close above it, or just below the next one, are told apart.\<close>

lemma quotient_floor:
  fixes a den :: nat
  assumes "0 < den" and "den \<le> 10000"
  shows "of_int (int (a div den)) \<le> (of_nat a / of_nat den :: rat)"
    and "(of_nat a / of_nat den :: rat) \<le> of_int (int (a div den)) + 1 - 1 / 10000"
proof -
  define k where "k = a div den"
  have a: "of_nat a = (of_nat k * of_nat den + of_nat (a mod den) :: rat)"
    unfolding k_def by (metis div_mult_mod_eq of_nat_add of_nat_mult)
  have d: "0 < (of_nat den :: rat)" using assms(1) by simp
  have r: "of_nat (a mod den) + 1 \<le> (of_nat den :: rat)"
    using mod_less_divisor [OF assms(1), of a] by (metis Suc_leI of_nat_Suc of_nat_mono add.commute)
  show "of_int (int (a div den)) \<le> (of_nat a / of_nat den :: rat)"
    using d by (simp add: k_def [symmetric] a pos_le_divide_eq)
  have "(of_nat (a mod den) + 1) / (of_nat den :: rat) \<le> 1" using d r by (simp add: pos_divide_le_eq)
  then have "(of_nat a / of_nat den :: rat) \<le> of_nat k + 1 - 1 / of_nat den"
    using d by (simp add: a add_divide_distrib)
  also have "\<dots> \<le> of_nat k + 1 - 1 / 10000"
    using d assms(2) by (simp add: frac_le)
  finally show "(of_nat a / of_nat den :: rat) \<le> of_int (int (a div den)) + 1 - 1 / 10000"
    by (simp add: k_def)
qed

text \<open>
  A factor just above a fraction: the product with a 16-bit number, rounded, has the integer part
  of the exact product.
\<close>

lemma exact_product:
  fixes num den v :: nat and c :: rat
  assumes "0 < den" and "den \<le> 10000" and "num \<le> den" and "v < 65536"
    and "of_nat num / of_nat den \<le> c" and "c \<le> of_nat num / of_nat den + 1 / 2 ^ 55"
  shows "floor (double_round (of_nat v * c)) = int (v * num div den)"
    and "0 \<le> double_round (of_nat v * c)"
    and "double_round (of_nat v * c) \<le> of_nat (v * num) / of_nat den + 1 / 2 ^ 35"
    and "of_nat (v * num) / of_nat den - 1 / 2 ^ 35 \<le> double_round (of_nat v * c)"
proof -
  define q where "q = (of_nat (v * num) / of_nat den :: rat)"
  define p where "p = of_nat v * c"
  have v: "0 \<le> (of_nat v :: rat)" "(of_nat v :: rat) \<le> 65536" using assms(4) by simp_all
  have "of_nat v * (of_nat num / of_nat den) \<le> p" unfolding p_def by (rule mult_left_mono [OF assms(5) v(1)])
  then have lo: "q \<le> p" by (simp add: q_def)
  have "p \<le> of_nat v * (of_nat num / of_nat den + 1 / 2 ^ 55)" unfolding p_def by (rule mult_left_mono [OF assms(6) v(1)])
  also have "\<dots> = q + of_nat v / 2 ^ 55" by (simp add: q_def distrib_left)
  also have "\<dots> \<le> q + 1 / 2 ^ 39" using v(2) by simp
  finally have hi: "p \<le> q + 1 / 2 ^ 39" .
  have "q \<le> of_nat v"
    using assms(1,3) by (simp add: q_def pos_divide_le_eq mult_left_mono flip: of_nat_mult of_nat_le_iff)
  then have small: "p \<le> 65537" using v(2) hi by simp
  have q0: "0 \<le> q" by (simp add: q_def)
  then have p0: "0 \<le> p" using lo by simp
  have close: "\<bar>double_round p - p\<bar> \<le> 1 / 2 ^ 36"
  proof -
    have "\<bar>double_round p - p\<bar> \<le> \<bar>p\<bar> / 2 ^ 53 + 1 / 2 ^ 1075" by (rule double_round_close)
    also have "(1 :: rat) / 2 ^ 1075 \<le> 1 / 2 ^ 53" by (intro divide_left_mono power_increasing) simp_all
    also have "\<bar>p\<bar> / 2 ^ 53 + 1 / 2 ^ 53 \<le> 1 / 2 ^ 36" using small p0 by simp
    finally show ?thesis by simp
  qed
  note k = quotient_floor [OF assms(1,2), of "v * num", folded q_def]
  show "floor (double_round (of_nat v * c)) = int (v * num div den)"
  proof (rule floor_unique)
    show "of_int (int (v * num div den)) \<le> double_round (of_nat v * c)"
      unfolding p_def [symmetric]
      by (rule double_round_integer_below) (use k(1) lo small in \<open>simp_all\<close>)
    show "double_round (of_nat v * c) < of_int (int (v * num div den)) + 1"
      unfolding p_def [symmetric] using abs_le_D1 [OF close] k(2) hi by simp
  qed
  show "0 \<le> double_round (of_nat v * c)" unfolding p_def [symmetric] by (rule double_round_nonneg [OF p0])
  show "double_round (of_nat v * c) \<le> of_nat (v * num) / of_nat den + 1 / 2 ^ 35"
    unfolding p_def [symmetric] q_def [symmetric] using abs_le_D1 [OF close] hi by simp
  show "of_nat (v * num) / of_nat den - 1 / 2 ^ 35 \<le> double_round (of_nat v * c)"
    unfolding p_def [symmetric] q_def [symmetric] using abs_le_D2 [OF close] lo by simp
qed

text \<open>Close to a number that is no integer, rounding does not reach one.\<close>

lemma floor_double_round:
  assumes "of_int k \<le> q" and "q \<le> of_int k + 1 - 1 / 2 ^ 30" and "0 \<le> k" and "k < 65536"
  shows "floor (double_round q) = k"
proof (rule floor_unique)
  have k: "(of_int k :: rat) \<le> 65535" using assms(4) by simp
  then show "of_int k \<le> double_round q"
    by (intro double_round_integer_below assms(1,3)) (use assms(2) in simp)
  have "0 \<le> q" using assms(1,3) by (meson of_int_0_le_iff order_trans)
  then have "\<bar>q\<bar> / 2 ^ 53 + 1 / 2 ^ 53 \<le> 1 / 2 ^ 36" using assms(2) k by simp
  moreover have "(1 :: rat) / 2 ^ 1075 \<le> 1 / 2 ^ 53" by (intro divide_left_mono power_increasing) simp_all
  ultimately have "\<bar>double_round q - q\<bar> \<le> 1 / 2 ^ 36" using double_round_close [of q] by (meson add_left_mono order_trans)
  from abs_le_D1 [OF this] show "double_round q < of_int k + 1" using assms(2) by simp
qed

lemma truncated_nonneg: "0 \<le> q \<Longrightarrow> truncated q = floor q"
  by (simp add: truncated_def)

lemma ott_upright:
  "truncated (ott_scaled v OTT_SCAL_Y) = int (unat v * 32 div 100)"
  "truncated (ott_scaled v OTT_SCAL_X) = int (unat v * 2963 div 10000)"
proof -
  have y: "of_nat 32 / of_nat 100 \<le> OTT_SCAL_Y" "OTT_SCAL_Y \<le> of_nat 32 / of_nat 100 + 1 / 2 ^ 55"
    and x: "of_nat 2963 / of_nat 10000 \<le> OTT_SCAL_X" "OTT_SCAL_X \<le> of_nat 2963 / of_nat 10000 + 1 / 2 ^ 55"
    by (simp_all add: scale_constants)
  show "truncated (ott_scaled v OTT_SCAL_Y) = int (unat v * 32 div 100)"
    using exact_product(1,2) [OF _ _ _ unat_u16_lt y] by (simp add: ott_scaled_def truncated_nonneg)
  show "truncated (ott_scaled v OTT_SCAL_X) = int (unat v * 2963 div 10000)"
    using exact_product(1,2) [OF _ _ _ unat_u16_lt x] by (simp add: ott_scaled_def truncated_nonneg)
qed

lemma ott_mirrored:
  assumes "unat v < 2700"
  shows "truncated (double_round (800 - ott_scaled v OTT_SCAL_X)) = int ((8000000 - unat v * 2963) div 10000)"
proof (cases "unat v = 0")
  case True
  then have "ott_scaled v OTT_SCAL_X = 0" by (simp add: ott_scaled_def double_round_def round_half_even_def)
  moreover have "floor (double_round 800) = 800" by (rule floor_double_round) simp_all
  ultimately show ?thesis using True double_round_nonneg [of 800] by (simp add: truncated_nonneg)
next
  case False
  define N where "N = 8000000 - unat v * 2963"
  have N: "N < 8000000" "int N = 8000000 - int (unat v) * 2963" using assms False by (simp_all add: N_def)
  have "\<not> 10000 dvd N"
  proof
    assume "10000 dvd N"
    then have "10000 dvd 8000000 - N" by (intro dvd_diff_nat) simp_all
    then have "10000 dvd unat v * 2963" using assms by (simp add: N_def)
    moreover have "coprime (10000 :: nat) 2963" by code_simp
    ultimately have "10000 dvd unat v" by (simp add: coprime_dvd_mult_left_iff)
    with False assms show False by (auto dest!: dvd_imp_le)
  qed
  then have m: "1 \<le> N mod 10000" by (simp add: dvd_eq_mod_eq_0 Suc_le_eq)
  define b where "b = ott_scaled v OTT_SCAL_X"
  have x: "of_nat 2963 / of_nat 10000 \<le> OTT_SCAL_X" "OTT_SCAL_X \<le> of_nat 2963 / of_nat 10000 + 1 / 2 ^ 55"
    by (simp_all add: scale_constants)
  have b: "b \<le> of_nat (unat v * 2963) / of_nat 10000 + 1 / 2 ^ 35" "of_nat (unat v * 2963) / of_nat 10000 - 1 / 2 ^ 35 \<le> b"
    using exact_product(3,4) [OF _ _ _ unat_u16_lt x, of v] by (simp_all add: b_def ott_scaled_def)
  have q: "of_nat (unat v * 2963) / of_nat 10000 = (800 - of_nat N / 10000 :: rat)"
  proof -
    have "unat v * 2963 \<le> 8000000" using assms by simp
    then have "of_nat N = (of_nat 8000000 - of_nat (unat v * 2963) :: rat)" unfolding N_def by (rule of_nat_diff)
    then show ?thesis by (simp only: of_nat_numeral) (simp add: diff_divide_distrib)
  qed
  have frac: "of_nat N / 10000 = (of_nat (N div 10000) + of_nat (N mod 10000) / 10000 :: rat)"
    by (metis (no_types, opaque_lifting) add_divide_distrib div_mult_mod_eq nonzero_mult_div_cancel_right of_nat_add of_nat_mult of_nat_numeral zero_neq_numeral)
  have r: "1 \<le> (of_nat (N mod 10000) :: rat)" "(of_nat (N mod 10000) :: rat) \<le> 9999"
    using m mod_less_divisor [of 10000 N] by (simp_all add: Suc_le_eq)
  have fl: "floor (double_round (800 - b)) = int (N div 10000)"
  proof (rule floor_double_round)
    show "of_int (int (N div 10000)) \<le> 800 - b" "800 - b \<le> of_int (int (N div 10000)) + 1 - 1 / 2 ^ 30"
      using b r unfolding q frac by simp_all
    show "0 \<le> int (N div 10000)" "int (N div 10000) < 65536" using N(1) by auto
  qed
  have "0 \<le> double_round (800 - b)" using fl by (metis floor_less_zero not_less of_nat_0_le_iff)
  with fl show ?thesis by (simp add: truncated_nonneg N_def b_def)
qed

section \<open>The scan\<close>

text \<open>The coordinates of a point, from its four registers.\<close>

definition ott_x :: "u8 \<Rightarrow> (u16 \<Rightarrow> u8) \<Rightarrow> nat \<Rightarrow> u16" where
  "ott_x tt m i =
     (let r = OTT_TPX_TBL ! i; a = unat (be16 (m (r + 2)) (m (r + 3))); b = unat (be16 (m r) (m (r + 1)))
      in if bit tt 0 then of_nat ((8000000 - b * 2963) div 10000) else of_nat (a * 32 div 100))"

definition ott_y :: "u8 \<Rightarrow> (u16 \<Rightarrow> u8) \<Rightarrow> nat \<Rightarrow> u16" where
  "ott_y tt m i =
     (let r = OTT_TPX_TBL ! i; a = unat (be16 (m (r + 2)) (m (r + 3))); b = unat (be16 (m r) (m (r + 1)))
      in if bit tt 0 then of_nat (a * 32 div 100) else of_nat (b * 2963 div 10000))"

text \<open>The raw coordinates the panel can give: 2700 by 1500.\<close>

definition ott_in_range :: "(u16 \<Rightarrow> u8) \<Rightarrow> bool" where
  "ott_in_range m \<longleftrightarrow> (\<forall>i < 5. unat (be16 (m (OTT_TPX_TBL ! i)) (m (OTT_TPX_TBL ! i + 1))) < 2700
     \<and> unat (be16 (m (OTT_TPX_TBL ! i + 2)) (m (OTT_TPX_TBL ! i + 3))) < 1500)"

context ott2001a_chip
begin

lemma ott_rd:
  assumes "ct_free idle w" and "0 < n"
  shows "fst (OTT2001A_RD_Reg slave r n w) = map (\<lambda>j. reg_of (seen w) (r + of_nat j)) [0..<n]"
    and "reg_of (seen (snd (OTT2001A_RD_Reg slave r n w))) = reg_of (seen w)"
    and "ct_free idle (snd (OTT2001A_RD_Reg slave r n w))"
  using rd_reg_steady [OF assms, of r] by (simp_all add: drivers_select)

lemma ott_point_shows:
  assumes "ct_free idle (ct_bus s)" and "reg_of (seen (ct_bus s)) = m" and "touchtype (panel s) = tt"
    and "ott_in_range m" and "i < 5"
  shows "(ct_free idle (ct_bus (ott_point slave i s)) \<and> reg_of (seen (ct_bus (ott_point slave i s))) = m
      \<and> touchtype (panel (ott_point slave i s)) = tt \<and> ott_t (ott_point slave i s) = ott_t s)
    \<and> panel (ott_point slave i s) = (panel s)
      \<lparr> tp_x := (tp_x (panel s))[i := ott_x tt m i], tp_y := (tp_y (panel s))[i := ott_y tt m i] \<rparr>"
proof -
  define r where "r = OTT_TPX_TBL ! i"
  note rd = ott_rd [OF assms(1), of 4 r, unfolded assms(2)]
  obtain buf w where b: "OTT2001A_RD_Reg slave r 4 (ct_bus s) = (buf, w)" by fastforce
  have buf: "buf ! 0 = m r" "buf ! 1 = m (r + 1)" "buf ! 2 = m (r + 2)" "buf ! 3 = m (r + 3)"
    using rd(1) by (simp_all add: b)
  have w: "ct_free idle w" "reg_of (seen w) = m" using rd(2,3) by (simp_all add: b)
  have range: "unat (be16 (m r) (m (r + 1))) < 2700" using assms(4,5) by (simp add: ott_in_range_def r_def)
  have "ott_point slave i s = s \<lparr> ct_bus := w, panel := (panel s)
      \<lparr> tp_x := (tp_x (panel s))[i := ott_x tt m i], tp_y := (tp_y (panel s))[i := ott_y tt m i] \<rparr> \<rparr>"
    unfolding ott_point_def ott_x_def ott_y_def r_def [symmetric] b prod.case Let_def buf landscape assms(3)
      ott_upright ott_mirrored [OF range] of_int_of_nat_eq by simp
  with w assms(3) show ?thesis by simp
qed

lemma ott_scan_touch:
  assumes "ct_free idle (ct_bus s)" and "reg_of (seen (ct_bus s)) = m" and "well_typed s" and "polls (ott_t s + 1)"
    and "bit (m 0) 0" and "ott_in_range m" and "tt = touchtype (panel s)"
    and "ott_x tt m 0 \<noteq> 0 \<or> ott_y tt m 0 \<noteq> 0"
  shows "fst (OTT2001A_Scan slave mode s) = 1
    \<and> panel (snd (OTT2001A_Scan slave mode s)) = (panel s)
      \<lparr> sta := or (or (and (m 0) 0x1F) TP_PRES_DOWN) TP_CATH_PRES,
        tp_x := shown 5 (bit (m 0)) (ott_x tt m) (tp_x (panel s)),
        tp_y := shown 5 (bit (m 0)) (ott_y tt m) (tp_y (panel s)) \<rparr>
    \<and> ott_t (snd (OTT2001A_Scan slave mode s)) = 0
    \<and> reg_of (seen (ct_bus (snd (OTT2001A_Scan slave mode s)))) = m
    \<and> ct_free idle (ct_bus (snd (OTT2001A_Scan slave mode s)))"
proof -
  note rd = ott_rd [OF assms(1), of 1 0, unfolded assms(2)]
  obtain buf w where b: "OTT2001A_RD_Reg slave 0 1 (ct_bus s) = (buf, w)" by fastforce
  have buf: "buf ! 0 = m 0" using rd(1) b by simp
  have w: "ct_free idle w" "reg_of (seen w) = m" using rd(2,3) b by simp_all
  define p where "p = (panel s) \<lparr> sta := or (or (and (m 0) 0x1F) TP_PRES_DOWN) TP_CATH_PRES \<rparr>"
  define u where "u = s \<lparr> ct_bus := w, panel := p \<rparr>"
  define v where "v = touched_points (ott_point slave) u"
  have bits: "bit (sta p) i = bit (m 0) i" if "i < 5" for i
    using that by (auto simp: p_def bit_or_iff low_five_bits press_bits)
  have v: "ct_free idle (ct_bus v)" "reg_of (seen (ct_bus v)) = m"
    "panel v = p \<lparr> tp_x := shown 5 (bit (sta p)) (ott_x tt m) (tp_x p), tp_y := shown 5 (bit (sta p)) (ott_y tt m) (tp_y p) \<rparr>"
    using touched_points_show [where P = "\<lambda>s'. ct_free idle (ct_bus s') \<and> reg_of (seen (ct_bus s')) = m
        \<and> touchtype (panel s') = tt \<and> ott_t s' = ott_t s" and point = "ott_point slave" and x = "ott_x tt m" and y = "ott_y tt m" and s = u]
      ott_point_shows [where m = m and tt = tt, OF _ _ _ assms(6)] w assms(7)
    by (simp_all add: v_def u_def p_def)
  have pts: "shown 5 (bit (sta p)) x xs = shown 5 (bit (m 0)) x xs" for x xs
    by (auto simp: shown_def bits)
  have len: "length (tp_x p) = 5" "length (tp_y p) = 5" using assms(3) by (simp_all add: p_def well_typed_def)
  have first: "tp_x (panel v) ! 0 = ott_x tt m 0" "tp_y (panel v) ! 0 = ott_y tt m 0"
    unfolding v(3) using len bits [of 0] assms(5) by (simp_all add: nth_shown)
  have low: "and (m 0) 0x1F \<noteq> 0" using low_five_bits [of "m 0" 0] assms(5) by auto
  have "ott_poll slave (ott_t s + 1) s = (1, m 0, 0, v)"
    unfolding ott_poll_def b prod.case Let_def buf
    using first assms(8) low by (auto simp add: v_def u_def p_def)
  then have "OTT2001A_Scan slave mode s = (1, v \<lparr> ott_t := 0 \<rparr>)"
    using assms(4) low by (simp add: OTT2001A_Scan_def wrap_ticks_def Let_def)
  with v(1,2) show ?thesis by (simp add: v(3) pts) (simp add: p_def)
qed

end

text \<open>
  \<open>OTT2001A_Scan\<close>, in a call that reads a chip whose raw coordinates are those of its panel (2700 by
  1500) and which reports the first point, not in the corner: the call returns 1, \<open>sta\<close> marks the
  press and exactly the reported points, and their coordinates are the raw ones scaled by 0.2963 and
  0.32, in the direction of the screen, rounded down: the double arithmetic of the driver never
  gives another number. They lie on the screen of 800 by 480, borders included.
\<close>

theorem OTT2001A_Scan_scales_exactly:
  assumes "ott2001a_chip slave idle reg_of cell" and "ct_free idle (ct_bus s)" and "well_typed s"
    and "polls (ott_t s + 1)" and "m = reg_of (seen (ct_bus s))" and "bit (m 0) 0" and "ott_in_range m"
    and "tt = touchtype (panel s)" and "ott_x tt m 0 \<noteq> 0 \<or> ott_y tt m 0 \<noteq> 0"
    and "s' = snd (OTT2001A_Scan slave mode s)"
  shows "fst (OTT2001A_Scan slave mode s) = 1
    \<and> (\<forall>i < 8. bit (sta (panel s')) i = (i < 5 \<and> bit (m 0) i \<or> i = 6 \<or> i = 7))
    \<and> (\<forall>i < 5. tp_x (panel s') ! i = (if bit (m 0) i then ott_x tt m i else tp_x (panel s) ! i)
        \<and> tp_y (panel s') ! i = (if bit (m 0) i then ott_y tt m i else tp_y (panel s) ! i))
    \<and> (\<forall>i < 5. ott_x tt m i \<le> (if bit tt 0 then 800 else 480) \<and> ott_y tt m i \<le> (if bit tt 0 then 480 else 800))
    \<and> ott_t s' = 0"
proof -
  note t = ott2001a_chip.ott_scan_touch [OF assms(1,2) assms(5) [symmetric] assms(3,4,6-9), of mode, folded assms(10)]
  have sta: "bit (sta (panel s')) i = (i < 5 \<and> bit (m 0) i \<or> i = 6 \<or> i = 7)" if "i < 8" for i
    using t that by (auto simp: bit_or_iff low_five_bits press_bits)
  have bound: "ott_x tt m i \<le> (if bit tt 0 then 800 else 480)" "ott_y tt m i \<le> (if bit tt 0 then 480 else 800)"
    if i: "i < 5" for i
  proof -
    let ?r = "OTT_TPX_TBL ! i"
    define a b where "a = unat (be16 (m (?r + 2)) (m (?r + 3)))" and "b = unat (be16 (m ?r) (m (?r + 1)))"
    have "a < 1500" "b < 2700" using assms(7) i by (simp_all add: ott_in_range_def a_def b_def)
    then have "a * 32 div 100 \<le> 480" "b * 2963 div 10000 \<le> 800" "(8000000 - b * 2963) div 10000 \<le> 800" by auto
    then show "ott_x tt m i \<le> (if bit tt 0 then 800 else 480)" "ott_y tt m i \<le> (if bit tt 0 then 480 else 800)"
      unfolding ott_x_def ott_y_def Let_def a_def [symmetric] b_def [symmetric]
      by (auto simp: word_le_nat_alt unat_of_nat_u16)
  qed
  have "length (tp_x (panel s)) = 5" "length (tp_y (panel s)) = 5" using assms(3) by (simp_all add: well_typed_def)
  with t sta bound show ?thesis by (simp add: nth_shown)
qed

text \<open>The first point at the raw place (1000, 500) of an upright panel.\<close>

definition touched_ott2001a :: "u16 \<Rightarrow> u8" where
  "touched_ott2001a a = (if a = 0 then 1 else if a = 0x100 then 3 else if a = 0x101 then 0xE8
     else if a = 0x102 then 1 else if a = 0x103 then 0xF4 else 0)"

theorem OTT2001A_Scan_scales_exactly_witness:
  "tp_x (panel (snd (OTT2001A_Scan (touch_ic True 0xB2 touched_ott2001a) 0 (start_state OTT2001A_Scan_Fn)))) ! 0 = 160"
proof -
  let ?s = "start_state OTT2001A_Scan_Fn"
  have m: "touched_ott2001a = ct_reg True 0xB2 touched_ott2001a (seen (ct_bus ?s))"
    by (simp add: start_state_def fun_eq_iff ct_reg_def ct_after_def ct_cell_def idle_wire_def)
  have s: "ct_free (ct_idle True 0xB2 touched_ott2001a) (ct_bus ?s)" "well_typed ?s" "polls (ott_t ?s + 1)"
    using touch_ic_free [of True "0xB2" touched_ott2001a]
    by (simp_all add: start_state_def well_typed_def initial_tp_dev_def polls_def)
  have "\<forall>i \<in> set [0..<5]. unat (be16 (touched_ott2001a (OTT_TPX_TBL ! i)) (touched_ott2001a (OTT_TPX_TBL ! i + 1))) < 2700
     \<and> unat (be16 (touched_ott2001a (OTT_TPX_TBL ! i + 2)) (touched_ott2001a (OTT_TPX_TBL ! i + 3))) < 1500"
    by (simp add: upt_rec touched_ott2001a_def OTT_TPX_TBL_def be16_def)
  then have range: "ott_in_range touched_ott2001a" by (simp add: ott_in_range_def)
  have x: "ott_x (touchtype (panel ?s)) touched_ott2001a 0 = 160"
    by (simp add: ott_x_def start_state_def initial_tp_dev_def touched_ott2001a_def OTT_TPX_TBL_def be16_def Let_def)
  have "bit (touched_ott2001a 0) 0" by (simp add: touched_ott2001a_def)
  from OTT2001A_Scan_scales_exactly [OF ott.ott2001a_chip_axioms s m this range refl _ refl, of 0] x this
  show ?thesis by simp
qed

end
