(* ===== verification/Lcd_Power.thy ===== *)
theory Lcd_Power
  imports Display_Facts Float64
begin

text \<open>
  The start of the display (\<open>applications/lcd.c\<close>, \<open>LCD_Init\<close>): which controller answers, its
  power-on sequence, and the first clearing. The port is the list of everything that happened on
  it: writes, reads of the data register, and the pauses between them. The controller is the
  parameter \<open>chip\<close>: the value it gives to a read after what has happened.
\<close>

section \<open>The port\<close>

datatype lcd_event = Wrote bus_write | Was_Read | Pause_ms nat | Pause_2us nat | Fast_Writes | Backlight_On

type_synonym lcd_chip = "lcd_event list \<Rightarrow> u16"

definition wrote :: "bus_write list \<Rightarrow> lcd_event list" where
  "wrote ws = map Wrote ws"

text \<open>The writes alone, as the controller's memory and switches see them.\<close>

fun writes :: "lcd_event list \<Rightarrow> bus_write list" where
  "writes [] = []"
| "writes (Wrote w # h) = w # writes h"
| "writes (_ # h) = writes h"

definition LCD_RD_DATA :: "lcd_chip \<Rightarrow> lcd_event list \<Rightarrow> u16 \<times> lcd_event list" where
  "LCD_RD_DATA chip h = (chip h, h @ [Was_Read])"

definition LCD_ReadReg :: "lcd_chip \<Rightarrow> u16 \<Rightarrow> lcd_event list \<Rightarrow> u16 \<times> lcd_event list" where
  "LCD_ReadReg chip LCD_Reg h = LCD_RD_DATA chip (h @ wrote (LCD_WR_REG LCD_Reg) @ [Pause_2us 5])"

text \<open>Commands with their data, and the writes of \<open>LCD_WriteReg\<close>.\<close>

definition commands :: "(u16 \<times> u16 list) list \<Rightarrow> lcd_event list" where
  "commands cs = wrote (concat (map (\<lambda>(r, ds). LCD_WR_REG r @ concat (map LCD_WR_DATA ds)) cs))"

definition registers :: "(u16 \<times> u16) list \<Rightarrow> lcd_event list" where
  "registers rs = wrote (concat (map (\<lambda>(r, v). LCD_WriteReg r v) rs))"

section \<open>The backlight of the 0x1963 panel\<close>

text \<open>\<open>pwm*2.55\<close> in double arithmetic, converted to \<open>uint16_t\<close>.\<close>

definition LCD_SSD_BackLightSet :: "u8 \<Rightarrow> bus_write list" where
  "LCD_SSD_BackLightSet pwm =
     LCD_WR_REG 0xBE @ LCD_WR_DATA 0x05
     @ LCD_WR_DATA (word_of_int (floor (double_round (of_nat (unat pwm) * double_round (255 / 100)))))
     @ LCD_WR_DATA 0x01 @ LCD_WR_DATA 0xFF @ LCD_WR_DATA 0x00 @ LCD_WR_DATA 0x00"

section \<open>The power-on sequences\<close>

definition power_9341 :: "lcd_event list" where
  "power_9341 =
     commands [
      (0xCF, [0x00, 0xC1, 0x30]), (0xED, [0x64, 0x03, 0x12, 0x81]), (0xE8, [0x85, 0x10, 0x7A]),
      (0xCB, [0x39, 0x2C, 0x00, 0x34, 0x02]), (0xF7, [0x20]), (0xEA, [0x00, 0x00]), (0xC0, [0x1B]),
      (0xC1, [0x01]), (0xC5, [0x30, 0x30]), (0xC7, [0xB7]), (0x36, [0x48]), (0x3A, [0x55]),
      (0xB1, [0x00, 0x1A]), (0xB6, [0x0A, 0xA2]), (0xF2, [0x00]), (0x26, [0x01]),
      (0xE0, [0x0F, 0x2A, 0x28, 0x08, 0x0E, 0x08, 0x54, 0xA9, 0x43, 0x0A, 0x0F, 0x00, 0x00, 0x00, 0x00]),
      (0xE1, [0x00, 0x15, 0x17, 0x07, 0x11, 0x06, 0x2B, 0x56, 0x3C, 0x05, 0x10, 0x0F, 0x3F, 0x3F, 0x0F]),
      (0x2B, [0x00, 0x00, 0x01, 0x3F]), (0x2A, [0x00, 0x00, 0x00, 0xEF]), (0x11, [])]
     @ [Pause_ms 120]
     @ commands [
      (0x29, [])]"

definition power_5310_1 :: "lcd_event list" where
  "power_5310_1 =
     commands [
      (0xED, [0x01, 0xFE]), (0xEE, [0xDE, 0x21]), (0xF1, [0x01]), (0xDF, [0x10]), (0xC4, [0x8F]),
      (0xC6, [0x00, 0xE2, 0xE2, 0xE2]), (0xBF, [0xAA]),
      (0xB0, [0x0D, 0x00, 0x0D, 0x00, 0x11, 0x00, 0x19, 0x00, 0x21, 0x00, 0x2D, 0x00, 0x3D, 0x00, 0x5D, 0x00, 0x5D, 0x00]),
      (0xB1, [0x80, 0x00, 0x8B, 0x00, 0x96, 0x00]), (0xB2, [0x00, 0x00, 0x02, 0x00, 0x03, 0x00]),
      (0xB3, [0x00, 0x00, 0x00, 0x00, 0x00, 0x00, 0x00, 0x00, 0x00, 0x00, 0x00, 0x00, 0x00, 0x00, 0x00, 0x00, 0x00, 0x00, 0x00, 0x00, 0x00, 0x00, 0x00, 0x00]),
      (0xB4, [0x8B, 0x00, 0x96, 0x00, 0xA1, 0x00]), (0xB5, [0x02, 0x00, 0x03, 0x00, 0x04, 0x00]),
      (0xB6, [0x00, 0x00]),
      (0xB7, [0x00, 0x00, 0x3F, 0x00, 0x5E, 0x00, 0x64, 0x00, 0x8C, 0x00, 0xAC, 0x00, 0xDC, 0x00, 0x70, 0x00, 0x90, 0x00, 0xEB, 0x00, 0xDC, 0x00]),
      (0xB8, [0x00, 0x00, 0x00, 0x00, 0x00, 0x00, 0x00, 0x00]), (0xBA, [0x24, 0x00, 0x00, 0x00])]"

definition power_5310_2 :: "lcd_event list" where
  "power_5310_2 =
     commands [
      (0xC1, [0x20, 0x00, 0x54, 0x00, 0xFF, 0x00]), (0xC2, [0x0A, 0x00, 0x04, 0x00]),
      (0xC3, [0x3C, 0x00, 0x3A, 0x00, 0x39, 0x00, 0x37, 0x00, 0x3C, 0x00, 0x36, 0x00, 0x32, 0x00, 0x2F, 0x00, 0x2C, 0x00, 0x29, 0x00, 0x26, 0x00, 0x24, 0x00, 0x24, 0x00, 0x23, 0x00, 0x3C, 0x00, 0x36, 0x00, 0x32, 0x00, 0x2F, 0x00, 0x2C, 0x00, 0x29, 0x00, 0x26, 0x00, 0x24, 0x00, 0x24, 0x00, 0x23, 0x00]),
      (0xC4, [0x62, 0x00, 0x05, 0x00, 0x84, 0x00, 0xF0, 0x00, 0x18, 0x00, 0xA4, 0x00, 0x18, 0x00, 0x50, 0x00, 0x0C, 0x00, 0x17, 0x00, 0x95, 0x00, 0xF3, 0x00, 0xE6, 0x00]),
      (0xC5, [0x32, 0x00, 0x44, 0x00, 0x65, 0x00, 0x76, 0x00, 0x88, 0x00]),
      (0xC6, [0x20, 0x00, 0x17, 0x00, 0x01, 0x00]), (0xC7, [0x00, 0x00, 0x00, 0x00]),
      (0xC8, [0x00, 0x00, 0x00, 0x00]),
      (0xC9, [0x00, 0x00, 0x00, 0x00, 0x00, 0x00, 0x00, 0x00, 0x00, 0x00, 0x00, 0x00, 0x00, 0x00, 0x00, 0x00])]"

definition power_5310_3 :: "lcd_event list" where
  "power_5310_3 =
     commands [

      (0xE0, [0x16, 0x00, 0x1C, 0x00, 0x21, 0x00, 0x36, 0x00, 0x46, 0x00, 0x52, 0x00, 0x64, 0x00, 0x7A, 0x00, 0x8B, 0x00, 0x99, 0x00, 0xA8, 0x00, 0xB9, 0x00, 0xC4, 0x00, 0xCA, 0x00, 0xD2, 0x00, 0xD9, 0x00, 0xE0, 0x00, 0xF3, 0x00]),
      (0xE1, [0x16, 0x00, 0x1C, 0x00, 0x22, 0x00, 0x36, 0x00, 0x45, 0x00, 0x52, 0x00, 0x64, 0x00, 0x7A, 0x00, 0x8B, 0x00, 0x99, 0x00, 0xA8, 0x00, 0xB9, 0x00, 0xC4, 0x00, 0xCA, 0x00, 0xD2, 0x00, 0xD8, 0x00, 0xE0, 0x00, 0xF3, 0x00]),
      (0xE2, [0x05, 0x00, 0x0B, 0x00, 0x1B, 0x00, 0x34, 0x00, 0x44, 0x00, 0x4F, 0x00, 0x61, 0x00, 0x79, 0x00, 0x88, 0x00, 0x97, 0x00, 0xA6, 0x00, 0xB7, 0x00, 0xC2, 0x00, 0xC7, 0x00, 0xD1, 0x00, 0xD6, 0x00, 0xDD, 0x00, 0xF3, 0x00])]"

definition power_5310_4 :: "lcd_event list" where
  "power_5310_4 =
     commands [

      (0xE3, [0x05, 0x00, 0x0A, 0x00, 0x1C, 0x00, 0x33, 0x00, 0x44, 0x00, 0x50, 0x00, 0x62, 0x00, 0x78, 0x00, 0x88, 0x00, 0x97, 0x00, 0xA6, 0x00, 0xB7, 0x00, 0xC2, 0x00, 0xC7, 0x00, 0xD1, 0x00, 0xD5, 0x00, 0xDD, 0x00, 0xF3, 0x00]),
      (0xE4, [0x01, 0x00, 0x01, 0x00, 0x02, 0x00, 0x2A, 0x00, 0x3C, 0x00, 0x4B, 0x00, 0x5D, 0x00, 0x74, 0x00, 0x84, 0x00, 0x93, 0x00, 0xA2, 0x00, 0xB3, 0x00, 0xBE, 0x00, 0xC4, 0x00, 0xCD, 0x00, 0xD3, 0x00, 0xDD, 0x00, 0xF3, 0x00]),
      (0xE5, [0x00, 0x00, 0x00, 0x00, 0x02, 0x00, 0x29, 0x00, 0x3C, 0x00, 0x4B, 0x00, 0x5D, 0x00, 0x74, 0x00, 0x84, 0x00, 0x93, 0x00, 0xA2, 0x00, 0xB3, 0x00, 0xBE, 0x00, 0xC4, 0x00, 0xCD, 0x00, 0xD3, 0x00, 0xDC, 0x00, 0xF3, 0x00]),
      (0xE6, [0x11, 0x00, 0x34, 0x00, 0x56, 0x00, 0x76, 0x00, 0x77, 0x00, 0x66, 0x00, 0x88, 0x00, 0x99, 0x00, 0xBB, 0x00, 0x99, 0x00, 0x66, 0x00, 0x55, 0x00, 0x55, 0x00, 0x45, 0x00, 0x43, 0x00, 0x44, 0x00])]"

definition power_5310_5 :: "lcd_event list" where
  "power_5310_5 =
     commands [

      (0xE7, [0x32, 0x00, 0x55, 0x00, 0x76, 0x00, 0x66, 0x00, 0x67, 0x00, 0x67, 0x00, 0x87, 0x00, 0x99, 0x00, 0xBB, 0x00, 0x99, 0x00, 0x77, 0x00, 0x44, 0x00, 0x56, 0x00, 0x23, 0x00, 0x33, 0x00, 0x45, 0x00]),
      (0xE8, [0x00, 0x00, 0x99, 0x00, 0x87, 0x00, 0x88, 0x00, 0x77, 0x00, 0x66, 0x00, 0x88, 0x00, 0xAA, 0x00, 0xBB, 0x00, 0x99, 0x00, 0x66, 0x00, 0x55, 0x00, 0x55, 0x00, 0x44, 0x00, 0x44, 0x00, 0x55, 0x00]),
      (0xE9, [0xAA, 0x00, 0x00, 0x00]), (0x00, [0xAA]),
      (0xCF, [0x00, 0x00, 0x00, 0x00, 0x00, 0x00, 0x00, 0x00, 0x00, 0x00, 0x00, 0x00, 0x00, 0x00, 0x00, 0x00, 0x00]),
      (0xF0, [0x00, 0x50, 0x00, 0x00, 0x00]), (0xF3, [0x00]), (0xF9, [0x06, 0x10, 0x29, 0x00]),
      (0x3A, [0x55]), (0x11, [])]
     @ [Pause_ms 100]
     @ commands [
      (0x29, []), (0x35, [0x00]), (0x51, [0xFF]), (0x53, [0x2C]), (0x55, [0x82]), (0x2C, [])]"

definition power_5310 :: "lcd_event list" where
  "power_5310 = power_5310_1 @ power_5310_2 @ power_5310_3 @ power_5310_4 @ power_5310_5"

definition power_5510_1 :: "lcd_event list" where
  "power_5510_1 =
     registers [
      (0xF000, 0x55), (0xF001, 0xAA), (0xF002, 0x52), (0xF003, 0x08), (0xF004, 0x01), (0xB000, 0x0D),
      (0xB001, 0x0D), (0xB002, 0x0D), (0xB600, 0x34), (0xB601, 0x34), (0xB602, 0x34), (0xB100, 0x0D),
      (0xB101, 0x0D), (0xB102, 0x0D), (0xB700, 0x34), (0xB701, 0x34), (0xB702, 0x34), (0xB200, 0x00),
      (0xB201, 0x00), (0xB202, 0x00), (0xB800, 0x24), (0xB801, 0x24), (0xB802, 0x24), (0xBF00, 0x01),
      (0xB300, 0x0F), (0xB301, 0x0F), (0xB302, 0x0F), (0xB900, 0x34), (0xB901, 0x34), (0xB902, 0x34),
      (0xB500, 0x08), (0xB501, 0x08), (0xB502, 0x08), (0xC200, 0x03), (0xBA00, 0x24), (0xBA01, 0x24),
      (0xBA02, 0x24), (0xBC00, 0x00), (0xBC01, 0x78), (0xBC02, 0x00), (0xBD00, 0x00), (0xBD01, 0x78),
      (0xBD02, 0x00), (0xBE00, 0x00), (0xBE01, 0x64), (0xD100, 0x00), (0xD101, 0x33), (0xD102, 0x00),
      (0xD103, 0x34), (0xD104, 0x00), (0xD105, 0x3A), (0xD106, 0x00), (0xD107, 0x4A), (0xD108, 0x00),
      (0xD109, 0x5C), (0xD10A, 0x00), (0xD10B, 0x81), (0xD10C, 0x00), (0xD10D, 0xA6), (0xD10E, 0x00),
      (0xD10F, 0xE5), (0xD110, 0x01), (0xD111, 0x13), (0xD112, 0x01), (0xD113, 0x54), (0xD114, 0x01),
      (0xD115, 0x82), (0xD116, 0x01), (0xD117, 0xCA), (0xD118, 0x02), (0xD119, 0x00), (0xD11A, 0x02),
      (0xD11B, 0x01), (0xD11C, 0x02), (0xD11D, 0x34), (0xD11E, 0x02), (0xD11F, 0x67), (0xD120, 0x02),
      (0xD121, 0x84), (0xD122, 0x02), (0xD123, 0xA4), (0xD124, 0x02), (0xD125, 0xB7), (0xD126, 0x02),
      (0xD127, 0xCF), (0xD128, 0x02), (0xD129, 0xDE), (0xD12A, 0x02), (0xD12B, 0xF2), (0xD12C, 0x02),
      (0xD12D, 0xFE), (0xD12E, 0x03), (0xD12F, 0x10), (0xD130, 0x03), (0xD131, 0x33), (0xD132, 0x03),
      (0xD133, 0x6D), (0xD200, 0x00), (0xD201, 0x33), (0xD202, 0x00), (0xD203, 0x34), (0xD204, 0x00),
      (0xD205, 0x3A), (0xD206, 0x00), (0xD207, 0x4A), (0xD208, 0x00), (0xD209, 0x5C), (0xD20A, 0x00),
      (0xD20B, 0x81), (0xD20C, 0x00), (0xD20D, 0xA6), (0xD20E, 0x00), (0xD20F, 0xE5), (0xD210, 0x01),
      (0xD211, 0x13), (0xD212, 0x01), (0xD213, 0x54), (0xD214, 0x01), (0xD215, 0x82), (0xD216, 0x01),
      (0xD217, 0xCA), (0xD218, 0x02), (0xD219, 0x00), (0xD21A, 0x02), (0xD21B, 0x01), (0xD21C, 0x02),
      (0xD21D, 0x34), (0xD21E, 0x02), (0xD21F, 0x67), (0xD220, 0x02), (0xD221, 0x84), (0xD222, 0x02),
      (0xD223, 0xA4)]"

definition power_5510_2 :: "lcd_event list" where
  "power_5510_2 =
     registers [
      (0xD224, 0x02), (0xD225, 0xB7), (0xD226, 0x02), (0xD227, 0xCF), (0xD228, 0x02), (0xD229, 0xDE),
      (0xD22A, 0x02), (0xD22B, 0xF2), (0xD22C, 0x02), (0xD22D, 0xFE), (0xD22E, 0x03), (0xD22F, 0x10),
      (0xD230, 0x03), (0xD231, 0x33), (0xD232, 0x03), (0xD233, 0x6D), (0xD300, 0x00), (0xD301, 0x33),
      (0xD302, 0x00), (0xD303, 0x34), (0xD304, 0x00), (0xD305, 0x3A), (0xD306, 0x00), (0xD307, 0x4A),
      (0xD308, 0x00), (0xD309, 0x5C), (0xD30A, 0x00), (0xD30B, 0x81), (0xD30C, 0x00), (0xD30D, 0xA6),
      (0xD30E, 0x00), (0xD30F, 0xE5), (0xD310, 0x01), (0xD311, 0x13), (0xD312, 0x01), (0xD313, 0x54),
      (0xD314, 0x01), (0xD315, 0x82), (0xD316, 0x01), (0xD317, 0xCA), (0xD318, 0x02), (0xD319, 0x00),
      (0xD31A, 0x02), (0xD31B, 0x01), (0xD31C, 0x02), (0xD31D, 0x34), (0xD31E, 0x02), (0xD31F, 0x67),
      (0xD320, 0x02), (0xD321, 0x84), (0xD322, 0x02), (0xD323, 0xA4), (0xD324, 0x02), (0xD325, 0xB7),
      (0xD326, 0x02), (0xD327, 0xCF), (0xD328, 0x02), (0xD329, 0xDE), (0xD32A, 0x02), (0xD32B, 0xF2),
      (0xD32C, 0x02), (0xD32D, 0xFE), (0xD32E, 0x03), (0xD32F, 0x10), (0xD330, 0x03), (0xD331, 0x33),
      (0xD332, 0x03), (0xD333, 0x6D), (0xD400, 0x00), (0xD401, 0x33), (0xD402, 0x00), (0xD403, 0x34),
      (0xD404, 0x00), (0xD405, 0x3A), (0xD406, 0x00), (0xD407, 0x4A), (0xD408, 0x00), (0xD409, 0x5C),
      (0xD40A, 0x00), (0xD40B, 0x81), (0xD40C, 0x00), (0xD40D, 0xA6), (0xD40E, 0x00), (0xD40F, 0xE5),
      (0xD410, 0x01), (0xD411, 0x13), (0xD412, 0x01), (0xD413, 0x54), (0xD414, 0x01), (0xD415, 0x82),
      (0xD416, 0x01), (0xD417, 0xCA), (0xD418, 0x02), (0xD419, 0x00), (0xD41A, 0x02), (0xD41B, 0x01),
      (0xD41C, 0x02), (0xD41D, 0x34), (0xD41E, 0x02), (0xD41F, 0x67), (0xD420, 0x02), (0xD421, 0x84),
      (0xD422, 0x02), (0xD423, 0xA4), (0xD424, 0x02), (0xD425, 0xB7), (0xD426, 0x02), (0xD427, 0xCF),
      (0xD428, 0x02), (0xD429, 0xDE), (0xD42A, 0x02), (0xD42B, 0xF2), (0xD42C, 0x02), (0xD42D, 0xFE),
      (0xD42E, 0x03), (0xD42F, 0x10), (0xD430, 0x03), (0xD431, 0x33), (0xD432, 0x03), (0xD433, 0x6D),
      (0xD500, 0x00), (0xD501, 0x33), (0xD502, 0x00), (0xD503, 0x34), (0xD504, 0x00), (0xD505, 0x3A),
      (0xD506, 0x00), (0xD507, 0x4A), (0xD508, 0x00), (0xD509, 0x5C), (0xD50A, 0x00), (0xD50B, 0x81),
      (0xD50C, 0x00), (0xD50D, 0xA6), (0xD50E, 0x00), (0xD50F, 0xE5), (0xD510, 0x01), (0xD511, 0x13),
      (0xD512, 0x01), (0xD513, 0x54), (0xD514, 0x01), (0xD515, 0x82), (0xD516, 0x01), (0xD517, 0xCA),
      (0xD518, 0x02)]"

definition power_5510_3 :: "lcd_event list" where
  "power_5510_3 =
     registers [
      (0xD519, 0x00), (0xD51A, 0x02), (0xD51B, 0x01), (0xD51C, 0x02), (0xD51D, 0x34), (0xD51E, 0x02),
      (0xD51F, 0x67), (0xD520, 0x02), (0xD521, 0x84), (0xD522, 0x02), (0xD523, 0xA4), (0xD524, 0x02),
      (0xD525, 0xB7), (0xD526, 0x02), (0xD527, 0xCF), (0xD528, 0x02), (0xD529, 0xDE), (0xD52A, 0x02),
      (0xD52B, 0xF2), (0xD52C, 0x02), (0xD52D, 0xFE), (0xD52E, 0x03), (0xD52F, 0x10), (0xD530, 0x03),
      (0xD531, 0x33), (0xD532, 0x03), (0xD533, 0x6D), (0xD600, 0x00), (0xD601, 0x33), (0xD602, 0x00),
      (0xD603, 0x34), (0xD604, 0x00), (0xD605, 0x3A), (0xD606, 0x00), (0xD607, 0x4A), (0xD608, 0x00),
      (0xD609, 0x5C), (0xD60A, 0x00), (0xD60B, 0x81), (0xD60C, 0x00), (0xD60D, 0xA6), (0xD60E, 0x00),
      (0xD60F, 0xE5), (0xD610, 0x01), (0xD611, 0x13), (0xD612, 0x01), (0xD613, 0x54), (0xD614, 0x01),
      (0xD615, 0x82), (0xD616, 0x01), (0xD617, 0xCA), (0xD618, 0x02), (0xD619, 0x00), (0xD61A, 0x02),
      (0xD61B, 0x01), (0xD61C, 0x02), (0xD61D, 0x34), (0xD61E, 0x02), (0xD61F, 0x67), (0xD620, 0x02),
      (0xD621, 0x84), (0xD622, 0x02), (0xD623, 0xA4), (0xD624, 0x02), (0xD625, 0xB7), (0xD626, 0x02),
      (0xD627, 0xCF), (0xD628, 0x02), (0xD629, 0xDE), (0xD62A, 0x02), (0xD62B, 0xF2), (0xD62C, 0x02),
      (0xD62D, 0xFE), (0xD62E, 0x03), (0xD62F, 0x10), (0xD630, 0x03), (0xD631, 0x33), (0xD632, 0x03),
      (0xD633, 0x6D), (0xF000, 0x55), (0xF001, 0xAA), (0xF002, 0x52), (0xF003, 0x08), (0xF004, 0x00),
      (0xB100, 0xCC), (0xB101, 0x00), (0xB600, 0x05), (0xB700, 0x70), (0xB701, 0x70), (0xB800, 0x01),
      (0xB801, 0x03), (0xB802, 0x03), (0xB803, 0x03), (0xBC00, 0x02), (0xBC01, 0x00), (0xBC02, 0x00),
      (0xC900, 0xD0), (0xC901, 0x02), (0xC902, 0x50), (0xC903, 0x50), (0xC904, 0x50), (0x3500, 0x00),
      (0x3A00, 0x55)]
     @ commands [
      (0x1100, [])]
     @ [Pause_2us 120]
     @ commands [
      (0x2900, [])]"

definition power_5510 :: "lcd_event list" where
  "power_5510 = power_5510_1 @ power_5510_2 @ power_5510_3"

definition SSD_HOR_RESOLUTION :: u16 where "SSD_HOR_RESOLUTION = 800"
definition SSD_VER_RESOLUTION :: u16 where "SSD_VER_RESOLUTION = 480"
definition SSD_HOR_PULSE_WIDTH :: u16 where "SSD_HOR_PULSE_WIDTH = 1"
definition SSD_HOR_BACK_PORCH :: u16 where "SSD_HOR_BACK_PORCH = 46"
definition SSD_HOR_FRONT_PORCH :: u16 where "SSD_HOR_FRONT_PORCH = 210"
definition SSD_VER_BACK_PORCH :: u16 where "SSD_VER_BACK_PORCH = 23"
definition SSD_VER_FRONT_PORCH :: u16 where "SSD_VER_FRONT_PORCH = 22"
definition SSD_HT :: u16 where "SSD_HT = SSD_HOR_RESOLUTION + SSD_HOR_BACK_PORCH + SSD_HOR_FRONT_PORCH"
definition SSD_HPS :: u16 where "SSD_HPS = SSD_HOR_BACK_PORCH"
definition SSD_VT :: u16 where "SSD_VT = SSD_VER_RESOLUTION + SSD_VER_BACK_PORCH + SSD_VER_FRONT_PORCH"
definition SSD_VPS :: u16 where "SSD_VPS = SSD_VER_BACK_PORCH"

definition power_1963 :: "lcd_event list" where
  "power_1963 =
     commands [(0xE2, [0x1D, 0x02, 0x04])] @ [Pause_2us 100] @ commands [(0xE0, [0x01])] @ [Pause_ms 10]
     @ commands [(0xE0, [0x03])] @ [Pause_ms 12] @ commands [(0x01, [])] @ [Pause_ms 10]
     @ commands [(0xE6, [0x2F, 0xFF, 0xFF]),
         (0xB0, [0x20, 0x00, drop_bit 8 (SSD_HOR_RESOLUTION - 1), SSD_HOR_RESOLUTION - 1,
                 drop_bit 8 (SSD_VER_RESOLUTION - 1), SSD_VER_RESOLUTION - 1, 0x00]),
         (0xB4, [drop_bit 8 (SSD_HT - 1), SSD_HT - 1, drop_bit 8 SSD_HPS, SSD_HPS, SSD_HOR_PULSE_WIDTH - 1,
                 0x00, 0x00, 0x00]),
         (0xB6, [drop_bit 8 (SSD_VT - 1), SSD_VT - 1, drop_bit 8 SSD_VPS, SSD_VPS, SSD_VER_FRONT_PORCH - 1,
                 0x00, 0x00]),
         (0xF0, [0x03]), (0x29, []), (0xD0, [0x00]), (0xBE, [0x05, 0xFE, 0x01, 0x00, 0x00, 0x00]),
         (0xB8, [0x03, 0x01]), (0xBA, [0x01])]
     @ wrote (LCD_SSD_BackLightSet 100)"

section \<open>Which controller answers\<close>

text \<open>A read that becomes the low byte: \<open>id<<=8; id|=LCD_RD_DATA();\<close>\<close>

definition read_low :: "lcd_chip \<Rightarrow> u16 \<times> lcd_event list \<Rightarrow> u16 \<times> lcd_event list" where
  "read_low chip ih = (let (v, h) = LCD_RD_DATA chip (snd ih) in (or (push_bit 8 (fst ih)) v, h))"

text \<open>Reads of which the last one is kept.\<close>

fun read_last :: "lcd_chip \<Rightarrow> nat \<Rightarrow> u16 \<times> lcd_event list \<Rightarrow> u16 \<times> lcd_event list" where
  "read_last chip 0 ih = ih"
| "read_last chip (Suc n) ih = read_last chip n (LCD_RD_DATA chip (snd ih))"

definition identify_1963 :: "lcd_chip \<Rightarrow> u16 \<times> lcd_event list \<Rightarrow> u16 \<times> lcd_event list" where
  "identify_1963 chip ih =
     (let (v, h) = read_low chip (read_last chip 2 (fst ih, snd ih @ wrote (LCD_WR_REG 0xA1)))
      in (if v = 0x5761 then 0x1963 else v, h))"

definition identify_5510 :: "lcd_chip \<Rightarrow> u16 \<times> lcd_event list \<Rightarrow> u16 \<times> lcd_event list" where
  "identify_5510 chip ih =
     (let ih = read_last chip 1 (fst ih, snd ih @ wrote (LCD_WR_REG 0xDA00));
          ih = read_last chip 1 (fst ih, snd ih @ wrote (LCD_WR_REG 0xDB00));
          (v, h) = read_low chip (fst ih, snd ih @ wrote (LCD_WR_REG 0xDC00));
          v = (if v = 0x8000 then 0x5510 else v)
      in if v \<noteq> 0x5510 then identify_1963 chip (v, h) else (v, h))"

definition identify_5310 :: "lcd_chip \<Rightarrow> u16 \<times> lcd_event list \<Rightarrow> u16 \<times> lcd_event list" where
  "identify_5310 chip ih =
     (let ih = read_low chip (read_last chip 3 (fst ih, snd ih @ wrote (LCD_WR_REG 0xD4)))
      in if fst ih \<noteq> 0x5310 then identify_5510 chip ih else ih)"

definition LCD_identify :: "lcd_chip \<Rightarrow> u16 \<times> lcd_event list \<Rightarrow> u16 \<times> lcd_event list" where
  "LCD_identify chip ih =
     (let ih = read_low chip (read_last chip 3 (fst ih, snd ih @ wrote (LCD_WR_REG 0xD3)))
      in if fst ih \<noteq> 0x9341 then identify_5310 chip ih else ih)"

section \<open>The start\<close>

definition LCD_power_on :: "u16 \<Rightarrow> lcd_event list" where
  "LCD_power_on v =
     (if v = 0x9341 then power_9341
      else if v = 0x5310 then power_5310
      else if v = 0x5510 then power_5510
      else if v = 0x1963 then power_1963 else [])"

definition LCD_Init :: "lcd_chip \<Rightarrow> lcd_dev \<Rightarrow> lcd_event list \<Rightarrow> int \<times> lcd_dev \<times> lcd_event list" where
  "LCD_Init chip l h =
     (let (v, h) = LCD_identify chip (ident l, h @ [Pause_ms 50]);
          l = l \<lparr> ident := v \<rparr>;
          h = h @ LCD_power_on v;
          h = (if v = 0x9341 \<or> v = 0x5310 \<or> v = 0x5510 \<or> v = 0x1963 then h @ [Fast_Writes] else h);
          (ws, l) = LCD_Display_Dir 0 l;
          h = h @ wrote ws @ [Backlight_On] @ wrote (LCD_Clear l WHITE)
      in (0, l, h))"

section \<open>Reading a point back\<close>

definition LCD_ReadPoint :: "lcd_chip \<Rightarrow> lcd_dev \<Rightarrow> u16 \<Rightarrow> u16 \<Rightarrow> lcd_event list \<Rightarrow> u32 \<times> lcd_event list" where
  "LCD_ReadPoint chip l x y h =
     (if x \<ge> width l \<or> y \<ge> height l then (0, h)
      else let h = h @ wrote (LCD_SetCursor l x y);
               h = h @ wrote (if ident l = 0x9341 \<or> ident l = 0x5310 \<or> ident l = 0x1963 then LCD_WR_REG 0x2E
                              else if ident l = 0x5510 then LCD_WR_REG 0x2E00 else []);
               (r, h) = LCD_RD_DATA chip h
           in if ident l = 0x1963 then (ucast r, h)
              else let (r, h) = LCD_RD_DATA chip h;
                       (b, h) = LCD_RD_DATA chip h;
                       g = push_bit 8 (and r 0xFF)
                   in (ucast (or (or (push_bit 11 (drop_bit 11 r)) (push_bit 5 (drop_bit 10 g))) (drop_bit 11 b)), h))"

end
