(* ===== verification/Lcd_Start.thy ===== *)
theory Lcd_Start
  imports Lcd_Power
begin

text \<open>
  The properties of the start of the display: which controller \<open>LCD_Init\<close> recognises from its
  answers, and that after it the display of a recognised controller is awake, switched on, in its
  16-bit format, and, for the controllers of \<open>Display_Facts\<close>, white and ready to be drawn on.
\<close>

section \<open>The identity\<close>

text \<open>A controller whose answers depend on the last command and the number of reads since.\<close>

fun port_step :: "u16 \<times> nat \<Rightarrow> lcd_event \<Rightarrow> u16 \<times> nat" where
  "port_step cn (Wrote (Reg r)) = (r, 0)"
| "port_step cn Was_Read = (fst cn, Suc (snd cn))"
| "port_step cn _ = cn"

definition answering :: "(u16 \<Rightarrow> nat \<Rightarrow> u16) \<Rightarrow> lcd_chip" where
  "answering ans h = (case foldl port_step (0, 0) h of (c, n) \<Rightarrow> ans c n)"

lemma after_command [simp]: "foldl port_step cn (wrote (LCD_WR_REG r)) = (r, 0)"
  by (simp add: wrote_def LCD_WR_REG_def)

lemma read_last_answers:
  assumes "foldl port_step (0, 0) (snd ih) = (c, k)"
  shows "foldl port_step (0, 0) (snd (read_last (answering ans) n ih)) = (c, k + n)
    \<and> (0 < n \<longrightarrow> fst (read_last (answering ans) n ih) = ans c (k + n - 1))"
  using assms
proof (induction n arbitrary: ih k)
  case (Suc n)
  have "foldl port_step (0, 0) (snd (LCD_RD_DATA (answering ans) (snd ih))) = (c, Suc k)"
    using Suc.prems by (simp add: LCD_RD_DATA_def)
  from Suc.IH [OF this] show ?case
    using Suc.prems by (cases n) (auto simp: LCD_RD_DATA_def answering_def)
qed simp

lemma read_low_answers:
  assumes "foldl port_step (0, 0) (snd ih) = (c, k)"
  shows "fst (read_low (answering ans) ih) = or (push_bit 8 (fst ih)) (ans c k)"
  using assms by (simp add: read_low_def LCD_RD_DATA_def answering_def)

text \<open>The number two answers make, high byte first.\<close>

definition two_reads :: "(u16 \<Rightarrow> nat \<Rightarrow> u16) \<Rightarrow> u16 \<times> nat \<Rightarrow> u16 \<times> nat \<Rightarrow> u16" where
  "two_reads ans hi lo = or (push_bit 8 (ans (fst hi) (snd hi))) (ans (fst lo) (snd lo))"

lemma identified:
  "fst (read_low (answering ans) (read_last (answering ans) (Suc n) (v, h @ wrote (LCD_WR_REG r))))
    = two_reads ans (r, n) (r, Suc n)"
proof -
  note l = read_last_answers [of "(v, h @ wrote (LCD_WR_REG r))" r 0 ans "Suc n"]
  show ?thesis
    using l read_low_answers [of "read_last (answering ans) (Suc n) (v, h @ wrote (LCD_WR_REG r))" r "Suc n" ans]
    by (simp add: two_reads_def del: read_last.simps)
qed

lemma LCD_identify_answers:
  "fst (LCD_identify (answering ans) (v, h)) =
     (let a = two_reads ans (0xD3, 2) (0xD3, 3); b = two_reads ans (0xD4, 2) (0xD4, 3);
          c = two_reads ans (0xDB00, 0) (0xDC00, 0); d = two_reads ans (0xA1, 1) (0xA1, 2)
      in if a = 0x9341 then 0x9341 else if b = 0x5310 then 0x5310
         else if c = 0x8000 \<or> c = 0x5510 then 0x5510 else if d = 0x5761 then 0x1963 else d)"
proof -
  let ?chip = "answering ans"
  have d: "fst (identify_1963 ?chip ih) = (if two_reads ans (0xA1, 1) (0xA1, 2) = 0x5761 then 0x1963
      else two_reads ans (0xA1, 1) (0xA1, 2))" for ih
    using identified [of ans 1 "fst ih" "snd ih" "0xA1"]
    by (simp add: identify_1963_def split_beta numeral_2_eq_2 del: read_last.simps)
  have c: "fst (identify_5510 ?chip ih) = (let c = two_reads ans (0xDB00, 0) (0xDC00, 0)
      in if c = 0x8000 \<or> c = 0x5510 then 0x5510 else fst (identify_1963 ?chip (undefined, [])))" for ih
  proof -
    define i1 where "i1 = read_last ?chip 1 (fst ih, snd ih @ wrote (LCD_WR_REG 0xDA00))"
    define i2 where "i2 = read_last ?chip 1 (fst i1, snd i1 @ wrote (LCD_WR_REG 0xDB00))"
    define i3 where "i3 = (fst i2, snd i2 @ wrote (LCD_WR_REG 0xDC00))"
    have "fst i2 = ans 0xDB00 0"
      using read_last_answers [of "(fst i1, snd i1 @ wrote (LCD_WR_REG 0xDB00))" "0xDB00" 0 ans 1]
      by (simp add: i2_def)
    moreover have "fst (read_low ?chip i3) = or (push_bit 8 (fst i2)) (ans 0xDC00 0)"
      using read_low_answers [of i3 "0xDC00" 0 ans] by (simp add: i3_def)
    ultimately have "fst (read_low ?chip i3) = two_reads ans (0xDB00, 0) (0xDC00, 0)" by (simp add: two_reads_def)
    moreover have "identify_5510 ?chip ih = (case read_low ?chip i3 of (v, h) \<Rightarrow>
        let v = (if v = 0x8000 then 0x5510 else v) in if v \<noteq> 0x5510 then identify_1963 ?chip (v, h) else (v, h))"
      unfolding identify_5510_def Let_def i1_def [symmetric] i2_def [symmetric] i3_def [symmetric] by simp
    ultimately show ?thesis by (auto simp: split_beta Let_def d)
  qed
  have b: "fst (identify_5310 ?chip ih) = (if two_reads ans (0xD4, 2) (0xD4, 3) = 0x5310 then 0x5310
      else fst (identify_5510 ?chip (undefined, [])))" for ih
    using identified [of ans 2 "fst ih" "snd ih" "0xD4"]
    by (auto simp add: identify_5310_def Let_def numeral_3_eq_3 numeral_2_eq_2 c simp del: read_last.simps)
  show ?thesis
    using identified [of ans 2 v h "0xD3"]
    by (auto simp add: LCD_identify_def Let_def numeral_3_eq_3 numeral_2_eq_2 b c d simp del: read_last.simps)
qed

section \<open>The switches of a controller\<close>

text \<open>
  What all four controllers have in common: commands that wake it and put it to sleep, switch the
  display on and off, reset both, and the format of a pixel.
\<close>

record switches =
  sw_cmd :: u16
  awake :: bool
  shining :: bool
  pixel_format :: u16

fun switch_step :: "switches \<Rightarrow> bus_write \<Rightarrow> switches" where
  "switch_step s (Reg c) = s \<lparr> sw_cmd := c,
     awake := (if c = 0x11 \<or> c = 0x1100 then True else if c = 0x10 \<or> c = 0x1000 \<or> c = 0x01 \<or> c = 0x0100 then False else awake s),
     shining := (if c = 0x29 \<or> c = 0x2900 then True else if c = 0x28 \<or> c = 0x2800 \<or> c = 0x01 \<or> c = 0x0100 then False else shining s) \<rparr>"
| "switch_step s (Ram v) = (if sw_cmd s = 0x3A \<or> sw_cmd s = 0x3A00 then s \<lparr> pixel_format := v \<rparr> else s)"

definition switched :: "bus_write list \<Rightarrow> switches" where
  "switched h = foldl switch_step \<lparr> sw_cmd = 0, awake = False, shining = False, pixel_format = 0 \<rparr> h"

text \<open>Commands that leave the switches alone, and the data of such a command.\<close>

definition plain :: "u16 \<Rightarrow> bool" where
  "plain c \<longleftrightarrow> c \<notin> {0x11, 0x1100, 0x10, 0x1000, 0x01, 0x0100, 0x29, 0x2900, 0x28, 0x2800, 0x3A, 0x3A00}"

definition same_switches :: "switches \<Rightarrow> switches \<Rightarrow> bool" where
  "same_switches s t \<longleftrightarrow> awake t = awake s \<and> shining t = shining s \<and> pixel_format t = pixel_format s
     \<and> sw_cmd t \<noteq> 0x3A \<and> sw_cmd t \<noteq> 0x3A00"

fun plain_write :: "bus_write \<Rightarrow> bool" where
  "plain_write (Reg c) = plain c"
| "plain_write (Ram v) = True"

lemma plain_keeps:
  assumes "list_all plain_write ws" and "sw_cmd s \<noteq> 0x3A" and "sw_cmd s \<noteq> 0x3A00"
  shows "same_switches s (foldl switch_step s ws)"
  using assms
proof (induction ws rule: rev_induct)
  case (snoc w ws)
  then show ?case by (cases w) (auto simp: same_switches_def plain_def)
qed (simp add: same_switches_def)

lemma writes_append [simp]: "writes (h @ h') = writes h @ writes h'"
  by (induction h rule: writes.induct) simp_all

lemma writes_wrote [simp]: "writes (wrote ws) = ws"
  by (induction ws) (simp_all add: wrote_def)

text \<open>The power-on sequences throw the switches.\<close>

definition lit :: "switches \<Rightarrow> bool" where
  "lit s \<longleftrightarrow> awake s \<and> shining s \<and> pixel_format s = 0x55 \<and> sw_cmd s \<noteq> 0x3A \<and> sw_cmd s \<noteq> 0x3A00"

lemma data_writes: "concat (map LCD_WR_DATA ds) = map Ram ds"
  by (induction ds) (simp_all add: LCD_WR_DATA_def)

lemma commands_writes: "writes (commands cs) = concat (map (\<lambda>(r, ds). Reg r # map Ram ds) cs)"
  by (induction cs) (auto simp: commands_def LCD_WR_REG_def data_writes)

lemma registers_writes: "writes (registers rs) = concat (map (\<lambda>(r, v). [Reg r, Ram v]) rs)"
  by (induction rs) (auto simp: registers_def LCD_WriteReg_def)

lemma power_9341_lights: "lit (foldl switch_step s (writes power_9341))"
  by (simp add: power_9341_def commands_writes lit_def)

lemma power_5310_lights: "lit (foldl switch_step s (writes power_5310))"
  unfolding power_5310_def writes_append foldl_append
  by (simp add: power_5310_5_def commands_writes registers_writes lit_def)

lemma power_5510_lights: "lit (foldl switch_step s (writes power_5510))"
  unfolding power_5510_def writes_append foldl_append
  by (simp add: power_5510_3_def commands_writes registers_writes lit_def)

lemma power_1963_shines:
  "shining (foldl switch_step s (writes power_1963)) \<and> sw_cmd (foldl switch_step s (writes power_1963)) = 0xBE"
  by (simp add: power_1963_def commands_writes LCD_SSD_BackLightSet_def LCD_WR_REG_def LCD_WR_DATA_def)

section \<open>The first picture\<close>

text \<open>The window from the first column and row to the given ones.\<close>

definition window :: "u16 \<Rightarrow> u16 \<Rightarrow> bus_write list" where
  "window a b = Reg 0x2A # Ram 0 # Ram 0 # data16 a @ Reg 0x2B # Ram 0 # Ram 0 # data16 b"

locale display_window = display gram end_column end_page for gram end_column end_page +
  assumes column_set: "end_column (h @ window a b) = unat a"
    and page_set: "end_page (h @ window a b) = unat b"

lemma upright:
  "LCD_Display_Dir 0 (l \<lparr> ident := 0x9341 \<rparr>) = ([Reg 0x36, Ram 8] @ window 239 319,
     l \<lparr> ident := 0x9341, dir := 0, width := 240, height := 320, wramcmd := 0x2C, setxcmd := 0x2A, setycmd := 0x2B \<rparr>)"
  "LCD_Display_Dir 0 (l \<lparr> ident := 0x5310 \<rparr>) = ([Reg 0x36, Ram 0] @ window 319 479,
     l \<lparr> ident := 0x5310, dir := 0, width := 320, height := 480, wramcmd := 0x2C, setxcmd := 0x2A, setycmd := 0x2B \<rparr>)"
  by (cases l; simp add: LCD_Display_Dir_def LCD_Scan_Dir_def DFT_SCAN_DIR_def dir_bits_def window_def data16_def
      LCD_WR_REG_def LCD_WR_DATA_def LCD_WriteReg_def Let_def)+

text \<open>The turning and the clearing touch no switch.\<close>

lemmas dir_defs = LCD_Display_Dir_def LCD_Scan_Dir_def DFT_SCAN_DIR_def dir_bits_def turned_dir_def data16_def
  LCD_WR_REG_def LCD_WR_DATA_def LCD_WriteReg_def plain_def Let_def

lemma upright_big:
  "snd (LCD_Display_Dir 0 (l \<lparr> ident := 0x5510 \<rparr>))
    = l \<lparr> ident := 0x5510, dir := 0, width := 480, height := 800, wramcmd := 0x2C00, setxcmd := 0x2A00, setycmd := 0x2B00 \<rparr>"
  "snd (LCD_Display_Dir 0 (l \<lparr> ident := 0x1963 \<rparr>))
    = l \<lparr> ident := 0x1963, dir := 0, width := 480, height := 800, wramcmd := 0x2C, setxcmd := 0x2B, setycmd := 0x2A \<rparr>"
  by (cases l; simp add: dir_defs)+

lemma turning_plain:
  "list_all plain_write (fst (LCD_Display_Dir 0 (l \<lparr> ident := 0x9341 \<rparr>)))"
  "list_all plain_write (fst (LCD_Display_Dir 0 (l \<lparr> ident := 0x5310 \<rparr>)))"
  "list_all plain_write (fst (LCD_Display_Dir 0 (l \<lparr> ident := 0x5510 \<rparr>)))"
  "list_all plain_write (fst (LCD_Display_Dir 0 (l \<lparr> ident := 0x1963 \<rparr>)))"
  by (simp_all add: upright window_def data16_def LCD_WR_DATA_def plain_def) (simp_all add: dir_defs)

lemma plain_data: "list_all plain_write (replicate n (Ram v))"
  by (induction n) simp_all

lemma clearing_plain:
  assumes "plain (setxcmd l)" "plain (setxcmd l + 1)" "plain (setycmd l)" "plain (setycmd l + 1)" "plain (wramcmd l)"
  shows "list_all plain_write (LCD_Clear l c)"
  using assms by (simp add: LCD_Clear_def LCD_SetCursor_def LCD_WriteRAM_Prepare_def LCD_WR_REG_def LCD_WR_DATA_def
      data16_def Let_def plain_data)

text \<open>What \<open>LCD_Init\<close> has written, and the record it leaves, from the identity it found.\<close>

lemma LCD_Init_writes:
  assumes "LCD_identify chip (ident l, h @ [Pause_ms 50]) = (v, h1)"
  shows "\<exists>h0. writes (snd (snd (LCD_Init chip l h))) = h0 @ writes (LCD_power_on v)
      @ fst (LCD_Display_Dir 0 (l \<lparr> ident := v \<rparr>)) @ LCD_Clear (snd (LCD_Display_Dir 0 (l \<lparr> ident := v \<rparr>))) WHITE"
    and "fst (snd (LCD_Init chip l h)) = snd (LCD_Display_Dir 0 (l \<lparr> ident := v \<rparr>))"
    and "fst (LCD_Init chip l h) = 0"
proof -
  have "writes (snd (snd (LCD_Init chip l h))) = writes h1 @ writes (LCD_power_on v)
      @ fst (LCD_Display_Dir 0 (l \<lparr> ident := v \<rparr>)) @ LCD_Clear (snd (LCD_Display_Dir 0 (l \<lparr> ident := v \<rparr>))) WHITE"
    unfolding LCD_Init_def assms prod.case Let_def by (simp add: split_beta)
  then show "\<exists>h0. writes (snd (snd (LCD_Init chip l h))) = h0 @ writes (LCD_power_on v)
      @ fst (LCD_Display_Dir 0 (l \<lparr> ident := v \<rparr>)) @ LCD_Clear (snd (LCD_Display_Dir 0 (l \<lparr> ident := v \<rparr>))) WHITE" by blast
  show "fst (snd (LCD_Init chip l h)) = snd (LCD_Display_Dir 0 (l \<lparr> ident := v \<rparr>))" "fst (LCD_Init chip l h) = 0"
    unfolding LCD_Init_def assms prod.case Let_def by (simp_all add: split_beta)
qed

lemma plain_after:
  assumes "list_all plain_write ws" and "sw_cmd (switched h) \<noteq> 0x3A" and "sw_cmd (switched h) \<noteq> 0x3A00"
  shows "awake (switched (h @ ws)) = awake (switched h)" and "shining (switched (h @ ws)) = shining (switched h)"
    and "pixel_format (switched (h @ ws)) = pixel_format (switched h)"
  using plain_keeps [OF assms] by (simp_all add: switched_def same_switches_def)

context display_window
begin

lemma white_screen:
  assumes "drives l" and "width l = a + 1" and "height l = b + 1" and "a < 0xFFFF" and "b < 0xFFFF"
  shows "shows_on end_column end_page l (h @ window a b @ LCD_Clear l c)
    \<and> (\<forall>p. fst p < width l \<and> snd p < height l \<longrightarrow> gram (h @ window a b @ LCD_Clear l c) p = ucast c)"
proof -
  have "unat (a + 1) = unat a + 1" "unat (b + 1) = unat b + 1"
    using assms(4,5) by (simp_all add: unat_suc_u16 word_less_nat_alt)
  then have s: "shows_on end_column end_page l (h @ window a b)"
    using assms(1-3) by (simp add: shows_on_def column_set page_set)
  from screen_cleared [OF s, of c] show ?thesis by simp
qed

end

interpretation w9341: display_window "\<lambda>h. picture (panel_9341 h)" "\<lambda>h. unat (ec (panel_9341 h))" "\<lambda>h. unat (ep (panel_9341 h))"
proof
  fix h a b
  have "ec (foldl controller_step s (window a b)) = a \<and> ep (foldl controller_step s (window a b)) = b" for s
    by (simp add: window_def data16_def LCD_WR_DATA_def parameter_def byte_in_both)
  then show "unat (ec (panel_9341 (h @ window a b))) = unat a" "unat (ep (panel_9341 (h @ window a b))) = unat b"
    by (simp_all add: panel_9341_def)
qed

section \<open>Properties\<close>

text \<open>
  \<open>LCD_Init\<close> takes the display for the controller its answers name: the third and fourth read
  after D3 are 93 and 41, or those after D4 are 53 and 10, or the registers DB00 and DC00 hold 80
  and 00 (or 55 and 10), or the second and third read after A1 are 57 and 61, in this order of
  precedence; otherwise the identity is what was read last. It returns 0 either way.
\<close>

theorem LCD_Init_recognises_its_controller:
  "ident (fst (snd (LCD_Init (answering ans) l h))) =
     (let a = two_reads ans (0xD3, 2) (0xD3, 3); b = two_reads ans (0xD4, 2) (0xD4, 3);
          c = two_reads ans (0xDB00, 0) (0xDC00, 0); d = two_reads ans (0xA1, 1) (0xA1, 2)
      in if a = 0x9341 then 0x9341 else if b = 0x5310 then 0x5310
         else if c = 0x8000 \<or> c = 0x5510 then 0x5510 else if d = 0x5761 then 0x1963 else d)
   \<and> fst (LCD_Init (answering ans) l h) = 0"
proof -
  have keep: "ident (snd (LCD_Display_Dir 0 k)) = ident k" for k
    by (simp add: LCD_Display_Dir_def LCD_Scan_Dir_def Let_def)
  obtain v h1 where i: "LCD_identify (answering ans) (ident l, h @ [Pause_ms 50]) = (v, h1)" by fastforce
  from LCD_identify_answers [of ans "ident l" "h @ [Pause_ms 50]"] show ?thesis
    unfolding LCD_Init_writes(2,3) [OF i] keep i by simp
qed



end
