(* ===== verification/Dm9000.thy ===== *)
theory Dm9000
  imports Prelude
begin

text \<open>
  The driver of the Ethernet controller (\<open>applications/dm9000.c\<close>). The controller is seen through
  two memory cells, the index and the data register; the list of \<open>net_event\<close>s is everything that
  was done to them, to the reset pin, and the delays in between. The controller is the parameter
  \<open>chip\<close>: what it answers to a read after what has happened. The set-up of the pins is in
  \<open>Pins\<close>, that of the memory interface and the console output are not modelled.

  A call is a value of the option type: \<open>None\<close> says that it never returns, because a loop waits
  for a flag that never comes, or because it waits for the semaphore \<open>dm9000lock\<close> while no other
  call holds it that could give it back.
\<close>

section \<open>Registers\<close>

abbreviation "DM9000_NCR \<equiv> 0x00 :: u16"
abbreviation "DM9000_NSR \<equiv> 0x01 :: u16"
abbreviation "DM9000_TCR \<equiv> 0x02 :: u16"
abbreviation "DM9000_RCR \<equiv> 0x05 :: u16"
abbreviation "DM9000_BPTR \<equiv> 0x08 :: u16"
abbreviation "DM9000_FCTR \<equiv> 0x09 :: u16"
abbreviation "DM9000_FCR \<equiv> 0x0A :: u16"
abbreviation "DM9000_EPCR \<equiv> 0x0B :: u16"
abbreviation "DM9000_EPAR \<equiv> 0x0C :: u16"
abbreviation "DM9000_EPDRL \<equiv> 0x0D :: u16"
abbreviation "DM9000_EPDRH \<equiv> 0x0E :: u16"
abbreviation "DM9000_PAR \<equiv> 0x10 :: u16"
abbreviation "DM9000_MAR \<equiv> 0x16 :: u16"
abbreviation "DM9000_GPCR \<equiv> 0x1E :: u16"
abbreviation "DM9000_GPR \<equiv> 0x1F :: u16"
abbreviation "DM9000_VIDL \<equiv> 0x28 :: u16"
abbreviation "DM9000_VIDH \<equiv> 0x29 :: u16"
abbreviation "DM9000_PIDL \<equiv> 0x2A :: u16"
abbreviation "DM9000_PIDH \<equiv> 0x2B :: u16"
abbreviation "DM9000_TCR2 \<equiv> 0x2D :: u16"
abbreviation "DM9000_SMCR \<equiv> 0x2F :: u16"
abbreviation "DM9000_MRCMDX \<equiv> 0xF0 :: u16"
abbreviation "DM9000_MRCMD \<equiv> 0xF2 :: u16"
abbreviation "DM9000_MWCMD \<equiv> 0xF8 :: u16"
abbreviation "DM9000_TXPLL \<equiv> 0xFC :: u16"
abbreviation "DM9000_TXPLH \<equiv> 0xFD :: u16"
abbreviation "DM9000_ISR \<equiv> 0xFE :: u16"
abbreviation "DM9000_IMR \<equiv> 0xFF :: u16"

abbreviation "NCR_RST \<equiv> 0x01 :: u16"
abbreviation "IMR_PAR \<equiv> 0x80 :: u8"
abbreviation "IMR_PRI \<equiv> 0x01 :: u8"
abbreviation "ISR_PTS \<equiv> 0x02 :: u16"
abbreviation "DM9000_PHY \<equiv> 0x40 :: u16"
abbreviation "DM9000_PHY_BMCR \<equiv> 0x00 :: u16"
abbreviation "DM9000_PHY_ANAR \<equiv> 0x04 :: u16"
abbreviation "DM9000_PKT_MAX \<equiv> 1536 :: u16"
abbreviation "DM9000_ID \<equiv> 0x90000A46 :: u32"

datatype net_event = Index u16 | Data_Out u16 | Data_In | Index_In | Net_Reset bool | Net_Delay nat

type_synonym nic_chip = "net_event list \<Rightarrow> u16"

datatype DM9000_PHY_mode = DM9000_10MHD | DM9000_100MHD | DM9000_10MFD | DM9000_100MFD | DM9000_AUTO

record dm9000_config =
  phy_mode :: DM9000_PHY_mode
  imr_all :: u8
  queue_packet_len :: u16
  mac_addr :: "u8 list"
  multicase_addr :: "u8 list"

text \<open>The driver's state: what happened at the controller, its settings, the value of the lock.\<close>

record net_state =
  bus_log :: "net_event list"
  cfg :: dm9000_config
  dm9000lock :: nat

section \<open>Access to registers\<close>

definition data_read :: "nic_chip \<Rightarrow> net_event list \<Rightarrow> u16 \<times> net_event list" where
  "data_read chip h = (chip h, h @ [Data_In])"

definition DM9000_ReadReg :: "nic_chip \<Rightarrow> u16 \<Rightarrow> net_event list \<Rightarrow> u16 \<times> net_event list" where
  "DM9000_ReadReg chip reg h = data_read chip (h @ [Index reg])"

definition DM9000_WriteReg :: "u16 \<Rightarrow> u16 \<Rightarrow> net_event list \<Rightarrow> net_event list" where
  "DM9000_WriteReg reg data h = h @ [Index reg, Data_Out data]"

definition DM9000_PHY_ReadReg :: "nic_chip \<Rightarrow> u16 \<Rightarrow> net_event list \<Rightarrow> u16 \<times> net_event list" where
  "DM9000_PHY_ReadReg chip reg h =
     (let h = DM9000_WriteReg DM9000_EPAR (or DM9000_PHY reg) h;
          h = DM9000_WriteReg DM9000_EPCR 0x0C h @ [Net_Delay 10];
          h = DM9000_WriteReg DM9000_EPCR 0x00 h;
          (hi, h) = DM9000_ReadReg chip DM9000_EPDRH h;
          (lo, h) = DM9000_ReadReg chip DM9000_EPDRL h
      in (or (push_bit 8 hi) lo, h))"

definition DM9000_PHY_WriteReg :: "u16 \<Rightarrow> u16 \<Rightarrow> net_event list \<Rightarrow> net_event list" where
  "DM9000_PHY_WriteReg reg data h =
     (let h = DM9000_WriteReg DM9000_EPAR (or DM9000_PHY reg) h;
          h = DM9000_WriteReg DM9000_EPDRL (and data 0xff) h;
          h = DM9000_WriteReg DM9000_EPDRH (and (drop_bit 8 data) 0xff) h;
          h = DM9000_WriteReg DM9000_EPCR 0x0A h @ [Net_Delay 50]
      in DM9000_WriteReg DM9000_EPCR 0x00 h)"

definition DM9000_Get_DeiviceID :: "nic_chip \<Rightarrow> net_event list \<Rightarrow> u32 \<times> net_event list" where
  "DM9000_Get_DeiviceID chip h =
     (let (a, h) = DM9000_ReadReg chip DM9000_VIDL h;
          (b, h) = DM9000_ReadReg chip DM9000_VIDH h;
          (c, h) = DM9000_ReadReg chip DM9000_PIDL h;
          (d, h) = DM9000_ReadReg chip DM9000_PIDH h
      in (or (or (or (ucast a) (push_bit 8 (ucast b))) (push_bit 16 (ucast c))) (push_bit 24 (ucast d)), h))"

section \<open>The link\<close>

text \<open>The loop that asks for the link, at most 101 times; the flag says whether it came up.\<close>

function link_wait ::
    "(net_event list \<Rightarrow> bool \<times> net_event list) \<Rightarrow> u8 \<Rightarrow> net_event list \<Rightarrow> bool \<times> net_event list" where
  "link_wait ask i h =
     (case ask h of (up, h) \<Rightarrow>
        if up then (True, h)
        else if i + 1 > 100 then (False, h @ [Net_Delay 100])
        else link_wait ask (i + 1) (h @ [Net_Delay 100]))"
  by pat_completeness auto

termination
proof (relation "measure (\<lambda>(ask, i, h). if i = 255 then 256 else 255 - unat i)", goal_cases)
  case (2 ask i h up h')
  show ?case
  proof (cases "i = 255")
    case False
    then have "unat i \<noteq> 255" using unsigned_word_eqI [of i 255] by auto
    with unat_u8_lt [of i] have "unat i < 255" by linarith
    then have "unat (i + 1) = unat i + 1" by (rule unat_suc_u8)
    moreover from 2 have "i + 1 \<noteq> 255" by auto
    ultimately show ?thesis using \<open>unat i < 255\<close> False by auto
  qed simp
qed simp

definition DM9000_Get_SpeedAndDuplex ::
    "nic_chip \<Rightarrow> dm9000_config \<Rightarrow> net_event list \<Rightarrow> u8 \<times> net_event list" where
  "DM9000_Get_SpeedAndDuplex chip c h =
     (let (up, h) =
        (if phy_mode c = DM9000_AUTO
         then link_wait (\<lambda>h. let (v, h) = DM9000_PHY_ReadReg chip 0x01 h in (and v 0x0020 \<noteq> 0, h)) 0 h
         else link_wait (\<lambda>h. let (v, h) = DM9000_ReadReg chip DM9000_NSR h in (and v 0x40 \<noteq> 0, h)) 0 h)
      in if \<not> up then (0xFF, h)
         else let (nsr, h) = DM9000_ReadReg chip DM9000_NSR h;
                  (ncr, h) = DM9000_ReadReg chip DM9000_NCR h
              in (or (ucast (and (drop_bit 6 nsr) 0x02)) (ucast (and (drop_bit 3 ncr) 0x01)), h))"

fun phy_values :: "DM9000_PHY_mode \<Rightarrow> u16 \<times> u16" where
  "phy_values DM9000_10MHD = (0x0000, 0x21)"
| "phy_values DM9000_10MFD = (0x0100, 0x41)"
| "phy_values DM9000_100MHD = (0x2000, 0x81)"
| "phy_values DM9000_100MFD = (0x2100, 0x101)"
| "phy_values DM9000_AUTO = (0x1000, 0x01E1)"

definition DM9000_Set_PHYMode :: "DM9000_PHY_mode \<Rightarrow> net_event list \<Rightarrow> net_event list" where
  "DM9000_Set_PHYMode m h =
     (let (BMCR_Value, ANAR_Value) = phy_values m;
          h = DM9000_PHY_WriteReg DM9000_PHY_BMCR BMCR_Value h;
          h = DM9000_PHY_WriteReg DM9000_PHY_ANAR ANAR_Value h
      in DM9000_WriteReg DM9000_GPR 0x00 h)"

definition DM9000_Set_MACAddress :: "u8 list \<Rightarrow> net_event list \<Rightarrow> net_event list" where
  "DM9000_Set_MACAddress macaddr h =
     foldl (\<lambda>h i. DM9000_WriteReg (DM9000_PAR + of_nat i) (ucast (macaddr ! i)) h) h [0..<6]"

definition DM9000_Set_Multicast :: "u8 list \<Rightarrow> net_event list \<Rightarrow> net_event list" where
  "DM9000_Set_Multicast multicastaddr h =
     foldl (\<lambda>h i. DM9000_WriteReg (DM9000_MAR + of_nat i) (ucast (multicastaddr ! i)) h) h [0..<8]"

section \<open>Reset and initialisation\<close>

text \<open>Reading a register until its value is the one waited for, with a pause before every read.\<close>

partial_function (option) wait_reg ::
    "nic_chip \<Rightarrow> net_event list \<Rightarrow> u16 \<Rightarrow> (u16 \<Rightarrow> bool) \<Rightarrow> net_event list \<Rightarrow> net_event list option" where
  "wait_reg chip pause reg ok h =
     (if ok (fst (DM9000_ReadReg chip reg (h @ pause)))
      then Some (snd (DM9000_ReadReg chip reg (h @ pause)))
      else wait_reg chip pause reg ok (snd (DM9000_ReadReg chip reg (h @ pause))))"

definition DM9000_Reset :: "nic_chip \<Rightarrow> net_event list \<Rightarrow> net_event list option" where
  "DM9000_Reset chip h =
     (let h = h @ [Net_Reset False, Net_Delay 10, Net_Reset True, Net_Delay 100];
          h = DM9000_WriteReg DM9000_GPCR 0x01 h;
          h = DM9000_WriteReg DM9000_GPR 0 h;
          h = DM9000_WriteReg DM9000_NCR (or 0x02 NCR_RST) h
      in Option.bind (wait_reg chip [Net_Delay 25] DM9000_NCR (\<lambda>v. and v 1 = 0) h) (\<lambda>h.
           let h = DM9000_WriteReg DM9000_NCR 0 h;
               h = DM9000_WriteReg DM9000_NCR (or 0x02 NCR_RST) h
           in wait_reg chip [Net_Delay 25] DM9000_NCR (\<lambda>v. and v 1 = 0) h))"

text \<open>The settings from the unique number of the processor, of which 24 bits become the address.\<close>

definition dm9000_settings :: "u32 \<Rightarrow> dm9000_config" where
  "dm9000_settings temp =
     \<lparr> phy_mode = DM9000_AUTO, imr_all = or IMR_PAR IMR_PRI, queue_packet_len = 0,
       mac_addr = [2, 0, 0, ucast (and (drop_bit 16 temp) 0xFF), ucast (and (drop_bit 8 temp) 0xFFF),
                   ucast (and temp 0xFF)],
       multicase_addr = replicate 8 0xff \<rparr>"

definition DM9000_Init :: "nic_chip \<Rightarrow> u32 \<Rightarrow> net_state \<Rightarrow> (u8 \<times> net_state) option" where
  "DM9000_Init chip uid s =
     (let c = dm9000_settings uid; s = s \<lparr> cfg := c \<rparr>
      in Option.bind (DM9000_Reset chip (bus_log s)) (\<lambda>h.
        let (temp, h) = DM9000_Get_DeiviceID chip (h @ [Net_Delay 200])
        in if temp \<noteq> DM9000_ID then Some (1, s \<lparr> bus_log := h \<rparr>)
           else let h = DM9000_Set_PHYMode (phy_mode c) h;
                    h = DM9000_WriteReg DM9000_NCR 0x00 h;
                    h = DM9000_WriteReg DM9000_TCR 0x00 h;
                    h = DM9000_WriteReg DM9000_BPTR 0x3F h;
                    h = DM9000_WriteReg DM9000_FCTR 0x38 h;
                    h = DM9000_WriteReg DM9000_FCR 0x00 h;
                    h = DM9000_WriteReg DM9000_SMCR 0x00 h;
                    h = DM9000_WriteReg DM9000_NSR (or (or 0x20 0x08) 0x04) h;
                    h = DM9000_WriteReg DM9000_ISR 0x0F h;
                    h = DM9000_WriteReg DM9000_TCR2 0x80 h;
                    h = DM9000_Set_MACAddress (mac_addr c) h;
                    h = DM9000_Set_Multicast (multicase_addr c) h;
                    h = DM9000_WriteReg DM9000_RCR (or (or 0x20 0x10) 0x01) h;
                    h = DM9000_WriteReg DM9000_IMR (ucast IMR_PAR) h;
                    (_, h) = DM9000_Get_SpeedAndDuplex chip c h;
                    h = DM9000_WriteReg DM9000_IMR (ucast (imr_all c)) h
                in Some (0, s \<lparr> bus_log := h \<rparr>)))"

section \<open>The lock\<close>

definition take_lock :: "net_state \<Rightarrow> net_state option" where
  "take_lock s = (if 0 < dm9000lock s then Some (s \<lparr> dm9000lock := dm9000lock s - 1 \<rparr>) else None)"

definition give_lock :: "net_state \<Rightarrow> net_state" where
  "give_lock s = s \<lparr> dm9000lock := dm9000lock s + 1 \<rparr>"

section \<open>Sending\<close>

text \<open>A chain of packet buffers: the total length its head states, and the payload of each.\<close>

record pbuf =
  tot_len :: u16
  payloads :: "u8 list list"

definition two_bytes :: "u8 \<Rightarrow> u8 \<Rightarrow> u16" where
  "two_bytes lo hi = or (push_bit 8 (ucast hi)) (ucast lo)"

text \<open>The bytes of one buffer go through \<open>word\<close>, which holds the byte not yet written.\<close>

fun pack_bytes :: "u8 list \<Rightarrow> u8 list \<Rightarrow> u16 list \<times> u8 list" where
  "pack_bytes word [] = ([], word)"
| "pack_bytes word (b # bs) =
     (let word = word @ [b]
      in if length word = 2
         then let (ws, word) = (two_bytes (word ! 0) (word ! 1), [])
              in (let (rest, word) = pack_bytes word bs in (ws # rest, word))
         else pack_bytes word bs)"

fun pack_chain :: "u8 list \<Rightarrow> u8 list list \<Rightarrow> u16 list \<times> u8 list" where
  "pack_chain word [] = ([], word)"
| "pack_chain word (q # qs) =
     (let (ws, word) = pack_bytes word q; (rest, word) = pack_chain word qs in (ws @ rest, word))"

definition DM9000_SendPacket :: "nic_chip \<Rightarrow> pbuf \<Rightarrow> net_state \<Rightarrow> net_state option" where
  "DM9000_SendPacket chip p s =
     Option.bind (take_lock s) (\<lambda>s.
       let h = DM9000_WriteReg DM9000_IMR (ucast IMR_PAR) (bus_log s);
           h = h @ [Index DM9000_MWCMD];
           (ws, word) = pack_chain [] (payloads p);
           h = h @ map Data_Out ws;
           h = (if length word = 1 then h @ [Data_Out (ucast (word ! 0))] else h);
           h = DM9000_WriteReg DM9000_TXPLL (and (tot_len p) 0xFF) h;
           h = DM9000_WriteReg DM9000_TXPLH (and (drop_bit 8 (tot_len p)) 0xFF) h;
           h = DM9000_WriteReg DM9000_TCR 0x01 h
       in Option.bind (wait_reg chip [] DM9000_ISR (\<lambda>v. and v 0x02 \<noteq> 0) h) (\<lambda>h.
            let h = DM9000_WriteReg DM9000_ISR 0x02 h;
                h = DM9000_WriteReg DM9000_IMR (ucast (imr_all (cfg s))) h
            in Some (give_lock (s \<lparr> bus_log := h \<rparr>))))"

section \<open>Receiving\<close>

text \<open>
  One buffer of \<open>len\<close> bytes, filled two at a time: the bytes written to its payload, one more than
  \<open>len\<close> when that is odd.
\<close>

fun fill_payload :: "nic_chip \<Rightarrow> nat \<Rightarrow> net_event list \<Rightarrow> u8 list \<times> net_event list" where
  "fill_payload chip len h =
     (if 0 < len
      then let (v, h) = data_read chip h; (bs, h) = fill_payload chip (len - 2) h
           in (ucast v # ucast (drop_bit 8 v) # bs, h)
      else ([], h))"

text \<open>The buffers of a chain: their lengths, and what was written to them.\<close>

type_synonym chain = "(nat \<times> u8 list) list"

fun fill_chain :: "nic_chip \<Rightarrow> nat list \<Rightarrow> net_event list \<Rightarrow> chain \<times> net_event list" where
  "fill_chain chip [] h = ([], h)"
| "fill_chain chip (len # lens) h =
     (let (bs, h) = fill_payload chip len h; (rest, h) = fill_chain chip lens h in ((len, bs) # rest, h))"

text \<open>Without buffers the frame is read away, two bytes a turn, until exactly none are left.\<close>

partial_function (option) read_away :: "int \<Rightarrow> net_event list \<Rightarrow> net_event list option" where
  "read_away len h = (if len \<noteq> 0 then read_away (len - 2) (h @ [Data_In]) else Some h)"

text \<open>
  \<open>pbuf_alloc\<close> is the network stack's: the lengths of the buffers it chains for a frame, or nothing
  when its pool is empty. What it has left depends on everything that happened before.
\<close>

type_synonym pbuf_pool = "net_event list \<Rightarrow> u16 \<Rightarrow> nat list option"

definition take_frame ::
    "nic_chip \<Rightarrow> nat list option \<Rightarrow> u16 \<Rightarrow> net_event list \<Rightarrow> (chain option \<times> net_event list) option" where
  "take_frame chip bufs rx_length h =
     (case bufs of
        Some lens \<Rightarrow> (let (p, h) = fill_chain chip lens h in Some (Some p, h))
      | None \<Rightarrow> Option.bind (read_away (uint rx_length) h) (\<lambda>h. Some (None, h)))"

definition rx_bad :: "u16 \<Rightarrow> u16 \<Rightarrow> bool" where
  "rx_bad rx_status rx_length \<longleftrightarrow>
     and rx_status 0xBF00 \<noteq> 0 \<or> rx_length < 0x40 \<or> rx_length > DM9000_PKT_MAX"

text \<open>The header of the frame and the frame: its status, its length, its buffers.\<close>

definition rx_frame ::
    "nic_chip \<Rightarrow> pbuf_pool \<Rightarrow> net_event list \<Rightarrow> (u16 \<times> u16 \<times> chain option \<times> net_event list) option" where
  "rx_frame chip pool h =
     (let (rx_status, h) = data_read chip (h @ [Index DM9000_MRCMD]);
          (rx_length, h) = data_read chip h
      in Option.bind (take_frame chip (pool h rx_length) rx_length h)
           (\<lambda>(p, h). Some (rx_status, rx_length, p, h)))"

text \<open>The ready byte, read twice of which the second counts.\<close>

definition rx_ready :: "nic_chip \<Rightarrow> net_event list \<Rightarrow> u8 \<times> net_event list" where
  "rx_ready chip h =
     (let (_, h) = DM9000_ReadReg chip DM9000_MRCMDX h; (v, h) = data_read chip h in (ucast v, h))"

text \<open>The label \<open>__error_retry\<close>, with the lock taken: the frame, the lock and the events.\<close>

partial_function (option) error_retry ::
    "nic_chip \<Rightarrow> pbuf_pool \<Rightarrow> net_state \<Rightarrow> (chain option \<times> net_state) option" where
  "error_retry chip pool s =
     (let (rxbyte, h) = rx_ready chip (bus_log s)
      in if rxbyte = 0
         then let h = DM9000_WriteReg DM9000_ISR ISR_PTS h;
                  s = s \<lparr> cfg := (cfg s) \<lparr> imr_all := or IMR_PAR IMR_PRI \<rparr> \<rparr>;
                  h = DM9000_WriteReg DM9000_IMR (ucast (imr_all (cfg s))) h
              in Some (None, give_lock (s \<lparr> bus_log := h \<rparr>))
         else if rxbyte > 1
         then let h = DM9000_WriteReg DM9000_RCR 0x00 h;
                  h = DM9000_WriteReg DM9000_ISR 0x80 h
              in Some (None, s \<lparr> bus_log := h \<rparr>)
         else Option.bind (rx_frame chip pool h) (\<lambda>(rx_status, rx_length, p, h).
                if rx_bad rx_status rx_length
                then error_retry chip pool (s \<lparr> bus_log :=
                       (if rx_length > DM9000_PKT_MAX
                        then DM9000_WriteReg DM9000_NCR NCR_RST h @ [Net_Delay 5] else h) \<rparr>)
                else Some (p, give_lock (s \<lparr> bus_log := h \<rparr>))))"

definition DM9000_Receive_Packet ::
    "nic_chip \<Rightarrow> pbuf_pool \<Rightarrow> net_state \<Rightarrow> (chain option \<times> net_state) option" where
  "DM9000_Receive_Packet chip pool s = Option.bind (take_lock s) (error_retry chip pool)"

text \<open>The interrupt handler, which puts back the index it found.\<close>

definition DMA9000_ISRHandler :: "nic_chip \<Rightarrow> net_event list \<Rightarrow> net_event list" where
  "DMA9000_ISRHandler chip h =
     (let last_io = chip h;
          (int_status, h) = DM9000_ReadReg chip DM9000_ISR (h @ [Index_In]);
          h = DM9000_WriteReg DM9000_ISR int_status h
      in h @ [Index last_io])"

end
