(* ===== verification/Dm9000_Chip.thy ===== *)
theory Dm9000_Chip
  imports Dm9000 "HOL-Library.Sublist"
begin

text \<open>
  What the driver of \<open>Dm9000\<close> relies on of the controller: the locale \<open>nic\<close> is its data sheet, on
  what has happened at its two cells, and a controller that works so, with frames arriving at any
  time, is its interpretation. Then the two packings of the driver, bytes into words for sending
  and words into buffers when receiving.
\<close>

section \<open>Bytes and words\<close>

definition bytes_of :: "u16 list \<Rightarrow> u8 list" where
  "bytes_of ws = concat (map (\<lambda>v. [ucast v, ucast (drop_bit 8 v)]) ws)"

lemma bytes_of_simps [simp]:
  "bytes_of [] = []" "bytes_of (v # ws) = ucast v # ucast (drop_bit 8 v) # bytes_of ws"
  "bytes_of (ws @ ws') = bytes_of ws @ bytes_of ws'"
  by (simp_all add: bytes_of_def)

lemma length_bytes_of [simp]: "length (bytes_of ws) = 2 * length ws"
  by (induction ws) simp_all

lemma two_bytes_low [simp]: "(ucast (two_bytes lo hi) :: u8) = lo"
  by (rule bit_word_eqI) (simp add: two_bytes_def bit_simps)

lemma two_bytes_high [simp]: "(ucast (drop_bit 8 (two_bytes lo hi)) :: u8) = hi"
proof (rule bit_word_eqI)
  fix n assume "n < LENGTH(8)"
  then show "bit (ucast (drop_bit 8 (two_bytes lo hi)) :: u8) n = bit hi n"
    using bit_imp_le_length [of lo "n + 8"] by (auto simp: two_bytes_def bit_simps ac_simps)
qed

text \<open>The words of a byte sequence, the last byte of an odd one filled up with zero.\<close>

fun words_of :: "u8 list \<Rightarrow> u16 list" where
  "words_of (a # b # bs) = two_bytes a b # words_of bs"
| "words_of [a] = [ucast a]"
| "words_of [] = []"

lemma length_words_of [simp]: "length (words_of bs) = (length bs + 1) div 2"
  by (induction bs rule: words_of.induct) simp_all

lemma zero_above: "(ucast (drop_bit 8 (ucast (a :: u8) :: u16)) :: u8) = 0"
proof (rule bit_word_eqI)
  fix n
  show "bit (ucast (drop_bit 8 (ucast a :: u16)) :: u8) n = bit 0 n"
    using bit_imp_le_length [of a "n + 8"] by (auto simp: bit_simps ac_simps)
qed

lemma ucast_back: "(ucast (ucast (a :: u8) :: u16) :: u8) = a"
  by (rule bit_word_eqI) (simp add: bit_simps)

lemma bytes_of_words_of: "bytes_of (words_of bs) = bs @ (if odd (length bs) then [0] else [])"
  by (induction bs rule: words_of.induct) (simp_all add: zero_above ucast_back)

lemma words_of_append: "even (length bs) \<Longrightarrow> words_of (bs @ cs) = words_of bs @ words_of cs"
  by (induction bs rule: words_of.induct) simp_all

section \<open>The data sheet\<close>

definition selected :: "net_event list \<Rightarrow> u16" where
  "selected h = foldl (\<lambda>r e. case e of Index i \<Rightarrow> i | _ \<Rightarrow> r) 0 h"

lemma selected_simps [simp]:
  "selected (h @ [Index r]) = r" "selected (h @ [Data_In]) = selected h"
  "selected (h @ [Data_Out v]) = selected h" "selected (h @ [Net_Delay n]) = selected h"
  by (simp_all add: selected_def)

text \<open>Events that take no frame out of the receive memory, and send none.\<close>

fun keeps_frames :: "u16 \<Rightarrow> net_event \<Rightarrow> bool" where
  "keeps_frames r (Index i) = True"
| "keeps_frames r Index_In = True"
| "keeps_frames r (Net_Delay n) = True"
| "keeps_frames r Data_In = (r \<noteq> DM9000_MRCMD)"
| "keeps_frames r (Data_Out v) = (r \<in> {DM9000_RCR, DM9000_ISR, DM9000_IMR})"
| "keeps_frames r (Net_Reset b) = False"

text \<open>The words of a frame in the receive memory: ready mark and status, length, contents.\<close>

definition frame_words :: "u8 \<Rightarrow> u8 list \<Rightarrow> u16 list" where
  "frame_words st bs = two_bytes 1 st # of_nat (length bs) # words_of bs"

lemma length_frame_words [simp]: "length (frame_words st bs) = 2 + (length bs + 1) div 2"
  by (simp add: frame_words_def)

definition transmission :: "u16 list \<Rightarrow> u16 \<Rightarrow> u16 \<Rightarrow> net_event list" where
  "transmission ws lo hi = Index DM9000_MWCMD # map Data_Out ws
     @ [Index DM9000_TXPLL, Data_Out lo, Index DM9000_TXPLH, Data_Out hi, Index DM9000_TCR, Data_Out 1]"

definition polled :: "u16 \<Rightarrow> nat \<Rightarrow> net_event list" where
  "polled r n = concat (replicate n [Index r, Data_In])"

lemma polled_Suc: "polled r (Suc n) = polled r n @ [Index r, Data_In]"
  by (induction n) (simp_all add: polled_def)

text \<open>
  \<open>inbox\<close> are the frames that wait, each with its status, \<open>wire\<close> the frames sent so far. \<open>settled\<close>
  says that no frame is half read or half written. New frames arrive at any time, at the end.
\<close>

locale nic =
  fixes chip :: nic_chip
    and inbox :: "net_event list \<Rightarrow> (u8 \<times> u8 list) list"
    and wire :: "net_event list \<Rightarrow> u8 list list"
    and settled :: "net_event list \<Rightarrow> bool"
  assumes kept: "settled h \<Longrightarrow> keeps_frames (selected h) e \<Longrightarrow>
      settled (h @ [e]) \<and> wire (h @ [e]) = wire h \<and> prefix (inbox h) (inbox (h @ [e]))"
    and ready: "settled h \<Longrightarrow> ucast (chip (h @ [Index DM9000_MRCMDX, Data_In])) =
      (if inbox (h @ [Index DM9000_MRCMDX, Data_In]) = [] then 0 else 1 :: u8)"
    and head_word: "settled h \<Longrightarrow> inbox h = (st, bs) # q \<Longrightarrow> length bs < 65536 \<Longrightarrow> k < length (frame_words st bs) \<Longrightarrow>
      chip (h @ Index DM9000_MRCMD # replicate k Data_In) = frame_words st bs ! k"
    and head_taken: "settled h \<Longrightarrow> inbox h = (st, bs) # q \<Longrightarrow> length bs < 65536 \<Longrightarrow>
      h' = h @ Index DM9000_MRCMD # replicate (length (frame_words st bs)) Data_In \<Longrightarrow>
      settled h' \<and> wire h' = wire h \<and> prefix q (inbox h')"
    and transmitted: "settled h \<Longrightarrow> unat lo < 256 \<Longrightarrow> unat hi < 256 \<Longrightarrow> unat lo + 256 * unat hi \<le> 2 * length ws \<Longrightarrow>
      h' = h @ transmission ws lo hi \<Longrightarrow>
      settled h' \<and> wire h' = wire h @ [take (unat lo + 256 * unat hi) (bytes_of ws)] \<and> prefix (inbox h) (inbox h')
      \<and> (\<exists>n. and (chip (h' @ polled DM9000_ISR n @ [Index DM9000_ISR])) 2 \<noteq> 0)"
begin

text \<open>Several harmless events in a row.\<close>

lemma kept_Index:
  assumes "settled h"
  shows "settled (h @ [Index r])" and "wire (h @ [Index r]) = wire h" and "prefix (inbox h) (inbox (h @ [Index r]))"
  using kept [OF assms, of "Index r"] by simp_all

lemma kept_read:
  assumes "settled h" and "r \<noteq> DM9000_MRCMD"
  shows "settled (h @ Index r # replicate n Data_In) \<and> wire (h @ Index r # replicate n Data_In) = wire h
    \<and> prefix (inbox h) (inbox (h @ Index r # replicate n Data_In)) \<and> selected (h @ Index r # replicate n Data_In) = r"
proof (induction n)
  case 0
  show ?case using kept_Index [OF assms(1)] by simp
next
  case (Suc n)
  define g where "g = h @ Index r # replicate n Data_In"
  have g: "h @ Index r # replicate (Suc n) Data_In = g @ [Data_In]"
    by (simp add: g_def replicate_append_same)
  from Suc kept [of g Data_In] assms(2) show ?case
    unfolding g g_def [symmetric] by (auto elim: prefix_order.trans)
qed

lemma kept_write:
  assumes "settled h" and "r \<in> {DM9000_RCR, DM9000_ISR, DM9000_IMR}"
  shows "settled (DM9000_WriteReg r v h)" and "wire (DM9000_WriteReg r v h) = wire h"
    and "prefix (inbox h) (inbox (DM9000_WriteReg r v h))"
proof -
  have w: "DM9000_WriteReg r v h = (h @ [Index r]) @ [Data_Out v]" by (simp add: DM9000_WriteReg_def)
  note i = kept_Index [OF assms(1), of r]
  from kept [OF i(1), of "Data_Out v"] assms(2) i
  show "settled (DM9000_WriteReg r v h)" "wire (DM9000_WriteReg r v h) = wire h"
    "prefix (inbox h) (inbox (DM9000_WriteReg r v h))"
    unfolding w by (auto elim: prefix_order.trans)
qed

lemma kept_polls:
  assumes "settled h" and "r \<noteq> DM9000_MRCMD"
  shows "settled (h @ polled r n) \<and> wire (h @ polled r n) = wire h \<and> prefix (inbox h) (inbox (h @ polled r n))"
proof (induction n)
  case (Suc n)
  have p: "h @ polled r (Suc n) = (h @ polled r n) @ Index r # replicate 1 Data_In"
    by (simp add: polled_Suc)
  from Suc kept_read [of "h @ polled r n" r 1] assms(2) show ?case
    unfolding p by (auto elim: prefix_order.trans)
qed (simp add: polled_def assms)

end

section \<open>A controller that works so\<close>

record nic_memory =
  nic_index :: u16
  waiting :: "(u8 \<times> u8 list) list"
  read_words :: nat                \<comment> \<open>words of the first frame that have been read\<close>
  send_words :: "u16 list"         \<comment> \<open>words written for the next frame\<close>
  send_low :: u16
  send_high :: u16
  sent_flag :: bool
  on_wire :: "u8 list list"

fun nic_event_step :: "net_event \<Rightarrow> nic_memory \<Rightarrow> nic_memory" where
  "nic_event_step (Index r) m = m \<lparr> nic_index := r \<rparr>"
| "nic_event_step Data_In m =
     (if nic_index m = DM9000_MRCMD
      then (case waiting m of
              [] \<Rightarrow> m
            | (st, bs) # q \<Rightarrow>
                if Suc (read_words m) = length (frame_words st bs)
                then m \<lparr> waiting := q, read_words := 0 \<rparr> else m \<lparr> read_words := Suc (read_words m) \<rparr>)
      else m)"
| "nic_event_step (Data_Out v) m =
     (if nic_index m = DM9000_MWCMD then m \<lparr> send_words := send_words m @ [v] \<rparr>
      else if nic_index m = DM9000_TXPLL then m \<lparr> send_low := v \<rparr>
      else if nic_index m = DM9000_TXPLH then m \<lparr> send_high := v \<rparr>
      else if nic_index m = DM9000_TCR \<and> bit v 0
      then m \<lparr> on_wire := on_wire m @ [take (unat (send_low m) + 256 * unat (send_high m)) (bytes_of (send_words m))],
               send_words := [], sent_flag := True \<rparr>
      else if nic_index m = DM9000_ISR \<and> bit v 1 then m \<lparr> sent_flag := False \<rparr>
      else if nic_index m = DM9000_NCR \<and> bit v 0
      then m \<lparr> waiting := [], read_words := 0, send_words := [], sent_flag := False \<rparr>
      else m)"
| "nic_event_step (Net_Reset b) m = m \<lparr> waiting := [], read_words := 0, send_words := [], sent_flag := False \<rparr>"
| "nic_event_step _ m = m"

text \<open>Before the \<open>n\<close>th event the frames \<open>arrive n\<close> have come in.\<close>

fun nic_after :: "(nat \<Rightarrow> (u8 \<times> u8 list) list) \<Rightarrow> net_event list \<Rightarrow> nic_memory" where
  "nic_after arrive [] = \<lparr> nic_index = 0, waiting = arrive 0, read_words = 0, send_words = [], send_low = 0, send_high = 0,
     sent_flag = False, on_wire = [] \<rparr>"
| "nic_after arrive (e # h) =
     (let m = nic_event_step e (nic_after arrive h) in m \<lparr> waiting := waiting m @ arrive (Suc (length h)) \<rparr>)"

definition nic_state_of :: "(nat \<Rightarrow> (u8 \<times> u8 list) list) \<Rightarrow> net_event list \<Rightarrow> nic_memory" where
  "nic_state_of arrive h = nic_after arrive (rev h)"

lemma nic_state_snoc:
  "nic_state_of arrive (h @ [e]) =
     (let m = nic_event_step e (nic_state_of arrive h) in m \<lparr> waiting := waiting m @ arrive (Suc (length h)) \<rparr>)"
  by (simp add: nic_state_of_def)

text \<open>Its answer to a read of the data register; other registers hold zero.\<close>

definition nic_answer :: "(nat \<Rightarrow> (u8 \<times> u8 list) list) \<Rightarrow> nic_chip" where
  "nic_answer arrive h =
     (let m = nic_state_of arrive h
      in if nic_index m = DM9000_MRCMDX then (if waiting m = [] then 0 else 1)
         else if nic_index m = DM9000_MRCMD
         then (case waiting m of [] \<Rightarrow> 0 | (st, bs) # q \<Rightarrow> frame_words st bs ! read_words m)
         else if nic_index m = DM9000_ISR then (if sent_flag m then 2 else 0)
         else 0)"

lemma nic_index_selected: "nic_index (nic_state_of arrive h) = selected h"
proof (induction h rule: rev_induct)
  case Nil
  show ?case by (simp add: nic_state_of_def selected_def)
next
  case (snoc e h)
  then show ?case by (cases e) (auto simp: nic_state_snoc Let_def selected_def split: list.splits prod.splits)
qed

definition nic_settled :: "(nat \<Rightarrow> (u8 \<times> u8 list) list) \<Rightarrow> net_event list \<Rightarrow> bool" where
  "nic_settled arrive h \<longleftrightarrow> read_words (nic_state_of arrive h) = 0 \<and> send_words (nic_state_of arrive h) = []"

lemma nic_reads_on:
  assumes "read_words (nic_state_of arrive h) = 0" and "waiting (nic_state_of arrive h) = (st, bs) # q"
    and "k < length (frame_words st bs)"
  shows "let m = nic_state_of arrive (h @ Index DM9000_MRCMD # replicate k Data_In)
    in nic_index m = DM9000_MRCMD \<and> read_words m = k \<and> (\<exists>new. waiting m = (st, bs) # q @ new)
      \<and> send_words m = send_words (nic_state_of arrive h) \<and> on_wire m = on_wire (nic_state_of arrive h)"
  using assms(3)
proof (induction k)
  case 0
  then show ?case using assms by (simp add: nic_state_snoc Let_def)
next
  case (Suc k)
  define g where "g = h @ Index DM9000_MRCMD # replicate k Data_In"
  have g: "h @ Index DM9000_MRCMD # replicate (Suc k) Data_In = g @ [Data_In]"
    by (simp add: g_def replicate_append_same)
  from Suc show ?case unfolding g g_def [symmetric] by (auto simp: nic_state_snoc Let_def)
qed

lemma nic_writes_on:
  assumes "nic_index (nic_state_of arrive g) = DM9000_MWCMD"
  shows "let m = nic_state_of arrive (g @ map Data_Out ws)
    in nic_index m = DM9000_MWCMD \<and> send_words m = send_words (nic_state_of arrive g) @ ws
      \<and> read_words m = read_words (nic_state_of arrive g) \<and> on_wire m = on_wire (nic_state_of arrive g)
      \<and> prefix (waiting (nic_state_of arrive g)) (waiting m)"
proof (induction ws rule: rev_induct)
  case Nil
  show ?case using assms by simp
next
  case (snoc w ws)
  then show ?case
    by (auto simp: nic_state_snoc Let_def simp flip: append_assoc intro: prefix_prefix)
qed

interpretation working: nic "nic_answer arrive" "\<lambda>h. waiting (nic_state_of arrive h)"
    "\<lambda>h. on_wire (nic_state_of arrive h)" "nic_settled arrive" for arrive
proof
  fix h e
  assume "nic_settled arrive h" "keeps_frames (selected h) e"
  then show "nic_settled arrive (h @ [e]) \<and> on_wire (nic_state_of arrive (h @ [e])) = on_wire (nic_state_of arrive h)
      \<and> prefix (waiting (nic_state_of arrive h)) (waiting (nic_state_of arrive (h @ [e])))"
    by (cases e) (auto simp: nic_settled_def nic_state_snoc Let_def nic_index_selected)
next
  fix h
  assume "nic_settled arrive h"
  have "selected ((h @ [Index DM9000_MRCMDX]) @ [Data_In]) = DM9000_MRCMDX" by (simp only: selected_simps)
  then show "(ucast (nic_answer arrive (h @ [Index DM9000_MRCMDX, Data_In])) :: u8) =
      (if waiting (nic_state_of arrive (h @ [Index DM9000_MRCMDX, Data_In])) = [] then 0 else 1)"
    by (simp add: nic_answer_def Let_def nic_index_selected)
next
  fix h st bs q k
  assume "nic_settled arrive h" "waiting (nic_state_of arrive h) = (st, bs) # q" "k < length (frame_words st bs)"
  then show "nic_answer arrive (h @ Index DM9000_MRCMD # replicate k Data_In) = frame_words st bs ! k"
    using nic_reads_on [of arrive h st bs q k] by (auto simp: nic_settled_def nic_answer_def Let_def)
next
  fix h st bs q and h' :: "net_event list"
  assume s: "nic_settled arrive h" and w: "waiting (nic_state_of arrive h) = (st, bs) # q"
    and h': "h' = h @ Index DM9000_MRCMD # replicate (length (frame_words st bs)) Data_In"
  define n where "n = 1 + (length bs + 1) div 2"
  have n: "length (frame_words st bs) = Suc n" by (simp add: n_def)
  define g where "g = h @ Index DM9000_MRCMD # replicate n Data_In"
  have g: "h' = g @ [Data_In]" by (simp only: h' n g_def) (simp add: replicate_append_same)
  have "let m = nic_state_of arrive g
    in nic_index m = DM9000_MRCMD \<and> read_words m = n \<and> (\<exists>new. waiting m = (st, bs) # q @ new)
      \<and> send_words m = send_words (nic_state_of arrive h) \<and> on_wire m = on_wire (nic_state_of arrive h)"
    unfolding g_def using s w n by (intro nic_reads_on) (auto simp: nic_settled_def)
  then show "nic_settled arrive h' \<and> on_wire (nic_state_of arrive h') = on_wire (nic_state_of arrive h)
      \<and> prefix q (waiting (nic_state_of arrive h'))"
    using s n unfolding g by (auto simp: nic_state_snoc Let_def nic_settled_def)
next
  fix h and lo hi :: u16 and ws and h' :: "net_event list"
  assume s: "nic_settled arrive h" and h': "h' = h @ transmission ws lo hi"
  define g where "g = (h @ [Index DM9000_MWCMD]) @ map Data_Out ws"
  have m: "let m = nic_state_of arrive g
    in nic_index m = DM9000_MWCMD \<and> send_words m = ws \<and> read_words m = 0
      \<and> on_wire m = on_wire (nic_state_of arrive h) \<and> prefix (waiting (nic_state_of arrive h)) (waiting m)"
    using nic_writes_on [of arrive "h @ [Index DM9000_MWCMD]" ws] s
    unfolding g_def by (auto simp: nic_settled_def nic_state_snoc Let_def elim: append_prefixD)
  have h'g: "h' = g @ [Index DM9000_TXPLL] @ [Data_Out lo] @ [Index DM9000_TXPLH] @ [Data_Out hi] @ [Index DM9000_TCR] @ [Data_Out 1]"
    by (simp add: h' g_def transmission_def)
  have f: "sent_flag (nic_state_of arrive h')" "nic_settled arrive h'"
    "on_wire (nic_state_of arrive h') = on_wire (nic_state_of arrive h) @ [take (unat lo + 256 * unat hi) (bytes_of ws)]"
    "prefix (waiting (nic_state_of arrive h)) (waiting (nic_state_of arrive h'))"
    using m unfolding h'g append_assoc [symmetric]
    by (auto simp: nic_state_snoc Let_def nic_settled_def prefix_prefix simp del: append_assoc)
  have "and (nic_answer arrive (h' @ polled DM9000_ISR 0 @ [Index DM9000_ISR])) 2 \<noteq> 0"
    using f(1) by (simp add: nic_answer_def nic_state_snoc Let_def polled_def)
  with f show "nic_settled arrive h' \<and>
      on_wire (nic_state_of arrive h') = on_wire (nic_state_of arrive h) @ [take (unat lo + 256 * unat hi) (bytes_of ws)]
      \<and> prefix (waiting (nic_state_of arrive h)) (waiting (nic_state_of arrive h'))
      \<and> (\<exists>n. and (nic_answer arrive (h' @ polled DM9000_ISR n @ [Index DM9000_ISR])) 2 \<noteq> 0)"
    by blast
qed

end
