(* ===== verification/Dm9000_Facts.thy ===== *)
theory Dm9000_Facts
  imports Dm9000_Chip
begin

text \<open>
  The properties of the network driver: the chain of buffers that is sent becomes one frame on the
  wire, the frames that come in are received in order, damaged ones being skipped, and what happens
  to the lock when the controller reports an error.
\<close>

section \<open>Sending\<close>

lemma two_bytes_of_word [simp]: "two_bytes (ucast v) (ucast (drop_bit 8 v)) = v"
proof (rule bit_word_eqI)
  fix n assume "n < LENGTH(16)"
  then show "bit (two_bytes (ucast v) (ucast (drop_bit 8 v))) n = bit v n"
    by (cases "n < 8") (auto simp: two_bytes_def bit_simps)
qed

lemma words_of_bytes_of [simp]: "words_of (bytes_of ws) = ws"
  by (induction ws) simp_all

lemma pack_bytes_packs:
  "length word \<le> 1 \<Longrightarrow> pack_bytes word bs = (ws, r) \<Longrightarrow> bytes_of ws @ r = word @ bs \<and> length r \<le> 1"
proof (induction word bs arbitrary: ws r rule: pack_bytes.induct)
  case (2 word b bs)
  show ?case
  proof (cases word)
    case Nil
    then show ?thesis using 2 by (auto simp: Let_def split: prod.splits)
  next
    case (Cons a word')
    then have w: "word = [a]" using "2.prems"(1) by simp
    obtain us u where p: "pack_bytes [] bs = (us, u)" by fastforce
    then have "ws = two_bytes a b # us" "r = u" using "2.prems"(2) by (simp_all add: w)
    moreover have "bytes_of us @ u = bs \<and> length u \<le> 1"
      using "2.IH"(1) [OF refl _ refl refl _ p] w by simp
    ultimately show ?thesis by (simp add: w)
  qed
qed simp

lemma pack_chain_packs:
  "length word \<le> 1 \<Longrightarrow> pack_chain word qs = (ws, r) \<Longrightarrow> bytes_of ws @ r = word @ concat qs \<and> length r \<le> 1"
proof (induction word qs arbitrary: ws r rule: pack_chain.induct)
  case (2 word q qs)
  obtain us u where p: "pack_bytes word q = (us, u)" by fastforce
  obtain vs v where c: "pack_chain u qs = (vs, v)" by fastforce
  from pack_bytes_packs [OF "2.prems"(1) p] have u: "bytes_of us @ u = word @ q" "length u \<le> 1" by auto
  from "2.IH" [OF p [symmetric] refl u(2) c] have "bytes_of vs @ v = u @ concat qs \<and> length v \<le> 1" .
  moreover have "bytes_of us @ u @ concat qs = word @ q @ concat qs" using u(1) by (metis append.assoc)
  ultimately show ?case using p c "2.prems"(2) by auto
qed simp

text \<open>All the words the driver writes for a chain.\<close>

lemma chain_words:
  assumes "pack_chain [] qs = (ws, r)"
  shows "ws @ (if length r = 1 then [ucast (r ! 0)] else []) = words_of (concat qs)"
proof -
  from pack_chain_packs [OF _ assms] have p: "bytes_of ws @ r = concat qs" "length r \<le> 1" by auto
  have "words_of (concat qs) = ws @ words_of r"
    using words_of_append [of "bytes_of ws" r] by (simp add: p(1))
  with p(2) show ?thesis by (cases r) auto
qed

lemma wait_reg_returns:
  "ok (chip (h @ polled r n @ [Index r])) \<Longrightarrow> \<exists>n. wait_reg chip [] r ok h = Some (h @ polled r n)"
proof (induction n arbitrary: h)
  case 0
  then show ?case
    by (intro exI [of _ "Suc 0"]) (simp add: wait_reg.simps DM9000_ReadReg_def data_read_def polled_def)
next
  case (Suc n)
  show ?case
  proof (cases "ok (chip (h @ [Index r]))")
    case True
    then show ?thesis
      by (intro exI [of _ "Suc 0"]) (simp add: wait_reg.simps DM9000_ReadReg_def data_read_def polled_def)
  next
    case False
    have "ok (chip ((h @ polled r 1) @ polled r n @ [Index r]))" using Suc.prems by (simp add: polled_def)
    from Suc.IH [OF this] obtain m where "wait_reg chip [] r ok (h @ polled r 1) = Some ((h @ polled r 1) @ polled r m)"
      by blast
    then have "wait_reg chip [] r ok h = Some (h @ polled r (Suc m))"
      using False by (subst wait_reg.simps) (simp add: DM9000_ReadReg_def data_read_def polled_def)
    then show ?thesis by blast
  qed
qed

lemma low_byte_value: "unat (and (n :: u16) 0xFF) = unat n mod 256"
proof -
  have "and n 0xFF = take_bit 8 n" by (simp add: take_bit_eq_mask mask_eq_exp_minus_1)
  then have "unat (and n 0xFF) = unat (n mod 256)" by (simp add: take_bit_eq_mod)
  then show ?thesis by (simp only: unat_mod_distrib) simp
qed

lemma high_byte_value: "unat (and (drop_bit 8 (n :: u16)) 0xFF) = unat n div 256"
proof -
  have "unat (drop_bit 8 n) = unat n div 256" by (simp add: drop_bit_eq_div unat_div_distrib)
  moreover have "unat n div 256 < 256" using unat_u16_lt [of n] by (intro less_mult_imp_div_less) linarith
  ultimately show ?thesis by (simp only: low_byte_value mod_less)
qed

context nic
begin

lemma SendPacket_sends:
  assumes "settled (bus_log s)" and "0 < dm9000lock s"
    and "tot_len p = of_nat (length (concat (payloads p)))" and "length (concat (payloads p)) < 65536"
  shows "\<exists>s'. DM9000_SendPacket chip p s = Some s' \<and> settled (bus_log s')
    \<and> wire (bus_log s') = wire (bus_log s) @ [concat (payloads p)] \<and> prefix (inbox (bus_log s)) (inbox (bus_log s'))
    \<and> dm9000lock s' = dm9000lock s \<and> cfg s' = cfg s"
proof -
  define n where "n = length (concat (payloads p))"
  define lo hi where "lo = and (tot_len p) 0xFF" and "hi = and (drop_bit 8 (tot_len p)) 0xFF"
  have "unat lo = n mod 256"
    unfolding lo_def low_byte_value assms(3) unat_of_nat_u16 [OF assms(4)] n_def by simp
  moreover have "unat hi = n div 256"
    unfolding hi_def high_byte_value assms(3) unat_of_nat_u16 [OF assms(4)] n_def by simp
  moreover have "n div 256 < 256" using assms(4) unfolding n_def by (intro less_mult_imp_div_less) linarith
  ultimately have len: "unat lo + 256 * unat hi = n" and b: "unat lo < 256" "unat hi < 256" by simp_all
  obtain ws r where pc: "pack_chain [] (payloads p) = (ws, r)" by fastforce
  define ds where "ds = ws @ (if length r = 1 then [ucast (r ! 0)] else [])"
  have ds: "ds = words_of (concat (payloads p))" unfolding ds_def by (rule chain_words [OF pc])
  define h0 where "h0 = DM9000_WriteReg DM9000_IMR (ucast IMR_PAR) (bus_log s)"
  have k0: "settled h0" "wire h0 = wire (bus_log s)" "prefix (inbox (bus_log s)) (inbox h0)"
    using kept_write [OF assms(1), of DM9000_IMR "ucast IMR_PAR"] by (simp_all add: h0_def)
  define h1 where "h1 = h0 @ transmission ds lo hi"
  have "unat lo + 256 * unat hi \<le> 2 * length ds" by (simp add: len ds n_def)
  from transmitted [OF k0(1) b this h1_def]
  have k1: "settled h1" "wire h1 = wire h0 @ [take n (bytes_of ds)]" "prefix (inbox h0) (inbox h1)"
    and e: "\<exists>m. and (chip (h1 @ polled DM9000_ISR m @ [Index DM9000_ISR])) 2 \<noteq> 0"
    by (simp_all add: len)
  have payload: "take n (bytes_of ds) = concat (payloads p)" by (simp add: ds bytes_of_words_of n_def)
  from e wait_reg_returns [where ok = "\<lambda>v. and v 0x02 \<noteq> 0"]
  obtain m where w: "wait_reg chip [] DM9000_ISR (\<lambda>v. and v 0x02 \<noteq> 0) h1 = Some (h1 @ polled DM9000_ISR m)" by blast
  define h2 where "h2 = h1 @ polled DM9000_ISR m"
  have k2: "settled h2" "wire h2 = wire h1" "prefix (inbox h1) (inbox h2)"
    using kept_polls [OF k1(1), of DM9000_ISR m] by (simp_all add: h2_def)
  define h3 where "h3 = DM9000_WriteReg DM9000_IMR (ucast (imr_all (cfg s))) (DM9000_WriteReg DM9000_ISR 0x02 h2)"
  note a = kept_write [OF k2(1), of DM9000_ISR 2]
  note c = kept_write [OF a(1), of DM9000_IMR "ucast (imr_all (cfg s))"]
  have "length r \<le> 1" using pack_chain_packs [OF _ pc] by simp
  then have "r = [] \<or> (\<exists>x. r = [x])" by (cases r) auto
  then have send: "DM9000_SendPacket chip p s = Some (s \<lparr> bus_log := h3 \<rparr>)"
    using assms(2) w
    by (elim disjE exE) (simp_all add: DM9000_SendPacket_def take_lock_def give_lock_def pc h1_def h0_def transmission_def
        DM9000_WriteReg_def lo_def hi_def ds_def h3_def h2_def Let_def)
  show ?thesis
    using send a c k0 k1 k2 payload by (auto simp: h3_def elim!: prefix_order.trans)
qed

end

section \<open>Receiving\<close>

text \<open>What the next reads of the data register give.\<close>

definition next_words :: "nic_chip \<Rightarrow> net_event list \<Rightarrow> nat \<Rightarrow> u16 list" where
  "next_words chip h n = map (\<lambda>k. chip (h @ replicate k Data_In)) [0..<n]"

lemma length_next_words [simp]: "length (next_words chip h n) = n"
  by (simp add: next_words_def)

lemma next_words_add:
  "next_words chip h (m + n) = next_words chip h m @ next_words chip (h @ replicate m Data_In) n"
  by (induction n) (simp_all add: next_words_def replicate_add)

declare fill_payload.simps [simp del]

lemma fill_payload_reads:
  "fill_payload chip len h =
     (bytes_of (next_words chip h ((len + 1) div 2)), h @ replicate ((len + 1) div 2) Data_In)"
proof (induction chip len h rule: fill_payload.induct)
  case (1 chip len h)
  show ?case
  proof (cases "0 < len")
    case True
    then have "len = 1 \<or> (\<exists>k. len = k + 2)" by presburger
    then have n: "(len + 1) div 2 = 1 + (len - 2 + 1) div 2" by auto
    have "fill_payload chip (len - 2) (h @ [Data_In])
        = (bytes_of (next_words chip (h @ [Data_In]) ((len - 2 + 1) div 2)), (h @ [Data_In]) @ replicate ((len - 2 + 1) div 2) Data_In)"
      using 1 [OF True refl, of "chip h" "h @ [Data_In]"] by (simp add: data_read_def)
    with True show ?thesis
      unfolding n next_words_add
      by (subst fill_payload.simps) (simp add: data_read_def Let_def next_words_def split: prod.splits)
  qed (simp add: fill_payload.simps next_words_def)
qed

definition contents :: "chain \<Rightarrow> u8 list" where
  "contents p = concat (map (\<lambda>(n, bs). take n bs) p)"

lemma fill_chain_reads:
  assumes "\<forall>n\<in>set (butlast lens). even n"
  shows "contents (fst (fill_chain chip lens h)) = take (sum_list lens) (bytes_of (next_words chip h ((sum_list lens + 1) div 2)))
    \<and> snd (fill_chain chip lens h) = h @ replicate ((sum_list lens + 1) div 2) Data_In"
  using assms
proof (induction lens arbitrary: h)
  case Nil
  show ?case by (simp add: contents_def)
next
  case (Cons len lens)
  define a where "a = (len + 1) div 2"
  define b where "b = (sum_list lens + 1) div 2"
  have a: "Suc len div 2 = a" by (simp add: a_def)
  have ab: "Suc (len + sum_list lens) div 2 = a + b" and even: "lens \<noteq> [] \<longrightarrow> even len"
    using Cons.prems by (auto simp: a_def b_def split: if_splits; presburger)+
  have IH: "contents (fst (fill_chain chip lens (h @ replicate a Data_In)))
        = take (sum_list lens) (bytes_of (next_words chip (h @ replicate a Data_In) b))"
      "snd (fill_chain chip lens (h @ replicate a Data_In)) = (h @ replicate a Data_In) @ replicate b Data_In"
    using Cons unfolding b_def by (auto split: if_splits)
  have "contents (fst (fill_chain chip (len # lens) h))
      = take len (bytes_of (next_words chip h a)) @ take (sum_list lens) (bytes_of (next_words chip (h @ replicate a Data_In) b))"
    using IH(1) by (simp add: fill_payload_reads a contents_def split_beta del: append_assoc)
  also have "\<dots> = take (sum_list (len # lens)) (bytes_of (next_words chip h (a + b)))"
    using even by (cases lens) (auto simp: next_words_add a_def b_def elim!: evenE)
  finally show ?case
    using IH(2) by (simp add: ab a fill_payload_reads replicate_add split_beta)
qed

lemma read_away_even: "read_away (2 * int m) h = Some (h @ replicate m Data_In)"
  by (induction m arbitrary: h) (simp_all add: read_away.simps replicate_append_same [symmetric] algebra_simps)

lemma read_away_returns_even:
  assumes "read_away len h = Some h'"
  shows "even len"
proof (rule read_away.raw_induct [OF _ assms, where P = "\<lambda>len h h'. even len"])
  fix f :: "int \<Rightarrow> net_event list \<Rightarrow> net_event list option" and len h h'
  assume "\<And>len h h'. f len h = Some h' \<Longrightarrow> even len"
    and "(if len \<noteq> 0 then f (len - 2) (h @ [Data_In]) else Some h) = Some h'"
  then show "even len" by (cases "len = 0") force+
qed

text \<open>
  What is documented of \<open>pbuf_alloc\<close>: the lengths of a chain add up to the length asked for, and all
  buffers but the last have the size of the pool's buffers, a multiple of four.
\<close>

definition chains_buffers :: "pbuf_pool \<Rightarrow> bool" where
  "chains_buffers pool \<longleftrightarrow> (\<forall>h n lens. pool h n = Some lens \<longrightarrow>
     sum_list lens = unat n \<and> (\<forall>l\<in>set (butlast lens). even l))"

text \<open>A frame the driver can take out of the receive memory.\<close>

definition takeable :: "pbuf_pool \<Rightarrow> u8 list \<Rightarrow> bool" where
  "takeable pool bs \<longleftrightarrow> length bs < 65536 \<and> (even (length bs) \<or> (\<forall>h. pool h (of_nat (length bs)) \<noteq> None))"

text \<open>What becomes of a frame: its contents in buffers, or nothing when there were no buffers.\<close>

definition received :: "u8 list \<Rightarrow> chain option \<Rightarrow> bool" where
  "received bs p \<longleftrightarrow> (case p of Some c \<Rightarrow> contents c = bs | None \<Rightarrow> True)"

lemma high_of_two_bytes: "and (two_bytes lo hi) 0xBF00 = push_bit 8 (ucast (and hi 0xBF))"
proof (rule bit_word_eqI)
  fix n :: nat assume "n < LENGTH(16)"
  then have "n \<in> {0..<16}" by simp
  moreover have "bit (0xBF00 :: u16) n = (8 \<le> n \<and> bit (0xBF :: u8) (n - 8))" if "n \<in> set [0..<16]"
    using that by (simp add: upt_rec) (elim disjE; simp)
  ultimately show "bit (and (two_bytes lo hi) 0xBF00) n = bit (push_bit 8 (ucast (and hi 0xBF)) :: u16) n"
    using bit_imp_le_length [of lo n] bit_imp_le_length [of hi "n - 8"] by (auto simp: two_bytes_def bit_simps)
qed

definition damaged :: "u8 \<times> u8 list \<Rightarrow> bool" where
  "damaged f \<longleftrightarrow> and (fst f) 0xBF \<noteq> 0 \<or> length (snd f) < 64 \<or> 1536 < length (snd f)"

lemma rx_bad_damaged:
  assumes "length bs < 65536"
  shows "rx_bad (two_bytes 1 st) (of_nat (length bs)) \<longleftrightarrow> damaged (st, bs)"
proof -
  have "(push_bit 8 (ucast (and st 0xBF)) :: u16) = 0 \<longleftrightarrow> and st 0xBF = 0"
  proof
    assume z: "(push_bit 8 (ucast (and st 0xBF)) :: u16) = 0"
    have "bit (and st 0xBF) n = bit (push_bit 8 (ucast (and st 0xBF)) :: u16) (n + 8)" if "n < 8" for n
      using that by (simp add: bit_simps)
    with z show "and st 0xBF = 0" by (intro bit_word_eqI) simp
  qed simp
  with unat_of_nat_u16 [OF assms] show ?thesis
    by (simp add: rx_bad_def damaged_def high_of_two_bytes word_less_nat_alt)
qed

lemma low_of_ready: "(ucast v :: u8) = (if c then 0 else 1) \<Longrightarrow> (ucast v = (0 :: u8)) = c"
  by simp

lemma rx_ready_reads:
  "rx_ready chip h = (ucast (chip (h @ [Index DM9000_MRCMDX, Data_In])), h @ Index DM9000_MRCMDX # replicate 2 Data_In)"
  by (simp add: rx_ready_def DM9000_ReadReg_def data_read_def numeral_2_eq_2)

context nic
begin

text \<open>A frame that waits is announced.\<close>

lemma rx_ready_says:
  assumes "settled h" and "inbox h \<noteq> []"
  shows "fst (rx_ready chip h) = 1 \<and> settled (snd (rx_ready chip h))
    \<and> prefix (inbox h) (inbox (snd (rx_ready chip h))) \<and> wire (snd (rx_ready chip h)) = wire h"
proof -
  define g where "g = h @ Index DM9000_MRCMDX # replicate 1 Data_In"
  have g: "prefix (inbox h) (inbox g)" using kept_read [OF assms(1), of DM9000_MRCMDX 1] by (simp add: g_def)
  with assms(2) have "inbox g \<noteq> []" by auto
  with ready [OF assms(1)] have "ucast (chip g) = (1 :: u8)" by (simp add: g_def)
  then show ?thesis
    using kept_read [OF assms(1), of DM9000_MRCMDX 2] by (simp add: rx_ready_reads g_def)
qed

text \<open>The first waiting frame is taken, header and contents, and the next one moves up.\<close>

lemma rx_frame_takes:
  assumes "settled h" and "inbox h = (st, bs) # q" and "chains_buffers pool" and "takeable pool bs"
  shows "\<exists>p. rx_frame chip pool h = Some (two_bytes 1 st, of_nat (length bs), p,
        h @ Index DM9000_MRCMD # replicate (length (frame_words st bs)) Data_In)
    \<and> received bs p \<and> ((\<forall>g. pool g (of_nat (length bs)) \<noteq> None) \<longrightarrow> p \<noteq> None)"
proof -
  have len: "length bs < 65536" using assms(4) by (simp add: takeable_def)
  define n where "n = (length bs + 1) div 2"
  define g where "g = h @ Index DM9000_MRCMD # replicate 2 Data_In"
  define h' where "h' = h @ Index DM9000_MRCMD # replicate (length (frame_words st bs)) Data_In"
  have h': "h' = g @ replicate n Data_In" by (simp add: h'_def g_def n_def replicate_add numeral_2_eq_2)
  note word = head_word [OF assms(1,2) len]
  have hdr: "chip (h @ [Index DM9000_MRCMD]) = two_bytes 1 st"
      "chip (h @ [Index DM9000_MRCMD, Data_In]) = of_nat (length bs)"
    using word [of 0] word [of 1] by (simp_all add: frame_words_def)
  have "next_words chip g n = words_of bs"
  proof (rule nth_equalityI)
    fix k assume "k < length (next_words chip g n)"
    then have "Suc (Suc k) < length (frame_words st bs)" by (simp add: n_def)
    from word [OF this] show "next_words chip g n ! k = words_of bs ! k"
      using \<open>k < _\<close> by (simp add: next_words_def g_def frame_words_def numeral_2_eq_2)
  qed (simp add: n_def)
  then have take: "take (length bs) (bytes_of (next_words chip g n)) = bs" by (simp add: bytes_of_words_of)
  have frame: "rx_frame chip pool h = Option.bind (take_frame chip (pool g (of_nat (length bs))) (of_nat (length bs)) g)
      (\<lambda>(p, h). Some (two_bytes 1 st, of_nat (length bs), p, h))"
    using hdr by (simp add: rx_frame_def data_read_def g_def numeral_2_eq_2)
  show ?thesis
  proof (cases "pool g (of_nat (length bs))")
    case None
    then have "even (length bs)" using assms(4) unfolding takeable_def by metis
    then have "uint (of_nat (length bs) :: u16) = 2 * int n"
      using unat_of_nat_u16 [OF len] by (auto simp: n_def uint_nat elim!: evenE)
    then have "take_frame chip None (of_nat (length bs)) g = Some (None, h')"
      by (simp add: take_frame_def read_away_even h')
    with None frame show ?thesis by (auto simp: received_def h'_def)
  next
    case (Some lens)
    with assms(3) unat_of_nat_u16 [OF len] have l: "sum_list lens = length bs" "\<forall>l\<in>set (butlast lens). even l"
      by (auto simp: chains_buffers_def)
    obtain c where "fill_chain chip lens g = (c, h')" "contents c = bs"
      using fill_chain_reads [OF l(2), of chip g] take by (cases "fill_chain chip lens g") (auto simp: l(1) n_def h')
    with Some frame show ?thesis by (auto simp: received_def take_frame_def h'_def)
  qed
qed

text \<open>One turn of the retry loop, with the frame at the head of the queue.\<close>

definition frame_over :: "net_event list \<Rightarrow> u8 \<Rightarrow> u8 list \<Rightarrow> net_event list" where
  "frame_over h st bs =
     h @ Index DM9000_MRCMDX # replicate 2 Data_In @ Index DM9000_MRCMD # replicate (length (frame_words st bs)) Data_In"

lemma error_retry_turn:
  assumes "settled (bus_log s)" and "prefix ((st, bs) # q) (inbox (bus_log s))"
    and "chains_buffers pool" and "takeable pool bs" and "h' = frame_over (bus_log s) st bs"
  shows "settled h' \<and> wire h' = wire (bus_log s) \<and> prefix q (inbox h')"
    and "damaged (st, bs) \<Longrightarrow> length bs \<le> 1536 \<Longrightarrow>
      error_retry chip pool s = error_retry chip pool (s \<lparr> bus_log := h' \<rparr>)"
    and "\<not> damaged (st, bs) \<Longrightarrow> \<exists>p. error_retry chip pool s = Some (p, give_lock (s \<lparr> bus_log := h' \<rparr>))
      \<and> received bs p \<and> ((\<forall>g. pool g (of_nat (length bs)) \<noteq> None) \<longrightarrow> p \<noteq> None)"
proof -
  define h where "h = bus_log s @ Index DM9000_MRCMDX # replicate 2 Data_In"
  have "inbox (bus_log s) \<noteq> []" using assms(2) by auto
  note r = rx_ready_says [OF assms(1) this]
  have ready: "rx_ready chip (bus_log s) = (1, h)"
    using r rx_ready_reads [of chip "bus_log s"] by (simp add: h_def prod_eq_iff)
  with r assms(2) have k: "settled h" "wire h = wire (bus_log s)" "prefix ((st, bs) # q) (inbox h)"
    by (auto elim: prefix_order.trans)
  then obtain q' where q': "inbox h = (st, bs) # q @ q'" by (auto simp: prefix_def)
  have len: "length bs < 65536" using assms(4) by (simp add: takeable_def)
  have h': "h' = h @ Index DM9000_MRCMD # replicate (length (frame_words st bs)) Data_In"
    by (simp add: assms(5) frame_over_def h_def)
  from head_taken [OF k(1) q' len h'] k(2) show "settled h' \<and> wire h' = wire (bus_log s) \<and> prefix q (inbox h')"
    by (auto dest: append_prefixD)
  from rx_frame_takes [OF k(1) q' assms(3,4)] obtain p where
    f: "rx_frame chip pool h = Some (two_bytes 1 st, of_nat (length bs), p, h')"
      "received bs p" "(\<forall>g. pool g (of_nat (length bs)) \<noteq> None) \<longrightarrow> p \<noteq> None"
    unfolding h' by blast
  {
    assume d: "damaged (st, bs)" "length bs \<le> 1536"
    then have "rx_bad (two_bytes 1 st) (of_nat (length bs))" "\<not> (of_nat (length bs) :: u16) > DM9000_PKT_MAX"
      using rx_bad_damaged [OF len] unat_of_nat_u16 [OF len] by (auto simp: word_less_nat_alt)
    then show "error_retry chip pool s = error_retry chip pool (s \<lparr> bus_log := h' \<rparr>)"
      by (subst error_retry.simps) (simp add: ready f(1))
  next
    assume "\<not> damaged (st, bs)"
    then have "\<not> rx_bad (two_bytes 1 st) (of_nat (length bs))" using rx_bad_damaged [OF len] by simp
    then have "error_retry chip pool s = Some (p, give_lock (s \<lparr> bus_log := h' \<rparr>))"
      by (subst error_retry.simps) (simp add: ready f(1))
    with f show "\<exists>p. error_retry chip pool s = Some (p, give_lock (s \<lparr> bus_log := h' \<rparr>))
      \<and> received bs p \<and> ((\<forall>g. pool g (of_nat (length bs)) \<noteq> None) \<longrightarrow> p \<noteq> None)" by blast
  }
qed

text \<open>Damaged frames that are not too long are passed over; the first good one is returned.\<close>

lemma error_retry_receives:
  assumes "settled (bus_log s)" and "prefix (bads @ (st, bs) # q) (inbox (bus_log s))"
    and "chains_buffers pool" and "\<forall>f\<in>set (bads @ [(st, bs)]). takeable pool (snd f)"
    and "\<forall>f\<in>set bads. damaged f \<and> length (snd f) \<le> 1536" and "\<not> damaged (st, bs)"
  shows "\<exists>p s'. error_retry chip pool s = Some (p, s') \<and> received bs p
    \<and> ((\<forall>g. pool g (of_nat (length bs)) \<noteq> None) \<longrightarrow> p \<noteq> None)
    \<and> settled (bus_log s') \<and> wire (bus_log s') = wire (bus_log s) \<and> prefix q (inbox (bus_log s'))
    \<and> dm9000lock s' = Suc (dm9000lock s) \<and> cfg s' = cfg s"
  using assms(1,2,4,5)
proof (induction bads arbitrary: s)
  case Nil
  from error_retry_turn [OF Nil.prems(1) _ assms(3) _ refl, of st bs q] Nil.prems assms(6)
  show ?case by (fastforce simp: give_lock_def)
next
  case (Cons b bads)
  obtain sb bb where b: "b = (sb, bb)" by fastforce
  define h' where "h' = frame_over (bus_log s) sb bb"
  note t = error_retry_turn [OF Cons.prems(1) _ assms(3) _ h'_def, of "bads @ (st, bs) # q"]
  have "settled h' \<and> wire h' = wire (bus_log s) \<and> prefix (bads @ (st, bs) # q) (inbox h')"
    using t(1) Cons.prems(2,3) by (simp add: b)
  moreover have "error_retry chip pool s = error_retry chip pool (s \<lparr> bus_log := h' \<rparr>)"
    using t(2) Cons.prems(2,3,4) by (simp add: b)
  ultimately show ?case using Cons.IH [of "s \<lparr> bus_log := h' \<rparr>"] Cons.prems(3,4) by simp
qed

end

end
