(* ===== verification/Lwip_Comm.thy ===== *)
theory Lwip_Comm
  imports Dm9000_Facts
begin

text \<open>
  The firmware's side of the network stack (\<open>lwip_comm.c\<close> and \<open>ethernetif.c\<close> under
  \<open>rt-thread/components/net/lwip-1.4.1/\<close>): the thread that hands received frames to the stack, the
  addresses of the board, the start of the network, and the thread that waits for an address. The
  stack itself (lwIP) is not modelled: \<open>netif->input\<close> gets the frames in the order they are listed,
  and what the address protocol has found at each look is an argument.
\<close>

section \<open>Frames for the stack\<close>

text \<open>
  The inner loop of \<open>ethernetif_input\<close>: frames are received and handed on until none is there.
  Whether the stack takes a frame only decides who gives its buffers back.
\<close>

partial_function (option) ethernetif_input ::
    "nic_chip \<Rightarrow> pbuf_pool \<Rightarrow> net_state \<Rightarrow> (chain list \<times> net_state) option" where
  "ethernetif_input chip pool s =
     Option.bind (DM9000_Receive_Packet chip pool s) (\<lambda>(p, s).
       case p of
         None \<Rightarrow> Some ([], s)
       | Some c \<Rightarrow> Option.bind (ethernetif_input chip pool s) (\<lambda>(cs, s). Some (c # cs, s)))"

definition low_level_output :: "nic_chip \<Rightarrow> pbuf \<Rightarrow> net_state \<Rightarrow> net_state option" where
  "low_level_output chip p s = DM9000_SendPacket chip p s"

section \<open>Addresses\<close>

record lwip_dev =
  mac :: "u8 list"
  remoteip :: "u8 list"
  ip :: "u8 list"
  netmask :: "u8 list"
  gateway :: "u8 list"
  dhcpstatus :: u8

definition lwip_comm_default_ip_set :: "dm9000_config \<Rightarrow> lwip_dev" where
  "lwip_comm_default_ip_set c =
     \<lparr> mac = map (\<lambda>i. mac_addr c ! i) [0..<6], remoteip = [192, 168, 1, 100], ip = [192, 168, 0, 30],
       netmask = [255, 255, 255, 0], gateway = [192, 168, 1, 1], dhcpstatus = 0 \<rparr>"

text \<open>\<open>IP4_ADDR\<close> of the stack on the little-endian processor, and the octets the thread takes apart.\<close>

definition IP4_ADDR :: "u8 list \<Rightarrow> u32" where
  "IP4_ADDR a = or (or (or (push_bit 24 (ucast (a ! 3))) (push_bit 16 (ucast (a ! 2)))) (push_bit 8 (ucast (a ! 1))))
     (ucast (a ! 0))"

definition octets :: "u32 \<Rightarrow> u8 list" where
  "octets a = [ucast a, ucast (drop_bit 8 a), ucast (drop_bit 16 a), ucast (drop_bit 24 a)]"

text \<open>The interface of the stack: its addresses, and the properties \<open>low_level_init\<close> gives it.\<close>

record netif =
  ip_addr :: u32
  mask_addr :: u32
  gw_addr :: u32
  hwaddr :: "u8 list"
  mtu :: u16
  netif_flags :: u8

definition low_level_init :: "lwip_dev \<Rightarrow> netif \<Rightarrow> netif" where
  "low_level_init d n = n \<lparr> hwaddr := map (\<lambda>i. mac d ! i) [0..<6], mtu := 1500, netif_flags := or (or 0x02 0x20) 0x10 \<rparr>"

text \<open>The name and the two output functions of the interface are constants of the program.\<close>

definition ethernetif_init :: "lwip_dev \<Rightarrow> netif \<Rightarrow> netif" where
  "ethernetif_init d n = low_level_init d n"

section \<open>Waiting for an address\<close>

definition LWIP_MAX_DHCP_TRIES :: u8 where "LWIP_MAX_DHCP_TRIES = 4"

text \<open>
  One look of the thread: the addresses of the interface and the number of tries; the thread goes on
  (\<open>None\<close>) or ends with the control record and the interface.
\<close>

definition dhcp_look :: "u8 \<Rightarrow> lwip_dev \<Rightarrow> netif \<Rightarrow> (lwip_dev \<times> netif) option" where
  "dhcp_look tries d n =
     (if ip_addr n \<noteq> 0
      then Some (d \<lparr> dhcpstatus := 2, ip := octets (ip_addr n), netmask := octets (mask_addr n),
                     gateway := octets (gw_addr n) \<rparr>, n)
      else if tries > LWIP_MAX_DHCP_TRIES
      then Some (d \<lparr> dhcpstatus := 0xFF \<rparr>,
                 n \<lparr> ip_addr := IP4_ADDR (ip d), mask_addr := IP4_ADDR (netmask d), gw_addr := IP4_ADDR (gateway d) \<rparr>)
      else None)"

text \<open>What the stack has done to the interface before the \<open>k\<close>th look: its tries and addresses.\<close>

type_synonym dhcp_client = "nat \<Rightarrow> u8 \<times> u32 \<times> u32 \<times> u32"

definition at_look :: "dhcp_client \<Rightarrow> nat \<Rightarrow> netif \<Rightarrow> u8 \<times> netif" where
  "at_look client k n =
     (case client k of (tries, a, m, g) \<Rightarrow> (tries, n \<lparr> ip_addr := a, mask_addr := m, gw_addr := g \<rparr>))"

partial_function (option) dhcp_turns ::
    "dhcp_client \<Rightarrow> nat \<Rightarrow> lwip_dev \<Rightarrow> netif \<Rightarrow> (nat \<times> lwip_dev \<times> netif) option" where
  "dhcp_turns client k d n =
     (let (tries, n) = at_look client k n
      in case dhcp_look tries d n of
           Some (d, n) \<Rightarrow> Some (k, d, n)
         | None \<Rightarrow> dhcp_turns client (Suc k) d n)"

definition lwip_dhcp_task :: "dhcp_client \<Rightarrow> lwip_dev \<Rightarrow> netif \<Rightarrow> (nat \<times> lwip_dev \<times> netif) option" where
  "lwip_dhcp_task client d n = dhcp_turns client 0 (d \<lparr> dhcpstatus := 0 \<rparr>) n"

section \<open>The start of the network\<close>

text \<open>The settings before \<open>DM9000_Init\<close>: a global record, all zero.\<close>

definition dm9000cfg_zero :: dm9000_config where
  "dm9000cfg_zero = \<lparr> phy_mode = DM9000_10MHD, imr_all = 0, queue_packet_len = 0,
     mac_addr = replicate 6 0, multicase_addr = replicate 8 0 \<rparr>"

text \<open>
  What \<open>lwip_comm_init\<close> has done when it returns: its result, the driver's state, and, when the
  controller answered, the control record and the interface it adds with no address yet and sets
  up (\<open>added\<close> says whether \<open>netif_add\<close> succeeded). The two semaphores are new, the lock with value
  one; starting the threads is the kernel's.
\<close>

definition lwip_comm_init ::
    "nic_chip \<Rightarrow> u32 \<Rightarrow> bool \<Rightarrow> net_event list \<Rightarrow> (u8 \<times> net_state \<times> (lwip_dev \<times> netif option) option) option" where
  "lwip_comm_init chip uid added h =
     (let s = \<lparr> bus_log = h, cfg = dm9000cfg_zero, dm9000lock = 1 \<rparr>
      in Option.bind (DM9000_Init chip uid s) (\<lambda>(r, s).
           if r \<noteq> 0 then Some (2, s, None)
           else let d = lwip_comm_default_ip_set (cfg s);
                    n = ethernetif_init d \<lparr> ip_addr = 0, mask_addr = 0, gw_addr = 0, hwaddr = [], mtu = 0, netif_flags = 0 \<rparr>;
                    n = n \<lparr> netif_flags := or (netif_flags n) 0x01 \<rparr>
                in Some (0, s, Some (d, if added then Some n else None))))"

end
