(* ===== verification/Net_Facts.thy ===== *)
theory Net_Facts
  imports Lwip_Comm
begin

text \<open>
  The properties of the network: all waiting frames reach the stack in order, what one board sends
  another receives, what a receive error does, and how the wait for an address ends.
\<close>

section \<open>A controller at which nothing arrives\<close>

locale quiet_nic = nic +
  assumes still: "settled h \<Longrightarrow> keeps_frames (selected h) e \<Longrightarrow> inbox (h @ [e]) = inbox h"
    and head_gone: "settled h \<Longrightarrow> inbox h = (st, bs) # q \<Longrightarrow> length bs < 65536 \<Longrightarrow>
      inbox (h @ Index DM9000_MRCMD # replicate (length (frame_words st bs)) Data_In) = q"
begin

lemma still_read:
  assumes "settled h" and "r \<noteq> DM9000_MRCMD"
  shows "inbox (h @ Index r # replicate n Data_In) = inbox h"
proof (induction n)
  case 0
  show ?case using still [OF assms(1), of "Index r"] by simp
next
  case (Suc n)
  have g: "h @ Index r # replicate (Suc n) Data_In = (h @ Index r # replicate n Data_In) @ [Data_In]"
    by (simp add: replicate_append_same)
  from still [of "h @ Index r # replicate n Data_In" Data_In] kept_read [OF assms, of n] Suc assms(2)
  show ?case unfolding g by auto
qed

lemma still_write:
  assumes "settled h" and "r \<in> {DM9000_RCR, DM9000_ISR, DM9000_IMR}"
  shows "inbox (DM9000_WriteReg r v h) = inbox h"
proof -
  have w: "DM9000_WriteReg r v h = (h @ [Index r]) @ [Data_Out v]" by (simp add: DM9000_WriteReg_def)
  from still [OF kept_Index(1) [OF assms(1)], of r "Data_Out v"] still [OF assms(1), of "Index r"] assms(2)
  show ?thesis unfolding w by auto
qed

lemma inbox_frame_over:
  assumes "settled h" and "inbox h = (st, bs) # q" and "length bs < 65536"
  shows "inbox (frame_over h st bs) = q"
proof -
  define g where "g = h @ Index DM9000_MRCMDX # replicate 2 Data_In"
  have "settled g" "inbox g = (st, bs) # q"
    using kept_read [OF assms(1), of DM9000_MRCMDX 2] still_read [OF assms(1), of DM9000_MRCMDX 2] assms(2)
    by (simp_all add: g_def)
  from head_gone [OF this assms(3)] show ?thesis by (simp add: frame_over_def g_def)
qed

text \<open>The retry loop, on all that waits: it returns the first good frame, or nothing.\<close>

lemma error_retry_next:
  assumes "settled (bus_log s)" and "inbox (bus_log s) = fs" and "chains_buffers pool"
    and "\<forall>f\<in>set fs. length (snd f) \<le> 1536 \<and> (\<forall>g. pool g (of_nat (length (snd f))) \<noteq> None)"
  shows "\<exists>p s'. error_retry chip pool s = Some (p, s') \<and> settled (bus_log s') \<and> wire (bus_log s') = wire (bus_log s)
    \<and> dm9000lock s' = Suc (dm9000lock s)
    \<and> (case dropWhile damaged fs of
         [] \<Rightarrow> p = None \<and> inbox (bus_log s') = []
       | f # rest \<Rightarrow> (\<exists>c. p = Some c \<and> contents c = snd f) \<and> inbox (bus_log s') = rest)"
  using assms(1,2,4)
proof (induction fs arbitrary: s)
  case Nil
  define h where "h = bus_log s @ Index DM9000_MRCMDX # replicate 2 Data_In"
  have k: "settled h" "wire h = wire (bus_log s)" "inbox h = []"
    using kept_read [OF Nil.prems(1), of DM9000_MRCMDX 2] still_read [OF Nil.prems(1), of DM9000_MRCMDX 2] Nil.prems(2)
    by (simp_all add: h_def)
  have "inbox (bus_log s @ Index DM9000_MRCMDX # replicate 1 Data_In) = []"
    using still_read [OF Nil.prems(1), of DM9000_MRCMDX 1] Nil.prems(2) by simp
  then have r: "rx_ready chip (bus_log s) = (0, h)"
    using ready [OF Nil.prems(1)] by (simp add: rx_ready_reads h_def)
  note a = kept_write [OF k(1), of DM9000_ISR ISR_PTS] still_write [OF k(1), of DM9000_ISR ISR_PTS]
  define h' where "h' = DM9000_WriteReg DM9000_IMR 0x81 (DM9000_WriteReg DM9000_ISR ISR_PTS h)"
  have b: "settled h'" "wire h' = wire (bus_log s)" "inbox h' = []"
    using a k kept_write [of "DM9000_WriteReg DM9000_ISR ISR_PTS h" DM9000_IMR "0x81"]
      still_write [of "DM9000_WriteReg DM9000_ISR ISR_PTS h" DM9000_IMR "0x81"] by (auto simp: h'_def)
  have "error_retry chip pool s = Some (None, give_lock (s \<lparr> cfg := (cfg s) \<lparr> imr_all := 0x81 \<rparr>, bus_log := h' \<rparr>))"
    by (subst error_retry.simps) (simp add: r h'_def Let_def)
  with b show ?case by (simp add: give_lock_def)
next
  case (Cons f fs)
  obtain st bs where f: "f = (st, bs)" by fastforce
  have t: "takeable pool bs" "length bs < 65536" "length bs \<le> 1536"
    using Cons.prems(3) by (auto simp: takeable_def f)
  define h' where "h' = frame_over (bus_log s) st bs"
  have i: "inbox (bus_log s) = (st, bs) # fs" using Cons.prems(2) by (simp add: f)
  note turn = error_retry_turn [OF Cons.prems(1) _ assms(3) t(1) h'_def, of fs]
  have k: "settled h'" "wire h' = wire (bus_log s)" "inbox h' = fs"
    using turn(1) i inbox_frame_over [OF Cons.prems(1) i t(2)] by (simp_all add: h'_def)
  show ?case
  proof (cases "damaged f")
    case True
    then have "error_retry chip pool s = error_retry chip pool (s \<lparr> bus_log := h' \<rparr>)"
      using turn(2) t(3) i by (simp add: f)
    with Cons.IH [of "s \<lparr> bus_log := h' \<rparr>"] k Cons.prems(3) True show ?thesis by simp
  next
    case False
    then obtain p where "error_retry chip pool s = Some (p, give_lock (s \<lparr> bus_log := h' \<rparr>))"
      "received bs p" "p \<noteq> None"
      using turn(3) i Cons.prems(3) by (auto simp: f)
    with False k show ?thesis by (auto simp: f received_def give_lock_def)
  qed
qed

text \<open>All waiting frames reach the stack.\<close>

lemma ethernetif_input_drains:
  assumes "settled (bus_log s)" and "inbox (bus_log s) = fs" and "0 < dm9000lock s" and "chains_buffers pool"
    and "\<forall>f\<in>set fs. length (snd f) \<le> 1536 \<and> (\<forall>g. pool g (of_nat (length (snd f))) \<noteq> None)"
  shows "\<exists>cs s'. ethernetif_input chip pool s = Some (cs, s')
    \<and> map contents cs = map snd (filter (\<lambda>f. \<not> damaged f) fs)
    \<and> inbox (bus_log s') = [] \<and> dm9000lock s' = dm9000lock s \<and> wire (bus_log s') = wire (bus_log s)"
  using assms(1,2,3,5)
proof (induction "length fs" arbitrary: s fs rule: less_induct)
  case less
  define s0 where "s0 = s \<lparr> dm9000lock := dm9000lock s - 1 \<rparr>"
  have call: "DM9000_Receive_Packet chip pool s = error_retry chip pool s0"
    using less.prems(3) by (simp add: DM9000_Receive_Packet_def take_lock_def s0_def)
  from error_retry_next [of s0 fs pool] less.prems assms(4) obtain p s' where
    r: "DM9000_Receive_Packet chip pool s = Some (p, s')" "settled (bus_log s')" "wire (bus_log s') = wire (bus_log s)"
      "dm9000lock s' = dm9000lock s"
    and c: "case dropWhile damaged fs of
         [] \<Rightarrow> p = None \<and> inbox (bus_log s') = []
       | f # rest \<Rightarrow> (\<exists>c. p = Some c \<and> contents c = snd f) \<and> inbox (bus_log s') = rest"
    unfolding call by (auto simp: s0_def)
  have drop: "filter (\<lambda>f. \<not> damaged f) fs = filter (\<lambda>f. \<not> damaged f) (dropWhile damaged fs)"
    by (induction fs) auto
  show ?case
  proof (cases "dropWhile damaged fs")
    case Nil
    with c r drop show ?thesis by (subst ethernetif_input.simps) simp
  next
    case (Cons f rest)
    then obtain ch where ch: "p = Some ch" "contents ch = snd f" "inbox (bus_log s') = rest" using c by auto
    have "\<not> damaged f" using Cons by (metis dropWhile_eq_Cons_conv)
    have shorter: "length rest < length fs" and "set rest \<subseteq> set fs"
      using Cons length_dropWhile_le [of damaged fs] set_dropWhileD [of _ damaged fs] by auto
    from less.hyps [OF shorter r(2) ch(3)] less.prems(3,4) r(4) \<open>set rest \<subseteq> set fs\<close> obtain cs s'' where
      "ethernetif_input chip pool s' = Some (cs, s'')" "map contents cs = map snd (filter (\<lambda>f. \<not> damaged f) rest)"
      "inbox (bus_log s'') = []" "dm9000lock s'' = dm9000lock s'" "wire (bus_log s'') = wire (bus_log s')" by fastforce
    with r ch drop Cons \<open>\<not> damaged f\<close> show ?thesis by (subst ethernetif_input.simps) simp
  qed
qed

end

text \<open>The working controller, with the frames \<open>fs\<close> in its memory from the start.\<close>

definition at_start :: "(u8 \<times> u8 list) list \<Rightarrow> nat \<Rightarrow> (u8 \<times> u8 list) list" where
  "at_start fs n = (if n = 0 then fs else [])"

interpretation quiet: quiet_nic "nic_answer (at_start fs)" "\<lambda>h. waiting (nic_state_of (at_start fs) h)"
    "\<lambda>h. on_wire (nic_state_of (at_start fs) h)" "nic_settled (at_start fs)" for fs
proof
  fix h e
  assume "nic_settled (at_start fs) h" "keeps_frames (selected h) e"
  then show "waiting (nic_state_of (at_start fs) (h @ [e])) = waiting (nic_state_of (at_start fs) h)"
    by (cases e) (auto simp: at_start_def nic_state_snoc Let_def nic_index_selected)
next
  fix h st bs q
  assume s: "nic_settled (at_start fs) h" and w: "waiting (nic_state_of (at_start fs) h) = (st, bs) # q"
  have only: "length (waiting (nic_state_of (at_start fs) (g @ [e]))) \<le> length (waiting (nic_state_of (at_start fs) g))" for g e
    by (cases e) (auto simp: at_start_def nic_state_snoc Let_def split: list.splits prod.splits)
  define n where "n = 1 + (length bs + 1) div 2"
  define g where "g = h @ Index DM9000_MRCMD # replicate n Data_In"
  have g: "h @ Index DM9000_MRCMD # replicate (length (frame_words st bs)) Data_In = g @ [Data_In]"
    by (simp add: g_def n_def replicate_append_same)
  have "length (waiting (nic_state_of (at_start fs) (h @ Index DM9000_MRCMD # replicate k Data_In)))
      \<le> length (waiting (nic_state_of (at_start fs) h))" for k
  proof (induction k)
    case (Suc k)
    have "h @ Index DM9000_MRCMD # replicate (Suc k) Data_In = (h @ Index DM9000_MRCMD # replicate k Data_In) @ [Data_In]"
      by (simp add: replicate_append_same)
    with Suc only [of "h @ Index DM9000_MRCMD # replicate k Data_In" Data_In] show ?case by simp
  qed (use only [of h "Index DM9000_MRCMD"] in simp)
  then have "length (waiting (nic_state_of (at_start fs) g)) \<le> Suc (length q)" using w by (simp add: g_def)
  moreover have "let m = nic_state_of (at_start fs) g
    in nic_index m = DM9000_MRCMD \<and> read_words m = n \<and> (\<exists>new. waiting m = (st, bs) # q @ new)
      \<and> send_words m = send_words (nic_state_of (at_start fs) h) \<and> on_wire m = on_wire (nic_state_of (at_start fs) h)"
    unfolding g_def using s w by (intro nic_reads_on) (auto simp: nic_settled_def n_def)
  ultimately show "waiting (nic_state_of (at_start fs)
      (h @ Index DM9000_MRCMD # replicate (length (frame_words st bs)) Data_In)) = q"
    unfolding g by (auto simp: nic_state_snoc Let_def at_start_def n_def)
qed

section \<open>Without buffers\<close>

context nic
begin

text \<open>A frame of odd length for which there are no buffers is read for ever, with the lock taken.\<close>

lemma odd_frame_hangs:
  assumes "settled (bus_log s)" and "inbox (bus_log s) = (st, bs) # q"
    and "length bs < 65536" and "odd (length bs)" and "\<forall>h n. pool h n = None"
  shows "DM9000_Receive_Packet chip pool s = None"
proof -
  define h where "h = bus_log s @ Index DM9000_MRCMDX # replicate 2 Data_In"
  have ready: "rx_ready chip (bus_log s) = (1, h)" and k: "settled h" "prefix ((st, bs) # q) (inbox h)"
    using rx_ready_says [OF assms(1)] assms(2) by (auto simp: rx_ready_reads h_def)
  then obtain q' where q': "inbox h = (st, bs) # q @ q'" by (auto simp: prefix_def)
  have "chip (h @ [Index DM9000_MRCMD, Data_In]) = of_nat (length bs)"
    using head_word [OF k(1) q' assms(3), of 1] by (simp add: frame_words_def)
  moreover have "read_away (uint (of_nat (length bs) :: u16)) g = None" for g
  proof (cases "read_away (uint (of_nat (length bs) :: u16)) g")
    case (Some g')
    from read_away_returns_even [OF this] assms(4) unat_of_nat_u16 [OF assms(3)] show ?thesis
      by (simp add: uint_nat)
  qed simp
  ultimately have "rx_frame chip pool h = None"
    using assms(5) by (simp add: rx_frame_def data_read_def take_frame_def)
  then have "error_retry chip pool t = None" if "bus_log t = bus_log s" for t
    by (subst error_retry.simps) (simp add: that ready)
  then show ?thesis by (simp add: DM9000_Receive_Packet_def take_lock_def)
qed

end

section \<open>Properties\<close>


text \<open>Three frames, the second with a checksum error, into buffers of 40 bytes.\<close>

definition small_buffers :: pbuf_pool where
  "small_buffers h n = Some (replicate (unat n div 40) 40 @ [unat n mod 40])"

lemma small_buffers_chain: "chains_buffers small_buffers"
  by (auto simp: chains_buffers_def small_buffers_def butlast_append sum_list_replicate)


text \<open>
  C5. What one board sends another receives: for every chain of buffers of 60 to 1514 bytes whose
  head states the right length, \<open>low_level_output\<close> returns, with the payload as one frame on the wire
  and the lock free again; and a board at whose controller this frame has arrived, with its four
  bytes of check sum and behind any number of short or damaged frames, receives exactly this payload
  and the check sum, the frames behind it staying in its memory.
\<close>

theorem frame_crosses_the_wire:
  assumes "nic chip inbox wire settled" and "settled (bus_log s)" and "dm9000lock s = 1"
    and "tot_len p = of_nat (length (concat (payloads p)))" and "60 \<le> length (concat (payloads p))"
    and "length (concat (payloads p)) \<le> 1514"
    and "nic chip2 inbox2 wire2 settled2" and "chains_buffers pool" and "\<forall>h n. pool h n \<noteq> None"
    and "settled2 (bus_log r)" and "dm9000lock r = 1" and "length crc = 4"
    and "\<forall>f\<in>set bads. damaged f \<and> length (snd f) \<le> 1536"
    and "inbox2 (bus_log r) = bads @ (0, concat (payloads p) @ crc) # q"
  shows "\<exists>s' c r'. low_level_output chip p s = Some s'
    \<and> wire (bus_log s') = wire (bus_log s) @ [concat (payloads p)] \<and> dm9000lock s' = 1
    \<and> DM9000_Receive_Packet chip2 pool r = Some (Some c, r') \<and> contents c = concat (payloads p) @ crc
    \<and> dm9000lock r' = 1 \<and> prefix q (inbox2 (bus_log r'))"
proof -
  from nic.SendPacket_sends [OF assms(1,2) _ assms(4)] assms(3,6) obtain s' where
    s': "low_level_output chip p s = Some s'" "wire (bus_log s') = wire (bus_log s) @ [concat (payloads p)]" "dm9000lock s' = 1"
    by (auto simp: low_level_output_def)
  define r0 where "r0 = r \<lparr> dm9000lock := 0 \<rparr>"
  have call: "DM9000_Receive_Packet chip2 pool r = error_retry chip2 pool r0"
    using assms(11) by (simp add: DM9000_Receive_Packet_def take_lock_def r0_def)
  have "takeable pool (snd f)" if "f \<in> set (bads @ [(0, concat (payloads p) @ crc)])" for f
    using that assms(6,9,12,13) by (auto simp: takeable_def)
  moreover have "\<not> damaged (0, concat (payloads p) @ crc)" using assms(5,6,12) by (simp add: damaged_def)
  ultimately obtain c r' where "error_retry chip2 pool r0 = Some (c, r')" "received (concat (payloads p) @ crc) c" "c \<noteq> None"
      "prefix q (inbox2 (bus_log r'))" "dm9000lock r' = 1"
    using nic.error_retry_receives [OF assms(7), of r0 bads 0 "concat (payloads p) @ crc" q pool] assms(8,9,10,13,14)
    by (auto simp: r0_def simp del: not_None_eq)
  with s' call show ?thesis by (auto simp: received_def)
qed

theorem frame_crosses_the_wire_witness:
  "\<exists>s' c r'. low_level_output (nic_answer (\<lambda>n. [])) \<lparr> tot_len = 61, payloads = [replicate 21 5, replicate 40 6] \<rparr>
        \<lparr> bus_log = [], cfg = dm9000_settings 0, dm9000lock = 1 \<rparr> = Some s'
     \<and> on_wire (nic_state_of (\<lambda>n. []) (bus_log s')) = [replicate 21 5 @ replicate 40 6]
     \<and> DM9000_Receive_Packet (nic_answer (at_start [(2, []), (0, (replicate 21 5 @ replicate 40 6) @ [1, 2, 3, 4])])) small_buffers
        \<lparr> bus_log = [], cfg = dm9000_settings 0, dm9000lock = 1 \<rparr> = Some (Some c, r')
     \<and> contents c = (replicate 21 5 @ replicate 40 6) @ [1, 2, 3, 4]"
  using frame_crosses_the_wire [OF working.nic_axioms, of "\<lambda>n. []"
      "\<lparr> bus_log = [], cfg = dm9000_settings 0, dm9000lock = 1 \<rparr>" "\<lparr> tot_len = 61, payloads = [replicate 21 5, replicate 40 6] \<rparr>",
    OF _ _ _ _ _ working.nic_axioms small_buffers_chain,
    of "at_start [(2, []), (0, (replicate 21 5 @ replicate 40 6) @ [1, 2, 3, 4])]"
      "\<lparr> bus_log = [], cfg = dm9000_settings 0, dm9000lock = 1 \<rparr>" "[1, 2, 3, 4]" "[(2, [])]" "[]"]
  by (auto simp: nic_settled_def nic_state_of_def at_start_def small_buffers_def damaged_def)

text \<open>
  C6. A receive error stops the network for good: when the controller answers the ready byte with
  anything but 0 and 1, or when a frame of odd length finds the pool of buffers empty, then either the
  call returns without a frame but with the lock still taken, and no later call of either direction
  returns, whatever the controller and the pool do then, or the call itself never returns.
\<close>

theorem receive_error_stops_the_network:
  assumes "nic chip inbox wire settled" and "settled (bus_log s)" and "dm9000lock s = 1"
  shows "(fst (rx_ready chip2 (bus_log t)) > 1 \<and> dm9000lock t = 1 \<longrightarrow>
       (\<exists>t'. DM9000_Receive_Packet chip2 pool t = Some (None, t')
         \<and> (\<forall>chip' pool' p. DM9000_Receive_Packet chip' pool' t' = None \<and> DM9000_SendPacket chip' p t' = None
              \<and> ethernetif_input chip' pool' t' = None)))
    \<and> (inbox (bus_log s) = (st, bs) # q \<and> length bs < 65536 \<and> odd (length bs) \<longrightarrow>
         DM9000_Receive_Packet chip (\<lambda>h n. None) s = None)"
proof (intro conjI impI)
  assume e: "fst (rx_ready chip2 (bus_log t)) > 1 \<and> dm9000lock t = 1"
  define h where "h = DM9000_WriteReg DM9000_ISR 0x80 (DM9000_WriteReg DM9000_RCR 0x00 (snd (rx_ready chip2 (bus_log t))))"
  define t' where "t' = t \<lparr> dm9000lock := 0, bus_log := h \<rparr>"
  have "fst (rx_ready chip2 (bus_log t)) \<noteq> 0" using e by auto
  then have "error_retry chip2 pool (t \<lparr> dm9000lock := 0 \<rparr>) = Some (None, t')"
    using e by (subst error_retry.simps) (simp add: split_beta Let_def t'_def h_def)
  then have "DM9000_Receive_Packet chip2 pool t = Some (None, t')"
    using e by (simp add: DM9000_Receive_Packet_def take_lock_def)
  moreover have "DM9000_Receive_Packet chip' pool' t' = None" "DM9000_SendPacket chip' p t' = None" for chip' pool' p
    by (simp_all add: DM9000_Receive_Packet_def DM9000_SendPacket_def take_lock_def t'_def)
  moreover from this have "ethernetif_input chip' pool' t' = None" for chip' pool'
    by (subst ethernetif_input.simps) simp
  ultimately show "\<exists>t'. DM9000_Receive_Packet chip2 pool t = Some (None, t')
      \<and> (\<forall>chip' pool' p. DM9000_Receive_Packet chip' pool' t' = None \<and> DM9000_SendPacket chip' p t' = None
           \<and> ethernetif_input chip' pool' t' = None)" by blast
next
  assume "inbox (bus_log s) = (st, bs) # q \<and> length bs < 65536 \<and> odd (length bs)"
  then show "DM9000_Receive_Packet chip (\<lambda>h n. None) s = None"
    by (intro nic.odd_frame_hangs [OF assms(1,2), where st = st and bs = bs and q = q]) auto
qed

text \<open>A controller that answers 255 to everything, and a frame of 65 bytes.\<close>

theorem receive_error_stops_the_network_witness:
  "(\<exists>t'. DM9000_Receive_Packet (\<lambda>h. 255) small_buffers \<lparr> bus_log = [], cfg = dm9000_settings 0, dm9000lock = 1 \<rparr> = Some (None, t')
      \<and> (\<forall>chip' pool' p. DM9000_Receive_Packet chip' pool' t' = None))
   \<and> DM9000_Receive_Packet (nic_answer (at_start [(0, replicate 65 1)])) (\<lambda>h n. None)
        \<lparr> bus_log = [], cfg = dm9000_settings 0, dm9000lock = 1 \<rparr> = None"
  using receive_error_stops_the_network [OF working.nic_axioms, of "at_start [(0, replicate 65 1)]"
      "\<lparr> bus_log = [], cfg = dm9000_settings 0, dm9000lock = 1 \<rparr>" "\<lambda>h. 255"
      "\<lparr> bus_log = [], cfg = dm9000_settings 0, dm9000lock = 1 \<rparr>" small_buffers 0 "replicate 65 1" "[]"]
  by (auto simp: nic_settled_def nic_state_of_def at_start_def rx_ready_reads)

section \<open>The address of the board\<close>

lemma IP4_ADDR_octets: "IP4_ADDR (octets a) = a"
proof (rule bit_word_eqI)
  fix n assume "n < LENGTH(32)"
  then show "bit (IP4_ADDR (octets a)) n = bit a n"
    by (cases "n < 8"; cases "n < 16"; cases "n < 24") (auto simp: IP4_ADDR_def octets_def bit_simps)
qed

text \<open>A look at which the thread ends its wait: there is an address, or there were enough tries.\<close>

definition ends_wait :: "u8 \<times> u32 \<times> u32 \<times> u32 \<Rightarrow> bool" where
  "ends_wait l \<longleftrightarrow> fst (snd l) \<noteq> 0 \<or> fst l > LWIP_MAX_DHCP_TRIES"

lemma dhcp_look_ends:
  "at_look client k n = (tries, n') \<Longrightarrow> (dhcp_look tries d n' = None) = (\<not> ends_wait (client k))"
  by (auto simp: at_look_def dhcp_look_def ends_wait_def split: prod.splits)

text \<open>The interface does not matter before the last look, which overwrites its addresses.\<close>

lemma at_look_again: "at_look client k (snd (at_look client j n)) = at_look client k n"
  by (simp add: at_look_def split_beta)

lemma dhcp_turns_steps:
  "\<forall>i<m. \<not> ends_wait (client (k + i)) \<Longrightarrow> dhcp_turns client k d n = dhcp_turns client (k + m) d n"
proof (induction m)
  case (Suc m)
  have same: "dhcp_turns client j d (snd (at_look client i n)) = dhcp_turns client j d n" for i j
    by (subst (1 2) dhcp_turns.simps) (simp add: at_look_again)
  have "dhcp_turns client (k + m) d n = dhcp_turns client (k + Suc m) d n"
    using dhcp_look_ends [of client "k + m" n] Suc.prems same [of "Suc (k + m)" "k + m"]
    by (subst dhcp_turns.simps) (auto split: prod.splits option.splits)
  with Suc show ?case by simp
qed simp

lemma dhcp_turns_last:
  assumes "dhcp_turns client k d n = Some (j, r)"
  shows "ends_wait (client j)"
proof -
  have "(\<lambda>client k d n r. ends_wait (client (fst r))) client k d n (j, r)"
  proof (rule dhcp_turns.raw_induct [OF _ assms])
    fix f client k d n r
    assume IH: "\<And>client k d n r. f client k d n = Some r \<Longrightarrow> ends_wait (client (fst r))"
      and r: "(let (tries, n) = at_look client k n
        in case dhcp_look tries d n of Some (d, n) \<Rightarrow> Some (k, d, n) | None \<Rightarrow> f client (Suc k) d n) = Some r"
    obtain tries n' where l: "at_look client k n = (tries, n')" by fastforce
    show "ends_wait (client (fst r))"
    proof (cases "dhcp_look tries d n'")
      case None
      with r l IH show ?thesis by simp
    next
      case (Some a)
      with dhcp_look_ends [OF l, of d] have "ends_wait (client k)" by simp
      with Some r l show ?thesis by (auto split: prod.splits)
    qed
  qed
  then show ?thesis by simp
qed

text \<open>
  C32. The thread that waits for an address ends exactly when the address protocol has found one or
  made more than four tries, at the first look that shows this. With an address the control record
  holds its octets, mask and gateway, so that \<open>IP4_ADDR\<close> gives them back, and the status 2; without
  one the interface gets the addresses of the record and the status is 255. The addresses the record
  starts with do not fit together: the gateway 192.168.1.1 is outside the net of 192.168.0.30 with the
  mask 255.255.255.0.
\<close>

theorem lwip_dhcp_task_ends:
  "(lwip_dhcp_task client d n = None) = (\<forall>k. \<not> ends_wait (client k))
   \<and> (lwip_dhcp_task client d n = Some (k, d', n') \<longrightarrow>
        ends_wait (client k) \<and> (\<forall>j<k. \<not> ends_wait (client j)) \<and> mac d' = mac d
        \<and> (let (tries, a, m, g) = client k
           in if a \<noteq> 0
              then dhcpstatus d' = 2 \<and> IP4_ADDR (ip d') = a \<and> IP4_ADDR (netmask d') = m \<and> IP4_ADDR (gateway d') = g
                \<and> (ip_addr n', mask_addr n', gw_addr n') = (a, m, g)
              else dhcpstatus d' = 0xFF \<and> (ip_addr n', mask_addr n', gw_addr n')
                = (IP4_ADDR (ip d), IP4_ADDR (netmask d), IP4_ADDR (gateway d))))
   \<and> (let z = lwip_comm_default_ip_set c
      in and (xor (IP4_ADDR (ip z)) (IP4_ADDR (gateway z))) (IP4_ADDR (netmask z)) \<noteq> 0)"
proof (intro conjI impI)
  define e where "e = d \<lparr> dhcpstatus := 0 \<rparr>"
  have none: "\<forall>k. \<not> ends_wait (client k)" if "lwip_dhcp_task client d n = None"
  proof (rule ccontr)
    assume some: "\<not> (\<forall>k. \<not> ends_wait (client k))"
    then obtain k where k: "ends_wait (client k)" "\<forall>i<k. \<not> ends_wait (client (0 + i))"
      using exists_least_iff [of "\<lambda>k. ends_wait (client k)"] by auto
    from dhcp_turns_steps [OF k(2)] that have "dhcp_turns client k e n = None"
      by (simp add: lwip_dhcp_task_def e_def)
    with dhcp_look_ends [of client k n] k(1) show False
      by (subst (asm) dhcp_turns.simps) (auto simp del: not_None_eq split: prod.splits option.splits)
  qed
  have some: "ends_wait (client j)" if "lwip_dhcp_task client d n = Some (j, r)" for j r
    using that dhcp_turns_last by (auto simp: lwip_dhcp_task_def)
  show "(lwip_dhcp_task client d n = None) = (\<forall>k. \<not> ends_wait (client k))"
    using none some by (cases "lwip_dhcp_task client d n") auto
  assume r: "lwip_dhcp_task client d n = Some (k, d', n')"
  show "ends_wait (client k)" using some [OF r] .
  obtain l where l: "ends_wait (client l)" "\<forall>i<l. \<not> ends_wait (client (0 + i))"
    using \<open>ends_wait (client k)\<close> exists_least_iff [of "\<lambda>k. ends_wait (client k)"] by auto
  obtain tries a m g where c: "client l = (tries, a, m, g)" by (cases "client l") auto
  have "dhcp_turns client l e n = Some (k, d', n')"
    using dhcp_turns_steps [OF l(2), of e n] r by (simp add: lwip_dhcp_task_def e_def)
  then have kl: "k = l" and look: "dhcp_look tries e (snd (at_look client l n)) = Some (d', n')"
    using l(1) c by (auto simp: dhcp_turns.simps [of client l] at_look_def ends_wait_def dhcp_look_def split: if_splits)
  show "\<forall>j<k. \<not> ends_wait (client j)" using l(2) by (simp add: kl)
  show "mac d' = mac d" using look by (auto simp: dhcp_look_def e_def split: if_splits)
  show "let (tries, a, m, g) = client k
     in if a \<noteq> 0
        then dhcpstatus d' = 2 \<and> IP4_ADDR (ip d') = a \<and> IP4_ADDR (netmask d') = m \<and> IP4_ADDR (gateway d') = g
          \<and> (ip_addr n', mask_addr n', gw_addr n') = (a, m, g)
        else dhcpstatus d' = 0xFF \<and> (ip_addr n', mask_addr n', gw_addr n')
          = (IP4_ADDR (ip d), IP4_ADDR (netmask d), IP4_ADDR (gateway d))"
    using look by (auto simp: kl c at_look_def dhcp_look_def e_def IP4_ADDR_octets split: if_splits)
next
  show "let z = lwip_comm_default_ip_set c
      in and (xor (IP4_ADDR (ip z)) (IP4_ADDR (gateway z))) (IP4_ADDR (netmask z)) \<noteq> 0"
    by (simp add: lwip_comm_default_ip_set_def IP4_ADDR_def)
qed

text \<open>An address at the third look, 192.168.7.9.\<close>

theorem lwip_dhcp_task_ends_witness:
  "\<exists>d' n'. lwip_dhcp_task (\<lambda>k. if k < 2 then (1, 0, 0, 0) else (2, 0x0907A8C0, 0x00FFFFFF, 0x0107A8C0))
       (lwip_comm_default_ip_set (dm9000_settings 0))
       \<lparr> ip_addr = 0, mask_addr = 0, gw_addr = 0, hwaddr = [], mtu = 1500, netif_flags = 0 \<rparr> = Some (2, d', n')
     \<and> IP4_ADDR (ip d') = 0x0907A8C0 \<and> dhcpstatus d' = 2"
proof -
  define client :: dhcp_client where
    "client = (\<lambda>k. if k < 2 then (1, 0, 0, 0) else (2, 0x0907A8C0, 0x00FFFFFF, 0x0107A8C0))"
  define z n where "z = lwip_comm_default_ip_set (dm9000_settings 0)"
    and "n = \<lparr> ip_addr = 0, mask_addr = 0, gw_addr = 0, hwaddr = [], mtu = 1500, netif_flags = 0 \<rparr>"
  note ends = lwip_dhcp_task_ends [of client z n _ _ _ "dm9000_settings 0"]
  have two: "ends_wait (client 2)" and early: "ends_wait (client k) \<Longrightarrow> 2 \<le> k" for k
    by (auto simp: client_def ends_wait_def LWIP_MAX_DHCP_TRIES_def split: if_splits)
  then obtain k d' n' where r: "lwip_dhcp_task client z n = Some (k, d', n')"
    using ends by (cases "lwip_dhcp_task client z n") auto
  with ends [of k d' n'] two early have "k = 2" by (metis le_neq_implies_less)
  with ends [of k d' n'] r have "IP4_ADDR (ip d') = 0x0907A8C0 \<and> dhcpstatus d' = 2" by (simp add: client_def)
  with r \<open>k = 2\<close> show ?thesis unfolding client_def z_def n_def by blast
qed

end
