(* ===== verification/Net_Start.thy ===== *)
theory Net_Start
  imports Net_Facts
begin

text \<open>
  The start of the network: the resets of the controller end, the driver recognises it, and leaves
  the addresses and modes in its registers which the interface of the stack then states.
\<close>

section \<open>What was written last\<close>

definition write_step :: "u16 \<times> (u16 \<Rightarrow> u16 option) \<Rightarrow> net_event \<Rightarrow> u16 \<times> (u16 \<Rightarrow> u16 option)" where
  "write_step rm e = (case e of Index i \<Rightarrow> (i, snd rm) | Data_Out v \<Rightarrow> (fst rm, (snd rm)(fst rm \<mapsto> v)) | _ \<Rightarrow> rm)"

definition written :: "net_event list \<Rightarrow> u16 \<Rightarrow> u16 option" where
  "written h = snd (foldl write_step (0, \<lambda>r. None) h)"

lemma written_simps [simp]:
  "written (h @ [Data_In]) = written h" "written (h @ [Net_Delay n]) = written h" "written (h @ [Index r]) = written h"
  "written (h @ [Index r, Data_In]) = written h"
  "written (h @ [Net_Reset False, Net_Delay 10, Net_Reset True, Net_Delay 100]) = written h"
  by (simp_all add: written_def write_step_def split_beta)

lemma written_WriteReg [simp]: "written (DM9000_WriteReg r v h) = (written h)(r \<mapsto> v)"
  by (simp add: written_def write_step_def DM9000_WriteReg_def split_beta)

lemma written_ReadReg [simp]: "written (snd (DM9000_ReadReg chip r h)) = written h"
  by (simp add: DM9000_ReadReg_def data_read_def)

lemma written_PHY_WriteReg [simp]:
  "r \<notin> {DM9000_EPAR, DM9000_EPCR, DM9000_EPDRL, DM9000_EPDRH} \<Longrightarrow> written (DM9000_PHY_WriteReg p v h) r = written h r"
  by (simp add: DM9000_PHY_WriteReg_def Let_def)

lemma written_PHY_ReadReg [simp]:
  "r \<notin> {DM9000_EPAR, DM9000_EPCR} \<Longrightarrow> written (snd (DM9000_PHY_ReadReg chip p h)) r = written h r"
  by (simp add: DM9000_PHY_ReadReg_def Let_def split_beta)

lemma written_link_wait:
  assumes "\<And>h. written (snd (ask h)) r = written h r"
  shows "written (snd (link_wait ask i h)) r = written h r"
  using assms
proof (induction ask i h rule: link_wait.induct)
  case (1 ask i h)
  obtain up h' where a: "ask h = (up, h')" by fastforce
  with "1.prems" [of h] have w: "written h' r = written h r" by simp
  show ?case
  proof (cases "up \<or> i + 1 > 100")
    case True
    with a w show ?thesis by (subst link_wait.simps) auto
  next
    case False
    from "1.IH" [OF a [symmetric] _ _ "1.prems"] False a w show ?thesis by (subst link_wait.simps) auto
  qed
qed

lemma written_speed [simp]:
  assumes "r \<notin> {DM9000_EPAR, DM9000_EPCR}"
  shows "written (snd (DM9000_Get_SpeedAndDuplex chip c h)) r = written h r"
proof -
  have "written (snd (link_wait (\<lambda>h. let (v, h) = DM9000_PHY_ReadReg chip 1 h in (and v 0x0020 \<noteq> 0, h)) 0 h)) r = written h r"
    "written (snd (link_wait (\<lambda>h. let (v, h) = DM9000_ReadReg chip DM9000_NSR h in (and v 0x40 \<noteq> 0, h)) 0 h)) r = written h r"
    by (rule written_link_wait; use assms in \<open>simp add: split_beta\<close>)+
  then show ?thesis by (simp add: DM9000_Get_SpeedAndDuplex_def Let_def split_beta)
qed

lemma written_loop:
  "written (foldl (\<lambda>h i. DM9000_WriteReg (base + of_nat i) (f i) h) h is) r
    = foldl (\<lambda>m i. m(base + of_nat i \<mapsto> f i)) (written h) is r"
  by (induction "is" arbitrary: h) simp_all

section \<open>The resets end\<close>

text \<open>Reading a register \<open>n\<close> times, each after a pause of 25 ms.\<close>

definition paced :: "u16 \<Rightarrow> nat \<Rightarrow> net_event list" where
  "paced r n = concat (replicate n [Net_Delay 25, Index r, Data_In])"

lemma wait_reg_paced:
  "ok (chip (h @ paced r n @ [Net_Delay 25, Index r])) \<Longrightarrow>
     \<exists>n. wait_reg chip [Net_Delay 25] r ok h = Some (h @ paced r n)"
proof (induction n arbitrary: h)
  case 0
  then show ?case
    by (intro exI [of _ "Suc 0"]) (simp add: wait_reg.simps DM9000_ReadReg_def data_read_def paced_def)
next
  case (Suc n)
  show ?case
  proof (cases "ok (chip (h @ [Net_Delay 25, Index r]))")
    case True
    then show ?thesis
      by (intro exI [of _ "Suc 0"]) (simp add: wait_reg.simps DM9000_ReadReg_def data_read_def paced_def)
  next
    case False
    have "ok (chip ((h @ paced r 1) @ paced r n @ [Net_Delay 25, Index r]))" using Suc.prems by (simp add: paced_def)
    from Suc.IH [OF this] obtain m where
      "wait_reg chip [Net_Delay 25] r ok (h @ paced r 1) = Some ((h @ paced r 1) @ paced r m)" by blast
    then have "wait_reg chip [Net_Delay 25] r ok h = Some (h @ paced r (Suc m))"
      using False by (subst wait_reg.simps) (simp add: DM9000_ReadReg_def data_read_def paced_def)
    then show ?thesis by blast
  qed
qed

lemma written_paced [simp]: "written (h @ paced r n) = written h"
proof (induction n)
  case (Suc n)
  have "h @ paced r (Suc n) = ((((h @ paced r n) @ [Net_Delay 25]) @ [Index r]) @ [Data_In])"
    by (induction n) (simp_all add: paced_def)
  then show ?case using Suc by (simp only: written_simps)
qed (simp add: paced_def)

lemma DM9000_Reset_ends:
  assumes "\<forall>h. \<exists>n. and (chip (h @ paced DM9000_NCR n @ [Net_Delay 25, Index DM9000_NCR])) 1 = 0"
  shows "\<exists>h'. DM9000_Reset chip h = Some h'"
proof -
  have "\<exists>n. wait_reg chip [Net_Delay 25] DM9000_NCR (\<lambda>v. and v 1 = 0) g = Some (g @ paced DM9000_NCR n)" for g
    using assms wait_reg_paced [where ok = "\<lambda>v. and v 1 = 0"] by blast
  then show ?thesis unfolding DM9000_Reset_def Let_def by (metis bind.bind_lunit)
qed

section \<open>The chip is recognised\<close>

lemma DM9000_Get_DeiviceID_reads:
  assumes "\<forall>h. selected h = DM9000_VIDL \<longrightarrow> chip h = a" "\<forall>h. selected h = DM9000_VIDH \<longrightarrow> chip h = b"
    "\<forall>h. selected h = DM9000_PIDL \<longrightarrow> chip h = c" "\<forall>h. selected h = DM9000_PIDH \<longrightarrow> chip h = d"
  shows "fst (DM9000_Get_DeiviceID chip h) =
    or (or (or (ucast a) (push_bit 8 (ucast b))) (push_bit 16 (ucast c))) (push_bit 24 (ucast d))"
  using assms by (simp add: DM9000_Get_DeiviceID_def DM9000_ReadReg_def data_read_def split_beta)

text \<open>The address the driver chooses is one of a single station, administered locally.\<close>

lemma chosen_address: "length (mac_addr (dm9000_settings uid)) = 6 \<and> mac_addr (dm9000_settings uid) ! 0 = 2"
  by (simp add: dm9000_settings_def)

lemma DM9000_Init_writes:
  assumes "DM9000_Reset chip (bus_log s) = Some h"
    and "fst (DM9000_Get_DeiviceID chip (h @ [Net_Delay 200])) = i"
  shows "\<exists>s'. DM9000_Init chip uid s = Some (if i = DM9000_ID then 0 else 1, s')
    \<and> cfg s' = dm9000_settings uid \<and> dm9000lock s' = dm9000lock s
    \<and> (i = DM9000_ID \<longrightarrow>
        (\<forall>k<6. written (bus_log s') (DM9000_PAR + of_nat k) = Some (ucast (mac_addr (dm9000_settings uid) ! k)))
        \<and> (\<forall>k<8. written (bus_log s') (DM9000_MAR + of_nat k) = Some 0xFF)
        \<and> written (bus_log s') DM9000_RCR = Some 0x31 \<and> written (bus_log s') DM9000_IMR = Some 0x81)"
proof (cases "i = DM9000_ID")
  case False
  with assms show ?thesis by (simp add: DM9000_Init_def Let_def split_beta)
next
  case True
  have six: "k < 6 \<Longrightarrow> k \<in> {0, 1, 2, 3, 4, 5}" and eight: "k < 8 \<Longrightarrow> k \<in> {0, 1, 2, 3, 4, 5, 6, 7}" for k :: nat by auto
  define c where "c = dm9000_settings uid"
  have imr: "imr_all c = 0x81" "multicase_addr c = replicate 8 0xff" by (simp_all add: c_def dm9000_settings_def)
  have up: "[0..<6] = [0, 1, 2, 3, 4, 5]" "[0..<8] = [0, 1, 2, 3, 4, 5, 6, 7]" by (simp_all add: upt_rec)
  obtain s' where i: "DM9000_Init chip uid s = Some (0, s')"
    and keep: "cfg s' = c" "dm9000lock s' = dm9000lock s"
    and w: "\<exists>g. bus_log s' = DM9000_WriteReg DM9000_IMR (ucast (imr_all c))
       (snd (DM9000_Get_SpeedAndDuplex chip c
         (DM9000_WriteReg DM9000_IMR (ucast IMR_PAR) (DM9000_WriteReg DM9000_RCR 0x31
           (DM9000_Set_Multicast (multicase_addr c) (DM9000_Set_MACAddress (mac_addr c) g))))))"
    using assms True unfolding DM9000_Init_def c_def [symmetric]
    by (simp add: Let_def split_beta) blast
  then obtain g where g: "bus_log s' = DM9000_WriteReg DM9000_IMR (ucast (imr_all c))
       (snd (DM9000_Get_SpeedAndDuplex chip c
         (DM9000_WriteReg DM9000_IMR (ucast IMR_PAR) (DM9000_WriteReg DM9000_RCR 0x31
           (DM9000_Set_Multicast (multicase_addr c) (DM9000_Set_MACAddress (mac_addr c) g))))))" by blast
  have "\<forall>k<6. written (bus_log s') (DM9000_PAR + of_nat k) = Some (ucast (mac_addr c ! k))"
    using six by (auto simp: g DM9000_Set_Multicast_def DM9000_Set_MACAddress_def written_loop up dest!: six)
  moreover have "\<forall>k<8. written (bus_log s') (DM9000_MAR + of_nat k) = Some 0xFF"
    by (auto simp: g DM9000_Set_Multicast_def written_loop up imr dest!: eight)
  moreover have "written (bus_log s') DM9000_RCR = Some 0x31" "written (bus_log s') DM9000_IMR = Some 0x81"
    by (simp_all add: g imr)
  ultimately show ?thesis using i keep True by (simp add: c_def)
qed

section \<open>The network comes up\<close>

text \<open>
  C37. With a controller whose soft resets end, \<open>lwip_comm_init\<close> returns: 0 when the four identity
  registers hold 90000A46, else 2, the lock free either way. With 0 the controller's address registers
  hold, byte for byte, the hardware address the stack's interface states, which is that of a single,
  locally administered station made of the processor's number; its multicast filter takes all
  groups, the receiver is on without frames that are too long or damaged, and only the receive
  interrupt is enabled.
\<close>

theorem lwip_comm_init_starts:
  assumes "\<forall>h. \<exists>n. and (chip (h @ paced DM9000_NCR n @ [Net_Delay 25, Index DM9000_NCR])) 1 = 0"
    and "\<forall>h. selected h = DM9000_VIDL \<longrightarrow> chip h = a" and "\<forall>h. selected h = DM9000_VIDH \<longrightarrow> chip h = b"
    and "\<forall>h. selected h = DM9000_PIDL \<longrightarrow> chip h = c" and "\<forall>h. selected h = DM9000_PIDH \<longrightarrow> chip h = d"
    and "i = or (or (or (ucast a) (push_bit 8 (ucast b))) (push_bit 16 (ucast c))) (push_bit 24 (ucast d))"
  shows "\<exists>r s' up. lwip_comm_init chip uid True h = Some (r, s', up) \<and> dm9000lock s' = 1
    \<and> (r = 0) = (i = DM9000_ID) \<and> (r \<noteq> 0 \<longrightarrow> r = 2 \<and> up = None)
    \<and> (r = 0 \<longrightarrow> (\<exists>z n. up = Some (z, Some n) \<and> hwaddr n = mac z \<and> length (hwaddr n) = 6
          \<and> \<not> bit (hwaddr n ! 0) 0 \<and> bit (hwaddr n ! 0) 1
          \<and> (\<forall>k<6. written (bus_log s') (DM9000_PAR + of_nat k) = Some (ucast (hwaddr n ! k))))
        \<and> (\<forall>k<8. written (bus_log s') (DM9000_MAR + of_nat k) = Some 0xFF)
        \<and> written (bus_log s') DM9000_RCR = Some 0x31 \<and> written (bus_log s') DM9000_IMR = Some 0x81)"
proof -
  define s where "s = \<lparr> bus_log = h, cfg = dm9000cfg_zero, dm9000lock = 1 \<rparr>"
  from DM9000_Reset_ends [OF assms(1)] obtain g where g: "DM9000_Reset chip (bus_log s) = Some g" by blast
  have "fst (DM9000_Get_DeiviceID chip (g @ [Net_Delay 200])) = i"
    unfolding assms(6) by (rule DM9000_Get_DeiviceID_reads [OF assms(2-5)])
  from DM9000_Init_writes [OF g this, of uid] obtain s' where
    s': "DM9000_Init chip uid s = Some (if i = DM9000_ID then 0 else 1, s')"
      "cfg s' = dm9000_settings uid" "dm9000lock s' = dm9000lock s"
    and w: "i = DM9000_ID \<longrightarrow>
        (\<forall>k<6. written (bus_log s') (DM9000_PAR + of_nat k) = Some (ucast (mac_addr (dm9000_settings uid) ! k)))
        \<and> (\<forall>k<8. written (bus_log s') (DM9000_MAR + of_nat k) = Some 0xFF)
        \<and> written (bus_log s') DM9000_RCR = Some 0x31 \<and> written (bus_log s') DM9000_IMR = Some 0x81" by blast
  have "bit (2 :: u8) 1" "\<not> bit (2 :: u8) 0" by simp_all
  with s' w chosen_address [of uid] show ?thesis
    unfolding lwip_comm_init_def s_def [symmetric] Let_def
    by (cases "i = DM9000_ID")
      (auto simp: s_def ethernetif_init_def low_level_init_def lwip_comm_default_ip_set_def)
qed

text \<open>A controller with the right identity whose control register reads zero.\<close>

definition plain_nic :: nic_chip where
  "plain_nic h = (if selected h = DM9000_VIDL then 0x46 else if selected h = DM9000_VIDH then 0x0A
     else if selected h = DM9000_PIDH then 0x90 else 0)"

lemma plain_nic_resets: "and (plain_nic (h @ paced DM9000_NCR n @ [Net_Delay 25, Index DM9000_NCR])) 1 = 0"
proof -
  have "selected ((h @ paced DM9000_NCR n @ [Net_Delay 25]) @ [Index DM9000_NCR]) = DM9000_NCR" by (rule selected_simps)
  then show ?thesis by (simp add: plain_nic_def)
qed

theorem lwip_comm_init_starts_witness:
  "\<exists>s' up. lwip_comm_init plain_nic 0x123456 True [] = Some (0, s', up) \<and> written (bus_log s') DM9000_IMR = Some 0x81"
proof -
  have "\<forall>h. \<exists>n. and (plain_nic (h @ paced DM9000_NCR n @ [Net_Delay 25, Index DM9000_NCR])) 1 = 0"
    by (intro allI exI [of _ 0]) (rule plain_nic_resets)
  moreover have "\<forall>h. selected h = DM9000_VIDL \<longrightarrow> plain_nic h = 0x46" "\<forall>h. selected h = DM9000_VIDH \<longrightarrow> plain_nic h = 0x0A"
    "\<forall>h. selected h = DM9000_PIDL \<longrightarrow> plain_nic h = 0" "\<forall>h. selected h = DM9000_PIDH \<longrightarrow> plain_nic h = 0x90"
    by (simp_all add: plain_nic_def)
  ultimately show ?thesis
    using lwip_comm_init_starts [of plain_nic "0x46" "0x0A" 0 "0x90" "0x90000A46" "0x123456" "[]"] by auto
qed

end
