(* ===== verification/Delay.thy ===== *)
theory Delay
  imports Prelude
begin

text \<open>
  The delays: on the system timer with its count flag (\<open>applications/delay.c\<close>), on the running
  system timer (\<open>drivers/board.c\<close>, \<open>rt_hw_us_delay\<close>), and by empty loops (\<open>applications/public.c\<close>).
  What the processor needs from one read of the timer to the next is a parameter.
\<close>

section \<open>The system timer\<close>

record systick =
  load :: u32          \<comment> \<open>24 bits\<close>
  counter :: u32
  enabled :: bool
  countflag :: bool
  clock :: nat         \<comment> \<open>clock pulses so far\<close>

text \<open>One pulse of its clock: it counts down to zero, raises the flag there, and starts again.\<close>

definition pulse :: "systick \<Rightarrow> systick" where
  "pulse s =
     (let s = s \<lparr> clock := clock s + 1 \<rparr>
      in if \<not> enabled s then s
         else if counter s = 0 then s \<lparr> counter := load s \<rparr>
         else if counter s = 1 then s \<lparr> counter := 0, countflag := True \<rparr>
         else s \<lparr> counter := counter s - 1 \<rparr>)"

text \<open>The loop on the control register, whose read clears the flag; \<open>lag k\<close> pulses before read \<open>k\<close>.\<close>

partial_function (option) flag_wait :: "(nat \<Rightarrow> nat) \<Rightarrow> nat \<Rightarrow> systick \<Rightarrow> systick option" where
  "flag_wait lag k s =
     (if enabled ((pulse ^^ lag k) s) \<and> \<not> countflag ((pulse ^^ lag k) s)
      then flag_wait lag (Suc k) (((pulse ^^ lag k) s) \<lparr> countflag := False \<rparr>)
      else Some (((pulse ^^ lag k) s) \<lparr> countflag := False \<rparr>))"

definition timer_run :: "(nat \<Rightarrow> nat) \<Rightarrow> u32 \<Rightarrow> systick \<Rightarrow> systick option" where
  "timer_run lag v s =
     (let s = s \<lparr> load := and v 0xFFFFFF \<rparr>;
          s = s \<lparr> counter := 0, countflag := False \<rparr>;
          s = s \<lparr> enabled := True \<rparr>
      in Option.bind (flag_wait lag 0 s) (\<lambda>s.
           let s = s \<lparr> enabled := False \<rparr> in Some (s \<lparr> counter := 0, countflag := False \<rparr>)))"

record delay_state =
  fac_us :: u8
  fac_ms :: u16
  timer :: systick

definition delay_init :: "u32 \<Rightarrow> delay_state \<Rightarrow> delay_state" where
  "delay_init fre d =
     (let d = d \<lparr> fac_us := ucast (fre div 8000000) \<rparr> in d \<lparr> fac_ms := ucast (fac_us d) * 1000 \<rparr>)"

definition delay_us :: "(nat \<Rightarrow> nat) \<Rightarrow> u32 \<Rightarrow> delay_state \<Rightarrow> delay_state option" where
  "delay_us lag nus d = map_option (\<lambda>s. d \<lparr> timer := s \<rparr>) (timer_run lag (nus * ucast (fac_us d)) (timer d))"

definition delay_ms :: "(nat \<Rightarrow> nat) \<Rightarrow> u16 \<Rightarrow> delay_state \<Rightarrow> delay_state option" where
  "delay_ms lag nms d = map_option (\<lambda>s. d \<lparr> timer := s \<rparr>) (timer_run lag (ucast nms * ucast (fac_ms d)) (timer d))"

section \<open>On the running timer\<close>

text \<open>Reads of the counter, from read \<open>k\<close> on, until one satisfies \<open>ok\<close>; the index of the next read.\<close>

partial_function (option) read_until :: "(u32 \<Rightarrow> bool) \<Rightarrow> (nat \<Rightarrow> u32) \<Rightarrow> nat \<Rightarrow> nat option" where
  "read_until ok v k = (if ok (v k) then Some (Suc k) else read_until ok v (Suc k))"

definition RT_TICK_PER_SECOND :: u32 where "RT_TICK_PER_SECOND = 1000"

definition rt_hw_us_delay :: "u32 \<Rightarrow> (nat \<Rightarrow> u32) \<Rightarrow> u32 \<Rightarrow> nat option" where
  "rt_hw_us_delay LOAD v us =
     (let us = us * (LOAD div (1000000 div RT_TICK_PER_SECOND));
          delta = v 0
      in if delta < us
         then Option.bind (read_until (\<lambda>x. \<not> x < us) v 1) (\<lambda>k.
                let us = us - delta; delta = LOAD
                in read_until (\<lambda>x. \<not> delta - x < us) v k)
         else read_until (\<lambda>x. \<not> delta - x < us) v 1)"

section \<open>Empty loops\<close>

text \<open>\<open>while(--nCount);\<close>: the number of times the counter is decremented.\<close>

function down_to_zero :: "u16 \<Rightarrow> nat" where
  "down_to_zero nCount = (if nCount - 1 \<noteq> 0 then 1 + down_to_zero (nCount - 1) else 1)"
  by pat_completeness auto

termination
proof (relation "measure (\<lambda>n. if n = 0 then 65536 else unat n)", goal_cases)
  case (2 n)
  then show ?case using unat_gt_0 [of n] by (cases "n = 0") (auto simp: unat_minus_one)
qed simp

definition delay_2us :: "u16 \<Rightarrow> nat" where "delay_2us nCount = down_to_zero (nCount * 10)"
definition Delay_1US :: "u16 \<Rightarrow> nat" where "Delay_1US nCount = down_to_zero (nCount * 5)"

text \<open>\<open>for (i = 0; i < n; i++);\<close> makes \<open>n\<close> turns; the turns of the innermost loops.\<close>

function up_to :: "u16 \<Rightarrow> u16 \<Rightarrow> nat" where
  "up_to i n = (if i < n then 1 + up_to (i + 1) n else 0)"
  by pat_completeness auto

termination by (relation "measure (\<lambda>(i, n). unat n - unat i)") (auto simp: word_less_nat_alt unat_inc_u16)

definition Delay1us :: "u16 \<Rightarrow> nat" where "Delay1us us = up_to 0 us"

text \<open>\<open>while (ms--)\<close>: the body runs once for every value of \<open>ms\<close> above zero.\<close>

function each_ms :: "nat \<Rightarrow> u16 \<Rightarrow> nat" where
  "each_ms body ms = (if ms \<noteq> 0 then body + each_ms body (ms - 1) else 0)"
  by pat_completeness auto

termination by (relation "measure (\<lambda>(b, ms). unat ms)") (auto simp: unat_minus_one unat_gt_0)

definition Delay_ms :: "u16 \<Rightarrow> nat" where "Delay_ms ms = each_ms (up_to 0 80 * up_to 0 100) ms"
definition delay200 :: "u16 \<Rightarrow> nat" where "delay200 ms = each_ms (up_to 0 5 + up_to 0 5) ms"

declare down_to_zero.simps [simp del] up_to.simps [simp del] each_ms.simps [simp del]

section \<open>How long they take\<close>

text \<open>The timer \<open>j\<close> pulses after its start with the value \<open>v\<close> at the time \<open>c\<close>.\<close>

definition after_start :: "nat \<Rightarrow> nat \<Rightarrow> nat \<Rightarrow> systick \<Rightarrow> bool" where
  "after_start v c j s \<longleftrightarrow> enabled s \<and> unat (load s) = v \<and> clock s = c + j
     \<and> (j \<le> v \<longrightarrow> \<not> countflag s \<and> unat (counter s) = (if j = 0 then 0 else v + 1 - j))
     \<and> (v < j \<longrightarrow> countflag s)"

lemma pulse_after_start:
  assumes "0 < v" and "after_start v c j s"
  shows "after_start v c (Suc j) (pulse s)"
proof (cases "j \<le> v")
  case True
  then have k: "\<not> countflag s" "unat (counter s) = (if j = 0 then 0 else v + 1 - j)"
    using assms(2) by (auto simp: after_start_def)
  then have zero: "(counter s = 0) = (j = 0)" and one: "(counter s = 1) = (j = v)"
    using True assms(1) by (auto simp: unat_eq_zero [symmetric] word_unat_eq_iff)
  show ?thesis
  proof (cases "j = 0 \<or> j = v")
    case True
    then show ?thesis using assms zero one k by (auto simp: after_start_def pulse_def)
  next
    case False
    then have "1 \<le> counter s" using zero unat_gt_0 [of "counter s"] by (simp add: word_le_nat_alt Suc_le_eq)
    then have "unat (counter s - 1) = v - j" using k False by (simp add: unat_diff_le)
    with False zero one True assms(2) show ?thesis by (auto simp: after_start_def pulse_def)
  qed
next
  case False
  with assms(2) show ?thesis by (auto simp: after_start_def pulse_def Let_def)
qed

lemma pulses_after_start: "0 < v \<Longrightarrow> after_start v c j s \<Longrightarrow> after_start v c (n + j) ((pulse ^^ n) s)"
  by (induction n) (simp_all add: pulse_after_start)

lemma flag_wait_returns:
  assumes "0 < v" and "\<forall>k. 0 < lag k \<and> lag k \<le> m" and "after_start v c j s" and "j \<le> v"
  shows "\<exists>s'. flag_wait lag k s = Some s' \<and> c + v < clock s' \<and> clock s' \<le> c + v + m"
  using assms(3,4)
proof (induction "v - j" arbitrary: j k s rule: less_induct)
  case less
  define t where "t = (pulse ^^ lag k) s"
  have lag: "0 < lag k" "lag k \<le> m" using assms(2) by auto
  have t: "after_start v c (lag k + j) t" unfolding t_def by (rule pulses_after_start [OF assms(1) less.prems(1)])
  show ?case
  proof (cases "lag k + j \<le> v")
    case True
    with t have f: "enabled t" "\<not> countflag t" and "after_start v c (lag k + j) (t \<lparr> countflag := False \<rparr>)"
      by (auto simp: after_start_def)
    from less.hyps [OF _ this(3) True, of "Suc k"] True lag
    show ?thesis using f by (subst flag_wait.simps) (simp add: t_def [symmetric])
  next
    case False
    with t have "countflag t" "clock t = c + (lag k + j)" by (auto simp: after_start_def)
    with False lag less.prems(2) show ?thesis by (subst flag_wait.simps) (simp add: t_def [symmetric])
  qed
qed

lemma timer_run_returns:
  assumes "v \<le> 0xFFFFFF" and "0 < v" and "\<forall>k. 0 < lag k \<and> lag k \<le> m"
  shows "\<exists>s'. timer_run lag v s = Some s' \<and> unat v < clock s' - clock s \<and> clock s' - clock s \<le> unat v + m \<and> \<not> enabled s'"
proof -
  have "and v 0xFFFFFF = v"
  proof -
    have "and v 0xFFFFFF = take_bit 24 v" by (simp add: take_bit_eq_mask mask_eq_exp_minus_1)
    also have "\<dots> = v mod 0x1000000" by (simp add: take_bit_eq_mod)
    also have "\<dots> = v" using assms(1) by (simp add: word_arith_nat_mod word_le_nat_alt)
    finally show ?thesis .
  qed
  then have "after_start (unat v) (clock s) 0 (s \<lparr> load := and v 0xFFFFFF, counter := 0, countflag := False, enabled := True \<rparr>)"
    by (simp add: after_start_def)
  from flag_wait_returns [OF _ assms(3) this, of 0] assms(2)
  show ?thesis by (auto simp: timer_run_def Let_def word_less_nat_alt)
qed

text \<open>With the value zero the flag never comes.\<close>

lemma idle_pulses:
  "enabled s \<and> load s = 0 \<and> counter s = 0 \<and> \<not> countflag s \<Longrightarrow>
     enabled ((pulse ^^ n) s) \<and> load ((pulse ^^ n) s) = 0 \<and> counter ((pulse ^^ n) s) = 0 \<and> \<not> countflag ((pulse ^^ n) s)"
  by (induction n) (simp_all add: pulse_def)

lemma flag_wait_not_idle:
  assumes "flag_wait lag k s = Some s'"
  shows "\<not> (enabled s \<and> load s = 0 \<and> counter s = 0 \<and> \<not> countflag s)"
proof (rule flag_wait.raw_induct [OF _ assms, where P = "\<lambda>lag k s s'. \<not> (enabled s \<and> load s = 0 \<and> counter s = 0 \<and> \<not> countflag s)"])
  fix f :: "(nat \<Rightarrow> nat) \<Rightarrow> nat \<Rightarrow> systick \<Rightarrow> systick option" and lag k s s'
  assume IH: "\<And>lag k s s'. f lag k s = Some s' \<Longrightarrow> \<not> (enabled s \<and> load s = 0 \<and> counter s = 0 \<and> \<not> countflag s)"
    and r: "(if enabled ((pulse ^^ lag k) s) \<and> \<not> countflag ((pulse ^^ lag k) s)
      then f lag (Suc k) (((pulse ^^ lag k) s) \<lparr> countflag := False \<rparr>)
      else Some (((pulse ^^ lag k) s) \<lparr> countflag := False \<rparr>)) = Some s'"
  show "\<not> (enabled s \<and> load s = 0 \<and> counter s = 0 \<and> \<not> countflag s)"
  proof
    assume "enabled s \<and> load s = 0 \<and> counter s = 0 \<and> \<not> countflag s"
    from idle_pulses [OF this, of "lag k"] r IH [of lag "Suc k" "((pulse ^^ lag k) s) \<lparr> countflag := False \<rparr>" s']
    show False by simp
  qed
qed

lemma timer_run_zero: "timer_run lag 0 s = None"
proof (cases "flag_wait lag 0 (s \<lparr> load := 0, counter := 0, countflag := False, enabled := True \<rparr>)")
  case (Some s')
  from flag_wait_not_idle [OF this] show ?thesis by simp
qed (simp add: timer_run_def Let_def)

section \<open>The running timer\<close>

lemma read_until_least:
  assumes "ok (v (k + n))"
  shows "\<exists>j\<le>n. read_until ok v k = Some (Suc (k + j)) \<and> ok (v (k + j))"
  using assms
proof (induction n arbitrary: k)
  case 0
  then show ?case by (simp add: read_until.simps)
next
  case (Suc n)
  show ?case
  proof (cases "ok (v k)")
    case True
    then show ?thesis by (intro exI [of _ 0]) (simp add: read_until.simps)
  next
    case False
    from Suc.IH [of "Suc k"] Suc.prems obtain j where "j \<le> n" "read_until ok v (Suc k) = Some (Suc (Suc k + j))" "ok (v (Suc k + j))"
      by auto
    with False show ?thesis by (intro exI [of _ "Suc j"]) (simp add: read_until.simps [of ok v k])
  qed
qed

lemma read_until_never:
  assumes "\<forall>k. \<not> ok (v k)"
  shows "read_until ok v k = None"
proof (rule ccontr)
  assume "read_until ok v k \<noteq> None"
  then obtain j where r: "read_until ok v k = Some j" by blast
  have "\<exists>i. ok (v i)"
  proof (rule read_until.raw_induct [OF _ r, where P = "\<lambda>ok v k j. \<exists>i. ok (v i)"])
    fix f :: "(u32 \<Rightarrow> bool) \<Rightarrow> (nat \<Rightarrow> u32) \<Rightarrow> nat \<Rightarrow> nat option" and ok v k j
    assume "\<And>ok v k j. f ok v k = Some j \<Longrightarrow> \<exists>i. ok (v i)" and "(if ok (v k) then Some (Suc k) else f ok v (Suc k)) = Some j"
    then show "\<exists>i. ok (v i)" by (cases "ok (v k)") auto
  qed
  with assms show False by blast
qed

text \<open>The counter of a timer with reload value \<open>l\<close> at the time \<open>t\<close>.\<close>

definition counts_down :: "nat \<Rightarrow> nat \<Rightarrow> u32" where
  "counts_down l t = of_nat (l - t mod (l + 1))"

lemma counts_down_value: "l < 2 ^ 24 \<Longrightarrow> unat (counts_down l t) = l - t mod (l + 1)"
  unfolding counts_down_def by (rule unat_of_nat_u32) simp

lemma later_mod: "t \<le> (t' :: nat) \<Longrightarrow> t' mod n = (t mod n + (t' - t)) mod n"
  by (metis le_add_diff_inverse mod_add_left_eq)

text \<open>From one time to a later one at least as many pulses pass as the counter went down.\<close>

lemma pulses_passed:
  assumes "t \<le> (t' :: nat)"
  shows "t' mod (l + 1) \<le> t mod (l + 1) + (t' - t)"
proof -
  have "t' mod (l + 1) = (t mod (l + 1) + (t' - t)) mod (l + 1)"
    by (rule later_mod [OF assms])
  then show ?thesis by (metis mod_less_eq_dividend)
qed

lemma pulses_passed_over:
  assumes "t \<le> (t' :: nat)" and "t' mod (l + 1) < t mod (l + 1)"
  shows "l + 1 - t mod (l + 1) + t' mod (l + 1) \<le> t' - t"
proof -
  define r where "r = t mod (l + 1)"
  have e: "t' mod (l + 1) = (r + (t' - t)) mod (l + 1)" unfolding r_def by (rule later_mod [OF assms(1)])
  have "l + 1 \<le> r + (t' - t)"
  proof (rule ccontr)
    assume "\<not> ?thesis"
    then have "t' mod (l + 1) = r + (t' - t)" using e by simp
    with assms(2) show False by (simp add: r_def)
  qed
  then have "t' mod (l + 1) \<le> r + (t' - t) - (l + 1)"
    using e by (metis le_mod_geq mod_less_eq_dividend)
  moreover have "r < l + 1" by (simp add: r_def)
  ultimately show ?thesis using \<open>l + 1 \<le> r + _\<close> assms(1) unfolding r_def [symmetric] by linarith
qed

text \<open>The two waits, as the time of the last read.\<close>

lemma delay_in_this_round:
  assumes "t \<le> (t' :: nat)" and "l < 2 ^ 24" and "U \<le> counts_down l t"
    and "\<not> counts_down l t - counts_down l t' < U"
  shows "unat U \<le> t' - t"
proof (cases "t mod (l + 1) \<le> t' mod (l + 1)")
  case True
  then have "counts_down l t' \<le> counts_down l t" by (simp add: word_le_nat_alt counts_down_value [OF assms(2)])
  then have "unat U \<le> unat (counts_down l t) - unat (counts_down l t')"
    using assms(4) by (simp add: word_less_nat_alt unat_diff_le)
  with pulses_passed [OF assms(1), of l] show ?thesis by (simp add: counts_down_value [OF assms(2)])
next
  case False
  from pulses_passed_over [OF assms(1), of l] False assms(3) show ?thesis
    by (simp add: word_le_nat_alt counts_down_value [OF assms(2)])
qed

lemma delay_in_next_round:
  assumes "t \<le> (t1 :: nat)" and "t1 \<le> t'" and "l < 2 ^ 24" and "counts_down l t < U" and "\<not> counts_down l t1 < U"
    and "\<not> of_nat l - counts_down l t' < U - counts_down l t"
  shows "unat U \<le> t' - t"
proof -
  note val = counts_down_value [OF assms(3)]
  have l: "unat (of_nat l :: u32) = l" using assms(3) by (intro unat_of_nat_u32) simp
  have "t1 mod (l + 1) < t mod (l + 1)" using assms(4,5) by (simp add: word_less_nat_alt val)
  from pulses_passed_over [OF assms(1) this] have a: "unat (counts_down l t) + 1 + t1 mod (l + 1) \<le> t1 - t"
    using mod_less_divisor [of "l + 1" t] by (simp only: val) linarith
  have "counts_down l t' \<le> of_nat l" by (simp add: word_le_nat_alt val l)
  moreover have "counts_down l t \<le> U" using assms(4) by (rule order_less_imp_le)
  ultimately have "unat U - unat (counts_down l t) \<le> l - unat (counts_down l t')"
    using assms(6) by (simp add: word_less_nat_alt unat_diff_le l)
  then have "unat U \<le> unat (counts_down l t) + t' mod (l + 1)"
    using mod_less_divisor [of "l + 1" t'] by (simp only: val)
  with a pulses_passed [OF assms(2), of l] assms(1,2) show ?thesis by linarith
qed

section \<open>Properties\<close>

text \<open>
  On the running timer \<open>rt_hw_us_delay\<close> returns, and not before the wanted number of pulses has
  passed since its first read, whenever this number is at most the reload value and its reads, at
  any later and later times, keep on meeting every value of the counter. Asked for more pulses than
  the reload value it never returns.
\<close>

theorem rt_hw_us_delay_waits:
  assumes "\<forall>i j. i \<le> j \<longrightarrow> p i \<le> p j" and "l < 2 ^ 24"
    and "\<forall>k. \<forall>x\<le>l. \<exists>j\<ge>k. unat (counts_down l (p j)) = x"
    and "U = us * (of_nat l div (1000000 div RT_TICK_PER_SECOND))"
  shows "(unat U \<le> l \<longrightarrow> (\<exists>k. rt_hw_us_delay (of_nat l) (\<lambda>k. counts_down l (p k)) us = Some (Suc k) \<and> unat U \<le> p k - p 0))
    \<and> (l < unat U \<longrightarrow> rt_hw_us_delay (of_nat l) (\<lambda>k. counts_down l (p k)) us = None)"
proof (intro conjI impI)
  define v where "v k = counts_down l (p k)" for k
  have lw: "unat (of_nat l :: u32) = l" using assms(2) by (intro unat_of_nat_u32) simp
  have below: "unat (v k) \<le> l" for k unfolding v_def by (simp add: counts_down_value [OF assms(2)])
  have meets: "\<exists>j. unat (v (k + j)) = x" if "x \<le> l" for k x
    using assms(3) that by (metis le_add_diff_inverse v_def)
  have run: "rt_hw_us_delay (of_nat l) v us =
     (if v 0 < U then Option.bind (read_until (\<lambda>x. \<not> x < U) v 1) (\<lambda>k. read_until (\<lambda>x. \<not> of_nat l - x < U - v 0) v k)
      else read_until (\<lambda>x. \<not> v 0 - x < U) v 1)"
    by (simp add: rt_hw_us_delay_def assms(4) Let_def)
  {
    assume U: "unat U \<le> l"
    show "\<exists>k. rt_hw_us_delay (of_nat l) (\<lambda>k. counts_down l (p k)) us = Some (Suc k) \<and> unat U \<le> p k - p 0"
    proof (cases "v 0 < U")
      case True
      obtain i where "unat (v (1 + i)) = l" using meets by blast
      then have "\<not> v (1 + i) < U" using U by (simp add: word_less_nat_alt)
      from read_until_least [where ok = "\<lambda>x. \<not> x < U" and v = v and k = 1 and n = i, OF this] obtain a where
        a: "read_until (\<lambda>x. \<not> x < U) v 1 = Some (Suc (1 + a))" "\<not> v (1 + a) < U" by blast
      obtain j where "unat (v (Suc (1 + a) + j)) = 0" using meets by blast
      then have "v (Suc (1 + a) + j) = 0" by (simp add: unat_eq_0)
      then have "\<not> of_nat l - v (Suc (1 + a) + j) < U - v 0"
        using U True unat_diff_le [of "v 0" U] by (simp add: word_less_nat_alt word_le_nat_alt lw)
      from read_until_least [where ok = "\<lambda>x. \<not> of_nat l - x < U - v 0" and v = v and k = "Suc (1 + a)" and n = j, OF this] obtain b where
        b: "read_until (\<lambda>x. \<not> of_nat l - x < U - v 0) v (Suc (1 + a)) = Some (Suc (Suc (1 + a) + b))"
          "\<not> of_nat l - v (Suc (1 + a) + b) < U - v 0" by blast
      have "unat U \<le> p (Suc (1 + a) + b) - p 0"
        using a(2) b(2) True assms(1,2) unfolding v_def
        by (intro delay_in_next_round [of _ "p (1 + a)" _ l]) auto
      then show ?thesis using run True a(1) b(1) by (auto simp: v_def [abs_def])
    next
      case False
      obtain i where "unat (v (1 + i)) = 0" using meets by blast
      then have "v (1 + i) = 0" by (simp add: unat_eq_0)
      with False have "\<not> v 0 - v (1 + i) < U" by simp
      from read_until_least [where ok = "\<lambda>x. \<not> v 0 - x < U" and v = v and k = 1 and n = i, OF this] obtain a where
        a: "read_until (\<lambda>x. \<not> v 0 - x < U) v 1 = Some (Suc (1 + a))" "\<not> v 0 - v (1 + a) < U" by blast
      have "unat U \<le> p (1 + a) - p 0"
        using a(2) False assms(1,2) unfolding v_def by (intro delay_in_this_round [of _ _ l]) auto
      then show ?thesis using run False a(1) by (auto simp: v_def [abs_def])
    qed
  next
    assume U: "l < unat U"
    then have less: "v k < U" for k using below [of k] by (simp add: word_less_nat_alt)
    then have "read_until (\<lambda>x. \<not> x < U) v 1 = None" by (intro read_until_never) simp
    then show "rt_hw_us_delay (of_nat l) (\<lambda>k. counts_down l (p k)) us = None"
      using run less by (simp add: v_def [abs_def])
  }
qed

text \<open>A timer of 72000 pulses a round that is read at every pulse; 300 microseconds.\<close>

theorem rt_hw_us_delay_waits_witness:
  "\<exists>k. rt_hw_us_delay 71999 (\<lambda>k. counts_down 71999 k) 300 = Some (Suc k) \<and> 300 * 71 \<le> k"
proof -
  have "\<exists>j\<ge>k. unat (counts_down 71999 j) = x" if "x \<le> 71999" for k x :: nat
  proof (intro exI conjI)
    have "((71999 - x) + k * 72000) mod 72000 = 71999 - x" using that by (simp only: mod_mult_self1) simp
    then show "unat (counts_down 71999 ((71999 - x) + k * 72000)) = x"
      using that by (simp add: counts_down_value)
  qed simp
  then show ?thesis
    using rt_hw_us_delay_waits [of "\<lambda>k. k" 71999 _ 300, OF _ _ _ refl] by (simp add: RT_TICK_PER_SECOND_def)
qed

text \<open>
  C35. With the factors \<open>delay_init\<close> computes at 72 MHz, \<open>delay_ms\<close> of 1 to 1864 and \<open>delay_us\<close> of 1 to
  1864135 return, after more than the wanted number of pulses (9000 a millisecond, nine a microsecond)
  and not more than the time between two reads later, and they leave the timer stopped. With the
  factors zero the variables start with, no call returns, whatever the delay.
\<close>

theorem delays_take_their_time:
  assumes "\<forall>k. 0 < lag k \<and> lag k \<le> m"
  shows "(0 < nms \<and> nms \<le> 1864 \<longrightarrow> (\<exists>d'. delay_ms lag nms (delay_init 72000000 d) = Some d'
         \<and> 9000 * unat nms < clock (timer d') - clock (timer d) \<and> clock (timer d') - clock (timer d) \<le> 9000 * unat nms + m
         \<and> \<not> enabled (timer d')))
    \<and> (0 < nus \<and> nus \<le> 1864135 \<longrightarrow> (\<exists>d'. delay_us lag nus (delay_init 72000000 d) = Some d'
         \<and> 9 * unat nus < clock (timer d') - clock (timer d) \<and> clock (timer d') - clock (timer d) \<le> 9 * unat nus + m
         \<and> \<not> enabled (timer d')))
    \<and> (fac_us z = 0 \<and> fac_ms z = 0 \<longrightarrow> delay_ms lag nms z = None \<and> delay_us lag nus z = None)"
proof (intro conjI impI)
  define e where "e = delay_init 72000000 d"
  have e: "fac_us e = 9" "fac_ms e = 9000" "timer e = timer d" by (simp_all add: e_def delay_init_def)
  {
    assume n: "0 < nms \<and> nms \<le> 1864"
    then have u: "unat nms \<le> 1864" "0 < unat nms" by (simp_all add: word_le_nat_alt word_less_nat_alt)
    then have "unat (ucast nms * 9000 :: u32) = 9000 * unat nms" by (simp add: unat_word_ariths)
    then show "\<exists>d'. delay_ms lag nms (delay_init 72000000 d) = Some d'
         \<and> 9000 * unat nms < clock (timer d') - clock (timer d) \<and> clock (timer d') - clock (timer d) \<le> 9000 * unat nms + m
         \<and> \<not> enabled (timer d')"
      using timer_run_returns [OF _ _ assms, of "ucast nms * 9000" "timer d"] u
      by (auto simp: e_def [symmetric] delay_ms_def e word_le_nat_alt word_less_nat_alt)
  next
    assume n: "0 < nus \<and> nus \<le> 1864135"
    then have u: "unat nus \<le> 1864135" "0 < unat nus" by (simp_all add: word_le_nat_alt word_less_nat_alt)
    then have "unat (nus * 9) = 9 * unat nus" by (simp add: unat_word_ariths)
    then show "\<exists>d'. delay_us lag nus (delay_init 72000000 d) = Some d'
         \<and> 9 * unat nus < clock (timer d') - clock (timer d) \<and> clock (timer d') - clock (timer d) \<le> 9 * unat nus + m
         \<and> \<not> enabled (timer d')"
      using timer_run_returns [OF _ _ assms, of "nus * 9" "timer d"] u
      by (auto simp: e_def [symmetric] delay_us_def e word_le_nat_alt word_less_nat_alt)
  }
  assume "fac_us z = 0 \<and> fac_ms z = 0"
  then show "delay_ms lag nms z = None" "delay_us lag nus z = None"
    by (simp_all add: delay_ms_def delay_us_def timer_run_zero)
qed

text \<open>Three milliseconds, read at every second pulse.\<close>

theorem delays_take_their_time_witness:
  "\<exists>d'. delay_ms (\<lambda>k. 2) 3 (delay_init 72000000
       \<lparr> fac_us = 0, fac_ms = 0, timer = \<lparr> load = 71999, counter = 5, enabled = True, countflag = False, clock = 0 \<rparr> \<rparr>) = Some d'
     \<and> 27000 < clock (timer d') \<and> clock (timer d') \<le> 27002"
  using delays_take_their_time [of "\<lambda>k. 2" 2 3
      "\<lparr> fac_us = 0, fac_ms = 0, timer = \<lparr> load = 71999, counter = 5, enabled = True, countflag = False, clock = 0 \<rparr> \<rparr>"]
  by auto

section \<open>The empty loops\<close>

lemma down_to_zero_turns: "down_to_zero n = (if n = 0 then 65536 else unat n)"
proof -
  have pos: "n \<noteq> 0 \<Longrightarrow> down_to_zero n = unat n" for n
  proof (induction n rule: down_to_zero.induct)
    case (1 n)
    have "0 < unat n" using 1(2) by (simp add: unat_gt_0)
    then show ?case
      using 1 by (cases "n = 1") (auto simp: down_to_zero.simps [of n] down_to_zero.simps [of 1] unat_minus_one)
  qed
  have "unat (65535 :: u16) = 65535" "(- 1 :: u16) = 65535" by simp_all
  then have "unat (- 1 :: u16) = 65535" by metis
  then show ?thesis using pos [of "- 1"] by (cases "n = 0") (simp_all add: pos down_to_zero.simps [of 0])
qed

text \<open>
  The 16-bit product wraps: 6553 is the longest delay in step with its argument, 6554 takes four
  turns, and 0 takes 65536.
\<close>

lemma delay_2us_turns:
  "delay_2us n = (if n * 10 = 0 then 65536 else unat (n * 10))"
  "n \<noteq> 0 \<Longrightarrow> unat n \<le> 6553 \<Longrightarrow> delay_2us n = 10 * unat n"
  "delay_2us 6554 = 4" "delay_2us 0 = 65536"
proof -
  show "delay_2us n = (if n * 10 = 0 then 65536 else unat (n * 10))" for n
    by (simp add: delay_2us_def down_to_zero_turns)
  then show "delay_2us 6554 = 4" "delay_2us 0 = 65536" by simp_all
  assume "n \<noteq> 0" "unat n \<le> 6553"
  moreover from this have "unat (n * 10) = 10 * unat n" "0 < unat n" by (simp_all add: unat_word_ariths unat_gt_0)
  ultimately show "delay_2us n = 10 * unat n"
    by (auto simp: delay_2us_def down_to_zero_turns dest: arg_cong [where f = unat])
qed

lemma up_to_turns: "up_to i n = unat n - unat i"
proof (induction i n rule: up_to.induct)
  case (1 i n)
  then show ?case
    by (subst up_to.simps) (auto simp: word_less_nat_alt unat_inc_u16)
qed

lemma each_ms_turns: "each_ms body ms = body * unat ms"
proof (induction body ms rule: each_ms.induct)
  case (1 body ms)
  show ?case
  proof (cases "ms = 0")
    case False
    then have "unat ms = Suc (unat (ms - 1))" using unat_gt_0 [of ms] by (simp add: unat_minus_one)
    with 1 False show ?thesis by (subst each_ms.simps) simp
  qed (simp add: each_ms.simps)
qed

lemma Delay_ms_turns: "Delay_ms ms = 8000 * unat ms"
  by (simp add: Delay_ms_def each_ms_turns up_to_turns)

end
