(* ===== verification/Ds18b20.thy ===== *)
theory Ds18b20
  imports Prelude Complex_Main
begin

text \<open>
  The outdoor temperature sensor on its one-wire line (\<open>applications/bsp_ds18b20.c\<close>). Everything the
  driver does to the pin is a list of events; the sensor is the parameter \<open>chip\<close>, the level it gives
  to a sample after what has happened. The set-up of the pin is in \<open>Pins\<close>, the empty loop
  behind \<open>delayus\<close> in \<open>Delay\<close>: here a pause is its nominal length. The console output is not modelled.
\<close>

datatype dq_event = DQ_OUT bool | IO_OUT | IO_IN | Pause_us nat | DQ_Sample

type_synonym dq_chip = "dq_event list \<Rightarrow> bool"

section \<open>The driver\<close>

definition DQ_IN :: "dq_chip \<Rightarrow> dq_event list \<Rightarrow> bool \<times> dq_event list" where
  "DQ_IN chip h = (chip h, h @ [DQ_Sample])"

definition DS18B20_Rst :: "dq_event list \<Rightarrow> dq_event list" where
  "DS18B20_Rst h = h @ [IO_OUT, DQ_OUT False, Pause_us 750, DQ_OUT True, Pause_us 15]"

text \<open>Waiting while the line has a level, at most \<open>limit\<close> times.\<close>

function while_level :: "dq_chip \<Rightarrow> bool \<Rightarrow> u8 \<Rightarrow> nat \<Rightarrow> u8 \<Rightarrow> dq_event list \<Rightarrow> u8 \<times> dq_event list" where
  "while_level chip level limit pause retry h =
     (case DQ_IN chip h of (d, h) \<Rightarrow>
        if d = level \<and> retry < limit then while_level chip level limit pause (retry + 1) (h @ [Pause_us pause])
        else (retry, h))"
  by pat_completeness auto

termination
  by (relation "measure (\<lambda>(chip, level, limit, pause, retry, h). unat limit - unat retry)")
    (auto simp: word_less_nat_alt unat_inc_u8)

declare while_level.simps [simp del]

definition DS18B20_Check :: "dq_chip \<Rightarrow> dq_event list \<Rightarrow> u8 \<times> dq_event list" where
  "DS18B20_Check chip h =
     (let h = h @ [IO_IN, Pause_us 5];
          (retry, h) = while_level chip True 200 500 0 h
      in if retry \<ge> 200 then (1, h)
         else let (retry, h) = while_level chip False 240 1 0 h
              in if retry \<ge> 240 then (1, h) else (0, h))"

definition DS18B20_Read_Bit :: "dq_chip \<Rightarrow> dq_event list \<Rightarrow> u8 \<times> dq_event list" where
  "DS18B20_Read_Bit chip h =
     (let h = h @ [IO_OUT, DQ_OUT False, Pause_us 2, DQ_OUT True, IO_IN, Pause_us 12];
          (d, h) = DQ_IN chip h
      in (if d then 1 else 0, h @ [Pause_us 50]))"

fun dq_read_bits :: "dq_chip \<Rightarrow> nat \<Rightarrow> u8 \<Rightarrow> dq_event list \<Rightarrow> u8 \<times> dq_event list" where
  "dq_read_bits chip 0 dat h = (dat, h)"
| "dq_read_bits chip (Suc n) dat h =
     (let (j, h) = DS18B20_Read_Bit chip h in dq_read_bits chip n (or (push_bit 7 j) (drop_bit 1 dat)) h)"

definition DS18B20_Read_Byte :: "dq_chip \<Rightarrow> dq_event list \<Rightarrow> u8 \<times> dq_event list" where
  "DS18B20_Read_Byte chip h = dq_read_bits chip 8 0 h"

definition write_slot :: "bool \<Rightarrow> dq_event list" where
  "write_slot testb =
     (if testb then [DQ_OUT False, Pause_us 2, DQ_OUT True, Pause_us 60]
      else [DQ_OUT False, Pause_us 60, DQ_OUT True, Pause_us 2])"

fun dq_write_bits :: "nat \<Rightarrow> u8 \<Rightarrow> dq_event list \<Rightarrow> dq_event list" where
  "dq_write_bits 0 dat h = h"
| "dq_write_bits (Suc n) dat h = dq_write_bits n (drop_bit 1 dat) (h @ write_slot (and dat 0x01 \<noteq> 0))"

definition DS18B20_Write_Byte :: "u8 \<Rightarrow> dq_event list \<Rightarrow> dq_event list" where
  "DS18B20_Write_Byte dat h = dq_write_bits 8 dat (h @ [IO_OUT])"

definition DS18B20_Start :: "dq_chip \<Rightarrow> dq_event list \<Rightarrow> dq_event list" where
  "DS18B20_Start chip h =
     (let h = DS18B20_Rst h; (_, h) = DS18B20_Check chip h; h = DS18B20_Write_Byte 0xcc h
      in DS18B20_Write_Byte 0x44 h)"

definition DS18B20_Init :: "dq_chip \<Rightarrow> dq_event list \<Rightarrow> u8 \<times> dq_event list" where
  "DS18B20_Init chip h = DS18B20_Check chip (DS18B20_Rst (h @ [DQ_OUT False]))"

text \<open>
  The two bytes as degrees: \<open>tem\<close> is a \<open>short\<close>, and its product with \<open>0.0625\<close> and the sum with \<open>0.5\<close>
  are exact in \<open>double\<close> and, being sixteenths below 4096, in \<open>float\<close>.
\<close>

definition tem_value :: "u8 \<Rightarrow> u8 \<Rightarrow> rat" where
  "tem_value TL TH =
     (let (TH, TL, temp) = (if TH > 7 then (not TH, not TL, 0 :: u8) else (TH, TL, 1));
          tem = ucast TH :: 16 word; tem = push_bit 8 tem; tem = tem + ucast TL;
          tem_val = of_int (sint tem) * (1 / 16) + 1 / 2
      in if temp \<noteq> 0 then tem_val else - tem_val)"

definition DS18B20_Get_Temp :: "dq_chip \<Rightarrow> dq_event list \<Rightarrow> rat \<times> dq_event list" where
  "DS18B20_Get_Temp chip h =
     (let h = DS18B20_Start chip h; h = DS18B20_Rst h; (_, h) = DS18B20_Check chip h;
          h = DS18B20_Write_Byte 0xcc h; h = DS18B20_Write_Byte 0xbe h;
          (TL, h) = DS18B20_Read_Byte chip h; (TH, h) = DS18B20_Read_Byte chip h
      in (tem_value TL TH, h))"

fun dq_read_bytes :: "dq_chip \<Rightarrow> nat \<Rightarrow> dq_event list \<Rightarrow> u8 list \<times> dq_event list" where
  "dq_read_bytes chip 0 h = ([], h)"
| "dq_read_bytes chip (Suc n) h =
     (let (b, h) = DS18B20_Read_Byte chip h; (bs, h) = dq_read_bytes chip n h in (b # bs, h))"

text \<open>The serial number that \<open>Read_ROM\<close> prints.\<close>

definition Read_ROM :: "dq_chip \<Rightarrow> dq_event list \<Rightarrow> u8 list \<times> dq_event list" where
  "Read_ROM chip h = dq_read_bytes chip 8 (DS18B20_Write_Byte 0x33 (DS18B20_Rst h @ [Pause_us 1000]))"

section \<open>What the sensor sees\<close>

text \<open>The low pulses on the line: the one that lasts, and the lengths of those that are over.\<close>

definition low_step :: "nat option \<times> nat list \<Rightarrow> dq_event \<Rightarrow> nat option \<times> nat list" where
  "low_step s e =
     (case e of
        DQ_OUT b \<Rightarrow>
          (case fst s of
             None \<Rightarrow> (if b then None else Some 0, snd s)
           | Some d \<Rightarrow> if b then (None, snd s @ [d]) else s)
      | Pause_us n \<Rightarrow> (map_option (\<lambda>d. d + n) (fst s), snd s)
      | _ \<Rightarrow> s)"

definition lows :: "dq_event list \<Rightarrow> nat option \<times> nat list" where
  "lows h = foldl low_step (None, []) h"

text \<open>The pulses since the last one that was long enough for a reset.\<close>

definition since_reset :: "nat list \<Rightarrow> nat list" where
  "since_reset ps = rev (takeWhile (\<lambda>d. d < 480) (rev ps))"

definition slots :: "u8 \<Rightarrow> nat list" where
  "slots b = map (\<lambda>i. if bit b i then 2 else 60) [0..<8]"

text \<open>
  The data sheet: after a reset and the command, short pulses are read slots, in which the sensor
  gives the bits of its memory in order, the lowest bit of each byte first.
\<close>

definition answers :: "dq_chip \<Rightarrow> u8 list \<Rightarrow> u8 list \<Rightarrow> bool" where
  "answers chip command memory \<longleftrightarrow>
     (\<forall>h k. k < 8 * length memory \<longrightarrow> fst (lows h) = None \<longrightarrow>
        since_reset (snd (lows h)) = concat (map slots command) @ replicate (Suc k) 2 \<longrightarrow>
        chip h = bit (memory ! (k div 8)) (k mod 8))"

text \<open>A sensor that does so.\<close>

definition dq_sensor :: "u8 list \<Rightarrow> u8 list \<Rightarrow> dq_chip" where
  "dq_sensor command memory h =
     (let ps = since_reset (snd (lows h)); n = 8 * length command
      in if n < length ps \<and> take n ps = concat (map slots command) \<and> length ps - n \<le> 8 * length memory
         then (let k = length ps - n - 1 in bit (memory ! (k div 8)) (k mod 8)) else True)"

lemma length_slots [simp]: "length (concat (map slots cs)) = 8 * length cs"
  by (induction cs) (simp_all add: slots_def)

lemma dq_sensor_answers: "answers (dq_sensor command memory) command memory"
  by (auto simp: answers_def dq_sensor_def Let_def)

section \<open>What the calls put on the line\<close>

text \<open>Nothing is low, and the pulses are \<open>ps\<close>.\<close>

definition high_after :: "dq_event list \<Rightarrow> nat list \<Rightarrow> bool" where
  "high_after h ps \<longleftrightarrow> lows h = (None, ps)"

lemma lows_append: "lows (h @ es) = foldl low_step (lows h) es"
  by (simp add: lows_def)

lemma high_idle: "high_after h ps \<Longrightarrow> e \<notin> range DQ_OUT \<Longrightarrow> high_after (h @ [e]) ps"
  by (cases e) (auto simp: high_after_def lows_append low_step_def)

lemma high_Rst: "high_after h ps \<Longrightarrow> high_after (DS18B20_Rst h) (ps @ [750])"
  by (simp add: high_after_def DS18B20_Rst_def lows_append low_step_def)

lemma high_while: "high_after h ps \<Longrightarrow> high_after (snd (while_level chip level limit pause retry h)) ps"
proof (induction chip level limit pause retry h rule: while_level.induct)
  case (1 chip level limit pause retry h)
  have h': "high_after (h @ [DQ_Sample]) ps" "high_after ((h @ [DQ_Sample]) @ [Pause_us pause]) ps"
    using "1.prems" by (blast intro: high_idle)+
  show ?case
  proof (cases "chip h = level \<and> retry < limit")
    case True
    from "1.IH" [of "chip h" "h @ [DQ_Sample]", OF _ True] h'(2) True show ?thesis
      by (subst while_level.simps) (simp add: DQ_IN_def)
  next
    case False
    with h'(1) show ?thesis by (subst while_level.simps) (auto simp: DQ_IN_def)
  qed
qed

lemma high_Check:
  assumes "high_after h ps"
  shows "high_after (snd (DS18B20_Check chip h)) ps"
proof -
  have "high_after ((h @ [IO_IN]) @ [Pause_us 5]) ps" using assms by (blast intro: high_idle)
  then show ?thesis by (simp add: DS18B20_Check_def Let_def split_beta high_while)
qed

lemma high_write_bits:
  "high_after h ps \<Longrightarrow> high_after (dq_write_bits n dat h) (ps @ map (\<lambda>i. if bit dat i then 2 else 60) [0..<n])"
proof (induction n arbitrary: dat h ps)
  case (Suc n)
  have "(and dat 1 \<noteq> 0) = bit dat 0" by (simp add: and_one_eq odd_iff_mod_2_eq_one bit_0)
  then have "high_after (h @ write_slot (and dat 1 \<noteq> 0)) (ps @ [if bit dat 0 then 2 else 60])"
    using Suc.prems by (simp add: write_slot_def high_after_def lows_append low_step_def)
  from Suc.IH [OF this, of "drop_bit 1 dat"] show ?case
    by (simp add: upt_conv_Cons map_Suc_upt [symmetric] bit_drop_bit_eq comp_def del: upt_Suc)
qed simp

lemma high_Write_Byte:
  assumes "high_after h ps"
  shows "high_after (DS18B20_Write_Byte dat h) (ps @ slots dat)"
  using high_write_bits [OF high_idle [OF assms, of IO_OUT], of 8 dat]
  by (auto simp: DS18B20_Write_Byte_def slots_def)

lemma high_Read_Bit:
  assumes "high_after h ps"
  shows "high_after (snd (DS18B20_Read_Bit chip h)) (ps @ [2])"
    and "high_after (h @ [IO_OUT, DQ_OUT False, Pause_us 2, DQ_OUT True, IO_IN, Pause_us 12]) (ps @ [2])"
  using assms by (simp_all add: DS18B20_Read_Bit_def DQ_IN_def high_after_def lows_append low_step_def)

text \<open>Eight bits, the lowest first, make their byte.\<close>

lemma lowest_first:
  "foldl (\<lambda>d i. or (push_bit 7 (if bit b i then 1 else 0)) (drop_bit 1 d)) 0 [0..<8] = (b :: u8)"
proof (rule bit_word_eqI)
  have up: "[0..<8] = [0, 1, 2, 3, 4, 5, 6, 7]" by (simp add: upt_rec)
  fix n assume "n < LENGTH(8)"
  then have "n \<in> {0, 1, 2, 3, 4, 5, 6, 7}" by auto
  then show "bit (foldl (\<lambda>d i. or (push_bit 7 (if bit b i then 1 else 0)) (drop_bit 1 d)) (0 :: u8) [0..<8]) n = bit b n"
    unfolding up by (elim insertE emptyE; simp add: bit_simps)
qed

lemma read_bits_answers:
  assumes "answers chip command memory" and "high_after h (ps @ 750 # concat (map slots command) @ replicate k 2)"
    and "k + n \<le> 8 * length memory"
  shows "fst (dq_read_bits chip n dat h)
      = foldl (\<lambda>d i. or (push_bit 7 (if bit (memory ! (i div 8)) (i mod 8) then 1 else 0)) (drop_bit 1 d)) dat [k..<k + n]
    \<and> high_after (snd (dq_read_bits chip n dat h)) (ps @ 750 # concat (map slots command) @ replicate (k + n) 2)"
  using assms(2,3)
proof (induction n arbitrary: dat h k)
  case (Suc n)
  define g where "g = h @ [IO_OUT, DQ_OUT False, Pause_us 2, DQ_OUT True, IO_IN, Pause_us 12]"
  have g: "high_after g (ps @ 750 # concat (map slots command) @ replicate (Suc k) 2)"
    using high_Read_Bit(2) [OF Suc.prems(1)] by (simp add: g_def replicate_append_same)
  have short: "\<forall>d\<in>set (concat (map slots command) @ replicate (Suc k) 2). d < 480"
    by (auto simp: slots_def)
  then have "since_reset (ps @ 750 # concat (map slots command) @ replicate (Suc k) 2)
      = concat (map slots command) @ replicate (Suc k) 2"
    unfolding since_reset_def by (subst rev_append, subst rev.simps(2), subst append_assoc, subst takeWhile_append2) auto
  then have bit: "chip g = bit (memory ! (k div 8)) (k mod 8)"
    using assms(1) [unfolded answers_def, rule_format, of k g] g Suc.prems(2) by (simp add: high_after_def)
  define j h' where "j = fst (DS18B20_Read_Bit chip h)" and "h' = snd (DS18B20_Read_Bit chip h)"
  have j: "j = (if bit (memory ! (k div 8)) (k mod 8) then 1 else 0)"
    using bit by (simp add: j_def DS18B20_Read_Bit_def DQ_IN_def g_def)
  have "high_after h' (ps @ 750 # concat (map slots command) @ replicate (Suc k) 2)"
    using high_Read_Bit(1) [OF Suc.prems(1), of chip] by (simp add: h'_def replicate_append_same)
  from Suc.IH [OF this, of "or (push_bit 7 j) (drop_bit 1 dat)"] Suc.prems(2)
  show ?case by (simp add: split_beta j_def [symmetric] h'_def [symmetric] j upt_conv_Cons del: upt_Suc)
qed simp

lemma read_byte_answers:
  assumes "answers chip command memory" and "high_after h (ps @ 750 # concat (map slots command) @ replicate (8 * i) 2)"
    and "i < length memory"
  shows "fst (DS18B20_Read_Byte chip h) = memory ! i"
    and "high_after (snd (DS18B20_Read_Byte chip h)) (ps @ 750 # concat (map slots command) @ replicate (8 * Suc i) 2)"
proof -
  note r = read_bits_answers [OF assms(1,2), of 8 0]
  have eight: "[8 * i..<8 * i + 8] = map (\<lambda>k. k + 8 * i) [0..<8]" by (simp only: map_add_upt add.commute)
  have "fst (DS18B20_Read_Byte chip h) = foldl (\<lambda>d i. or (push_bit 7 (if bit (memory ! (i div 8)) (i mod 8) then 1 else 0))
      (drop_bit 1 d)) 0 [8 * i..<8 * i + 8]"
    using r assms(3) by (simp add: DS18B20_Read_Byte_def)
  also have "\<dots> = foldl (\<lambda>d k. or (push_bit 7 (if bit (memory ! i) k then 1 else 0)) (drop_bit 1 d)) 0 [0..<8]"
    unfolding eight foldl_map by (rule foldl_cong) auto
  finally have "fst (DS18B20_Read_Byte chip h) =
      foldl (\<lambda>d k. or (push_bit 7 (if bit (memory ! i) k then 1 else 0)) (drop_bit 1 d)) 0 [0..<8]" .
  then show "fst (DS18B20_Read_Byte chip h) = memory ! i" by (simp only: lowest_first)
  show "high_after (snd (DS18B20_Read_Byte chip h)) (ps @ 750 # concat (map slots command) @ replicate (8 * Suc i) 2)"
    using r assms(3) by (simp add: DS18B20_Read_Byte_def algebra_simps)
qed

section \<open>The temperature\<close>

definition tenths_word :: "u8 \<Rightarrow> u8 \<Rightarrow> 16 word" where
  "tenths_word TL TH = push_bit 8 (ucast TH) + ucast TL"

lemma tenths_word_or: "tenths_word TL TH = or (push_bit 8 (ucast TH)) (ucast TL)"
  unfolding tenths_word_def
proof (rule disjunctive_add)
  fix n show "\<not> bit (push_bit 8 (ucast TH) :: 16 word) n \<or> \<not> bit (ucast TL :: 16 word) n"
    using bit_imp_le_length [of TL n] by (auto simp: bit_simps)
qed

lemma tenths_word_not: "tenths_word (not TL) (not TH) = not (tenths_word TL TH)"
  unfolding tenths_word_or
proof (rule bit_word_eqI)
  fix n assume "n < LENGTH(16)"
  then show "bit (or (push_bit 8 (ucast (not TH))) (ucast (not TL)) :: 16 word) n
      = bit (not (or (push_bit 8 (ucast TH)) (ucast TL)) :: 16 word) n"
    using bit_imp_le_length [of TH "n - 8"] bit_imp_le_length [of TL n]
    by (cases "n < 8") (auto simp: bit_simps)
qed

lemma sint_not: "sint (not (w :: 16 word)) = - sint w - 1"
proof -
  have "sint (not w) = not (sint w)" by (rule bit_eqI) (simp add: bit_simps min_def)
  then show ?thesis by (simp add: not_eq_complement)
qed

lemma tem_value_sixteenths:
  assumes "TH \<le> 7 \<or> 0xF8 \<le> TH"
  shows "tem_value TL TH = (if 0 \<le> sint (tenths_word TL TH) then of_int (sint (tenths_word TL TH)) / 16 + 1 / 2
    else (of_int (sint (tenths_word TL TH)) + 1) / 16 - 1 / 2)"
proof -
  have small: "0 \<le> sint (tenths_word b a)" if "a \<le> 7" for a b :: u8
  proof -
    have "bit (tenths_word b a) 15 = bit a 7" using bit_imp_le_length [of b 15] by (auto simp: tenths_word_or bit_simps)
    moreover have "\<not> bit a 7"
    proof -
      have "unat a div 2 ^ 7 = 0" using that by (simp add: word_le_nat_alt)
      then have "\<not> bit (unat a) 7" by (simp add: bit_iff_odd)
      then show ?thesis by (simp add: bit_unsigned_iff)
    qed
    ultimately show ?thesis using bit_last_iff [of "tenths_word b a"] by (simp add: not_less)
  qed
  show ?thesis
  proof (cases "TH \<le> 7")
    case True
    then have "\<not> 7 < TH" by simp
    with small [OF True, of TL] show ?thesis
      by (simp add: tem_value_def Let_def tenths_word_def [symmetric])
  next
    case False
    then have "0xF8 \<le> TH" using assms by simp
    moreover have "unat (not TH) = 255 - unat TH"
    proof -
      have "not TH = 255 - TH" by (simp add: not_eq_complement)
      moreover have "unat (255 - TH) = 255 - unat TH"
      proof -
        have "unat TH < 256" using unsigned_less [of TH] by simp
        moreover have "unat (255 :: u8) = 255" by simp
        ultimately have "TH \<le> 255" unfolding word_le_nat_alt by linarith
        from unat_sub [OF this] show ?thesis by simp
      qed
      ultimately show ?thesis by simp
    qed
    ultimately have "not TH \<le> 7" by (simp add: word_le_nat_alt)
    with small have "0 \<le> sint (tenths_word (not TL) (not TH))" by blast
    then have "sint (tenths_word TL TH) < 0" by (simp add: tenths_word_not sint_not)
    moreover have "7 < TH" using False by simp
    moreover have "(of_int (sint (not (tenths_word TL TH))) :: rat) = - of_int (sint (tenths_word TL TH)) - 1"
      by (simp add: sint_not del: of_int_sint)
    moreover have "tem_value TL TH = - (of_int (sint (tenths_word (not TL) (not TH))) * (1 / 16) + 1 / 2)"
      using \<open>7 < TH\<close> by (simp add: tem_value_def Let_def tenths_word_def)
    ultimately have "tem_value TL TH = - ((- of_int (sint (tenths_word TL TH)) - 1) * (1 / 16) + 1 / 2)"
      unfolding tenths_word_not by simp
    with \<open>sint (tenths_word TL TH) < 0\<close> show ?thesis by (simp add: field_simps del: of_int_sint)
  qed
qed

section \<open>Properties\<close>

text \<open>
  C36. On a line that is high, with any sensor that answers a reset and the commands CC and BE with its
  memory, \<open>DS18B20_Get_Temp\<close> sends a reset and CC 44, then a reset and CC BE, reads sixteen bits, and
  returns, for every reading \<open>r\<close> in sixteenths of a degree its two bytes may hold, half a degree more
  than \<open>r/16\<close> when it is not negative, and seven sixteenths less when it is.
\<close>

theorem DS18B20_Get_Temp_reads:
  assumes "answers chip [0xcc, 0xbe] memory" and "2 \<le> length memory" and "high_after h ps"
    and "memory ! 1 \<le> 7 \<or> 0xF8 \<le> memory ! 1" and "r = sint (tenths_word (memory ! 0) (memory ! 1))"
  shows "fst (DS18B20_Get_Temp chip h) = (if 0 \<le> r then of_int r / 16 + 1 / 2 else of_int r / 16 - 7 / 16)
    \<and> snd (lows (snd (DS18B20_Get_Temp chip h)))
      = ps @ 750 # slots 0xcc @ slots 0x44 @ 750 # slots 0xcc @ slots 0xbe @ replicate 16 2"
proof -
  define a where "a = DS18B20_Start chip h"
  define qs where "qs = ps @ 750 # slots 0xcc @ slots 0x44"
  have a: "high_after a qs"
    using high_Write_Byte [OF high_Write_Byte [OF high_Check [OF high_Rst [OF assms(3)], of chip], of "0xcc"], of "0x44"]
    by (simp add: a_def DS18B20_Start_def Let_def split_beta qs_def)
  define b where "b = DS18B20_Write_Byte 0xbe (DS18B20_Write_Byte 0xcc (snd (DS18B20_Check chip (DS18B20_Rst a))))"
  have b: "high_after b (qs @ 750 # concat (map slots [0xcc, 0xbe]) @ replicate (8 * 0) 2)"
    using high_Write_Byte [OF high_Write_Byte [OF high_Check [OF high_Rst [OF a], of chip], of "0xcc"], of "0xbe"]
    by (simp add: b_def)
  note first = read_byte_answers [OF assms(1) b]
  note second = read_byte_answers [OF assms(1) first(2), folded One_nat_def]
  have two: "0 < length memory" "Suc 0 < length memory" using assms(2) by auto
  have temp: "DS18B20_Get_Temp chip h = (tem_value (memory ! 0) (memory ! 1), snd (DS18B20_Read_Byte chip (snd (DS18B20_Read_Byte chip b))))"
    using first(1) second(1) two
    by (simp add: DS18B20_Get_Temp_def Let_def split_beta a_def [symmetric] b_def [symmetric])
  have "snd (lows (snd (DS18B20_Read_Byte chip (snd (DS18B20_Read_Byte chip b)))))
      = qs @ 750 # concat (map slots [0xcc, 0xbe]) @ replicate 16 2"
    using second(2) two by (simp add: high_after_def)
  then show ?thesis
    unfolding temp fst_conv snd_conv tem_value_sixteenths [OF assms(4)] assms(5)
    by (simp add: qs_def field_simps)
qed

text \<open>Minus ten degrees, FF60, is shown as minus 10.4375.\<close>

theorem DS18B20_Get_Temp_reads_witness:
  "fst (DS18B20_Get_Temp (dq_sensor [0xcc, 0xbe] [0x60, 0xFF]) []) = - 167 / 16"
  using DS18B20_Get_Temp_reads [OF dq_sensor_answers, of "[0x60, 0xFF]" "[]" "[]" "- 160"]
  by (simp add: high_after_def lows_def tenths_word_def)

end
