(* ===== verification/Msg_Queue.thy ===== *)
theory Msg_Queue
  imports Mailbox
begin

text \<open>
  The message queues of the kernel (\<open>rt-thread/src/ipc.c\<close>): blocks in two linked lists, the free
  ones and the queued messages. A call switches the interrupts off twice, and works on a block that
  is in neither list in between; \<open>mq_step\<close> is one step of one thread from one point where another
  may run to the next. A pointer to a block is its number, the header and the data of the blocks are
  functions of it. The assertions on the arguments are not modelled.
\<close>

section \<open>The queue\<close>

record msgqueue =
  mq_msg_size :: u16
  max_msgs :: u16
  mq_entry :: u16
  queue_head :: "nat option"
  queue_tail :: "nat option"
  queue_free :: "nat option"
  mq_waiting :: "nat list"                \<comment> \<open>threads suspended in \<open>rt_mq_recv\<close>\<close>
  next_of :: "nat \<Rightarrow> nat option"
  data_of :: "nat \<Rightarrow> u8 list"

text \<open>\<open>rt_memcpy\<close> of \<open>n\<close> bytes of \<open>src\<close> to the beginning of \<open>dst\<close>.\<close>

definition memcpy :: "u8 list \<Rightarrow> u8 list \<Rightarrow> nat \<Rightarrow> u8 list" where
  "memcpy dst src n = take n src @ drop n dst"

text \<open>The loop that chains the blocks, from block \<open>i\<close> on, \<open>n\<close> of them.\<close>

fun chain_blocks :: "nat \<Rightarrow> nat \<Rightarrow> msgqueue \<Rightarrow> msgqueue" where
  "chain_blocks 0 i mq = mq"
| "chain_blocks (Suc n) i mq =
     chain_blocks n (Suc i) (mq \<lparr> next_of := (next_of mq)(i := queue_free mq), queue_free := Some i \<rparr>)"

definition RT_ALIGN4 :: "u32 \<Rightarrow> u32" where "RT_ALIGN4 n = and (n + 3) (not 3)"

definition rt_mq_init :: "(nat \<Rightarrow> nat option) \<Rightarrow> (nat \<Rightarrow> u8 list) \<Rightarrow> u32 \<Rightarrow> u32 \<Rightarrow> msgqueue" where
  "rt_mq_init headers data msg_size pool_size =
     (let sz = ucast (RT_ALIGN4 msg_size) :: u16; n = ucast (pool_size div (ucast sz + 4)) :: u16
      in chain_blocks (unat n) 0
           \<lparr> mq_msg_size = sz, max_msgs = n, mq_entry = 0, queue_head = None, queue_tail = None,
             queue_free = None, mq_waiting = [], next_of = headers, data_of = data \<rparr>)"

section \<open>The parts of the calls\<close>

text \<open>The check of the size and the block taken from the free list.\<close>

definition mq_claim :: "u8 list \<Rightarrow> msgqueue \<Rightarrow> mb_status + nat \<times> msgqueue" where
  "mq_claim buffer mq =
     (if unat (mq_msg_size mq) < length buffer then Inl RT_ERROR
      else case queue_free mq of None \<Rightarrow> Inl RT_EFULL
        | Some b \<Rightarrow> Inr (b, mq \<lparr> queue_free := next_of mq b \<rparr>))"

definition mq_fill :: "bool \<Rightarrow> nat \<Rightarrow> u8 list \<Rightarrow> msgqueue \<Rightarrow> msgqueue" where
  "mq_fill urgent b buffer mq =
     (let mq = (if urgent then mq else mq \<lparr> next_of := (next_of mq)(b := None) \<rparr>)
      in mq \<lparr> data_of := (data_of mq)(b := memcpy (data_of mq b) buffer (length buffer)) \<rparr>)"

text \<open>The first suspended thread is resumed.\<close>

definition mq_resume :: "msgqueue \<Rightarrow> nat option \<times> msgqueue" where
  "mq_resume mq = (case mq_waiting mq of [] \<Rightarrow> (None, mq) | t # ts \<Rightarrow> (Some t, mq \<lparr> mq_waiting := ts \<rparr>))"

definition mq_link :: "bool \<Rightarrow> nat \<Rightarrow> msgqueue \<Rightarrow> nat option \<times> msgqueue" where
  "mq_link urgent b mq =
     (if urgent then
        let mq = mq \<lparr> next_of := (next_of mq)(b := queue_head mq) \<rparr>;
            mq = mq \<lparr> queue_head := Some b \<rparr>;
            mq = (if queue_tail mq = None then mq \<lparr> queue_tail := Some b \<rparr> else mq)
        in mq_resume (mq \<lparr> mq_entry := mq_entry mq + 1 \<rparr>)
      else
        let mq = (case queue_tail mq of None \<Rightarrow> mq | Some t \<Rightarrow> mq \<lparr> next_of := (next_of mq)(t := Some b) \<rparr>);
            mq = mq \<lparr> queue_tail := Some b \<rparr>;
            mq = (if queue_head mq = None then mq \<lparr> queue_head := Some b \<rparr> else mq)
        in mq_resume (mq \<lparr> mq_entry := mq_entry mq + 1 \<rparr>))"

text \<open>The first message taken from the queue; with no first block the code reads through a null pointer.\<close>

definition mq_unlink :: "msgqueue \<Rightarrow> (nat \<times> msgqueue) cres" where
  "mq_unlink mq =
     (case queue_head mq of None \<Rightarrow> Fault
      | Some b \<Rightarrow>
          let mq = mq \<lparr> queue_head := next_of mq b \<rparr>;
              mq = (if queue_tail mq = Some b then mq \<lparr> queue_tail := None \<rparr> else mq)
          in Ret (b, mq \<lparr> mq_entry := mq_entry mq - 1 \<rparr>))"

definition mq_copy :: "nat \<Rightarrow> nat \<Rightarrow> msgqueue \<Rightarrow> u8 list" where
  "mq_copy b n mq = take (if unat (mq_msg_size mq) < n then unat (mq_msg_size mq) else n) (data_of mq b)"

definition mq_give_back :: "nat \<Rightarrow> msgqueue \<Rightarrow> msgqueue" where
  "mq_give_back b mq =
     (let mq = mq \<lparr> next_of := (next_of mq)(b := queue_free mq) \<rparr> in mq \<lparr> queue_free := Some b \<rparr>)"

section \<open>The calls\<close>

definition mq_send :: "bool \<Rightarrow> u8 list \<Rightarrow> msgqueue \<Rightarrow> mb_status \<times> nat option \<times> msgqueue" where
  "mq_send urgent buffer mq =
     (case mq_claim buffer mq of Inl e \<Rightarrow> (e, None, mq)
      | Inr (b, mq) \<Rightarrow> let (t, mq) = mq_link urgent b (mq_fill urgent b buffer mq) in (RT_EOK, t, mq))"

definition rt_mq_send :: "u8 list \<Rightarrow> msgqueue \<Rightarrow> mb_status \<times> nat option \<times> msgqueue" where
  "rt_mq_send = mq_send False"

definition rt_mq_urgent :: "u8 list \<Rightarrow> msgqueue \<Rightarrow> mb_status \<times> nat option \<times> msgqueue" where
  "rt_mq_urgent = mq_send True"

definition rt_mq_recv :: "nat \<Rightarrow> nat \<Rightarrow> bool \<Rightarrow> msgqueue \<Rightarrow> (mb_status \<times> u8 list \<times> msgqueue) cres" where
  "rt_mq_recv self n wait mq =
     (if mq_entry mq = 0 \<and> \<not> wait then Ret (RT_ETIMEOUT, [], mq)
      else if mq_entry mq = 0 then Ret (Suspended, [], mq \<lparr> mq_waiting := mq_waiting mq @ [self] \<rparr>)
      else cbind (mq_unlink mq) (\<lambda>(b, mq). Ret (RT_EOK, mq_copy b n mq, mq_give_back b mq)))"

section \<open>Threads at the queue\<close>

text \<open>
  Where a thread stands: outside the calls; in a send, with a block and before it has copied its
  message, or before it links the block; at the head of the loop of a receive; suspended; in a receive
  with the first block, before it has copied the message, or before it gives the block back.
\<close>

datatype mq_at = Idle | Claimed bool nat "u8 list" | Filled bool nat "u8 list"
  | Wanting nat | Asleep nat | Taken nat nat | Copied nat

record mq_sys =
  kq :: msgqueue
  at :: "nat \<Rightarrow> mq_at"

datatype mq_event = Quiet | Refused nat "u8 list" mb_status | Put nat "u8 list" | Urge nat "u8 list"
  | Take nat | Give nat "u8 list"

definition wake :: "nat option \<Rightarrow> (nat \<Rightarrow> mq_at) \<Rightarrow> nat \<Rightarrow> mq_at" where
  "wake woken f = (case woken of None \<Rightarrow> f
     | Some t \<Rightarrow> (case f t of Asleep n \<Rightarrow> f(t := Wanting n) | _ \<Rightarrow> f))"

inductive mq_step :: "mq_sys \<Rightarrow> mq_event \<Rightarrow> mq_sys \<Rightarrow> bool" where
  claim: "at s t = Idle \<Longrightarrow> mq_claim m (kq s) = Inr (b, mq) \<Longrightarrow>
    mq_step s Quiet (s \<lparr> kq := mq, at := (at s)(t := Claimed urgent b m) \<rparr>)"
| refuse: "at s t = Idle \<Longrightarrow> mq_claim m (kq s) = Inl e \<Longrightarrow> mq_step s (Refused t m e) s"
| fill: "at s t = Claimed urgent b m \<Longrightarrow>
    mq_step s Quiet (s \<lparr> kq := mq_fill urgent b m (kq s), at := (at s)(t := Filled urgent b m) \<rparr>)"
| link: "at s t = Filled urgent b m \<Longrightarrow> mq_link urgent b (kq s) = (woken, mq) \<Longrightarrow>
    mq_step s (if urgent then Urge t m else Put t m)
      (s \<lparr> kq := mq, at := wake woken ((at s)(t := Idle)) \<rparr>)"
| want: "at s t = Idle \<Longrightarrow> mq_step s Quiet (s \<lparr> at := (at s)(t := Wanting n) \<rparr>)"
| fall_asleep: "at s t = Wanting n \<Longrightarrow> mq_entry (kq s) = 0 \<Longrightarrow>
    mq_step s Quiet (s \<lparr> kq := (kq s) \<lparr> mq_waiting := mq_waiting (kq s) @ [t] \<rparr>, at := (at s)(t := Asleep n) \<rparr>)"
| time_out: "at s t = Asleep n \<Longrightarrow>
    mq_step s Quiet (s \<lparr> kq := (kq s) \<lparr> mq_waiting := remove1 t (mq_waiting (kq s)) \<rparr>, at := (at s)(t := Idle) \<rparr>)"
| give_up: "at s t = Wanting n \<Longrightarrow> mq_entry (kq s) = 0 \<Longrightarrow> mq_step s Quiet (s \<lparr> at := (at s)(t := Idle) \<rparr>)"
| unlink: "at s t = Wanting n \<Longrightarrow> mq_entry (kq s) \<noteq> 0 \<Longrightarrow> mq_unlink (kq s) = Ret (b, mq) \<Longrightarrow>
    mq_step s (Take t) (s \<lparr> kq := mq, at := (at s)(t := Taken b n) \<rparr>)"
| copy: "at s t = Taken b n \<Longrightarrow>
    mq_step s (Give t (mq_copy b n (kq s))) (s \<lparr> at := (at s)(t := Copied b) \<rparr>)"
| give_back: "at s t = Copied b \<Longrightarrow>
    mq_step s Quiet (s \<lparr> kq := mq_give_back b (kq s), at := (at s)(t := Idle) \<rparr>)"

inductive mq_trace :: "mq_sys \<Rightarrow> mq_event list \<Rightarrow> mq_sys \<Rightarrow> bool" for s0 where
  start: "mq_trace s0 [] s0"
| snoc: "mq_trace s0 es s \<Longrightarrow> mq_step s e s' \<Longrightarrow> mq_trace s0 (es @ [e]) s'"

text \<open>All threads outside the calls, the queue just initialised.\<close>

definition mq_begin :: "msgqueue \<Rightarrow> mq_sys" where "mq_begin mq = \<lparr> kq = mq, at = \<lambda>_. Idle \<rparr>"

section \<open>What is promised\<close>

text \<open>
  A queue of whole messages, and the message each thread has taken and not yet got. A received block is
  the message as far as it reaches: both are cut to the shorter of the two.
\<close>

type_synonym mq_spec = "u8 list list \<times> (nat \<Rightarrow> u8 list option)"

fun spec_step :: "mq_event \<Rightarrow> mq_spec \<Rightarrow> mq_spec option" where
  "spec_step Quiet (q, h) = Some (q, h)"
| "spec_step (Refused t m e) (q, h) = Some (q, h)"
| "spec_step (Put t m) (q, h) = Some (q @ [m], h)"
| "spec_step (Urge t m) (q, h) = Some (m # q, h)"
| "spec_step (Take t) (q, h) =
     (case q of [] \<Rightarrow> None | m # q \<Rightarrow> if h t = None then Some (q, h(t := Some m)) else None)"
| "spec_step (Give t bs) (q, h) =
     (case h t of None \<Rightarrow> None
      | Some m \<Rightarrow> if take (length m) bs = take (length bs) m then Some (q, h(t := None)) else None)"

fun spec_run :: "mq_event list \<Rightarrow> mq_spec \<Rightarrow> mq_spec option" where
  "spec_run [] x = Some x"
| "spec_run (e # es) x = Option.bind (spec_step e x) (spec_run es)"

lemma spec_run_snoc: "spec_run (es @ [e]) x = Option.bind (spec_run es x) (spec_step e)"
proof (induction es arbitrary: x)
  case Nil
  then show ?case by (cases "spec_step e x") simp_all
next
  case (Cons a es)
  then show ?case by (cases "spec_step a x") simp_all
qed

section \<open>The two lists\<close>

fun block_chain :: "(nat \<Rightarrow> nat option) \<Rightarrow> nat option \<Rightarrow> nat list \<Rightarrow> bool" where
  "block_chain nx p [] = (p = None)"
| "block_chain nx p (b # bs) = (p = Some b \<and> block_chain nx (nx b) bs)"

lemma chain_outside [simp]: "b \<notin> set bs \<Longrightarrow> block_chain (nx(b := x)) p bs = block_chain nx p bs"
  by (induction bs arbitrary: p) auto

lemma chain_None [simp]: "block_chain nx None bs = (bs = [])"
  by (cases bs) auto

lemma chain_Some: "block_chain nx (Some b) bs = (\<exists>cs. bs = b # cs \<and> block_chain nx (nx b) cs)"
  by (cases bs) auto

lemma chain_snoc:
  "block_chain nx p bs \<Longrightarrow> bs \<noteq> [] \<Longrightarrow> distinct bs \<Longrightarrow> c \<notin> set bs \<Longrightarrow> nx c = None \<Longrightarrow>
     block_chain (nx(last bs := Some c)) p (bs @ [c])"
proof (induction bs arbitrary: p)
  case (Cons b bs)
  then show ?case by (cases bs) auto
qed simp

definition mq_wf :: "msgqueue \<Rightarrow> nat list \<Rightarrow> nat list \<Rightarrow> bool" where
  "mq_wf mq fs qs \<longleftrightarrow> block_chain (next_of mq) (queue_free mq) fs \<and> block_chain (next_of mq) (queue_head mq) qs
     \<and> queue_tail mq = (if qs = [] then None else Some (last qs)) \<and> unat (mq_entry mq) = length qs
     \<and> distinct (fs @ qs) \<and> set (fs @ qs) \<subseteq> {..<unat (max_msgs mq)}
     \<and> (\<forall>b<unat (max_msgs mq). length (data_of mq b) = unat (mq_msg_size mq))"

lemma claim_wf:
  assumes "mq_claim m mq = Inr (b, mq')" and "mq_wf mq fs qs"
  shows "\<exists>fs'. fs = b # fs' \<and> mq_wf mq' fs' qs \<and> length m \<le> unat (mq_msg_size mq) \<and> mq' = mq \<lparr> queue_free := next_of mq b \<rparr>"
  using assms by (auto simp: mq_claim_def mq_wf_def chain_Some split: if_splits option.splits)

lemma fill_wf:
  assumes "mq_wf mq fs qs" and "b < unat (max_msgs mq)" and "b \<notin> set fs \<union> set qs" and "length m \<le> unat (mq_msg_size mq)"
  shows "mq_wf (mq_fill u b m mq) fs qs"
  using assms by (auto simp: mq_wf_def mq_fill_def Let_def memcpy_def)

lemma resume_wf [simp]: "mq_wf (snd (mq_resume mq)) fs qs = mq_wf mq fs qs"
  by (auto simp: mq_resume_def mq_wf_def split: list.split)

lemma resume_at [simp]:
  "fst (mq_resume mq) = (case mq_waiting mq of [] \<Rightarrow> None | t # ts \<Rightarrow> Some t)"
  "mq_waiting (snd (mq_resume mq)) = tl (mq_waiting mq)"
  "max_msgs (snd (mq_resume mq)) = max_msgs mq" "mq_msg_size (snd (mq_resume mq)) = mq_msg_size mq"
  "data_of (snd (mq_resume mq)) = data_of mq" "mq_entry (snd (mq_resume mq)) = mq_entry mq"
  by (simp_all add: mq_resume_def split: list.split)

lemma room_for_one:
  assumes "distinct qs" and "set qs \<subseteq> {..<unat (n :: u16)}" and "b < unat n" and "b \<notin> set qs"
  shows "Suc (length qs) < 65536"
proof -
  have "card (set (b # qs)) \<le> card {..<unat n}" using assms by (intro card_mono) auto
  then have "Suc (length qs) \<le> unat n" using assms by (simp add: distinct_card)
  then show ?thesis using unat_u16_lt [of n] by linarith
qed

lemma link_wf:
  assumes "mq_wf mq fs qs" and "b < unat (max_msgs mq)" and "b \<notin> set fs \<union> set qs" and "\<not> u \<longrightarrow> next_of mq b = None"
    and "mq_link u b mq = (w, mq')"
  shows "mq_wf mq' fs (if u then b # qs else qs @ [b])" "data_of mq' = data_of mq" "max_msgs mq' = max_msgs mq"
    "mq_msg_size mq' = mq_msg_size mq" "mq_waiting mq' = tl (mq_waiting mq)"
    "w = (case mq_waiting mq of [] \<Rightarrow> None | t # ts \<Rightarrow> Some t)" "unat (mq_entry mq') = Suc (unat (mq_entry mq))"
proof -
  have "Suc (unat (mq_entry mq)) < 65536"
    using room_for_one [of qs "max_msgs mq" b] assms(1-3) by (auto simp: mq_wf_def)
  then have e: "unat (mq_entry mq + 1) = Suc (unat (mq_entry mq))" by (simp add: unat_suc_u16)
  define mq1 where "mq1 = (if u then
        mq \<lparr> next_of := (next_of mq)(b := queue_head mq), queue_head := Some b,
             queue_tail := (if queue_tail mq = None then Some b else queue_tail mq), mq_entry := mq_entry mq + 1 \<rparr>
      else mq \<lparr> next_of := (case queue_tail mq of None \<Rightarrow> next_of mq | Some t \<Rightarrow> (next_of mq)(t := Some b)),
             queue_tail := Some b,
             queue_head := (if queue_head mq = None then Some b else queue_head mq), mq_entry := mq_entry mq + 1 \<rparr>)"
  have run: "mq_link u b mq = mq_resume mq1" by (auto simp: mq_link_def mq1_def Let_def split: option.splits)
  have "mq_wf mq1 fs (if u then b # qs else qs @ [b])"
  proof (cases u)
    case True
    then show ?thesis using assms(1-3) e by (auto simp: mq_wf_def mq1_def)
  next
    case False
    show ?thesis
    proof (cases "qs = []")
      case True
      then show ?thesis using False assms(1-4) e by (auto simp: mq_wf_def mq1_def)
    next
      case ne: False
      then have "last qs \<notin> set fs" "last qs \<in> set qs" using assms(1) by (auto simp: mq_wf_def dest: last_in_set)
      moreover from this have "last qs \<noteq> b" using assms(3) by auto
      moreover have "queue_head mq \<noteq> None" using ne assms(1) by (auto simp: mq_wf_def)
      ultimately show ?thesis
        using ne False assms(1-4) e chain_snoc [of "next_of mq" "queue_head mq" qs b]
        by (auto simp: mq_wf_def mq1_def)
    qed
  qed
  moreover have "data_of mq1 = data_of mq" "max_msgs mq1 = max_msgs mq" "mq_msg_size mq1 = mq_msg_size mq"
    "mq_waiting mq1 = mq_waiting mq" "mq_entry mq1 = mq_entry mq + 1" by (simp_all add: mq1_def)
  moreover have "mq' = snd (mq_resume mq1)" "w = fst (mq_resume mq1)" using assms(5) run by simp_all
  ultimately show "mq_wf mq' fs (if u then b # qs else qs @ [b])" "data_of mq' = data_of mq" "max_msgs mq' = max_msgs mq"
    "mq_msg_size mq' = mq_msg_size mq" "mq_waiting mq' = tl (mq_waiting mq)"
    "w = (case mq_waiting mq of [] \<Rightarrow> None | t # ts \<Rightarrow> Some t)" "unat (mq_entry mq') = Suc (unat (mq_entry mq))"
    using e by simp_all
qed

lemma unlink_wf:
  assumes "mq_wf mq fs qs" and "mq_entry mq \<noteq> 0"
  shows "\<exists>b qs' mq'. qs = b # qs' \<and> mq_unlink mq = Ret (b, mq') \<and> mq_wf mq' fs qs'
    \<and> data_of mq' = data_of mq \<and> max_msgs mq' = max_msgs mq \<and> mq_msg_size mq' = mq_msg_size mq
    \<and> mq_waiting mq' = mq_waiting mq \<and> Suc (unat (mq_entry mq')) = unat (mq_entry mq)"
proof -
  have "0 < unat (mq_entry mq)" using assms(2) by (simp add: unat_gt_0)
  then obtain b qs' where q: "qs = b # qs'" using assms(1) by (cases qs) (auto simp: mq_wf_def)
  moreover have "Suc (unat (mq_entry mq - 1)) = unat (mq_entry mq)" using assms(2) by (simp add: unat_minus_one \<open>0 < unat (mq_entry mq)\<close>)
  moreover have "last qs' \<noteq> b" if "qs' \<noteq> []" using assms(1) q last_in_set [OF that] by (auto simp: mq_wf_def)
  ultimately show ?thesis using assms(1) by (auto simp: mq_unlink_def mq_wf_def Let_def)
qed

lemma give_back_wf:
  assumes "mq_wf mq fs qs" and "b < unat (max_msgs mq)" and "b \<notin> set fs \<union> set qs"
  shows "mq_wf (mq_give_back b mq) (b # fs) qs"
  using assms by (auto simp: mq_wf_def mq_give_back_def Let_def)

text \<open>The loop of the initialisation chains the blocks backwards.\<close>

lemma chain_blocks_keeps [simp]:
  "queue_head (chain_blocks n i mq) = queue_head mq" "queue_tail (chain_blocks n i mq) = queue_tail mq"
  "mq_entry (chain_blocks n i mq) = mq_entry mq" "max_msgs (chain_blocks n i mq) = max_msgs mq"
  "mq_msg_size (chain_blocks n i mq) = mq_msg_size mq" "data_of (chain_blocks n i mq) = data_of mq"
  "mq_waiting (chain_blocks n i mq) = mq_waiting mq"
  by (induction n arbitrary: i mq) simp_all

lemma chain_blocks_chains:
  assumes "block_chain (next_of mq) (queue_free mq) fs" and "set fs = {..<i}" and "distinct fs"
  shows "\<exists>fs'. block_chain (next_of (chain_blocks n i mq)) (queue_free (chain_blocks n i mq)) fs'
    \<and> set fs' = {..<i + n} \<and> distinct fs'"
  using assms
proof (induction n arbitrary: i mq fs)
  case 0
  then show ?case by auto
next
  case (Suc n)
  define mq1 where "mq1 = mq \<lparr> next_of := (next_of mq)(i := queue_free mq), queue_free := Some i \<rparr>"
  have "set (i # fs) = {..<Suc i}" unfolding list.set Suc.prems(2) by (rule lessThan_Suc [symmetric])
  moreover have "block_chain (next_of mq1) (queue_free mq1) (i # fs)" "distinct (i # fs)"
    using Suc.prems by (simp_all add: mq1_def)
  ultimately have "\<exists>fs'. block_chain (next_of (chain_blocks n (Suc i) mq1)) (queue_free (chain_blocks n (Suc i) mq1)) fs'
    \<and> set fs' = {..<Suc i + n} \<and> distinct fs'" using Suc.IH by blast
  then show ?case by (simp add: mq1_def)
qed

lemma init_wf:
  assumes "\<forall>b. length (mem b) = unat (mq_msg_size (rt_mq_init hs mem sz pool))"
  shows "\<exists>fs. mq_wf (rt_mq_init hs mem sz pool) fs [] \<and> set fs = {..<unat (max_msgs (rt_mq_init hs mem sz pool))}
    \<and> mq_waiting (rt_mq_init hs mem sz pool) = [] \<and> data_of (rt_mq_init hs mem sz pool) = mem"
proof -
  define z where "z = (ucast (RT_ALIGN4 sz) :: u16)"
  define n where "n = (ucast (pool div (ucast z + 4)) :: u16)"
  define mq0 where "mq0 = \<lparr> mq_msg_size = z, max_msgs = n, mq_entry = 0, queue_head = None, queue_tail = None,
             queue_free = None, mq_waiting = [], next_of = hs, data_of = mem \<rparr>"
  have run: "rt_mq_init hs mem sz pool = chain_blocks (unat n) 0 mq0" by (simp add: rt_mq_init_def Let_def z_def n_def mq0_def)
  have "block_chain (next_of mq0) (queue_free mq0) []" "set [] = {..<(0 :: nat)}" "distinct ([] :: nat list)" by (simp_all add: mq0_def)
  from chain_blocks_chains [OF this, of "unat n"] obtain fs where
    c: "block_chain (next_of (chain_blocks (unat n) 0 mq0)) (queue_free (chain_blocks (unat n) 0 mq0)) fs"
      "set fs = {..<unat n}" "distinct fs" by auto
  have "mq_wf (chain_blocks (unat n) 0 mq0) fs []"
    using c assms unfolding run mq_wf_def by (simp add: mq0_def)
  then show ?thesis using c(2) unfolding run by (auto simp: mq0_def)
qed

section \<open>The invariant\<close>

text \<open>The block a thread has in hand; every block is in one list or in the hands of one thread.\<close>

fun held :: "mq_at \<Rightarrow> nat option" where
  "held (Claimed u b m) = Some b"
| "held (Filled u b m) = Some b"
| "held (Taken b n) = Some b"
| "held (Copied b) = Some b"
| "held Idle = None"
| "held (Wanting n) = None"
| "held (Asleep n) = None"

definition owned :: "nat \<Rightarrow> nat set \<Rightarrow> (nat \<Rightarrow> nat option) \<Rightarrow> bool" where
  "owned n S f \<longleftrightarrow> (\<forall>t b. f t = Some b \<longrightarrow> b < n \<and> b \<notin> S) \<and> (\<forall>t u b. f t = Some b \<longrightarrow> f u = Some b \<longrightarrow> t = u)
     \<and> (\<forall>b<n. b \<in> S \<or> (\<exists>t. f t = Some b))"

lemma ownedD: "owned n S f \<Longrightarrow> f t = Some b \<Longrightarrow> b < n \<and> b \<notin> S"
  "owned n S f \<Longrightarrow> f t = Some b \<Longrightarrow> f u = Some b \<Longrightarrow> t = u"
  unfolding owned_def by blast+

lemma owned_take: "owned n (insert b S) f \<Longrightarrow> b < n \<Longrightarrow> b \<notin> S \<Longrightarrow> f t = None \<Longrightarrow> owned n S (f(t := Some b))"
  unfolding owned_def by (auto split: if_splits) (metis option.distinct(1))

lemma owned_give: "owned n S f \<Longrightarrow> f t = Some b \<Longrightarrow> owned n (insert b S) (f(t := None))"
  unfolding owned_def by (auto split: if_splits) (metis option.inject)+

lemma owned_same: "owned n S f \<Longrightarrow> f t = x \<Longrightarrow> owned n S (f(t := x))"
  by (simp add: fun_upd_idem)

definition in_hand :: "(nat \<Rightarrow> mq_at) \<Rightarrow> nat \<Rightarrow> nat option" where
  "in_hand f t = held (f t)"

lemma in_hand_upd [simp]: "in_hand (f(t := x)) = (in_hand f)(t := held x)"
  by (auto simp: in_hand_def)

lemma in_hand_same: "in_hand f t = y \<Longrightarrow> (in_hand f)(t := y) = in_hand f"
  by (rule fun_upd_idem)

lemma in_hand_wake [simp]: "in_hand (wake w f) = in_hand f"
  by (auto simp: wake_def in_hand_def split: option.splits mq_at.splits)

lemma wake_other: "wake w f t = x \<Longrightarrow> held x \<noteq> None \<Longrightarrow> f t = x"
  by (auto simp: wake_def split: option.splits mq_at.splits if_splits)

lemma wake_keeps: "f t = x \<Longrightarrow> held x \<noteq> None \<Longrightarrow> wake w f t = x"
  by (auto simp: wake_def split: option.splits mq_at.splits if_splits)

text \<open>A block that begins with a message; what the threads in a send rely on.\<close>

definition starts :: "u8 list \<Rightarrow> u8 list \<Rightarrow> bool" where
  "starts d m \<longleftrightarrow> length m \<le> length d \<and> take (length m) d = m"

definition sending :: "msgqueue \<Rightarrow> (nat \<Rightarrow> mq_at) \<Rightarrow> bool" where
  "sending mq f \<longleftrightarrow> (\<forall>t u b m. f t = Claimed u b m \<longrightarrow> length m \<le> unat (mq_msg_size mq))
     \<and> (\<forall>t u b m. f t = Filled u b m \<longrightarrow> starts (data_of mq b) m \<and> (\<not> u \<longrightarrow> next_of mq b = None))"

text \<open>The promise: the queued blocks begin with the promised messages, and so does a taken block.\<close>

definition promised :: "(nat \<Rightarrow> u8 list) \<Rightarrow> (nat \<Rightarrow> mq_at) \<Rightarrow> nat list \<Rightarrow> mq_spec \<Rightarrow> bool" where
  "promised d f qs x \<longleftrightarrow> list_all2 (\<lambda>b m. starts (d b) m) qs (fst x)
     \<and> (\<forall>t b n. f t = Taken b n \<longrightarrow> (\<exists>m. snd x t = Some m \<and> starts (d b) m))
     \<and> (\<forall>t. (\<forall>b n. f t \<noteq> Taken b n) \<longrightarrow> snd x t = None)"

definition blocks_ok :: "mq_sys \<Rightarrow> nat list \<Rightarrow> nat list \<Rightarrow> mq_spec \<Rightarrow> bool" where
  "blocks_ok s fs qs x \<longleftrightarrow> mq_wf (kq s) fs qs
     \<and> owned (unat (max_msgs (kq s))) (set fs \<union> set qs) (in_hand (at s))
     \<and> sending (kq s) (at s) \<and> promised (data_of (kq s)) (at s) qs x"

text \<open>Writing a block that is in no list and in no other hand disturbs nobody.\<close>

lemma promised_cong:
  "promised d f qs x \<Longrightarrow> (\<And>b. b \<in> set qs \<Longrightarrow> d' b = d b) \<Longrightarrow> (\<And>t b n. g t = Taken b n \<longleftrightarrow> f t = Taken b n)
     \<Longrightarrow> (\<And>t b n. f t = Taken b n \<Longrightarrow> d' b = d b) \<Longrightarrow> promised d' g qs x"
  unfolding promised_def by (auto simp: list_all2_conv_all_nth)

lemma mq_fill_at [simp]:
  "max_msgs (mq_fill u b m mq) = max_msgs mq" "mq_msg_size (mq_fill u b m mq) = mq_msg_size mq"
  "mq_waiting (mq_fill u b m mq) = mq_waiting mq" "mq_entry (mq_fill u b m mq) = mq_entry mq"
  "data_of (mq_fill u b m mq) = (data_of mq)(b := memcpy (data_of mq b) m (length m))"
  "next_of (mq_fill u b m mq) = (if u then next_of mq else (next_of mq)(b := None))"
  by (simp_all add: mq_fill_def Let_def)

lemma mq_give_back_at [simp]:
  "max_msgs (mq_give_back b mq) = max_msgs mq" "mq_msg_size (mq_give_back b mq) = mq_msg_size mq"
  "mq_waiting (mq_give_back b mq) = mq_waiting mq" "mq_entry (mq_give_back b mq) = mq_entry mq"
  "data_of (mq_give_back b mq) = data_of mq" "next_of (mq_give_back b mq) = (next_of mq)(b := queue_free mq)"
  by (simp_all add: mq_give_back_def Let_def)

lemma memcpy_starts: "length m \<le> length d \<Longrightarrow> starts (memcpy d m (length m)) m"
  by (simp add: starts_def memcpy_def)

lemma copy_promise:
  assumes "starts (data_of mq b) m"
  shows "take (length m) (mq_copy b n mq) = take (length (mq_copy b n mq)) m"
proof -
  have "take (length m) (take k d) = take (length (take k d)) m" if "starts d m" for k and d :: "u8 list"
    using that unfolding starts_def by (metis length_take min.absorb_iff1 min.commute take_take)
  then show ?thesis using assms by (simp add: mq_copy_def)
qed

section \<open>Every step keeps it\<close>

text \<open>A thread that takes up or leaves the wish to receive.\<close>

lemma keeps_idle:
  assumes "blocks_ok s fs qs x" and "held (at s t) = None" and "held y = None"
  shows "blocks_ok (s \<lparr> at := (at s)(t := y) \<rparr>) fs qs x"
    "blocks_ok (s \<lparr> kq := (kq s) \<lparr> mq_waiting := ws \<rparr>, at := (at s)(t := y) \<rparr>) fs qs x"
proof -
  have o: "owned n S (in_hand ((at s)(t := y)))" if "owned n S (in_hand (at s))" for n S
    using that assms(2,3) in_hand_same [of "at s" t None] by (simp add: in_hand_def)
  have "sending (kq s) ((at s)(t := y))" using assms by (auto simp: blocks_ok_def sending_def)
  moreover have "promised (data_of (kq s)) ((at s)(t := y)) qs x"
    by (rule promised_cong [of "data_of (kq s)" "at s" qs x]) (use assms in \<open>auto simp: blocks_ok_def\<close>)
  ultimately show "blocks_ok (s \<lparr> at := (at s)(t := y) \<rparr>) fs qs x"
    "blocks_ok (s \<lparr> kq := (kq s) \<lparr> mq_waiting := ws \<rparr>, at := (at s)(t := y) \<rparr>) fs qs x"
    using assms(1) o by (simp_all add: blocks_ok_def sending_def mq_wf_def)
qed

lemma keeps_claim:
  assumes "blocks_ok s fs qs x" and "at s t = Idle" and "mq_claim m (kq s) = Inr (b, mq)"
  shows "\<exists>fs'. blocks_ok (s \<lparr> kq := mq, at := (at s)(t := Claimed u b m) \<rparr>) fs' qs x"
proof -
  obtain fs' where c: "fs = b # fs'" "mq_wf mq fs' qs" "length m \<le> unat (mq_msg_size (kq s))"
    and mq: "mq = (kq s) \<lparr> queue_free := next_of (kq s) b \<rparr>"
    using claim_wf [OF assms(3)] assms(1) unfolding blocks_ok_def by blast
  have "owned (unat (max_msgs mq)) (insert b (set fs' \<union> set qs)) (in_hand (at s))" "b < unat (max_msgs mq)" "b \<notin> set fs' \<union> set qs"
    using assms(1) c(1) mq by (auto simp: blocks_ok_def mq_wf_def)
  then have "owned (unat (max_msgs mq)) (set fs' \<union> set qs) (in_hand ((at s)(t := Claimed u b m)))"
    using owned_take [where t = t] assms(2) by (simp add: in_hand_def)
  moreover have "sending mq ((at s)(t := Claimed u b m))"
    using assms(1) c(3) mq by (auto simp: blocks_ok_def sending_def)
  moreover have "promised (data_of mq) ((at s)(t := Claimed u b m)) qs x"
    by (rule promised_cong [of "data_of (kq s)" "at s" qs x]) (use assms mq in \<open>auto simp: blocks_ok_def\<close>)
  ultimately have "blocks_ok (s \<lparr> kq := mq, at := (at s)(t := Claimed u b m) \<rparr>) fs' qs x"
    using c(2) by (simp add: blocks_ok_def)
  then show ?thesis ..
qed

lemma keeps_fill:
  assumes "blocks_ok s fs qs x" and "at s t = Claimed u b m"
  shows "blocks_ok (s \<lparr> kq := mq_fill u b m (kq s), at := (at s)(t := Filled u b m) \<rparr>) fs qs x"
proof -
  have own: "owned (unat (max_msgs (kq s))) (set fs \<union> set qs) (in_hand (at s))" and wf: "mq_wf (kq s) fs qs"
    and snd: "sending (kq s) (at s)" using assms(1) by (simp_all add: blocks_ok_def)
  have b: "b < unat (max_msgs (kq s))" "b \<notin> set fs \<union> set qs" using ownedD(1) [OF own, of t b] assms(2) by (simp_all add: in_hand_def)
  have other: "b' \<noteq> b" if "held (at s v) = Some b'" "v \<noteq> t" for v b'
    using ownedD(2) [OF own, of v b t] that assms(2) by (auto simp: in_hand_def)
  have l: "length m \<le> unat (mq_msg_size (kq s))" "length (data_of (kq s) b) = unat (mq_msg_size (kq s))"
    using snd assms(2) wf b(1) by (auto simp: sending_def mq_wf_def)
  have "owned (unat (max_msgs (kq s))) (set fs \<union> set qs) (in_hand ((at s)(t := Filled u b m)))"
    using own assms(2) in_hand_same [of "at s" t "Some b"] by (simp add: in_hand_def)
  moreover have "sending (mq_fill u b m (kq s)) ((at s)(t := Filled u b m))"
    unfolding sending_def
  proof (intro conjI allI impI)
    fix v w b' m'
    assume "((at s)(t := Filled u b m)) v = Filled w b' m'"
    then consider "v = t" "w = u" "b' = b" "m' = m" | "v \<noteq> t" "at s v = Filled w b' m'" by (auto split: if_splits)
    then have "starts (data_of (mq_fill u b m (kq s)) b') m' \<and> (\<not> w \<longrightarrow> next_of (mq_fill u b m (kq s)) b' = None)"
    proof cases
      case 1
      then show ?thesis using l by (simp add: memcpy_starts)
    next
      case 2
      then show ?thesis using snd other [of v b'] by (auto simp: sending_def)
    qed
    then show "starts (data_of (mq_fill u b m (kq s)) b') m'" "\<not> w \<Longrightarrow> next_of (mq_fill u b m (kq s)) b' = None" by blast+
  qed (use snd in \<open>auto simp: sending_def split: if_splits\<close>)
  moreover have "promised (data_of (mq_fill u b m (kq s))) ((at s)(t := Filled u b m)) qs x"
  proof (rule promised_cong [of "data_of (kq s)" "at s" qs x])
    fix v b' n assume "at s v = Taken b' n"
    then show "data_of (mq_fill u b m (kq s)) b' = data_of (kq s) b'" using other [of v b'] assms(2) by (cases "v = t") auto
  qed (use assms b in \<open>auto simp: blocks_ok_def\<close>)
  ultimately show ?thesis using fill_wf [OF wf b l(1), of u] by (simp add: blocks_ok_def)
qed

lemma keeps_link:
  assumes "blocks_ok s fs qs (q, h)" and "at s t = Filled u b m" and "mq_link u b (kq s) = (w, mq)"
  shows "blocks_ok (s \<lparr> kq := mq, at := wake w ((at s)(t := Idle)) \<rparr>) fs (if u then b # qs else qs @ [b])
    (if u then m # q else q @ [m], h)"
proof -
  have own: "owned (unat (max_msgs (kq s))) (set fs \<union> set qs) (in_hand (at s))" and wf: "mq_wf (kq s) fs qs"
    and snd: "sending (kq s) (at s)" and pr: "promised (data_of (kq s)) (at s) qs (q, h)"
    using assms(1) by (simp_all add: blocks_ok_def)
  have b: "b < unat (max_msgs (kq s))" "b \<notin> set fs \<union> set qs"
    using ownedD(1) [OF own, of t b] assms(2) by (simp_all add: in_hand_def)
  have f: "starts (data_of (kq s) b) m" "\<not> u \<longrightarrow> next_of (kq s) b = None" using snd assms(2) by (auto simp: sending_def)
  note l = link_wf [OF wf b f(2) assms(3)]
  have "owned (unat (max_msgs mq)) (set fs \<union> set (if u then b # qs else qs @ [b])) (in_hand (wake w ((at s)(t := Idle))))"
    using owned_give [OF own, of t b] assms(2) l(3) by (simp add: in_hand_def)
  moreover have "sending mq (wake w ((at s)(t := Idle)))"
    unfolding sending_def
  proof (intro conjI allI impI)
    fix v ur b' m'
    assume "wake w ((at s)(t := Idle)) v = Filled ur b' m'"
    then have v: "v \<noteq> t" "at s v = Filled ur b' m'" using wake_other by (auto dest!: wake_other split: if_splits)
    then have "b' \<noteq> b" "b' \<notin> set qs"
      using ownedD(2) [OF own, of v b t] ownedD(1) [OF own, of v b'] assms(2) by (auto simp: in_hand_def)
    moreover have "queue_tail (kq s) = (if qs = [] then None else Some (last qs))" using wf by (simp add: mq_wf_def)
    ultimately have "next_of mq b' = next_of (kq s) b'"
      using assms(3) by (auto simp: mq_link_def Let_def mq_resume_def split: if_splits list.splits)
    then show "starts (data_of mq b') m'" "\<not> ur \<Longrightarrow> next_of mq b' = None"
      using snd v(2) l(2) by (auto simp: sending_def)
  next
    fix v ur b' m'
    assume "wake w ((at s)(t := Idle)) v = Claimed ur b' m'"
    then have "at s v = Claimed ur b' m'" by (auto dest!: wake_other split: if_splits)
    then show "length m' \<le> unat (mq_msg_size mq)" using snd l(4) by (auto simp: sending_def)
  qed
  moreover have "wake w ((at s)(t := Idle)) v = Taken b' n \<longleftrightarrow> at s v = Taken b' n" for v b' n
    using assms(2) by (auto dest!: wake_other intro!: wake_keeps split: if_splits)
  then have "promised (data_of mq) (wake w ((at s)(t := Idle))) (if u then b # qs else qs @ [b]) (if u then m # q else q @ [m], h)"
    using pr f(1) l(2) by (auto simp: promised_def intro!: list_all2_appendI)
  ultimately show ?thesis using l(1) by (simp add: blocks_ok_def)
qed

lemma keeps_unlink:
  assumes "blocks_ok s fs qs (q, h)" and "at s t = Wanting n" and "mq_entry (kq s) \<noteq> 0" and "mq_unlink (kq s) = Ret (b, mq)"
  shows "\<exists>qs' m q'. q = m # q' \<and> h t = None
    \<and> blocks_ok (s \<lparr> kq := mq, at := (at s)(t := Taken b n) \<rparr>) fs qs' (q', h(t := Some m))"
proof -
  have own: "owned (unat (max_msgs (kq s))) (set fs \<union> set qs) (in_hand (at s))" and wf: "mq_wf (kq s) fs qs"
    and snd: "sending (kq s) (at s)" and pr: "promised (data_of (kq s)) (at s) qs (q, h)"
    using assms(1) by (simp_all add: blocks_ok_def)
  obtain qs' where l: "qs = b # qs'" "mq_wf mq fs qs'" "data_of mq = data_of (kq s)" "max_msgs mq = max_msgs (kq s)"
      "mq_msg_size mq = mq_msg_size (kq s)"
    using unlink_wf [OF wf assms(3)] assms(4) by auto
  have nx: "next_of mq = next_of (kq s)"
    using assms(4) by (auto simp: mq_unlink_def Let_def split: option.splits if_splits)
  obtain m q' where q: "q = m # q'" "starts (data_of (kq s) b) m"
    using pr l(1) by (auto simp: promised_def list_all2_Cons1)
  have "owned (unat (max_msgs mq)) (set fs \<union> set qs') (in_hand ((at s)(t := Taken b n)))"
    using owned_take [where t = t and b = b and S = "set fs \<union> set qs'" and f = "in_hand (at s)"] own wf l(1,4) assms(2)
    by (auto simp: in_hand_def mq_wf_def)
  moreover have "sending mq ((at s)(t := Taken b n))" using snd l(3,5) nx by (auto simp: sending_def)
  moreover have "promised (data_of mq) ((at s)(t := Taken b n)) qs' (q', h(t := Some m))"
    using pr l(1,3) q assms(2) by (auto simp: promised_def)
  moreover have "h t = None" using pr assms(2) by (auto simp: promised_def)
  ultimately show ?thesis using l(2) q(1) by (auto simp: blocks_ok_def)
qed

lemma keeps_copy:
  assumes "blocks_ok s fs qs (q, h)" and "at s t = Taken b n"
  shows "\<exists>x'. spec_step (Give t (mq_copy b n (kq s))) (q, h) = Some x'
    \<and> blocks_ok (s \<lparr> at := (at s)(t := Copied b) \<rparr>) fs qs x'"
proof -
  have own: "owned (unat (max_msgs (kq s))) (set fs \<union> set qs) (in_hand (at s))" and pr: "promised (data_of (kq s)) (at s) qs (q, h)"
    using assms(1) by (simp_all add: blocks_ok_def)
  obtain m where m: "h t = Some m" "starts (data_of (kq s) b) m" using pr assms(2) unfolding promised_def snd_conv by blast
  have "owned (unat (max_msgs (kq s))) (set fs \<union> set qs) (in_hand ((at s)(t := Copied b)))"
    using own assms(2) in_hand_same [of "at s" t "Some b"] by (simp add: in_hand_def)
  moreover have "promised (data_of (kq s)) ((at s)(t := Copied b)) qs (q, h(t := None))"
    using pr assms(2) by (auto simp: promised_def)
  ultimately have "blocks_ok (s \<lparr> at := (at s)(t := Copied b) \<rparr>) fs qs (q, h(t := None))"
    using assms(1) by (auto simp: blocks_ok_def sending_def)
  then show ?thesis using m copy_promise [OF m(2), of n] by auto
qed

lemma keeps_give_back:
  assumes "blocks_ok s fs qs x" and "at s t = Copied b"
  shows "blocks_ok (s \<lparr> kq := mq_give_back b (kq s), at := (at s)(t := Idle) \<rparr>) (b # fs) qs x"
proof -
  have own: "owned (unat (max_msgs (kq s))) (set fs \<union> set qs) (in_hand (at s))" and wf: "mq_wf (kq s) fs qs"
    and snd: "sending (kq s) (at s)" using assms(1) by (simp_all add: blocks_ok_def)
  have b: "b < unat (max_msgs (kq s))" "b \<notin> set fs \<union> set qs"
    using ownedD(1) [OF own, of t b] assms(2) by (simp_all add: in_hand_def)
  have "owned (unat (max_msgs (kq s))) (set (b # fs) \<union> set qs) (in_hand ((at s)(t := Idle)))"
    using owned_give [OF own, of t b] assms(2) by (simp add: in_hand_def)
  moreover have "b' \<noteq> b" if "at s v = Filled u b' m" for v u b' m
    using ownedD(2) [OF own, of v b t] that assms(2) by (auto simp: in_hand_def)
  then have "sending (mq_give_back b (kq s)) ((at s)(t := Idle))" using snd by (auto simp: sending_def)
  moreover have "promised (data_of (kq s)) ((at s)(t := Idle)) qs x"
    by (rule promised_cong [of "data_of (kq s)" "at s" qs x]) (use assms in \<open>auto simp: blocks_ok_def\<close>)
  ultimately show ?thesis using give_back_wf [OF wf b] by (simp add: blocks_ok_def)
qed

lemma step_simulates:
  assumes "mq_step s e s'" and "blocks_ok s fs qs x"
  shows "\<exists>fs' qs' x'. spec_step e x = Some x' \<and> blocks_ok s' fs' qs' x'"
proof -
  obtain q h where x: "x = (q, h)" by (cases x)
  from assms(1) show ?thesis
  proof cases
    case (claim t m b mq u)
    then show ?thesis using keeps_claim [OF assms(2), of t m b mq u] x by auto
  next
    case (refuse t m err)
    then show ?thesis using assms(2) x by auto
  next
    case (fill t u b m)
    then show ?thesis using keeps_fill [OF assms(2), of t u b m] x by auto
  next
    case (link t u b m w mq)
    then show ?thesis using keeps_link [of s fs qs q h t u b m w mq] assms(2) x by (cases u) auto
  next
    case (want t n)
    then show ?thesis using keeps_idle(1) [OF assms(2), of t "Wanting n"] x by auto
  next
    case (fall_asleep t n)
    then show ?thesis using keeps_idle(2) [OF assms(2), of t "Asleep n" "mq_waiting (kq s) @ [t]"] x by auto
  next
    case (time_out t n)
    then show ?thesis using keeps_idle(2) [OF assms(2), of t Idle "remove1 t (mq_waiting (kq s))"] x by auto
  next
    case (give_up t n)
    then show ?thesis using keeps_idle(1) [OF assms(2), of t Idle] x by auto
  next
    case (unlink t n b mq)
    then show ?thesis using keeps_unlink [of s fs qs q h t n b mq] assms(2) x
      by (fastforce simp del: fun_upd_apply)
  next
    case (copy t b n)
    then show ?thesis using keeps_copy [of s fs qs q h t b n] assms(2) x by blast
  next
    case (give_back t b)
    then show ?thesis using keeps_give_back [OF assms(2), of t b] x by auto
  qed
qed

lemma begin_ok:
  assumes "\<forall>b. length (mem b) = unat (mq_msg_size (rt_mq_init hs mem sz pool))"
  shows "\<exists>fs. blocks_ok (mq_begin (rt_mq_init hs mem sz pool)) fs [] ([], \<lambda>_. None)"
  using init_wf [OF assms]
  by (auto simp: blocks_ok_def mq_begin_def owned_def in_hand_def sending_def promised_def)

lemma trace_simulates:
  assumes "mq_trace s0 es s" and "blocks_ok s0 fs qs x"
  shows "\<exists>fs' qs' x'. spec_run es x = Some x' \<and> blocks_ok s fs' qs' x'"
  using assms(1)
proof induction
  case start
  then show ?case using assms(2) by auto
next
  case (snoc es s e s')
  then show ?case using step_simulates [OF snoc.hyps(2)] by (fastforce simp: spec_run_snoc)
qed

section \<open>No message waits for a sleeping thread\<close>

definition awake :: "(nat \<Rightarrow> mq_at) \<Rightarrow> nat set" where
  "awake f = {t. \<exists>n. f t = Wanting n}"

lemma awake_upd [simp]: "awake (f(t := x)) = (if \<exists>n. x = Wanting n then insert t (awake f) else awake f - {t})"
  by (auto simp: awake_def)

definition sleepers :: "mq_sys \<Rightarrow> bool" where
  "sleepers s \<longleftrightarrow> distinct (mq_waiting (kq s)) \<and> (\<forall>t. t \<in> set (mq_waiting (kq s)) \<longleftrightarrow> (\<exists>n. at s t = Asleep n))
     \<and> finite (awake (at s))
     \<and> (mq_waiting (kq s) \<noteq> [] \<longrightarrow> unat (mq_entry (kq s)) \<le> card (awake (at s)))"

lemma sleepers_cong:
  "sleepers s \<Longrightarrow> mq_waiting (kq s') = mq_waiting (kq s) \<Longrightarrow> mq_entry (kq s') = mq_entry (kq s) \<Longrightarrow>
    awake (at s') = awake (at s) \<Longrightarrow> (\<And>t. (\<exists>n. at s' t = Asleep n) = (\<exists>n. at s t = Asleep n)) \<Longrightarrow> sleepers s'"
  by (simp add: sleepers_def)

lemma sleepers_link:
  assumes "sleepers s" and "blocks_ok s fs qs x" and "at s t = Filled u b m" and "mq_link u b (kq s) = (w, mq)"
  shows "sleepers (s \<lparr> kq := mq, at := wake w ((at s)(t := Idle)) \<rparr>)"
proof -
  have own: "owned (unat (max_msgs (kq s))) (set fs \<union> set qs) (in_hand (at s))" and wf: "mq_wf (kq s) fs qs"
    and snd: "sending (kq s) (at s)" using assms(2) by (simp_all add: blocks_ok_def)
  have b: "b < unat (max_msgs (kq s))" "b \<notin> set fs \<union> set qs"
    using ownedD(1) [OF own, of t b] assms(3) by (simp_all add: in_hand_def)
  have "\<not> u \<longrightarrow> next_of (kq s) b = None" using snd assms(3) by (auto simp: sending_def)
  note l = link_wf(5-7) [OF wf b this assms(4)]
  have sl: "distinct (mq_waiting (kq s))" "\<And>t. t \<in> set (mq_waiting (kq s)) \<longleftrightarrow> (\<exists>n. at s t = Asleep n)"
    "finite (awake (at s))" "mq_waiting (kq s) \<noteq> [] \<Longrightarrow> unat (mq_entry (kq s)) \<le> card (awake (at s))"
    using assms(1) by (auto simp: sleepers_def)
  have t: "t \<notin> awake (at s)" "\<And>n. at s t \<noteq> Asleep n" using assms(3) by (simp_all add: awake_def)
  show ?thesis
  proof (cases "mq_waiting (kq s)")
    case Nil
    then show ?thesis using sl l t by (auto simp: sleepers_def wake_def)
  next
    case (Cons a ts)
    then obtain n where a: "at s a = Asleep n" using sl(2) [of a] by auto
    then have "a \<noteq> t" "a \<notin> awake (at s)" using t by (auto simp: awake_def)
    moreover have "wake w ((at s)(t := Idle)) = (at s)(t := Idle, a := Wanting n)"
      using l(2) Cons a \<open>a \<noteq> t\<close> by (simp add: wake_def)
    moreover have "v \<in> set ts \<longleftrightarrow> v \<noteq> a \<and> (\<exists>n. at s v = Asleep n)" for v
      using sl(1) sl(2) [of v] Cons by auto
    ultimately show ?thesis using sl(1,3,4) l t Cons by (auto simp: sleepers_def)
  qed
qed

lemma step_keeps_sleepers:
  assumes "mq_step s e s'" and "blocks_ok s fs qs x" and "sleepers s"
  shows "sleepers s'"
proof -
  have sl: "distinct (mq_waiting (kq s))" "\<And>t. t \<in> set (mq_waiting (kq s)) \<longleftrightarrow> (\<exists>n. at s t = Asleep n)"
    "finite (awake (at s))" "mq_waiting (kq s) \<noteq> [] \<Longrightarrow> unat (mq_entry (kq s)) \<le> card (awake (at s))"
    using assms(3) by (auto simp: sleepers_def)
  have wf: "mq_wf (kq s) fs qs" using assms(2) by (simp add: blocks_ok_def)
  from assms(1) show ?thesis
  proof cases
    case (claim t m b mq u)
    then show ?thesis
      by (intro sleepers_cong [OF assms(3)]) (auto simp: mq_claim_def awake_def split: if_splits option.splits)
  next
    case (refuse t m err)
    then show ?thesis using assms(3) by simp
  next
    case (fill t u b m)
    then show ?thesis by (intro sleepers_cong [OF assms(3)]) (auto simp: awake_def)
  next
    case (link t u b m w mq)
    then show ?thesis using sleepers_link [OF assms(3,2)] by simp
  next
    case (want t n)
    then show ?thesis using sl by (auto simp: sleepers_def card_insert_if intro: le_SucI)
  next
    case (fall_asleep t n)
    then show ?thesis using sl by (auto simp: sleepers_def)
  next
    case (time_out t n)
    moreover have "t \<notin> awake (at s)" using time_out by (simp add: awake_def)
    ultimately show ?thesis using sl by (cases "mq_waiting (kq s) = []") (auto simp: sleepers_def)
  next
    case (give_up t n)
    then show ?thesis using sl by (auto simp: sleepers_def)
  next
    case (unlink t n b mq)
    moreover have "t \<in> awake (at s)" using unlink by (auto simp: awake_def)
    moreover have "mq_waiting mq = mq_waiting (kq s)" "Suc (unat (mq_entry mq)) = unat (mq_entry (kq s))"
      using unlink_wf [OF wf unlink(4)] unlink(5) by auto
    ultimately show ?thesis using sl by (auto simp: sleepers_def)
  next
    case (copy t b n)
    then show ?thesis by (intro sleepers_cong [OF assms(3)]) (auto simp: awake_def)
  next
    case (give_back t b)
    then show ?thesis by (intro sleepers_cong [OF assms(3)]) (auto simp: awake_def)
  qed
qed

lemma trace_sleepers:
  assumes "mq_trace s0 es s" and "blocks_ok s0 fs qs x" and "sleepers s0"
  shows "sleepers s"
  using assms(1)
proof induction
  case start
  then show ?case using assms(3) by simp
next
  case (snoc es s e s')
  then show ?case using trace_simulates [OF snoc.hyps(1) assms(2)] step_keeps_sleepers by blast
qed

text \<open>The blocks in the hands of threads, when the free list is empty.\<close>

lemma blocks_in_use:
  assumes "blocks_ok s fs qs x" and "queue_free (kq s) = None"
  shows "length qs + card {t. held (at s t) \<noteq> None} = unat (max_msgs (kq s))"
proof -
  define A where "A = {t. held (at s t) \<noteq> None}"
  have own: "owned (unat (max_msgs (kq s))) (set qs) (in_hand (at s))" and q: "distinct qs" "set qs \<subseteq> {..<unat (max_msgs (kq s))}"
    using assms by (auto simp: blocks_ok_def mq_wf_def)
  have inj: "inj_on (\<lambda>t. the (in_hand (at s) t)) A"
  proof (rule inj_onI)
    fix t u assume tu: "t \<in> A" "u \<in> A" "the (in_hand (at s) t) = the (in_hand (at s) u)"
    then obtain b where "in_hand (at s) t = Some b" "in_hand (at s) u = Some b" by (auto simp: A_def in_hand_def)
    then show "t = u" using ownedD(2) [OF own] by blast
  qed
  have img: "(\<lambda>t. the (in_hand (at s) t)) ` A = {..<unat (max_msgs (kq s))} - set qs"
  proof (intro equalityI subsetI)
    fix b assume "b \<in> (\<lambda>t. the (in_hand (at s) t)) ` A"
    then obtain t where "in_hand (at s) t = Some b" by (auto simp: A_def in_hand_def)
    then show "b \<in> {..<unat (max_msgs (kq s))} - set qs" using ownedD(1) [OF own] by auto
  next
    fix b assume "b \<in> {..<unat (max_msgs (kq s))} - set qs"
    then obtain t where "in_hand (at s) t = Some b" using own by (auto simp: owned_def)
    then show "b \<in> (\<lambda>t. the (in_hand (at s) t)) ` A" by (force simp: A_def in_hand_def)
  qed
  have "card A = unat (max_msgs (kq s)) - length qs"
    using card_image [OF inj] q unfolding img by (simp add: card_Diff_subset distinct_card)
  moreover have "length qs \<le> unat (max_msgs (kq s))"
    using card_mono [OF _ q(2)] q(1) by (simp add: distinct_card)
  ultimately show ?thesis by (simp add: A_def)
qed

lemma begin_sleepers: "sleepers (mq_begin (rt_mq_init hs mem sz pool))"
  by (simp add: sleepers_def mq_begin_def rt_mq_init_def Let_def awake_def)

section \<open>Properties\<close>

text \<open>
  C7. However any number of threads interleave their sends, urgent sends and receives on a queue, with
  time-outs at any moment, each step of the calls is one that a queue of whole messages allows: a receive
  takes the first message, and the bytes it copies later are that message, although the calls work on the
  blocks with interrupts on. The count of the queue is the number of its messages, a receive never runs
  through a null pointer, and a send finds no free block only when all blocks are queued or in the hands of
  threads inside a call: none is ever lost.
\<close>

theorem messages_survive_interleaving:
  assumes "\<forall>b. length (mem b) = unat (mq_msg_size (rt_mq_init hs mem sz pool))"
    and "mq_trace (mq_begin (rt_mq_init hs mem sz pool)) es s"
  shows "\<exists>q h. spec_run es ([], \<lambda>_. None) = Some (q, h) \<and> length q = unat (mq_entry (kq s))
    \<and> (mq_entry (kq s) \<noteq> 0 \<longrightarrow> mq_unlink (kq s) \<noteq> Fault)
    \<and> (queue_free (kq s) = None \<longrightarrow> length q + card {t. held (at s t) \<noteq> None} = unat (max_msgs (kq s)))"
proof -
  obtain fs0 where "blocks_ok (mq_begin (rt_mq_init hs mem sz pool)) fs0 [] ([], \<lambda>_. None)"
    using begin_ok [OF assms(1)] by blast
  from trace_simulates [OF assms(2) this] obtain fs qs q h where
    r: "spec_run es ([], \<lambda>_. None) = Some (q, h)" "blocks_ok s fs qs (q, h)" by auto
  then have wf: "mq_wf (kq s) fs qs" and "length q = length qs"
    by (auto simp: blocks_ok_def promised_def list_all2_lengthD)
  then show ?thesis using r unlink_wf [OF wf] blocks_in_use [OF r(2)] by (auto simp: mq_wf_def)
qed

text \<open>
  C8. At any moment of such a run, when a thread is suspended in a receive although messages are queued,
  then at least as many threads as there are messages have been woken or have just entered a receive and
  are on their way to take one: no message waits for a thread that nobody wakes. The suspended threads are
  exactly those in the list of the queue, each once.
\<close>

theorem no_message_waits_for_a_sleeper:
  assumes "\<forall>b. length (mem b) = unat (mq_msg_size (rt_mq_init hs mem sz pool))"
    and "mq_trace (mq_begin (rt_mq_init hs mem sz pool)) es s"
  shows "((\<exists>t n. at s t = Asleep n) \<longrightarrow> unat (mq_entry (kq s)) \<le> card {t. \<exists>n. at s t = Wanting n})
    \<and> set (mq_waiting (kq s)) = {t. \<exists>n. at s t = Asleep n} \<and> distinct (mq_waiting (kq s))"
proof -
  obtain fs0 where "blocks_ok (mq_begin (rt_mq_init hs mem sz pool)) fs0 [] ([], \<lambda>_. None)"
    using begin_ok [OF assms(1)] by blast
  from trace_sleepers [OF assms(2) this begin_sleepers] have sl: "sleepers s" .
  then have "set (mq_waiting (kq s)) = {t. \<exists>n. at s t = Asleep n} \<and> distinct (mq_waiting (kq s))"
    by (auto simp: sleepers_def)
  moreover have "(\<exists>t n. at s t = Asleep n) \<longrightarrow> unat (mq_entry (kq s)) \<le> card {t. \<exists>n. at s t = Wanting n}"
    using sl unfolding sleepers_def awake_def by (metis empty_iff empty_set)
  ultimately show ?thesis by blast
qed

text \<open>
  A queue of one block of four bytes: thread 1 falls asleep in a receive, thread 0 sends two bytes and
  wakes it, and thread 1 takes them.
\<close>

definition one_block :: msgqueue where
  "one_block = rt_mq_init (\<lambda>_. None) (\<lambda>_. [0, 0, 0, 0]) 4 8"

lemma one_block_is:
  "one_block = \<lparr> mq_msg_size = 4, max_msgs = 1, mq_entry = 0, queue_head = None, queue_tail = None,
     queue_free = Some 0, mq_waiting = [], next_of = (\<lambda>_. None)(0 := None), data_of = \<lambda>_. [0, 0, 0, 0] \<rparr>"
proof -
  have a: "(ucast (RT_ALIGN4 4) :: u16) = 4" by (simp add: RT_ALIGN4_def)
  have "unat (1 :: u16) = Suc 0" by simp
  then show ?thesis by (simp add: one_block_def rt_mq_init_def Let_def a)
qed

lemma one_block_run:
  "\<exists>s. mq_trace (mq_begin one_block) [Quiet, Quiet, Quiet, Quiet, Put 0 [7, 8], Take 1] s \<and> at s 1 = Taken 0 2"
proof -
  note simps = mq_begin_def one_block_is mq_claim_def mq_fill_def mq_link_def mq_resume_def mq_unlink_def wake_def
    memcpy_def Let_def
  define s1 where "s1 = mq_begin one_block \<lparr> at := (at (mq_begin one_block))(1 := Wanting 2) \<rparr>"
  define s2 where "s2 = s1 \<lparr> kq := (kq s1) \<lparr> mq_waiting := mq_waiting (kq s1) @ [1] \<rparr>, at := (at s1)(1 := Asleep 2) \<rparr>"
  define s3 where "s3 = s2 \<lparr> kq := (kq s2) \<lparr> queue_free := next_of (kq s2) 0 \<rparr>, at := (at s2)(0 := Claimed False 0 [7, 8]) \<rparr>"
  define s4 where "s4 = s3 \<lparr> kq := mq_fill False 0 [7, 8] (kq s3), at := (at s3)(0 := Filled False 0 [7, 8]) \<rparr>"
  define l where "l = mq_link False 0 (kq s4)"
  define s5 where "s5 = s4 \<lparr> kq := snd l, at := wake (fst l) ((at s4)(0 := Idle)) \<rparr>"
  have k4: "kq s4 = (kq s3) \<lparr> next_of := (next_of (kq s3))(0 := None), data_of := (\<lambda>_. [0, 0, 0, 0])(0 := [7, 8, 0, 0]) \<rparr>"
    by (simp add: s4_def s3_def s2_def s1_def simps)
  have l: "l = (Some 1, (kq s4) \<lparr> queue_tail := Some 0, queue_head := Some 0, mq_entry := 1, mq_waiting := [] \<rparr>)"
    by (simp add: l_def k4 s3_def s2_def s1_def simps)
  have a5: "at s5 = (\<lambda>_. Idle)(1 := Wanting 2)"
    by (auto simp: s5_def l s4_def s3_def s2_def s1_def simps)
  define m where "m = (kq s5) \<lparr> queue_head := None, queue_tail := None, mq_entry := 0 \<rparr>"
  have u: "mq_unlink (kq s5) = Ret (0, m)" "mq_entry (kq s5) \<noteq> 0"
    by (simp_all add: m_def s5_def l k4 s3_def s2_def s1_def simps)
  define s6 where "s6 = s5 \<lparr> kq := m, at := (at s5)(1 := Taken 0 2) \<rparr>"
  have st1: "mq_step (mq_begin one_block) Quiet s1" unfolding s1_def by (rule mq_step.want) (simp add: mq_begin_def)
  have st2: "mq_step s1 Quiet s2" unfolding s2_def
    by (rule mq_step.fall_asleep) (simp_all add: s1_def simps)
  have st3: "mq_step s2 Quiet s3" unfolding s3_def
    by (rule mq_step.claim) (simp_all add: s2_def s1_def simps)
  have st4: "mq_step s3 Quiet s4" unfolding s4_def by (rule mq_step.fill) (simp add: s3_def)
  have st5: "mq_step s4 (Put 0 [7, 8]) s5"
    using mq_step.link [of s4 0 False 0 "[7, 8]" "fst l" "snd l"] by (simp add: s5_def s4_def l_def)
  have st6: "mq_step s5 (Take 1) s6" unfolding s6_def by (rule mq_step.unlink) (simp_all add: a5 u)
  note tr = mq_trace.snoc [OF mq_trace.snoc [OF mq_trace.snoc [OF mq_trace.snoc [OF mq_trace.snoc
    [OF mq_trace.snoc [OF mq_trace.start st1] st2] st3] st4] st5] st6]
  have "mq_trace (mq_begin one_block) [Quiet, Quiet, Quiet, Quiet, Put 0 [7, 8], Take 1] s6"
    using tr by simp
  then show ?thesis by (auto simp: s6_def)
qed

theorem messages_survive_interleaving_witness:
  "\<exists>s q h. mq_trace (mq_begin one_block) [Quiet, Quiet, Quiet, Quiet, Put 0 [7, 8], Take 1] s
    \<and> spec_run [Quiet, Quiet, Quiet, Quiet, Put 0 [7, 8], Take 1] ([], \<lambda>_. None) = Some (q, h)
    \<and> length q = unat (mq_entry (kq s)) \<and> h 1 = Some [7, 8]"
proof -
  obtain s where t: "mq_trace (mq_begin one_block) [Quiet, Quiet, Quiet, Quiet, Put 0 [7, 8], Take 1] s"
    using one_block_run by blast
  have "\<forall>b. length ((\<lambda>_. [0, 0, 0, 0] :: u8 list) b) = unat (mq_msg_size one_block)" by (simp add: one_block_is)
  from messages_survive_interleaving [OF this [unfolded one_block_def] t [unfolded one_block_def]] show ?thesis
    using t by auto
qed

theorem no_message_waits_for_a_sleeper_witness:
  "\<exists>s. mq_trace (mq_begin one_block) [Quiet, Quiet, Quiet, Quiet, Put 0 [7, 8], Take 1] s
    \<and> set (mq_waiting (kq s)) = {t. \<exists>n. at s t = Asleep n}"
proof -
  obtain s where t: "mq_trace (mq_begin one_block) [Quiet, Quiet, Quiet, Quiet, Put 0 [7, 8], Take 1] s"
    using one_block_run by blast
  have "\<forall>b. length ((\<lambda>_. [0, 0, 0, 0] :: u8 list) b) = unat (mq_msg_size one_block)" by (simp add: one_block_is)
  from no_message_waits_for_a_sleeper [OF this [unfolded one_block_def] t [unfolded one_block_def]] show ?thesis
    using t by blast
qed

end
