(* ===== verification/Queue_Words.thy ===== *)
theory Queue_Words
  imports Msg_Queue
begin

text \<open>
  A message queue of single words is a bounded queue in the sense of the locale \<open>fifo\<close>, like a
  mailbox, and two such queues of the same length cannot be told apart by any sequence of calls.
\<close>

section \<open>Two bounded queues\<close>

locale two_fifos = one: fifo inv1 items1 cap1 put1 get1 + two: fifo inv2 items2 cap2 put2 get2
  for inv1 :: "'m \<Rightarrow> bool" and items1 :: "'m \<Rightarrow> 'v list" and cap1 :: "'m \<Rightarrow> nat"
    and put1 :: "'v \<Rightarrow> 'm \<Rightarrow> bool \<times> 'm" and get1 :: "'m \<Rightarrow> 'v option \<times> 'm"
    and inv2 :: "'n \<Rightarrow> bool" and items2 :: "'n \<Rightarrow> 'v list" and cap2 :: "'n \<Rightarrow> nat"
    and put2 :: "'v \<Rightarrow> 'n \<Rightarrow> bool \<times> 'n" and get2 :: "'n \<Rightarrow> 'v option \<times> 'n"
begin

lemma put_agrees:
  assumes "inv1 m" "inv2 n" "items1 m = items2 n" "cap1 m = cap2 n"
  shows "fst (put1 v m) = fst (put2 v n) \<and> items1 (snd (put1 v m)) = items2 (snd (put2 v n))"
proof (cases "length (items1 m) < cap1 m")
  case True
  then show ?thesis using one.put_accepts [OF assms(1)] two.put_accepts [OF assms(2)] assms(3,4) by simp
next
  case False
  then have "length (items1 m) = cap1 m" using one.never_over [OF assms(1)] by simp
  then show ?thesis using one.put_refuses [OF assms(1)] two.put_refuses [OF assms(2)] assms(3,4) by simp
qed

lemma get_agrees:
  assumes "inv1 m" "inv2 n" "items1 m = items2 n"
  shows "fst (get1 m) = fst (get2 n) \<and> items1 (snd (get1 m)) = items2 (snd (get2 n))"
proof (cases "items1 m")
  case Nil
  moreover from this have "items2 n = []" using assms(3) by simp
  ultimately show ?thesis using one.get_waits [OF assms(1)] two.get_waits [OF assms(2)] by simp
next
  case (Cons v vs)
  moreover from this have "items2 n = v # vs" using assms(3) by simp
  ultimately show ?thesis using one.get_takes [OF assms(1)] two.get_takes [OF assms(2)] by simp
qed

lemma same_traffic:
  assumes "inv1 m" "inv2 n" "items1 m = items2 n" "cap1 m = cap2 n"
    and "traffic put1 get1 cs m = (a, d, m')" and "traffic put2 get2 cs n = (a', d', n')"
  shows "a = a' \<and> d = d' \<and> items1 m' = items2 n'"
  using assms
proof (induction cs arbitrary: m n a d a' d' m' n')
  case (Cons c cs)
  show ?case
  proof (cases c)
    case (Some v)
    obtain k1 m1 k2 n1 where p: "put1 v m = (k1, m1)" "put2 v n = (k2, n1)" by fastforce
    obtain x y z x' y' z' where t: "traffic put1 get1 cs m1 = (x, y, z)" "traffic put2 get2 cs n1 = (x', y', z')"
      by (metis prod_cases3)
    have "k1 = k2" "items1 m1 = items2 n1" "inv1 m1" "inv2 n1" "cap1 m1 = cap2 n1"
      using put_agrees [OF Cons.prems(1-4), of v] one.put_items [OF Cons.prems(1), of v] two.put_items [OF Cons.prems(2), of v]
        Cons.prems(4) p by simp_all
    with Cons.IH [OF _ _ _ _ t] Cons.prems(5,6) Some p t show ?thesis by (auto split: if_splits)
  next
    case None
    obtain r1 m1 r2 n1 where g: "get1 m = (r1, m1)" "get2 n = (r2, n1)" by fastforce
    obtain x y z x' y' z' where t: "traffic put1 get1 cs m1 = (x, y, z)" "traffic put2 get2 cs n1 = (x', y', z')"
      by (metis prod_cases3)
    have "r1 = r2" "items1 m1 = items2 n1" "inv1 m1" "inv2 n1" "cap1 m1 = cap2 n1"
      using get_agrees [OF Cons.prems(1-3)] one.get_items [OF Cons.prems(1)] two.get_items [OF Cons.prems(2)]
        Cons.prems(4) g by simp_all
    with Cons.IH [OF _ _ _ _ t] Cons.prems(5,6) None g t show ?thesis by (auto split: option.splits)
  qed
qed simp

end

section \<open>Words in a message queue\<close>

text \<open>A word as its four bytes in memory, the lowest first.\<close>

definition in_memory :: "u32 \<Rightarrow> u8 list" where
  "in_memory v = map (\<lambda>i. ucast (drop_bit (8 * i) v)) [0, 1, 2, 3]"

fun from_memory :: "u8 list \<Rightarrow> u32" where
  "from_memory [] = 0"
| "from_memory (b # bs) = or (push_bit 8 (from_memory bs)) (ucast b)"

lemma from_in_memory [simp]: "from_memory (in_memory v) = v"
proof (rule bit_word_eqI)
  fix n assume "n < LENGTH(32)"
  then consider "n < 8" | "8 \<le> n" "n < 16" | "16 \<le> n" "n < 24" | "24 \<le> n" "n < 32" by force
  then show "bit (from_memory (in_memory v)) n \<longleftrightarrow> bit v n"
    by cases (auto simp: in_memory_def bit_simps)
qed

lemma length_in_memory [simp]: "length (in_memory v) = 4"
  by (simp add: in_memory_def)

definition word_put :: "u32 \<Rightarrow> msgqueue \<Rightarrow> bool \<times> msgqueue" where
  "word_put v mq = (case rt_mq_send (in_memory v) mq of (st, _, mq) \<Rightarrow> (st = RT_EOK, mq))"

definition word_get :: "msgqueue \<Rightarrow> u32 option \<times> msgqueue" where
  "word_get mq = (case rt_mq_recv 0 4 True mq of
       Ret (st, bs, mq) \<Rightarrow> (if st = RT_EOK then Some (from_memory bs) else None, mq) | _ \<Rightarrow> (None, mq))"

fun walk :: "nat \<Rightarrow> (nat \<Rightarrow> nat option) \<Rightarrow> nat option \<Rightarrow> nat list" where
  "walk 0 nx p = []"
| "walk (Suc n) nx p = (case p of None \<Rightarrow> [] | Some b \<Rightarrow> b # walk n nx (nx b))"

definition queued_words :: "msgqueue \<Rightarrow> u32 list" where
  "queued_words mq = map (\<lambda>b. from_memory (take 4 (data_of mq b)))
     (walk (unat (mq_entry mq)) (next_of mq) (queue_head mq))"

definition word_queue :: "msgqueue \<Rightarrow> bool" where
  "word_queue mq \<longleftrightarrow> 4 \<le> unat (mq_msg_size mq)
     \<and> (\<exists>fs qs. mq_wf mq fs qs \<and> set (fs @ qs) = {..<unat (max_msgs mq)})"

lemma word_queueI:
  "mq_wf mq fs qs \<Longrightarrow> set (fs @ qs) = {..<unat (max_msgs mq)} \<Longrightarrow> 4 \<le> unat (mq_msg_size mq) \<Longrightarrow> word_queue mq"
  unfolding word_queue_def by blast

lemma walk_chain: "block_chain nx p bs \<Longrightarrow> walk (length bs) nx p = bs"
  by (induction bs arbitrary: p) auto

lemma queued_words_wf: "mq_wf mq fs qs \<Longrightarrow> queued_words mq = map (\<lambda>b. from_memory (take 4 (data_of mq b))) qs"
  by (simp add: queued_words_def mq_wf_def walk_chain)

lemma wf_count: "mq_wf mq fs qs \<Longrightarrow> set (fs @ qs) = {..<unat (max_msgs mq)} \<Longrightarrow> length fs + length qs = unat (max_msgs mq)"
  using distinct_card [of "fs @ qs"] by (simp add: mq_wf_def)

lemma send_word:
  assumes "mq_wf mq (b # fs) qs" and "4 \<le> unat (mq_msg_size mq)"
  shows "\<exists>t mq'. rt_mq_send (in_memory v) mq = (RT_EOK, t, mq') \<and> mq_wf mq' fs (qs @ [b])
    \<and> data_of mq' = (data_of mq)(b := memcpy (data_of mq b) (in_memory v) 4)
    \<and> max_msgs mq' = max_msgs mq \<and> mq_msg_size mq' = mq_msg_size mq"
proof -
  have "queue_free mq = Some b" using assms(1) by (simp add: mq_wf_def)
  then obtain mq1 where c: "mq_claim (in_memory v) mq = Inr (b, mq1)" using assms(2) by (simp add: mq_claim_def)
  have w1: "mq_wf mq1 fs qs" and mq1: "mq1 = mq \<lparr> queue_free := next_of mq b \<rparr>" using claim_wf [OF c assms(1)] by auto
  have b: "b < unat (max_msgs mq1)" "b \<notin> set fs \<union> set qs" using assms(1) mq1 by (auto simp: mq_wf_def)
  define mq2 where "mq2 = mq_fill False b (in_memory v) mq1"
  have w2: "mq_wf mq2 fs qs" unfolding mq2_def using fill_wf [OF w1 b, of "in_memory v"] assms(2) mq1 by simp
  obtain t mq' where l: "mq_link False b mq2 = (t, mq')" by fastforce
  from link_wf [OF w2 _ b(2) _ l] b(1)
  have "mq_wf mq' fs (qs @ [b])" "data_of mq' = data_of mq2" "max_msgs mq' = max_msgs mq2" "mq_msg_size mq' = mq_msg_size mq2"
    by (simp_all add: mq2_def)
  then show ?thesis using c l by (simp add: rt_mq_send_def mq_send_def mq2_def mq1)
qed

lemma receive_word:
  assumes "mq_wf mq fs (b # qs)" and "4 \<le> unat (mq_msg_size mq)"
  shows "\<exists>mq'. rt_mq_recv 0 4 True mq = Ret (RT_EOK, take 4 (data_of mq b), mq') \<and> mq_wf mq' (b # fs) qs
    \<and> data_of mq' = data_of mq \<and> max_msgs mq' = max_msgs mq \<and> mq_msg_size mq' = mq_msg_size mq"
proof -
  have e: "mq_entry mq \<noteq> 0" using assms(1) by (auto simp: mq_wf_def)
  from unlink_wf [OF assms(1) this] obtain mq1 where
    u: "mq_unlink mq = Ret (b, mq1)" "mq_wf mq1 fs qs" "data_of mq1 = data_of mq" "max_msgs mq1 = max_msgs mq"
      "mq_msg_size mq1 = mq_msg_size mq" by auto
  have "b < unat (max_msgs mq1)" "b \<notin> set fs \<union> set qs" using assms(1) u(4) by (auto simp: mq_wf_def)
  from give_back_wf [OF u(2) this] show ?thesis
    using e u assms(2) by (simp add: rt_mq_recv_def mq_copy_def)
qed

interpretation mqw: fifo word_queue queued_words "\<lambda>mq. unat (max_msgs mq)" word_put word_get
proof unfold_locales
  fix m v
  assume "word_queue m"
  then obtain fs qs where sz: "4 \<le> unat (mq_msg_size m)" and w: "mq_wf m fs qs" "set (fs @ qs) = {..<unat (max_msgs m)}"
    by (auto simp: word_queue_def)
  note n = wf_count [OF w]
  note q = queued_words_wf [OF w(1)]
  show "length (queued_words m) \<le> unat (max_msgs m)" using n by (simp add: q)
  show "fst (word_put v m) \<and> word_queue (snd (word_put v m)) \<and> queued_words (snd (word_put v m)) = queued_words m @ [v]
      \<and> unat (max_msgs (snd (word_put v m))) = unat (max_msgs m)" if room: "length (queued_words m) < unat (max_msgs m)"
  proof -
    obtain b fs' where f: "fs = b # fs'" using room n by (cases fs) (auto simp: q)
    from send_word [OF w(1) [unfolded f] sz, of v] obtain t m' where
      s: "rt_mq_send (in_memory v) m = (RT_EOK, t, m')" "mq_wf m' fs' (qs @ [b])"
        "data_of m' = (data_of m)(b := memcpy (data_of m b) (in_memory v) 4)"
        "max_msgs m' = max_msgs m" "mq_msg_size m' = mq_msg_size m" by blast
    have "b \<notin> set qs" using w(1) f by (auto simp: mq_wf_def)
    then have "queued_words m' = queued_words m @ [v]"
      unfolding queued_words_wf [OF s(2)] q using s(3) by (simp add: memcpy_def)
    moreover have "word_queue m'" using s(4,5) sz w(2) f by (intro word_queueI [OF s(2)]) auto
    ultimately show ?thesis using s(1,4) by (simp add: word_put_def)
  qed
  show "word_put v m = (False, m)" if "length (queued_words m) = unat (max_msgs m)"
  proof -
    have "fs = []" using that n by (simp add: q)
    then have "queue_free m = None" using w(1) by (simp add: mq_wf_def)
    then show ?thesis using sz by (simp add: word_put_def rt_mq_send_def mq_send_def mq_claim_def)
  qed
  show "fst (word_get m) = Some v \<and> word_queue (snd (word_get m)) \<and> queued_words (snd (word_get m)) = vs
      \<and> unat (max_msgs (snd (word_get m))) = unat (max_msgs m)" if first: "queued_words m = v # vs" for vs
  proof -
    obtain b qs' where f: "qs = b # qs'" using first by (cases qs) (auto simp: q)
    from receive_word [OF w(1) [unfolded f] sz] obtain m' where
      s: "rt_mq_recv 0 4 True m = Ret (RT_EOK, take 4 (data_of m b), m')" "mq_wf m' (b # fs) qs'"
        "data_of m' = data_of m" "max_msgs m' = max_msgs m" "mq_msg_size m' = mq_msg_size m" by blast
    have "queued_words m' = vs" "v = from_memory (take 4 (data_of m b))"
      using that s(3) unfolding queued_words_wf [OF s(2)] q f by simp_all
    moreover have "word_queue m'" using s(4,5) sz w(2) f by (intro word_queueI [OF s(2)]) auto
    ultimately show ?thesis using s(1,4) by (simp add: word_get_def)
  qed
  show "fst (word_get m) = None \<and> word_queue (snd (word_get m)) \<and> queued_words (snd (word_get m)) = []
      \<and> unat (max_msgs (snd (word_get m))) = unat (max_msgs m)" if "queued_words m = []"
  proof -
    have "mq_entry m = 0" using that w(1) by (simp add: q mq_wf_def unat_eq_zero)
    moreover have "mq_wf (m \<lparr> mq_waiting := ws \<rparr>) fs qs" for ws using w(1) by (simp add: mq_wf_def)
    moreover from this have "queued_words (m \<lparr> mq_waiting := ws \<rparr>) = []" for ws
      using queued_words_wf [of "m \<lparr> mq_waiting := ws \<rparr>" fs qs] that q by simp
    ultimately show ?thesis using w sz by (auto simp: word_get_def rt_mq_recv_def word_queue_def)
  qed
qed

interpretation mb_mq: two_fifos mb_ok mb_items "\<lambda>mb. unat (mb_size mb)" mb_put mb_get
  word_queue queued_words "\<lambda>mq. unat (max_msgs mq)" word_put word_get ..

lemma init_word_queue:
  assumes "\<forall>b. length (mem b) = unat (mq_msg_size (rt_mq_init hs mem sz pool))" and "4 \<le> unat (mq_msg_size (rt_mq_init hs mem sz pool))"
  shows "word_queue (rt_mq_init hs mem sz pool) \<and> queued_words (rt_mq_init hs mem sz pool) = []"
proof -
  obtain fs where "mq_wf (rt_mq_init hs mem sz pool) fs []"
      "set fs = {..<unat (max_msgs (rt_mq_init hs mem sz pool))}" using init_wf [OF assms(1)] by blast
  then show ?thesis using word_queueI [of _ fs "[]"] queued_words_wf assms(2) by auto
qed

section \<open>Properties\<close>

text \<open>
  C11. A mailbox and a message queue of blocks of at least four bytes, just initialised and with room for the
  same number of messages, accept and deliver the same words in any sequence of sends and receives, and then hold
  the same words.
\<close>

theorem queue_is_a_mailbox:
  assumes "0 < n" and "length ring = unat n"
    and "\<forall>b. length (mem b) = unat (mq_msg_size (rt_mq_init hs mem sz pool))" and "4 \<le> unat (mq_msg_size (rt_mq_init hs mem sz pool))"
    and "max_msgs (rt_mq_init hs mem sz pool) = n"
    and "traffic mb_put mb_get calls (rt_mb_init ring n) = (acc, del, mb)"
    and "traffic word_put word_get calls (rt_mq_init hs mem sz pool) = (acc', del', mq)"
  shows "acc = acc' \<and> del = del' \<and> mb_items mb = queued_words mq"
proof -
  have "unat (mb_size (rt_mb_init ring n)) = unat (max_msgs (rt_mq_init hs mem sz pool))"
    using assms(5) by (simp add: rt_mb_init_def)
  with mb_mq.same_traffic [OF _ _ _ _ assms(6,7)] rt_mb_init_ok [OF assms(1,2)] init_word_queue [OF assms(3,4)]
  show ?thesis by simp
qed

theorem queue_is_a_mailbox_witness:
  "\<exists>acc del mb mq. traffic mb_put mb_get [Some 1, Some 2, None] (rt_mb_init [0] 1) = (acc, del, mb)
    \<and> traffic word_put word_get [Some 1, Some 2, None] one_block = (acc, del, mq) \<and> mb_items mb = queued_words mq"
proof -
  obtain acc del mb acc' del' mq where t: "traffic mb_put mb_get [Some 1, Some 2, None] (rt_mb_init [0] 1) = (acc, del, mb)"
      "traffic word_put word_get [Some 1, Some 2, None] one_block = (acc', del', mq)" by (metis prod_cases3)
  have m: "\<forall>b. length ((\<lambda>_. [0, 0, 0, 0] :: u8 list) b) = unat (mq_msg_size one_block)" "4 \<le> unat (mq_msg_size one_block)"
      "max_msgs one_block = 1" by (simp_all add: one_block_is)
  from queue_is_a_mailbox [OF _ _ m [unfolded one_block_def] t [unfolded one_block_def]] show ?thesis using t by simp
qed

end
