(* ===== verification/Sync.thy ===== *)
theory Sync
  imports Mailbox
begin

text \<open>
  Mutexes and events of the kernel (\<open>rt-thread/src/ipc.c\<close>). A mutex raises the priority of its owner to
  that of a thread it keeps waiting; smaller numbers are higher priorities. An event is a set of flags a
  thread may wait for. The time-outs of suspended threads are calls of their own, the assertions on the kind
  of an object and the debugging output are not modelled.
\<close>

datatype ipc_flag = RT_IPC_FLAG_FIFO | RT_IPC_FLAG_PRIO

text \<open>The loop of \<open>rt_ipc_list_suspend\<close> for a list in the order of priority.\<close>

fun insert_prio :: "(nat \<Rightarrow> u8) \<Rightarrow> nat \<Rightarrow> nat list \<Rightarrow> nat list" where
  "insert_prio p t [] = [t]"
| "insert_prio p t (s # ss) = (if p t < p s then t # s # ss else s # insert_prio p t ss)"

definition rt_ipc_list_suspend :: "ipc_flag \<Rightarrow> (nat \<Rightarrow> u8) \<Rightarrow> nat \<Rightarrow> nat list \<Rightarrow> nat list" where
  "rt_ipc_list_suspend flag p t ts = (case flag of RT_IPC_FLAG_FIFO \<Rightarrow> ts @ [t] | RT_IPC_FLAG_PRIO \<Rightarrow> insert_prio p t ts)"

section \<open>The mutex\<close>

record mutex =
  mtx_flag :: ipc_flag
  mtx_value :: u16
  original_priority :: u8
  hold :: u8
  owner :: "nat option"
  mtx_waiting :: "nat list"
  prio :: "nat \<Rightarrow> u8"          \<comment> \<open>the current priorities of the threads\<close>

definition rt_mutex_init :: "ipc_flag \<Rightarrow> (nat \<Rightarrow> u8) \<Rightarrow> mutex" where
  "rt_mutex_init flag p =
     \<lparr> mtx_flag = flag, mtx_value = 1, original_priority = 0xFF, hold = 0, owner = None,
       mtx_waiting = [], prio = p \<rparr>"

definition rt_mutex_take :: "nat \<Rightarrow> bool \<Rightarrow> mutex \<Rightarrow> (mb_status \<times> mutex) cres" where
  "rt_mutex_take self wait m =
     (if owner m = Some self then Ret (RT_EOK, m \<lparr> hold := hold m + 1 \<rparr>)
      else if mtx_value m > 0 then
        let m = m \<lparr> mtx_value := mtx_value m - 1 \<rparr>; m = m \<lparr> owner := Some self \<rparr>;
            m = m \<lparr> original_priority := prio m self \<rparr>
        in Ret (RT_EOK, m \<lparr> hold := hold m + 1 \<rparr>)
      else if \<not> wait then Ret (RT_ETIMEOUT, m)
      else case owner m of None \<Rightarrow> Fault
        | Some u \<Rightarrow>
            let m = (if prio m self < prio m u then m \<lparr> prio := (prio m)(u := prio m self) \<rparr> else m)
            in Ret (Suspended, m \<lparr> mtx_waiting := rt_ipc_list_suspend (mtx_flag m) (prio m) self (mtx_waiting m) \<rparr>))"

definition rt_mutex_release :: "nat \<Rightarrow> mutex \<Rightarrow> mb_status \<times> nat option \<times> mutex" where
  "rt_mutex_release self m =
     (if owner m \<noteq> Some self then (RT_ERROR, None, m)
      else
        let m = m \<lparr> hold := hold m - 1 \<rparr>
        in if hold m = 0 then
             let m = (if original_priority m \<noteq> prio m self then m \<lparr> prio := (prio m)(self := original_priority m) \<rparr> else m)
             in case mtx_waiting m of
                  t # ts \<Rightarrow>
                    let m = m \<lparr> owner := Some t \<rparr>; m = m \<lparr> original_priority := prio m t \<rparr>;
                        m = m \<lparr> hold := hold m + 1 \<rparr>
                    in (RT_EOK, Some t, m \<lparr> mtx_waiting := ts \<rparr>)
                | [] \<Rightarrow>
                    let m = m \<lparr> mtx_value := mtx_value m + 1 \<rparr>
                    in (RT_EOK, None, m \<lparr> owner := None, original_priority := 0xff \<rparr>)
           else (RT_EOK, None, m))"

text \<open>Any calls of any threads that are not suspended, and time-outs of those that are.\<close>

inductive mutex_run :: "ipc_flag \<Rightarrow> (nat \<Rightarrow> u8) \<Rightarrow> mutex \<Rightarrow> bool" for flag base where
  start: "mutex_run flag base (rt_mutex_init flag base)"
| take: "mutex_run flag base m \<Longrightarrow> t \<notin> set (mtx_waiting m) \<Longrightarrow> rt_mutex_take t wait m = Ret (st, m') \<Longrightarrow>
    mutex_run flag base m'"
| release: "mutex_run flag base m \<Longrightarrow> t \<notin> set (mtx_waiting m) \<Longrightarrow> rt_mutex_release t m = (st, w, m') \<Longrightarrow>
    mutex_run flag base m'"
| time_out: "mutex_run flag base m \<Longrightarrow> t \<in> set (mtx_waiting m) \<Longrightarrow>
    mutex_run flag base (m \<lparr> mtx_waiting := remove1 t (mtx_waiting m) \<rparr>)"

section \<open>Ownership and priorities\<close>

lemma insert_prio_set [simp]: "set (insert_prio p t ts) = insert t (set ts)"
  by (induction ts) auto

lemma insert_prio_distinct [simp]: "distinct (insert_prio p t ts) = (t \<notin> set ts \<and> distinct ts)"
  by (induction ts) auto

lemma insert_prio_sorted:
  "sorted_wrt (\<lambda>t u. p t \<le> p u) ts \<Longrightarrow> sorted_wrt (\<lambda>t u. p t \<le> p u) (insert_prio p t ts)"
  by (induction ts) force+

lemma insert_prio_cong: "(\<And>u. u \<in> insert t (set ts) \<Longrightarrow> p u = q u) \<Longrightarrow> insert_prio p t ts = insert_prio q t ts"
  by (induction ts) auto

definition mutex_ok :: "ipc_flag \<Rightarrow> (nat \<Rightarrow> u8) \<Rightarrow> mutex \<Rightarrow> bool" where
  "mutex_ok flag base m \<longleftrightarrow> mtx_flag m = flag \<and> distinct (mtx_waiting m)
     \<and> (case owner m of
          None \<Rightarrow> mtx_value m = 1 \<and> mtx_waiting m = [] \<and> prio m = base
        | Some u \<Rightarrow> mtx_value m = 0 \<and> u \<notin> set (mtx_waiting m) \<and> original_priority m = base u
            \<and> prio m u \<le> base u \<and> prio m u \<in> range base \<and> (\<forall>t. t \<noteq> u \<longrightarrow> prio m t = base t)
            \<and> (flag = RT_IPC_FLAG_PRIO \<longrightarrow> sorted_wrt (\<lambda>t u. base t \<le> base u) (mtx_waiting m)
                \<and> (\<forall>t\<in>set (mtx_waiting m). prio m u \<le> base t)))"

lemma mutex_take_ok:
  assumes "mutex_ok flag base m" and "t \<notin> set (mtx_waiting m)" and "rt_mutex_take t wait m = Ret (st, m')"
  shows "mutex_ok flag base m'"
proof (cases "owner m")
  case None
  then show ?thesis using assms by (auto simp: mutex_ok_def rt_mutex_take_def Let_def)
next
  case (Some u)
  show ?thesis
  proof (cases "u = t \<or> \<not> wait")
    case True
    then show ?thesis using assms Some by (auto simp: mutex_ok_def rt_mutex_take_def split: if_splits)
  next
    case False
    define p where "p = (if base t < prio m u then (prio m)(u := base t) else prio m)"
    have k: "mtx_value m = 0" "u \<notin> set (mtx_waiting m)" "prio m t = base t" "\<And>v. v \<noteq> u \<Longrightarrow> prio m v = base v"
      using assms(1) Some False by (auto simp: mutex_ok_def)
    have m': "m' = m \<lparr> prio := p, mtx_waiting := rt_ipc_list_suspend (mtx_flag m) p t (mtx_waiting m) \<rparr>"
      using assms(3) Some False k(1,3) by (auto simp: rt_mutex_take_def p_def split: if_splits)
    have "insert_prio p t (mtx_waiting m) = insert_prio base t (mtx_waiting m)"
      using k False by (intro insert_prio_cong) (auto simp: p_def)
    then show ?thesis
      using assms(1,2) Some False k
      by (auto simp: m' mutex_ok_def rt_ipc_list_suspend_def p_def insert_prio_sorted split: ipc_flag.splits)
  qed
qed

lemma mutex_release_ok:
  assumes "mutex_ok flag base m" and "rt_mutex_release t m = (st, w, m')"
  shows "mutex_ok flag base m'"
proof (cases "owner m = Some t \<and> hold m - 1 = 0")
  case False
  then have "m' = m \<or> m' = m \<lparr> hold := hold m - 1 \<rparr>" using assms(2) by (auto simp: rt_mutex_release_def Let_def split: if_splits)
  then show ?thesis using assms(1) by (auto simp: mutex_ok_def split: option.splits)
next
  case True
  then have k: "mtx_value m = 0" "t \<notin> set (mtx_waiting m)" "original_priority m = base t" "\<And>v. v \<noteq> t \<Longrightarrow> prio m v = base v"
    using assms(1) by (auto simp: mutex_ok_def)
  then have p: "(if original_priority m \<noteq> prio m t then (prio m)(t := original_priority m) else prio m) = base"
    by (intro ext) auto
  have "hold m = 1" using True by simp
  show ?thesis
  proof (cases "mtx_waiting m")
    case Nil
    then have "m' = m \<lparr> hold := 0, prio := base, mtx_value := mtx_value m + 1, owner := None, original_priority := 0xff \<rparr>"
      using assms(2) True p by (auto simp: rt_mutex_release_def Let_def split: if_splits)
    then show ?thesis using assms(1) Nil k(1) by (simp add: mutex_ok_def)
  next
    case (Cons v ts)
    then have "m' = m \<lparr> hold := 1, prio := base, owner := Some v, original_priority := base v, mtx_waiting := ts \<rparr>"
      using assms(2) True p by (auto simp: rt_mutex_release_def Let_def split: if_splits)
    then show ?thesis using assms(1) True Cons k(1) by (auto simp: mutex_ok_def)
  qed
qed

lemma mutex_run_ok: "mutex_run flag base m \<Longrightarrow> mutex_ok flag base m"
proof (induction rule: mutex_run.induct)
  case start
  then show ?case by (simp add: mutex_ok_def rt_mutex_init_def)
next
  case (take m t wait st m')
  then show ?case using mutex_take_ok by blast
next
  case (release m t st w m')
  then show ?case using mutex_release_ok by blast
next
  case (time_out m t)
  have "remove1 t (mtx_waiting m) = filter (\<lambda>u. t \<noteq> u) (mtx_waiting m)"
    using time_out.IH by (simp add: mutex_ok_def distinct_remove1_removeAll removeAll_filter_not_eq)
  then show ?case using time_out by (auto simp: mutex_ok_def sorted_wrt_filter split: option.splits)
qed

section \<open>The event\<close>

definition RT_EVENT_FLAG_AND :: u8 where "RT_EVENT_FLAG_AND = 1"
definition RT_EVENT_FLAG_OR :: u8 where "RT_EVENT_FLAG_OR = 2"
definition RT_EVENT_FLAG_CLEAR :: u8 where "RT_EVENT_FLAG_CLEAR = 4"

lemmas event_flags = RT_EVENT_FLAG_AND_def RT_EVENT_FLAG_OR_def RT_EVENT_FLAG_CLEAR_def

text \<open>A suspended thread with its \<open>event_set\<close> and \<open>event_info\<close>, in the order of suspension.\<close>

record event =
  ev_set :: u32
  ev_waiting :: "(nat \<times> u32 \<times> u8) list"

definition rt_event_init :: event where "rt_event_init = \<lparr> ev_set = 0, ev_waiting = [] \<rparr>"

definition ev_satisfied :: "u32 \<Rightarrow> u8 \<Rightarrow> u32 \<Rightarrow> bool" where
  "ev_satisfied want option s \<longleftrightarrow>
     (if and option RT_EVENT_FLAG_AND \<noteq> 0 then and want s = want
      else if and option RT_EVENT_FLAG_OR \<noteq> 0 then and want s \<noteq> 0 else False)"

text \<open>The loop over the suspended threads: the resumed ones with what they receive, the others, the set.\<close>

fun send_loop :: "(nat \<times> u32 \<times> u8) list \<Rightarrow> u32 \<Rightarrow> (nat \<times> u32) list \<times> (nat \<times> u32 \<times> u8) list \<times> u32" where
  "send_loop [] s = ([], [], s)"
| "send_loop ((t, want, option) # ws) s =
     (if ev_satisfied want option s then
        let want = (if and option RT_EVENT_FLAG_AND \<noteq> 0 then want else and want s);
            s = (if and option RT_EVENT_FLAG_CLEAR \<noteq> 0 then and s (not want) else s);
            (woken, rest, s) = send_loop ws s
        in ((t, want) # woken, rest, s)
      else let (woken, rest, s) = send_loop ws s in (woken, (t, want, option) # rest, s))"

definition rt_event_send :: "u32 \<Rightarrow> event \<Rightarrow> mb_status \<times> (nat \<times> u32) list \<times> event" where
  "rt_event_send s ev =
     (if s = 0 then (RT_ERROR, [], ev)
      else let (woken, rest, s) = send_loop (ev_waiting ev) (or (ev_set ev) s)
           in (RT_EOK, woken, \<lparr> ev_set = s, ev_waiting = rest \<rparr>))"

text \<open>Without AND and OR the assertion fails and its handler never returns.\<close>

definition rt_event_recv :: "nat \<Rightarrow> u32 \<Rightarrow> u8 \<Rightarrow> bool \<Rightarrow> event \<Rightarrow> (mb_status \<times> u32 \<times> event) cres" where
  "rt_event_recv self s option wait ev =
     (if s = 0 then Ret (RT_ERROR, 0, ev)
      else if and option RT_EVENT_FLAG_AND = 0 \<and> and option RT_EVENT_FLAG_OR = 0 then Spin
      else if ev_satisfied s option (ev_set ev) then
        Ret (RT_EOK, and (ev_set ev) s,
             if and option RT_EVENT_FLAG_CLEAR \<noteq> 0 then ev \<lparr> ev_set := and (ev_set ev) (not s) \<rparr> else ev)
      else if \<not> wait then Ret (RT_ETIMEOUT, 0, ev)
      else Ret (Suspended, 0, ev \<lparr> ev_waiting := ev_waiting ev @ [(self, s, option)] \<rparr>))"

inductive event_run :: "event \<Rightarrow> bool" where
  start: "event_run rt_event_init"
| send: "event_run ev \<Longrightarrow> rt_event_send s ev = (st, woken, ev') \<Longrightarrow> event_run ev'"
| recv: "event_run ev \<Longrightarrow> rt_event_recv t s option wait ev = Ret (st, got, ev') \<Longrightarrow> event_run ev'"
| time_out: "event_run ev \<Longrightarrow> event_run (ev \<lparr> ev_waiting := filter (\<lambda>(u, _, _). u \<noteq> t) (ev_waiting ev) \<rparr>)"

section \<open>No thread sleeps through its event\<close>

text \<open>A set with fewer flags satisfies fewer threads.\<close>

lemma and_absorbed: "and x (and s r) = x \<Longrightarrow> and x s = (x :: u32)"
proof (rule bit_word_eqI)
  fix n assume "and x (and s r) = x"
  then have "bit (and x (and s r)) n = bit x n" by simp
  then show "bit (and x s) n = bit x n" by (auto simp: bit_and_iff)
qed

lemma ev_satisfied_mono: "ev_satisfied want option (and s r) \<Longrightarrow> ev_satisfied want option s"
  using and_absorbed [of want s r]
  by (auto simp: ev_satisfied_def and.assoc [symmetric] split: if_splits)

text \<open>What the loop does for one satisfied thread.\<close>

lemma send_loop_resumes:
  assumes "ev_satisfied want option s" and "send_loop ((t, want, option) # ws) s = (woken, rest, s')"
  shows "\<exists>r got wk. send_loop ws (and s r) = (wk, rest, s') \<and> woken = (t, got) # wk \<and> ev_satisfied want option got
    \<and> got = (if and option RT_EVENT_FLAG_AND \<noteq> 0 then want else and want s)"
proof -
  define got where "got = (if and option RT_EVENT_FLAG_AND \<noteq> 0 then want else and want s)"
  define r where "r = (if and option RT_EVENT_FLAG_CLEAR \<noteq> 0 then not got else - 1)"
  have "(if and option RT_EVENT_FLAG_CLEAR \<noteq> 0 then and s (not got) else s) = and s r" by (simp add: r_def)
  moreover obtain wk rs s1 where l: "send_loop ws (and s r) = (wk, rs, s1)" by (metis prod_cases3)
  ultimately have "send_loop ((t, want, option) # ws) s = ((t, got) # wk, rs, s1)"
    using assms(1) unfolding send_loop.simps Let_def got_def [symmetric] by simp
  moreover have "and want got = got \<and> (and option RT_EVENT_FLAG_AND \<noteq> 0 \<longrightarrow> got = want)" by (simp add: got_def and.assoc [symmetric])
  then have "ev_satisfied want option got"
    using assms(1) unfolding ev_satisfied_def by (auto simp: got_def)
  ultimately show ?thesis using l assms(2) got_def by auto
qed

lemma send_loop_passes:
  assumes "\<not> ev_satisfied want option s" and "send_loop ((t, want, option) # ws) s = (woken, rest, s')"
  shows "\<exists>rs. send_loop ws s = (woken, rs, s') \<and> rest = (t, want, option) # rs"
  using assms by (cases "send_loop ws s") auto

lemma send_loop_shrinks: "send_loop ws s = (woken, rest, s') \<Longrightarrow> \<exists>r. s' = and s r"
proof (induction ws arbitrary: s woken rest)
  case Nil
  then have "s' = and s (- 1)" by simp
  then show ?case ..
next
  case (Cons w ws)
  obtain t want option where w: "w = (t, want, option)" by (metis prod_cases3)
  show ?case
  proof (cases "ev_satisfied want option s")
    case True
    from send_loop_resumes [OF True Cons.prems [unfolded w]] obtain r wk where "send_loop ws (and s r) = (wk, rest, s')" by blast
    from Cons.IH [OF this] show ?thesis by (metis and.assoc)
  next
    case False
    from send_loop_passes [OF False Cons.prems [unfolded w]] show ?thesis using Cons.IH by blast
  qed
qed

definition ev_ok :: "event \<Rightarrow> bool" where
  "ev_ok ev \<longleftrightarrow> (\<forall>(t, want, option)\<in>set (ev_waiting ev). \<not> ev_satisfied want option (ev_set ev))"

lemma send_loop_leaves:
  "send_loop ws s = (woken, rest, s') \<Longrightarrow> (\<forall>(t, want, option)\<in>set rest. \<not> ev_satisfied want option s')"
proof (induction ws arbitrary: s woken rest)
  case Nil
  then show ?case by simp
next
  case (Cons w ws)
  obtain t want option where w: "w = (t, want, option)" by (metis prod_cases3)
  show ?case
  proof (cases "ev_satisfied want option s")
    case True
    from send_loop_resumes [OF True Cons.prems [unfolded w]] show ?thesis using Cons.IH by blast
  next
    case False
    from send_loop_passes [OF False Cons.prems [unfolded w]] obtain rs where
      l: "send_loop ws s = (woken, rs, s')" "rest = (t, want, option) # rs" by blast
    then have "\<not> ev_satisfied want option s'" using send_loop_shrinks [OF l(1)] False ev_satisfied_mono by blast
    then show ?thesis using Cons.IH [OF l(1)] l(2) by simp
  qed
qed

lemma event_run_ok: "event_run ev \<Longrightarrow> ev_ok ev"
proof (induction rule: event_run.induct)
  case start
  then show ?case by (simp add: ev_ok_def rt_event_init_def)
next
  case (send ev s st woken ev')
  show ?case
  proof (cases "s = 0")
    case True
    then show ?thesis using send by (simp add: rt_event_send_def)
  next
    case False
    obtain wk rest s' where l: "send_loop (ev_waiting ev) (or (ev_set ev) s) = (wk, rest, s')" by (metis prod_cases3)
    then show ?thesis using send False send_loop_leaves [OF l] by (auto simp: rt_event_send_def ev_ok_def)
  qed
next
  case (recv ev t s option wait st got ev')
  have m: "\<not> ev_satisfied w x (and (ev_set ev) r)" if "(u, w, x) \<in> set (ev_waiting ev)" for u w x r
    using recv.IH that ev_satisfied_mono unfolding ev_ok_def by blast
  show ?case using recv.hyps(2) recv.IH m
    by (auto simp: rt_event_recv_def ev_ok_def split: if_splits)
next
  case (time_out ev t)
  then show ?case by (auto simp: ev_ok_def)
qed

section \<open>Properties\<close>


text \<open>
  C10. Whatever threads have sent and received on an event, with time-outs at any moment, no thread is
  suspended whose flags the event has: none is passed over by a send, although a send clears flags while
  it goes through the list. A thread that a send resumes gets flags that satisfy it and that were in the
  event or sent.
\<close>

theorem no_thread_misses_its_event:
  assumes "event_run ev"
  shows "(\<forall>(t, want, option)\<in>set (ev_waiting ev). \<not> ev_satisfied want option (ev_set ev))
    \<and> (\<forall>s t got. (t, got) \<in> set (fst (snd (rt_event_send s ev))) \<longrightarrow>
         (\<exists>want option. (t, want, option) \<in> set (ev_waiting ev) \<and> ev_satisfied want option got)
         \<and> and got (or (ev_set ev) s) = got)"
proof -
  have woken: "(\<exists>want option. (t, want, option) \<in> set ws \<and> ev_satisfied want option got) \<and> and got s = got"
    if "send_loop ws s = (woken, rest, s')" "(t, got) \<in> set woken" for ws s woken rest s' t got
    using that
  proof (induction ws arbitrary: s woken rest)
    case Nil
    then show ?case by simp
  next
    case (Cons w ws)
    obtain u want option where w: "w = (u, want, option)" by (metis prod_cases3)
    show ?case
    proof (cases "ev_satisfied want option s")
      case True
      from send_loop_resumes [OF True Cons.prems(1) [unfolded w]] obtain r g wk where
        r: "send_loop ws (and s r) = (wk, rest, s')" "woken = (u, g) # wk" "ev_satisfied want option g"
          "g = (if and option RT_EVENT_FLAG_AND \<noteq> 0 then want else and want s)" by blast
      have "and g s = g" using r(4) True by (auto simp: ev_satisfied_def and.assoc)
      moreover note and_absorbed [of got s r]
      ultimately show ?thesis using r Cons.IH [OF r(1)] Cons.prems(2) w by auto
    next
      case False
      from send_loop_passes [OF False Cons.prems(1) [unfolded w]] obtain rs where
        l: "send_loop ws s = (woken, rs, s')" by blast
      from Cons.IH [OF l Cons.prems(2)] show ?thesis by auto
    qed
  qed
  have "(\<exists>want option. (t, want, option) \<in> set (ev_waiting ev) \<and> ev_satisfied want option got)
      \<and> and got (or (ev_set ev) s) = got" if "(t, got) \<in> set (fst (snd (rt_event_send s ev)))" for s t got
  proof -
    obtain wk rest s' where l: "send_loop (ev_waiting ev) (or (ev_set ev) s) = (wk, rest, s')" by (metis prod_cases3)
    then have "(t, got) \<in> set wk" using that by (auto simp: rt_event_send_def split: if_splits)
    from woken [OF l this] show ?thesis .
  qed
  moreover have "ev_ok ev" by (rule event_run_ok [OF assms])
  ultimately show ?thesis by (simp add: ev_ok_def)
qed

text \<open>Three threads with priorities 20, 15 and 5 take the mutex in this order.\<close>

definition three :: "nat \<Rightarrow> u8" where "three t = (if t = 0 then 20 else if t = 1 then 15 else 5)"

definition three_take :: "ipc_flag \<Rightarrow> mutex" where
  "three_take flag = \<lparr> mtx_flag = flag, mtx_value = 0, original_priority = 20, hold = 1, owner = Some 0,
     mtx_waiting = (case flag of RT_IPC_FLAG_FIFO \<Rightarrow> [1, 2] | RT_IPC_FLAG_PRIO \<Rightarrow> [2, 1]), prio = three(0 := 5) \<rparr>"

lemma three_take_run: "mutex_run flag three (three_take flag)"
proof -
  define m1 where "m1 = \<lparr> mtx_flag = flag, mtx_value = 0, original_priority = 20, hold = 1, owner = Some 0,
     mtx_waiting = [], prio = three \<rparr>"
  define m2 where "m2 = m1 \<lparr> mtx_waiting := [1], prio := three(0 := 15) \<rparr>"
  have "rt_mutex_take 0 True (rt_mutex_init flag three) = Ret (RT_EOK, m1)"
    by (simp add: rt_mutex_take_def rt_mutex_init_def m1_def three_def)
  from mutex_run.take [OF mutex_run.start _ this] have r1: "mutex_run flag three m1" by (simp add: rt_mutex_init_def)
  have "rt_mutex_take 1 True m1 = Ret (Suspended, m2)"
    by (cases flag) (simp_all add: rt_mutex_take_def m1_def m2_def three_def rt_ipc_list_suspend_def)
  from mutex_run.take [OF r1 _ this] have r2: "mutex_run flag three m2" by (simp add: m1_def)
  have "rt_mutex_take 2 True m2 = Ret (Suspended, three_take flag)"
    by (cases flag)
      (simp_all add: rt_mutex_take_def m1_def m2_def three_def three_take_def rt_ipc_list_suspend_def)
  from mutex_run.take [OF r2 _ this] show ?thesis by (simp add: m2_def)
qed


text \<open>
  With the flag \<open>RT_IPC_FLAG_FIFO\<close> the new owner may have a lower priority than a thread that waits: its
  priority is not raised when the mutex is handed over.
\<close>

lemma fifo_mutex_inverts:
  "\<exists>m. mutex_run RT_IPC_FLAG_FIFO three m \<and> owner m = Some 1 \<and> prio m 1 = 15 \<and> mtx_waiting m = [2] \<and> prio m 2 = 5"
proof -
  define m where "m = (three_take RT_IPC_FLAG_FIFO)
    \<lparr> hold := 1, prio := three(0 := 20), owner := Some 1, original_priority := 15, mtx_waiting := [2] \<rparr>"
  have "rt_mutex_release 0 (three_take RT_IPC_FLAG_FIFO) = (RT_EOK, Some 1, m)"
    by (simp add: rt_mutex_release_def three_take_def m_def three_def Let_def)
  from mutex_run.release [OF three_take_run _ this] have "mutex_run RT_IPC_FLAG_FIFO three m"
    by (simp add: three_take_def)
  then show ?thesis by (intro exI [of _ m]) (simp add: m_def three_def)
qed

text \<open>A thread that waits for the flag 1 is not resumed by the flags 78 hex.\<close>

theorem no_thread_misses_its_event_witness:
  "\<exists>ev. event_run ev \<and> ev_waiting ev = [(1, 1, 6)] \<and> ev_set ev = 0x78 \<and> \<not> ev_satisfied 1 6 (ev_set ev)"
proof -
  define e1 where "e1 = \<lparr> ev_set = 0, ev_waiting = [(1, 1, 6)] \<rparr>"
  define e2 where "e2 = \<lparr> ev_set = 0x78, ev_waiting = [(1, 1, 6)] \<rparr>"
  have "rt_event_recv 1 1 6 True rt_event_init = Ret (Suspended, 0, e1)"
    by (simp add: rt_event_recv_def rt_event_init_def e1_def event_flags ev_satisfied_def)
  then have "event_run e1" by (rule event_run.recv [OF event_run.start])
  moreover have "rt_event_send 0x78 e1 = (RT_EOK, [], e2)"
    by (simp add: rt_event_send_def e1_def e2_def event_flags ev_satisfied_def)
  ultimately have "event_run e2" by (rule event_run.send)
  from no_thread_misses_its_event [OF this] show ?thesis
    using \<open>event_run e2\<close> by (intro exI [of _ e2]) (simp add: e2_def)
qed

end
