(* ===== verification/Semaphore.thy ===== *)
theory Semaphore
  imports Sync Msg_Queue Dm9000
begin

text \<open>
  The semaphores of the kernel (\<open>rt-thread/src/ipc.c\<close>), and the calls that reset, detach, create and
  delete its objects of all kinds. A thread these calls resume finds \<open>RT_ERROR\<close> as its error number,
  which its own call then returns. The list of the system's objects is not modelled, nor are the
  assertions on the kind of an object; \<open>p\<close> are the priorities of the threads.
\<close>

section \<open>All threads of an object\<close>

text \<open>The loop takes the first thread out of the list until the list is empty; \<open>err\<close> are the error numbers.\<close>

fun rt_ipc_list_resume_all :: "nat list \<Rightarrow> (nat \<Rightarrow> mb_status) \<Rightarrow> nat list \<times> (nat \<Rightarrow> mb_status)" where
  "rt_ipc_list_resume_all [] err = ([], err)"
| "rt_ipc_list_resume_all (t # ts) err = rt_ipc_list_resume_all ts (err(t := RT_ERROR))"

lemma resume_all_resumes [simp]:
  "rt_ipc_list_resume_all ts err = ([], \<lambda>t. if t \<in> set ts then RT_ERROR else err t)"
  by (induction ts arbitrary: err) (auto simp: fun_eq_iff)

datatype ipc_cmd = RT_IPC_CMD_UNKNOWN | RT_IPC_CMD_RESET

section \<open>The semaphore\<close>

record semaphore =
  sem_flag :: ipc_flag
  sem_value :: u16
  sem_waiting :: "nat list"

definition rt_sem_init :: "u32 \<Rightarrow> ipc_flag \<Rightarrow> semaphore" where
  "rt_sem_init v flag = \<lparr> sem_flag = flag, sem_value = ucast v, sem_waiting = [] \<rparr>"

definition rt_sem_take :: "(nat \<Rightarrow> u8) \<Rightarrow> nat \<Rightarrow> bool \<Rightarrow> semaphore \<Rightarrow> mb_status \<times> semaphore" where
  "rt_sem_take p self wait sem =
     (if sem_value sem > 0 then (RT_EOK, sem \<lparr> sem_value := sem_value sem - 1 \<rparr>)
      else if \<not> wait then (RT_ETIMEOUT, sem)
      else (Suspended, sem \<lparr> sem_waiting := rt_ipc_list_suspend (sem_flag sem) p self (sem_waiting sem) \<rparr>))"

definition rt_sem_trytake :: "(nat \<Rightarrow> u8) \<Rightarrow> nat \<Rightarrow> semaphore \<Rightarrow> mb_status \<times> semaphore" where
  "rt_sem_trytake p self sem = rt_sem_take p self False sem"

definition rt_sem_release :: "semaphore \<Rightarrow> mb_status \<times> nat option \<times> semaphore" where
  "rt_sem_release sem =
     (case sem_waiting sem of
        t # ts \<Rightarrow> (RT_EOK, Some t, sem \<lparr> sem_waiting := ts \<rparr>)
      | [] \<Rightarrow> (RT_EOK, None, sem \<lparr> sem_value := sem_value sem + 1 \<rparr>))"

definition rt_sem_detach :: "semaphore \<Rightarrow> (nat \<Rightarrow> mb_status) \<Rightarrow> mb_status \<times> semaphore \<times> (nat \<Rightarrow> mb_status)" where
  "rt_sem_detach sem err =
     (let (ts, err) = rt_ipc_list_resume_all (sem_waiting sem) err in (RT_EOK, sem \<lparr> sem_waiting := ts \<rparr>, err))"

definition rt_sem_control ::
    "ipc_cmd \<Rightarrow> u32 \<Rightarrow> semaphore \<Rightarrow> (nat \<Rightarrow> mb_status) \<Rightarrow> mb_status \<times> semaphore \<times> (nat \<Rightarrow> mb_status)" where
  "rt_sem_control cmd arg sem err =
     (if cmd = RT_IPC_CMD_RESET then
        let (ts, err) = rt_ipc_list_resume_all (sem_waiting sem) err;
            sem = sem \<lparr> sem_waiting := ts \<rparr>
        in (RT_EOK, sem \<lparr> sem_value := ucast arg \<rparr>, err)
      else (RT_ERROR, sem, err))"

text \<open>
  Any calls of any threads that are not suspended, and time-outs of those that are, with the permits given
  (by the initial value or the last reset, and by releases since) and those granted to threads.
\<close>

inductive sem_run :: "ipc_flag \<Rightarrow> (nat \<Rightarrow> u8) \<Rightarrow> semaphore \<Rightarrow> nat \<Rightarrow> nat \<Rightarrow> bool" for flag p where
  start: "sem_run flag p (rt_sem_init v flag) (unat (ucast v :: u16)) 0"
| take: "sem_run flag p sem given granted \<Longrightarrow> t \<notin> set (sem_waiting sem) \<Longrightarrow> rt_sem_take p t wait sem = (st, sem') \<Longrightarrow>
    sem_run flag p sem' given (if st = RT_EOK then granted + 1 else granted)"
| release: "sem_run flag p sem given granted \<Longrightarrow> rt_sem_release sem = (st, woken, sem') \<Longrightarrow>
    sem_run flag p sem' (given + 1) (if woken = None then granted else granted + 1)"
| time_out: "sem_run flag p sem given granted \<Longrightarrow> t \<in> set (sem_waiting sem) \<Longrightarrow>
    sem_run flag p (sem \<lparr> sem_waiting := remove1 t (sem_waiting sem) \<rparr>) given granted"
| reset: "sem_run flag p sem given granted \<Longrightarrow> rt_sem_control RT_IPC_CMD_RESET v sem err = (st, sem', err') \<Longrightarrow>
    sem_run flag p sem' (unat (ucast v :: u16)) 0"

definition sem_ok :: "ipc_flag \<Rightarrow> (nat \<Rightarrow> u8) \<Rightarrow> semaphore \<Rightarrow> nat \<Rightarrow> nat \<Rightarrow> bool" where
  "sem_ok flag p sem given granted \<longleftrightarrow> sem_flag sem = flag \<and> distinct (sem_waiting sem)
     \<and> (sem_waiting sem \<noteq> [] \<longrightarrow> sem_value sem = 0)
     \<and> (flag = RT_IPC_FLAG_PRIO \<longrightarrow> sorted_wrt (\<lambda>t u. p t \<le> p u) (sem_waiting sem))
     \<and> (given < 65536 \<longrightarrow> unat (sem_value sem) + granted = given)"

lemma sem_take_ok:
  assumes "sem_ok flag p sem given granted" and "t \<notin> set (sem_waiting sem)" and "rt_sem_take p t wait sem = (st, sem')"
  shows "sem_ok flag p sem' given (if st = RT_EOK then granted + 1 else granted)"
proof (cases "sem_value sem > 0")
  case True
  then have "0 < unat (sem_value sem)" by (simp add: unat_gt_0)
  moreover from this have "unat (sem_value sem - 1) = unat (sem_value sem) - 1"
    using True by (simp add: unat_minus_one unat_gt_0)
  ultimately show ?thesis using assms True by (auto simp: sem_ok_def rt_sem_take_def)
next
  case False
  then have "sem_value sem = 0" by (simp add: word_gt_0)
  then show ?thesis using assms
    by (auto simp: sem_ok_def rt_sem_take_def rt_ipc_list_suspend_def insert_prio_sorted
        split: if_splits ipc_flag.splits)
qed

lemma sem_release_ok:
  assumes "sem_ok flag p sem given granted" and "rt_sem_release sem = (st, woken, sem')"
  shows "sem_ok flag p sem' (given + 1) (if woken = None then granted else granted + 1)"
proof (cases "sem_waiting sem")
  case (Cons t ts)
  then show ?thesis using assms by (auto simp: sem_ok_def rt_sem_release_def)
next
  case Nil
  have "unat (sem_value sem + 1) = unat (sem_value sem) + 1" if "given + 1 < 65536"
    using that assms(1) by (intro unat_suc_u16) (auto simp: sem_ok_def)
  then show ?thesis using assms Nil by (auto simp: sem_ok_def rt_sem_release_def)
qed

lemma sem_run_ok: "sem_run flag p sem given granted \<Longrightarrow> sem_ok flag p sem given granted"
proof (induction rule: sem_run.induct)
  case (start v)
  then show ?case by (simp add: sem_ok_def rt_sem_init_def)
next
  case (take sem given granted t wait st sem')
  then show ?case by (intro sem_take_ok)
next
  case (release sem given granted st woken sem')
  then show ?case by (intro sem_release_ok)
next
  case (time_out sem given granted t)
  have "remove1 t (sem_waiting sem) = filter (\<lambda>u. t \<noteq> u) (sem_waiting sem)"
    using time_out.IH by (simp add: sem_ok_def distinct_remove1_removeAll removeAll_filter_not_eq)
  then show ?case using time_out by (auto simp: sem_ok_def sorted_wrt_filter)
next
  case (reset sem given granted v err st sem' err')
  then show ?case by (auto simp: sem_ok_def rt_sem_control_def)
qed

text \<open>
  Whatever threads have taken, released and reset a semaphore, with time-outs at any moment: no thread
  is suspended while a permit is left. As long as no more than 65535 permits have been given, the value
  is the number of those not granted, so no permit is lost and none is granted twice. With the
  flag for priorities a release resumes a thread of the highest priority among those that wait.
\<close>

theorem permits_are_conserved:
  assumes "sem_run flag p sem given granted"
  shows "(sem_waiting sem \<noteq> [] \<longrightarrow> sem_value sem = 0)
    \<and> (given < 65536 \<longrightarrow> granted \<le> given \<and> unat (sem_value sem) = given - granted)
    \<and> (\<forall>t st sem'. rt_sem_release sem = (st, Some t, sem') \<longrightarrow>
         t \<in> set (sem_waiting sem) \<and> t \<notin> set (sem_waiting sem')
         \<and> (flag = RT_IPC_FLAG_PRIO \<longrightarrow> (\<forall>u\<in>set (sem_waiting sem). p t \<le> p u)))"
proof -
  have ok: "sem_ok flag p sem given granted" by (rule sem_run_ok [OF assms])
  then have "t \<in> set (sem_waiting sem) \<and> t \<notin> set (sem_waiting sem')
      \<and> (flag = RT_IPC_FLAG_PRIO \<longrightarrow> (\<forall>u\<in>set (sem_waiting sem). p t \<le> p u))"
    if "rt_sem_release sem = (st, Some t, sem')" for t st sem'
    using that by (cases "sem_waiting sem") (auto simp: rt_sem_release_def sem_ok_def)
  with ok show ?thesis by (auto simp: sem_ok_def)
qed

text \<open>Thread 7 takes the only permit, 3 and then 5 wait, 5 with the higher priority: it gets the next permit.\<close>

lemma permits_are_conserved_witness:
  "\<exists>sem. sem_run RT_IPC_FLAG_PRIO (\<lambda>t. if t = 5 then 1 else 2) sem 1 1 \<and> sem_value sem = 0
     \<and> rt_sem_release sem = (RT_EOK, Some 5, sem \<lparr> sem_waiting := [3] \<rparr>)"
proof -
  define p :: "nat \<Rightarrow> u8" where "p = (\<lambda>t. if t = 5 then 1 else 2)"
  define held where "held ts = \<lparr> sem_flag = RT_IPC_FLAG_PRIO, sem_value = 0, sem_waiting = ts \<rparr>" for ts :: "nat list"
  have "rt_sem_take p 7 True (rt_sem_init 1 RT_IPC_FLAG_PRIO) = (RT_EOK, held [])"
    by (simp add: rt_sem_take_def rt_sem_init_def held_def)
  from sem_run.take [OF sem_run.start _ this] have r1: "sem_run RT_IPC_FLAG_PRIO p (held []) 1 1"
    by (simp add: rt_sem_init_def)
  have "rt_sem_take p 3 True (held []) = (Suspended, held [3])"
    by (simp add: rt_sem_take_def held_def rt_ipc_list_suspend_def)
  from sem_run.take [OF r1 _ this] have r2: "sem_run RT_IPC_FLAG_PRIO p (held [3]) 1 1" by (simp add: held_def)
  have "rt_sem_take p 5 True (held [3]) = (Suspended, held [5, 3])"
    by (simp add: rt_sem_take_def held_def rt_ipc_list_suspend_def p_def)
  from sem_run.take [OF r2 _ this] have run: "sem_run RT_IPC_FLAG_PRIO p (held [5, 3]) 1 1" by (simp add: held_def)
  from permits_are_conserved [OF run] have "unat (sem_value (held [5, 3])) = 0" by simp
  with run show ?thesis unfolding p_def
    by (intro exI [of _ "held [5, 3]"]) (simp add: held_def rt_sem_release_def)
qed

text \<open>The 65536th permit is lost: the value goes from 65535 back to 0.\<close>

lemma permits_wrap_around:
  "rt_sem_release (rt_sem_init 65535 flag) = (RT_EOK, None, rt_sem_init 0 flag)"
  by (simp add: rt_sem_release_def rt_sem_init_def)

text \<open>The lock of the network driver is a semaphore nobody is suspended on.\<close>

lemma lock_is_a_semaphore:
  assumes "sem_waiting sem = []" and "dm9000lock s = unat (sem_value sem)" and "dm9000lock s < 65535"
  shows "(case take_lock s of
        Some s' \<Rightarrow> fst (rt_sem_take p self True sem) = RT_EOK
          \<and> dm9000lock s' = unat (sem_value (snd (rt_sem_take p self True sem)))
      | None \<Rightarrow> fst (rt_sem_take p self True sem) = Suspended)
    \<and> dm9000lock (give_lock s) = unat (sem_value (snd (snd (rt_sem_release sem))))"
proof -
  have "unat (sem_value sem + 1) = unat (sem_value sem) + 1" using assms by (intro unat_suc_u16) simp
  moreover have "unat (sem_value sem - 1) = unat (sem_value sem) - 1" if "sem_value sem > 0"
    using that by (simp add: unat_minus_one unat_gt_0)
  ultimately show ?thesis using assms(1,2)
    by (cases "sem_value sem = 0")
      (auto simp: take_lock_def give_lock_def rt_sem_take_def rt_sem_release_def unat_gt_0 word_gt_0)
qed

section \<open>Reset and detaching of the other objects\<close>

definition rt_mutex_detach :: "mutex \<Rightarrow> (nat \<Rightarrow> mb_status) \<Rightarrow> mb_status \<times> mutex \<times> (nat \<Rightarrow> mb_status)" where
  "rt_mutex_detach m err =
     (let (ts, err) = rt_ipc_list_resume_all (mtx_waiting m) err in (RT_EOK, m \<lparr> mtx_waiting := ts \<rparr>, err))"

definition rt_mutex_control :: "ipc_cmd \<Rightarrow> mutex \<Rightarrow> mb_status \<times> mutex" where
  "rt_mutex_control cmd m = (RT_ERROR, m)"

definition rt_event_detach :: "event \<Rightarrow> (nat \<Rightarrow> mb_status) \<Rightarrow> mb_status \<times> event \<times> (nat \<Rightarrow> mb_status)" where
  "rt_event_detach ev err =
     (let (_, err) = rt_ipc_list_resume_all (map fst (ev_waiting ev)) err in (RT_EOK, ev \<lparr> ev_waiting := [] \<rparr>, err))"

definition rt_event_control ::
    "ipc_cmd \<Rightarrow> event \<Rightarrow> (nat \<Rightarrow> mb_status) \<Rightarrow> mb_status \<times> event \<times> (nat \<Rightarrow> mb_status)" where
  "rt_event_control cmd ev err =
     (if cmd = RT_IPC_CMD_RESET then
        let (_, err) = rt_ipc_list_resume_all (map fst (ev_waiting ev)) err;
            ev = ev \<lparr> ev_waiting := [] \<rparr>
        in (RT_EOK, ev \<lparr> ev_set := 0 \<rparr>, err)
      else (RT_ERROR, ev, err))"

definition rt_mb_detach :: "mailbox \<Rightarrow> (nat \<Rightarrow> mb_status) \<Rightarrow> mb_status \<times> mailbox \<times> (nat \<Rightarrow> mb_status)" where
  "rt_mb_detach mb err =
     (let (ts, err) = rt_ipc_list_resume_all (suspend_thread mb) err;
          (ss, err) = rt_ipc_list_resume_all (suspend_sender_thread mb) err
      in (RT_EOK, mb \<lparr> suspend_thread := ts, suspend_sender_thread := ss \<rparr>, err))"

definition rt_mb_control ::
    "ipc_cmd \<Rightarrow> mailbox \<Rightarrow> (nat \<Rightarrow> mb_status) \<Rightarrow> mb_status \<times> mailbox \<times> (nat \<Rightarrow> mb_status)" where
  "rt_mb_control cmd mb err =
     (if cmd = RT_IPC_CMD_RESET then
        let (ts, err) = rt_ipc_list_resume_all (suspend_thread mb) err;
            (ss, err) = rt_ipc_list_resume_all (suspend_sender_thread mb) err;
            mb = mb \<lparr> suspend_thread := ts, suspend_sender_thread := ss \<rparr>
        in (RT_EOK, mb \<lparr> entry := 0, in_offset := 0, out_offset := 0 \<rparr>, err)
      else (RT_ERROR, mb, err))"

definition rt_mq_detach :: "msgqueue \<Rightarrow> (nat \<Rightarrow> mb_status) \<Rightarrow> mb_status \<times> msgqueue \<times> (nat \<Rightarrow> mb_status)" where
  "rt_mq_detach mq err =
     (let (ts, err) = rt_ipc_list_resume_all (mq_waiting mq) err in (RT_EOK, mq \<lparr> mq_waiting := ts \<rparr>, err))"

text \<open>The loop that gives all queued blocks back; it would go round for ever in a circular list.\<close>

partial_function (option) release_all :: "msgqueue \<Rightarrow> msgqueue option" where
  "release_all mq =
     (case queue_head mq of
        None \<Rightarrow> Some mq
      | Some b \<Rightarrow>
          let mq = mq \<lparr> queue_head := next_of mq b \<rparr>;
              mq = (if queue_tail mq = Some b then mq \<lparr> queue_tail := None \<rparr> else mq);
              mq = mq \<lparr> next_of := (next_of mq)(b := queue_free mq) \<rparr>
          in release_all (mq \<lparr> queue_free := Some b \<rparr>))"

definition rt_mq_control ::
    "ipc_cmd \<Rightarrow> msgqueue \<Rightarrow> (nat \<Rightarrow> mb_status) \<Rightarrow> (mb_status \<times> msgqueue \<times> (nat \<Rightarrow> mb_status)) option" where
  "rt_mq_control cmd mq err =
     (if cmd = RT_IPC_CMD_RESET then
        let (ts, err) = rt_ipc_list_resume_all (mq_waiting mq) err
        in Option.bind (release_all (mq \<lparr> mq_waiting := ts \<rparr>)) (\<lambda>mq. Some (RT_EOK, mq \<lparr> mq_entry := 0 \<rparr>, err))
      else Some (RT_ERROR, mq, err))"

text \<open>A reset mailbox is an empty one of the same size.\<close>

lemma rt_mb_control_empties:
  assumes "mb_ok mb" and "rt_mb_control RT_IPC_CMD_RESET mb err = (st, mb', err')"
  shows "mb_ok mb' \<and> mb_items mb' = [] \<and> mb_size mb' = mb_size mb
    \<and> mb' = rt_mb_init (msg_pool mb) (mb_size mb)
    \<and> (\<forall>t\<in>set (suspend_thread mb) \<union> set (suspend_sender_thread mb). err' t = RT_ERROR)"
  using assms by (auto simp: rt_mb_control_def rt_mb_init_def mb_ok_def mb_items_def)

text \<open>The reset of a message queue ends, and all its blocks are free; those in the hand of a thread stay there.\<close>

lemma release_all_frees:
  assumes "block_chain (next_of mq) (queue_free mq) fs" and "block_chain (next_of mq) (queue_head mq) qs"
    and "queue_tail mq = (if qs = [] then None else Some (last qs))" and "distinct (fs @ qs)"
  shows "\<exists>mq'. release_all mq = Some mq' \<and> block_chain (next_of mq') (queue_free mq') (rev qs @ fs)
    \<and> queue_head mq' = None \<and> queue_tail mq' = None \<and> max_msgs mq' = max_msgs mq \<and> data_of mq' = data_of mq
    \<and> mq_msg_size mq' = mq_msg_size mq \<and> mq_waiting mq' = mq_waiting mq"
  using assms
proof (induction qs arbitrary: mq fs)
  case Nil
  then show ?case by (simp add: release_all.simps)
next
  case (Cons b qs)
  define mq1 where "mq1 = (let mq = mq \<lparr> queue_head := next_of mq b \<rparr>;
              mq = (if queue_tail mq = Some b then mq \<lparr> queue_tail := None \<rparr> else mq);
              mq = mq \<lparr> next_of := (next_of mq)(b := queue_free mq) \<rparr>
          in mq \<lparr> queue_free := Some b \<rparr>)"
  have l: "last qs \<noteq> b" if "qs \<noteq> []" using Cons.prems(4) last_in_set [OF that] by auto
  have m1: "next_of mq1 = (next_of mq)(b := queue_free mq)" "queue_free mq1 = Some b" "queue_head mq1 = next_of mq b"
    "queue_tail mq1 = (if qs = [] then None else Some (last qs))"
    using Cons.prems(3) l by (auto simp: mq1_def Let_def)
  then have c: "block_chain (next_of mq1) (Some b) (b # fs)" "block_chain (next_of mq1) (next_of mq b) qs"
    using Cons.prems by simp_all
  have "release_all mq = release_all mq1"
    using Cons.prems(2) by (subst release_all.simps) (simp add: mq1_def Let_def)
  moreover have "\<exists>mq'. release_all mq1 = Some mq' \<and> block_chain (next_of mq') (queue_free mq') (rev qs @ b # fs)
    \<and> queue_head mq' = None \<and> queue_tail mq' = None \<and> max_msgs mq' = max_msgs mq1 \<and> data_of mq' = data_of mq1
    \<and> mq_msg_size mq' = mq_msg_size mq1 \<and> mq_waiting mq' = mq_waiting mq1"
    by (rule Cons.IH) (use Cons.prems c in \<open>simp_all add: m1(2-4)\<close>)
  moreover have "max_msgs mq1 = max_msgs mq" "data_of mq1 = data_of mq" "mq_msg_size mq1 = mq_msg_size mq"
    "mq_waiting mq1 = mq_waiting mq" by (simp_all add: mq1_def Let_def)
  ultimately show ?case by simp
qed

lemma rt_mq_control_empties:
  assumes "mq_wf mq fs qs"
  shows "\<exists>mq' err'. rt_mq_control RT_IPC_CMD_RESET mq err = Some (RT_EOK, mq', err') \<and> mq_wf mq' (rev qs @ fs) []
    \<and> mq_waiting mq' = [] \<and> max_msgs mq' = max_msgs mq \<and> (\<forall>t\<in>set (mq_waiting mq). err' t = RT_ERROR)"
proof -
  obtain mq1 where "release_all (mq \<lparr> mq_waiting := [] \<rparr>) = Some mq1"
      "block_chain (next_of mq1) (queue_free mq1) (rev qs @ fs)" "queue_head mq1 = None" "queue_tail mq1 = None"
      "max_msgs mq1 = max_msgs mq" "data_of mq1 = data_of mq" "mq_msg_size mq1 = mq_msg_size mq" "mq_waiting mq1 = []"
    using release_all_frees [of "mq \<lparr> mq_waiting := [] \<rparr>" fs qs] assms by (auto simp: mq_wf_def)
  then show ?thesis using assms by (auto simp: rt_mq_control_def mq_wf_def)
qed

text \<open>
  A mutex cannot be reset, and a detached mutex keeps its owner; the reset of an event clears its flags
  and leaves nobody waiting, so that its invariant holds.
\<close>

lemma rt_event_control_clears:
  "rt_event_control RT_IPC_CMD_RESET ev err = (st, ev', err') \<Longrightarrow> ev' = rt_event_init \<and> ev_ok ev'
    \<and> (\<forall>w\<in>set (ev_waiting ev). err' (fst w) = RT_ERROR)"
  by (force simp: rt_event_control_def rt_event_init_def ev_ok_def)

lemma rt_mutex_detach_keeps_the_owner:
  "rt_mutex_detach m err = (st, m', err') \<Longrightarrow> owner m' = owner m \<and> mtx_waiting m' = []
    \<and> (\<forall>t\<in>set (mtx_waiting m). err' t = RT_ERROR) \<and> rt_mutex_control cmd m = (RT_ERROR, m)"
  by (auto simp: rt_mutex_detach_def rt_mutex_control_def)

section \<open>Objects from the heap\<close>

text \<open>
  What is held in the heap: control blocks of objects, and pools of mailboxes and queues. \<open>room\<close> says
  whether \<open>rt_object_allocate\<close> finds memory; the pool is \<open>None\<close> if \<open>rt_malloc\<close> does not.
\<close>

record kernel_heap =
  objects :: nat
  pools :: nat

definition rt_object_allocate :: "bool \<Rightarrow> kernel_heap \<Rightarrow> kernel_heap option" where
  "rt_object_allocate room k = (if room then Some (k \<lparr> objects := objects k + 1 \<rparr>) else None)"

definition rt_object_delete :: "kernel_heap \<Rightarrow> kernel_heap" where
  "rt_object_delete k = k \<lparr> objects := objects k - 1 \<rparr>"

definition rt_sem_create :: "bool \<Rightarrow> u32 \<Rightarrow> ipc_flag \<Rightarrow> kernel_heap \<Rightarrow> semaphore option \<times> kernel_heap" where
  "rt_sem_create room v flag k =
     (case rt_object_allocate room k of None \<Rightarrow> (None, k)
      | Some k \<Rightarrow> (Some \<lparr> sem_flag = flag, sem_value = ucast v, sem_waiting = [] \<rparr>, k))"

definition rt_sem_delete :: "semaphore \<Rightarrow> (nat \<Rightarrow> mb_status) \<Rightarrow> kernel_heap \<Rightarrow> mb_status \<times> (nat \<Rightarrow> mb_status) \<times> kernel_heap" where
  "rt_sem_delete sem err k =
     (let (_, err) = rt_ipc_list_resume_all (sem_waiting sem) err in (RT_EOK, err, rt_object_delete k))"

definition rt_mutex_create :: "bool \<Rightarrow> ipc_flag \<Rightarrow> (nat \<Rightarrow> u8) \<Rightarrow> kernel_heap \<Rightarrow> mutex option \<times> kernel_heap" where
  "rt_mutex_create room flag p k =
     (case rt_object_allocate room k of None \<Rightarrow> (None, k)
      | Some k \<Rightarrow> (Some \<lparr> mtx_flag = flag, mtx_value = 1, original_priority = 0xFF, hold = 0, owner = None,
          mtx_waiting = [], prio = p \<rparr>, k))"

definition rt_mutex_delete :: "mutex \<Rightarrow> (nat \<Rightarrow> mb_status) \<Rightarrow> kernel_heap \<Rightarrow> mb_status \<times> (nat \<Rightarrow> mb_status) \<times> kernel_heap" where
  "rt_mutex_delete m err k =
     (let (_, err) = rt_ipc_list_resume_all (mtx_waiting m) err in (RT_EOK, err, rt_object_delete k))"

definition rt_event_create :: "bool \<Rightarrow> kernel_heap \<Rightarrow> event option \<times> kernel_heap" where
  "rt_event_create room k =
     (case rt_object_allocate room k of None \<Rightarrow> (None, k)
      | Some k \<Rightarrow> (Some \<lparr> ev_set = 0, ev_waiting = [] \<rparr>, k))"

definition rt_event_delete :: "event \<Rightarrow> (nat \<Rightarrow> mb_status) \<Rightarrow> kernel_heap \<Rightarrow> mb_status \<times> (nat \<Rightarrow> mb_status) \<times> kernel_heap" where
  "rt_event_delete ev err k =
     (let (_, err) = rt_ipc_list_resume_all (map fst (ev_waiting ev)) err in (RT_EOK, err, rt_object_delete k))"

definition rt_mb_create :: "bool \<Rightarrow> u32 list option \<Rightarrow> u16 \<Rightarrow> kernel_heap \<Rightarrow> mailbox option \<times> kernel_heap" where
  "rt_mb_create room pool sz k =
     (case rt_object_allocate room k of None \<Rightarrow> (None, k)
      | Some k \<Rightarrow>
          (case pool of None \<Rightarrow> (None, rt_object_delete k)
           | Some msgpool \<Rightarrow>
               (Some \<lparr> msg_pool = msgpool, mb_size = sz, entry = 0, in_offset = 0, out_offset = 0,
                  suspend_thread = [], suspend_sender_thread = [] \<rparr>, k \<lparr> pools := pools k + 1 \<rparr>)))"

definition rt_mb_delete :: "mailbox \<Rightarrow> (nat \<Rightarrow> mb_status) \<Rightarrow> kernel_heap \<Rightarrow> mb_status \<times> (nat \<Rightarrow> mb_status) \<times> kernel_heap" where
  "rt_mb_delete mb err k =
     (let (_, err) = rt_ipc_list_resume_all (suspend_thread mb) err;
          (_, err) = rt_ipc_list_resume_all (suspend_sender_thread mb) err;
          k = k \<lparr> pools := pools k - 1 \<rparr>
      in (RT_EOK, err, rt_object_delete k))"

text \<open>
  \<open>headers\<close> and \<open>data\<close> are what the blocks of the pool hold. Freeing the null pointer does nothing, so
  that the call of \<open>rt_mq_delete\<close> for a queue without a pool only deletes the object.
\<close>

definition rt_mq_delete ::
    "bool \<Rightarrow> msgqueue \<Rightarrow> (nat \<Rightarrow> mb_status) \<Rightarrow> kernel_heap \<Rightarrow> mb_status \<times> (nat \<Rightarrow> mb_status) \<times> kernel_heap" where
  "rt_mq_delete has_pool mq err k =
     (let (_, err) = rt_ipc_list_resume_all (mq_waiting mq) err;
          k = (if has_pool then k \<lparr> pools := pools k - 1 \<rparr> else k)
      in (RT_EOK, err, rt_object_delete k))"

definition rt_mq_create ::
    "bool \<Rightarrow> ((nat \<Rightarrow> nat option) \<times> (nat \<Rightarrow> u8 list)) option \<Rightarrow> u32 \<Rightarrow> u32 \<Rightarrow> (nat \<Rightarrow> mb_status) \<Rightarrow> kernel_heap
       \<Rightarrow> msgqueue option \<times> kernel_heap" where
  "rt_mq_create room pool msg_size n err k =
     (case rt_object_allocate room k of None \<Rightarrow> (None, k)
      | Some k \<Rightarrow>
          let mq = \<lparr> mq_msg_size = ucast (RT_ALIGN4 msg_size), max_msgs = ucast n, mq_entry = 0, queue_head = None,
                queue_tail = None, queue_free = None, mq_waiting = [], next_of = \<lambda>_. None, data_of = \<lambda>_. [] \<rparr>
          in case pool of None \<Rightarrow> (None, snd (snd (rt_mq_delete False mq err k)))
             | Some (headers, data) \<Rightarrow>
                 (Some (chain_blocks (unat (max_msgs mq)) 0 (mq \<lparr> next_of := headers, data_of := data \<rparr>)),
                  k \<lparr> pools := pools k + 1 \<rparr>))"

text \<open>A call that fails leaves the heap as it was, and so does creating and deleting an object.\<close>

lemma create_and_delete:
  "rt_sem_create room v flag k = (r, k') \<Longrightarrow>
     (case r of None \<Rightarrow> k' = k | Some sem \<Rightarrow> sem = rt_sem_init v flag \<and> snd (snd (rt_sem_delete sem err k')) = k)"
  "rt_mutex_create room flag p k = (rm, k') \<Longrightarrow>
     (case rm of None \<Rightarrow> k' = k | Some m \<Rightarrow> m = rt_mutex_init flag p \<and> snd (snd (rt_mutex_delete m err k')) = k)"
  "rt_event_create room k = (re, k') \<Longrightarrow>
     (case re of None \<Rightarrow> k' = k | Some ev \<Rightarrow> ev = rt_event_init \<and> snd (snd (rt_event_delete ev err k')) = k)"
  "rt_mb_create room pool sz k = (rb, k') \<Longrightarrow>
     (case rb of None \<Rightarrow> k' = k
      | Some mb \<Rightarrow> pool = Some (msg_pool mb) \<and> mb = rt_mb_init (msg_pool mb) sz \<and> snd (snd (rt_mb_delete mb err k')) = k)"
  "rt_mq_create room blocks msg_size n err k = (rq, k') \<Longrightarrow>
     (case rq of None \<Rightarrow> k' = k | Some mq \<Rightarrow> mq_waiting mq = [] \<and> snd (snd (rt_mq_delete True mq err k')) = k)"
  by (auto simp: rt_sem_create_def rt_sem_delete_def rt_sem_init_def rt_mutex_create_def rt_mutex_delete_def
      rt_mutex_init_def rt_event_create_def rt_event_delete_def rt_event_init_def rt_mb_create_def rt_mb_delete_def
      rt_mb_init_def rt_mq_create_def rt_mq_delete_def rt_object_allocate_def rt_object_delete_def Let_def
      split: if_splits option.splits)

text \<open>A created queue has its blocks in the list of the free ones, like an initialised one with the same room.\<close>

lemma rt_mq_create_is_init:
  assumes "rt_mq_create True (Some (headers, data)) msg_size n err k = (Some mq, k')"
    and "ucast (m div (ucast (ucast (RT_ALIGN4 msg_size) :: u16) + 4)) = (ucast n :: u16)"
  shows "mq = rt_mq_init headers data msg_size m"
  using assms by (simp add: rt_mq_create_def rt_mq_init_def rt_object_allocate_def Let_def)

end
