(* ===== verification/Keys.thy ===== *)
theory Keys
  imports Prelude
begin

text \<open>
  The four push buttons (\<open>applications/bsp_key.c\<close>). A scan looks at the pins twice, before and after
  it has waited for the contacts to settle; the levels it finds are its arguments, the static
  variable \<open>key_up\<close> is its state. The set-up of the pins is in \<open>Pins\<close>.
\<close>

section \<open>The scan\<close>

record key_pins =
  WAKE_UP :: bool       \<comment> \<open>high when pressed, the others low\<close>
  KEY_RIGHT :: bool
  KEY_SELECT :: bool
  KEY_LEFT :: bool

definition UP :: u8 where "UP = 1"
definition LEFT :: u8 where "LEFT = 2"
definition SELECT :: u8 where "SELECT = 3"
definition RIGHT :: u8 where "RIGHT = 4"

definition any_pressed :: "key_pins \<Rightarrow> bool" where
  "any_pressed p \<longleftrightarrow> WAKE_UP p \<or> \<not> KEY_RIGHT p \<or> \<not> KEY_SELECT p \<or> \<not> KEY_LEFT p"

definition pressed_key :: "key_pins \<Rightarrow> u8" where
  "pressed_key p =
     (if WAKE_UP p then UP else if \<not> KEY_RIGHT p then RIGHT else if \<not> KEY_SELECT p then SELECT
      else if \<not> KEY_LEFT p then LEFT else 0)"

definition Key_Scan :: "u8 \<Rightarrow> key_pins \<Rightarrow> key_pins \<Rightarrow> bool \<Rightarrow> u8 \<times> bool" where
  "Key_Scan mode now later key_up =
     (let key_up = (if mode \<noteq> 0 then True else key_up)
      in if key_up \<and> any_pressed now then (pressed_key later, False)
         else if \<not> any_pressed now then (0, True)
         else (0, key_up))"

text \<open>A sequence of scans, each with its mode and what it finds, and the keys they return.\<close>

fun scans :: "(u8 \<times> key_pins \<times> key_pins) list \<Rightarrow> bool \<Rightarrow> u8 list" where
  "scans [] key_up = []"
| "scans ((mode, now, later) # xs) key_up =
     (let (k, key_up) = Key_Scan mode now later key_up in k # scans xs key_up)"

section \<open>One key for one press\<close>

lemma key_up_follows: "snd (Key_Scan mode now later key_up) = (\<not> any_pressed now)"
  by (simp add: Key_Scan_def Let_def)

lemma scans_length [simp]: "length (scans xs key_up) = length xs"
  by (induction xs arbitrary: key_up) (auto simp: split_beta)

lemma scans_nth:
  "i < length xs \<Longrightarrow> xs ! i = (mode, now, later) \<Longrightarrow>
     scans xs key_up ! i =
       (if any_pressed now
           \<and> (mode \<noteq> 0 \<or> (if i = 0 then key_up else \<not> any_pressed (fst (snd (xs ! (i - 1))))))
        then pressed_key later else 0)"
proof (induction xs arbitrary: i key_up)
  case (Cons x xs)
  obtain m n l where x: "x = (m, n, l)" by (cases x)
  show ?case
  proof (cases i)
    case 0
    with Cons.prems have "m = mode" "n = now" "l = later" by (simp_all add: x)
    moreover have "scans (x # xs) key_up ! 0 = fst (Key_Scan m n l key_up)" by (simp add: x split_beta)
    ultimately show ?thesis unfolding 0 by (simp add: Key_Scan_def)
  next
    case (Suc j)
    have tail: "scans (x # xs) key_up ! i = scans xs (\<not> any_pressed n) ! j"
      by (simp add: x Suc split_beta key_up_follows)
    have "j < length xs" "xs ! j = (mode, now, later)" using Cons.prems Suc by simp_all
    note step = Cons.IH [OF this, of "\<not> any_pressed n"]
    show ?thesis
    proof (cases j)
      case 0
      with step Suc show ?thesis unfolding tail by (simp add: x)
    next
      case (Suc k)
      with step \<open>i = Suc j\<close> show ?thesis unfolding tail by simp
    qed
  qed
qed simp

lemma pressed_key_0: "(pressed_key p = 0) = (\<not> any_pressed p)"
  by (simp add: pressed_key_def any_pressed_def UP_def LEFT_def SELECT_def RIGHT_def)

section \<open>Properties\<close>

text \<open>
  In any sequence of scans in any mixture of the two modes, a scan returns a key exactly when a
  button is down at its first look, still at its second one, and either the mode allows repetition or no
  button was down at the scan before; the key is then the first of UP, RIGHT, SELECT and LEFT that is
  down at the second look. So without repetition a press gives one key, however long it lasts.
\<close>

theorem one_key_for_one_press:
  assumes "i < length xs" and "xs ! i = (mode, now, later)"
  shows "(scans xs True ! i \<noteq> 0) =
      (any_pressed now \<and> any_pressed later \<and> (mode \<noteq> 0 \<or> i = 0 \<or> \<not> any_pressed (fst (snd (xs ! (i - 1))))))
    \<and> (scans xs True ! i \<noteq> 0 \<longrightarrow>
        (scans xs True ! i = UP) = WAKE_UP later
        \<and> (scans xs True ! i = RIGHT) = (\<not> WAKE_UP later \<and> \<not> KEY_RIGHT later)
        \<and> (scans xs True ! i = SELECT) = (\<not> WAKE_UP later \<and> KEY_RIGHT later \<and> \<not> KEY_SELECT later)
        \<and> (scans xs True ! i = LEFT) = (\<not> WAKE_UP later \<and> KEY_RIGHT later \<and> KEY_SELECT later \<and> \<not> KEY_LEFT later))"
proof -
  have "pressed_key later \<noteq> 0 \<longrightarrow>
       (pressed_key later = UP) = WAKE_UP later
     \<and> (pressed_key later = RIGHT) = (\<not> WAKE_UP later \<and> \<not> KEY_RIGHT later)
     \<and> (pressed_key later = SELECT) = (\<not> WAKE_UP later \<and> KEY_RIGHT later \<and> \<not> KEY_SELECT later)
     \<and> (pressed_key later = LEFT) = (\<not> WAKE_UP later \<and> KEY_RIGHT later \<and> KEY_SELECT later \<and> \<not> KEY_LEFT later)"
    by (simp add: pressed_key_def UP_def LEFT_def SELECT_def RIGHT_def)
  then show ?thesis
    unfolding scans_nth [OF assms] by (auto simp: pressed_key_0)
qed

text \<open>A press of the right button seen by three scans gives one key, and with repetition the third.\<close>

theorem one_key_for_one_press_witness:
  "let r = \<lparr> WAKE_UP = False, KEY_RIGHT = False, KEY_SELECT = True, KEY_LEFT = True \<rparr>
   in scans [(0, r, r), (0, r, r), (1, r, r)] True = [RIGHT, 0, RIGHT]"
proof -
  define r where "r = \<lparr> WAKE_UP = False, KEY_RIGHT = False, KEY_SELECT = True, KEY_LEFT = True \<rparr>"
  define xs where "xs = [(0 :: u8, r, r), (0, r, r), (1, r, r)]"
  have p: "any_pressed r" by (simp add: any_pressed_def r_def)
  have "scans xs True ! 0 = RIGHT" "scans xs True ! 1 = 0" "scans xs True ! 2 = RIGHT"
    using one_key_for_one_press [of 0 xs 0 r r] one_key_for_one_press [of 1 xs 0 r r]
      one_key_for_one_press [of 2 xs 1 r r] p
    by (auto simp: xs_def r_def simp del: scans.simps)
  moreover have "length (scans xs True) = 3" by (simp add: xs_def del: scans.simps)
  ultimately have "scans xs True = [RIGHT, 0, RIGHT]"
    by (intro nth_equalityI) (auto simp: numeral_3_eq_3 less_Suc_eq numeral_2_eq_2)
  then show ?thesis by (simp add: xs_def r_def Let_def)
qed

end
