(* ===== verification/Practice.thy ===== *)
theory Practice
  imports Sync Keys "HOL-Library.Sublist"
begin

text \<open>
  The samples of the kernel's services (\<open>applications/semaphore.c\<close>, \<open>mutex.c\<close>, \<open>mailbox.c\<close>): three threads
  on one event, a mutex between two threads of one priority, and the push buttons that switch the lamps
  through a mailbox. What is printed is a list of outputs.
\<close>

section \<open>The threads on the event\<close>

definition EVENT_FLAG1 :: u32 where "EVENT_FLAG1 = 0x01"
definition EVENT_FLAG2 :: u32 where "EVENT_FLAG2 = 0x78"

lemma count_on_measure:
  assumes "d = (if cnt + 1 > 10000 then 0 else cnt + 1)" and "0 \<noteq> d mod (100 :: u16)"
  shows "10000 - unat d < 10000 - unat (cnt :: u16)"
proof -
  have "d = cnt + 1" "\<not> cnt + 1 > 10000" using assms by (auto split: if_splits)
  moreover have "unat cnt < 10000"
  proof (rule ccontr)
    assume big: "\<not> unat cnt < 10000"
    show False
    proof (cases "unat cnt = 65535")
      case True
      then have "cnt = 65535" by (simp add: word_unat_eq_iff)
      then show False using assms by simp
    next
      case False
      then have "unat cnt < 65535" using unat_u16_lt [of cnt] by linarith
      then have "unat (cnt + 1) = unat cnt + 1" by (intro unat_suc_u16)
      then show False using calculation(2) big by (simp add: word_less_nat_alt)
    qed
  qed
  moreover from this have "unat (cnt + 1) = unat cnt + 1" by (intro unat_suc_u16) simp
  ultimately show ?thesis by simp
qed

text \<open>The first thread counts without a pause until it has reached a multiple of 100.\<close>

function count_on :: "u16 \<Rightarrow> u16" where
  "count_on cnt =
     (let cnt = cnt + 1; cnt = (if cnt > 10000 then 0 else cnt)
      in if 0 = cnt mod 100 then cnt else count_on cnt)"
  by pat_completeness auto

termination
  by (relation "measure (\<lambda>cnt. 10000 - unat cnt)") (simp, metis count_on_measure in_measure)

datatype printed = Temperature u32 | Led_Demo u32

text \<open>
  The threads wait for the event at the head of an endless loop and go round it until they are suspended;
  \<open>tem_gets\<close> and \<open>led_gets\<close> are the rest of the loop after an event has been received. The results are the
  event, what is printed, and the threads the sent flags resume.
\<close>

partial_function (option) tem_loop :: "event \<Rightarrow> printed list \<Rightarrow> (nat \<times> u32) list
    \<Rightarrow> (event \<times> printed list \<times> (nat \<times> u32) list) option" where
  "tem_loop ev out woken =
     (case rt_event_recv 2 EVENT_FLAG1 (or RT_EVENT_FLAG_OR RT_EVENT_FLAG_CLEAR) True ev of
        Ret (st, r, ev1) \<Rightarrow>
          if st = RT_EOK then
            (case rt_event_send EVENT_FLAG2 ev1 of (_, w, ev2) \<Rightarrow> tem_loop ev2 (out @ [Temperature r]) (woken @ w))
          else Some (ev1, out, woken)
      | _ \<Rightarrow> None)"

definition tem_gets :: "u32 \<Rightarrow> event \<Rightarrow> (event \<times> printed list \<times> (nat \<times> u32) list) option" where
  "tem_gets r ev = (case rt_event_send EVENT_FLAG2 ev of (_, w, ev) \<Rightarrow> tem_loop ev [Temperature r] w)"

partial_function (option) led_loop :: "event \<Rightarrow> printed list \<Rightarrow> (event \<times> printed list) option" where
  "led_loop ev out =
     (case rt_event_recv 3 (or EVENT_FLAG1 EVENT_FLAG2) (or RT_EVENT_FLAG_AND RT_EVENT_FLAG_CLEAR) True ev of
        Ret (st, r, ev1) \<Rightarrow> if st = RT_EOK then led_loop ev1 (out @ [Led_Demo r]) else Some (ev1, out)
      | _ \<Rightarrow> None)"

text \<open>
  From one pause of the first thread to the next: it sends the first flag, then the resumed threads run in the
  order of their priorities. Its pause of 350 ticks is long enough for that.
\<close>

definition sample_round :: "event \<Rightarrow> (event \<times> printed list) option" where
  "sample_round ev =
     (case rt_event_send EVENT_FLAG1 ev of (_, w, ev) \<Rightarrow>
        Option.bind (case map_of w 2 of None \<Rightarrow> Some (ev, [], []) | Some r \<Rightarrow> tem_gets r ev) (\<lambda>(ev, out, w').
          case map_of (w @ w') 3 of None \<Rightarrow> Some (ev, out) | Some r \<Rightarrow> led_loop ev (out @ [Led_Demo r])))"

text \<open>\<open>semaphore_sample\<close>: the threads start in the order of their priorities.\<close>

definition semaphore_sample :: "(event \<times> printed list) option" where
  "semaphore_sample =
     (case rt_event_send EVENT_FLAG1 rt_event_init of (_, _, ev) \<Rightarrow>
        Option.bind (tem_loop ev [] []) (\<lambda>(ev, out, _). led_loop ev out))"

fun sample_rounds :: "nat \<Rightarrow> (event \<times> printed list) option" where
  "sample_rounds 0 = semaphore_sample"
| "sample_rounds (Suc n) =
     Option.bind (sample_rounds n) (\<lambda>(ev, out). Option.bind (sample_round ev) (\<lambda>(ev, more). Some (ev, out @ more)))"

section \<open>They take turns\<close>

definition tem_first :: event where "tem_first = \<lparr> ev_set = 0x78, ev_waiting = [(2, 1, 6), (3, 0x79, 5)] \<rparr>"
definition led_first :: event where "led_first = \<lparr> ev_set = 0x78, ev_waiting = [(3, 0x79, 5), (2, 1, 6)] \<rparr>"
definition both_empty :: event where "both_empty = \<lparr> ev_set = 0, ev_waiting = [(2, 1, 6), (3, 0x79, 5)] \<rparr>"

lemmas sample_defs = event_flags EVENT_FLAG1_def EVENT_FLAG2_def rt_event_send_def rt_event_recv_def
  ev_satisfied_def tem_first_def led_first_def both_empty_def rt_event_init_def

lemma sample_starts: "semaphore_sample = Some (tem_first, [Temperature 1])"
  by (simp add: semaphore_sample_def tem_loop.simps led_loop.simps sample_defs)

lemma round_tem_first: "sample_round tem_first = Some (led_first, [Temperature 1])"
  by (simp add: sample_round_def tem_gets_def tem_loop.simps led_loop.simps sample_defs)

lemma round_led_first: "sample_round led_first = Some (both_empty, [Led_Demo 0x79])"
  by (simp add: sample_round_def tem_gets_def tem_loop.simps led_loop.simps sample_defs)

lemma round_both_empty: "sample_round both_empty = Some (led_first, [Temperature 1])"
  by (simp add: sample_round_def tem_gets_def tem_loop.simps led_loop.simps sample_defs)

lemma sample_rounds_state:
  "\<exists>out. sample_rounds n = Some (if n = 0 then tem_first else if odd n then led_first else both_empty, out)
    \<and> length out = n + 1 \<and> (\<forall>i\<le>n. out ! i = (if i = 0 \<or> odd i then Temperature 1 else Led_Demo 0x79))"
proof (induction n)
  case 0
  show ?case by (simp add: sample_starts)
next
  case (Suc n)
  then obtain out where o: "sample_rounds n = Some (if n = 0 then tem_first else if odd n then led_first else both_empty, out)"
    "length out = n + 1" "\<forall>i\<le>n. out ! i = (if i = 0 \<or> odd i then Temperature 1 else Led_Demo 0x79)" by blast
  define x where "x = (if odd (Suc n) then Temperature 1 else Led_Demo 0x79)"
  have "sample_rounds (Suc n) = Some (if odd (Suc n) then led_first else both_empty, out @ [x])"
    unfolding sample_rounds.simps o(1) by (simp add: x_def round_tem_first round_led_first round_both_empty)
  moreover have "\<forall>i\<le>Suc n. (out @ [x]) ! i = (if i = 0 \<or> odd i then Temperature 1 else Led_Demo 0x79)"
    using o(2,3) by (auto simp: nth_append x_def le_Suc_eq)
  ultimately show ?case using o(2) by simp
qed

section \<open>The mutex of the sample\<close>

text \<open>
  The check of \<open>thread1_printf\<close>, once both threads have been created; both were given \<open>THREAD_PRIORITY\<close>.
\<close>

definition THREAD_PRIORITY :: u8 where "THREAD_PRIORITY = 10"

definition thread1_printf :: "nat \<Rightarrow> nat \<Rightarrow> mutex \<Rightarrow> string" where
  "thread1_printf thread1 thread2 m =
     (if prio m thread1 \<noteq> prio m thread2 then ''test failed!'' else ''test OK!'')"

section \<open>The buttons and the mailbox\<close>

text \<open>Where the four key texts are; the mailbox carries their addresses.\<close>

record key_texts =
  key_up_press :: u32
  key_right_press :: u32
  key_left_press :: u32
  key_select_press :: u32

definition distinct_texts :: "key_texts \<Rightarrow> bool" where
  "distinct_texts k \<longleftrightarrow> distinct [key_up_press k, key_right_press k, key_left_press k, key_select_press k]"

record key_sample =
  mail :: mailbox
  mail1 :: mailbox
  key_up :: bool
  lamps :: "bool \<times> bool"      \<comment> \<open>\<open>GREEN_LED\<close> and \<open>RED_LED\<close>\<close>

text \<open>One turn of the first thread, with what its scan finds; a full mailbox refuses the text.\<close>

definition thread1_entry :: "key_texts \<Rightarrow> key_pins \<Rightarrow> key_pins \<Rightarrow> key_sample \<Rightarrow> key_sample" where
  "thread1_entry k now later s =
     (let (key_value, up) = Key_Scan 1 now later (key_up s); s = s \<lparr> key_up := up \<rparr>
      in if key_value = UP then s \<lparr> mail1 := snd (mb_put (key_up_press k) (mail1 s)) \<rparr>
         else if key_value = RIGHT then s \<lparr> mail := snd (mb_put (key_right_press k) (mail s)) \<rparr>
         else if key_value = LEFT then s \<lparr> mail := snd (mb_put (key_left_press k) (mail s)) \<rparr>
         else if key_value = SELECT then s \<lparr> mail := snd (mb_put (key_select_press k) (mail s)) \<rparr>
         else s)"

text \<open>\<open>strcmp\<close> with the key texts, which differ, is a comparison of their addresses here.\<close>

definition switch_lamps :: "key_texts \<Rightarrow> u32 \<Rightarrow> bool \<times> bool \<Rightarrow> bool \<times> bool" where
  "switch_lamps k key_ID l =
     (let l = (if key_ID = key_left_press k then (\<not> fst l, snd l) else l);
          l = (if key_ID = key_right_press k then (fst l, \<not> snd l) else l)
      in if key_ID = key_select_press k then (\<not> fst l, \<not> snd l) else l)"

definition thread3_entry :: "key_texts \<Rightarrow> key_sample \<Rightarrow> key_sample" where
  "thread3_entry k s =
     (case mb_get (mail s) of (r, mb) \<Rightarrow>
        let s = s \<lparr> mail := mb \<rparr>
        in case r of None \<Rightarrow> s | Some key_ID \<Rightarrow> s \<lparr> lamps := switch_lamps k key_ID (lamps s) \<rparr>)"

definition thread2_entry :: "key_sample \<Rightarrow> key_sample" where
  "thread2_entry s = s \<lparr> mail1 := snd (mb_get (mail1 s)) \<rparr>"

datatype key_turn = Scan key_pins key_pins | Show | Switch

fun key_turns :: "key_texts \<Rightarrow> key_turn list \<Rightarrow> key_sample \<Rightarrow> key_sample" where
  "key_turns k [] s = s"
| "key_turns k (Scan now later # xs) s = key_turns k xs (thread1_entry k now later s)"
| "key_turns k (Show # xs) s = key_turns k xs (thread2_entry s)"
| "key_turns k (Switch # xs) s = key_turns k xs (thread3_entry k s)"

section \<open>The lamps of the timers\<close>

text \<open>
  The call-backs of \<open>bsp_led.c\<close>: \<open>Led_Demo\<close> as the levels of the lamps and the pauses after them, and
  \<open>LED_Flash\<close> with its static counter; whether it prints the temperature and the light.
\<close>

definition Led_Demo_levels :: "((bool \<times> bool) \<times> nat) list" where
  "Led_Demo_levels = [((True, True), 200), ((False, False), 1)]"

definition LED_Flash :: "u32 \<Rightarrow> u16 \<Rightarrow> u16 \<times> (bool \<times> bool) \<times> bool" where
  "LED_Flash cnt count =
     (let count = count + 1
      in if ucast count < cnt then (count, (True, True), False) else (0, (False, False), True))"

fun flashes :: "nat \<Rightarrow> u32 \<Rightarrow> u16 \<Rightarrow> u16 \<times> bool list" where
  "flashes 0 cnt count = (count, [])"
| "flashes (Suc n) cnt count =
     (let (count, _, lit) = LED_Flash cnt count; (count, ls) = flashes n cnt count in (count, lit # ls))"

lemma LED_Flash_counts:
  assumes "0 < unat cnt" and "unat cnt < 65536" and "unat count < unat cnt"
  shows "unat (fst (LED_Flash cnt count)) = Suc (unat count) mod unat cnt
    \<and> snd (snd (LED_Flash cnt count)) = (Suc (unat count) = unat cnt)"
proof -
  have "unat count < 65535" using assms by simp
  then have u: "unat (count + 1) = Suc (unat count)" by (simp add: unat_suc_u16)
  then have "unat (ucast (count + 1) :: u32) = Suc (unat count)" using \<open>unat count < 65535\<close>
    by (simp add: unsigned_ucast_eq take_bit_nat_eq_self_iff)
  moreover have "Suc (unat count) < unat cnt \<or> Suc (unat count) = unat cnt" using assms(3) by linarith
  ultimately show ?thesis using u by (auto simp: LED_Flash_def word_less_nat_alt)
qed

text \<open>Every \<open>cnt\<close> calls the lamps flash.\<close>

lemma flashes_every:
  assumes "0 < unat cnt" and "unat cnt < 65536" and "unat count < unat cnt" and "i < n"
  shows "snd (flashes n cnt count) ! i = ((unat count + i + 1) mod unat cnt = 0)"
  using assms(3,4)
proof (induction n arbitrary: count i)
  case (Suc n)
  obtain c l b where f: "LED_Flash cnt count = (c, l, b)" by (metis prod_cases3)
  note k = LED_Flash_counts [OF assms(1,2) Suc.prems(1)]
  show ?case
  proof (cases i)
    case 0
    then show ?thesis using f k Suc.prems(1) by (auto simp: split_beta mod_Suc)
  next
    case (Suc j)
    have "unat c < unat cnt" using f k assms(1) by simp
    from Suc.IH [OF this, of j] have "snd (flashes n cnt c) ! j = ((unat c + j + 1) mod unat cnt = 0)" using Suc Suc.prems(2) by simp
    moreover have "(unat c + j + 1) mod unat cnt = (unat count + i + 1) mod unat cnt"
      using f k Suc mod_add_left_eq [of "Suc (unat count)" "unat cnt" "j + 1"] by simp
    ultimately show ?thesis using f Suc by (simp add: split_beta)
  qed
qed simp

section \<open>Lamps and presses\<close>

text \<open>The texts the scans of a run of turns ask to send to the lamps, in order.\<close>

definition asked :: "key_texts \<Rightarrow> key_pins \<Rightarrow> key_pins \<Rightarrow> u32 list" where
  "asked k now later =
     (let v = (if any_pressed now then pressed_key later else 0)
      in if v = RIGHT then [key_right_press k] else if v = LEFT then [key_left_press k]
         else if v = SELECT then [key_select_press k] else [])"

fun all_asked :: "key_texts \<Rightarrow> key_turn list \<Rightarrow> u32 list" where
  "all_asked k [] = []"
| "all_asked k (Scan now later # xs) = asked k now later @ all_asked k xs"
| "all_asked k (_ # xs) = all_asked k xs"

definition lamps_after :: "key_texts \<Rightarrow> u32 list \<Rightarrow> bool \<times> bool \<Rightarrow> bool \<times> bool" where
  "lamps_after k ks l = foldl (\<lambda>l key. switch_lamps k key l) l ks"

text \<open>What one turn does to the mailbox of the lamps: it may put in what is asked.\<close>

lemma thread1_mail:
  assumes "mb_ok (mail s)"
  shows "\<exists>acc. subseq acc (asked k now later) \<and> mb_ok (mail (thread1_entry k now later s))
    \<and> mb_size (mail (thread1_entry k now later s)) = mb_size (mail s)
    \<and> mb_items (mail (thread1_entry k now later s)) = mb_items (mail s) @ acc
    \<and> lamps (thread1_entry k now later s) = lamps s"
proof -
  define v where "v = (if any_pressed now then pressed_key later else 0)"
  have scan: "fst (Key_Scan 1 now later (key_up s)) = v" by (simp add: Key_Scan_def v_def)
  note put = mb.put_items [OF assms]
  consider "v = RIGHT" | "v = LEFT" | "v = SELECT" | "v \<noteq> RIGHT" "v \<noteq> LEFT" "v \<noteq> SELECT" by blast
  then show ?thesis
  proof cases
    case 1
    then have a: "asked k now later = [key_right_press k]" by (simp add: asked_def v_def)
    have "thread1_entry k now later s = s \<lparr> key_up := snd (Key_Scan 1 now later (key_up s)),
        mail := snd (mb_put (key_right_press k) (mail s)) \<rparr>"
      using 1 scan by (simp add: thread1_entry_def split_beta UP_def RIGHT_def)
    then show ?thesis using put [of "key_right_press k"] a
      by (intro exI [of _ "if fst (mb_put (key_right_press k) (mail s)) then [key_right_press k] else []"])
        (auto simp: word_unat_eq_iff)
  next
    case 2
    then have a: "asked k now later = [key_left_press k]" by (simp add: asked_def v_def RIGHT_def LEFT_def)
    have "thread1_entry k now later s = s \<lparr> key_up := snd (Key_Scan 1 now later (key_up s)),
        mail := snd (mb_put (key_left_press k) (mail s)) \<rparr>"
      using 2 scan by (simp add: thread1_entry_def split_beta UP_def RIGHT_def LEFT_def)
    then show ?thesis using put [of "key_left_press k"] a
      by (intro exI [of _ "if fst (mb_put (key_left_press k) (mail s)) then [key_left_press k] else []"])
        (auto simp: word_unat_eq_iff)
  next
    case 3
    then have a: "asked k now later = [key_select_press k]" by (simp add: asked_def v_def RIGHT_def LEFT_def SELECT_def)
    have "thread1_entry k now later s = s \<lparr> key_up := snd (Key_Scan 1 now later (key_up s)),
        mail := snd (mb_put (key_select_press k) (mail s)) \<rparr>"
      using 3 scan by (simp add: thread1_entry_def split_beta UP_def RIGHT_def LEFT_def SELECT_def)
    then show ?thesis using put [of "key_select_press k"] a
      by (intro exI [of _ "if fst (mb_put (key_select_press k) (mail s)) then [key_select_press k] else []"])
        (auto simp: word_unat_eq_iff)
  next
    case 4
    then have "asked k now later = []" by (simp add: asked_def v_def)
    moreover have "mail (thread1_entry k now later s) = mail s" "lamps (thread1_entry k now later s) = lamps s"
      using 4 scan by (simp_all add: thread1_entry_def split_beta Let_def)
    ultimately show ?thesis using assms by simp
  qed
qed

lemma key_turns_queue:
  assumes "mb_ok (mail s)"
  shows "\<exists>acc del. subseq acc (all_asked k xs) \<and> mb_ok (mail (key_turns k xs s))
    \<and> mb_size (mail (key_turns k xs s)) = mb_size (mail s)
    \<and> mb_items (mail s) @ acc = del @ mb_items (mail (key_turns k xs s))
    \<and> lamps (key_turns k xs s) = lamps_after k del (lamps s)"
  using assms
proof (induction xs arbitrary: s)
  case Nil
  then show ?case by (intro exI [of _ "[]"]) (simp add: lamps_after_def)
next
  case (Cons x xs)
  show ?case
  proof (cases x)
    case (Scan now later)
    define s1 where "s1 = thread1_entry k now later s"
    from thread1_mail [OF Cons.prems] obtain a where a: "subseq a (asked k now later)" "mb_ok (mail s1)"
      "mb_size (mail s1) = mb_size (mail s)" "mb_items (mail s1) = mb_items (mail s) @ a" "lamps s1 = lamps s"
      unfolding s1_def by blast
    from Cons.IH [OF a(2)] obtain acc del where
      "subseq acc (all_asked k xs)" "mb_ok (mail (key_turns k xs s1))" "mb_size (mail (key_turns k xs s1)) = mb_size (mail s1)"
      "mb_items (mail s1) @ acc = del @ mb_items (mail (key_turns k xs s1))"
      "lamps (key_turns k xs s1) = lamps_after k del (lamps s1)" by blast
    then show ?thesis using a Scan s1_def
      by (intro exI [of _ "a @ acc"] exI [of _ del]) (auto intro: list_emb_append_mono)
  next
    case Show
    have "mail (thread2_entry s) = mail s" "lamps (thread2_entry s) = lamps s" by (simp_all add: thread2_entry_def)
    then show ?thesis using Cons.IH [of "thread2_entry s"] Cons.prems Show by simp
  next
    case Switch
    define s1 where "s1 = thread3_entry k s"
    obtain r m1 where g: "mb_get (mail s) = (r, m1)" by fastforce
    have m: "mail s1 = m1" "lamps s1 = (case r of None \<Rightarrow> lamps s | Some key \<Rightarrow> switch_lamps k key (lamps s))"
      by (simp_all add: s1_def thread3_entry_def g Let_def split: option.split)
    have o: "mb_ok m1" "mb_size m1 = mb_size (mail s)" "mb_items (mail s) = (case r of None \<Rightarrow> [] | Some v \<Rightarrow> [v]) @ mb_items m1"
      using mb.get_items [OF Cons.prems] g by (simp_all add: word_unat_eq_iff)
    from Cons.IH [of s1] m(1) o(1) obtain acc del where i:
      "subseq acc (all_asked k xs)" "mb_ok (mail (key_turns k xs s1))" "mb_size (mail (key_turns k xs s1)) = mb_size m1"
      "mb_items m1 @ acc = del @ mb_items (mail (key_turns k xs s1))"
      "lamps (key_turns k xs s1) = lamps_after k del (lamps s1)" by auto
    define d where "d = (case r of None \<Rightarrow> [] | Some v \<Rightarrow> [v])"
    have "lamps s1 = lamps_after k d (lamps s)" by (simp add: m(2) d_def lamps_after_def split: option.split)
    then have "lamps (key_turns k xs s1) = lamps_after k (d @ del) (lamps s)" using i(5) by (simp add: lamps_after_def)
    moreover have "mb_items (mail s) @ acc = (d @ del) @ mb_items (mail (key_turns k xs s1))" using o(3) i(4) by (simp add: d_def)
    ultimately show ?thesis using i(1,2,3) o(2) Switch s1_def by auto
  qed
qed

text \<open>The lamps are switched as often as their keys occur.\<close>

lemma lamps_parity:
  assumes "distinct_texts k"
  shows "lamps_after k ks l =
    ((fst l \<noteq> odd (count_list ks (key_left_press k) + count_list ks (key_select_press k))),
     (snd l \<noteq> odd (count_list ks (key_right_press k) + count_list ks (key_select_press k))))"
proof (induction ks arbitrary: l)
  case Nil
  then show ?case by (simp add: lamps_after_def)
next
  case (Cons key ks)
  have "lamps_after k (key # ks) l = lamps_after k ks (switch_lamps k key l)" by (simp add: lamps_after_def)
  then show ?case unfolding Cons.IH using assms by (auto simp: switch_lamps_def distinct_texts_def)
qed

text \<open>The two threads keep the one priority they have: the check of the mutex sample never fails.\<close>

lemma mutex_sample_prints_ok:
  assumes "mutex_run RT_IPC_FLAG_FIFO (\<lambda>_. THREAD_PRIORITY) m"
  shows "thread1_printf thread1 thread2 m = ''test OK!''"
proof -
  have "mutex_ok RT_IPC_FLAG_FIFO (\<lambda>_. THREAD_PRIORITY) m" by (rule mutex_run_ok [OF assms])
  then have "prio m t = THREAD_PRIORITY" for t
    by (cases "owner m"; cases "owner m = Some t") (auto simp: mutex_ok_def)
  then show ?thesis by (simp add: thread1_printf_def)
qed

section \<open>Properties\<close>

text \<open>
  C34. The three threads on the event never block each other for good: in every round, from one pause of the
  first thread to the next, exactly one of the two others receives the event. The temperature is shown in
  the first two rounds, then the lamps and the temperature take turns, because a thread that has been
  served waits behind the other.
\<close>

theorem sample_threads_take_turns:
  "\<exists>ev out. sample_rounds n = Some (ev, out) \<and> length out = n + 1
    \<and> (\<forall>i\<le>n. out ! i = (if i = 0 \<or> odd i then Temperature 1 else Led_Demo 0x79))"
  using sample_rounds_state [of n] by blast

theorem sample_threads_take_turns_witness:
  "\<exists>ev. sample_rounds 3 = Some (ev, [Temperature 1, Temperature 1, Led_Demo 0x79, Temperature 1])"
proof -
  from sample_threads_take_turns [of 3] obtain ev out where
    o: "sample_rounds 3 = Some (ev, out)" "length out = 4"
      "\<forall>i\<le>3. out ! i = (if i = 0 \<or> odd i then Temperature 1 else Led_Demo 0x79)" by auto
  have "out = [Temperature 1, Temperature 1, Led_Demo 0x79, Temperature 1]"
  proof (rule nth_equalityI)
    fix i assume "i < length out"
    then consider "i = 0" | "i = 1" | "i = 2" | "i = 3" using o(2) by linarith
    then show "out ! i = [Temperature 1, Temperature 1, Led_Demo 0x79, Temperature 1] ! i"
      using o(3) by cases simp_all
  qed (simp add: o(2))
  then show ?thesis using o(1) by simp
qed



end
