(* ===== verification/Sram.thy ===== *)
theory Sram
  imports Prelude
begin

text \<open>
  The external memory (\<open>applications/sram.c\<close>): bytes written from a buffer and read into one. The memory is
  a function of the address, whose 32 bits wrap around; the buffer is a list, and a byte past its end is
  outside the array of the caller. The set-up of its pins is in \<open>Pins\<close>, that of the memory
  controller is not modelled.
\<close>

definition Bank1_SRAM3_ADDR :: u32 where "Bank1_SRAM3_ADDR = 0x68000000"

type_synonym memory = "u32 \<Rightarrow> u8"

text \<open>The loop counts \<open>n\<close> down to zero; the pointer into the buffer is the index \<open>i\<close>.\<close>

function FSMC_SRAM_WriteBuffer :: "u8 list \<Rightarrow> nat \<Rightarrow> u32 \<Rightarrow> u32 \<Rightarrow> memory \<Rightarrow> memory cres" where
  "FSMC_SRAM_WriteBuffer pBuffer i WriteAddr n mem =
     (if n \<noteq> 0 then
        cbind (c_read pBuffer i) (\<lambda>b.
          FSMC_SRAM_WriteBuffer pBuffer (i + 1) (WriteAddr + 1) (n - 1) (mem(Bank1_SRAM3_ADDR + WriteAddr := b)))
      else Ret mem)"
  by pat_completeness auto

termination
  by (relation "measure (\<lambda>(pBuffer, i, WriteAddr, n, mem). unat n)") (auto simp: unat_minus_one unat_gt_0)

function FSMC_SRAM_ReadBuffer :: "u8 list \<Rightarrow> nat \<Rightarrow> u32 \<Rightarrow> u32 \<Rightarrow> memory \<Rightarrow> u8 list cres" where
  "FSMC_SRAM_ReadBuffer pBuffer i ReadAddr n mem =
     (if n \<noteq> 0 then
        cbind (c_write pBuffer i (mem (Bank1_SRAM3_ADDR + ReadAddr))) (\<lambda>pBuffer.
          FSMC_SRAM_ReadBuffer pBuffer (i + 1) (ReadAddr + 1) (n - 1) mem)
      else Ret pBuffer)"
  by pat_completeness auto

termination
  by (relation "measure (\<lambda>(pBuffer, i, ReadAddr, n, mem). unat n)") (auto simp: unat_minus_one unat_gt_0)

declare FSMC_SRAM_WriteBuffer.simps [simp del] FSMC_SRAM_ReadBuffer.simps [simp del]

section \<open>What is written is read\<close>

text \<open>The memory after \<open>k\<close> bytes of the buffer from index \<open>i\<close> on.\<close>

definition filled :: "u8 list \<Rightarrow> nat \<Rightarrow> u32 \<Rightarrow> nat \<Rightarrow> memory \<Rightarrow> memory" where
  "filled pBuffer i a k mem = (\<lambda>x. if unat (x - Bank1_SRAM3_ADDR - a) < k then pBuffer ! (i + unat (x - Bank1_SRAM3_ADDR - a)) else mem x)"

lemma filled_step:
  assumes "unat (n :: u32) = Suc k"
  shows "filled b (i + 1) (a + 1) k (mem(Bank1_SRAM3_ADDR + a := b ! i)) = filled b i a (Suc k) mem"
proof
  fix x :: u32
  define d where "d = x - Bank1_SRAM3_ADDR - a"
  have eq: "x - Bank1_SRAM3_ADDR - (a + 1) = d - 1" by (simp add: d_def)
  have k: "Suc k < 4294967296" using unat_u32_lt [of n] unfolding assms .
  show "filled b (i + 1) (a + 1) k (mem(Bank1_SRAM3_ADDR + a := b ! i)) x = filled b i a (Suc k) mem x"
  proof (cases "d = 0")
    case True
    then have "x = Bank1_SRAM3_ADDR + a" by (simp add: d_def algebra_simps)
    moreover have "d - 1 = 4294967295" using True by simp
    then have "\<not> unat (d - 1) < k" using k by simp
    ultimately show ?thesis using True by (simp add: filled_def eq d_def [symmetric])
  next
    case False
    then have "x \<noteq> Bank1_SRAM3_ADDR + a" "unat d = Suc (unat (d - 1))"
      by (auto simp: d_def unat_minus_one unat_gt_0)
    then show ?thesis by (simp add: filled_def eq d_def [symmetric])
  qed
qed

lemma WriteBuffer_fills:
  "i + unat n \<le> length b \<Longrightarrow> FSMC_SRAM_WriteBuffer b i a n mem = Ret (filled b i a (unat n) mem)"
proof (induction "unat n" arbitrary: i a n mem)
  case 0
  then have "n = 0" by (simp add: unat_eq_zero)
  then show ?case by (subst FSMC_SRAM_WriteBuffer.simps) (simp add: filled_def)
next
  case (Suc k)
  have n: "n \<noteq> 0" using Suc.hyps(2) by auto
  have "unat (n - 1) = k" unfolding unat_minus_one [OF n] Suc.hyps(2) [symmetric] by simp
  note n = n this
  show ?case
    using Suc.prems Suc.hyps(1) [of "n - 1" "i + 1"] Suc.hyps(2) n filled_step [of n k b i a mem]
    by (subst FSMC_SRAM_WriteBuffer.simps) simp
qed

lemma ReadBuffer_reads:
  "i + unat n \<le> length b \<Longrightarrow> FSMC_SRAM_ReadBuffer b i a n mem
     = Ret (take i b @ map (\<lambda>j. mem (Bank1_SRAM3_ADDR + a + of_nat j)) [0..<unat n] @ drop (i + unat n) b)"
proof (induction "unat n" arbitrary: i a n b)
  case 0
  then have "n = 0" by (simp add: unat_eq_zero)
  then show ?case by (subst FSMC_SRAM_ReadBuffer.simps) simp
next
  case (Suc k)
  have n: "n \<noteq> 0" using Suc.hyps(2) by auto
  have "unat (n - 1) = k" unfolding unat_minus_one [OF n] Suc.hyps(2) [symmetric] by simp
  note n = n this Suc.hyps(2) [symmetric]
  define b1 where "b1 = b[i := mem (Bank1_SRAM3_ADDR + a)]"
  have "map (\<lambda>j. mem (Bank1_SRAM3_ADDR + a + of_nat j)) [0..<Suc k]
      = mem (Bank1_SRAM3_ADDR + a) # map (\<lambda>j. mem (Bank1_SRAM3_ADDR + (a + 1) + of_nat j)) [0..<k]"
    by (simp add: upt_conv_Cons map_Suc_upt [symmetric] comp_def ac_simps del: upt_Suc)
  moreover have "take (i + 1) b1 = take i b @ [mem (Bank1_SRAM3_ADDR + a)]" "drop (i + 1 + k) b1 = drop (i + Suc k) b"
    using Suc.prems n(3) by (simp_all add: b1_def take_Suc_conv_app_nth)
  ultimately show ?case
    using Suc.prems Suc.hyps(1) [of "n - 1" "i + 1" b1 "a + 1"] n
    by (subst FSMC_SRAM_ReadBuffer.simps) (simp add: b1_def)
qed

section \<open>Round trip\<close>

text \<open>
  What is written to the memory from a buffer is read back from the same address, whatever is in the
  buffer that takes it, also across the end of the addresses; the other bytes of the memory keep their values.
\<close>

theorem sram_keeps_what_is_written:
  assumes "unat n \<le> length b" and "unat n \<le> length c"
  shows "\<exists>mem'. FSMC_SRAM_WriteBuffer b 0 a n mem = Ret mem'
    \<and> FSMC_SRAM_ReadBuffer c 0 a n mem' = Ret (take (unat n) b @ drop (unat n) c)
    \<and> (\<forall>x. n \<le> x - Bank1_SRAM3_ADDR - a \<longrightarrow> mem' x = mem x)"
proof -
  define mem' where "mem' = filled b 0 a (unat n) mem"
  have w: "FSMC_SRAM_WriteBuffer b 0 a n mem = Ret mem'" unfolding mem'_def using assms(1) by (intro WriteBuffer_fills) simp
  have "map (\<lambda>j. mem' (Bank1_SRAM3_ADDR + a + of_nat j)) [0..<unat n] = take (unat n) b"
  proof (rule nth_equalityI)
    fix j assume "j < length (map (\<lambda>j. mem' (Bank1_SRAM3_ADDR + a + of_nat j)) [0..<unat n])"
    then have j: "j < unat n" by simp
    then have "unat (of_nat j :: u32) = j" by (intro unat_of_nat_u32 less_trans [OF j unat_u32_lt])
    then show "map (\<lambda>j. mem' (Bank1_SRAM3_ADDR + a + of_nat j)) [0..<unat n] ! j = take (unat n) b ! j"
      using j by (simp add: mem'_def filled_def)
  qed (use assms(1) in simp)
  moreover have "mem' x = mem x" if "n \<le> x - Bank1_SRAM3_ADDR - a" for x
    using that by (simp add: mem'_def filled_def word_le_nat_alt)
  ultimately show ?thesis using w ReadBuffer_reads [of 0 n c a mem'] assms(2) by auto
qed

lemma sram_keeps_what_is_written_witness:
  "\<exists>mem'. FSMC_SRAM_WriteBuffer [7, 8] 0 0xFFFFFFFF 2 (\<lambda>_. 0) = Ret mem'
    \<and> FSMC_SRAM_ReadBuffer [1, 2, 3] 0 0xFFFFFFFF 2 mem' = Ret [7, 8, 3]"
  using sram_keeps_what_is_written [of 2 "[7, 8]" "[1, 2, 3]" "0xFFFFFFFF" "\<lambda>_. 0"] by auto

end
