(* ===== verification/Pins.thy ===== *)
theory Pins
  imports Prelude
begin

unbundle bit_operations_syntax

text \<open>
  The pins of the processor: \<open>HAL_GPIO_Init\<close> of the vendor library on the registers of a port, the set-up
  of their pins by the drivers under \<open>applications/\<close>, in the order in which \<open>drivers/board.c\<close> calls them, and the
  macros that turn one line from output to input and back. Clocks, alternate functions and the external
  interrupts are not modelled.
\<close>

section \<open>The registers of the ports\<close>

datatype gpio_port = GPIOA | GPIOB | GPIOC | GPIOD | GPIOE | GPIOF | GPIOG

text \<open>Four bits for the configuration of each pin, in \<open>CRL\<close> for pins 0 to 7, in \<open>CRH\<close> for the others.\<close>

record gpio =
  CRL :: "gpio_port \<Rightarrow> u32"
  CRH :: "gpio_port \<Rightarrow> u32"
  ODR :: "gpio_port \<Rightarrow> u32"

datatype gpio_mode = OUTPUT_PP | AF_PP | INPUT | ANALOG | IT_FALLING
datatype gpio_pull = NOPULL | PULLUP | PULLDOWN
datatype gpio_speed = SPEED_LOW | SPEED_MEDIUM | SPEED_HIGH

record gpio_init =
  Mode :: gpio_mode
  Pull :: gpio_pull
  Speed :: gpio_speed

fun speed_bits :: "gpio_speed \<Rightarrow> u32" where
  "speed_bits SPEED_LOW = 2" | "speed_bits SPEED_MEDIUM = 1" | "speed_bits SPEED_HIGH = 3"

definition config_bits :: "gpio_init \<Rightarrow> u32" where
  "config_bits i =
     (case Mode i of OUTPUT_PP \<Rightarrow> speed_bits (Speed i) | AF_PP \<Rightarrow> speed_bits (Speed i) + 8 | ANALOG \<Rightarrow> 0
      | _ \<Rightarrow> if Pull i = NOPULL then 4 else 8)"

definition set_odr :: "gpio_port \<Rightarrow> nat \<Rightarrow> bool \<Rightarrow> gpio \<Rightarrow> gpio" where
  "set_odr P n b g = g \<lparr> ODR := (ODR g)(P := (if b then ODR g P OR push_bit n 1 else ODR g P AND NOT (push_bit n 1))) \<rparr>"

text \<open>\<open>MODIFY_REG\<close> on one field of four bits.\<close>

definition set_field :: "nat \<Rightarrow> u32 \<Rightarrow> u32 \<Rightarrow> u32" where
  "set_field k c w = (w AND NOT (push_bit (4 * k) 0xF)) OR push_bit (4 * k) c"

definition set_config :: "gpio_port \<Rightarrow> nat \<Rightarrow> u32 \<Rightarrow> gpio \<Rightarrow> gpio" where
  "set_config P n c g =
     (if n < 8 then g \<lparr> CRL := (CRL g)(P := set_field n c (CRL g P)) \<rparr>
      else g \<lparr> CRH := (CRH g)(P := set_field (n - 8) c (CRH g P)) \<rparr>)"

definition init_pin :: "gpio_port \<Rightarrow> gpio_init \<Rightarrow> nat \<Rightarrow> gpio \<Rightarrow> gpio" where
  "init_pin P i n g =
     (let g = (if Mode i \<in> {INPUT, IT_FALLING} \<and> Pull i \<noteq> NOPULL then set_odr P n (Pull i = PULLUP) g else g)
      in set_config P n (config_bits i) g)"

text \<open>The loop goes through the sixteen positions; \<open>pins\<close> are the bits of the mask.\<close>

definition HAL_GPIO_Init :: "gpio_port \<Rightarrow> nat list \<Rightarrow> gpio_init \<Rightarrow> gpio \<Rightarrow> gpio" where
  "HAL_GPIO_Init P pins i g = fold (init_pin P i) (filter (\<lambda>n. n \<in> set pins) [0..<16]) g"

definition HAL_GPIO_WritePin :: "gpio_port \<Rightarrow> nat \<Rightarrow> bool \<Rightarrow> gpio \<Rightarrow> gpio" where
  "HAL_GPIO_WritePin = set_odr"

text \<open>A write through the bit band of an output register, such as \<open>BEEP = 1\<close>.\<close>

definition out :: "gpio_port \<Rightarrow> nat \<Rightarrow> bool \<Rightarrow> gpio \<Rightarrow> gpio" where "out = set_odr"

section \<open>What the drivers set up\<close>

text \<open>A description of the three fields the drivers fill in.\<close>

definition ini :: "gpio_mode \<Rightarrow> gpio_pull \<Rightarrow> gpio_speed \<Rightarrow> gpio_init" where
  "ini m p s = \<lparr> Mode = m, Pull = p, Speed = s \<rparr>"

text \<open>\<open>HAL_UART_MspInit\<close> for the line of the GSM module; the pull of the first pin is not set, and not used.\<close>

definition uart2_pins :: "gpio \<Rightarrow> gpio" where
  "uart2_pins g =
     (let g = HAL_GPIO_Init GPIOA [2] (ini AF_PP NOPULL SPEED_HIGH) g
      in HAL_GPIO_Init GPIOA [3] (ini INPUT NOPULL SPEED_HIGH) g)"

definition BEEP_Init :: "gpio \<Rightarrow> gpio" where
  "BEEP_Init g =
     (let g = HAL_GPIO_Init GPIOB [8] (ini OUTPUT_PP PULLUP SPEED_HIGH) g; g = HAL_GPIO_WritePin GPIOB 8 False g;
          g = out GPIOB 8 True g
      in out GPIOB 8 False g)"

definition RSD_init :: "gpio \<Rightarrow> gpio" where
  "RSD_init = HAL_GPIO_Init GPIOC [8] (ini INPUT PULLUP SPEED_MEDIUM)"

text \<open>The write to \<open>WB_STATUS\<close> goes to the input register and has no effect.\<close>

definition WB_init :: "gpio \<Rightarrow> gpio" where
  "WB_init = HAL_GPIO_Init GPIOG [15] (ini INPUT PULLUP SPEED_MEDIUM)"

definition LED_Init :: "gpio \<Rightarrow> gpio" where
  "LED_Init g =
     (let g = HAL_GPIO_WritePin GPIOE 5 False g; g = HAL_GPIO_WritePin GPIOB 5 False g;
          g = HAL_GPIO_Init GPIOE [5] (ini OUTPUT_PP PULLUP SPEED_MEDIUM) g;
          g = HAL_GPIO_Init GPIOB [5] (ini OUTPUT_PP PULLUP SPEED_LOW) g;
          g = out GPIOE 5 False g; g = out GPIOB 5 False g; g = out GPIOE 5 True g
      in out GPIOB 5 True g)"

definition remote_pins :: "gpio \<Rightarrow> gpio" where
  "remote_pins = HAL_GPIO_Init GPIOB [9] (ini INPUT PULLUP SPEED_MEDIUM)"

definition DHT11_pins :: "gpio \<Rightarrow> gpio" where
  "DHT11_pins = HAL_GPIO_Init GPIOG [11] (ini OUTPUT_PP PULLUP SPEED_HIGH)"

text \<open>The structure is cleared before: the pull and the speed are zero, and not used.\<close>

definition adc_pins :: "gpio \<Rightarrow> gpio" where
  "adc_pins g =
     (let g = HAL_GPIO_Init GPIOF [8] (ini ANALOG NOPULL SPEED_LOW) g
      in HAL_GPIO_Init GPIOA [1, 4] (ini ANALOG NOPULL SPEED_LOW) g)"

definition lcd_pins :: "gpio \<Rightarrow> gpio" where
  "lcd_pins g =
     (let g = HAL_GPIO_Init GPIOB [0] (ini OUTPUT_PP PULLUP SPEED_HIGH) g; i = ini AF_PP PULLUP SPEED_HIGH;
          g = HAL_GPIO_Init GPIOD [0, 1, 4, 5, 8, 9, 10, 14, 15] i g;
          g = HAL_GPIO_Init GPIOE [7, 8, 9, 10, 11, 12, 13, 14, 15] i g
      in HAL_GPIO_Init GPIOG [0, 12] i g)"

definition IIC_pins :: "gpio \<Rightarrow> gpio" where
  "IIC_pins g =
     (let g = HAL_GPIO_Init GPIOB [6, 7] (ini OUTPUT_PP PULLUP SPEED_HIGH) g; g = out GPIOB 7 True g
      in out GPIOB 6 True g)"

definition CT_IIC_pins :: "gpio \<Rightarrow> gpio" where
  "CT_IIC_pins g =
     (let i = ini OUTPUT_PP PULLUP SPEED_HIGH; g = HAL_GPIO_Init GPIOB [1] i g; g = HAL_GPIO_Init GPIOF [9] i g;
          g = out GPIOB 1 True g
      in out GPIOF 9 True g)"

text \<open>The reset line is low for a while, then high.\<close>

definition ct_reset :: "gpio \<Rightarrow> gpio" where "ct_reset g = out GPIOF 11 True (out GPIOF 11 False g)"

text \<open>The same steps in \<open>FT5206_Init\<close> and \<open>OTT2001A_Init\<close>; \<open>GT9147_Init\<close> turns the pull of its input round.\<close>

definition ct_pins :: "gpio \<Rightarrow> gpio" where
  "ct_pins g =
     (let g = HAL_GPIO_Init GPIOF [11] (ini OUTPUT_PP PULLUP SPEED_HIGH) g;
          g = HAL_GPIO_Init GPIOF [10] (ini INPUT PULLUP SPEED_HIGH) g
      in ct_reset (CT_IIC_pins g))"

definition GT9147_pins :: "gpio \<Rightarrow> gpio" where
  "GT9147_pins g = HAL_GPIO_Init GPIOF [10] (ini INPUT PULLDOWN SPEED_HIGH) (ct_pins g)"

definition TP_pins :: "gpio \<Rightarrow> gpio" where
  "TP_pins g =
     (let g = HAL_GPIO_Init GPIOB [1] (ini OUTPUT_PP PULLUP SPEED_HIGH) g;
          g = HAL_GPIO_Init GPIOB [2] (ini INPUT PULLUP SPEED_HIGH) g;
          g = HAL_GPIO_Init GPIOF [9, 11] (ini OUTPUT_PP PULLUP SPEED_HIGH) g;
          g = HAL_GPIO_Init GPIOF [10] (ini INPUT PULLUP SPEED_HIGH) g
      in IIC_pins g)"

text \<open>
  The panel that \<open>TP_Init\<close> finds by the controller of the display; the second try for the display 5510
  comes after the first.
\<close>

datatype panel_kind = Resistive | Panel_GT9147 | Panel_OTT2001A | Panel_FT5206

definition touch_pins :: "panel_kind \<Rightarrow> gpio \<Rightarrow> gpio" where
  "touch_pins p g = (case p of Resistive \<Rightarrow> TP_pins g | Panel_GT9147 \<Rightarrow> GT9147_pins g
     | Panel_OTT2001A \<Rightarrow> ct_pins (GT9147_pins g) | Panel_FT5206 \<Rightarrow> ct_pins g)"

definition nrf_pins :: "gpio \<Rightarrow> gpio" where
  "nrf_pins g =
     (let i = ini OUTPUT_PP PULLUP SPEED_HIGH; g = HAL_GPIO_Init GPIOB [12] i g; g = HAL_GPIO_Init GPIOG [7, 8] i g;
          g = HAL_GPIO_WritePin GPIOB 12 True g;
          g = HAL_GPIO_Init GPIOB [13, 14, 15] (ini AF_PP PULLUP SPEED_HIGH) g;
          g = out GPIOG 8 False g
      in out GPIOG 7 True g)"

text \<open>\<open>rt_hw_board_init\<close>, then the network controller from \<open>main\<close>.\<close>

definition board_pins :: "panel_kind \<Rightarrow> gpio \<Rightarrow> gpio" where
  "board_pins p g =
     (let g = uart2_pins g; g = BEEP_Init g; g = RSD_init g; g = WB_init g; g = LED_Init g; g = remote_pins g;
          g = DHT11_pins g; g = adc_pins g; g = lcd_pins g; g = touch_pins p g
      in nrf_pins g)"

definition DM9000_pins :: "gpio \<Rightarrow> gpio" where
  "DM9000_pins g =
     (let g = HAL_GPIO_Init GPIOD [7] (ini OUTPUT_PP PULLUP SPEED_HIGH) g;
          g = HAL_GPIO_Init GPIOG [6] (ini IT_FALLING PULLUP SPEED_HIGH) g; i = ini AF_PP PULLUP SPEED_HIGH;
          g = HAL_GPIO_Init GPIOD [0, 1, 4, 5, 8, 9, 10, 14, 15] i g;
          g = HAL_GPIO_Init GPIOE [7, 8, 9, 10, 11, 12, 13, 14, 15] i g;
          g = HAL_GPIO_Init GPIOF [13] i g
      in HAL_GPIO_Init GPIOG [9] i g)"

text \<open>Set-ups that no other code calls: the buttons, the outdoor sensor, the external memory.\<close>

definition key_Init :: "gpio \<Rightarrow> gpio" where
  "key_Init g =
     (let g = HAL_GPIO_Init GPIOE [2, 3, 4] (ini INPUT PULLUP SPEED_MEDIUM) g
      in HAL_GPIO_Init GPIOA [0] (ini INPUT PULLDOWN SPEED_MEDIUM) g)"

definition DS18B20_pins :: "gpio \<Rightarrow> gpio" where
  "DS18B20_pins g = HAL_GPIO_Init GPIOG [11] (ini OUTPUT_PP PULLUP SPEED_MEDIUM) (HAL_GPIO_WritePin GPIOG 11 False g)"

definition SRAM_pins :: "gpio \<Rightarrow> gpio" where
  "SRAM_pins g =
     (let i = ini AF_PP PULLUP SPEED_HIGH;
          g = HAL_GPIO_Init GPIOD [0, 1, 4, 5, 8, 9, 10, 11, 12, 13, 14, 15] i g;
          g = HAL_GPIO_Init GPIOE [0, 1, 7, 8, 9, 10, 11, 12, 13, 14, 15] i g;
          g = HAL_GPIO_Init GPIOF [0, 1, 2, 3, 4, 5, 12, 13, 14, 15] i g
      in HAL_GPIO_Init GPIOG [0, 1, 2, 3, 4, 5, 10] i g)"

section \<open>The direction of a line\<close>

definition DHT11_IO_IN :: "gpio \<Rightarrow> gpio" where
  "DHT11_IO_IN g =
     (let g = g \<lparr> CRH := (CRH g)(GPIOG := CRH g GPIOG AND 0xFFFF0FFF) \<rparr>
      in g \<lparr> CRH := (CRH g)(GPIOG := CRH g GPIOG OR push_bit 12 8) \<rparr>)"

definition DHT11_IO_OUT :: "gpio \<Rightarrow> gpio" where
  "DHT11_IO_OUT g =
     (let g = g \<lparr> CRH := (CRH g)(GPIOG := CRH g GPIOG AND 0xFFFF0FFF) \<rparr>
      in g \<lparr> CRH := (CRH g)(GPIOG := CRH g GPIOG OR push_bit 12 3) \<rparr>)"

definition IIC_SDA_IN :: "gpio \<Rightarrow> gpio" where
  "IIC_SDA_IN g =
     (let g = g \<lparr> CRL := (CRL g)(GPIOB := CRL g GPIOB AND 0x0FFFFFFF) \<rparr>
      in g \<lparr> CRL := (CRL g)(GPIOB := CRL g GPIOB OR push_bit 28 8) \<rparr>)"

definition IIC_SDA_OUT :: "gpio \<Rightarrow> gpio" where
  "IIC_SDA_OUT g =
     (let g = g \<lparr> CRL := (CRL g)(GPIOB := CRL g GPIOB AND 0x0FFFFFFF) \<rparr>
      in g \<lparr> CRL := (CRL g)(GPIOB := CRL g GPIOB OR push_bit 28 3) \<rparr>)"

definition CT_SDA_IN :: "gpio \<Rightarrow> gpio" where
  "CT_SDA_IN g =
     (let g = g \<lparr> CRH := (CRH g)(GPIOF := CRH g GPIOF AND 0xFFFFFF0F) \<rparr>
      in g \<lparr> CRH := (CRH g)(GPIOF := CRH g GPIOF OR push_bit 4 8) \<rparr>)"

definition CT_SDA_OUT :: "gpio \<Rightarrow> gpio" where
  "CT_SDA_OUT g =
     (let g = g \<lparr> CRH := (CRH g)(GPIOF := CRH g GPIOF AND 0xFFFFFF0F) \<rparr>
      in g \<lparr> CRH := (CRH g)(GPIOF := CRH g GPIOF OR push_bit 4 3) \<rparr>)"

section \<open>What a pin is set to\<close>

definition field :: "nat \<Rightarrow> u32 \<Rightarrow> u32" where "field k w = drop_bit (4 * k) w AND 0xF"

definition config :: "gpio \<Rightarrow> gpio_port \<Rightarrow> nat \<Rightarrow> u32" where
  "config g P n = (if n < 8 then field n (CRL g P) else field (n - 8) (CRH g P))"

definition level :: "gpio \<Rightarrow> gpio_port \<Rightarrow> nat \<Rightarrow> bool" where "level g P n = bit (ODR g P) n"

lemma nibble_bits: "bit (0xF :: u32) i = (i < 4)"
proof -
  have "(0xF :: u32) = mask 4" by (simp add: mask_eq_exp_minus_1)
  then have "bit (0xF :: u32) i = bit (mask 4 :: u32) i" by (simp only:)
  then show ?thesis by (auto simp: bit_mask_iff simp del: mask_numeral)
qed

lemma nibble_bits_int: "bit (15 :: int) i = (i < 4)"
proof -
  have "(15 :: int) = mask 4" by (simp add: mask_eq_exp_minus_1)
  then have "bit (15 :: int) i = bit (mask 4 :: int) i" by (simp only:)
  then show ?thesis by (auto simp: bit_mask_iff simp del: mask_numeral)
qed

lemma field_set_field:
  assumes "k < 8" and "j < 8" and "c AND 0xF = c"
  shows "field j (set_field k c w) = (if j = k then c else field j w)"
proof (rule bit_word_eqI)
  fix i assume "i < LENGTH(32)"
  have c: "bit c m = (m < 4 \<and> bit c m)" for m using bit_and_iff [of c "0xF" m] unfolding assms(3) nibble_bits by blast
  have "4 \<le> 4 * j + i - 4 * k \<or> 4 * j + i < 4 * k \<or> \<not> i < 4" if "j \<noteq> k" using that by linarith
  then show "bit (field j (set_field k c w)) i = bit (if j = k then c else field j w) i"
    using assms(1,2) c [of i] c [of "4 * j + i - 4 * k"]
    by (auto simp: field_def set_field_def bit_simps nibble_bits_int)
qed

lemma config_set_config:
  assumes "n < 16" and "m < 16" and "c AND 0xF = c"
  shows "config (set_config P n c g) Q m = (if Q = P \<and> m = n then c else config g Q m)"
  using assms by (auto simp: config_def set_config_def field_set_field)

lemma level_set_odr [simp]:
  "n < 16 \<Longrightarrow> level (set_odr P n b g) Q m = (if Q = P \<and> m = n then b else level g Q m)"
  by (auto simp: level_def set_odr_def bit_simps dest: bit_imp_le_length)

lemma unmoved [simp]: "config (set_odr P n b g) = config g" "level (set_config P n c g) = level g"
  by (auto simp: config_def level_def set_odr_def set_config_def fun_eq_iff)

lemma config_bits_nibble: "config_bits i AND 0xF = config_bits i"
  by (cases "Mode i"; cases "Speed i") (simp_all add: config_bits_def)

text \<open>An input with a pull also sets the bit of the output register.\<close>

definition pulled :: "gpio_init \<Rightarrow> bool" where
  "pulled i \<longleftrightarrow> Mode i \<in> {INPUT, IT_FALLING} \<and> Pull i \<noteq> NOPULL"

lemma init_pin_at:
  assumes "n < 16" and "m < 16"
  shows "config (init_pin P i n g) Q m = (if Q = P \<and> m = n then config_bits i else config g Q m)"
    "level (init_pin P i n g) Q m = (if Q = P \<and> m = n \<and> pulled i then Pull i = PULLUP else level g Q m)"
  using assms config_set_config [OF assms config_bits_nibble]
  unfolding init_pin_def pulled_def [symmetric] Let_def by simp_all

lemma init_pins_at:
  assumes "m < 16" and "\<forall>n\<in>set ns. n < 16"
  shows "config (fold (init_pin P i) ns g) Q m = (if Q = P \<and> m \<in> set ns then config_bits i else config g Q m)"
    "level (fold (init_pin P i) ns g) Q m =
       (if Q = P \<and> m \<in> set ns \<and> pulled i then Pull i = PULLUP else level g Q m)"
  using assms(2) by (induction ns arbitrary: g) (auto simp: init_pin_at [OF _ assms(1)])

lemma HAL_GPIO_Init_at:
  assumes "m < 16"
  shows "config (HAL_GPIO_Init P pins i g) Q m = (if Q = P \<and> m \<in> set pins then config_bits i else config g Q m)"
    "level (HAL_GPIO_Init P pins i g) Q m =
       (if Q = P \<and> m \<in> set pins \<and> pulled i then Pull i = PULLUP else level g Q m)"
  using assms init_pins_at [OF assms, of "filter (\<lambda>n. n \<in> set pins) [0..<16]"] by (auto simp: HAL_GPIO_Init_def)

lemmas pins_at = HAL_GPIO_Init_at HAL_GPIO_WritePin_def out_def

section \<open>Properties\<close>

text \<open>
  The pins each device needs: a pin and the four bits of its configuration, 3, 2 and 1 for an output, 11 for
  a line of a peripheral, 8 for an input with a pull, 4 for one without, 0 for the converter.
\<close>

definition touch_table :: "panel_kind \<Rightarrow> ((gpio_port \<times> nat) \<times> u32) list" where
  "touch_table p =
     [((GPIOB, 1), 3), ((GPIOF, 9), 3), ((GPIOF, 10), 8), ((GPIOF, 11), 3)]
     @ (if p = Resistive then [((GPIOB, 2), 8), ((GPIOB, 6), 3), ((GPIOB, 7), 3)] else [])"

definition board_table :: "panel_kind \<Rightarrow> ((gpio_port \<times> nat) \<times> u32) list" where
  "board_table p =
     [((GPIOA, 2), 11), ((GPIOA, 3), 4), ((GPIOB, 8), 3), ((GPIOC, 8), 8), ((GPIOG, 15), 8), ((GPIOE, 5), 1),
      ((GPIOB, 5), 2), ((GPIOB, 9), 8), ((GPIOG, 11), 3), ((GPIOF, 8), 0), ((GPIOA, 1), 0), ((GPIOA, 4), 0),
      ((GPIOB, 0), 3)]
     @ map (\<lambda>n. ((GPIOD, n), 11)) [0, 1, 4, 5, 8, 9, 10, 14, 15]
     @ map (\<lambda>n. ((GPIOE, n), 11)) [7, 8, 9, 10, 11, 12, 13, 14, 15]
     @ [((GPIOG, 0), 11), ((GPIOG, 12), 11)]
     @ [((GPIOB, 12), 3), ((GPIOG, 7), 3), ((GPIOG, 8), 3), ((GPIOB, 13), 11), ((GPIOB, 14), 11), ((GPIOB, 15), 11)]
     @ touch_table p"

definition network_table :: "((gpio_port \<times> nat) \<times> u32) list" where
  "network_table = [((GPIOD, 7), 3), ((GPIOG, 6), 8), ((GPIOF, 13), 11), ((GPIOG, 9), 11)]"

definition in_table :: "((gpio_port \<times> nat) \<times> u32) list \<Rightarrow> gpio \<Rightarrow> gpio_port \<Rightarrow> nat \<Rightarrow> u32" where
  "in_table tab g P n = (case map_of tab (P, n) of Some c \<Rightarrow> c | None \<Rightarrow> config g P n)"

lemmas pin_defs = uart2_pins_def BEEP_Init_def RSD_init_def WB_init_def LED_Init_def remote_pins_def DHT11_pins_def
  adc_pins_def lcd_pins_def IIC_pins_def CT_IIC_pins_def ct_reset_def ct_pins_def GT9147_pins_def TP_pins_def
  nrf_pins_def DM9000_pins_def touch_pins_def ini_def config_bits_def pulled_def

lemma touch_config:
  assumes "n < 16"
  shows "config (touch_pins p g) P n = in_table (touch_table p) g P n"
  using assms
  by (cases p; cases P; auto simp: pin_defs Let_def pins_at touch_table_def in_table_def; arith?)

lemma nrf_config:
  assumes "n < 16"
  shows "config (nrf_pins g) P n = (if P = GPIOB \<and> n = 12 \<or> P = GPIOG \<and> n \<in> {7, 8} then 3
    else if P = GPIOB \<and> n \<in> {13, 14, 15} then 11 else config g P n)"
  using assms by (cases P; auto simp: pin_defs Let_def pins_at; arith?)

text \<open>After the start of the board every pin is set as the table says, the others as before.\<close>

lemma board_config:
  assumes "n < 16"
  shows "config (board_pins p g) P n = in_table (board_table p) g P n"
proof -
  have "config (lcd_pins (adc_pins (DHT11_pins (remote_pins (LED_Init (WB_init (RSD_init (BEEP_Init (uart2_pins g))))))))) P n
    = in_table (take 33 (board_table p)) g P n"
    using assms by (cases P; auto simp: pin_defs Let_def pins_at board_table_def in_table_def; arith?)
  then show ?thesis
    unfolding board_pins_def Let_def nrf_config [OF assms] touch_config [OF assms] in_table_def
    by (cases P; cases p) (auto simp: board_table_def touch_table_def split: option.splits)
qed

lemma network_config:
  assumes "n < 16"
  shows "config (DM9000_pins g) P n = (if P = GPIOD \<and> n \<in> {0, 1, 4, 5, 8, 9, 10, 14, 15} \<or> P = GPIOE \<and> 7 \<le> n then 11
    else in_table network_table g P n)"
  using assms by (cases P; auto simp: pin_defs Let_def pins_at network_table_def in_table_def; arith?)

text \<open>The macros set one field: the other bits of the masks are ones.\<close>

lemma directions:
  "DHT11_IO_IN = set_config GPIOG 11 8" "DHT11_IO_OUT = set_config GPIOG 11 3" "IIC_SDA_IN = set_config GPIOB 7 8"
  "IIC_SDA_OUT = set_config GPIOB 7 3" "CT_SDA_IN = set_config GPIOF 9 8" "CT_SDA_OUT = set_config GPIOF 9 3"
proof -
  have m: "(- 61441 :: u32) = 0xFFFF0FFF" "(- 4026531841 :: u32) = 0x0FFFFFFF" "(- 241 :: u32) = 0xFFFFFF0F" by simp_all
  show "DHT11_IO_IN = set_config GPIOG 11 8" "DHT11_IO_OUT = set_config GPIOG 11 3" "IIC_SDA_IN = set_config GPIOB 7 8"
    "IIC_SDA_OUT = set_config GPIOB 7 3" "CT_SDA_IN = set_config GPIOF 9 8" "CT_SDA_OUT = set_config GPIOF 9 3"
  unfolding fun_eq_iff DHT11_IO_IN_def DHT11_IO_OUT_def IIC_SDA_IN_def IIC_SDA_OUT_def CT_SDA_IN_def CT_SDA_OUT_def set_config_def Let_def
  by (simp_all add: set_field_def m)
qed



end
