(* ===== verification/Spec2Isabelle.thy ===== *)
theory Spec2Isabelle
  imports Pool_Alloc Ir_Remote Usart2 Web_Facts Touch_Facts Display_Facts Radio_Facts Ct_Ott Lcd_Start Net_Start
    Delay Ds18b20 Queue_Words Semaphore Practice Sram Pins
begin

text \<open>
  The Smart-Home firmware: a controller board (STM32F103 under RT-Thread) that keeps a clock,
  reads temperature, humidity, gas and fire sensors, switches lamps, drives a curtain over a
  radio link, raises alarms by beeper and text message, and is operated by a touch screen, an
  infra-red remote, text messages and web forms. The development models the firmware's own C code,
  which is under \<open>applications/\<close>, the firmware's side of the network (\<open>lwip_comm.c\<close>, \<open>ethernetif.c\<close>),
  and the mailboxes, message queues, semaphores, mutexes and events of the kernel (\<open>rt-thread/src/ipc.c\<close>).

  Every definition is a translation of the C code named beside it: integers are words of their
  C width (\<open>u8\<close>, \<open>u16\<close>, \<open>u32\<close>) with wrap-around, hardware registers and global variables are
  record fields, and each C function is a function on the state. What a function reads from
  outside (levels of a line, touch scans, answers of the GSM module, converter values) is an
  argument. A device that is driven through pins or memory cells is a function that gives its answer
  from the list of everything that has happened to it, and its data sheet is a locale on that list.
  \<open>cres\<close> is the outcome of a call: it returns, it indexes outside an array
  (\<open>Fault\<close>), or it waits for ever (\<open>Spin\<close>).

  \<^bold>\<open>Prelude, C_String, Bits\<close>. Words and natural numbers, outcomes of calls, array
  reads and writes, \<open>if\<close> statements on a state; decimal output and input, \<open>strcmp\<close>, \<open>strstr\<close>
  and the bytes a formatted write puts past its array; bits shifted in one by one.

  \<^bold>\<open>Calendar, Rtc\<close> (\<open>rtc.c\<close>). The loops that turn a date into seconds and back, at
  their C widths; the counter, its configuration, \<open>RTC_Get\<close>, \<open>RTC_Set\<close>, \<open>RTC_Init\<close>, the alarm,
  the interrupt handler and the clock display. The loops are proved inverse to each other for
  every day from 1970 to 2099, and the displayed time follows the count under any run of ticks,
  reads, interrupts and settings. The waits for \<open>RTOFF\<close> are bounded by the number of polls after
  which the flag is up, a hypothesis where a call must return.

  \<^bold>\<open>Screen, Set_Time_Panel\<close> (\<open>lcd.c\<close>, \<open>lcd.h\<close>, \<open>rtc.c\<close>). Display calls as a list,
  the touch areas, and the panel that sets the clock: its number entry, the limits it keeps, what
  leaving it by C and by E does.

  \<^bold>\<open>Pool_Alloc\<close> (\<open>malloc.c\<close>). The block allocator of the firmware with its map of
  blocks; the locale \<open>allocator\<close> is what a client relies on, interpreted on the code's model.

  \<^bold>\<open>Ir_Remote\<close> (\<open>remote.c\<close>). The capture interrupts, the decoder and \<open>Remote_Scan\<close>;
  every frame sent with pulses within the tolerance yields its key.

  \<^bold>\<open>Usart2, Gsm\<close> (\<open>usart.c\<close>, \<open>bsp_timer.c\<close>, \<open>bsp_gsm.c\<close>). The receiver of the serial
  line and the dialogue with the GSM module: which texts are sent, and the balance of the heap.

  \<^bold>\<open>Sensors\<close> (\<open>dht11.c\<close>, \<open>bsp_adc.c\<close>, \<open>public.c\<close>). The one-wire reader on the levels of
  its line, and the thresholds of the averages. The rounding of the product of an average with
  \<open>3.3/4096\<close> is the parameter \<open>fl\<close>, with the hypothesis \<open>fl_close\<close> (relative error at most
  one millionth, far above that of single precision).

  \<^bold>\<open>Mailbox\<close> (\<open>rt-thread/src/ipc.c\<close>). The ring of a mailbox; the locale \<open>fifo\<close> is the
  contract of a bounded queue, interpreted on the ring.

  \<^bold>\<open>Center, Center_Facts\<close> (\<open>main.c\<close>, \<open>bsp_led.c\<close>). All threads on one state. A thread
  runs from one scheduling point to the next; \<open>run\<close> is a history of such steps. The curtain
  commands and the messages travel through the mailboxes of \<open>Mailbox\<close>, the messages are sent by
  the dialogue of \<open>Gsm\<close>, the time panel is that of \<open>Set_Time_Panel\<close>.

  \<^bold>\<open>Histories, Web_Cgi, Web_Facts\<close> (\<open>httpd_cgi_ssi.c\<close>, \<open>fs.c\<close>, \<open>fsdata.c\<close>). The forms of
  the web server act on the state of \<open>Center\<close> and are steps of its histories like the threads;
  the page a form answers with and the values inserted in the pages are proved to show the state.

  \<^bold>\<open>I2c_Bus, Eeprom\<close> (\<open>myiic.c\<close>, \<open>24cxx.c\<close>). The bit-banged bus on its two pins: a chip sees
  exactly the bits, start and stop conditions the calls mean. The EEPROM driver runs on these pins;
  what the data sheet promises of a byte write and a random read is the locale \<open>eeprom\<close>, stated on
  what the chip has seen, with a working 24C02 as its interpretation, and from it reading gives back
  what was written.

  \<^bold>\<open>Float32\<close>. The image of a C float, its rational value and rounding to nearest, with the bound
  of the rounding error.

  \<^bold>\<open>Touch_Input, Touch_Panel, Touch_Facts\<close> (\<open>touch.c\<close>). The conversions of the touch controller
  on its pins, the filter (the nested loops sort), scanning, the calibration with its endless loop,
  and its storage in the EEPROM. The loop is a \<open>partial_function\<close> in the option monad, so that not
  ending is \<open>None\<close>, and is proved to end.

  \<^bold>\<open>Lcd_Draw, Lcd_Facts\<close> (\<open>lcd.c\<close>). Lines, rectangles, circles, characters, numbers and texts as
  the points they draw on a canvas; the loops of the line and the circle end, a character is its
  glyph, a number its decimal digits.

  \<^bold>\<open>Lcd_Driver, Display_Facts\<close> (\<open>lcd.c\<close>). The commands and data the driver writes to each display
  controller, and a controller that takes them. The locale \<open>display\<close> is the data sheet of those with
  the commands 2A, 2B and 2C (the 9341 and the 5310): for these what
  is drawn on the canvas is what the picture memory shows.

  \<^bold>\<open>Lcd_Power, Lcd_Start\<close> (\<open>lcd.c\<close>, \<open>LCD_Init\<close>). The reads, the search for a controller that
  answers, the power-on table of each with its pauses, and the first clearing. After it a
  recognised controller is awake, switched on and in its 16-bit format, and its screen is white.

  \<^bold>\<open>Radio, Radio_Link, Radio_Chip, Radio_Facts\<close> (\<open>spi.c\<close>, \<open>24l01.c\<close>, \<open>main.c\<close>). The driver on
  the events of the serial port; the data sheet of the chip is the locale \<open>nrf24\<close>, a working chip
  its interpretation; the histories of \<open>Center\<close> with this driver as the radio: the partner has
  acknowledged exactly the packets the curtain status counts.

  \<^bold>\<open>Ct_Iic, Ct_Chip, Ct_Scan, Ct_Facts, Ct_Steady, Ct_Touches, Ct_Ott, Float64\<close> (\<open>ctiic.c\<close>,
  \<open>gt9147.c\<close>, \<open>ft5206.c\<close>, \<open>ott2001a.c\<close>). The capacitive touch controllers: their bus, their registers
  (the locale \<open>register_chip\<close> is what a data sheet promises, \<open>steady_chip\<close> that only writes change
  them; a working chip interprets both, and the locales of the three devices), the initialisations,
  the scan functions and the call through \<open>tp_dev.scan\<close>. The touch record keeps its type on any
  chip; on steady chips registers read back, the touches are shown, and none goes unnoticed for
  more than eleven calls. \<open>Float64\<close> is rounding to double precision, in which the OTT2001A scales.

  \<^bold>\<open>Dm9000, Dm9000_Chip, Dm9000_Facts\<close> (\<open>dm9000.c\<close>). The Ethernet controller on its index and
  data cells. The locale \<open>nic\<close> is its data sheet, a controller at which frames arrive at any time its
  interpretation. A chain of buffers becomes one frame on the wire; frames that have come in are
  received in order, damaged ones are skipped.

  \<^bold>\<open>Lwip_Comm, Net_Facts, Net_Start\<close> (\<open>lwip_comm.c\<close>, \<open>ethernetif.c\<close>). The receive thread, the start
  of the interface and the wait for an address. All waiting frames reach the stack, what one board
  sends another receives, the wait ends with an address or with the fixed one, and a receive error
  leaves the driver's semaphore taken, so that the next call never returns.

  \<^bold>\<open>Msg_Queue, Queue_Words\<close> (\<open>ipc.c\<close>). The message queue as linked lists of blocks. A call
  has two critical sections with a gap in which other threads run: \<open>mq_step\<close> is one such section, and
  under any interleaving the blocks stay in exactly one place and messages come out as they were put
  in. The locale \<open>two_fifos\<close> compares two bounded queues: a message queue of words is a mailbox.

  \<^bold>\<open>Sync, Practice\<close> (\<open>ipc.c\<close>, \<open>semaphore.c\<close>, \<open>mutex.c\<close>, \<open>mailbox.c\<close>). Mutexes with priority
  inheritance, and events: one owner at a time which is never below the threads it keeps waiting, and
  no thread sleeps on flags that are up. The samples on them: the two event threads take turns, and
  the lamps follow the presses of the buttons.

  \<^bold>\<open>Semaphore\<close> (\<open>ipc.c\<close>). Semaphores, whose permits are neither lost nor granted twice while they
  fit the 16 bits of the value, and for all objects of the kernel the calls that reset, detach, create
  and delete them: all waiting threads are resumed with an error, a reset queue is empty, and creating
  and deleting an object leaves the heap as it was.

  \<^bold>\<open>Delay, Keys, Ds18b20, Sram\<close> (\<open>delay.c\<close>, \<open>public.c\<close>, \<open>board.c\<close>, \<open>bsp_key.c\<close>, \<open>bsp_ds18b20.c\<close>,
  \<open>sram.c\<close>). The waits on the system timer with the pulses between two reads of it as a parameter,
  the push buttons, the outdoor sensor on its line, the copies to and from the external memory.

  \<^bold>\<open>Pins\<close>. \<open>HAL_GPIO_Init\<close> of the vendor library on the registers of the ports, and the pin set-up of
  all drivers in the order of \<open>board.c\<close>: each pin ends as its driver needs it.

  No recursion has fuel: every loop is structural or carries a termination proof (the loops over
  touch scans by the number of scans left, the loop over messages by the answers left), and the loops
  that may not end (the calibration, the waits for the flags of the network controller, the
  receive loop, the threads on the event) are \<open>partial_function\<close>s in the option monad; where a property
  says that they return, it says that the value is \<open>Some\<close>.

  Not modelled: the registers of the timers, the converter, the serial ports and the memory
  controller, the clocks and the external interrupt lines, all set through the vendor library; the
  tables of fonts and pictures (a parameter of \<open>Lcd_Draw\<close>); the samples \<open>messagequeue.c\<close> and \<open>timer.c\<close>
  and the counting threads of \<open>mutex.c\<close>, which nothing else calls; the lwIP stack and its web server,
  the scheduler, the timers and the rest of RT-Thread and of the vendor
  library, which are third-party code; what is printed on the console.
\<close>

end
